(* ===== verification/Prelude.thy ===== *)
theory Prelude
  imports Main "HOL-Library.Word" "HOL-Library.Monad_Syntax"
begin

unbundle bit_operations_syntax

text \<open>
  Shared material of the development: machine integer types, the representation of words in
  memory, \<open>memcpy\<close> into and out of a buffer, C strings, and the generic list and word lemmas
  the components use.

  Conventions. A byte is an \<open>8 word\<close>. The host is little-endian (x86-64, the platform of the
  repository's binaries): an integer in memory is its bytes, least significant first. An access
  outside an object is undefined behaviour in C++ and the value \<open>None\<close> here, so a theorem whose
  conclusion is \<open>Some _\<close> says that no such access happens.
\<close>

section \<open>Machine types\<close>

type_synonym byte = "8 word"
type_synonym u16 = "16 word"
type_synonym u32 = "32 word"
type_synonym u64 = "64 word"

text \<open>Rewrite rules on buffers (lengths, reads after writes).\<close>

named_theorems buf_simps

lemma unat_byte_lt: "unat (b :: byte) < 256"
  using unsigned_less [of b] by simp

lemma unat_u16_lt: "unat (w :: u16) < 65536"
  using unsigned_less [of w] by simp

lemma unat_u32_lt: "unat (w :: u32) < 4294967296"
  using unsigned_less [of w] by simp

lemma unat_of_nat16: "n < 65536 \<Longrightarrow> unat (of_nat n :: u16) = n"
  by (simp add: unsigned_of_nat take_bit_nat_eq_self)

lemma unat_of_nat32: "n < 4294967296 \<Longrightarrow> unat (of_nat n :: u32) = n"
  by (simp add: unsigned_of_nat take_bit_nat_eq_self)

lemma ucast_of_nat_32_16: "(ucast (of_nat n :: u32) :: u16) = of_nat n"
  by (rule bit_word_eqI) (simp add: bit_simps bit_of_nat_iff)

lemma unat_add_of_nat16:
  assumes "unat a + n < 65536"
  shows "unat ((a :: u16) + of_nat n) = unat a + n"
proof -
  have "unat (of_nat n :: u16) = n" using assms by (simp add: unat_of_nat16)
  with assms show ?thesis using unat_add_lem [of a "of_nat n"] by simp
qed

lemma unat_drop: "unat (drop_bit n w) = unat w div 2 ^ n"
  by (simp only: unsigned_drop_bit_eq) (simp add: drop_bit_eq_div take_bit_nat_eq_self)

section \<open>Words in memory\<close>

text \<open>The first \<open>n\<close> bytes of a word in the memory of a little-endian host, and back.\<close>

primrec bytes_le :: "nat \<Rightarrow> 'a::len word \<Rightarrow> byte list" where
  "bytes_le 0 w = []"
| "bytes_le (Suc n) w = ucast w # bytes_le n (drop_bit 8 w)"

primrec word_le :: "byte list \<Rightarrow> 'a::len word" where
  "word_le [] = 0"
| "word_le (b # bs) = ucast b OR push_bit 8 (word_le bs)"

lemma length_bytes_le [simp, buf_simps]: "length (bytes_le n w) = n"
  by (induction n arbitrary: w) auto

lemma word_le_bytes_le_take: "word_le (bytes_le n w) = take_bit (8 * n) w"
proof (induction n arbitrary: w)
  case 0
  show ?case by simp
next
  case (Suc n)
  show ?case
    by (rule bit_word_eqI) (auto simp: Suc bit_simps)
qed

lemma word_le_bytes_le [simp]:
  "LENGTH('a) \<le> 8 * n \<Longrightarrow> word_le (bytes_le n (w :: 'a::len word)) = w"
  by (simp add: word_le_bytes_le_take take_bit_word_eq_self)

lemma drop_bit_word_le:
  assumes "8 * Suc (length bs) \<le> LENGTH('a)"
  shows "drop_bit 8 (push_bit 8 (word_le bs :: 'a::len word)) = word_le bs"
proof -
  have bound: "\<not> bit (word_le bs :: 'a word) m" if "8 * length bs \<le> m" for m
    using that
  proof (induction bs arbitrary: m)
    case Nil
    then show ?case by simp
  next
    case (Cons b bs)
    then show ?case by (auto simp: bit_simps dest: bit_imp_le_length)
  qed
  show ?thesis
  proof (rule bit_word_eqI)
    fix m
    assume "m < LENGTH('a)"
    show "bit (drop_bit 8 (push_bit 8 (word_le bs :: 'a word))) m = bit (word_le bs :: 'a word) m"
      using assms bound [of m] by (cases "8 * length bs \<le> m") (auto simp: bit_simps)
  qed
qed

lemma bytes_le_word_le:
  "8 * length bs \<le> LENGTH('a) \<Longrightarrow> bytes_le (length bs) (word_le bs :: 'a::len word) = bs"
proof (induction bs)
  case Nil
  then show ?case by simp
next
  case (Cons b bs)
  have low: "ucast (ucast b OR push_bit 8 (word_le bs) :: 'a word) = b"
    using Cons.prems by (intro bit_word_eqI) (auto simp: bit_simps dest: bit_imp_le_length)
  have b0: "drop_bit 8 (ucast b :: 'a word) = 0"
    by (intro bit_word_eqI) (auto simp: bit_simps dest: bit_imp_le_length)
  have "drop_bit 8 (ucast b OR push_bit 8 (word_le bs) :: 'a word) = word_le bs"
    using drop_bit_word_le [of bs] Cons.prems b0 by (simp add: drop_bit_or)
  with low Cons show ?case by simp
qed

text \<open>
  \<open>htons\<close>, \<open>htonl\<close> and the repository's own \<open>_htonll\<close> reverse the \<open>n\<close> bytes of a value in
  memory on a little-endian host; \<open>ntohs\<close>, \<open>ntohl\<close> and \<open>_ntohll\<close> are the same functions.
\<close>

definition bswap :: "nat \<Rightarrow> 'a::len word \<Rightarrow> 'a word" where
  "bswap n w = word_le (rev (bytes_le n w))"

definition htons :: "u16 \<Rightarrow> u16" where
  "htons w = bswap 2 w"

definition htonl :: "u32 \<Rightarrow> u32" where
  "htonl w = bswap 4 w"

lemma bytes_le_bswap [simp]:
  "8 * n \<le> LENGTH('a) \<Longrightarrow> bytes_le n (bswap n (w :: 'a::len word)) = rev (bytes_le n w)"
  using bytes_le_word_le [of "rev (bytes_le n w)", where 'a = 'a] by (simp add: bswap_def)

lemma bswap_word_le:
  "8 * length bs \<le> LENGTH('a) \<Longrightarrow>
   bswap (length bs) (word_le bs :: 'a::len word) = word_le (rev bs)"
  by (simp add: bswap_def bytes_le_word_le)

lemma bswap_bswap [simp]:
  "LENGTH('a) = 8 * n \<Longrightarrow> bswap n (bswap n (w :: 'a::len word)) = w"
  by (subst bswap_def) simp

lemma htons_htons [simp]: "htons (htons w) = w"
  by (simp add: htons_def)

lemma htonl_htonl [simp]: "htonl (htonl w) = w"
  by (simp add: htonl_def)

section \<open>Buffers\<close>

text \<open>\<open>memcpy(out, buf + pos, n)\<close> and \<open>memcpy(buf + pos, src, length src)\<close>.\<close>

definition read_at :: "nat \<Rightarrow> nat \<Rightarrow> 'a list \<Rightarrow> 'a list option" where
  "read_at pos n buf = (if pos + n \<le> length buf then Some (take n (drop pos buf)) else None)"

definition write_at :: "nat \<Rightarrow> 'a list \<Rightarrow> 'a list \<Rightarrow> 'a list option" where
  "write_at pos src buf =
     (if pos + length src \<le> length buf
      then Some (take pos buf @ src @ drop (pos + length src) buf) else None)"

lemma read_at_Some [buf_simps]:
  "pos + n \<le> length buf \<Longrightarrow> read_at pos n buf = Some (take n (drop pos buf))"
  by (simp add: read_at_def)

lemma write_at_Some [buf_simps]:
  "pos + length src \<le> length buf \<Longrightarrow>
   write_at pos src buf = Some (take pos buf @ src @ drop (pos + length src) buf)"
  by (simp add: write_at_def)

lemma write_at_None: "write_at pos src buf = None \<longleftrightarrow> length buf < pos + length src"
  by (auto simp: write_at_def)

lemma read_at_None: "read_at pos n buf = None \<longleftrightarrow> length buf < pos + n"
  by (auto simp: read_at_def)

lemma length_write_at: "write_at pos src buf = Some buf' \<Longrightarrow> length buf' = length buf"
  by (auto simp: write_at_def split: if_splits)

lemma length_read_at: "read_at pos n buf = Some bs \<Longrightarrow> length bs = n"
  by (auto simp: read_at_def split: if_splits)

lemma read_at_butlast:
  "read_at pos n buf = Some s \<Longrightarrow> read_at pos (n - 1) buf = Some (butlast s)"
  by (auto simp: read_at_def butlast_take split: if_splits)

lemma read_at_append_mid [buf_simps]:
  "length xs = pos \<Longrightarrow> length ys = n \<Longrightarrow> read_at pos n (xs @ ys @ zs) = Some ys"
  by (simp add: read_at_def)

lemma write_at_append_mid [buf_simps]:
  "length xs = pos \<Longrightarrow> length ys = length src \<Longrightarrow>
   write_at pos src (xs @ ys @ zs) = Some (xs @ src @ zs)"
  by (simp add: write_at_def)

text \<open>
  The same with \<open>int\<close> arguments: a negative count converts to a huge \<open>size_t\<close>, a negative offset
  lies before the object. \<open>memcpy_in\<close> copies inside one object, where \<open>memcpy\<close> requires the two
  ranges to be disjoint.
\<close>

definition read_i :: "int \<Rightarrow> int \<Rightarrow> 'a list \<Rightarrow> 'a list option" where
  "read_i pos n buf = (if 0 \<le> pos \<and> 0 \<le> n then read_at (nat pos) (nat n) buf else None)"

definition write_i :: "int \<Rightarrow> 'a list \<Rightarrow> 'a list \<Rightarrow> 'a list option" where
  "write_i pos src buf = (if 0 \<le> pos then write_at (nat pos) src buf else None)"

definition memcpy_in :: "int \<Rightarrow> int \<Rightarrow> int \<Rightarrow> 'a list \<Rightarrow> 'a list option" where
  "memcpy_in dst src n buf =
     (if 0 < n \<and> dst < src + n \<and> src < dst + n then None
      else Option.bind (read_i src n buf) (\<lambda>bs. write_i dst bs buf))"

lemma read_i_nat [simp]: "read_i (int pos) (int n) buf = read_at pos n buf"
  by (simp add: read_i_def)

lemma write_i_nat [simp]: "write_i (int pos) src buf = write_at pos src buf"
  by (simp add: write_i_def)

lemma read_i_0 [simp]: "read_i 0 (int n) buf = read_at 0 n buf"
  by (simp add: read_i_def)

lemma write_i_0 [simp]: "write_i 0 src buf = write_at 0 src buf"
  by (simp add: write_i_def)

lemma read_i_negative: "n < 0 \<Longrightarrow> read_i pos n buf = None"
  by (simp add: read_i_def)

section \<open>C strings and C integers\<close>

text \<open>The C string that starts at the head of \<open>bs\<close>; without a terminator in the object the
  reader runs out of it.\<close>

definition cstring :: "byte list \<Rightarrow> byte list option" where
  "cstring bs = (if 0 \<in> set bs then Some (takeWhile (\<lambda>b. b \<noteq> 0) bs) else None)"

lemma cstring_append_0: "0 \<notin> set s \<Longrightarrow> cstring (s @ 0 # rest) = Some s"
  by (auto simp: cstring_def takeWhile_append)

text \<open>Signed 32-bit results: overflow is undefined behaviour.\<close>

definition cint :: "int \<Rightarrow> int option" where
  "cint x = (if - (2 ^ 31) \<le> x \<and> x < 2 ^ 31 then Some x else None)"

lemma cint_Some [simp]: "- (2 ^ 31) \<le> x \<Longrightarrow> x < 2 ^ 31 \<Longrightarrow> cint x = Some x"
  by (simp add: cint_def)

end
