(* ===== verification/ShmHash.thy ===== *)
theory ShmHash
  imports Prelude
begin

text \<open>
  The hash map for shared memory: \<open>CHashMap\<close> (\<open>include/HashMap.hpp\<close>, \<open>HashMapImp.hpp\<close>) and the locked interface
  \<open>CShmHashMap\<close> (\<open>include/ShmHashMap.hpp\<close>). The nodes lie in one block, and all links are offsets into it (handlers), with
  -1 for none; a pointer to a node is its offset. Every node is in the chain of its bucket, or in the free list, and every
  node in use also in the additional list, which is in the order of use. The chunks that hold the values
  (\<open>CChunkAllocator\<close>, of which the repository has only the declaration) are a parameter, as are the hash function and
  the time; times and counts of use are integers. \<open>None\<close> is a chain without end, or a division by zero. The semaphore serialises the operations of \<open>CShmHashMap\<close>,
  which are modelled one after the other.
\<close>

section \<open>State\<close>

definition INVALID_BC_MEM_HANDLER :: int where "INVALID_BC_MEM_HANDLER = - 1"

definition NODE_FLAG_UNCHG :: int where "NODE_FLAG_UNCHG = 0"
definition NODE_FLAG_DIRTY :: int where "NODE_FLAG_DIRTY = 1"

record 'k hash_node =
  key :: 'k
  chunk_len :: int
  chunk_head :: int
  node_prev :: int
  node_next :: int
  add_prev :: int
  add_next :: int
  add_info_1 :: int
  add_info_2 :: int
  flag :: int

text \<open>The header, the nodes by their offset, and the allocator; \<open>first_node\<close> and \<open>node_size\<close> give the place of the nodes, and
  \<open>pool_size\<close> is the distance from \<open>pool_\<close> to \<open>pool_tail_\<close>.\<close>

record ('k, 'a) hash_map =
  node_total :: int
  bucket_size :: int
  used_node_num :: int
  used_bucket_num :: int
  add_head :: int
  add_tail :: int
  free_list :: int
  bucket :: "int list"
  nodes :: "int \<Rightarrow> 'k hash_node"
  first_node :: int
  node_size :: int
  pool_size :: int
  allocator :: 'a

text \<open>\<open>merge\<close> gets the size of the buffer and gives the result, the bytes it has written, and the length it reports.\<close>

record 'a chunk_api =
  c_get_chunk_num :: "int \<Rightarrow> 'a \<Rightarrow> int"
  c_malloc :: "int \<Rightarrow> 'a \<Rightarrow> int \<times> 'a"
  c_free :: "int \<Rightarrow> 'a \<Rightarrow> 'a"
  c_split :: "int \<Rightarrow> byte list \<Rightarrow> 'a \<Rightarrow> 'a"
  c_merge :: "int \<Rightarrow> int \<Rightarrow> int \<Rightarrow> 'a \<Rightarrow> int \<times> byte list \<times> int"
  c_free_num :: "'a \<Rightarrow> int"
  c_open :: "bool \<Rightarrow> int \<Rightarrow> int \<Rightarrow> 'a \<Rightarrow> int \<times> 'a"

record ('k, 'a) hash_env =
  h_func :: "'k \<Rightarrow> u32"
  h_chunks :: "'a chunk_api"

definition set_node :: "int \<Rightarrow> ('k hash_node \<Rightarrow> 'k hash_node) \<Rightarrow> ('k, 'a) hash_map \<Rightarrow> ('k, 'a) hash_map" where
  "set_node p f m = m\<lparr>nodes := (nodes m)(p := f (nodes m p))\<rparr>"

definition handler2ptr :: "int \<Rightarrow> int option" where
  "handler2ptr h = (if h = INVALID_BC_MEM_HANDLER then None else Some h)"

definition ptr2handler :: "int \<Rightarrow> ('k, 'a) hash_map \<Rightarrow> int" where
  "ptr2handler p m = (if p < 0 \<or> p \<ge> pool_size m then INVALID_BC_MEM_HANDLER else p)"

section \<open>Lists of nodes\<close>

definition init_node :: "int \<Rightarrow> ('k, 'a) hash_map \<Rightarrow> ('k, 'a) hash_map" where
  "init_node p = set_node p (\<lambda>n. n\<lparr>chunk_len := 0, add_info_1 := 0, add_info_2 := 0, flag := NODE_FLAG_UNCHG,
     chunk_head := INVALID_BC_MEM_HANDLER, node_next := INVALID_BC_MEM_HANDLER, node_prev := INVALID_BC_MEM_HANDLER,
     add_next := INVALID_BC_MEM_HANDLER, add_prev := INVALID_BC_MEM_HANDLER\<rparr>)"

definition free_list_insert :: "int \<Rightarrow> ('k, 'a) hash_map \<Rightarrow> ('k, 'a) hash_map" where
  "free_list_insert p m = (set_node p (\<lambda>n. n\<lparr>node_next := free_list m\<rparr>) m)\<lparr>free_list := ptr2handler p m\<rparr>"

definition free_list_remove :: "('k, 'a) hash_map \<Rightarrow> int option \<times> ('k, 'a) hash_map" where
  "free_list_remove m =
     (case handler2ptr (free_list m) of
        None \<Rightarrow> (None, m)
      | Some p \<Rightarrow> (Some p, set_node p (\<lambda>n. n\<lparr>node_next := INVALID_BC_MEM_HANDLER\<rparr>)
                            (m\<lparr>free_list := node_next (nodes m p)\<rparr>)))"

definition get_bucket_id :: "('k, 'a) hash_env \<Rightarrow> 'k \<Rightarrow> ('k, 'a) hash_map \<Rightarrow> nat option" where
  "get_bucket_id env k m = (if bucket_size m = 0 then None else Some (unat (h_func env k mod word_of_int (bucket_size m))))"

partial_function (option) list_len_loop :: "int \<Rightarrow> nat \<Rightarrow> ('k, 'a) hash_map \<Rightarrow> nat option" where
  "list_len_loop h num m = (case handler2ptr h of None \<Rightarrow> Some num | Some p \<Rightarrow> list_len_loop (node_next (nodes m p)) (num + 1) m)"

definition get_bucket_list_len :: "nat \<Rightarrow> ('k, 'a) hash_map \<Rightarrow> nat option" where
  "get_bucket_list_len b m = list_len_loop (bucket m ! b) 0 m"

definition insert_node_list :: "('k, 'a) hash_env \<Rightarrow> int \<Rightarrow> ('k, 'a) hash_map \<Rightarrow> ('k, 'a) hash_map option" where
  "insert_node_list env p m = do {
     b \<leftarrow> get_bucket_id env (key (nodes m p)) m;
     let hdr = ptr2handler p m;
     let next = bucket m ! b;
     let m1 = (set_node p (\<lambda>n. n\<lparr>node_next := next, node_prev := INVALID_BC_MEM_HANDLER\<rparr>) m)\<lparr>bucket := (bucket m)[b := hdr]\<rparr>;
     let m2 = (case handler2ptr next of None \<Rightarrow> m1 | Some q \<Rightarrow> set_node q (\<lambda>n. n\<lparr>node_prev := hdr\<rparr>) m1);
     Some (m2\<lparr>used_node_num := used_node_num m + 1\<rparr>) }"

definition delete_from_node_list :: "('k, 'a) hash_env \<Rightarrow> int \<Rightarrow> ('k, 'a) hash_map \<Rightarrow> ('k, 'a) hash_map option" where
  "delete_from_node_list env p m = do {
     let next = node_next (nodes m p);
     let prev = node_prev (nodes m p);
     let m1 = (case handler2ptr prev of None \<Rightarrow> m | Some q \<Rightarrow> set_node q (\<lambda>n. n\<lparr>node_next := node_next (nodes m p)\<rparr>) m);
     let m2 = (case handler2ptr next of None \<Rightarrow> m1 | Some q \<Rightarrow> set_node q (\<lambda>n. n\<lparr>node_prev := node_prev (nodes m1 p)\<rparr>) m1);
     b \<leftarrow> get_bucket_id env (key (nodes m2 p)) m2;
     let m3 = (if ptr2handler p m2 = bucket m2 ! b then m2\<lparr>bucket := (bucket m2)[b := next]\<rparr> else m2);
     let m4 = set_node p (\<lambda>n. n\<lparr>node_next := INVALID_BC_MEM_HANDLER, node_prev := INVALID_BC_MEM_HANDLER\<rparr>) m3;
     Some (m4\<lparr>used_node_num := used_node_num m - 1\<rparr>) }"

definition delete_from_add_list :: "int \<Rightarrow> ('k, 'a) hash_map \<Rightarrow> ('k, 'a) hash_map" where
  "delete_from_add_list p m =
     (let hdr = ptr2handler p m; next = add_next (nodes m p); prev = add_prev (nodes m p)
      in if next = INVALID_BC_MEM_HANDLER \<and> prev = INVALID_BC_MEM_HANDLER \<and> add_head m \<noteq> hdr \<and> add_tail m \<noteq> hdr then m
         else (let m1 = (case handler2ptr prev of None \<Rightarrow> m
                         | Some q \<Rightarrow> set_node q (\<lambda>n. n\<lparr>add_next := add_next (nodes m p)\<rparr>) m);
                   m2 = (case handler2ptr next of None \<Rightarrow> m1
                         | Some q \<Rightarrow> set_node q (\<lambda>n. n\<lparr>add_prev := add_prev (nodes m1 p)\<rparr>) m1);
                   m3 = (if add_head m2 = hdr then m2\<lparr>add_head := next\<rparr> else m2);
                   m4 = (if add_tail m3 = hdr then m3\<lparr>add_tail := prev\<rparr> else m3)
               in set_node p (\<lambda>n. n\<lparr>add_prev := INVALID_BC_MEM_HANDLER, add_next := INVALID_BC_MEM_HANDLER\<rparr>) m4))"

definition insert_add_list_head :: "int \<Rightarrow> ('k, 'a) hash_map \<Rightarrow> ('k, 'a) hash_map" where
  "insert_add_list_head p m0 =
     (let m = delete_from_add_list p m0;
          hdr = ptr2handler p m;
          m1 = (set_node p (\<lambda>n. n\<lparr>add_next := add_head m\<rparr>) m)\<lparr>add_head := hdr\<rparr>;
          m2 = (if add_tail m1 = INVALID_BC_MEM_HANDLER then m1\<lparr>add_tail := hdr\<rparr> else m1);
          m3 = set_node p (\<lambda>n. n\<lparr>add_prev := INVALID_BC_MEM_HANDLER\<rparr>) m2
      in case handler2ptr (add_next (nodes m3 p)) of None \<Rightarrow> m3 | Some q \<Rightarrow> set_node q (\<lambda>n. n\<lparr>add_prev := hdr\<rparr>) m3)"

definition insert_add_list_tail :: "int \<Rightarrow> ('k, 'a) hash_map \<Rightarrow> ('k, 'a) hash_map" where
  "insert_add_list_tail p m0 =
     (let m = delete_from_add_list p m0;
          hdr = ptr2handler p m;
          m1 = (set_node p (\<lambda>n. n\<lparr>add_prev := add_tail m\<rparr>) m)\<lparr>add_tail := hdr\<rparr>;
          m2 = (if add_head m1 = INVALID_BC_MEM_HANDLER then m1\<lparr>add_head := hdr\<rparr> else m1);
          m3 = set_node p (\<lambda>n. n\<lparr>add_next := INVALID_BC_MEM_HANDLER\<rparr>) m2
      in case handler2ptr (add_prev (nodes m3 p)) of None \<Rightarrow> m3 | Some q \<Rightarrow> set_node q (\<lambda>n. n\<lparr>add_next := hdr\<rparr>) m3)"

definition get_add_list_head :: "('k, 'a) hash_map \<Rightarrow> int option" where
  "get_add_list_head m = handler2ptr (add_head m)"

definition get_add_list_tail :: "('k, 'a) hash_map \<Rightarrow> int option" where
  "get_add_list_tail m = handler2ptr (add_tail m)"

definition get_add_list_prev :: "int \<Rightarrow> ('k, 'a) hash_map \<Rightarrow> int option" where
  "get_add_list_prev p m = handler2ptr (add_prev (nodes m p))"

definition get_add_list_next :: "int \<Rightarrow> ('k, 'a) hash_map \<Rightarrow> int option" where
  "get_add_list_next p m = handler2ptr (add_next (nodes m p))"

definition get_bucket_list_head :: "nat \<Rightarrow> ('k, 'a) hash_map \<Rightarrow> int option option" where
  "get_bucket_list_head b m = (if int b < bucket_size m then Some (handler2ptr (bucket m ! b)) else None)"

definition get_bucket_list_prev :: "int \<Rightarrow> ('k, 'a) hash_map \<Rightarrow> int option" where
  "get_bucket_list_prev p m = handler2ptr (node_prev (nodes m p))"

definition get_bucket_list_next :: "int \<Rightarrow> ('k, 'a) hash_map \<Rightarrow> int option" where
  "get_bucket_list_next p m = handler2ptr (node_next (nodes m p))"

section \<open>Operations\<close>

definition use_node :: "('k, 'a) hash_env \<Rightarrow> int \<Rightarrow> 'k \<Rightarrow> int \<Rightarrow> int \<Rightarrow> ('k, 'a) hash_map \<Rightarrow> ('k, 'a) hash_map option" where
  "use_node env p k len head m = do {
     let m1 = set_node p (\<lambda>n. n\<lparr>key := k, chunk_len := len, chunk_head := head, add_info_1 := 0, add_info_2 := 0\<rparr>) m;
     b \<leftarrow> get_bucket_id env (key (nodes m1 p)) m1;
     l \<leftarrow> get_bucket_list_len b m1;
     let m2 = (if l = 0 then m1\<lparr>used_bucket_num := used_bucket_num m1 + 1\<rparr> else m1);
     insert_node_list env p m2 }"

definition free_node :: "('k, 'a) hash_env \<Rightarrow> int \<Rightarrow> ('k, 'a) hash_map \<Rightarrow> ('k, 'a) hash_map option" where
  "free_node env p m = do {
     m1 \<leftarrow> delete_from_node_list env p m;
     let m2 = m1\<lparr>allocator := c_free (h_chunks env) (chunk_head (nodes m1 p)) (allocator m1)\<rparr>;
     b \<leftarrow> get_bucket_id env (key (nodes m2 p)) m2;
     l \<leftarrow> get_bucket_list_len b m2;
     let m3 = (if l = 0 then m2\<lparr>used_bucket_num := used_bucket_num m2 - 1\<rparr> else m2);
     Some (init_node p m3) }"

text \<open>What \<open>find_node\<close> and \<open>insert_node\<close> do to the node they return; \<open>now\<close> is the time.\<close>

definition touch :: "int \<Rightarrow> int \<Rightarrow> ('k, 'a) hash_map \<Rightarrow> ('k, 'a) hash_map" where
  "touch now p m = insert_add_list_head p (set_node p (\<lambda>n. n\<lparr>add_info_1 := now, add_info_2 := add_info_2 n + 1\<rparr>) m)"

partial_function (option) find_loop :: "int \<Rightarrow> 'k \<Rightarrow> int \<Rightarrow> ('k, 'a) hash_map \<Rightarrow> (int option \<times> ('k, 'a) hash_map) option" where
  "find_loop now k h m =
     (case handler2ptr h of
        None \<Rightarrow> Some (None, m)
      | Some p \<Rightarrow> if key (nodes m p) = k then Some (Some p, touch now p m) else find_loop now k (node_next (nodes m p)) m)"

definition find_node :: "('k, 'a) hash_env \<Rightarrow> int \<Rightarrow> 'k \<Rightarrow> ('k, 'a) hash_map \<Rightarrow> (int option \<times> ('k, 'a) hash_map) option" where
  "find_node env now k m = do { b \<leftarrow> get_bucket_id env k m; find_loop now k (bucket m ! b) m }"

definition insert_node ::
    "('k, 'a) hash_env \<Rightarrow> int \<Rightarrow> 'k \<Rightarrow> byte list \<Rightarrow> ('k, 'a) hash_map \<Rightarrow> (int option \<times> ('k, 'a) hash_map) option" where
  "insert_node env now k data m = (case free_list_remove m of
     (None, m1) \<Rightarrow> Some (None, m1)
   | (Some p, m1) \<Rightarrow>
       (let n = c_get_chunk_num (h_chunks env) (int (length data)) (allocator m1);
            (head, a) = c_malloc (h_chunks env) n (allocator m1);
            m2 = m1\<lparr>allocator := a\<rparr>
        in if head = INVALID_BC_MEM_HANDLER then Some (None, free_list_insert p m2)
           else do {
             let m3 = m2\<lparr>allocator := c_split (h_chunks env) head data a\<rparr>;
             m4 \<leftarrow> use_node env p k (int (length data)) head m3;
             Some (Some p, touch now p m4) }))"

text \<open>What the caller wants of the old value: nothing, its length, or its bytes in a buffer of some size; the value handed back.\<close>

datatype old_request = NoOldData | OldLength | OldData int

definition old_data ::
    "('k, 'a) hash_env \<Rightarrow> old_request \<Rightarrow> int \<Rightarrow> ('k, 'a) hash_map \<Rightarrow> (byte list \<times> int) option" where
  "old_data env req p m = (case req of
     NoOldData \<Rightarrow> Some ([], 0)
   | OldLength \<Rightarrow> Some ([], chunk_len (nodes m p))
   | OldData room \<Rightarrow>
       (let (r, bs, l) = c_merge (h_chunks env) (chunk_head (nodes m p)) (chunk_len (nodes m p)) room (allocator m)
        in if r \<noteq> 0 then None else Some (bs, l)))"

definition change_data ::
    "('k, 'a) hash_env \<Rightarrow> int \<Rightarrow> byte list \<Rightarrow> ('k, 'a) hash_map \<Rightarrow> int option \<times> ('k, 'a) hash_map" where
  "change_data env p data m =
     (let len = int (length data);
          old_num = c_get_chunk_num (h_chunks env) (chunk_len (nodes m p)) (allocator m);
          new_num = c_get_chunk_num (h_chunks env) len (allocator m)
      in if old_num \<noteq> new_num then
           (if new_num > old_num \<and> c_free_num (h_chunks env) (allocator m) < new_num - old_num then (None, m)
            else (let a1 = c_free (h_chunks env) (chunk_head (nodes m p)) (allocator m);
                      (head, a2) = c_malloc (h_chunks env) new_num a1;
                      a3 = c_split (h_chunks env) head data a2
                  in (Some p, set_node p (\<lambda>n. n\<lparr>chunk_len := len, chunk_head := head\<rparr>) (m\<lparr>allocator := a3\<rparr>))))
         else (Some p, set_node p (\<lambda>n. n\<lparr>chunk_len := len\<rparr>)
                         (m\<lparr>allocator := c_split (h_chunks env) (chunk_head (nodes m p)) data (allocator m)\<rparr>)))"

definition update_node ::
    "('k, 'a) hash_env \<Rightarrow> old_request \<Rightarrow> int \<Rightarrow> byte list \<Rightarrow> ('k, 'a) hash_map \<Rightarrow>
     int option \<times> (byte list \<times> int) option \<times> ('k, 'a) hash_map" where
  "update_node env req p data m =
     (case old_data env req p m of
        None \<Rightarrow> (None, None, m)
      | Some old \<Rightarrow> (let (r, m1) = change_data env p data m in (r, Some old, m1)))"

definition replace_node ::
    "('k, 'a) hash_env \<Rightarrow> int \<Rightarrow> old_request \<Rightarrow> 'k \<Rightarrow> byte list \<Rightarrow> ('k, 'a) hash_map \<Rightarrow>
     (int option \<times> (byte list \<times> int) option \<times> ('k, 'a) hash_map) option" where
  "replace_node env now req k data m = do {
     (r, m1) \<leftarrow> find_node env now k m;
     (case r of
        Some p \<Rightarrow> Some (update_node env req p data m1)
      | None \<Rightarrow> map_option (\<lambda>(r, m2). (r, None, m2)) (insert_node env now k data m1)) }"

definition delete_node ::
    "('k, 'a) hash_env \<Rightarrow> old_request \<Rightarrow> int \<Rightarrow> ('k, 'a) hash_map \<Rightarrow>
     (int \<times> (byte list \<times> int) option \<times> ('k, 'a) hash_map) option" where
  "delete_node env req p m = (case old_data env req p m of
     None \<Rightarrow> Some (- 1, None, m)
   | Some old \<Rightarrow> do {
       m1 \<leftarrow> free_node env p (delete_from_add_list p m);
       Some (0, Some old, free_list_insert p m1) })"

text \<open>The result, what has been written into the buffer, and the length reported; \<open>room\<close> is the size of the buffer, if there
  is one.\<close>

definition merge_node_data ::
    "('k, 'a) hash_env \<Rightarrow> int \<Rightarrow> int option \<Rightarrow> ('k, 'a) hash_map \<Rightarrow> int \<times> byte list \<times> int" where
  "merge_node_data env p room m = (case room of
     Some r \<Rightarrow> c_merge (h_chunks env) (chunk_head (nodes m p)) (chunk_len (nodes m p)) r (allocator m)
   | None \<Rightarrow> (- 1, [], chunk_len (nodes m p)))"

section \<open>Setting up\<close>

primrec init_nodes :: "nat \<Rightarrow> int \<Rightarrow> ('k, 'a) hash_map \<Rightarrow> ('k, 'a) hash_map" where
  "init_nodes 0 i m = m"
| "init_nodes (Suc n) i m =
     (let p = first_node m + i * node_size m in init_nodes n (i + 1) (free_list_insert p (init_node p m)))"

definition init_pool_data :: "int \<Rightarrow> int \<Rightarrow> ('k, 'a) hash_map \<Rightarrow> ('k, 'a) hash_map" where
  "init_pool_data n_nodes buckets m =
     init_nodes (nat n_nodes) 0
       (m\<lparr>node_total := n_nodes, bucket_size := buckets, used_node_num := 0, used_bucket_num := 0,
          add_head := INVALID_BC_MEM_HANDLER, add_tail := INVALID_BC_MEM_HANDLER, free_list := INVALID_BC_MEM_HANDLER,
          bucket := replicate (nat buckets) INVALID_BC_MEM_HANDLER\<rparr>)"

definition verify_pool_data :: "int \<Rightarrow> int \<Rightarrow> ('k, 'a) hash_map \<Rightarrow> bool option" where
  "verify_pool_data n_nodes buckets m =
     (if n_nodes \<noteq> node_total m then Some False
      else if buckets \<noteq> bucket_size m then Some False
      else if int (length (filter (\<lambda>h. h \<noteq> INVALID_BC_MEM_HANDLER) (bucket m))) \<noteq> used_bucket_num m then Some False
      else do { n \<leftarrow> list_len_loop (free_list m) 0 m; Some (used_node_num m + int n = node_total m) })"

text \<open>\<open>sizeof(THashMap) - sizeof(BC_MEM_HANDLER[1])\<close> is 40, and a handler has 8 bytes; \<open>ns\<close> is \<open>sizeof(node_t)\<close>.\<close>

definition get_pool_size :: "int \<Rightarrow> int \<Rightarrow> int \<Rightarrow> int" where
  "get_pool_size ns n_nodes buckets = 40 + buckets * 8 + n_nodes * ns"

definition hash_open ::
    "('k, 'a) hash_env \<Rightarrow> int \<Rightarrow> bool \<Rightarrow> int \<Rightarrow> int \<Rightarrow> int \<Rightarrow> int \<Rightarrow> ('k, 'a) hash_map \<Rightarrow> (int \<times> ('k, 'a) hash_map) option" where
  "hash_open env ns init n_nodes buckets n_chunks chunk_size m0 = do {
     let m = m0\<lparr>first_node := 40 + buckets * 8, node_size := ns, pool_size := get_pool_size ns n_nodes buckets\<rparr>;
     v \<leftarrow> (if init then Some True else verify_pool_data n_nodes buckets m);
     if \<not> v then Some (- 1000, m)
     else do {
       let m1 = (if init then init_pool_data n_nodes buckets m else m);
       let (r, a) = c_open (h_chunks env) init n_chunks chunk_size (allocator m1);
       Some (r, m1\<lparr>allocator := a\<rparr>) } }"

section \<open>CShmHashMap\<close>

definition shm_Find :: "('k, 'a) hash_env \<Rightarrow> int \<Rightarrow> 'k \<Rightarrow> ('k, 'a) hash_map \<Rightarrow> (bool \<times> ('k, 'a) hash_map) option" where
  "shm_Find env now k m = do { (r, m1) \<leftarrow> find_node env now k m; Some (r \<noteq> None, m1) }"

text \<open>The length is left alone when the key is not found.\<close>

definition shm_Find_data ::
    "('k, 'a) hash_env \<Rightarrow> int \<Rightarrow> 'k \<Rightarrow> int option \<Rightarrow> ('k, 'a) hash_map \<Rightarrow>
     ((int \<times> (byte list \<times> int) option) \<times> ('k, 'a) hash_map) option" where
  "shm_Find_data env now k room m = do {
     (r, m1) \<leftarrow> find_node env now k m;
     (case r of
        Some p \<Rightarrow> (let (r, bs, l) = merge_node_data env p room m1 in Some ((r, Some (bs, l)), m1))
      | None \<Rightarrow> Some ((- 1, None), m1)) }"

definition shm_Insert ::
    "('k, 'a) hash_env \<Rightarrow> int \<Rightarrow> 'k \<Rightarrow> byte list \<Rightarrow> ('k, 'a) hash_map \<Rightarrow> (int \<times> ('k, 'a) hash_map) option" where
  "shm_Insert env now k data m = do {
     (r, m1) \<leftarrow> insert_node env now k data m;
     Some (if r = None then - 1 else 0, m1) }"

definition shm_SetValue ::
    "('k, 'a) hash_env \<Rightarrow> int \<Rightarrow> 'k \<Rightarrow> byte list \<Rightarrow> ('k, 'a) hash_map \<Rightarrow> (int \<times> ('k, 'a) hash_map) option" where
  "shm_SetValue env now k data m = do {
     (r, _, m1) \<leftarrow> replace_node env now NoOldData k data m;
     Some (if r = None then - 1 else 0, m1) }"

definition shm_Delete :: "('k, 'a) hash_env \<Rightarrow> int \<Rightarrow> 'k \<Rightarrow> ('k, 'a) hash_map \<Rightarrow> (int \<times> ('k, 'a) hash_map) option" where
  "shm_Delete env now k m = do {
     (r, m1) \<leftarrow> find_node env now k m;
     (case r of
        Some p \<Rightarrow> map_option (\<lambda>(r, _, m2). (r, m2)) (delete_node env NoOldData p m1)
      | None \<Rightarrow> Some (- 1, m1)) }"

definition shm_GetSize :: "('k, 'a) hash_map \<Rightarrow> int" where
  "shm_GetSize m = node_total m"

definition shm_GetCount :: "('k, 'a) hash_map \<Rightarrow> int" where
  "shm_GetCount m = used_node_num m"

section \<open>The visitor of CShmHashMap\<close>

text \<open>A visitor holds the lock while it lives, walks through the additional list and works on the nodes it has reached.\<close>

definition vistor_used_size :: "('k, 'a) hash_map \<Rightarrow> int" where
  "vistor_used_size m = used_node_num m"

definition vistor_total_size :: "('k, 'a) hash_map \<Rightarrow> int" where
  "vistor_total_size m = node_total m"

definition vistor_begin :: "('k, 'a) hash_map \<Rightarrow> int option" where
  "vistor_begin m = get_add_list_head m"

definition vistor_end :: "('k, 'a) hash_map \<Rightarrow> int option" where
  "vistor_end m = get_add_list_tail m"

definition vistor_next :: "int \<Rightarrow> ('k, 'a) hash_map \<Rightarrow> int option" where
  "vistor_next p m = get_add_list_next p m"

definition vistor_prev :: "int \<Rightarrow> ('k, 'a) hash_map \<Rightarrow> int option" where
  "vistor_prev p m = get_add_list_prev p m"

definition vistor_GetData :: "('k, 'a) hash_env \<Rightarrow> int \<Rightarrow> int option \<Rightarrow> ('k, 'a) hash_map \<Rightarrow> int \<times> byte list \<times> int" where
  "vistor_GetData env p room m = merge_node_data env p room m"

definition vistor_Erase :: "('k, 'a) hash_env \<Rightarrow> int option \<Rightarrow> ('k, 'a) hash_map \<Rightarrow> (int \<times> ('k, 'a) hash_map) option" where
  "vistor_Erase env p m =
     (case p of None \<Rightarrow> Some (- 1, m) | Some p \<Rightarrow> map_option (\<lambda>(r, _, m1). (r, m1)) (delete_node env NoOldData p m))"

definition vistor_UpdateData ::
    "('k, 'a) hash_env \<Rightarrow> int option \<Rightarrow> byte list \<Rightarrow> ('k, 'a) hash_map \<Rightarrow> int option \<times> ('k, 'a) hash_map" where
  "vistor_UpdateData env p data m =
     (case p of None \<Rightarrow> (None, m) | Some p \<Rightarrow> (let (r, _, m1) = update_node env NoOldData p data m in (r, m1)))"

section \<open>Counters, flags and sizes\<close>

definition free_node_num :: "('k, 'a) hash_map \<Rightarrow> int" where
  "free_node_num m = node_total m - used_node_num m"

definition get_bucket_used :: "('k, 'a) hash_map \<Rightarrow> int" where
  "get_bucket_used m = used_bucket_num m"

definition free_bucket_num :: "('k, 'a) hash_map \<Rightarrow> int" where
  "free_bucket_num m = bucket_size m - used_bucket_num m"

definition set_node_flag :: "int \<Rightarrow> int \<Rightarrow> ('k, 'a) hash_map \<Rightarrow> ('k, 'a) hash_map" where
  "set_node_flag p f = set_node p (\<lambda>n. n\<lparr>flag := f\<rparr>)"

definition get_node_flag :: "int \<Rightarrow> ('k, 'a) hash_map \<Rightarrow> int" where
  "get_node_flag p m = flag (nodes m p)"

text \<open>The packed \<open>TChunkNode\<close> has 9 bytes and \<open>TChunk\<close> 29.\<close>

definition get_chunk_size :: "int \<Rightarrow> int" where
  "get_chunk_size chunk_size = 9 - 1 + chunk_size"

definition chunk_get_pool_size :: "int \<Rightarrow> int \<Rightarrow> int" where
  "chunk_get_pool_size n_chunks chunk_size = (29 - 9) + n_chunks * get_chunk_size chunk_size"

definition get_total_pool_size :: "int \<Rightarrow> int \<Rightarrow> int \<Rightarrow> int \<Rightarrow> int \<Rightarrow> int" where
  "get_total_pool_size ns n_nodes buckets n_chunks chunk_size =
     get_pool_size ns n_nodes buckets + chunk_get_pool_size n_chunks chunk_size"

end
