(* ===== verification/ShmHashProps.thy ===== *)
theory ShmHashProps
  imports ShmHash
begin

text \<open>
  The hash map of \<open>ShmHash\<close>: its invariant, what every operation does to the chains, the free list and the additional list,
  and the map and the order of use that \<open>CShmHashMap\<close> implements.
\<close>

section \<open>Chains\<close>

definition hd1 :: "int list \<Rightarrow> int \<Rightarrow> int" where
  "hd1 xs b = (case xs of [] \<Rightarrow> b | x # _ \<Rightarrow> x)"

definition last1 :: "int \<Rightarrow> int list \<Rightarrow> int" where
  "last1 a xs = (if xs = [] then a else last xs)"

lemma hd1_simps [simp]: "hd1 [] b = b" "hd1 (x # xs) b = x"
  by (simp_all add: hd1_def)

lemma last1_simps [simp]: "last1 a [] = a" "last1 a (xs @ [x]) = x" "last1 a (x # xs) = last1 x xs"
  by (simp_all add: last1_def)

lemma hd1_append [simp]: "hd1 (xs @ ys) b = hd1 xs (hd1 ys b)"
  by (cases xs) simp_all

lemma last1_append [simp]: "last1 a (xs @ ys) = last1 (last1 a xs) ys"
  by (simp add: last1_def)

lemma hd1_in: "xs \<noteq> [] \<Longrightarrow> hd1 xs b \<in> set xs"
  by (cases xs) simp_all

lemma last1_in: "xs \<noteq> [] \<Longrightarrow> last1 a xs \<in> set xs"
  by (simp add: last1_def)

text \<open>Doubly linked between \<open>a\<close> and \<open>b\<close>; and linked in one direction.\<close>

primrec seg :: "(int \<Rightarrow> int) \<Rightarrow> (int \<Rightarrow> int) \<Rightarrow> int \<Rightarrow> int list \<Rightarrow> int \<Rightarrow> bool" where
  "seg n p a [] b \<longleftrightarrow> True"
| "seg n p a (x # xs) b \<longleftrightarrow> p x = a \<and> n x = hd1 xs b \<and> seg n p x xs b"

primrec seg1 :: "(int \<Rightarrow> int) \<Rightarrow> int list \<Rightarrow> int \<Rightarrow> bool" where
  "seg1 n [] b \<longleftrightarrow> True"
| "seg1 n (x # xs) b \<longleftrightarrow> n x = hd1 xs b \<and> seg1 n xs b"

lemma seg_append: "seg n p a (xs @ ys) b \<longleftrightarrow> seg n p a xs (hd1 ys b) \<and> seg n p (last1 a xs) ys b"
  by (induction xs arbitrary: a) auto

lemma seg_seg1: "seg n p a xs b \<Longrightarrow> seg1 n xs b"
  by (induction xs arbitrary: a) auto

lemma seg_cong: "(\<forall>x \<in> set xs. n' x = n x \<and> p' x = p x) \<Longrightarrow> seg n' p' a xs b = seg n p a xs b"
  by (induction xs arbitrary: a) auto

lemma seg1_cong: "(\<forall>x \<in> set xs. n' x = n x) \<Longrightarrow> seg1 n' xs b = seg1 n xs b"
  by (induction xs) auto

lemma seg_at: "seg n p a (xs @ x # ys) b \<Longrightarrow> p x = last1 a xs \<and> n x = hd1 ys b"
  by (simp add: seg_append)

text \<open>An element taken out, and one put in front.\<close>

lemma seg_remove:
  assumes "seg n p a (xs @ x # ys) b" and "distinct (xs @ x # ys)"
    and n: "\<forall>z \<in> set (xs @ ys). n' z = (if xs \<noteq> [] \<and> z = last xs then n x else n z)"
    and p: "\<forall>z \<in> set (xs @ ys). p' z = (if ys \<noteq> [] \<and> z = hd ys then p x else p z)"
  shows "seg n' p' a (xs @ ys) b"
proof -
  have s: "seg n p a xs x" "p x = last1 a xs" "n x = hd1 ys b" "seg n p x ys b"
    using assms(1) by (simp_all add: seg_append)
  have p_xs: "p' z = p z" if "z \<in> set xs" for z
  proof -
    have "\<not> (ys \<noteq> [] \<and> z = hd ys)" using that assms(2) by (cases ys) auto
    then show ?thesis using p that by auto
  qed
  have n_ys: "n' z = n z" if "z \<in> set ys" for z
  proof -
    have "\<not> (xs \<noteq> [] \<and> z = last xs)" using that assms(2) by (cases xs rule: rev_cases) auto
    then show ?thesis using n that by auto
  qed
  have "seg n' p' a xs (hd1 ys b)"
  proof (cases xs rule: rev_cases)
    case (snoc us u)
    have "\<forall>z \<in> set us. n' z = n z \<and> p' z = p z" using n p_xs assms(2) snoc by auto
    from seg_cong [OF this] have "seg n' p' a us u = seg n p a us u" .
    moreover have "n' u = hd1 ys b" "p' u = p u" using n p_xs s(3) snoc by simp_all
    ultimately show ?thesis using s(1) snoc by (simp add: seg_append)
  qed simp
  moreover have "seg n' p' (last1 a xs) ys b"
  proof (cases ys)
    case (Cons y vs)
    have "\<forall>z \<in> set vs. n' z = n z \<and> p' z = p z" using n_ys p assms(2) Cons by auto
    from seg_cong [OF this] have "seg n' p' y vs b = seg n p y vs b" .
    moreover have "p' y = last1 a xs" "n' y = n y" using p n_ys s(2) Cons by simp_all
    ultimately show ?thesis using s(4) Cons by simp
  qed simp
  ultimately show ?thesis by (simp add: seg_append)
qed

lemma seg_front:
  assumes "seg n p a xs b" and "x \<notin> set xs" "distinct xs" and "n' x = hd1 xs b" "p' x = a"
    and n: "\<forall>z \<in> set xs. n' z = n z" and p: "\<forall>z \<in> set xs. p' z = (if z = hd xs then x else p z)"
  shows "seg n' p' a (x # xs) b"
proof (cases xs)
  case (Cons y ys)
  then have "seg n' p' y ys b = seg n p y ys b" using n p assms(3) by (intro seg_cong) auto
  then show ?thesis using assms Cons by simp
qed (use assms in simp)

lemma seg_end:
  assumes "seg n p a xs b" and "x \<notin> set xs" "distinct xs" and "n' x = b'" "p' x = last1 a xs"
    and n: "\<forall>z \<in> set xs. n' z = (if z = last xs then x else n z)" and p: "\<forall>z \<in> set xs. p' z = p z"
  shows "seg n' p' a (xs @ [x]) b'"
proof (cases xs rule: rev_cases)
  case (snoc us u)
  have "\<forall>z \<in> set us. n' z = n z \<and> p' z = p z" using n p snoc assms(3) by auto
  from seg_cong [OF this] have "seg n' p' a us u = seg n p a us u" .
  then show ?thesis using assms snoc by (simp add: seg_append)
qed (use assms in simp)

section \<open>The invariant\<close>

definition buckets_ok :: "('k, 'a) hash_env \<Rightarrow> ('k, 'a) hash_map \<Rightarrow> (nat \<Rightarrow> int list) \<Rightarrow> bool" where
  "buckets_ok env m bs \<longleftrightarrow> 0 < bucket_size m \<and> bucket_size m < 2 ^ 31 \<and> length (bucket m) = nat (bucket_size m) \<and>
     (\<forall>b < length (bucket m). seg (\<lambda>p. node_next (nodes m p)) (\<lambda>p. node_prev (nodes m p)) (- 1) (bs b) (- 1) \<and>
        bucket m ! b = hd1 (bs b) (- 1) \<and> distinct (bs b) \<and>
        (\<forall>p \<in> set (bs b). get_bucket_id env (key (nodes m p)) m = Some b)) \<and>
     used_bucket_num m = int (card {b. b < length (bucket m) \<and> bs b \<noteq> []})"

definition free_ok :: "('k, 'a) hash_map \<Rightarrow> int list \<Rightarrow> bool" where
  "free_ok m fs \<longleftrightarrow> seg1 (\<lambda>p. node_next (nodes m p)) fs (- 1) \<and> free_list m = hd1 fs (- 1) \<and> distinct fs \<and>
     (\<forall>p \<in> set fs. add_next (nodes m p) = - 1 \<and> add_prev (nodes m p) = - 1)"

definition add_ok :: "('k, 'a) hash_map \<Rightarrow> int list \<Rightarrow> bool" where
  "add_ok m as \<longleftrightarrow> seg (\<lambda>p. add_next (nodes m p)) (\<lambda>p. add_prev (nodes m p)) (- 1) as (- 1) \<and>
     add_head m = hd1 as (- 1) \<and> add_tail m = last1 (- 1) as \<and> distinct as"

definition hash_ok :: "('k, 'a) hash_env \<Rightarrow> ('k, 'a) hash_map \<Rightarrow> (nat \<Rightarrow> int list) \<Rightarrow> int list \<Rightarrow> int list \<Rightarrow> bool" where
  "hash_ok env m bs fs as \<longleftrightarrow> buckets_ok env m bs \<and> free_ok m fs \<and> add_ok m as \<and>
     set as = (\<Union>b \<in> {..< length (bucket m)}. set (bs b)) \<and> set fs \<inter> set as = {} \<and>
     (\<forall>p \<in> set as \<union> set fs. 0 \<le> p \<and> p < pool_size m) \<and>
     used_node_num m = int (length as) \<and> node_total m = int (length as + length fs)"

lemma hash_okD:
  assumes "hash_ok env m bs fs as"
  shows "buckets_ok env m bs" "free_ok m fs" "add_ok m as" "set as = (\<Union>b \<in> {..< length (bucket m)}. set (bs b))"
    "set fs \<inter> set as = {}" "\<forall>p \<in> set as \<union> set fs. 0 \<le> p \<and> p < pool_size m"
    "used_node_num m = int (length as)" "node_total m = int (length as + length fs)"
  using assms unfolding hash_ok_def by blast+

lemma nodes_set_node [simp]:
  "nodes (set_node p f m) q = (if q = p then f (nodes m p) else nodes m q)"
  by (simp add: set_node_def)

lemma set_node_fields [simp]:
  "node_total (set_node p f m) = node_total m" "bucket_size (set_node p f m) = bucket_size m"
  "used_node_num (set_node p f m) = used_node_num m" "used_bucket_num (set_node p f m) = used_bucket_num m"
  "add_head (set_node p f m) = add_head m" "add_tail (set_node p f m) = add_tail m"
  "free_list (set_node p f m) = free_list m" "bucket (set_node p f m) = bucket m"
  "first_node (set_node p f m) = first_node m" "node_size (set_node p f m) = node_size m"
  "pool_size (set_node p f m) = pool_size m" "allocator (set_node p f m) = allocator m"
  by (simp_all add: set_node_def)

lemma ptr2handler_in: "0 \<le> p \<Longrightarrow> p < pool_size m \<Longrightarrow> ptr2handler p m = p"
  by (simp add: ptr2handler_def)

lemma handler2ptr_simps [simp]: "handler2ptr (- 1) = None" "0 \<le> p \<Longrightarrow> handler2ptr p = Some p"
  by (simp_all add: handler2ptr_def INVALID_BC_MEM_HANDLER_def)

lemma get_bucket_id_eq: "get_bucket_id env k m = get_bucket_id env k m' \<longleftrightarrow> True" if "bucket_size m = bucket_size m'"
  using that by (simp add: get_bucket_id_def)

lemma get_bucket_id_lt:
  assumes "buckets_ok env m bs"
  obtains b where "get_bucket_id env k m = Some b" "b < length (bucket m)"
proof -
  have s: "0 < bucket_size m" "bucket_size m < 2 ^ 31" "length (bucket m) = nat (bucket_size m)"
    using assms by (simp_all add: buckets_ok_def)
  then have u: "unat (word_of_int (bucket_size m) :: u32) = nat (bucket_size m)"
    by (simp add: unat_eq_nat_uint uint_word_of_int)
  have "unat (h_func env k mod word_of_int (bucket_size m)) < length (bucket m)"
    using s u by (simp add: unat_mod)
  then show thesis using s(1) by (intro that) (simp_all add: get_bucket_id_def)
qed

section \<open>The additional list\<close>

text \<open>Two maps that differ in the additional list only, or in the chains only.\<close>

definition erase_add :: "'k hash_node \<Rightarrow> 'k hash_node" where
  "erase_add n = n\<lparr>add_prev := 0, add_next := 0\<rparr>"

definition same_but_add :: "('k, 'a) hash_map \<Rightarrow> ('k, 'a) hash_map \<Rightarrow> bool" where
  "same_but_add m m' \<longleftrightarrow> (\<forall>q. erase_add (nodes m' q) = erase_add (nodes m q)) \<and>
     m'\<lparr>nodes := nodes m, add_head := add_head m, add_tail := add_tail m\<rparr> = m"

lemma same_but_add_nodes:
  assumes "same_but_add m m'"
  shows "key (nodes m' q) = key (nodes m q)" "chunk_len (nodes m' q) = chunk_len (nodes m q)"
    "chunk_head (nodes m' q) = chunk_head (nodes m q)" "node_prev (nodes m' q) = node_prev (nodes m q)"
    "node_next (nodes m' q) = node_next (nodes m q)" "add_info_1 (nodes m' q) = add_info_1 (nodes m q)"
    "add_info_2 (nodes m' q) = add_info_2 (nodes m q)" "flag (nodes m' q) = flag (nodes m q)"
proof -
  have e: "erase_add (nodes m' q) = erase_add (nodes m q)" using assms by (simp add: same_but_add_def)
  show "key (nodes m' q) = key (nodes m q)" using arg_cong [OF e, of key] by (simp add: erase_add_def)
  show "chunk_len (nodes m' q) = chunk_len (nodes m q)" using arg_cong [OF e, of chunk_len] by (simp add: erase_add_def)
  show "chunk_head (nodes m' q) = chunk_head (nodes m q)" using arg_cong [OF e, of chunk_head] by (simp add: erase_add_def)
  show "node_prev (nodes m' q) = node_prev (nodes m q)" using arg_cong [OF e, of node_prev] by (simp add: erase_add_def)
  show "node_next (nodes m' q) = node_next (nodes m q)" using arg_cong [OF e, of node_next] by (simp add: erase_add_def)
  show "add_info_1 (nodes m' q) = add_info_1 (nodes m q)" using arg_cong [OF e, of add_info_1] by (simp add: erase_add_def)
  show "add_info_2 (nodes m' q) = add_info_2 (nodes m q)" using arg_cong [OF e, of add_info_2] by (simp add: erase_add_def)
  show "flag (nodes m' q) = flag (nodes m q)" using arg_cong [OF e, of flag] by (simp add: erase_add_def)
qed

lemma same_but_add_header:
  assumes "same_but_add m m'"
  shows "node_total m' = node_total m" "bucket_size m' = bucket_size m" "used_node_num m' = used_node_num m"
    "used_bucket_num m' = used_bucket_num m" "free_list m' = free_list m" "bucket m' = bucket m"
    "first_node m' = first_node m" "node_size m' = node_size m" "pool_size m' = pool_size m" "allocator m' = allocator m"
proof -
  have e: "m'\<lparr>nodes := nodes m, add_head := add_head m, add_tail := add_tail m\<rparr> = m"
    using assms by (simp add: same_but_add_def)
  show "node_total m' = node_total m" using arg_cong [OF e, of node_total] by simp
  show "bucket_size m' = bucket_size m" using arg_cong [OF e, of bucket_size] by simp
  show "used_node_num m' = used_node_num m" using arg_cong [OF e, of used_node_num] by simp
  show "used_bucket_num m' = used_bucket_num m" using arg_cong [OF e, of used_bucket_num] by simp
  show "free_list m' = free_list m" using arg_cong [OF e, of free_list] by simp
  show "bucket m' = bucket m" using arg_cong [OF e, of bucket] by simp
  show "first_node m' = first_node m" using arg_cong [OF e, of first_node] by simp
  show "node_size m' = node_size m" using arg_cong [OF e, of node_size] by simp
  show "pool_size m' = pool_size m" using arg_cong [OF e, of pool_size] by simp
  show "allocator m' = allocator m" using arg_cong [OF e, of allocator] by simp
qed

lemma same_but_add_refl [simp]: "same_but_add m m"
  by (simp add: same_but_add_def)

lemma add_list_remove:
  assumes ok: "add_ok m (xs @ p # ys)" and pool: "\<forall>q \<in> set (xs @ p # ys). 0 \<le> q \<and> q < pool_size m"
  defines "m' \<equiv> delete_from_add_list p m"
  shows "same_but_add m m'" "add_ok m' (xs @ ys)" "add_next (nodes m' p) = - 1" "add_prev (nodes m' p) = - 1"
    "q \<notin> set (xs @ p # ys) \<Longrightarrow> nodes m' q = nodes m q"
proof -
  have s: "seg (\<lambda>p. add_next (nodes m p)) (\<lambda>p. add_prev (nodes m p)) (- 1) (xs @ p # ys) (- 1)"
    "add_head m = hd1 xs p" "add_tail m = last1 p ys" "distinct (xs @ p # ys)"
    using ok by (simp_all add: add_ok_def)
  have at: "add_prev (nodes m p) = last1 (- 1) xs" "add_next (nodes m p) = hd1 ys (- 1)"
    using seg_at [OF s(1)] by simp_all
  have hdl: "ptr2handler p m = p" using pool by (intro ptr2handler_in) auto
  have xs: "xs \<noteq> [] \<Longrightarrow> last xs \<in> set xs \<and> last xs \<noteq> p \<and> 0 \<le> last xs \<and> hd xs \<noteq> p"
    using s(4) pool last_in_set [of xs] hd_in_set [of xs] by auto
  have ys: "ys \<noteq> [] \<Longrightarrow> hd ys \<in> set ys \<and> hd ys \<noteq> p \<and> 0 \<le> hd ys \<and> last ys \<noteq> p"
    using s(4) pool last_in_set [of ys] hd_in_set [of ys] by auto
  have "u \<in> set xs \<Longrightarrow> v \<in> set ys \<Longrightarrow> u \<noteq> v" for u v using s(4) by auto
  then have ne: "xs \<noteq> [] \<Longrightarrow> ys \<noteq> [] \<Longrightarrow> last xs \<noteq> hd ys" by simp
  have h: "hd1 xs b = (if xs = [] then b else hd xs)" "hd1 ys b = (if ys = [] then b else hd ys)" for b
    by (auto simp: hd1_def split: list.split)
  have n: "add_next (nodes m' z) = (if z = p then - 1 else if xs \<noteq> [] \<and> z = last xs then add_next (nodes m p) else add_next (nodes m z))"
    and v: "add_prev (nodes m' z) = (if z = p then - 1 else if ys \<noteq> [] \<and> z = hd ys then add_prev (nodes m p) else add_prev (nodes m z))"
    and same: "same_but_add m m'" and hd: "add_head m' = hd1 (xs @ ys) (- 1)" and tl: "add_tail m' = last1 (- 1) (xs @ ys)"
    and other: "z \<notin> set (xs @ p # ys) \<Longrightarrow> nodes m' z = nodes m z" for z
  proof -
    show "add_next (nodes m' z) = (if z = p then - 1 else if xs \<noteq> [] \<and> z = last xs then add_next (nodes m p) else add_next (nodes m z))"
      using xs ys ne by (cases "xs = []"; cases "ys = []")
        (simp_all add: m'_def delete_from_add_list_def hdl at s(2,3) h last1_def Let_def INVALID_BC_MEM_HANDLER_def)
    show "add_prev (nodes m' z) = (if z = p then - 1 else if ys \<noteq> [] \<and> z = hd ys then add_prev (nodes m p) else add_prev (nodes m z))"
      using xs ys ne by (cases "xs = []"; cases "ys = []")
        (simp_all add: m'_def delete_from_add_list_def hdl at s(2,3) h last1_def Let_def INVALID_BC_MEM_HANDLER_def)
    have "erase_add (nodes m' z) = erase_add (nodes m z)" for z
      using xs ys ne by (cases "xs = []"; cases "ys = []")
        (simp_all add: m'_def delete_from_add_list_def hdl at s(2,3) h last1_def Let_def INVALID_BC_MEM_HANDLER_def erase_add_def)
    moreover have "m'\<lparr>nodes := nodes m, add_head := add_head m, add_tail := add_tail m\<rparr> = m"
      using xs ys ne by (cases "xs = []"; cases "ys = []")
        (simp_all add: m'_def delete_from_add_list_def hdl at s(2,3) h last1_def Let_def INVALID_BC_MEM_HANDLER_def set_node_def)
    ultimately show "same_but_add m m'" by (simp add: same_but_add_def)
    show "add_head m' = hd1 (xs @ ys) (- 1)" "add_tail m' = last1 (- 1) (xs @ ys)"
      using xs ys ne by (cases "xs = []"; cases "ys = []";
        simp add: m'_def delete_from_add_list_def hdl at s(2,3) h last1_def Let_def INVALID_BC_MEM_HANDLER_def)+
    show "nodes m' z = nodes m z" if "z \<notin> set (xs @ p # ys)"
    proof -
      have "z \<noteq> p" "xs \<noteq> [] \<Longrightarrow> z \<noteq> last xs" "ys \<noteq> [] \<Longrightarrow> z \<noteq> hd ys" using that xs ys by auto
      then show ?thesis using xs ys ne by (cases "xs = []"; cases "ys = []")
        (simp_all add: m'_def delete_from_add_list_def hdl at s(2,3) h last1_def Let_def INVALID_BC_MEM_HANDLER_def)
    qed
  qed
  show "same_but_add m m'" by (rule same)
  have "seg (\<lambda>q. add_next (nodes m' q)) (\<lambda>q. add_prev (nodes m' q)) (- 1) (xs @ ys) (- 1)"
    by (rule seg_remove [OF s(1,4)]) (use n v s(4) in auto)
  then show "add_ok m' (xs @ ys)" using hd tl s(4) by (simp add: add_ok_def)
  show "add_next (nodes m' p) = - 1" "add_prev (nodes m' p) = - 1" by (simp_all add: n v)
  show "nodes m' q = nodes m q" if "q \<notin> set (xs @ p # ys)" by (rule other [OF that])
qed

lemma same_but_add_trans: "same_but_add m m' \<Longrightarrow> same_but_add m' m'' \<Longrightarrow> same_but_add m m''"
proof -
  assume a: "same_but_add m m'" "same_but_add m' m''"
  have e: "m'\<lparr>nodes := nodes m, add_head := add_head m, add_tail := add_tail m\<rparr> = m"
    "m''\<lparr>nodes := nodes m', add_head := add_head m', add_tail := add_tail m'\<rparr> = m'"
    using a by (simp_all add: same_but_add_def)
  from arg_cong [OF e(2), of "\<lambda>x. x\<lparr>nodes := nodes m, add_head := add_head m, add_tail := add_tail m\<rparr>"] e(1)
  have "m''\<lparr>nodes := nodes m, add_head := add_head m, add_tail := add_tail m\<rparr> = m" by simp
  then show ?thesis using a by (simp add: same_but_add_def)
qed

lemma add_list_absent:
  assumes "add_ok m as" and "\<forall>q \<in> set (p # as). 0 \<le> q \<and> q < pool_size m" and "p \<notin> set as"
    and "add_next (nodes m p) = - 1" "add_prev (nodes m p) = - 1"
  shows "delete_from_add_list p m = m"
proof -
  have "add_head m \<noteq> p" "add_tail m \<noteq> p"
    using assms hd1_in [of as "- 1"] last1_in [of as "- 1"] by (cases "as = []"; auto simp: add_ok_def)+
  then show ?thesis using assms by (simp add: delete_from_add_list_def ptr2handler_in INVALID_BC_MEM_HANDLER_def Let_def)
qed

lemma add_list_push:
  assumes ok: "add_ok m as" and pool: "\<forall>q \<in> set (p # as). 0 \<le> q \<and> q < pool_size m" and p: "p \<notin> set as"
    and d: "delete_from_add_list p m0 = m"
  shows "same_but_add m (insert_add_list_head p m0)" "add_ok (insert_add_list_head p m0) (p # as)"
    "q \<notin> set (p # as) \<Longrightarrow> nodes (insert_add_list_head p m0) q = nodes m q"
    "same_but_add m (insert_add_list_tail p m0)" "add_ok (insert_add_list_tail p m0) (as @ [p])"
    "q \<notin> set (p # as) \<Longrightarrow> nodes (insert_add_list_tail p m0) q = nodes m q"
proof -
  have s: "seg (\<lambda>p. add_next (nodes m p)) (\<lambda>p. add_prev (nodes m p)) (- 1) as (- 1)"
    "add_head m = hd1 as (- 1)" "add_tail m = last1 (- 1) as" "distinct as"
    using ok by (simp_all add: add_ok_def)
  have hdl: "ptr2handler p m = p" and p0: "0 \<le> p" using pool by (simp_all add: ptr2handler_in)
  have h: "hd1 as b = (if as = [] then b else hd as)" "last1 b as = (if as = [] then b else last as)" for b
    by (auto simp: hd1_def last1_def split: list.split)
  have as: "as \<noteq> [] \<Longrightarrow> hd as \<in> set as \<and> hd as \<noteq> p \<and> 0 \<le> hd as \<and> last as \<in> set as \<and> last as \<noteq> p \<and> 0 \<le> last as"
    using pool p last_in_set [of as] hd_in_set [of as] by auto
  note defs = insert_add_list_head_def insert_add_list_tail_def d hdl s(2,3) h Let_def INVALID_BC_MEM_HANDLER_def
  let ?m = "insert_add_list_head p m0" and ?t = "insert_add_list_tail p m0"
  have "erase_add (nodes ?m z) = erase_add (nodes m z)" "erase_add (nodes ?t z) = erase_add (nodes m z)" for z
    using as p0 by (cases "as = []"; simp add: defs erase_add_def)+
  moreover have "?m\<lparr>nodes := nodes m, add_head := add_head m, add_tail := add_tail m\<rparr> = m"
    "?t\<lparr>nodes := nodes m, add_head := add_head m, add_tail := add_tail m\<rparr> = m"
    using as p0 by (cases "as = []"; simp add: defs set_node_def)+
  ultimately show "same_but_add m ?m" "same_but_add m ?t" by (simp_all add: same_but_add_def)
  have n: "add_next (nodes ?m z) = (if z = p then hd1 as (- 1) else add_next (nodes m z))"
    "add_prev (nodes ?m z) = (if z = p then - 1 else if as \<noteq> [] \<and> z = hd as then p else add_prev (nodes m z))" for z
    using as p0 by (cases "as = []"; simp add: defs)+
  have t: "add_next (nodes ?t z) = (if z = p then - 1 else if as \<noteq> [] \<and> z = last as then p else add_next (nodes m z))"
    "add_prev (nodes ?t z) = (if z = p then last1 (- 1) as else add_prev (nodes m z))" for z
    using as p0 by (cases "as = []"; simp add: defs)+
  have "seg (\<lambda>q. add_next (nodes ?m q)) (\<lambda>q. add_prev (nodes ?m q)) (- 1) (p # as) (- 1)"
    by (rule seg_front [OF s(1) p s(4)]) (use n p in auto)
  moreover have "add_head ?m = p" "add_tail ?m = last1 p as" using as p0 by (cases "as = []"; simp add: defs)+
  ultimately show "add_ok ?m (p # as)" using s(4) p by (simp add: add_ok_def)
  have "seg (\<lambda>q. add_next (nodes ?t q)) (\<lambda>q. add_prev (nodes ?t q)) (- 1) (as @ [p]) (- 1)"
    by (rule seg_end [OF s(1) p s(4)]) (use t p in auto)
  moreover have "add_head ?t = hd1 as p" "add_tail ?t = p" using as p0 by (cases "as = []"; simp add: defs)+
  ultimately show "add_ok ?t (as @ [p])" using s(4) p by (simp add: add_ok_def)
  show "nodes ?m q = nodes m q" "nodes ?t q = nodes m q" if "q \<notin> set (p # as)"
  proof -
    have "q \<noteq> p" "as \<noteq> [] \<Longrightarrow> q \<noteq> hd as \<and> q \<noteq> last as" using that as by auto
    then show "nodes ?m q = nodes m q" "nodes ?t q = nodes m q" using as p0 by (cases "as = []"; simp add: defs)+
  qed
qed

text \<open>Used or new, a node goes to the front.\<close>

lemma add_list_front:
  assumes ok: "add_ok m as" and pool: "\<forall>q \<in> set (p # as). 0 \<le> q \<and> q < pool_size m"
    and new: "p \<notin> set as \<Longrightarrow> add_next (nodes m p) = - 1 \<and> add_prev (nodes m p) = - 1"
  shows "same_but_add m (insert_add_list_head p m)" "add_ok (insert_add_list_head p m) (p # remove1 p as)"
    "q \<notin> set (p # as) \<Longrightarrow> nodes (insert_add_list_head p m) q = nodes m q"
proof -
  have "same_but_add m (insert_add_list_head p m) \<and> add_ok (insert_add_list_head p m) (p # remove1 p as) \<and>
    (q \<notin> set (p # as) \<longrightarrow> nodes (insert_add_list_head p m) q = nodes m q)"
  proof (cases "p \<in> set as")
    case False
    then have "delete_from_add_list p m = m" by (intro add_list_absent [OF ok pool]) (use new in simp_all)
    from add_list_push(1,2,3) [OF ok pool False this] show ?thesis using False by (simp add: remove1_idem)
  next
    case True
    then obtain xs ys where as: "as = xs @ p # ys" by (meson split_list)
    let ?m = "delete_from_add_list p m"
    have pool': "\<forall>q \<in> set (xs @ p # ys). 0 \<le> q \<and> q < pool_size m" using pool as by simp
    note r = add_list_remove [OF ok [unfolded as] pool']
    have d: "p \<notin> set (xs @ ys)" and rem: "remove1 p as = xs @ ys" using ok by (auto simp: add_ok_def as remove1_append)
    have pl: "\<forall>q \<in> set (p # xs @ ys). 0 \<le> q \<and> q < pool_size ?m"
      using pool as same_but_add_header(9) [OF r(1)] by auto
    note u = add_list_push(1,2,3) [OF r(2) pl d refl]
    have "nodes (insert_add_list_head p m) q = nodes m q" if "q \<notin> set (p # as)"
      using u(3) [of q] r(5) [of q] that by (auto simp: as)
    then show ?thesis using same_but_add_trans [OF r(1) u(1)] u(2) by (simp add: rem)
  qed
  then show "same_but_add m (insert_add_list_head p m)" "add_ok (insert_add_list_head p m) (p # remove1 p as)"
    "q \<notin> set (p # as) \<Longrightarrow> nodes (insert_add_list_head p m) q = nodes m q" by blast+
qed

section \<open>What keeps the invariant\<close>

lemma hash_ok_set_data:
  assumes "\<And>n. key (f n) = key n \<and> node_prev (f n) = node_prev n \<and> node_next (f n) = node_next n \<and>
    add_prev (f n) = add_prev n \<and> add_next (f n) = add_next n"
  shows "hash_ok env (set_node p f m) bs fs as = hash_ok env m bs fs as"
proof -
  have "key (nodes (set_node p f m) q) = key (nodes m q)" "node_prev (nodes (set_node p f m) q) = node_prev (nodes m q)"
    "node_next (nodes (set_node p f m) q) = node_next (nodes m q)" "add_prev (nodes (set_node p f m) q) = add_prev (nodes m q)"
    "add_next (nodes (set_node p f m) q) = add_next (nodes m q)" for q
    using assms by simp_all
  then show ?thesis
    by (simp add: hash_ok_def buckets_ok_def free_ok_def add_ok_def get_bucket_id_def del: nodes_set_node)
qed

lemma hash_ok_allocator [simp]: "hash_ok env (m\<lparr>allocator := a\<rparr>) bs fs as = hash_ok env m bs fs as"
  by (simp add: hash_ok_def buckets_ok_def free_ok_def add_ok_def get_bucket_id_def)

lemma buckets_frame: "same_but_add m m' \<Longrightarrow> buckets_ok env m' bs = buckets_ok env m bs"
  by (simp add: buckets_ok_def get_bucket_id_def same_but_add_nodes same_but_add_header)

lemma free_frame: "same_but_add m m' \<Longrightarrow> \<forall>p \<in> set fs. nodes m' p = nodes m p \<Longrightarrow> free_ok m' fs = free_ok m fs"
  by (simp add: free_ok_def same_but_add_nodes same_but_add_header)

lemma hash_ok_reorder:
  assumes ok: "hash_ok env m bs fs as" and s: "same_but_add m m'" and a: "add_ok m' as'" "set as' = set as" "length as' = length as"
    and fs: "\<forall>p \<in> set fs. nodes m' p = nodes m p"
  shows "hash_ok env m' bs fs as'"
  unfolding hash_ok_def buckets_frame [OF s] free_frame [OF s fs] same_but_add_header [OF s] a(2,3)
  using hash_okD [OF ok] a(1) by blast

lemma touch_ok:
  assumes ok: "hash_ok env m bs fs as" and p: "p \<in> set as"
  shows "hash_ok env (touch now p m) bs fs (p # remove1 p as)"
    "key (nodes (touch now p m) q) = key (nodes m q)" "chunk_len (nodes (touch now p m) q) = chunk_len (nodes m q)"
    "chunk_head (nodes (touch now p m) q) = chunk_head (nodes m q)" "allocator (touch now p m) = allocator m"
    "bucket_size (touch now p m) = bucket_size m"
proof -
  let ?f = "\<lambda>n. n\<lparr>add_info_1 := now, add_info_2 := add_info_2 n + 1\<rparr>"
  let ?m = "set_node p ?f m"
  have ok1: "hash_ok env ?m bs fs as" using ok by (subst hash_ok_set_data) simp_all
  have add: "add_ok ?m as" and pool: "\<forall>q \<in> set (p # as). 0 \<le> q \<and> q < pool_size ?m"
    using ok1 p by (simp_all add: hash_ok_def)
  have new: "p \<notin> set as \<Longrightarrow> add_next (nodes ?m p) = - 1 \<and> add_prev (nodes ?m p) = - 1" using p by simp
  note f = add_list_front [OF add pool new]
  have t: "touch now p m = insert_add_list_head p ?m" by (simp add: touch_def)
  have "set fs \<inter> set as = {}" by (rule hash_okD [OF ok])
  then have out: "q \<notin> set (p # as)" if "q \<in> set fs" for q using that p by auto
  then have fs: "\<forall>q \<in> set fs. nodes (touch now p m) q = nodes ?m q" unfolding t using f(3) by blast
  have "distinct as" using add by (simp add: add_ok_def)
  then have members: "set (p # remove1 p as) = set as" using p by auto
  have len: "length (p # remove1 p as) = length as" using p length_pos_if_in_set [OF p] by (simp add: length_remove1)
  show "hash_ok env (touch now p m) bs fs (p # remove1 p as)"
    unfolding t by (rule hash_ok_reorder [OF ok1 f(1,2)]) (use members len fs t in simp_all)
  show "key (nodes (touch now p m) q) = key (nodes m q)" "chunk_len (nodes (touch now p m) q) = chunk_len (nodes m q)"
    "chunk_head (nodes (touch now p m) q) = chunk_head (nodes m q)" "allocator (touch now p m) = allocator m"
    "bucket_size (touch now p m) = bucket_size m"
    using same_but_add_nodes [OF f(1), of q] same_but_add_header [OF f(1)] by (simp_all add: t)
qed

lemma list_len_chain:
  "seg1 (\<lambda>p. node_next (nodes m p)) xs (- 1) \<Longrightarrow> \<forall>p \<in> set xs. 0 \<le> p \<Longrightarrow>
     list_len_loop (hd1 xs (- 1)) n m = Some (n + length xs)"
proof (induction xs arbitrary: n)
  case Nil
  then show ?case by (subst list_len_loop.simps) simp
next
  case (Cons x xs)
  then show ?case by (subst list_len_loop.simps) simp
qed

lemma find_chain:
  "seg1 (\<lambda>p. node_next (nodes m p)) xs (- 1) \<Longrightarrow> \<forall>p \<in> set xs. 0 \<le> p \<Longrightarrow>
     find_loop now k (hd1 xs (- 1)) m =
       Some (case find (\<lambda>p. key (nodes m p) = k) xs of None \<Rightarrow> (None, m) | Some p \<Rightarrow> (Some p, touch now p m))"
proof (induction xs)
  case Nil
  then show ?case by (subst find_loop.simps) simp
next
  case (Cons x xs)
  then show ?case by (subst find_loop.simps) simp
qed

text \<open>The node that holds a key.\<close>

definition holder :: "('k, 'a) hash_env \<Rightarrow> ('k, 'a) hash_map \<Rightarrow> (nat \<Rightarrow> int list) \<Rightarrow> 'k \<Rightarrow> int option" where
  "holder env m bs k = (case get_bucket_id env k m of None \<Rightarrow> None | Some b \<Rightarrow> find (\<lambda>p. key (nodes m p) = k) (bs b))"

lemma find_node_ok:
  assumes ok: "hash_ok env m bs fs as"
  shows "find_node env now k m =
    Some (case holder env m bs k of None \<Rightarrow> (None, m) | Some p \<Rightarrow> (Some p, touch now p m))"
    "holder env m bs k = Some p \<Longrightarrow> p \<in> set as \<and> key (nodes m p) = k"
proof -
  have b0: "buckets_ok env m bs" using ok by (simp add: hash_ok_def)
  obtain b where b: "get_bucket_id env k m = Some b" "b < length (bucket m)" by (rule get_bucket_id_lt [OF b0])
  have sub: "set (bs b) \<subseteq> set as" using ok b(2) by (auto simp: hash_ok_def)
  have "seg (\<lambda>p. node_next (nodes m p)) (\<lambda>p. node_prev (nodes m p)) (- 1) (bs b) (- 1)" "bucket m ! b = hd1 (bs b) (- 1)"
    using b0 b(2) by (simp_all add: buckets_ok_def)
  moreover have "\<forall>p \<in> set (bs b). 0 \<le> p" using ok sub by (auto simp: hash_ok_def)
  ultimately show "find_node env now k m =
    Some (case holder env m bs k of None \<Rightarrow> (None, m) | Some p \<Rightarrow> (Some p, touch now p m))"
    using b(1) find_chain [OF seg_seg1] by (simp add: find_node_def holder_def)
  show "p \<in> set as \<and> key (nodes m p) = k" if "holder env m bs k = Some p"
    using that b(1) sub by (auto simp: holder_def find_Some_iff)
qed

section \<open>The chains of the buckets\<close>

lemma bucket_count:
  fixes bs :: "nat \<Rightarrow> int list"
  assumes "b < n"
  shows "int (card {c. c < n \<and> (bs(b := ys)) c \<noteq> []}) = int (card {c. c < n \<and> bs c \<noteq> []}) +
    (if bs b = [] \<and> ys \<noteq> [] then 1 else 0) - (if bs b \<noteq> [] \<and> ys = [] then 1 else 0)"
proof -
  let ?A = "{c. c < n \<and> c \<noteq> b \<and> bs c \<noteq> []}"
  have fin: "finite ?A" "b \<notin> ?A" by simp_all
  have "{c. c < n \<and> (bs(b := zs)) c \<noteq> []} = (if zs = [] then ?A else insert b ?A)" for zs
    using assms by auto
  from this [of ys] this [of "bs b"] fin show ?thesis by simp
qed

lemma buckets_disjoint:
  "buckets_ok env m bs \<Longrightarrow> b < length (bucket m) \<Longrightarrow> c < length (bucket m) \<Longrightarrow> q \<in> set (bs b) \<Longrightarrow> q \<in> set (bs c) \<Longrightarrow> b = c"
proof -
  assume a: "buckets_ok env m bs" "b < length (bucket m)" "c < length (bucket m)" "q \<in> set (bs b)" "q \<in> set (bs c)"
  have "get_bucket_id env (key (nodes m q)) m = Some b" using a(1,2,4) by (simp add: buckets_ok_def)
  moreover have "get_bucket_id env (key (nodes m q)) m = Some c" using a(1,3,5) by (simp add: buckets_ok_def)
  ultimately show "b = c" by simp
qed

lemma buckets_update:
  assumes ok: "buckets_ok env m bs" and b: "b < length (bucket m)"
    and other: "\<And>c q. c < length (bucket m) \<Longrightarrow> c \<noteq> b \<Longrightarrow> q \<in> set (bs c) \<Longrightarrow> node_next (nodes m' q) = node_next (nodes m q) \<and>
      node_prev (nodes m' q) = node_prev (nodes m q) \<and> key (nodes m' q) = key (nodes m q)"
    and new: "bucket m' = (bucket m)[b := hd1 ys (- 1)]" "bucket_size m' = bucket_size m"
      "seg (\<lambda>p. node_next (nodes m' p)) (\<lambda>p. node_prev (nodes m' p)) (- 1) ys (- 1)" "distinct ys"
      "\<forall>p \<in> set ys. get_bucket_id env (key (nodes m' p)) m = Some b"
    and used: "used_bucket_num m' = used_bucket_num m + (if bs b = [] \<and> ys \<noteq> [] then 1 else 0) - (if bs b \<noteq> [] \<and> ys = [] then 1 else 0)"
  shows "buckets_ok env m' (bs(b := ys))"
proof -
  have id: "get_bucket_id env k m' = get_bucket_id env k m" for k using new(2) by (simp add: get_bucket_id_def)
  have "seg (\<lambda>p. node_next (nodes m' p)) (\<lambda>p. node_prev (nodes m' p)) (- 1) ((bs(b := ys)) c) (- 1) \<and>
      bucket m' ! c = hd1 ((bs(b := ys)) c) (- 1) \<and> distinct ((bs(b := ys)) c) \<and>
      (\<forall>p \<in> set ((bs(b := ys)) c). get_bucket_id env (key (nodes m' p)) m = Some c)" if c: "c < length (bucket m)" for c
  proof (cases "c = b")
    case False
    have "seg (\<lambda>p. node_next (nodes m' p)) (\<lambda>p. node_prev (nodes m' p)) (- 1) (bs c) (- 1) =
      seg (\<lambda>p. node_next (nodes m p)) (\<lambda>p. node_prev (nodes m p)) (- 1) (bs c) (- 1)"
      using other [OF c False] by (intro seg_cong) simp
    then show ?thesis using ok c False other [OF c False] new(1) by (simp add: buckets_ok_def)
  qed (use new b in simp)
  moreover have "0 < bucket_size m" "bucket_size m < 2 ^ 31" "length (bucket m) = nat (bucket_size m)"
    "used_bucket_num m = int (card {c. c < length (bucket m) \<and> bs c \<noteq> []})"
    using ok by (simp_all add: buckets_ok_def)
  ultimately show ?thesis using used bucket_count [OF b, of bs ys] new(1,2) unfolding buckets_ok_def id by simp
qed

lemma use_node_ok:
  assumes ok: "buckets_ok env m bs" and b: "get_bucket_id env k m = Some b" "b < length (bucket m)"
    and pool: "\<forall>q \<in> set (bs b). 0 \<le> q" "0 \<le> p" "p < pool_size m" and p: "\<forall>c < length (bucket m). p \<notin> set (bs c)"
  obtains m' where "use_node env p k len head m = Some m'" "buckets_ok env m' (bs(b := p # bs b))"
    "nodes m' p = (nodes m p)\<lparr>key := k, chunk_len := len, chunk_head := head, add_info_1 := 0, add_info_2 := 0,
       node_next := hd1 (bs b) (- 1), node_prev := - 1\<rparr>"
    "\<forall>q. q \<noteq> p \<longrightarrow> (\<exists>v. nodes m' q = (nodes m q)\<lparr>node_prev := v\<rparr>)"
    "\<forall>q. q \<notin> set (p # bs b) \<longrightarrow> nodes m' q = nodes m q"
    "add_head m' = add_head m" "add_tail m' = add_tail m" "free_list m' = free_list m" "pool_size m' = pool_size m"
    "node_total m' = node_total m" "used_node_num m' = used_node_num m + 1" "allocator m' = allocator m"
    "length (bucket m') = length (bucket m)" "bucket_size m' = bucket_size m"
proof -
  let ?f = "\<lambda>n. n\<lparr>key := k, chunk_len := len, chunk_head := head, add_info_1 := 0, add_info_2 := 0\<rparr>"
  let ?m1 = "set_node p ?f m"
  have c: "seg (\<lambda>p. node_next (nodes m p)) (\<lambda>p. node_prev (nodes m p)) (- 1) (bs b) (- 1)" "bucket m ! b = hd1 (bs b) (- 1)"
    "distinct (bs b)" "\<forall>q \<in> set (bs b). get_bucket_id env (key (nodes m q)) m = Some b"
    using ok b(2) by (simp_all add: buckets_ok_def)
  have pb: "p \<notin> set (bs b)" using p b(2) by simp
  have id: "get_bucket_id env k' ?m1 = get_bucket_id env k' m" for k' by (simp add: get_bucket_id_def)
  have "seg1 (\<lambda>q. node_next (nodes ?m1 q)) (bs b) (- 1) = seg1 (\<lambda>q. node_next (nodes m q)) (bs b) (- 1)"
    by (rule seg1_cong) simp
  then have len: "get_bucket_list_len b ?m1 = Some (length (bs b))"
    using list_len_chain [of ?m1 "bs b" 0] seg_seg1 [OF c(1)] pool(1) c(2) by (simp add: get_bucket_list_len_def)
  define m2 where "m2 = (if length (bs b) = 0 then ?m1\<lparr>used_bucket_num := used_bucket_num m + 1\<rparr> else ?m1)"
  define m3 where "m3 = (set_node p (\<lambda>n. n\<lparr>node_next := hd1 (bs b) (- 1), node_prev := - 1\<rparr>) m2)\<lparr>bucket := (bucket m)[b := p]\<rparr>"
  define m4 where "m4 = (case handler2ptr (hd1 (bs b) (- 1)) of None \<Rightarrow> m3 | Some q \<Rightarrow> set_node q (\<lambda>n. n\<lparr>node_prev := p\<rparr>) m3)"
  let ?m = "m4\<lparr>used_node_num := used_node_num m + 1\<rparr>"
  have m2: "key (nodes m2 p) = k" "get_bucket_id env k' m2 = get_bucket_id env k' m" "ptr2handler p m2 = p" "bucket m2 = bucket m"
    "used_node_num m2 = used_node_num m" for k'
    using pool by (simp_all add: m2_def get_bucket_id_def ptr2handler_def)
  have ins: "insert_node_list env p m2 = Some ?m"
    by (simp add: insert_node_list_def m2 b(1) c(2) m3_def m4_def Let_def INVALID_BC_MEM_HANDLER_def
        cong: option.case_cong)
  have "use_node env p k len head m = insert_node_list env p m2"
    by (simp add: use_node_def id b(1) len m2_def Let_def)
  then have run: "use_node env p k len head m = Some ?m" using ins by simp
  have h: "hd1 (bs b) (- 1) = (if bs b = [] then - 1 else hd (bs b))" by (simp add: hd1_def split: list.split)
  have hd: "bs b \<noteq> [] \<Longrightarrow> hd (bs b) \<in> set (bs b) \<and> hd (bs b) \<noteq> p \<and> 0 \<le> hd (bs b)" using pb pool(1) by auto
  have np: "nodes ?m p = (nodes m p)\<lparr>key := k, chunk_len := len, chunk_head := head, add_info_1 := 0, add_info_2 := 0,
       node_next := hd1 (bs b) (- 1), node_prev := - 1\<rparr>"
    using hd by (cases "bs b = []") (simp_all add: m4_def m3_def m2_def h)
  have nq: "nodes ?m q = (if bs b \<noteq> [] \<and> q = hd (bs b) then (nodes m q)\<lparr>node_prev := p\<rparr> else nodes m q)" if "q \<noteq> p" for q
    using hd that by (cases "bs b = []") (simp_all add: m4_def m3_def m2_def h)
  have header: "add_head ?m = add_head m" "add_tail ?m = add_tail m" "free_list ?m = free_list m" "pool_size ?m = pool_size m"
    "node_total ?m = node_total m" "used_node_num ?m = used_node_num m + 1" "allocator ?m = allocator m"
    "bucket ?m = (bucket m)[b := p]" "bucket_size ?m = bucket_size m"
    "used_bucket_num ?m = used_bucket_num m + (if bs b = [] then 1 else 0)"
    using hd by (cases "bs b = []"; simp add: m4_def m3_def m2_def h)+
  have "buckets_ok env ?m (bs(b := p # bs b))"
  proof (rule buckets_update [OF ok b(2)])
    show "node_next (nodes ?m q) = node_next (nodes m q) \<and> node_prev (nodes ?m q) = node_prev (nodes m q) \<and>
        key (nodes ?m q) = key (nodes m q)" if "c < length (bucket m)" "c \<noteq> b" "q \<in> set (bs c)" for c q
    proof -
      have "q \<noteq> p" using p that by auto
      moreover have "\<not> (bs b \<noteq> [] \<and> q = hd (bs b))" using buckets_disjoint [OF ok that(1) b(2) that(3)] that(2) hd by auto
      ultimately show ?thesis using nq [of q] by auto
    qed
    show "seg (\<lambda>q. node_next (nodes ?m q)) (\<lambda>q. node_prev (nodes ?m q)) (- 1) (p # bs b) (- 1)"
    proof (rule seg_front [OF c(1) pb c(3)])
      have in_b: "nodes ?m z = (if z = hd (bs b) then (nodes m z)\<lparr>node_prev := p\<rparr> else nodes m z)" if "z \<in> set (bs b)" for z
      proof -
        have "z \<noteq> p" "bs b \<noteq> []" using that pb by auto
        then show ?thesis using nq [of z] by auto
      qed
      show "\<forall>z \<in> set (bs b). node_next (nodes ?m z) = node_next (nodes m z)" using in_b by simp
      show "\<forall>z \<in> set (bs b). node_prev (nodes ?m z) = (if z = hd (bs b) then p else node_prev (nodes m z))"
        using in_b by simp
    qed (use np in simp_all)
    show "\<forall>q \<in> set (p # bs b). get_bucket_id env (key (nodes ?m q)) m = Some b"
    proof
      fix q assume "q \<in> set (p # bs b)"
      then show "get_bucket_id env (key (nodes ?m q)) m = Some b"
        using np nq [of q] c(4) b(1) pb by (cases "q = p") auto
    qed
    show "bucket ?m = (bucket m)[b := hd1 (p # bs b) (- 1)]" using header(8) by simp
    show "used_bucket_num ?m = used_bucket_num m + (if bs b = [] \<and> p # bs b \<noteq> [] then 1 else 0) -
        (if bs b \<noteq> [] \<and> p # bs b = [] then 1 else 0)" using header(10) by simp
  qed (use c(3) pb header in simp_all)
  moreover have "\<exists>v. nodes ?m q = (nodes m q)\<lparr>node_prev := v\<rparr>" if "q \<noteq> p" for q
    using nq [OF that] by (intro exI [of _ "if bs b \<noteq> [] \<and> q = hd (bs b) then p else node_prev (nodes m q)"]) simp
  moreover have "nodes ?m q = nodes m q" if "q \<notin> set (p # bs b)" for q
  proof -
    have "q \<noteq> p" "\<not> (bs b \<noteq> [] \<and> q = hd (bs b))" using that hd by auto
    then show ?thesis using nq [of q] by auto
  qed
  ultimately show thesis by (intro that [OF run _ np]) (blast | simp only: header length_list_update)+
qed

lemma free_node_ok:
  assumes ok: "buckets_ok env m bs" and b: "b < length (bucket m)" "bs b = xs @ p # ys"
    and pool: "\<forall>q \<in> set (bs b). 0 \<le> q \<and> q < pool_size m"
  obtains m' where "free_node env p m = Some m'" "buckets_ok env m' (bs(b := xs @ ys))"
    "nodes m' p = (nodes m p)\<lparr>chunk_len := 0, add_info_1 := 0, add_info_2 := 0, flag := 0, chunk_head := - 1,
       node_next := - 1, node_prev := - 1, add_next := - 1, add_prev := - 1\<rparr>"
    "\<forall>q. q \<noteq> p \<longrightarrow> (\<exists>u v. nodes m' q = (nodes m q)\<lparr>node_next := u, node_prev := v\<rparr>)"
    "\<forall>q. q \<notin> set (bs b) \<longrightarrow> nodes m' q = nodes m q"
    "add_head m' = add_head m" "add_tail m' = add_tail m" "free_list m' = free_list m" "pool_size m' = pool_size m"
    "node_total m' = node_total m" "used_node_num m' = used_node_num m - 1"
    "allocator m' = c_free (h_chunks env) (chunk_head (nodes m p)) (allocator m)"
    "length (bucket m') = length (bucket m)" "bucket_size m' = bucket_size m"
proof -
  have c: "seg (\<lambda>p. node_next (nodes m p)) (\<lambda>p. node_prev (nodes m p)) (- 1) (xs @ p # ys) (- 1)"
    "bucket m ! b = hd1 (xs @ p # ys) (- 1)" "distinct (xs @ p # ys)"
    "\<forall>q \<in> set (xs @ p # ys). get_bucket_id env (key (nodes m q)) m = Some b"
    using ok b(1) unfolding buckets_ok_def b(2) [symmetric] by blast+
  have at: "node_prev (nodes m p) = last1 (- 1) xs" "node_next (nodes m p) = hd1 ys (- 1)"
    using seg_at [OF c(1)] by simp_all
  have hdl: "ptr2handler p m = p" using pool b(2) by (intro ptr2handler_in) auto
  have pp: "\<not> p < 0" "\<not> pool_size m \<le> p" using pool b(2) by (auto simp: not_less not_le)
  have xs: "xs \<noteq> [] \<Longrightarrow> last xs \<in> set xs \<and> last xs \<noteq> p \<and> 0 \<le> last xs \<and> hd xs \<noteq> p"
    using c(3) pool b(2) last_in_set [of xs] hd_in_set [of xs] by auto
  have ys: "ys \<noteq> [] \<Longrightarrow> hd ys \<in> set ys \<and> hd ys \<noteq> p \<and> 0 \<le> hd ys"
    using c(3) pool b(2) hd_in_set [of ys] by auto
  have "u \<in> set xs \<Longrightarrow> v \<in> set ys \<Longrightarrow> u \<noteq> v" for u v using c(3) by auto
  then have ne: "xs \<noteq> [] \<Longrightarrow> ys \<noteq> [] \<Longrightarrow> last xs \<noteq> hd ys" by simp
  have h: "hd1 xs v = (if xs = [] then v else hd xs)" "hd1 ys v = (if ys = [] then v else hd ys)"
    "last1 v xs = (if xs = [] then v else last xs)" for v
    by (auto simp: hd1_def last1_def split: list.split)
  have id: "get_bucket_id env (key (nodes m p)) m = Some b" using c(4) by simp
  have gid: "get_bucket_id env k (set_node q f m) = get_bucket_id env k m"
    "get_bucket_id env k (set_node q' g (set_node q f m)) = get_bucket_id env k m" for k q q' f g
    by (simp_all add: get_bucket_id_def)
  define B where "B = (bucket m)[b := hd1 (xs @ ys) (- 1)]"
  have B: "xs \<noteq> [] \<Longrightarrow> B = bucket m" "xs = [] \<Longrightarrow> B = (bucket m)[b := hd1 ys (- 1)]"
    using c(2) by (cases xs; simp add: B_def list_update_same_conv b(1))+
  obtain m1 where m1: "delete_from_node_list env p m = Some m1"
    "nodes m1 p = (nodes m p)\<lparr>node_next := - 1, node_prev := - 1\<rparr>"
    "\<And>q. q \<noteq> p \<Longrightarrow> nodes m1 q = (if xs \<noteq> [] \<and> q = last xs then (nodes m q)\<lparr>node_next := hd1 ys (- 1)\<rparr>
      else if ys \<noteq> [] \<and> q = hd ys then (nodes m q)\<lparr>node_prev := last1 (- 1) xs\<rparr> else nodes m q)"
    "m1\<lparr>nodes := nodes m, bucket := bucket m, used_node_num := used_node_num m\<rparr> = m" "bucket m1 = B"
    "used_node_num m1 = used_node_num m - 1"
  proof (cases "xs = []"; cases "ys = []")
    assume a: "xs = []" "ys = []"
    let ?m = "(set_node p (\<lambda>n. n\<lparr>node_next := - 1, node_prev := - 1\<rparr>) (m\<lparr>bucket := B\<rparr>))\<lparr>used_node_num := used_node_num m - 1\<rparr>"
    have "delete_from_node_list env p m = Some ?m"
      using a c(2) by (simp add: delete_from_node_list_def at h id hdl gid B Let_def INVALID_BC_MEM_HANDLER_def)
    then show thesis by (rule that) (use a in \<open>simp_all add: set_node_def h\<close>)
  next
    assume a: "xs = []" "ys \<noteq> []"
    let ?m = "(set_node p (\<lambda>n. n\<lparr>node_next := - 1, node_prev := - 1\<rparr>) ((set_node (hd ys) (\<lambda>n. n\<lparr>node_prev := - 1\<rparr>) m)\<lparr>bucket := B\<rparr>))
      \<lparr>used_node_num := used_node_num m - 1\<rparr>"
    have "delete_from_node_list env p m = Some ?m"
      using a c(2) ys by (simp add: delete_from_node_list_def at h id hdl gid B Let_def INVALID_BC_MEM_HANDLER_def ptr2handler_def pp)
    then show thesis by (rule that) (use a ys in \<open>simp_all add: set_node_def h\<close>)
  next
    assume a: "xs \<noteq> []" "ys = []"
    let ?m = "(set_node p (\<lambda>n. n\<lparr>node_next := - 1, node_prev := - 1\<rparr>) (set_node (last xs) (\<lambda>n. n\<lparr>node_next := - 1\<rparr>) m))
      \<lparr>used_node_num := used_node_num m - 1\<rparr>"
    have "delete_from_node_list env p m = Some ?m"
      using a c(2) xs by (simp add: delete_from_node_list_def at h id hdl gid B Let_def INVALID_BC_MEM_HANDLER_def ptr2handler_def pp)
    then show thesis by (rule that) (use a xs in \<open>simp_all add: set_node_def h B\<close>)
  next
    assume a: "xs \<noteq> []" "ys \<noteq> []"
    let ?m = "(set_node p (\<lambda>n. n\<lparr>node_next := - 1, node_prev := - 1\<rparr>) (set_node (hd ys) (\<lambda>n. n\<lparr>node_prev := last xs\<rparr>)
      (set_node (last xs) (\<lambda>n. n\<lparr>node_next := hd ys\<rparr>) m)))\<lparr>used_node_num := used_node_num m - 1\<rparr>"
    have "delete_from_node_list env p m = Some ?m"
      using a c(2) xs ys ne
      by (simp add: delete_from_node_list_def at h id hdl gid B Let_def INVALID_BC_MEM_HANDLER_def ptr2handler_def pp)
    then show thesis by (rule that) (use a xs ys ne in \<open>simp_all add: set_node_def h B\<close>)
  qed
  have eqs: "bucket_size m1 = bucket_size m" "used_bucket_num m1 = used_bucket_num m" "add_head m1 = add_head m"
    "add_tail m1 = add_tail m" "free_list m1 = free_list m" "pool_size m1 = pool_size m" "node_total m1 = node_total m"
    "allocator m1 = allocator m"
    using arg_cong [OF m1(4), of bucket_size] arg_cong [OF m1(4), of used_bucket_num] arg_cong [OF m1(4), of add_head]
      arg_cong [OF m1(4), of add_tail] arg_cong [OF m1(4), of free_list] arg_cong [OF m1(4), of pool_size]
      arg_cong [OF m1(4), of node_total] arg_cong [OF m1(4), of allocator] by simp_all
  define m2 where "m2 = m1\<lparr>allocator := c_free (h_chunks env) (chunk_head (nodes m p)) (allocator m)\<rparr>"
  define m3 where "m3 = (if xs @ ys = [] then m2\<lparr>used_bucket_num := used_bucket_num m - 1\<rparr> else m2)"
  let ?m = "init_node p m3"
  have n3: "nodes m3 = nodes m1" by (simp add: m3_def m2_def)
  have nx: "node_next (nodes m1 q) = (if xs \<noteq> [] \<and> q = last xs then node_next (nodes m p) else node_next (nodes m q))"
    and pv: "node_prev (nodes m1 q) = (if ys \<noteq> [] \<and> q = hd ys then node_prev (nodes m p) else node_prev (nodes m q))"
    and ky: "key (nodes m1 q) = key (nodes m q)" if "q \<noteq> p" for q
    using m1(3) [OF that] ne by (auto simp: at split: if_splits)
  have nep: "z \<in> set (xs @ ys) \<Longrightarrow> z \<noteq> p" for z using c(3) by auto
  have sg: "seg (\<lambda>p. node_next (nodes m1 p)) (\<lambda>p. node_prev (nodes m1 p)) (- 1) (xs @ ys) (- 1)"
  proof (rule seg_remove [OF c(1,3)])
    show "\<forall>z \<in> set (xs @ ys). node_next (nodes m1 z) = (if xs \<noteq> [] \<and> z = last xs then node_next (nodes m p) else node_next (nodes m z))"
      using nx nep by blast
    show "\<forall>z \<in> set (xs @ ys). node_prev (nodes m1 z) = (if ys \<noteq> [] \<and> z = hd ys then node_prev (nodes m p) else node_prev (nodes m z))"
      using pv nep by blast
  qed
  have "\<forall>q \<in> set (xs @ ys). 0 \<le> q" using pool b(2) by auto
  moreover have "seg1 (\<lambda>p. node_next (nodes m2 p)) (xs @ ys) (- 1)" using seg_seg1 [OF sg] by (simp add: m2_def)
  ultimately have "list_len_loop (hd1 (xs @ ys) (- 1)) 0 m2 = Some (length (xs @ ys))"
    using list_len_chain [of m2 "xs @ ys" 0] by simp
  moreover have "bucket m2 ! b = hd1 (xs @ ys) (- 1)" using b(1) by (simp add: m2_def m1(5) B_def)
  ultimately have len: "get_bucket_list_len b m2 = Some (length (xs @ ys))" by (simp only: get_bucket_list_len_def)
  have b2: "get_bucket_id env (key (nodes m2 p)) m2 = Some b" "used_bucket_num m2 = used_bucket_num m"
    using id by (auto simp: m2_def m1(2) eqs get_bucket_id_def split: if_splits)
  have al: "m1\<lparr>allocator := c_free (h_chunks env) (chunk_head (nodes m1 p)) (allocator m1)\<rparr> = m2"
    by (simp add: m2_def m1(2) eqs)
  have run: "free_node env p m = Some ?m"
    unfolding free_node_def m1(1) Let_def Option.bind.bind_lunit al b2 len m3_def by (simp add: b2)
  have header: "add_head ?m = add_head m" "add_tail ?m = add_tail m" "free_list ?m = free_list m" "pool_size ?m = pool_size m"
    "node_total ?m = node_total m" "used_node_num ?m = used_node_num m - 1"
    "allocator ?m = c_free (h_chunks env) (chunk_head (nodes m p)) (allocator m)"
    "length (bucket ?m) = length (bucket m)" "bucket_size ?m = bucket_size m" "bucket ?m = B"
    "used_bucket_num ?m = used_bucket_num m - (if xs @ ys = [] then 1 else 0)"
    by (simp_all add: init_node_def m3_def m2_def eqs m1(5,6) B_def)
  have np: "nodes ?m p = (nodes m p)\<lparr>chunk_len := 0, add_info_1 := 0, add_info_2 := 0, flag := 0, chunk_head := - 1,
       node_next := - 1, node_prev := - 1, add_next := - 1, add_prev := - 1\<rparr>"
    by (simp add: init_node_def n3 m1(2) INVALID_BC_MEM_HANDLER_def NODE_FLAG_UNCHG_def)
  have nq: "nodes ?m q = nodes m1 q" if "q \<noteq> p" for q using that by (simp add: init_node_def n3)
  have ex: "\<exists>u v. nodes ?m q = (nodes m q)\<lparr>node_next := u, node_prev := v\<rparr>" if "q \<noteq> p" for q
  proof -
    have "nodes m1 q = (nodes m q)\<lparr>node_next := node_next (nodes m1 q), node_prev := node_prev (nodes m1 q)\<rparr>"
      using m1(3) [OF that] by (auto split: if_splits)
    then show ?thesis using nq [OF that] by metis
  qed
  have out: "nodes ?m q = nodes m q" if "q \<notin> set (bs b)" for q
  proof -
    have "q \<noteq> p" "\<not> (xs \<noteq> [] \<and> q = last xs)" "\<not> (ys \<noteq> [] \<and> q = hd ys)" using that b(2) xs ys by auto
    then show ?thesis using nq [of q] m1(3) [of q] by auto
  qed
  have "buckets_ok env ?m (bs(b := xs @ ys))"
  proof (rule buckets_update [OF ok b(1)])
    show "node_next (nodes ?m q) = node_next (nodes m q) \<and> node_prev (nodes ?m q) = node_prev (nodes m q) \<and>
        key (nodes ?m q) = key (nodes m q)" if "c < length (bucket m)" "c \<noteq> b" "q \<in> set (bs c)" for c q
    proof -
      have "q \<notin> set (bs b)" using buckets_disjoint [OF ok that(1) b(1) that(3)] that(2) by blast
      then show ?thesis using out by simp
    qed
    have e: "node_next (nodes ?m z) = node_next (nodes m1 z)" "node_prev (nodes ?m z) = node_prev (nodes m1 z)"
      "key (nodes ?m z) = key (nodes m z)" if "z \<in> set (xs @ ys)" for z
      using nq [OF nep [OF that]] ky [OF nep [OF that]] by simp_all
    show "seg (\<lambda>q. node_next (nodes ?m q)) (\<lambda>q. node_prev (nodes ?m q)) (- 1) (xs @ ys) (- 1)"
      using sg e(1,2) seg_cong [of "xs @ ys" "\<lambda>q. node_next (nodes ?m q)" "\<lambda>q. node_next (nodes m1 q)"
        "\<lambda>q. node_prev (nodes ?m q)" "\<lambda>q. node_prev (nodes m1 q)"] by blast
    show "\<forall>q \<in> set (xs @ ys). get_bucket_id env (key (nodes ?m q)) m = Some b" using e(3) c(4) by simp
    show "bucket ?m = (bucket m)[b := hd1 (xs @ ys) (- 1)]" unfolding header(10) B_def ..
    show "used_bucket_num ?m = used_bucket_num m + (if bs b = [] \<and> xs @ ys \<noteq> [] then 1 else 0) -
        (if bs b \<noteq> [] \<and> xs @ ys = [] then 1 else 0)" unfolding header(11) b(2) by simp
    show "bucket_size ?m = bucket_size m" by (rule header(9))
    show "distinct (xs @ ys)" using c(3) by simp
  qed
  then show thesis using ex out by (intro that [OF run _ np]) (blast | rule header)+
qed

section \<open>The operations of CHashMap\<close>

text \<open>What an operation on one node leaves alone: the entries of the other nodes.\<close>

definition same_entry :: "('k, 'a) hash_map \<Rightarrow> ('k, 'a) hash_map \<Rightarrow> int \<Rightarrow> bool" where
  "same_entry m m' q \<longleftrightarrow> key (nodes m' q) = key (nodes m q) \<and> chunk_len (nodes m' q) = chunk_len (nodes m q) \<and>
     chunk_head (nodes m' q) = chunk_head (nodes m q)"

lemma same_entry_refl [simp]: "same_entry m m q"
  by (simp add: same_entry_def)

lemma touch_entry: "hash_ok env m bs fs as \<Longrightarrow> p \<in> set as \<Longrightarrow> same_entry m (touch now p m) q"
  by (simp add: same_entry_def touch_ok)

lemma get_bucket_id_cong: "bucket_size m' = bucket_size m \<Longrightarrow> get_bucket_id env k m' = get_bucket_id env k m"
  by (simp add: get_bucket_id_def)

text \<open>A node is taken from the free list and put into use.\<close>

lemma use_free_node:
  assumes ok: "hash_ok env m bs (p # fs) as" and b: "get_bucket_id env k m = Some b" "b < length (bucket m)"
    and m1: "free_list_remove m = (Some p, m1)"
  obtains m' where "use_node env p k len head (m1\<lparr>allocator := a\<rparr>) = Some m'" "hash_ok env (touch now p m') (bs(b := p # bs b)) fs (p # as)"
    "key (nodes (touch now p m') p) = k" "chunk_len (nodes (touch now p m') p) = len"
    "chunk_head (nodes (touch now p m') p) = head" "\<forall>q. q \<noteq> p \<longrightarrow> same_entry m (touch now p m') q"
    "allocator (touch now p m') = a" "bucket_size (touch now p m') = bucket_size m"
proof -
  have as: "set as = (\<Union>b \<in> {..< length (bucket m)}. set (bs b))" and dj: "p \<notin> set as" "set fs \<inter> set as = {}"
    and pool: "\<forall>q \<in> set (p # fs) \<union> set as. 0 \<le> q \<and> q < pool_size m"
    using hash_okD [OF ok] by auto
  have fr: "free_list m = p" "seg1 (\<lambda>q. node_next (nodes m q)) (p # fs) (- 1)" "distinct (p # fs)"
    "\<forall>q \<in> set (p # fs). add_next (nodes m q) = - 1 \<and> add_prev (nodes m q) = - 1"
    using hash_okD(2) [OF ok] by (simp_all add: free_ok_def)
  have m1': "m1 = set_node p (\<lambda>n. n\<lparr>node_next := - 1\<rparr>) (m\<lparr>free_list := hd1 fs (- 1)\<rparr>)"
    using m1 fr pool by (simp add: free_list_remove_def INVALID_BC_MEM_HANDLER_def)
  let ?m = "m1\<lparr>allocator := a\<rparr>"
  have bk: "buckets_ok env ?m bs"
  proof -
    have "node_next (nodes ?m q) = node_next (nodes m q)" if "c < length (bucket m)" "q \<in> set (bs c)" for q c
      using that dj(1) as by (auto simp: m1')
    then have "seg (\<lambda>p. node_next (nodes ?m p)) (\<lambda>p. node_prev (nodes ?m p)) (- 1) (bs c) (- 1) =
        seg (\<lambda>p. node_next (nodes m p)) (\<lambda>p. node_prev (nodes m p)) (- 1) (bs c) (- 1)" if "c < length (bucket m)" for c
      using that by (intro seg_cong) (simp add: m1')
    moreover have "bucket ?m = bucket m" "bucket_size ?m = bucket_size m" "used_bucket_num ?m = used_bucket_num m"
      "key (nodes ?m q) = key (nodes m q)" for q by (simp_all add: m1')
    ultimately show ?thesis using hash_okD(1) [OF ok] get_bucket_id_cong [of ?m m] by (simp add: buckets_ok_def)
  qed
  have gid: "get_bucket_id env k ?m = Some b" using b(1) get_bucket_id_cong [of ?m m] by (simp add: m1')
  have sub: "set (bs c) \<subseteq> set as" if "c < length (bucket m)" for c using as that by auto
  have pre: "b < length (bucket ?m)" "\<forall>q \<in> set (bs b). 0 \<le> q" "0 \<le> p" "p < pool_size ?m"
    "\<forall>c < length (bucket ?m). p \<notin> set (bs c)"
    using b(2) sub [OF b(2)] pool dj(1) as by (auto simp: m1')
  obtain m' where m': "use_node env p k len head ?m = Some m'" "buckets_ok env m' (bs(b := p # bs b))"
    "nodes m' p = (nodes ?m p)\<lparr>key := k, chunk_len := len, chunk_head := head, add_info_1 := 0, add_info_2 := 0,
       node_next := hd1 (bs b) (- 1), node_prev := - 1\<rparr>"
    "\<forall>q. q \<noteq> p \<longrightarrow> (\<exists>v. nodes m' q = (nodes ?m q)\<lparr>node_prev := v\<rparr>)"
    "\<forall>q. q \<notin> set (p # bs b) \<longrightarrow> nodes m' q = nodes ?m q"
    "add_head m' = add_head ?m" "add_tail m' = add_tail ?m" "free_list m' = free_list ?m" "pool_size m' = pool_size ?m"
    "node_total m' = node_total ?m" "used_node_num m' = used_node_num ?m + 1" "allocator m' = allocator ?m"
    "length (bucket m') = length (bucket ?m)" "bucket_size m' = bucket_size ?m"
    by (rule use_node_ok [OF bk gid pre, where len = len and head = head])
  have other: "add_next (nodes m' q) = add_next (nodes m q) \<and> add_prev (nodes m' q) = add_prev (nodes m q) \<and> same_entry m m' q"
    if "q \<noteq> p" for q
    using m'(4) that by (auto simp: m1' same_entry_def dest: spec [of _ q])
  have np: "add_next (nodes m' p) = - 1" "add_prev (nodes m' p) = - 1" "key (nodes m' p) = k" "chunk_len (nodes m' p) = len"
    "chunk_head (nodes m' p) = head" using m'(3) fr(4) by (simp_all add: m1')
  have hd: "add_head m' = add_head m" "add_tail m' = add_tail m" "free_list m' = hd1 fs (- 1)" "pool_size m' = pool_size m"
    "node_total m' = node_total m" "used_node_num m' = used_node_num m + 1" "allocator m' = a"
    "length (bucket m') = length (bucket m)" "bucket_size m' = bucket_size m"
    using m'(6-14) by (simp_all add: m1')
  let ?f = "\<lambda>n. n\<lparr>add_info_1 := now, add_info_2 := add_info_2 n + 1\<rparr>"
  let ?n = "set_node p ?f m'"
  have "seg (\<lambda>q. add_next (nodes ?n q)) (\<lambda>q. add_prev (nodes ?n q)) (- 1) as (- 1) =
      seg (\<lambda>q. add_next (nodes m q)) (\<lambda>q. add_prev (nodes m q)) (- 1) as (- 1)"
  proof (rule seg_cong, rule ballI)
    fix q assume "q \<in> set as"
    then have "q \<noteq> p" using dj(1) by auto
    then show "add_next (nodes ?n q) = add_next (nodes m q) \<and> add_prev (nodes ?n q) = add_prev (nodes m q)"
      using other by simp
  qed
  then have add: "add_ok ?n as" using hash_okD(3) [OF ok] by (simp add: add_ok_def hd)
  have pool': "\<forall>q \<in> set (p # as). 0 \<le> q \<and> q < pool_size ?n" using pool by (simp add: hd)
  have new: "p \<notin> set as \<Longrightarrow> add_next (nodes ?n p) = - 1 \<and> add_prev (nodes ?n p) = - 1" using np by simp
  note f = add_list_front [OF add pool' new]
  have t: "touch now p m' = insert_add_list_head p ?n" by (simp add: touch_def)
  have bk': "buckets_ok env ?n (bs(b := p # bs b))"
  proof -
    have "node_next (nodes ?n q) = node_next (nodes m' q)" "node_prev (nodes ?n q) = node_prev (nodes m' q)"
      "key (nodes ?n q) = key (nodes m' q)" for q by simp_all
    then show ?thesis using m'(2) get_bucket_id_cong [of ?n m'] by (simp add: buckets_ok_def del: nodes_set_node)
  qed
  have fn: "nodes (touch now p m') q = nodes m q" if "q \<in> set fs" for q
  proof -
    have "q \<noteq> p" "q \<notin> set as" "q \<notin> set (bs b)" using that fr(3) dj(2) sub [OF b(2)] by auto
    then show ?thesis using f(3) [of q] m'(5) unfolding t by (simp add: m1')
  qed
  have "seg1 (\<lambda>q. node_next (nodes (touch now p m') q)) fs (- 1) = seg1 (\<lambda>q. node_next (nodes m q)) fs (- 1)"
    by (rule seg1_cong) (simp add: fn)
  then have free: "free_ok (touch now p m') fs"
    using fr fn by (simp add: free_ok_def t same_but_add_header [OF f(1)] hd)
  have add': "add_ok (touch now p m') (p # as)" using f(2) dj(1) by (simp add: t remove1_idem)
  have U: "set (p # as) = (\<Union>c \<in> {..< length (bucket m)}. set ((bs(b := p # bs b)) c))"
    using as b(2) by (auto split: if_splits)
  let ?T = "touch now p m'"
  have h: "length (bucket ?T) = length (bucket m)" "pool_size ?T = pool_size m" "used_node_num ?T = used_node_num m + 1"
    "node_total ?T = node_total m"
    using same_but_add_header [OF f(1)] by (simp_all add: t hd)
  have "buckets_ok env ?T (bs(b := p # bs b))" using bk' buckets_frame [OF f(1)] by (simp add: t)
  moreover have "set fs \<inter> set (p # as) = {}" using dj(2) fr(3) by auto
  moreover have "\<forall>q \<in> set (p # as) \<union> set fs. 0 \<le> q \<and> q < pool_size m" using pool by auto
  moreover have "used_node_num m + 1 = int (length (p # as))" "node_total m = int (length (p # as) + length fs)"
    using hash_okD(7,8) [OF ok] by simp_all
  ultimately have ok': "hash_ok env ?T (bs(b := p # bs b)) fs (p # as)"
    using free add' U unfolding hash_ok_def h by blast
  have e: "key (nodes (touch now p m') p) = k" "chunk_len (nodes (touch now p m') p) = len"
    "chunk_head (nodes (touch now p m') p) = head"
    using same_but_add_nodes [OF f(1), of p] np by (simp_all add: t)
  have "same_entry m (touch now p m') q" if "q \<noteq> p" for q
    using same_but_add_nodes [OF f(1), of q] other [OF that] that by (simp add: t same_entry_def)
  moreover have "allocator (touch now p m') = a" "bucket_size (touch now p m') = bucket_size m"
    using same_but_add_header [OF f(1)] by (simp_all add: t hd)
  ultimately show thesis by (intro that [OF m'(1) ok' e]) blast+
qed

lemma insert_node_no_room:
  assumes ok: "hash_ok env m bs fs as"
  shows "fs = [] \<Longrightarrow> insert_node env now k data m = Some (None, m)"
    "fs = p # fs' \<Longrightarrow> c_malloc (h_chunks env) (c_get_chunk_num (h_chunks env) (int (length data)) (allocator m)) (allocator m) = (- 1, a) \<Longrightarrow>
       \<exists>m'. insert_node env now k data m = Some (None, m') \<and> hash_ok env m' bs fs as \<and> allocator m' = a \<and>
         bucket_size m' = bucket_size m \<and> (\<forall>q. same_entry m m' q)"
proof -
  show "insert_node env now k data m = Some (None, m)" if "fs = []"
    using hash_okD(2) [OF ok] that by (simp add: insert_node_def free_list_remove_def free_ok_def)
  show "\<exists>m'. insert_node env now k data m = Some (None, m') \<and> hash_ok env m' bs fs as \<and> allocator m' = a \<and>
      bucket_size m' = bucket_size m \<and> (\<forall>q. same_entry m m' q)"
    if fs: "fs = p # fs'" and c: "c_malloc (h_chunks env) (c_get_chunk_num (h_chunks env) (int (length data)) (allocator m)) (allocator m) = (- 1, a)"
  proof -
    have fr: "free_list m = p" "node_next (nodes m p) = hd1 fs' (- 1)" and pool: "0 \<le> p" "p < pool_size m"
      using hash_okD(2,6) [OF ok] by (simp_all add: free_ok_def fs)
    let ?m = "m\<lparr>allocator := a\<rparr>"
    have "(nodes m p)\<lparr>node_next := node_next (nodes m p)\<rparr> = nodes m p" by simp
    then have "(nodes m)(p := (nodes m p)\<lparr>node_next := hd1 fs' (- 1)\<rparr>) = nodes m" unfolding fr(2) by simp
    then have idem: "m\<lparr>allocator := a, nodes := (nodes m)(p := (nodes m p)\<lparr>node_next := hd1 fs' (- 1)\<rparr>), free_list := p\<rparr> = ?m"
      using fr(1) by (cases m) simp
    have "insert_node env now k data m = Some (None, ?m)"
      using fr pool c idem by (simp add: insert_node_def free_list_remove_def free_list_insert_def ptr2handler_def Let_def
        INVALID_BC_MEM_HANDLER_def set_node_def)
    then show ?thesis using ok by (simp add: same_entry_def)
  qed
qed

lemma insert_node_ok:
  assumes ok: "hash_ok env m bs (p # fs) as" and b: "get_bucket_id env k m = Some b" "b < length (bucket m)"
    and c: "c_malloc (h_chunks env) (c_get_chunk_num (h_chunks env) (int (length data)) (allocator m)) (allocator m) = (head, a)" "head \<noteq> - 1"
  obtains m' where "insert_node env now k data m = Some (Some p, m')" "hash_ok env m' (bs(b := p # bs b)) fs (p # as)"
    "key (nodes m' p) = k" "chunk_len (nodes m' p) = int (length data)" "chunk_head (nodes m' p) = head"
    "\<forall>q. q \<noteq> p \<longrightarrow> same_entry m m' q" "allocator m' = c_split (h_chunks env) head data a" "bucket_size m' = bucket_size m"
proof -
  obtain m1 where m1: "free_list_remove m = (Some p, m1)" "allocator m1 = allocator m"
    using hash_okD(2,6) [OF ok] by (simp add: free_list_remove_def free_ok_def)
  let ?a = "c_split (h_chunks env) head data a"
  obtain m' where m': "use_node env p k (int (length data)) head (m1\<lparr>allocator := ?a\<rparr>) = Some m'"
    "hash_ok env (touch now p m') (bs(b := p # bs b)) fs (p # as)"
    "key (nodes (touch now p m') p) = k" "chunk_len (nodes (touch now p m') p) = int (length data)"
    "chunk_head (nodes (touch now p m') p) = head" "\<forall>q. q \<noteq> p \<longrightarrow> same_entry m (touch now p m') q"
    "allocator (touch now p m') = ?a" "bucket_size (touch now p m') = bucket_size m"
    by (rule use_free_node [OF ok b m1(1)])
  have "insert_node env now k data m = Some (Some p, touch now p m')"
    using m1 m'(1) c by (simp add: insert_node_def Let_def INVALID_BC_MEM_HANDLER_def)
  then show thesis by (rule that [OF _ m'(2-8)])
qed

lemma members_without:
  assumes ok: "buckets_ok env m bs" and b: "b < length (bucket m)" "bs b = xs @ p # ys" and c: "c < length (bucket m)"
  shows "set ((bs(b := xs @ ys)) c) = set (bs c) - {p}"
proof (cases "c = b")
  case True
  have "distinct (bs b)" using ok b(1) by (simp add: buckets_ok_def)
  then show ?thesis using True b(2) by auto
next
  case False
  then have "p \<notin> set (bs c)" using buckets_disjoint [OF ok c b(1), of p] b(2) by auto
  then show ?thesis using False by simp
qed

text \<open>Freeing a node that is in no chain any more leaves the chains as they are.\<close>

lemma buckets_free_insert:
  assumes ok: "buckets_ok env m bs" and p: "\<forall>c < length (bucket m). p \<notin> set (bs c)"
  shows "buckets_ok env (free_list_insert p m) bs"
proof -
  let ?m = "free_list_insert p m"
  have n: "nodes ?m q = (if q = p then (nodes m p)\<lparr>node_next := free_list m\<rparr> else nodes m q)" for q
    by (simp add: free_list_insert_def)
  have e: "bucket ?m = bucket m" "bucket_size ?m = bucket_size m" "used_bucket_num ?m = used_bucket_num m"
    "key (nodes ?m q) = key (nodes m q)" for q
    by (simp_all add: free_list_insert_def)
  have "seg (\<lambda>q. node_next (nodes ?m q)) (\<lambda>q. node_prev (nodes ?m q)) (- 1) (bs c) (- 1) =
      seg (\<lambda>q. node_next (nodes m q)) (\<lambda>q. node_prev (nodes m q)) (- 1) (bs c) (- 1)" if "c < length (bucket m)" for c
  proof (rule seg_cong, rule ballI)
    fix q assume "q \<in> set (bs c)"
    then have "q \<noteq> p" using p that by auto
    then show "node_next (nodes ?m q) = node_next (nodes m q) \<and> node_prev (nodes ?m q) = node_prev (nodes m q)" by (simp add: n)
  qed
  then show ?thesis using ok get_bucket_id_cong [of ?m m] by (simp add: buckets_ok_def e)
qed

lemma delete_node_ok:
  assumes ok: "hash_ok env m bs fs as" and b: "b < length (bucket m)" "bs b = xs @ p # ys" and req: "old_data env req p m = Some old"
  obtains m' where "delete_node env req p m = Some (0, Some old, m')" "hash_ok env m' (bs(b := xs @ ys)) (p # fs) (remove1 p as)"
    "\<forall>q. q \<noteq> p \<longrightarrow> same_entry m m' q" "allocator m' = c_free (h_chunks env) (chunk_head (nodes m p)) (allocator m)"
    "bucket_size m' = bucket_size m"
proof -
  have as: "set as = (\<Union>b \<in> {..< length (bucket m)}. set (bs b))" and dj: "set fs \<inter> set as = {}"
    and pool: "\<forall>q \<in> set as \<union> set fs. 0 \<le> q \<and> q < pool_size m" and da: "distinct as"
    using hash_okD [OF ok] by (auto simp: add_ok_def)
  have "p \<in> set (bs b)" using b(2) by simp
  then have p: "p \<in> set as" "p \<notin> set fs" using as b(1) dj by blast+
  obtain us vs where sp: "as = us @ p # vs" using p(1) by (meson split_list)
  have rm: "remove1 p as = us @ vs" using da by (simp add: sp remove1_append)
  let ?m1 = "delete_from_add_list p m"
  have "\<forall>q \<in> set (us @ p # vs). 0 \<le> q \<and> q < pool_size m" using pool sp by simp
  note r = add_list_remove [OF hash_okD(3) [OF ok, unfolded sp] this]
  note h1 = same_but_add_header [OF r(1)] and n1 = same_but_add_nodes [OF r(1)]
  have bk1: "buckets_ok env ?m1 bs" using buckets_frame [OF r(1)] hash_okD(1) [OF ok] by simp
  have "set (bs b) \<subseteq> set as" using as b(1) by blast
  then have pool1: "\<forall>q \<in> set (bs b). 0 \<le> q \<and> q < pool_size ?m1" using pool by (auto simp: h1)
  have b1: "b < length (bucket ?m1)" using b(1) by (simp add: h1)
  obtain m2 where m2: "free_node env p ?m1 = Some m2" "buckets_ok env m2 (bs(b := xs @ ys))"
    "nodes m2 p = (nodes ?m1 p)\<lparr>chunk_len := 0, add_info_1 := 0, add_info_2 := 0, flag := 0, chunk_head := - 1,
       node_next := - 1, node_prev := - 1, add_next := - 1, add_prev := - 1\<rparr>"
    "\<forall>q. q \<noteq> p \<longrightarrow> (\<exists>u v. nodes m2 q = (nodes ?m1 q)\<lparr>node_next := u, node_prev := v\<rparr>)"
    "\<forall>q. q \<notin> set (bs b) \<longrightarrow> nodes m2 q = nodes ?m1 q"
    "add_head m2 = add_head ?m1" "add_tail m2 = add_tail ?m1" "free_list m2 = free_list ?m1" "pool_size m2 = pool_size ?m1"
    "node_total m2 = node_total ?m1" "used_node_num m2 = used_node_num ?m1 - 1"
    "allocator m2 = c_free (h_chunks env) (chunk_head (nodes ?m1 p)) (allocator ?m1)"
    "length (bucket m2) = length (bucket ?m1)" "bucket_size m2 = bucket_size ?m1"
    by (rule free_node_ok [OF bk1 b1 b(2) pool1])
  define m3 where "m3 = free_list_insert p m2"
  have fl: "free_list m = hd1 fs (- 1)" "seg1 (\<lambda>q. node_next (nodes m q)) fs (- 1)" "distinct fs"
    "\<forall>q \<in> set fs. add_next (nodes m q) = - 1 \<and> add_prev (nodes m q) = - 1"
    using hash_okD(2) [OF ok] by (simp_all add: free_ok_def)
  have pp: "0 \<le> p" "p < pool_size m" using pool p(1) by auto
  have n3: "nodes m3 q = (if q = p then (nodes m2 p)\<lparr>node_next := hd1 fs (- 1)\<rparr> else nodes m2 q)" for q
    using fl(1) by (simp add: m3_def free_list_insert_def m2(8) h1)
  have h3: "free_list m3 = p" "length (bucket m3) = length (bucket m)" "bucket_size m3 = bucket_size m" "pool_size m3 = pool_size m"
    "add_head m3 = add_head ?m1" "add_tail m3 = add_tail ?m1" "used_node_num m3 = used_node_num m - 1" "node_total m3 = node_total m"
    "allocator m3 = c_free (h_chunks env) (chunk_head (nodes m p)) (allocator m)"
    using pp by (simp_all add: m3_def free_list_insert_def ptr2handler_def m2(6-14) h1 n1)
  have fs: "nodes m3 q = nodes m q" if "q \<in> set fs" for q
  proof -
    have "q \<noteq> p" "q \<notin> set as" "q \<notin> set (bs b)" using that dj p(2) \<open>set (bs b) \<subseteq> set as\<close> by auto
    then show ?thesis using r(5) [of q] m2(5) by (simp add: n3 sp)
  qed
  have "seg1 (\<lambda>q. node_next (nodes m3 q)) fs (- 1) = seg1 (\<lambda>q. node_next (nodes m q)) fs (- 1)"
    by (rule seg1_cong) (simp add: fs)
  then have free: "free_ok m3 (p # fs)"
    using fl fs p(2) by (simp add: free_ok_def h3) (simp add: n3 m2(3))
  have other: "add_next (nodes m3 q) = add_next (nodes ?m1 q) \<and> add_prev (nodes m3 q) = add_prev (nodes ?m1 q) \<and> same_entry m m3 q"
    if "q \<noteq> p" for q
    using m2(4) that n1 [of q] by (auto simp: n3 same_entry_def dest: spec [of _ q])
  have "p \<notin> set (us @ vs)" using da by (auto simp: sp)
  then have "seg (\<lambda>q. add_next (nodes m3 q)) (\<lambda>q. add_prev (nodes m3 q)) (- 1) (us @ vs) (- 1) =
      seg (\<lambda>q. add_next (nodes ?m1 q)) (\<lambda>q. add_prev (nodes ?m1 q)) (- 1) (us @ vs) (- 1)"
    by (intro seg_cong) (metis other)
  then have add: "add_ok m3 (us @ vs)" using r(2) by (simp add: add_ok_def h3)
  have wo: "set ((bs(b := xs @ ys)) c) = set (bs c) - {p}" if "c < length (bucket m)" for c
    by (rule members_without [OF hash_okD(1) [OF ok] b that])
  then have bk: "buckets_ok env m3 (bs(b := xs @ ys))"
    unfolding m3_def by (intro buckets_free_insert [OF m2(2)]) (simp add: m2(13) h1)
  have "(\<Union>c \<in> {..< length (bucket m)}. set ((bs(b := xs @ ys)) c)) = set as - {p}" using as wo by auto
  moreover have "set (us @ vs) = set as - {p}" using da by (auto simp: sp)
  ultimately have U: "set (us @ vs) = (\<Union>c \<in> {..< length (bucket m)}. set ((bs(b := xs @ ys)) c))" by simp
  have "set (p # fs) \<inter> set (us @ vs) = {}" using dj da by (auto simp: sp)
  moreover have "\<forall>q \<in> set (us @ vs) \<union> set (p # fs). 0 \<le> q \<and> q < pool_size m" using pool pp by (auto simp: sp)
  moreover have "used_node_num m - 1 = int (length (us @ vs))" "node_total m = int (length (us @ vs) + length (p # fs))"
    using hash_okD(7,8) [OF ok] by (simp_all add: sp)
  ultimately have "hash_ok env m3 (bs(b := xs @ ys)) (p # fs) (us @ vs)"
    using bk free add U unfolding hash_ok_def h3 by blast
  moreover have "delete_node env req p m = Some (0, Some old, m3)" using req m2(1) by (simp add: delete_node_def m3_def)
  ultimately show thesis using other h3 by (intro that [of m3]) (simp_all add: rm)
qed

section \<open>Setting up and attaching\<close>

primrec node_list :: "nat \<Rightarrow> int \<Rightarrow> ('k, 'a) hash_map \<Rightarrow> int list" where
  "node_list 0 i m = []"
| "node_list (Suc n) i m = (first_node m + i * node_size m) # node_list n (i + 1) m"

lemma length_node_list [simp]: "length (node_list n i m) = n"
  by (induction n arbitrary: i) simp_all

lemma node_list_cong: "first_node m' = first_node m \<Longrightarrow> node_size m' = node_size m \<Longrightarrow> node_list n i m' = node_list n i m"
  by (induction n arbitrary: i) simp_all

lemma free_insert:
  assumes "free_ok m fs" and "p \<notin> set fs" and "0 \<le> p" "p < pool_size m"
  shows "free_ok (free_list_insert p (init_node p m)) (p # fs)"
proof -
  let ?m = "free_list_insert p (init_node p m)"
  have n: "nodes ?m q = (if q = p then (nodes (init_node p m) p)\<lparr>node_next := hd1 fs (- 1)\<rparr> else nodes m q)" for q
    using assms(1) by (simp add: free_list_insert_def init_node_def free_ok_def)
  have "seg1 (\<lambda>q. node_next (nodes ?m q)) fs (- 1) = seg1 (\<lambda>q. node_next (nodes m q)) fs (- 1)"
    using assms(2) by (intro seg1_cong) (auto simp: n)
  moreover have "free_list ?m = p" using assms(3,4) by (simp add: free_list_insert_def ptr2handler_def init_node_def)
  ultimately show ?thesis
    using assms(1,2) by (auto simp: free_ok_def n) (auto simp: init_node_def INVALID_BC_MEM_HANDLER_def)
qed

lemma init_nodes_ok:
  assumes "0 < node_size m" "0 \<le> first_node m" "0 \<le> i" "first_node m + (i + int n) * node_size m \<le> pool_size m"
    and "free_ok m fs" "\<forall>q \<in> set fs. 0 \<le> q \<and> q < first_node m + i * node_size m"
  shows "free_ok (init_nodes n i m) (rev (node_list n i m) @ fs) \<and>
    (\<forall>q \<in> set (rev (node_list n i m) @ fs). 0 \<le> q \<and> q < first_node m + (i + int n) * node_size m) \<and>
    (init_nodes n i m)\<lparr>nodes := nodes m, free_list := free_list m\<rparr> = m"
  using assms
proof (induction n arbitrary: i m fs)
  case (Suc n)
  let ?p = "first_node m + i * node_size m"
  let ?m = "free_list_insert ?p (init_node ?p m)"
  have h: "first_node ?m = first_node m" "node_size ?m = node_size m" "pool_size ?m = pool_size m"
    "?m\<lparr>nodes := nodes m, free_list := free_list m\<rparr> = m"
    by (simp_all add: free_list_insert_def init_node_def set_node_def)
  have nx: "?p < first_node m + (i + 1) * node_size m" "0 \<le> ?p" using Suc.prems(1-3) by (simp_all add: algebra_simps)
  have "(i + 1) * node_size m \<le> (i + int (Suc n)) * node_size m" using Suc.prems(1) by (intro mult_right_mono) simp_all
  then have lt: "?p < pool_size m" using nx Suc.prems(4) by linarith
  have "?p \<notin> set fs" using Suc.prems(6) by auto
  then have f: "free_ok ?m (?p # fs)" by (rule free_insert [OF Suc.prems(5)]) (use nx lt in simp_all)
  have "\<forall>q \<in> set (?p # fs). 0 \<le> q \<and> q < first_node ?m + (i + 1) * node_size ?m"
    using Suc.prems(6) nx by (fastforce simp: h)
  moreover have "first_node ?m + (i + 1 + int n) * node_size ?m \<le> pool_size ?m" using Suc.prems(4) by (simp add: h algebra_simps)
  ultimately have ih: "free_ok (init_nodes n (i + 1) ?m) (rev (node_list n (i + 1) ?m) @ ?p # fs) \<and>
    (\<forall>q \<in> set (rev (node_list n (i + 1) ?m) @ ?p # fs). 0 \<le> q \<and> q < first_node ?m + (i + 1 + int n) * node_size ?m) \<and>
    (init_nodes n (i + 1) ?m)\<lparr>nodes := nodes ?m, free_list := free_list ?m\<rparr> = ?m"
    using Suc.prems(1-3) f by (intro Suc.IH) (simp_all add: h)
  have nl: "node_list n (i + 1) ?m = node_list n (i + 1) m" by (rule node_list_cong) (simp_all add: h)
  have "(init_nodes n (i + 1) ?m)\<lparr>nodes := nodes ?m, free_list := free_list ?m\<rparr> = ?m" using ih by blast
  from arg_cong [OF this, of "\<lambda>x. x\<lparr>nodes := nodes m, free_list := free_list m\<rparr>"] h(4)
  have "(init_nodes n (i + 1) ?m)\<lparr>nodes := nodes m, free_list := free_list m\<rparr> = m" by simp
  then show ?case using ih unfolding nl h(1,2) by (simp add: Let_def algebra_simps)
qed simp

lemma init_pool_ok:
  assumes "0 \<le> n" "0 < b" "b < 2 ^ 31" and "0 < node_size m" "0 \<le> first_node m" "first_node m + n * node_size m \<le> pool_size m"
  shows "\<exists>fs. length fs = nat n \<and> hash_ok env (init_pool_data n b m) (\<lambda>_. []) fs []"
proof -
  let ?m = "m\<lparr>node_total := n, bucket_size := b, used_node_num := 0, used_bucket_num := 0, add_head := - 1, add_tail := - 1,
    free_list := - 1, bucket := replicate (nat b) (- 1)\<rparr>"
  let ?r = "init_nodes (nat n) 0 ?m"
  have i: "free_ok ?r (rev (node_list (nat n) 0 ?m))" "\<forall>q \<in> set (node_list (nat n) 0 ?m). 0 \<le> q \<and> q < first_node m + n * node_size m"
    "?r\<lparr>nodes := nodes ?m, free_list := free_list ?m\<rparr> = ?m"
    using init_nodes_ok [of ?m 0 "nat n" "[]"] assms by (simp_all add: free_ok_def)
  have h: "node_total ?r = n" "bucket_size ?r = b" "used_node_num ?r = 0" "used_bucket_num ?r = 0" "add_head ?r = - 1"
    "add_tail ?r = - 1" "bucket ?r = replicate (nat b) (- 1)" "pool_size ?r = pool_size m"
    using arg_cong [OF i(3), of node_total] arg_cong [OF i(3), of bucket_size] arg_cong [OF i(3), of used_node_num]
      arg_cong [OF i(3), of used_bucket_num] arg_cong [OF i(3), of add_head] arg_cong [OF i(3), of add_tail]
      arg_cong [OF i(3), of bucket] arg_cong [OF i(3), of pool_size] by simp_all
  have "hash_ok env ?r (\<lambda>_. []) (rev (node_list (nat n) 0 ?m)) []"
    unfolding hash_ok_def buckets_ok_def add_ok_def using i assms by (auto simp: h)
  moreover have "init_pool_data n b m = ?r" by (simp add: init_pool_data_def INVALID_BC_MEM_HANDLER_def)
  ultimately show ?thesis by (intro exI [of _ "rev (node_list (nat n) 0 ?m)"]) simp
qed

text \<open>A second process that attaches to the memory finds it in order.\<close>

lemma verify_ok:
  assumes ok: "hash_ok env m bs fs as"
  shows "verify_pool_data (node_total m) (bucket_size m) m = Some True"
proof -
  have b: "length (filter (\<lambda>h. h \<noteq> - 1) (bucket m)) = card {b. b < length (bucket m) \<and> bs b \<noteq> []}"
  proof -
    have "hd1 (bs b) (- 1) \<noteq> - 1 \<longleftrightarrow> bs b \<noteq> []" if "b < length (bucket m)" for b
    proof -
      have "\<forall>q \<in> set (bs b). 0 \<le> q" using that hash_okD(4,6) [OF ok] by blast
      then show ?thesis by (cases "bs b") auto
    qed
    then have "{b. b < length (bucket m) \<and> bucket m ! b \<noteq> - 1} = {b. b < length (bucket m) \<and> bs b \<noteq> []}"
      using hash_okD(1) [OF ok] by (auto simp: buckets_ok_def)
    then show ?thesis by (simp add: length_filter_conv_card)
  qed
  have "seg1 (\<lambda>q. node_next (nodes m q)) fs (- 1)" "free_list m = hd1 fs (- 1)" "\<forall>q \<in> set fs. 0 \<le> q"
    using hash_okD(2,6) [OF ok] by (simp_all add: free_ok_def)
  then have "list_len_loop (free_list m) 0 m = Some (length fs)" using list_len_chain [of m fs 0] by simp
  moreover have "used_bucket_num m = int (card {b. b < length (bucket m) \<and> bs b \<noteq> []})"
    using hash_okD(1) [OF ok] by (simp add: buckets_ok_def)
  ultimately show ?thesis using b hash_okD(7,8) [OF ok] by (simp add: verify_pool_data_def INVALID_BC_MEM_HANDLER_def)
qed

end
