(* ===== verification/ShmMap.thy ===== *)
theory ShmMap
  imports ShmHashProps
begin

text \<open>
  What \<open>CShmHashMap\<close> (\<open>include/ShmHashMap.hpp\<close>) implements: a map from keys to byte strings together with the order of use. The
  abstract state is the list of the entries, last used first. The chunk allocator is a parameter, and what the map relies on
  is \<open>chunk_laws\<close>, the contract that the comments of \<open>ChunkAlloc.hpp\<close> state.
\<close>

section \<open>The contract of the chunks\<close>

text \<open>\<open>view a h\<close>: at the handler \<open>h\<close> there is a chain of so many chunks with these data. How many chunks some data need,
  \<open>num\<close>, depends on the size of the pool's chunks, which no operation on an open pool changes; \<open>sized\<close> says that the pool is one
  with this size. Memory is promised only for a positive number of chunks.\<close>

definition sized :: "'a chunk_api \<Rightarrow> (int \<Rightarrow> int) \<Rightarrow> 'a \<Rightarrow> bool" where
  "sized api num a \<longleftrightarrow> (\<forall>l. c_get_chunk_num api l a = num l)"

definition size_kept :: "'a chunk_api \<Rightarrow> (int \<Rightarrow> int) \<Rightarrow> bool" where
  "size_kept api num \<longleftrightarrow> (\<forall>a. sized api num a \<longrightarrow>
     (\<forall>n. sized api num (snd (c_malloc api n a))) \<and> (\<forall>h. sized api num (c_free api h a)) \<and>
     (\<forall>h data. sized api num (c_split api h data a)) \<and> (\<forall>n s. sized api num (snd (c_open api False n s a))))"

definition chunk_laws :: "'a chunk_api \<Rightarrow> (int \<Rightarrow> int) \<Rightarrow> ('a \<Rightarrow> int \<Rightarrow> (int \<times> byte list) option) \<Rightarrow> bool" where
  "chunk_laws api num view \<longleftrightarrow> size_kept api num \<and>
     (\<forall>a n h a'. c_malloc api n a = (h, a') \<longrightarrow>
        (if h = - 1 then view a' = view a else view a h = None \<and> (\<exists>d. view a' = (view a)(h \<mapsto> (n, d))))) \<and>
     (\<forall>a h. view (c_free api h a) = (view a)(h := None)) \<and>
     (\<forall>a h n d data. view a h = Some (n, d) \<longrightarrow> num (int (length data)) = n \<longrightarrow>
        view (c_split api h data a) = (view a)(h \<mapsto> (n, data))) \<and>
     (\<forall>a h n d room. view a h = Some (n, d) \<longrightarrow> int (length d) \<le> room \<longrightarrow>
        c_merge api h (int (length d)) room a = (0, d, int (length d))) \<and>
     (\<forall>a. 0 \<le> c_free_num api a) \<and>
     (\<forall>n s a. view (snd (c_open api False n s a)) = view a) \<and>
     (\<forall>a h n d k. view a h = Some (n, d) \<longrightarrow> 0 < k \<longrightarrow> k \<le> c_free_num api a + n \<longrightarrow> fst (c_malloc api k (c_free api h a)) \<noteq> - 1)"

lemma sizes_kept:
  assumes "chunk_laws api num view" and "sized api num a"
  shows "sized api num (snd (c_malloc api n a))" "sized api num (c_free api h a)" "sized api num (c_split api h data a)"
    "sized api num (snd (c_open api False k s a))"
  using assms by (simp_all add: chunk_laws_def size_kept_def)

section \<open>Entries in the order of use\<close>

definition drop_key :: "'k \<Rightarrow> ('k \<times> byte list) list \<Rightarrow> ('k \<times> byte list) list" where
  "drop_key k al = filter (\<lambda>e. fst e \<noteq> k) al"

definition use_key :: "'k \<Rightarrow> ('k \<times> byte list) list \<Rightarrow> ('k \<times> byte list) list" where
  "use_key k al = (case map_of al k of None \<Rightarrow> al | Some d \<Rightarrow> (k, d) # drop_key k al)"

definition node_data :: "('a \<Rightarrow> int \<Rightarrow> (int \<times> byte list) option) \<Rightarrow> ('k, 'a) hash_map \<Rightarrow> int \<Rightarrow> byte list" where
  "node_data view m p = snd (the (view (allocator m) (chunk_head (nodes m p))))"

definition entry :: "('a \<Rightarrow> int \<Rightarrow> (int \<times> byte list) option) \<Rightarrow> ('k, 'a) hash_map \<Rightarrow> int \<Rightarrow> 'k \<times> byte list" where
  "entry view m p = (key (nodes m p), node_data view m p)"

definition data_ok :: "(int \<Rightarrow> int) \<Rightarrow> ('a \<Rightarrow> int \<Rightarrow> (int \<times> byte list) option) \<Rightarrow> ('k, 'a) hash_map \<Rightarrow> int list \<Rightarrow> bool" where
  "data_ok num view m as \<longleftrightarrow> inj_on (\<lambda>p. key (nodes m p)) (set as) \<and> inj_on (\<lambda>p. chunk_head (nodes m p)) (set as) \<and>
     (\<forall>p \<in> set as. \<exists>d. view (allocator m) (chunk_head (nodes m p)) = Some (num (chunk_len (nodes m p)), d) \<and>
        chunk_len (nodes m p) = int (length d))"

definition hash_abs ::
    "('k, 'a) hash_env \<Rightarrow> (int \<Rightarrow> int) \<Rightarrow> ('a \<Rightarrow> int \<Rightarrow> (int \<times> byte list) option) \<Rightarrow> ('k, 'a) hash_map \<Rightarrow> ('k \<times> byte list) list \<Rightarrow> bool" where
  "hash_abs env num view m al \<longleftrightarrow>
     (\<exists>bs fs as. hash_ok env m bs fs as \<and> data_ok num view m as \<and> al = map (entry view m) as)"

lemma data_at:
  assumes "data_ok num view m as" and "p \<in> set as"
  shows "view (allocator m) (chunk_head (nodes m p)) = Some (num (chunk_len (nodes m p)), node_data view m p)"
    "chunk_len (nodes m p) = int (length (node_data view m p))"
  using assms by (auto simp: data_ok_def node_data_def dest!: bspec [of _ _ p])

text \<open>With one node per key, looking up the abstract list is finding the node.\<close>

lemma filter_key:
  assumes "inj_on (\<lambda>p. key (nodes m p)) (set as)" "distinct as" "p \<in> set as"
  shows "filter (\<lambda>q. key (nodes m q) \<noteq> key (nodes m p)) as = remove1 p as"
  using assms
proof (induction as)
  case (Cons a as)
  show ?case
  proof (cases "a = p")
    case True
    then have "filter (\<lambda>q. key (nodes m q) \<noteq> key (nodes m p)) as = as"
      using Cons.prems by (auto simp: filter_id_conv inj_on_def)
    then show ?thesis using True by simp
  next
    case False
    then have "key (nodes m a) \<noteq> key (nodes m p)" "p \<in> set as" using Cons.prems by (auto simp: inj_on_def)
    then show ?thesis using Cons False by (simp add: inj_on_def)
  qed
qed simp

lemma drop_key_entries:
  assumes "data_ok num view m as" "distinct as" "p \<in> set as"
  shows "drop_key (key (nodes m p)) (map (entry view m) as) = map (entry view m) (remove1 p as)"
proof -
  have "drop_key (key (nodes m p)) (map (entry view m) as) = map (entry view m) (filter (\<lambda>q. key (nodes m q) \<noteq> key (nodes m p)) as)"
    by (simp add: drop_key_def filter_map comp_def entry_def)
  then show ?thesis using filter_key [of m as p] assms by (simp add: data_ok_def)
qed

lemma map_of_entries:
  assumes "data_ok num view m as" "p \<in> set as"
  shows "map_of (map (entry view m) as) (key (nodes m p)) = Some (node_data view m p)"
  using assms
proof (induction as)
  case (Cons a as)
  have i: "inj_on (\<lambda>p. key (nodes m p)) (set (a # as))" using Cons.prems by (simp add: data_ok_def)
  show ?case
  proof (cases "a = p")
    case False
    then have "key (nodes m a) \<noteq> key (nodes m p)" "p \<in> set as" using i Cons.prems(2) by (auto simp: inj_on_def)
    moreover have "data_ok num view m as" using Cons.prems(1) by (auto simp: data_ok_def inj_on_def)
    ultimately show ?thesis using Cons.IH by (simp add: entry_def)
  qed (simp add: entry_def)
qed simp

lemma map_of_entries_None: "map_of (map (entry view m) as) k = None \<longleftrightarrow> (\<forall>p \<in> set as. key (nodes m p) \<noteq> k)"
  by (induction as) (auto simp: entry_def)

lemma holder_entries:
  assumes ok: "hash_ok env m bs fs as"
  shows "holder env m bs k = None \<longleftrightarrow> map_of (map (entry view m) as) k = None"
    "holder env m bs k = Some p \<Longrightarrow> p \<in> set as \<and> key (nodes m p) = k"
proof -
  show some: "holder env m bs k = Some p \<Longrightarrow> p \<in> set as \<and> key (nodes m p) = k" for p by (rule find_node_ok(2) [OF ok])
  have "\<exists>q. holder env m bs k = Some q" if p: "p \<in> set as" "key (nodes m p) = k" for p
  proof -
    obtain b where b: "b < length (bucket m)" "p \<in> set (bs b)" using p(1) hash_okD(4) [OF ok] by auto
    then have "get_bucket_id env k m = Some b" using hash_okD(1) [OF ok] p(2) by (auto simp: buckets_ok_def)
    then show ?thesis using b(2) p(2) by (cases "find (\<lambda>p. key (nodes m p) = k) (bs b)") (auto simp: holder_def find_None_iff)
  qed
  then show "holder env m bs k = None \<longleftrightarrow> map_of (map (entry view m) as) k = None"
    using some unfolding map_of_entries_None by (metis option.distinct(1) not_None_eq)
qed

section \<open>The operations on the entries\<close>

lemma data_keep:
  assumes "data_ok num view m as" and "set as' \<subseteq> set as" and "\<forall>q \<in> set as'. same_entry m m' q"
    and "\<forall>q \<in> set as'. view (allocator m') (chunk_head (nodes m q)) = view (allocator m) (chunk_head (nodes m q))"
  shows "data_ok num view m' as'" "map (entry view m') as' = map (entry view m) as'"
proof -
  have "inj_on (\<lambda>p. key (nodes m' p)) (set as')" "inj_on (\<lambda>p. chunk_head (nodes m' p)) (set as')"
    using assms(1-3) by (auto simp: data_ok_def same_entry_def inj_on_def subset_iff)
  then show "data_ok num view m' as'" using assms by (auto simp: data_ok_def same_entry_def)
  show "map (entry view m') as' = map (entry view m) as'"
    using assms(3,4) by (auto simp: entry_def node_data_def same_entry_def)
qed

lemma find_abs:
  assumes ok: "hash_ok env m bs fs as" and d: "data_ok num view m as" and p: "holder env m bs k = Some p"
  shows "find_node env now k m = Some (Some p, touch now p m) \<and> hash_ok env (touch now p m) bs fs (p # remove1 p as) \<and>
    data_ok num view (touch now p m) (p # remove1 p as) \<and> key (nodes (touch now p m) p) = k \<and>
    map (entry view (touch now p m)) (p # remove1 p as) = use_key k (map (entry view m) as) \<and>
    map_of (map (entry view m) as) k = Some (node_data view m p)"
proof -
  have p': "p \<in> set as" "key (nodes m p) = k" using holder_entries(2) [OF ok p] by simp_all
  have ds: "distinct as" using hash_okD(3) [OF ok] by (simp add: add_ok_def)
  have sub: "set (p # remove1 p as) \<subseteq> set as" using p'(1) set_remove1_subset [of p as] by auto
  note t = touch_ok [OF ok p'(1), where now = now]
  have keep: "\<forall>q \<in> set (p # remove1 p as). same_entry m (touch now p m) q"
    "\<forall>q \<in> set (p # remove1 p as). view (allocator (touch now p m)) (chunk_head (nodes m q)) = view (allocator m) (chunk_head (nodes m q))"
    using touch_entry [OF ok p'(1)] t(5) by simp_all
  note k = data_keep [OF d sub keep]
  have m: "map_of (map (entry view m) as) k = Some (node_data view m p)" using map_of_entries [OF d p'(1)] p'(2) by simp
  have "map (entry view m) (p # remove1 p as) = use_key k (map (entry view m) as)"
    using drop_key_entries [OF d ds p'(1)] p'(2) m by (simp add: use_key_def entry_def)
  then show ?thesis using find_node_ok(1) [OF ok, of now k] p t(1,2) p'(2) k m by simp
qed

lemma insert_abs:
  assumes laws: "chunk_laws (h_chunks env) num view" and sz: "sized (h_chunks env) num (allocator m)"
    and ok: "hash_ok env m bs (p # fs) as" and d: "data_ok num view m as"
    and new: "map_of (map (entry view m) as) k = None" and c: "fst (c_malloc (h_chunks env) (num (int (length data))) (allocator m)) \<noteq> - 1"
  shows "\<exists>m' bs'. insert_node env now k data m = Some (Some p, m') \<and> hash_ok env m' bs' fs (p # as) \<and>
    data_ok num view m' (p # as) \<and> map (entry view m') (p # as) = (k, data) # map (entry view m) as \<and>
    sized (h_chunks env) num (allocator m')"
proof -
  obtain b where b: "get_bucket_id env k m = Some b" "b < length (bucket m)" by (rule get_bucket_id_lt [OF hash_okD(1) [OF ok]])
  obtain head a where c': "c_malloc (h_chunks env) (num (int (length data))) (allocator m) = (head, a)" "head \<noteq> - 1"
    using c by (cases "c_malloc (h_chunks env) (num (int (length data))) (allocator m)") simp
  have n: "c_get_chunk_num (h_chunks env) l (allocator m) = num l" for l using sz by (simp add: sized_def)
  have c'': "c_malloc (h_chunks env) (c_get_chunk_num (h_chunks env) (int (length data)) (allocator m)) (allocator m) = (head, a)"
    using c'(1) by (simp add: n)
  obtain d0 where v: "view (allocator m) head = None" "view a = (view (allocator m))(head \<mapsto> (num (int (length data)), d0))"
    using laws c' unfolding chunk_laws_def by meson
  have v2: "view (c_split (h_chunks env) head data a) = (view a)(head \<mapsto> (num (int (length data)), data))"
    using laws v(2) unfolding chunk_laws_def by (metis fun_upd_same)
  obtain m' where m': "insert_node env now k data m = Some (Some p, m')" "hash_ok env m' (bs(b := p # bs b)) fs (p # as)"
    "key (nodes m' p) = k" "chunk_len (nodes m' p) = int (length data)" "chunk_head (nodes m' p) = head"
    "\<forall>q. q \<noteq> p \<longrightarrow> same_entry m m' q" "allocator m' = c_split (h_chunks env) head data a"
    by (rule insert_node_ok [OF ok b c'' c'(2)])
  have pas: "p \<notin> set as" using hash_okD(5) [OF ok] by auto
  have other: "\<forall>q \<in> set as. same_entry m m' q" using m'(6) pas by auto
  have neq: "chunk_head (nodes m q) \<noteq> head" if "q \<in> set as" for q using data_at(1) [OF d that] v(1) by auto
  then have keep: "\<forall>q \<in> set as. view (allocator m') (chunk_head (nodes m q)) = view (allocator m) (chunk_head (nodes m q))"
    by (simp add: m'(7) v2 v(2))
  note k = data_keep [OF d subset_refl other keep]
  have at: "view (allocator m') (chunk_head (nodes m' p)) = Some (num (chunk_len (nodes m' p)), data)"
    by (simp add: m'(4,5,7) v2)
  have "\<forall>q \<in> set as. key (nodes m' q) \<noteq> k \<and> chunk_head (nodes m' q) \<noteq> head"
    using new neq other unfolding map_of_entries_None by (simp add: same_entry_def)
  then have "data_ok num view m' (p # as)" using k(1) at m'(3-5) pas by (auto simp: data_ok_def inj_on_def)
  moreover have "entry view m' p = (k, data)" using at m'(3) by (simp add: entry_def node_data_def)
  moreover have "sized (h_chunks env) num (allocator m')"
    using sizes_kept(3) [OF laws, of a] sizes_kept(1) [OF laws sz, of "num (int (length data))"] c'(1) m'(7) by simp
  ultimately show ?thesis using m'(1,2) k(2) by auto
qed

lemma delete_abs:
  assumes laws: "chunk_laws (h_chunks env) num view" and ok: "hash_ok env m bs fs as" and d: "data_ok num view m as"
    and p: "p \<in> set as" and sz: "sized (h_chunks env) num (allocator m)"
  shows "\<exists>m' bs'. delete_node env NoOldData p m = Some (0, Some ([], 0), m') \<and> hash_ok env m' bs' (p # fs) (remove1 p as) \<and>
    data_ok num view m' (remove1 p as) \<and> map (entry view m') (remove1 p as) = drop_key (key (nodes m p)) (map (entry view m) as) \<and>
    sized (h_chunks env) num (allocator m')"
proof -
  obtain b where b: "b < length (bucket m)" "p \<in> set (bs b)" using p hash_okD(4) [OF ok] by auto
  obtain xs ys where xy: "bs b = xs @ p # ys" using b(2) by (meson split_list)
  have ds: "distinct as" using hash_okD(3) [OF ok] by (simp add: add_ok_def)
  obtain m' where m': "delete_node env NoOldData p m = Some (0, Some ([], 0), m')"
    "hash_ok env m' (bs(b := xs @ ys)) (p # fs) (remove1 p as)" "\<forall>q. q \<noteq> p \<longrightarrow> same_entry m m' q"
    "allocator m' = c_free (h_chunks env) (chunk_head (nodes m p)) (allocator m)"
    by (rule delete_node_ok [OF ok b(1) xy, of NoOldData "([], 0)"]) (simp_all add: old_data_def)
  have rm: "set (remove1 p as) = set as - {p}" using ds by simp
  have "view (allocator m') = (view (allocator m))(chunk_head (nodes m p) := None)"
    using laws by (simp add: m'(4) chunk_laws_def)
  moreover have "chunk_head (nodes m q) \<noteq> chunk_head (nodes m p)" if "q \<in> set (remove1 p as)" for q
    using that d p unfolding rm data_ok_def inj_on_def by auto
  ultimately have keep: "\<forall>q \<in> set (remove1 p as). view (allocator m') (chunk_head (nodes m q)) = view (allocator m) (chunk_head (nodes m q))"
    by simp
  have other: "\<forall>q \<in> set (remove1 p as). same_entry m m' q" using m'(3) rm by auto
  from data_keep [OF d _ other keep] rm have "data_ok num view m' (remove1 p as)"
    "map (entry view m') (remove1 p as) = map (entry view m) (remove1 p as)" by auto
  then show ?thesis using m'(1,2) drop_key_entries [OF d ds p] sizes_kept(2) [OF laws sz] m'(4) by auto
qed


lemma set_value_abs:
  assumes ok: "hash_ok env m bs fs as" and d: "data_ok num view m as" and p: "p \<in> set as"
    and f: "f = (\<lambda>n. n\<lparr>chunk_len := int (length data), chunk_head := h\<rparr>)" and at: "view a h = Some (num (int (length data)), data)"
    and oth: "\<forall>q \<in> set as - {p}. view a (chunk_head (nodes m q)) = view (allocator m) (chunk_head (nodes m q)) \<and> chunk_head (nodes m q) \<noteq> h"
  defines "m' \<equiv> set_node p f (m\<lparr>allocator := a\<rparr>)"
  shows "hash_ok env m' bs fs as \<and> data_ok num view m' as \<and>
    map (entry view m') as = map ((entry view m)(p := (key (nodes m p), data))) as"
proof -
  have ok': "hash_ok env m' bs fs as" unfolding m'_def using ok by (simp add: hash_ok_set_data f)
  have alloc: "allocator m' = a" by (simp add: m'_def set_node_def)
  have here: "key (nodes m' q) = key (nodes m q)" "chunk_len (nodes m' p) = int (length data)" "chunk_head (nodes m' p) = h"
    "q \<noteq> p \<Longrightarrow> nodes m' q = nodes m q" for q
    by (simp_all add: m'_def f)
  have "inj_on (\<lambda>p. key (nodes m' p)) (set as)" using d by (simp add: here(1) data_ok_def)
  moreover have "inj_on (\<lambda>q. chunk_head (nodes m' q)) (set as)"
  proof (rule inj_onI)
    fix q r assume "q \<in> set as" "r \<in> set as" "chunk_head (nodes m' q) = chunk_head (nodes m' r)"
    then show "q = r" using d oth here(3,4) by (cases "q = p"; cases "r = p") (auto simp: data_ok_def inj_on_def)
  qed
  moreover have "view a (chunk_head (nodes m' q)) = Some (num (chunk_len (nodes m' q)), if q = p then data else node_data view m q)"
    "chunk_len (nodes m' q) = int (length (if q = p then data else node_data view m q))" if "q \<in> set as" for q
    using data_at [OF d that] oth that here at by (cases "q = p"; simp)+
  ultimately have "data_ok num view m' as" "\<forall>q \<in> set as. entry view m' q = ((entry view m)(p := (key (nodes m p), data))) q"
    by (auto simp: data_ok_def alloc entry_def node_data_def here(1))
  then show ?thesis using ok' by auto
qed

lemma change_abs:
  assumes laws: "chunk_laws (h_chunks env) num view" and ok: "hash_ok env m bs fs as" and d: "data_ok num view m as"
    and p: "p \<in> set as" and sz: "sized (h_chunks env) num (allocator m)" and pos: "0 < num (int (length data))"
    and fit: "num (int (length data)) - num (int (length (node_data view m p))) \<le> c_free_num (h_chunks env) (allocator m)"
  shows "\<exists>m'. change_data env p data m = (Some p, m') \<and> hash_ok env m' bs fs as \<and> data_ok num view m' as \<and>
    map (entry view m') as = map ((entry view m)(p := (key (nodes m p), data))) as \<and>
    sized (h_chunks env) num (allocator m')"
proof -
  let ?api = "h_chunks env" and ?h = "chunk_head (nodes m p)" and ?new = "num (int (length data))"
  have n: "c_get_chunk_num ?api l (allocator m) = num l" for l using sz by (simp add: sized_def)
  have at: "view (allocator m) ?h = Some (num (chunk_len (nodes m p)), node_data view m p)"
    "chunk_len (nodes m p) = int (length (node_data view m p))" using data_at [OF d p] by simp_all
  have neq: "\<forall>q \<in> set as - {p}. chunk_head (nodes m q) \<noteq> ?h" using d p by (auto simp: data_ok_def inj_on_def)
  show ?thesis
  proof (cases "num (chunk_len (nodes m p)) = ?new")
    case True
    let ?a = "c_split ?api ?h data (allocator m)"
    have v: "view ?a = (view (allocator m))(?h \<mapsto> (?new, data))"
      using laws at(1) True unfolding chunk_laws_def by metis
    have "change_data env p data m = (Some p, set_node p (\<lambda>n. n\<lparr>chunk_len := int (length data)\<rparr>) (m\<lparr>allocator := ?a\<rparr>))"
      using True by (simp add: change_data_def n)
    moreover have "set_node p (\<lambda>n. n\<lparr>chunk_len := int (length data)\<rparr>) (m\<lparr>allocator := ?a\<rparr>) =
      set_node p (\<lambda>n. n\<lparr>chunk_len := int (length data), chunk_head := ?h\<rparr>) (m\<lparr>allocator := ?a\<rparr>)"
      by (simp add: set_node_def)
    moreover have "view ?a ?h = Some (?new, data)" "\<forall>q \<in> set as - {p}. view ?a (chunk_head (nodes m q)) = view (allocator m) (chunk_head (nodes m q)) \<and> chunk_head (nodes m q) \<noteq> ?h"
      using v neq by auto
    ultimately show ?thesis using set_value_abs [OF ok d p refl, where a = ?a and h = ?h and data = data] sizes_kept(3) [OF laws sz]
      by auto
  next
    case False
    let ?f = "c_free ?api ?h (allocator m)"
    obtain head a where c: "c_malloc ?api ?new ?f = (head, a)" by (cases "c_malloc ?api ?new ?f")
    have vf: "view ?f = (view (allocator m))(?h := None)" using laws by (simp add: chunk_laws_def)
    have "?new \<le> c_free_num ?api (allocator m) + num (chunk_len (nodes m p))" using fit at(2) by simp
    then have "fst (c_malloc ?api ?new ?f) \<noteq> - 1" using laws at(1) pos unfolding chunk_laws_def by blast
    then have h: "head \<noteq> - 1" by (simp add: c)
    obtain d0 where v: "view ?f head = None" "view a = (view ?f)(head \<mapsto> (?new, d0))"
      using laws c h unfolding chunk_laws_def by meson
    let ?a = "c_split ?api head data a"
    have v2: "view ?a = (view a)(head \<mapsto> (?new, data))"
      using laws v(2) unfolding chunk_laws_def by (metis fun_upd_same)
    have e: "change_data env p data m =
      (Some p, set_node p (\<lambda>n. n\<lparr>chunk_len := int (length data), chunk_head := head\<rparr>) (m\<lparr>allocator := ?a\<rparr>))"
      using False fit at(2) c by (auto simp: change_data_def n Let_def)
    have "chunk_head (nodes m q) \<noteq> head" if q: "q \<in> set as - {p}" for q
    proof
      assume "chunk_head (nodes m q) = head"
      moreover have "view ?f (chunk_head (nodes m q)) \<noteq> None" using q neq data_at(1) [OF d, of q] vf by simp
      ultimately show False using v(1) by simp
    qed
    then have "view ?a head = Some (?new, data)" "\<forall>q \<in> set as - {p}. view ?a (chunk_head (nodes m q)) = view (allocator m) (chunk_head (nodes m q)) \<and> chunk_head (nodes m q) \<noteq> head"
      using v2 v(2) vf neq by auto
    then show ?thesis using set_value_abs [OF ok d p refl, where a = ?a and h = head and data = data] e
      sizes_kept(3) [OF laws, of a] sizes_kept(1) [OF laws sizes_kept(2) [OF laws sz], of ?new ?h] c by auto
  qed
qed

lemma change_no_room:
  assumes laws: "chunk_laws (h_chunks env) num view" and d: "data_ok num view m as" and p: "p \<in> set as"
    and sz: "sized (h_chunks env) num (allocator m)"
    and fit: "\<not> num (int (length data)) - num (int (length (node_data view m p))) \<le> c_free_num (h_chunks env) (allocator m)"
  shows "change_data env p data m = (None, m)"
proof -
  have n: "c_get_chunk_num (h_chunks env) l (allocator m) = num l" "0 \<le> c_free_num (h_chunks env) a'" for l a'
    using laws sz by (simp_all add: chunk_laws_def sized_def)
  show ?thesis using fit data_at(2) [OF d p] n(2) [of "allocator m"] by (auto simp: change_data_def n(1))
qed


section \<open>Walking through the entries\<close>

text \<open>A place in the additional list, as a visitor reaches it: so many steps from \<open>begin\<close> with \<open>next\<close>, or from \<open>end\<close> with \<open>prev\<close>.\<close>

datatype place = FromBegin nat | FromEnd nat

primrec walk_next :: "nat \<Rightarrow> ('k, 'a) hash_map \<Rightarrow> int option" where
  "walk_next 0 m = vistor_begin m"
| "walk_next (Suc i) m = (case walk_next i m of None \<Rightarrow> None | Some p \<Rightarrow> vistor_next p m)"

primrec walk_prev :: "nat \<Rightarrow> ('k, 'a) hash_map \<Rightarrow> int option" where
  "walk_prev 0 m = vistor_end m"
| "walk_prev (Suc i) m = (case walk_prev i m of None \<Rightarrow> None | Some p \<Rightarrow> vistor_prev p m)"

definition walk :: "place \<Rightarrow> ('k, 'a) hash_map \<Rightarrow> int option" where
  "walk pl m = (case pl of FromBegin i \<Rightarrow> walk_next i m | FromEnd i \<Rightarrow> walk_prev i m)"

definition place_index :: "place \<Rightarrow> nat \<Rightarrow> nat option" where
  "place_index pl n = (case pl of FromBegin i \<Rightarrow> if i < n then Some i else None
     | FromEnd i \<Rightarrow> if i < n then Some (n - 1 - i) else None)"

lemma handler2ptr_nonneg [simp]: "0 \<le> p \<Longrightarrow> handler2ptr p = Some p"
  by (simp add: handler2ptr_def INVALID_BC_MEM_HANDLER_def)

lemma handler2ptr_none [simp]: "handler2ptr (- 1) = None"
  by (simp add: handler2ptr_def INVALID_BC_MEM_HANDLER_def)

lemma handler2ptr_hd: "\<forall>q \<in> set xs. 0 \<le> q \<Longrightarrow> handler2ptr (hd1 xs (- 1)) = (case xs of [] \<Rightarrow> None | x # _ \<Rightarrow> Some x)"
  by (cases xs) simp_all

lemma handler2ptr_last: "\<forall>q \<in> set xs. 0 \<le> q \<Longrightarrow> handler2ptr (last1 (- 1) xs) = (if xs = [] then None else Some (last xs))"
  by (simp add: last1_def)

lemma seg_nth:
  assumes "seg n p a xs b" "i < length xs"
  shows "n (xs ! i) = hd1 (drop (Suc i) xs) b" "p (xs ! i) = last1 a (take i xs)"
proof -
  have "seg n p a (take i xs @ xs ! i # drop (Suc i) xs) b" using assms by (simp add: id_take_nth_drop [symmetric])
  from seg_at [OF this] show "n (xs ! i) = hd1 (drop (Suc i) xs) b" "p (xs ! i) = last1 a (take i xs)" by simp_all
qed

lemma walk_ok:
  assumes ok: "hash_ok env m bs fs as"
  shows "walk pl m = map_option (\<lambda>i. as ! i) (place_index pl (length as))"
proof -
  have s: "seg (\<lambda>p. add_next (nodes m p)) (\<lambda>p. add_prev (nodes m p)) (- 1) as (- 1)" "add_head m = hd1 as (- 1)"
    "add_tail m = last1 (- 1) as" using hash_okD(3) [OF ok] by (simp_all add: add_ok_def)
  have nn: "\<forall>q \<in> set as. 0 \<le> q" using hash_okD(6) [OF ok] by blast
  have "walk_next i m = (if i < length as then Some (as ! i) else None)" for i
  proof (induction i)
    case 0
    show ?case using s(2) handler2ptr_hd [OF nn] by (cases as) (simp_all add: vistor_begin_def get_add_list_head_def)
  next
    case (Suc i)
    have "vistor_next (as ! i) m = (if Suc i < length as then Some (as ! Suc i) else None)" if i: "i < length as"
    proof -
      have "vistor_next (as ! i) m = handler2ptr (hd1 (drop (Suc i) as) (- 1))"
        using seg_nth(1) [OF s(1) i] by (simp add: vistor_next_def get_add_list_next_def)
      also have "\<dots> = (case drop (Suc i) as of [] \<Rightarrow> None | x # _ \<Rightarrow> Some x)"
        using nn by (intro handler2ptr_hd) (meson in_set_dropD)
      finally show ?thesis by (cases "Suc i < length as") (simp_all add: Cons_nth_drop_Suc [symmetric])
    qed
    then show ?case using Suc.IH by auto
  qed
  moreover have "walk_prev i m = (if i < length as then Some (as ! (length as - 1 - i)) else None)" for i
  proof (induction i)
    case 0
    show ?case using s(3) handler2ptr_last [OF nn] by (simp add: vistor_end_def get_add_list_tail_def last_conv_nth)
  next
    case (Suc i)
    have "vistor_prev (as ! (length as - 1 - i)) m = (if Suc i < length as then Some (as ! (length as - 1 - Suc i)) else None)"
      if i: "i < length as"
    proof -
      let ?j = "length as - 1 - i"
      have j: "?j < length as" using i by linarith
      have "vistor_prev (as ! ?j) m = handler2ptr (last1 (- 1) (take ?j as))"
        using seg_nth(2) [OF s(1) j] by (simp add: vistor_prev_def get_add_list_prev_def)
      also have "\<dots> = (if take ?j as = [] then None else Some (last (take ?j as)))"
        using nn by (intro handler2ptr_last) (meson in_set_takeD)
      finally show ?thesis using i by (cases "Suc i < length as") (auto simp: last_conv_nth min_def)
    qed
    then show ?case using Suc.IH by auto
  qed
  ultimately show ?thesis by (auto simp: walk_def place_index_def split: place.split)
qed


section \<open>The operations and the list of the entries\<close>

datatype 'k shm_op =
    FindKey 'k
  | GetData 'k "int option"
  | SetData 'k "byte list"
  | Insert 'k "byte list"
  | DeleteKey 'k
  | ReadAt place "int option"
  | EraseAt place
  | UpdateAt place "byte list"
  | Counts
  | Attach

datatype shm_result =
    IsThere bool
  | Data int "(byte list \<times> int) option"
  | Ret int
  | Changed bool
  | Sizes int int

text \<open>How the map was set up: the size of a node, and the sizes that \<open>open\<close> gets.\<close>

record geometry =
  g_node :: int
  g_nodes :: int
  g_buckets :: int
  g_chunks :: int
  g_chunk_size :: int

definition shm_step ::
    "('k, 'a) hash_env \<Rightarrow> geometry \<Rightarrow> int \<Rightarrow> 'k shm_op \<Rightarrow> ('k, 'a) hash_map \<Rightarrow> (shm_result \<times> ('k, 'a) hash_map) option" where
  "shm_step env g now op m = (case op of
     FindKey k \<Rightarrow> map_option (\<lambda>(b, m1). (IsThere b, m1)) (shm_Find env now k m)
   | GetData k room \<Rightarrow> map_option (\<lambda>((r, d), m1). (Data r d, m1)) (shm_Find_data env now k room m)
   | SetData k data \<Rightarrow> map_option (\<lambda>(r, m1). (Ret r, m1)) (shm_SetValue env now k data m)
   | Insert k data \<Rightarrow> map_option (\<lambda>(r, m1). (Ret r, m1)) (shm_Insert env now k data m)
   | DeleteKey k \<Rightarrow> map_option (\<lambda>(r, m1). (Ret r, m1)) (shm_Delete env now k m)
   | ReadAt pl room \<Rightarrow> (case walk pl m of None \<Rightarrow> Some (Data (- 1) None, m)
       | Some p \<Rightarrow> (let (r, bs, l) = vistor_GetData env p room m in Some (Data r (Some (bs, l)), m)))
   | EraseAt pl \<Rightarrow> map_option (\<lambda>(r, m1). (Ret r, m1)) (vistor_Erase env (walk pl m) m)
   | UpdateAt pl data \<Rightarrow> (let (r, m1) = vistor_UpdateData env (walk pl m) data m in Some (Changed (r \<noteq> None), m1))
   | Counts \<Rightarrow> Some (Sizes (shm_GetSize m) (shm_GetCount m), m)
   | Attach \<Rightarrow> map_option (\<lambda>(r, m1). (Ret r, m1))
       (hash_open env (g_node g) False (g_nodes g) (g_buckets g) (g_chunks g) (g_chunk_size g) m))"

text \<open>What depends on the memory: whether the new data find room, and what the allocator says when it is opened again.\<close>

definition fits ::
    "('k, 'a) hash_env \<Rightarrow> (int \<Rightarrow> int) \<Rightarrow> geometry \<Rightarrow> 'k \<Rightarrow> byte list \<Rightarrow> ('k, 'a) hash_map \<Rightarrow> ('k \<times> byte list) list \<Rightarrow> bool" where
  "fits env num g k data m al = (case map_of al k of
     Some old \<Rightarrow> num (int (length data)) - num (int (length old)) \<le> c_free_num (h_chunks env) (allocator m)
   | None \<Rightarrow> int (length al) < g_nodes g \<and> fst (c_malloc (h_chunks env) (num (int (length data))) (allocator m)) \<noteq> - 1)"

definition read_data :: "byte list \<Rightarrow> int option \<Rightarrow> shm_result option" where
  "read_data d room = (case room of
     None \<Rightarrow> Some (Data (- 1) (Some ([], int (length d))))
   | Some r \<Rightarrow> if int (length d) \<le> r then Some (Data 0 (Some (d, int (length d)))) else None)"

text \<open>The operations on the list of the entries. No result is given for a buffer that is too small, where the allocator decides.\<close>

definition abs_step ::
    "('k \<Rightarrow> byte list \<Rightarrow> bool) \<Rightarrow> int \<Rightarrow> int \<Rightarrow> 'k shm_op \<Rightarrow> ('k \<times> byte list) list \<Rightarrow> shm_result option \<times> ('k \<times> byte list) list" where
  "abs_step fit opened n op al = (case op of
     FindKey k \<Rightarrow> (Some (IsThere (map_of al k \<noteq> None)), use_key k al)
   | GetData k room \<Rightarrow> (case map_of al k of None \<Rightarrow> (Some (Data (- 1) None), al) | Some d \<Rightarrow> (read_data d room, use_key k al))
   | SetData k data \<Rightarrow> if fit k data then (Some (Ret 0), (k, data) # drop_key k al) else (Some (Ret (- 1)), use_key k al)
   | Insert k data \<Rightarrow> if fit k data then (Some (Ret 0), (k, data) # al) else (Some (Ret (- 1)), al)
   | DeleteKey k \<Rightarrow> (Some (Ret (if map_of al k = None then - 1 else 0)), drop_key k al)
   | ReadAt pl room \<Rightarrow> (case place_index pl (length al) of None \<Rightarrow> Some (Data (- 1) None) | Some i \<Rightarrow> read_data (snd (al ! i)) room, al)
   | EraseAt pl \<Rightarrow> (case place_index pl (length al) of None \<Rightarrow> (Some (Ret (- 1)), al)
       | Some i \<Rightarrow> (Some (Ret 0), take i al @ drop (Suc i) al))
   | UpdateAt pl data \<Rightarrow> (case place_index pl (length al) of None \<Rightarrow> (Some (Changed False), al)
       | Some i \<Rightarrow> if fit (fst (al ! i)) data then (Some (Changed True), al[i := (fst (al ! i), data)]) else (Some (Changed False), al))
   | Counts \<Rightarrow> (Some (Sizes n (int (length al))), al)
   | Attach \<Rightarrow> (Some (Ret opened), al))"

definition abs_of ::
    "('k, 'a) hash_env \<Rightarrow> (int \<Rightarrow> int) \<Rightarrow> geometry \<Rightarrow> 'k shm_op \<Rightarrow> ('k, 'a) hash_map \<Rightarrow> ('k \<times> byte list) list \<Rightarrow>
     shm_result option \<times> ('k \<times> byte list) list" where
  "abs_of env num g op m al =
     abs_step (\<lambda>k data. fits env num g k data m al)
       (fst (c_open (h_chunks env) False (g_chunks g) (g_chunk_size g) (allocator m))) (g_nodes g) op al"

text \<open>What the caller has to see to: \<open>Insert\<close> is for a key that is not held (it does not look for it, and would add a second
  node), and data that replace others need at least one chunk.\<close>

definition allowed :: "(int \<Rightarrow> int) \<Rightarrow> 'k shm_op \<Rightarrow> ('k \<times> byte list) list \<Rightarrow> bool" where
  "allowed num op al = (case op of
     Insert k data \<Rightarrow> map_of al k = None
   | SetData k data \<Rightarrow> 0 < num (int (length data))
   | UpdateAt pl data \<Rightarrow> 0 < num (int (length data))
   | _ \<Rightarrow> True)"

text \<open>The map follows the list: as long as the operations are allowed, each returns, with the result of the list's operation where
  there is one.\<close>

fun follows ::
    "('k, 'a) hash_env \<Rightarrow> (int \<Rightarrow> int) \<Rightarrow> geometry \<Rightarrow> (int \<times> 'k shm_op) list \<Rightarrow> ('k, 'a) hash_map \<Rightarrow> ('k \<times> byte list) list \<Rightarrow> bool" where
  "follows env num g [] m al = True"
| "follows env num g ((now, op) # ops) m al = (allowed num op al \<longrightarrow> (case shm_step env g now op m of
     None \<Rightarrow> False
   | Some (r, m') \<Rightarrow> (case abs_of env num g op m al of (r', al') \<Rightarrow> (r' = None \<or> r' = Some r) \<and> follows env num g ops m' al')))"


section \<open>The geometry stays\<close>

definition geo :: "('k, 'a) hash_map \<Rightarrow> int \<times> int \<times> int \<times> int \<times> int" where
  "geo m = (node_total m, bucket_size m, first_node m, node_size m, pool_size m)"

definition geo_of :: "geometry \<Rightarrow> int \<times> int \<times> int \<times> int \<times> int" where
  "geo_of g = (g_nodes g, g_buckets g, 40 + g_buckets g * 8, g_node g, get_pool_size (g_node g) (g_nodes g) (g_buckets g))"

lemma geo_updates [simp]:
  "geo (set_node p f m) = geo m" "geo (m\<lparr>allocator := a\<rparr>) = geo m" "geo (m\<lparr>free_list := h\<rparr>) = geo m" "geo (m\<lparr>bucket := b\<rparr>) = geo m"
  "geo (m\<lparr>used_node_num := i\<rparr>) = geo m" "geo (m\<lparr>used_bucket_num := i\<rparr>) = geo m" "geo (m\<lparr>add_head := h\<rparr>) = geo m"
  "geo (m\<lparr>add_tail := h\<rparr>) = geo m"
  by (simp_all add: geo_def set_node_def)

lemma geo_lists [simp]:
  "geo (free_list_insert p m) = geo m" "geo (init_node p m) = geo m" "geo (snd (free_list_remove m)) = geo m"
  "geo (delete_from_add_list p m) = geo m"
  by (simp_all add: free_list_insert_def init_node_def free_list_remove_def delete_from_add_list_def Let_def split: option.split)

lemma geo_add [simp]: "geo (insert_add_list_head p m) = geo m" "geo (touch now p m) = geo m"
  by (simp_all add: insert_add_list_head_def touch_def Let_def split: option.split)

lemma geo_node_list:
  "insert_node_list env p m = Some m' \<Longrightarrow> geo m' = geo m" "delete_from_node_list env p m = Some m' \<Longrightarrow> geo m' = geo m"
  by (auto simp: insert_node_list_def delete_from_node_list_def Let_def bind_eq_Some_conv split: option.splits)

lemma geo_node:
  "use_node env p k l h m = Some m' \<Longrightarrow> geo m' = geo m" "free_node env p m = Some m' \<Longrightarrow> geo m' = geo m"
  by (auto simp: use_node_def free_node_def Let_def bind_eq_Some_conv dest!: geo_node_list split: if_splits)

lemma geo_insert: "insert_node env now k data m = Some (r, m') \<Longrightarrow> geo m' = geo m"
proof -
  obtain x m1 where m1: "free_list_remove m = (x, m1)" by (cases "free_list_remove m")
  then have "geo m1 = geo m" using geo_lists(3) [of m] by simp
  then show "insert_node env now k data m = Some (r, m') \<Longrightarrow> geo m' = geo m"
    using m1 by (auto simp: insert_node_def Let_def bind_eq_Some_conv split: option.splits prod.splits if_splits dest!: geo_node)
qed

lemma geo_delete: "delete_node env req p m = Some (r, old, m') \<Longrightarrow> geo m' = geo m"
  by (auto simp: delete_node_def bind_eq_Some_conv split: option.splits dest!: geo_node)

lemma geo_change: "change_data env p data m = (r, m') \<Longrightarrow> geo m' = geo m"
  by (auto simp: change_data_def Let_def split: if_splits prod.splits)


section \<open>Every operation follows the list\<close>

definition map_ok ::
    "('k, 'a) hash_env \<Rightarrow> (int \<Rightarrow> int) \<Rightarrow> ('a \<Rightarrow> int \<Rightarrow> (int \<times> byte list) option) \<Rightarrow> geometry \<Rightarrow> ('k, 'a) hash_map \<Rightarrow>
     ('k \<times> byte list) list \<Rightarrow> bool" where
  "map_ok env num view g m al \<longleftrightarrow> hash_abs env num view m al \<and> geo m = geo_of g \<and> sized (h_chunks env) num (allocator m)"

definition simulates ::
    "('k, 'a) hash_env \<Rightarrow> (int \<Rightarrow> int) \<Rightarrow> ('a \<Rightarrow> int \<Rightarrow> (int \<times> byte list) option) \<Rightarrow> geometry \<Rightarrow> int \<Rightarrow> 'k shm_op \<Rightarrow>
     ('k, 'a) hash_map \<Rightarrow> ('k \<times> byte list) list \<Rightarrow> bool" where
  "simulates env num view g now op m al \<longleftrightarrow> (\<exists>r m' r' al'. shm_step env g now op m = Some (r, m') \<and>
     abs_of env num g op m al = (r', al') \<and> (r' = None \<or> r' = Some r) \<and> map_ok env num view g m' al')"

lemma map_okI:
  "hash_ok env m bs fs as \<Longrightarrow> data_ok num view m as \<Longrightarrow> geo m = geo_of g \<Longrightarrow>
   sized (h_chunks env) num (allocator m) \<Longrightarrow> map (entry view m) as = al \<Longrightarrow> map_ok env num view g m al"
  by (auto simp: map_ok_def hash_abs_def)

lemma map_okE:
  assumes "map_ok env num view g m al"
  obtains bs fs as where "hash_ok env m bs fs as" "data_ok num view m as" "al = map (entry view m) as" "geo m = geo_of g"
    "sized (h_chunks env) num (allocator m)"
  using assms by (auto simp: map_ok_def hash_abs_def)

lemma find_map:
  assumes "map_ok env num view g m al"
  shows "map_of al k = None \<Longrightarrow> find_node env now k m = Some (None, m)"
    "map_of al k = Some d \<Longrightarrow> \<exists>p m' bs fs as. find_node env now k m = Some (Some p, m') \<and> hash_ok env m' bs fs (p # as) \<and>
       data_ok num view m' (p # as) \<and> map (entry view m') (p # as) = use_key k al \<and> entry view m' p = (k, d) \<and>
       geo m' = geo_of g \<and> allocator m' = allocator m"
proof -
  obtain bs fs as where ok: "hash_ok env m bs fs as" and d0: "data_ok num view m as" and al: "al = map (entry view m) as"
    and g: "geo m = geo_of g" using assms by (rule map_okE)
  show "find_node env now k m = Some (None, m)" if "map_of al k = None"
    using find_node_ok(1) [OF ok, of now k] holder_entries(1) [OF ok, where view = view and k = k] that al by simp
  show "\<exists>p m' bs fs as. find_node env now k m = Some (Some p, m') \<and> hash_ok env m' bs fs (p # as) \<and>
       data_ok num view m' (p # as) \<and> map (entry view m') (p # as) = use_key k al \<and> entry view m' p = (k, d) \<and>
       geo m' = geo_of g \<and> allocator m' = allocator m" if k: "map_of al k = Some d"
  proof -
    obtain p where p: "holder env m bs k = Some p"
      using holder_entries(1) [OF ok, where view = view and k = k] k al by auto
    note f = find_abs [OF ok d0 p, where now = now]
    have "allocator (touch now p m) = allocator m" using touch_ok(5) [OF ok] holder_entries(2) [OF ok p] by blast
    moreover have "hd (map (entry view (touch now p m)) (p # remove1 p as)) = hd (use_key k al)" using f al by simp
    then have "entry view (touch now p m) p = (k, d)" using k by (simp add: use_key_def)
    ultimately show ?thesis using f al g by auto
  qed
qed

lemma merge_map:
  assumes laws: "chunk_laws (h_chunks env) num view" and d: "data_ok num view m as" "p \<in> set as"
  shows "case merge_node_data env p room m of (r, bs, l) \<Rightarrow>
    read_data (snd (entry view m p)) room = None \<or> read_data (snd (entry view m p)) room = Some (Data r (Some (bs, l)))"
proof (cases room)
  case (Some n)
  let ?d = "node_data view m p"
  have at: "view (allocator m) (chunk_head (nodes m p)) = Some (num (chunk_len (nodes m p)), ?d)"
    "chunk_len (nodes m p) = int (length ?d)" using data_at [OF d] by simp_all
  have "int (length ?d) \<le> n \<Longrightarrow> c_merge (h_chunks env) (chunk_head (nodes m p)) (int (length ?d)) n (allocator m) = (0, ?d, int (length ?d))"
    using laws at(1) unfolding chunk_laws_def by blast
  then show ?thesis using at(2) Some by (auto simp: merge_node_data_def read_data_def entry_def split: prod.split)
qed (use data_at(2) [OF d] in \<open>simp add: merge_node_data_def read_data_def entry_def\<close>)

lemma sim_find:
  assumes "map_ok env num view g m al"
  shows "simulates env num view g now (FindKey k) m al"
proof (cases "map_of al k")
  case None
  then show ?thesis using find_map(1) [OF assms None, of now] assms
    by (simp add: simulates_def shm_step_def shm_Find_def abs_of_def abs_step_def use_key_def)
next
  case (Some d)
  obtain p m' bs fs as where "find_node env now k m = Some (Some p, m')" "hash_ok env m' bs fs (p # as)"
    "data_ok num view m' (p # as)" "map (entry view m') (p # as) = use_key k al" "geo m' = geo_of g" "allocator m' = allocator m"
    using find_map(2) [OF assms Some, of now] by blast
  moreover have "sized (h_chunks env) num (allocator m)" using assms by (simp add: map_ok_def)
  ultimately show ?thesis using Some map_okI [of env m' bs fs "p # as" num view g]
    by (simp add: simulates_def shm_step_def shm_Find_def abs_of_def abs_step_def)
qed

lemma sim_get:
  assumes laws: "chunk_laws (h_chunks env) num view" and ok: "map_ok env num view g m al"
  shows "simulates env num view g now (GetData k room) m al"
proof (cases "map_of al k")
  case None
  then show ?thesis using find_map(1) [OF ok None, of now] ok
    by (simp add: simulates_def shm_step_def shm_Find_data_def abs_of_def abs_step_def)
next
  case (Some d)
  obtain p m' bs fs as where f: "find_node env now k m = Some (Some p, m')" "hash_ok env m' bs fs (p # as)"
    "data_ok num view m' (p # as)" "map (entry view m') (p # as) = use_key k al" "entry view m' p = (k, d)" "geo m' = geo_of g"
    "allocator m' = allocator m" using find_map(2) [OF ok Some, of now] by blast
  have sz: "sized (h_chunks env) num (allocator m')" using ok f(7) by (simp add: map_ok_def)
  obtain r b l where "merge_node_data env p room m' = (r, b, l)" by (cases "merge_node_data env p room m'")
  then show ?thesis using Some f sz merge_map [OF laws f(3), of p room] map_okI [of env m' bs fs "p # as" num view g]
    by (simp add: simulates_def shm_step_def shm_Find_data_def abs_of_def abs_step_def Let_def)
qed


lemma use_key_here: "map_of al k = Some d \<Longrightarrow> use_key k al = (k, d) # drop_key k al"
  by (simp add: use_key_def)

lemma change_map:
  assumes laws: "chunk_laws (h_chunks env) num view" and ok: "hash_ok env m bs fs as" and d: "data_ok num view m as"
    and g: "geo m = geo_of g" and sz: "sized (h_chunks env) num (allocator m)" and pos: "0 < num (int (length data))"
    and i: "i < length as" and e: "entry view m (as ! i) = (k, old)"
  shows "if num (int (length data)) - num (int (length old)) \<le> c_free_num (h_chunks env) (allocator m)
    then \<exists>m'. change_data env (as ! i) data m = (Some (as ! i), m') \<and> map_ok env num view g m' ((map (entry view m) as)[i := (k, data)])
    else change_data env (as ! i) data m = (None, m)"
proof (cases "num (int (length data)) - num (int (length old)) \<le> c_free_num (h_chunks env) (allocator m)")
  case True
  let ?p = "as ! i"
  have p: "?p \<in> set as" "key (nodes m ?p) = k" "node_data view m ?p = old" using i e by (simp_all add: entry_def)
  have ds: "distinct as" using hash_okD(3) [OF ok] by (simp add: add_ok_def)
  obtain m' where m': "change_data env ?p data m = (Some ?p, m')" "hash_ok env m' bs fs as" "data_ok num view m' as"
    "map (entry view m') as = map ((entry view m)(?p := (k, data))) as" "sized (h_chunks env) num (allocator m')"
    using change_abs [OF laws ok d p(1) sz pos] True p(2,3) by auto
  have "map ((entry view m)(?p := (k, data))) as = (map (entry view m) as)[i := (k, data)]"
    using ds i by (auto intro!: nth_equalityI simp: nth_list_update nth_eq_iff_index_eq)
  then have "map_ok env num view g m' ((map (entry view m) as)[i := (k, data)])"
    using m'(2-5) geo_change [OF m'(1)] g by (intro map_okI) simp_all
  then show ?thesis using True m'(1) by auto
next
  case False
  have "as ! i \<in> set as" "node_data view m (as ! i) = old" using i e by (simp_all add: entry_def)
  then show ?thesis using change_no_room [OF laws d _ sz, of "as ! i" data] False by simp
qed

lemma sim_set_held:
  assumes laws: "chunk_laws (h_chunks env) num view" and ok: "map_ok env num view g m al" and k: "map_of al k = Some old"
    and pos: "0 < num (int (length data))"
  shows "simulates env num view g now (SetData k data) m al"
proof -
  obtain p m1 bs fs as where f: "find_node env now k m = Some (Some p, m1)" "hash_ok env m1 bs fs (p # as)"
    "data_ok num view m1 (p # as)" "map (entry view m1) (p # as) = use_key k al" "entry view m1 p = (k, old)" "geo m1 = geo_of g"
    "allocator m1 = allocator m"
    using find_map(2) [OF ok k, of now] by blast
  have sz: "sized (h_chunks env) num (allocator m1)" using ok f(7) by (simp add: map_ok_def)
  have drop: "map (entry view m1) as = drop_key k al" using f(4,5) k by (simp add: use_key_def)
  have fit: "fits env num g k data m al \<longleftrightarrow> num (int (length data)) - num (int (length old)) \<le> c_free_num (h_chunks env) (allocator m1)"
    using k f(7) by (simp add: fits_def)
  note c = change_map [OF laws f(2,3,6) sz pos, of 0, simplified, OF f(5)]
  show ?thesis
  proof (cases "fits env num g k data m al")
    case True
    then obtain m2 where "change_data env p data m1 = (Some p, m2)" "map_ok env num view g m2 ((k, data) # map (entry view m1) as)"
      using c fit by auto
    then show ?thesis using True f(1) drop
      by (simp add: simulates_def shm_step_def shm_SetValue_def replace_node_def update_node_def old_data_def abs_of_def abs_step_def)
  next
    case False
    then have "change_data env p data m1 = (None, m1)" using c fit by simp
    moreover have "map_ok env num view g m1 (use_key k al)" by (rule map_okI [OF f(2,3,6) sz f(4)])
    ultimately show ?thesis using False f(1)
      by (simp add: simulates_def shm_step_def shm_SetValue_def replace_node_def update_node_def old_data_def abs_of_def abs_step_def)
  qed
qed

lemma insert_map:
  assumes laws: "chunk_laws (h_chunks env) num view" and ok: "map_ok env num view g m al" and k: "map_of al k = None"
  shows "\<exists>r m'. insert_node env now k data m = Some (r, m') \<and> (r \<noteq> None \<longleftrightarrow> fits env num g k data m al) \<and>
    map_ok env num view g m' (if fits env num g k data m al then (k, data) # al else al)"
proof -
  obtain bs fs as where h: "hash_ok env m bs fs as" "data_ok num view m as" "al = map (entry view m) as" "geo m = geo_of g"
    "sized (h_chunks env) num (allocator m)" using ok by (rule map_okE)
  have n: "c_get_chunk_num (h_chunks env) l (allocator m) = num l" for l using h(5) by (simp add: sized_def)
  have len: "int (length al) = g_nodes g - int (length fs)"
    using hash_okD(8) [OF h(1)] h(3,4) by (simp add: geo_def geo_of_def)
  show ?thesis
  proof (cases fs)
    case Nil
    then show ?thesis using insert_node_no_room(1) [OF h(1)] ok k len by (auto simp: fits_def)
  next
    case (Cons p fs')
    show ?thesis
    proof (cases "fst (c_malloc (h_chunks env) (num (int (length data))) (allocator m)) = - 1")
      case True
      then obtain a where a: "c_malloc (h_chunks env) (c_get_chunk_num (h_chunks env) (int (length data)) (allocator m)) (allocator m) = (- 1, a)"
        by (cases "c_malloc (h_chunks env) (num (int (length data))) (allocator m)") (simp add: n)
      obtain m' where m': "insert_node env now k data m = Some (None, m')" "hash_ok env m' bs fs as" "allocator m' = a" "\<forall>q. same_entry m m' q"
        using insert_node_no_room(2) [OF h(1) Cons a, of now] by blast
      have "view a = view (allocator m)" using laws a unfolding chunk_laws_def by metis
      then have d: "data_ok num view m' as" "map (entry view m') as = map (entry view m) as"
        using data_keep [OF h(2) subset_refl, where m' = m'] m'(3,4) by auto
      have "geo m' = geo_of g" using geo_insert [OF m'(1)] h(4) by simp
      moreover have "sized (h_chunks env) num (allocator m')"
        using sizes_kept(1) [OF laws h(5), of "num (int (length data))"] a m'(3) by (simp add: n)
      ultimately have "map_ok env num view g m' al" unfolding h(3) by (intro map_okI [OF m'(2) d(1) _ _ d(2)])
      then show ?thesis using m'(1) True k by (auto simp: fits_def)
    next
      case False
      obtain m' bs' where m': "insert_node env now k data m = Some (Some p, m')" "hash_ok env m' bs' fs' (p # as)"
        "data_ok num view m' (p # as)" "map (entry view m') (p # as) = (k, data) # map (entry view m) as"
        "sized (h_chunks env) num (allocator m')"
        using insert_abs [OF laws h(5) h(1) [unfolded Cons] h(2) k [unfolded h(3)] False, of now] by (elim exE conjE) (rule that)
      have "geo m' = geo_of g" using geo_insert [OF m'(1)] h(4) by simp
      then have "map_ok env num view g m' ((k, data) # al)" unfolding h(3) by (rule map_okI [OF m'(2,3) _ m'(5,4)])
      then show ?thesis using m'(1) False k len Cons by (auto simp: fits_def)
    qed
  qed
qed

lemma drop_key_absent: "map_of al k = None \<Longrightarrow> drop_key k al = al"
  by (force simp: drop_key_def filter_id_conv map_of_eq_None_iff)

lemma sim_set_new:
  assumes laws: "chunk_laws (h_chunks env) num view" and ok: "map_ok env num view g m al" and k: "map_of al k = None"
  shows "simulates env num view g now (SetData k data) m al"
proof -
  obtain r m' where m': "insert_node env now k data m = Some (r, m')" "r \<noteq> None \<longleftrightarrow> fits env num g k data m al"
    "map_ok env num view g m' (if fits env num g k data m al then (k, data) # al else al)"
    using insert_map [OF laws ok k] by blast
  then show ?thesis using find_map(1) [OF ok k, of now] drop_key_absent [OF k] k
    by (auto simp: simulates_def shm_step_def shm_SetValue_def replace_node_def abs_of_def abs_step_def use_key_def)
qed

lemma sim_insert:
  assumes laws: "chunk_laws (h_chunks env) num view" and ok: "map_ok env num view g m al" and k: "map_of al k = None"
  shows "simulates env num view g now (Insert k data) m al"
proof -
  obtain r m' where m': "insert_node env now k data m = Some (r, m')" "r \<noteq> None \<longleftrightarrow> fits env num g k data m al"
    "map_ok env num view g m' (if fits env num g k data m al then (k, data) # al else al)"
    using insert_map [OF laws ok k] by blast
  then show ?thesis by (auto simp: simulates_def shm_step_def shm_Insert_def abs_of_def abs_step_def)
qed

lemma delete_map:
  assumes laws: "chunk_laws (h_chunks env) num view" and ok: "hash_ok env m bs fs as" and d: "data_ok num view m as"
    and g: "geo m = geo_of g" and p: "p \<in> set as" and sz: "sized (h_chunks env) num (allocator m)"
  shows "\<exists>m'. delete_node env NoOldData p m = Some (0, Some ([], 0), m') \<and>
    map_ok env num view g m' (drop_key (key (nodes m p)) (map (entry view m) as))"
proof -
  obtain m' bs' where m': "delete_node env NoOldData p m = Some (0, Some ([], 0), m')" "hash_ok env m' bs' (p # fs) (remove1 p as)"
    "data_ok num view m' (remove1 p as)" "map (entry view m') (remove1 p as) = drop_key (key (nodes m p)) (map (entry view m) as)"
    "sized (h_chunks env) num (allocator m')" using delete_abs [OF laws ok d p sz] by (elim exE conjE) (rule that)
  have "geo m' = geo_of g" using geo_delete [OF m'(1)] g by simp
  then show ?thesis using m'(1) map_okI [OF m'(2,3) _ m'(5,4)] by blast
qed

lemma sim_delete:
  assumes laws: "chunk_laws (h_chunks env) num view" and ok: "map_ok env num view g m al"
  shows "simulates env num view g now (DeleteKey k) m al"
proof (cases "map_of al k")
  case None
  then show ?thesis using find_map(1) [OF ok None, of now] drop_key_absent [OF None] ok
    by (simp add: simulates_def shm_step_def shm_Delete_def abs_of_def abs_step_def)
next
  case (Some d)
  obtain p m' bs fs as where f: "find_node env now k m = Some (Some p, m')" "hash_ok env m' bs fs (p # as)"
    "data_ok num view m' (p # as)" "map (entry view m') (p # as) = use_key k al" "entry view m' p = (k, d)" "geo m' = geo_of g"
    "allocator m' = allocator m" using find_map(2) [OF ok Some, of now] by blast
  have sz: "sized (h_chunks env) num (allocator m')" using ok f(7) by (simp add: map_ok_def)
  have "drop_key k (use_key k al) = drop_key k al" using Some by (simp add: use_key_def drop_key_def)
  moreover have "key (nodes m' p) = k" using f(5) by (simp add: entry_def)
  ultimately obtain m2 where "delete_node env NoOldData p m' = Some (0, Some ([], 0), m2)" "map_ok env num view g m2 (drop_key k al)"
    using delete_map [OF laws f(2,3,6) _ sz, of p] f(4) by auto
  then show ?thesis using f(1) Some by (simp add: simulates_def shm_step_def shm_Delete_def abs_of_def abs_step_def)
qed

lemma place_index_lt: "place_index pl n = Some i \<Longrightarrow> i < n"
  by (auto simp: place_index_def split: place.splits if_splits)

lemma sim_read:
  assumes laws: "chunk_laws (h_chunks env) num view" and ok: "map_ok env num view g m al"
  shows "simulates env num view g now (ReadAt pl room) m al"
proof -
  obtain bs fs as where h: "hash_ok env m bs fs as" "data_ok num view m as" "al = map (entry view m) as" "geo m = geo_of g"
    "sized (h_chunks env) num (allocator m)" using ok by (rule map_okE)
  show ?thesis
  proof (cases "place_index pl (length as)")
    case None
    then show ?thesis using walk_ok [OF h(1), of pl] ok h(3) by (simp add: simulates_def shm_step_def abs_of_def abs_step_def)
  next
    case (Some i)
    note i = place_index_lt [OF Some]
    obtain r b l where "merge_node_data env (as ! i) room m = (r, b, l)" by (cases "merge_node_data env (as ! i) room m")
    then show ?thesis using Some i walk_ok [OF h(1), of pl] ok h(3) merge_map [OF laws h(2), of "as ! i" room]
      by (simp add: simulates_def shm_step_def abs_of_def abs_step_def vistor_GetData_def)
  qed
qed

lemma remove1_nth: "distinct xs \<Longrightarrow> i < length xs \<Longrightarrow> remove1 (xs ! i) xs = take i xs @ drop (Suc i) xs"
proof (induction xs arbitrary: i)
  case (Cons x xs)
  then show ?case by (cases i) auto
qed simp

lemma sim_erase:
  assumes laws: "chunk_laws (h_chunks env) num view" and ok: "map_ok env num view g m al"
  shows "simulates env num view g now (EraseAt pl) m al"
proof -
  obtain bs fs as where h: "hash_ok env m bs fs as" "data_ok num view m as" "al = map (entry view m) as" "geo m = geo_of g"
    "sized (h_chunks env) num (allocator m)" using ok by (rule map_okE)
  show ?thesis
  proof (cases "place_index pl (length as)")
    case None
    then show ?thesis using walk_ok [OF h(1), of pl] ok h(3) by (simp add: simulates_def shm_step_def vistor_Erase_def abs_of_def abs_step_def)
  next
    case (Some i)
    note i = place_index_lt [OF Some]
    have ds: "distinct as" using hash_okD(3) [OF h(1)] by (simp add: add_ok_def)
    have "drop_key (key (nodes m (as ! i))) al = take i al @ drop (Suc i) al"
      using drop_key_entries [OF h(2) ds, of "as ! i"] remove1_nth [OF ds i] i h(3) by (simp add: take_map drop_map)
    moreover obtain m' where "delete_node env NoOldData (as ! i) m = Some (0, Some ([], 0), m')"
      "map_ok env num view g m' (drop_key (key (nodes m (as ! i))) al)"
      using delete_map [OF laws h(1,2,4) _ h(5), of "as ! i"] i h(3) by auto
    ultimately show ?thesis using Some i walk_ok [OF h(1), of pl] h(3)
      by (simp add: simulates_def shm_step_def abs_of_def abs_step_def vistor_Erase_def)
  qed
qed

lemma sim_update:
  assumes laws: "chunk_laws (h_chunks env) num view" and ok: "map_ok env num view g m al" and pos: "0 < num (int (length data))"
  shows "simulates env num view g now (UpdateAt pl data) m al"
proof -
  obtain bs fs as where h: "hash_ok env m bs fs as" "data_ok num view m as" "al = map (entry view m) as" "geo m = geo_of g"
    "sized (h_chunks env) num (allocator m)" using ok by (rule map_okE)
  show ?thesis
  proof (cases "place_index pl (length as)")
    case None
    then show ?thesis using walk_ok [OF h(1), of pl] ok h(3) by (simp add: simulates_def shm_step_def vistor_UpdateData_def abs_of_def abs_step_def)
  next
    case (Some i)
    note i = place_index_lt [OF Some]
    let ?p = "as ! i"
    have "map_of al (key (nodes m ?p)) = Some (node_data view m ?p)" using map_of_entries [OF h(2), of ?p] i h(3) by simp
    then have fit: "fits env num g (fst (al ! i)) data m al \<longleftrightarrow>
      num (int (length data)) - num (int (length (node_data view m ?p))) \<le> c_free_num (h_chunks env) (allocator m)"
      using i h(3) by (simp add: fits_def entry_def)
    note c = change_map [OF laws h(1,2,4,5) pos i, of "key (nodes m ?p)" "node_data view m ?p"]
    have e: "entry view m ?p = (key (nodes m ?p), node_data view m ?p)" by (simp add: entry_def)
    have ai: "al ! i = (key (nodes m ?p), node_data view m ?p)" "length al = length as" using i h(3) by (simp_all add: entry_def)
    show ?thesis
    proof (cases "fits env num g (fst (al ! i)) data m al")
      case True
      then obtain m' where "change_data env ?p data m = (Some ?p, m')" "map_ok env num view g m' (al[i := (key (nodes m ?p), data)])"
        using c [OF e] fit h(3) by auto
      then show ?thesis using True Some walk_ok [OF h(1), of pl] ai
        by (simp add: simulates_def shm_step_def abs_of_def abs_step_def vistor_UpdateData_def update_node_def old_data_def)
    next
      case False
      then have "change_data env ?p data m = (None, m)" using c [OF e] fit by simp
      then show ?thesis using False Some walk_ok [OF h(1), of pl] ai ok
        by (simp add: simulates_def shm_step_def abs_of_def abs_step_def vistor_UpdateData_def update_node_def old_data_def)
    qed
  qed
qed

lemma sim_attach:
  assumes laws: "chunk_laws (h_chunks env) num view" and ok: "map_ok env num view g m al"
  shows "simulates env num view g now Attach m al"
proof -
  obtain bs fs as where h: "hash_ok env m bs fs as" "data_ok num view m as" "al = map (entry view m) as" "geo m = geo_of g"
    "sized (h_chunks env) num (allocator m)" using ok by (rule map_okE)
  obtain r a where a: "c_open (h_chunks env) False (g_chunks g) (g_chunk_size g) (allocator m) = (r, a)"
    by (cases "c_open (h_chunks env) False (g_chunks g) (g_chunk_size g) (allocator m)")
  have "node_total m = g_nodes g" "bucket_size m = g_buckets g" using h(4) by (simp_all add: geo_def geo_of_def)
  then have v: "verify_pool_data (g_nodes g) (g_buckets g) m = Some True" using verify_ok [OF h(1)] by simp
  have "m\<lparr>first_node := 40 + g_buckets g * 8, node_size := g_node g, pool_size := get_pool_size (g_node g) (g_nodes g) (g_buckets g)\<rparr> = m"
    using h(4) by (cases m) (simp add: geo_def geo_of_def)
  then have s: "shm_step env g now Attach m = Some (Ret r, m\<lparr>allocator := a\<rparr>)"
    using v a by (simp add: shm_step_def hash_open_def Let_def)
  have view: "view a = view (allocator m)" using laws a unfolding chunk_laws_def by (metis snd_conv)
  let ?m = "m\<lparr>allocator := a\<rparr>"
  have d: "data_ok num view ?m as" "map (entry view ?m) as = map (entry view m) as"
    by (rule data_keep [OF h(2) subset_refl]; simp add: same_entry_def view)+
  have "map_ok env num view g ?m al" unfolding h(3)
    using h(1,4) sizes_kept(4) [OF laws h(5), of "g_chunks g" "g_chunk_size g"] a by (intro map_okI [OF _ d(1) _ _ d(2)]) simp_all
  then show ?thesis using s a by (simp add: simulates_def abs_of_def abs_step_def)
qed

lemma step_follows:
  assumes laws: "chunk_laws (h_chunks env) num view" and ok: "map_ok env num view g m al" and al: "allowed num op al"
  shows "simulates env num view g now op m al"
proof (cases op)
  case (SetData k data)
  then show ?thesis using sim_set_held [OF laws ok] sim_set_new [OF laws ok] al by (cases "map_of al k") (simp_all add: allowed_def)
next
  case (Insert k data)
  then show ?thesis using sim_insert [OF laws ok] al by (simp add: allowed_def)
next
  case (UpdateAt pl data)
  then show ?thesis using sim_update [OF laws ok] al by (simp add: allowed_def)
next
  case Counts
  obtain bs fs as where "hash_ok env m bs fs as" "al = map (entry view m) as" "geo m = geo_of g" using ok by (rule map_okE)
  then have "shm_GetSize m = g_nodes g" "shm_GetCount m = int (length al)"
    by (simp_all add: shm_GetSize_def shm_GetCount_def geo_def geo_of_def hash_okD(7))
  then show ?thesis using Counts ok by (simp add: simulates_def shm_step_def abs_of_def abs_step_def)
qed (use sim_find [OF ok] sim_get [OF laws ok] sim_delete [OF laws ok] sim_read [OF laws ok] sim_erase [OF laws ok]
       sim_attach [OF laws ok] in \<open>simp_all\<close>)

lemma follows_ok:
  assumes laws: "chunk_laws (h_chunks env) num view"
  shows "map_ok env num view g m al \<Longrightarrow> follows env num g ops m al"
proof (induction ops arbitrary: m al)
  case (Cons o1 ops)
  obtain now op where o1: "o1 = (now, op)" by (cases o1)
  show ?case
  proof (cases "allowed num op al")
    case True
    obtain r m' r' al' where "shm_step env g now op m = Some (r, m')" "abs_of env num g op m al = (r', al')"
      "r' = None \<or> r' = Some r" "map_ok env num view g m' al'"
      using step_follows [OF laws Cons.prems True, of now] by (auto simp: simulates_def)
    then show ?thesis using Cons.IH o1 by simp
  qed (simp add: o1)
qed simp


section \<open>From a new map on\<close>

lemma geo_init_nodes: "geo (init_nodes n i m) = geo m"
  by (induction n arbitrary: i m) (simp_all add: Let_def)

lemma open_new:
  assumes g: "0 \<le> g_nodes g" "0 < g_buckets g" "g_buckets g < 2 ^ 31" "0 < g_node g"
    and m: "hash_open env (g_node g) True (g_nodes g) (g_buckets g) (g_chunks g) (g_chunk_size g) m0 = Some (r, m)"
    and sz: "sized (h_chunks env) num (allocator m)"
  shows "map_ok env num view g m []"
proof -
  let ?m = "m0\<lparr>first_node := 40 + g_buckets g * 8, node_size := g_node g, pool_size := get_pool_size (g_node g) (g_nodes g) (g_buckets g)\<rparr>"
  let ?i = "init_pool_data (g_nodes g) (g_buckets g) ?m"
  obtain a where a: "m = ?i\<lparr>allocator := a\<rparr>" using m by (auto simp: hash_open_def Let_def split: prod.splits)
  obtain fs where "hash_ok env ?i (\<lambda>_. []) fs []"
    using init_pool_ok [of "g_nodes g" "g_buckets g" ?m env] g by (auto simp: get_pool_size_def)
  then have "hash_ok env m (\<lambda>_. []) fs []" unfolding a by simp
  moreover have "geo m = geo_of g" unfolding a by (simp add: init_pool_data_def geo_init_nodes) (simp add: geo_def geo_of_def)
  ultimately show ?thesis using sz by (intro map_okI [of env m _ fs "[]"]) (simp_all add: data_ok_def)
qed

text \<open>C28: Refinement. Once a new map is open, every sequence of finds, reads, sets, insertions, deletions, walks and further
  attachments of \<open>CShmHashMap\<close> and its visitor behaves like the list of the entries in the order of use: each operation returns,
  with the result of the same operation on the list; a set or an insertion fails only when no node or not enough chunks are free, and
  then keeps the entries. This is so as long as \<open>Insert\<close> is used for keys that are not held (see
  \<open>insert_accepts_held_key\<close> for the others) and the data of a set or an update need at least one chunk.\<close>

theorem shm_map_refines:
  assumes "chunk_laws (h_chunks env) num view" and num: "num = (\<lambda>l. c_get_chunk_num (h_chunks env) l (allocator m))"
    and "0 \<le> g_nodes g" "0 < g_buckets g" "g_buckets g < 2 ^ 31" "0 < g_node g"
    and "hash_open env (g_node g) True (g_nodes g) (g_buckets g) (g_chunks g) (g_chunk_size g) m0 = Some (0, m)"
  shows "follows env num g ops m []"
proof (rule follows_ok [OF assms(1)])
  show "map_ok env num view g m []" by (rule open_new [OF assms(3-7)]) (simp add: sized_def num)
qed

text \<open>Chunks kept in a list with the number of the free ones: an allocator that keeps the laws.\<close>

type_synonym chunk_list = "int \<times> (int \<times> int \<times> byte list) list"

definition list_view :: "chunk_list \<Rightarrow> int \<Rightarrow> (int \<times> byte list) option" where
  "list_view a = map_of (snd a)"

definition list_fresh :: "chunk_list \<Rightarrow> int" where
  "list_fresh a = foldr (\<lambda>(h, _) x. max h x) (snd a) 0 + 1"

definition list_drop :: "int \<Rightarrow> chunk_list \<Rightarrow> (int \<times> int \<times> byte list) list" where
  "list_drop h a = filter (\<lambda>e. fst e \<noteq> h) (snd a)"

definition list_chunks :: "chunk_list chunk_api" where
  "list_chunks = \<lparr>
     c_get_chunk_num = (\<lambda>l a. (l + 7) div 8),
     c_malloc = (\<lambda>n a. if n \<le> max 0 (fst a) then (list_fresh a, (max 0 (fst a) - n, (list_fresh a, n, []) # snd a)) else (- 1, a)),
     c_free = (\<lambda>h a. case list_view a h of None \<Rightarrow> a | Some (n, d) \<Rightarrow> (max 0 (fst a) + n, list_drop h a)),
     c_split = (\<lambda>h data a. case list_view a h of None \<Rightarrow> a | Some (n, d) \<Rightarrow> (fst a, (h, n, data) # list_drop h a)),
     c_merge = (\<lambda>h l room a. case list_view a h of None \<Rightarrow> (- 1, [], 0)
                  | Some (n, d) \<Rightarrow> if int (length d) \<le> room then (0, d, int (length d)) else (- 1, [], 0)),
     c_free_num = (\<lambda>a. max 0 (fst a)),
     c_open = (\<lambda>init n s a. (0, if init then (n, []) else a))\<rparr>"

lemma list_fresh_ok: "0 < list_fresh a" "list_view a (list_fresh a) = None"
proof -
  have "0 \<le> foldr (\<lambda>(h, _) x. max h x) xs 0" "\<forall>e \<in> set xs. fst e \<le> foldr (\<lambda>(h, _) x. max h x) xs 0"
    for xs :: "(int \<times> int \<times> byte list) list" by (induction xs) auto
  then show "0 < list_fresh a" "list_view a (list_fresh a) = None"
    by (force simp: list_fresh_def list_view_def map_of_eq_None_iff)+
qed

lemma list_drop_view: "map_of (list_drop h a) = (list_view a)(h := None)"
proof -
  have "map_of (filter (\<lambda>e. fst e \<noteq> h) xs) = (map_of xs)(h := None)" for xs :: "(int \<times> int \<times> byte list) list"
    by (induction xs) (auto simp: fun_eq_iff)
  then show ?thesis by (simp add: list_drop_def list_view_def)
qed

lemma list_chunks_laws: "chunk_laws list_chunks (\<lambda>l. (l + 7) div 8) list_view"
proof -
  have v: "list_view (f, xs) = map_of xs" for f xs by (simp add: list_view_def)
  have fr: "list_fresh a \<noteq> - 1" for a using list_fresh_ok(1) [of a] by simp
  have new: "map_of b (list_fresh (a, b)) = None" for a b using list_fresh_ok(2) [of "(a, b)"] by (simp add: v)
  have id: "map_of b h = None \<Longrightarrow> map_of b = (map_of b)(h := None)" for b :: "(int \<times> int \<times> byte list) list" and h
    by (simp add: fun_eq_iff)
  have "size_kept list_chunks (\<lambda>l. (l + 7) div 8)" by (simp add: size_kept_def sized_def list_chunks_def)
  then show ?thesis unfolding chunk_laws_def list_chunks_def
    by (auto simp: v list_drop_view list_fresh_ok fr new list_view_def [symmetric] split: option.split if_splits
      simp del: fun_upd_apply intro: id)
qed

lemma list_chunks_open: "c_open list_chunks init n s a = (0, if init then (n, []) else a)"
  by (simp add: list_chunks_def)

theorem shm_map_refines_witness:
  "\<exists>m. hash_open \<lparr>h_func = (\<lambda>k :: nat. of_nat k), h_chunks = list_chunks\<rparr> 85 True 4 3 16 8
         \<lparr>node_total = 0, bucket_size = 0, used_node_num = 0, used_bucket_num = 0, add_head = 0, add_tail = 0, free_list = 0,
          bucket = [], nodes = (\<lambda>_. undefined), first_node = 0, node_size = 0, pool_size = 0, allocator = (0, [])\<rparr> = Some (0, m) \<and>
     follows \<lparr>h_func = (\<lambda>k. of_nat k), h_chunks = list_chunks\<rparr> (\<lambda>l. (l + 7) div 8) \<lparr>g_node = 85, g_nodes = 4, g_buckets = 3, g_chunks = 16, g_chunk_size = 8\<rparr>
       [(1, SetData 7 [1, 2]), (2, Insert 4 [3]), (3, GetData 7 (Some 8)), (4, EraseAt (FromEnd 0)), (5, Attach), (6, FindKey 4)] m []"
proof -
  let ?e = "\<lparr>h_func = (\<lambda>k :: nat. of_nat k), h_chunks = list_chunks\<rparr>"
  let ?g = "\<lparr>g_node = 85, g_nodes = 4, g_buckets = 3, g_chunks = 16, g_chunk_size = 8\<rparr>"
  let ?m0 = "\<lparr>node_total = 0, bucket_size = 0, used_node_num = 0, used_bucket_num = 0, add_head = 0, add_tail = 0, free_list = 0,
          bucket = [], nodes = (\<lambda>_. undefined), first_node = 0, node_size = 0, pool_size = 0, allocator = (0, [])\<rparr>"
  obtain m where m: "hash_open ?e 85 True 4 3 16 8 ?m0 = Some (0, m)" by (simp add: hash_open_def Let_def list_chunks_open)
  have "follows ?e (\<lambda>l. (l + 7) div 8) ?g ops m []" for ops
    by (rule shm_map_refines [where view = list_view]) (use m list_chunks_laws in \<open>simp_all add: list_chunks_def\<close>)
  with m show ?thesis by blast
qed

text \<open>Inserting a key a second time. \<open>Insert\<close> does not look for the key: with a free node and enough chunks it adds another
  node for a key that is in the map, returns 0 and counts it; deleting the key then removes the new node, and the key
  is still found, with a node of the old value. The comments of \<open>HashMap.hpp\<close> and \<open>ShmHashMap.hpp\<close> say that it fails.\<close>

theorem insert_accepts_held_key:
  assumes "chunk_laws (h_chunks env) num view" and "map_ok env num view g m al" and "map_of al k = Some old"
    and "int (length al) < g_nodes g" and "fst (c_malloc (h_chunks env) (num (int (length data))) (allocator m)) \<noteq> - 1"
  shows "\<exists>m1 m2 m3. shm_Insert env t1 k data m = Some (0, m1) \<and> shm_GetCount m1 = shm_GetCount m + 1 \<and>
    shm_Delete env t2 k m1 = Some (0, m2) \<and> shm_Find env t3 k m2 = Some (True, m3)"
proof -
  obtain bs fs as where h: "hash_ok env m bs fs as" "data_ok num view m as" "al = map (entry view m) as" "geo m = geo_of g"
    "sized (h_chunks env) num (allocator m)" using assms(2) by (rule map_okE)
  have n: "c_get_chunk_num (h_chunks env) l (allocator m) = num l" for l using h(5) by (simp add: sized_def)
  have "int (length as + length fs) = g_nodes g" using hash_okD(8) [OF h(1)] h(4) by (simp add: geo_def geo_of_def)
  then obtain p fs' where fs: "fs = p # fs'" using assms(4) h(3) by (cases fs) simp_all
  obtain b where b: "get_bucket_id env k m = Some b" "b < length (bucket m)" by (rule get_bucket_id_lt [OF hash_okD(1) [OF h(1)]])
  obtain head a where c: "c_malloc (h_chunks env) (c_get_chunk_num (h_chunks env) (int (length data)) (allocator m)) (allocator m) = (head, a)"
    "head \<noteq> - 1" using assms(5) by (cases "c_malloc (h_chunks env) (num (int (length data))) (allocator m)") (simp add: n)
  obtain m1 where m1: "insert_node env t1 k data m = Some (Some p, m1)" "hash_ok env m1 (bs(b := p # bs b)) fs' (p # as)"
    "key (nodes m1 p) = k" "\<forall>q. q \<noteq> p \<longrightarrow> same_entry m m1 q" "bucket_size m1 = bucket_size m"
    by (rule insert_node_ok [OF h(1) [unfolded fs] b c, where now = t1])
  have nb: "length (bucket m1) = length (bucket m)" using hash_okD(1) [OF m1(2)] hash_okD(1) [OF h(1)] m1(5) by (simp add: buckets_ok_def)
  have b1: "get_bucket_id env k m1 = Some b" using b(1) m1(5) by (simp add: get_bucket_id_def split: if_splits)
  then have p: "holder env m1 (bs(b := p # bs b)) k = Some p" using m1(3) by (simp add: holder_def)
  then have f: "find_node env t2 k m1 = Some (Some p, touch t2 p m1)" using find_node_ok(1) [OF m1(2), of t2 k] by simp
  have pas: "p \<in> set (p # as)" by simp
  note t = touch_ok [OF m1(2) pas, where now = t2]
  have nb2: "length (bucket (touch t2 p m1)) = length (bucket m)"
    using hash_okD(1) [OF t(1)] hash_okD(1) [OF m1(2)] t(6) nb by (simp add: buckets_ok_def)
  obtain m2 where m2: "delete_node env NoOldData p (touch t2 p m1) = Some (0, Some ([], 0), m2)"
    "hash_ok env m2 (bs(b := bs b)) (p # fs') (remove1 p (p # remove1 p (p # as)))" "\<forall>q. q \<noteq> p \<longrightarrow> same_entry (touch t2 p m1) m2 q"
    by (rule delete_node_ok [OF t(1), of b "[]" p "bs b" NoOldData "([], 0)"]) (use b(2) nb2 in \<open>simp_all add: old_data_def\<close>)
  obtain q where q: "q \<in> set as" "key (nodes m q) = k"
    using assms(3) h(3) map_of_entries_None [of view m as k] by auto
  have "q \<noteq> p" using q(1) hash_okD(5) [OF h(1)] fs by auto
  then have "key (nodes m2 q) = k" using m2(3) m1(4) q(2) t(2) by (simp add: same_entry_def)
  then have "map_of (map (entry view m2) as) k \<noteq> None" using q(1) by (simp add: map_of_entries_None) blast
  then obtain r where "holder env m2 (bs(b := bs b)) k = Some r"
    using holder_entries(1) [OF m2(2), where view = view and k = k] by auto
  then have "\<exists>m3. find_node env t3 k m2 = Some (Some r, m3)" using find_node_ok(1) [OF m2(2), of t3 k] by simp
  then show ?thesis using m1(1) f m2(1) hash_okD(7) [OF m1(2)] hash_okD(7) [OF h(1)]
    by (auto simp: shm_Insert_def shm_Delete_def shm_Find_def shm_GetCount_def)
qed


lemma list_chunks_none: "fst (c_malloc list_chunks 0 a) \<noteq> - 1"
  using list_fresh_ok(1) [of a] by (simp add: list_chunks_def)

theorem insert_accepts_held_key_witness:
  "\<exists>m m1 m2 m3. map_ok \<lparr>h_func = (\<lambda>k :: nat. of_nat k), h_chunks = list_chunks\<rparr> (\<lambda>l. (l + 7) div 8) list_view
       \<lparr>g_node = 85, g_nodes = 4, g_buckets = 3, g_chunks = 16, g_chunk_size = 8\<rparr> m [(7, [])] \<and>
     shm_Insert \<lparr>h_func = (\<lambda>k. of_nat k), h_chunks = list_chunks\<rparr> 1 7 [] m = Some (0, m1) \<and> shm_GetCount m1 = shm_GetCount m + 1 \<and>
     shm_Delete \<lparr>h_func = (\<lambda>k. of_nat k), h_chunks = list_chunks\<rparr> 2 7 m1 = Some (0, m2) \<and>
     shm_Find \<lparr>h_func = (\<lambda>k. of_nat k), h_chunks = list_chunks\<rparr> 3 7 m2 = Some (True, m3)"
proof -
  let ?e = "\<lparr>h_func = (\<lambda>k :: nat. of_nat k), h_chunks = list_chunks\<rparr>" and ?n = "\<lambda>l :: int. (l + 7) div 8"
  let ?g = "\<lparr>g_node = 85, g_nodes = 4, g_buckets = 3, g_chunks = 16, g_chunk_size = 8\<rparr>"
  have laws: "chunk_laws (h_chunks ?e) ?n list_view" by (simp add: list_chunks_laws)
  have fits: "fst (c_malloc (h_chunks ?e) (?n (int (length ([] :: byte list)))) a) \<noteq> - 1" for a using list_chunks_none [of a] by simp
  obtain m0 where "hash_open ?e (g_node ?g) True (g_nodes ?g) (g_buckets ?g) (g_chunks ?g) (g_chunk_size ?g)
      (undefined\<lparr>allocator := (0, [])\<rparr>) = Some (0, m0)" by (simp add: hash_open_def Let_def list_chunks_open)
  then have m0: "map_ok ?e ?n list_view ?g m0 []" by (rule open_new [rotated 4]) (simp_all add: sized_def list_chunks_def)
  obtain m where m: "map_ok ?e ?n list_view ?g m [(7, [])]"
    using insert_map [OF laws m0, of 7 0 "[]"] fits [of "allocator m0"] by (auto simp: fits_def)
  show ?thesis
    using insert_accepts_held_key [OF laws m, of 7 "[]" "[]" 1 2 3] fits m by (auto simp: fits)
qed

end
