(* ===== verification/CText.thy ===== *)
theory CText
  imports Prelude
begin

text \<open>
  The text operations of the C and C++ libraries that the programs use: \<open>std::string::find\<close> and
  \<open>replace\<close>, decimal numbers (\<open>snprintf\<close> with \<open>%d\<close> and \<open>%lu\<close>, \<open>atol\<close>, \<open>atoi\<close>), \<open>isspace\<close> and
  \<open>strncmp\<close>. A text is a list of bytes.
\<close>

section \<open>Searching and replacing\<close>

fun find_in :: "byte list \<Rightarrow> byte list \<Rightarrow> nat option" where
  "find_in pat [] = (if pat = [] then Some 0 else None)"
| "find_in pat (c # s) =
     (if take (length pat) (c # s) = pat then Some 0 else map_option Suc (find_in pat s))"

definition str_find :: "byte list \<Rightarrow> byte list \<Rightarrow> nat \<Rightarrow> nat option" where
  "str_find s pat pos = (if pos \<le> length s then map_option ((+) pos) (find_in pat (drop pos s)) else None)"

text \<open>\<open>replace\<close> throws when the position lies behind the end.\<close>

definition str_replace :: "byte list \<Rightarrow> nat \<Rightarrow> nat \<Rightarrow> byte list \<Rightarrow> byte list option" where
  "str_replace s pos n r = (if pos \<le> length s then Some (take pos s @ r @ drop (pos + n) s) else None)"

lemma find_in_Some:
  "find_in pat s = Some k \<Longrightarrow> s = take k s @ pat @ drop (k + length pat) s \<and> k + length pat \<le> length s"
proof (induction pat s arbitrary: k rule: find_in.induct)
  case (2 pat c s)
  show ?case
  proof (cases "take (length pat) (c # s) = pat")
    case True
    then have "length pat \<le> length (c # s)" by (metis length_take min.absorb_iff2 nat_le_linear min_def)
    with True 2(2) show ?thesis by (metis add_0 append_Nil append_take_drop_id find_in.simps(2)
          option.inject take_0)
  next
    case False
    with 2(2) obtain j where "k = Suc j" "find_in pat s = Some j" by auto
    with 2(1) [OF False, of j] show ?thesis by simp
  qed
qed (simp split: if_splits)

lemma find_in_None: "find_in pat s = None \<Longrightarrow> s \<noteq> a @ pat @ b"
proof (induction s arbitrary: a)
  case (Cons c s)
  from Cons.prems have ne: "take (length pat) (c # s) \<noteq> pat" and none: "find_in pat s = None"
    by (simp_all split: if_splits)
  show ?case
  proof (cases a)
    case Nil
    with ne show ?thesis by (metis append_Nil append_eq_conv_conj)
  next
    case (Cons d a')
    with Cons.IH [OF none, of a'] show ?thesis by auto
  qed
qed (simp split: if_splits)

lemma find_char [simp]: "c \<notin> set a \<Longrightarrow> find_in [c] (a @ c # b) = Some (length a)"
  by (induction a) auto

lemma find_char_None [simp]: "c \<notin> set a \<Longrightarrow> find_in [c] a = None"
  by (induction a) auto

section \<open>Numbers\<close>

fun decimal :: "nat \<Rightarrow> byte list" where
  "decimal n = (if n < 10 then [of_nat (48 + n)] else decimal (n div 10) @ [of_nat (48 + n mod 10)])"

declare decimal.simps [simp del]

definition is_digit :: "byte \<Rightarrow> bool" where
  "is_digit c \<longleftrightarrow> 48 \<le> unat c \<and> unat c \<le> 57"

definition is_space :: "byte \<Rightarrow> bool" where
  "is_space c \<longleftrightarrow> unat c = 32 \<or> (9 \<le> unat c \<and> unat c \<le> 13)"

definition digits_value :: "byte list \<Rightarrow> nat" where
  "digits_value ds = foldl (\<lambda>a c. 10 * a + (unat c - 48)) 0 ds"

text \<open>\<open>atol\<close> is \<open>strtol\<close> in base 10, which saturates; \<open>atoi\<close> truncates its result to 32 bits.\<close>

definition atol :: "byte list \<Rightarrow> int" where
  "atol s =
     (let s1 = dropWhile is_space s;
          (neg, s2) = (case s1 of c # r \<Rightarrow> if c = 0x2D then (True, r) else if c = 0x2B then (False, r)
                                          else (False, s1)
                       | [] \<Rightarrow> (False, []));
          v = int (digits_value (takeWhile is_digit s2))
      in max (- (2 ^ 63)) (min (2 ^ 63 - 1) (if neg then - v else v)))"

definition atoi :: "byte list \<Rightarrow> int" where
  "atoi s = sint (word_of_int (atol s) :: u32)"

lemma digit_byte: "n < 10 \<Longrightarrow> unat (of_nat (48 + n) :: byte) = 48 + n"
  by (simp add: unsigned_of_nat take_bit_nat_eq_self del: of_nat_add)

lemma decimal_digits: "c \<in> set (decimal n) \<Longrightarrow> is_digit c"
proof (induction n rule: decimal.induct)
  case (1 n)
  then show ?case
    by (subst (asm) (2) decimal.simps)
      (auto simp: is_digit_def digit_byte simp del: of_nat_add split: if_splits)
qed

lemma decimal_Nil [simp]: "decimal n \<noteq> []"
  by (subst decimal.simps) simp

lemma length_decimal: "n < 10 ^ Suc k \<Longrightarrow> length (decimal n) \<le> Suc k"
proof (induction k arbitrary: n)
  case (Suc k)
  then have "n div 10 < 10 ^ Suc k" by (simp add: less_mult_imp_div_less mult.commute)
  then show ?case using Suc.IH [of "n div 10"] by (subst decimal.simps) auto
qed (simp add: decimal.simps)

lemma digits_value_snoc: "digits_value (xs @ [c]) = 10 * digits_value xs + (unat c - 48)"
  by (simp add: digits_value_def)

lemma digits_value_decimal [simp]: "digits_value (decimal n) = n"
proof (induction n rule: decimal.induct)
  case (1 n)
  show ?case
  proof (cases "n < 10")
    case True
    then show ?thesis by (subst decimal.simps) (simp add: digits_value_def digit_byte del: of_nat_add)
  next
    case False
    then have "digits_value (decimal n) = 10 * (n div 10) + (unat (of_nat (48 + n mod 10) :: byte) - 48)"
      using 1 by (subst decimal.simps) (simp add: digits_value_snoc del: of_nat_add)
    also have "\<dots> = n" by (subst digit_byte) simp_all
    finally show ?thesis .
  qed
qed

lemma atol_decimal: "n < 2 ^ 63 \<Longrightarrow> atol (decimal n) = int n"
proof -
  assume n: "n < 2 ^ 63"
  obtain c r where d: "decimal n = c # r" by (cases "decimal n") simp_all
  have all: "\<forall>x \<in> set (c # r). is_digit x" using decimal_digits [of _ n] by (simp add: d)
  then have c: "is_digit c" by simp
  have "c \<noteq> 0x2D" "c \<noteq> 0x2B" "\<not> is_space c" using c by (auto simp: is_digit_def is_space_def)
  moreover have "takeWhile is_digit (c # r) = c # r" using all by (simp add: takeWhile_eq_all_conv)
  moreover have "digits_value (c # r) = n" using digits_value_decimal [of n] by (simp add: d)
  ultimately show ?thesis using n by (simp add: atol_def d)
qed

section \<open>\<open>snprintf\<close>\<close>

text \<open>
  A format with \<open>%d\<close> conversions, an optional one-digit width and zero flag, and \<open>%%\<close>; the
  arguments are \<open>int\<close>. \<open>None\<close> is a conversion without an argument, which is undefined, or one this
  interpreter does not know.
\<close>

definition padded :: "bool \<Rightarrow> nat \<Rightarrow> int \<Rightarrow> byte list" where
  "padded zero w i =
     (let ds = decimal (nat \<bar>i\<bar>); sign = (if i < 0 then [0x2D] else []);
          fill = w - length sign - length ds
      in if zero then sign @ replicate fill 0x30 @ ds else replicate fill 0x20 @ sign @ ds)"

fun c_format :: "byte list \<Rightarrow> int list \<Rightarrow> byte list option" where
  "c_format [] args = Some []"
| "c_format (c # f) args =
     (if c \<noteq> 0x25 then map_option (Cons c) (c_format f args)
      else (case f of
              [] \<Rightarrow> None
            | d # f1 \<Rightarrow>
                if d = 0x25 then map_option (Cons 0x25) (c_format f1 args)
                else (case args of
                        [] \<Rightarrow> None
                      | i # args1 \<Rightarrow>
                          if d = 0x64 then map_option ((@) (padded False 0 i)) (c_format f1 args1)
                          else if d = 0x30 \<and> length f1 \<ge> 2 \<and> is_digit (f1 ! 0) \<and> f1 ! 1 = 0x64
                          then map_option ((@) (padded True (unat (f1 ! 0) - 48) i))
                                 (c_format (drop 2 f1) args1)
                          else if is_digit d \<and> d \<noteq> 0x30 \<and> f1 \<noteq> [] \<and> hd f1 = 0x64
                          then map_option ((@) (padded False (unat d - 48) i)) (c_format (tl f1) args1)
                          else None)))"

definition c_snprintf :: "nat \<Rightarrow> byte list \<Rightarrow> int list \<Rightarrow> byte list option" where
  "c_snprintf n f args = map_option (take (n - 1)) (c_format f args)"

section \<open>\<open>strncmp\<close>\<close>

text \<open>Whether \<open>strncmp(a, b, n)\<close> is zero, for two terminated texts without a zero byte.\<close>

definition strncmp_eq :: "byte list \<Rightarrow> byte list \<Rightarrow> nat \<Rightarrow> bool" where
  "strncmp_eq a b n \<longleftrightarrow> take n a = take n b"

end
