(* ===== verification/Services.thy ===== *)
theory Services
  imports Prelude
begin

text \<open>
  The services the programs call that are not part of this repository, as parameters, and the
  repository's own wrappers around Redis.

  \<open>hiredis\<close> is the Redis client library: \<open>h_connect\<close> is \<open>redisConnectWithTimeout\<close> (a context, or
  \<open>NULL\<close>), \<open>h_command\<close> is \<open>redisCommand\<close> with the words of the command after formatting (a reply,
  or \<open>NULL\<close> on an I/O error). \<open>'d\<close> is the state of the Redis servers, shared by all programs.
  \<open>json\<close> is the JSON library: the parser and the accessors of a field as the programs use them;
  an accessor is \<open>None\<close> where the library throws. The clean-up calls (\<open>redisFree\<close>,
  \<open>freeReplyObject\<close>) have no effect on the model's state.
\<close>

section \<open>Parameters\<close>

record redis_reply =
  rp_type :: int
  rp_integer :: int
  rp_str :: "byte list option"

record ('c, 'd) hiredis =
  h_connect :: "'d \<Rightarrow> byte list \<Rightarrow> u16 \<Rightarrow> u16 \<Rightarrow> 'c option"
  h_command :: "'d \<Rightarrow> 'c \<Rightarrow> byte list list \<Rightarrow> redis_reply option \<times> 'd"

record 'v json =
  j_parse :: "byte list \<Rightarrow> 'v option"
  j_uint64 :: "'v \<Rightarrow> string \<Rightarrow> u64 option"
  j_int64 :: "'v \<Rightarrow> string \<Rightarrow> int option"
  j_int :: "'v \<Rightarrow> string \<Rightarrow> int option"
  j_string :: "'v \<Rightarrow> string \<Rightarrow> byte list option"

text \<open>A string literal of the source as bytes, and \<open>std::string::c_str()\<close> read as a C string.\<close>

definition bytes_of :: "string \<Rightarrow> byte list" where
  "bytes_of s = map of_char s"

definition c_str :: "byte list \<Rightarrow> byte list" where
  "c_str s = takeWhile (\<lambda>b. b \<noteq> 0) s"

lemma c_str_id [simp]: "0 \<notin> set s \<Longrightarrow> c_str s = s"
  unfolding c_str_def by (rule takeWhile_eq_all_conv [THEN iffD2]) auto

section \<open>The Redis helper of the server\<close>

text \<open>
  \<open>redis_helper_t\<close> of \<open>proxy/redis_helper.h\<close> and \<open>redis_helper.cc\<close>. Its member \<open>reply\<close> is \<open>NULL\<close>
  between the calls, so it is a local value here. \<open>None\<close> is the dereference of \<open>NULL\<close>: a missing
  context, a missing reply where the code does not check, or \<open>std::string = NULL\<close>.
\<close>

record 'c redis_helper =
  r_context :: "'c option"
  r_host :: "byte list"
  r_port :: u16
  r_timeout :: u16

definition redis_new ::
    "('c, 'd) hiredis \<Rightarrow> 'd \<Rightarrow> byte list \<Rightarrow> u16 \<Rightarrow> u16 \<Rightarrow> 'c redis_helper" where
  "redis_new api d host port second =
     \<lparr>r_context = h_connect api d (c_str host) port second, r_host = host, r_port = port,
      r_timeout = second\<rparr>"

definition redis_Connect_to ::
    "('c, 'd) hiredis \<Rightarrow> 'd \<Rightarrow> byte list \<Rightarrow> u16 \<Rightarrow> u16 \<Rightarrow> 'c redis_helper \<Rightarrow> int \<times> 'c redis_helper" where
  "redis_Connect_to api d host port second r =
     (let ctx = h_connect api d host port second
      in (if ctx = None then 1 else 0, r\<lparr>r_context := ctx\<rparr>))"

definition redis_Connect ::
    "('c, 'd) hiredis \<Rightarrow> 'd \<Rightarrow> 'c redis_helper \<Rightarrow> int \<times> 'c redis_helper" where
  "redis_Connect api d r =
     (let ctx = h_connect api d (c_str (r_host r)) (r_port r) (r_timeout r)
      in (if ctx = None then 1 else 0, r\<lparr>r_context := ctx\<rparr>))"

definition redis_command ::
    "('c, 'd) hiredis \<Rightarrow> byte list list \<Rightarrow> 'c redis_helper \<Rightarrow> 'd \<Rightarrow> (redis_reply option \<times> 'd) option" where
  "redis_command api words r d = map_option (\<lambda>ctx. h_command api d ctx words) (r_context r)"

definition redis_Set ::
    "('c, 'd) hiredis \<Rightarrow> byte list \<Rightarrow> byte list \<Rightarrow> 'c redis_helper \<Rightarrow> 'd \<Rightarrow> (int \<times> 'd) option" where
  "redis_Set api key v r d = do {
     (reply, d1) \<leftarrow> redis_command api [bytes_of ''SET'', c_str key, c_str v] r d;
     Some (case reply of Some p \<Rightarrow> rp_integer p | None \<Rightarrow> 1, d1) }"

definition redis_Get ::
    "('c, 'd) hiredis \<Rightarrow> byte list \<Rightarrow> 'c redis_helper \<Rightarrow> 'd \<Rightarrow> (byte list \<times> 'd) option" where
  "redis_Get api key r d = do {
     (reply, d1) \<leftarrow> redis_command api [bytes_of ''GET'', c_str key] r d;
     p \<leftarrow> reply;
     s \<leftarrow> rp_str p;
     Some (c_str s, d1) }"

definition redis_Enqueue ::
    "('c, 'd) hiredis \<Rightarrow> byte list \<Rightarrow> byte list \<Rightarrow> 'c redis_helper \<Rightarrow> 'd \<Rightarrow> (int \<times> 'd) option" where
  "redis_Enqueue api queue v r d = do {
     (reply, d1) \<leftarrow> redis_command api [bytes_of ''rpush'', c_str queue, c_str v] r d;
     Some (case reply of Some p \<Rightarrow> rp_integer p | None \<Rightarrow> 1, d1) }"

text \<open>\<open>Dequeue\<close> leaves its in-out argument alone unless a string (type 1) comes back.\<close>

definition redis_Dequeue ::
    "('c, 'd) hiredis \<Rightarrow> byte list \<Rightarrow> byte list \<Rightarrow> 'c redis_helper \<Rightarrow> 'd \<Rightarrow> (byte list \<times> 'd) option" where
  "redis_Dequeue api queue v r d = do {
     (reply, d1) \<leftarrow> redis_command api [bytes_of ''lpop'', c_str queue] r d;
     (case reply of
        None \<Rightarrow> Some (v, d1)
      | Some p \<Rightarrow>
          if rp_type p = 1 then map_option (\<lambda>s. (c_str s, d1)) (rp_str p) else Some (v, d1)) }"

definition redis_Push ::
    "('c, 'd) hiredis \<Rightarrow> byte list \<Rightarrow> byte list \<Rightarrow> 'c redis_helper \<Rightarrow> 'd \<Rightarrow> (int \<times> 'd) option" where
  "redis_Push api stack v r d = do {
     (reply, d1) \<leftarrow> redis_command api [bytes_of ''rpush'', c_str stack, c_str v] r d;
     Some (case reply of Some p \<Rightarrow> rp_integer p | None \<Rightarrow> 1, d1) }"

definition redis_Pop ::
    "('c, 'd) hiredis \<Rightarrow> byte list \<Rightarrow> 'c redis_helper \<Rightarrow> 'd \<Rightarrow> (byte list \<times> 'd) option" where
  "redis_Pop api stack r d = do {
     (reply, d1) \<leftarrow> redis_command api [bytes_of ''rpop'', c_str stack] r d;
     p \<leftarrow> reply;
     s \<leftarrow> rp_str p;
     Some (c_str s, d1) }"

definition redis_ping ::
    "('c, 'd) hiredis \<Rightarrow> 'c redis_helper \<Rightarrow> 'd \<Rightarrow> (bool \<times> 'd) option" where
  "redis_ping api r d =
     (if r_context r = None then Some (False, d)
      else do {
        (reply, d1) \<leftarrow> redis_command api [bytes_of ''ping''] r d;
        (case reply of
           None \<Rightarrow> Some (False, d1)
         | Some p \<Rightarrow> map_option (\<lambda>s. (c_str s = bytes_of ''PONG'', d1)) (rp_str p)) })"

section \<open>The Redis helpers of the client and of the database writer\<close>

text \<open>
  \<open>CRedisHelper\<close> of \<open>OrderSyncClient\<close> and of \<open>OrderDbSync\<close>: the methods their programs use.
\<close>

definition cli_Connect ::
    "('c, 'd) hiredis \<Rightarrow> 'd \<Rightarrow> 'c redis_helper \<Rightarrow> int \<times> 'c redis_helper" where
  "cli_Connect api d r =
     (let ctx = h_connect api d (c_str (r_host r)) (r_port r) (r_timeout r)
      in (if ctx = None then 1 else 0, r\<lparr>r_context := ctx\<rparr>))"

definition cli_Dequeue ::
    "('c, 'd) hiredis \<Rightarrow> byte list \<Rightarrow> byte list \<Rightarrow> 'c redis_helper \<Rightarrow> 'd \<Rightarrow> (byte list \<times> 'd) option" where
  "cli_Dequeue api queue v r d = do {
     (reply, d1) \<leftarrow> redis_command api [bytes_of ''lpop'', c_str queue] r d;
     (case reply of
        None \<Rightarrow> Some (v, d1)
      | Some p \<Rightarrow>
          if rp_type p = 1 then map_option (\<lambda>s. (c_str s, d1)) (rp_str p) else Some (v, d1)) }"

definition cli_ping ::
    "('c, 'd) hiredis \<Rightarrow> 'c redis_helper \<Rightarrow> 'd \<Rightarrow> (bool \<times> 'd) option" where
  "cli_ping api r d =
     (if r_context r = None then Some (False, d)
      else do {
        (reply, d1) \<leftarrow> redis_command api [bytes_of ''ping''] r d;
        (case reply of
           None \<Rightarrow> Some (False, d1)
         | Some p \<Rightarrow> map_option (\<lambda>s. (c_str s = bytes_of ''PONG'', d1)) (rp_str p)) })"

definition db_Connect ::
    "('c, 'd) hiredis \<Rightarrow> 'd \<Rightarrow> 'c redis_helper \<Rightarrow> int \<times> 'c redis_helper" where
  "db_Connect api d r =
     (let ctx = h_connect api d (c_str (r_host r)) (r_port r) (r_timeout r)
      in (if ctx = None then 1 else 0, r\<lparr>r_context := ctx\<rparr>))"

definition db_Dequeue ::
    "('c, 'd) hiredis \<Rightarrow> byte list \<Rightarrow> byte list \<Rightarrow> 'c redis_helper \<Rightarrow> 'd \<Rightarrow> (byte list \<times> 'd) option" where
  "db_Dequeue api queue v r d = do {
     (reply, d1) \<leftarrow> redis_command api [bytes_of ''lpop'', c_str queue] r d;
     (case reply of
        None \<Rightarrow> Some (v, d1)
      | Some p \<Rightarrow>
          if rp_type p = 1 then map_option (\<lambda>s. (c_str s, d1)) (rp_str p) else Some (v, d1)) }"

definition db_ping ::
    "('c, 'd) hiredis \<Rightarrow> 'c redis_helper \<Rightarrow> 'd \<Rightarrow> (bool \<times> 'd) option" where
  "db_ping api r d =
     (if r_context r = None then Some (False, d)
      else do {
        (reply, d1) \<leftarrow> redis_command api [bytes_of ''ping''] r d;
        (case reply of
           None \<Rightarrow> Some (False, d1)
         | Some p \<Rightarrow> map_option (\<lambda>s. (c_str s = bytes_of ''PONG'', d1)) (rp_str p)) })"

lemma db_Dequeue_eq: "db_Dequeue = redis_Dequeue" "cli_Dequeue = redis_Dequeue"
  by (simp_all add: fun_eq_iff db_Dequeue_def cli_Dequeue_def redis_Dequeue_def)

section \<open>A Redis server that keeps lists\<close>

text \<open>
  The documented behaviour of \<open>RPUSH\<close>, \<open>LPOP\<close> and \<open>PING\<close> on a connection without I/O errors:
  \<open>queues d k\<close> is the list stored under \<open>k\<close>.
\<close>

definition keeps_lists ::
    "('c, 'd) hiredis \<Rightarrow> 'c \<Rightarrow> ('d \<Rightarrow> byte list \<Rightarrow> byte list list) \<Rightarrow> bool" where
  "keeps_lists api ctx queues \<longleftrightarrow>
     (\<forall>d k v. \<exists>p d'. h_command api d ctx [bytes_of ''rpush'', k, v] = (Some p, d') \<and>
        rp_integer p = int (length (queues d k) + 1) \<and>
        queues d' = (queues d)(k := queues d k @ [v])) \<and>
     (\<forall>d k. queues d k = [] \<longrightarrow>
        (\<exists>p. h_command api d ctx [bytes_of ''lpop'', k] = (Some p, d) \<and> rp_type p = 4)) \<and>
     (\<forall>d k v vs. queues d k = v # vs \<longrightarrow>
        (\<exists>p d'. h_command api d ctx [bytes_of ''lpop'', k] = (Some p, d') \<and> rp_type p = 1 \<and>
           rp_str p = Some v \<and> queues d' = (queues d)(k := vs))) \<and>
     (\<forall>d. \<exists>p. h_command api d ctx [bytes_of ''ping''] = (Some p, d) \<and>
        rp_str p = Some (bytes_of ''PONG''))"

lemma Enqueue_ok:
  assumes k: "keeps_lists api ctx queues" "r_context r = Some ctx"
  obtains d' where "redis_Enqueue api q v r d = Some (int (length (queues d (c_str q)) + 1), d')"
    "queues d' = (queues d)(c_str q := queues d (c_str q) @ [c_str v])"
proof -
  from k(1) obtain p d' where "h_command api d ctx [bytes_of ''rpush'', c_str q, c_str v] = (Some p, d')"
    "rp_integer p = int (length (queues d (c_str q)) + 1)"
    "queues d' = (queues d)(c_str q := queues d (c_str q) @ [c_str v])"
    unfolding keeps_lists_def by blast
  then show thesis using k(2) by (intro that [of d']) (simp_all add: redis_Enqueue_def redis_command_def)
qed

lemma Dequeue_ok:
  assumes k: "keeps_lists api ctx queues" "r_context r = Some ctx"
    and ne: "queues d (c_str q) = v # vs"
  obtains d' where "redis_Dequeue api q v0 r d = Some (c_str v, d')"
    "queues d' = (queues d)(c_str q := vs)"
proof -
  from k(1) ne obtain p d' where "h_command api d ctx [bytes_of ''lpop'', c_str q] = (Some p, d')"
    "rp_type p = 1" "rp_str p = Some v" "queues d' = (queues d)(c_str q := vs)"
    unfolding keeps_lists_def by blast
  then show thesis using k(2) by (intro that [of d']) (simp_all add: redis_Dequeue_def redis_command_def)
qed

text \<open>A server of that kind: the lists are the state.\<close>

definition list_server :: "(unit, byte list \<Rightarrow> byte list list) hiredis" where
  "list_server = \<lparr>h_connect = (\<lambda>d host port t. Some ()),
     h_command = (\<lambda>d ctx ws.
       if length ws = 3 \<and> ws ! 0 = bytes_of ''rpush''
       then (Some \<lparr>rp_type = 3, rp_integer = int (length (d (ws ! 1)) + 1), rp_str = None\<rparr>,
             d(ws ! 1 := d (ws ! 1) @ [ws ! 2]))
       else if length ws = 2 \<and> ws ! 0 = bytes_of ''lpop''
       then (case d (ws ! 1) of
               [] \<Rightarrow> (Some \<lparr>rp_type = 4, rp_integer = 0, rp_str = None\<rparr>, d)
             | v # vs \<Rightarrow> (Some \<lparr>rp_type = 1, rp_integer = 0, rp_str = Some v\<rparr>, d(ws ! 1 := vs)))
       else (Some \<lparr>rp_type = 5, rp_integer = 0, rp_str = Some (bytes_of ''PONG'')\<rparr>, d))\<rparr>"

lemma list_server_keeps_lists: "keeps_lists list_server () (\<lambda>d. d)"
  by (simp add: keeps_lists_def list_server_def bytes_of_def)

end
