(* ===== verification/CoreConfig.thy ===== *)
theory CoreConfig
  imports CText Services
begin

text \<open>
  \<open>CConfig\<close> (\<open>core/config.cpp\<close>, \<open>include/config.h\<close>), the configuration files of the core library: sections of keys, both
  without regard to case. A value has a first character that is not part of it: \<open>?\<close> when it was read from a file, a blank once it
  has been asked for; an empty text is a key that was asked for and is not there. A \<open>std::map\<close> is the list of its entries in order.
  Values with a unit (\<open>GetSizeVal\<close>) go through \<open>double\<close> and are not modelled.
\<close>

section \<open>Maps without regard to case\<close>

definition lower :: "byte \<Rightarrow> byte" where
  "lower c = (if 65 \<le> unat c \<and> unat c \<le> 90 then c + 32 else c)"

definition nocase :: "byte list \<Rightarrow> byte list" where
  "nocase s = map lower (c_str s)"

fun bytes_less :: "byte list \<Rightarrow> byte list \<Rightarrow> bool" where
  "bytes_less [] [] = False"
| "bytes_less [] (b # bs) = True"
| "bytes_less (a # as) [] = False"
| "bytes_less (a # as) (b # bs) = (a < b \<or> a = b \<and> bytes_less as bs)"

text \<open>\<open>find\<close>, \<open>m[k] = v\<close>, and \<open>m[k]\<close>, which adds the key when it is not there.\<close>

fun nc_find :: "byte list \<Rightarrow> (byte list \<times> 'v) list \<Rightarrow> 'v option" where
  "nc_find k [] = None"
| "nc_find k ((k', v) # m) = (if nocase k = nocase k' then Some v else nc_find k m)"

fun nc_put :: "byte list \<Rightarrow> 'v \<Rightarrow> (byte list \<times> 'v) list \<Rightarrow> (byte list \<times> 'v) list" where
  "nc_put k v [] = [(k, v)]"
| "nc_put k v ((k', v') # m) =
     (if nocase k = nocase k' then (k', v) # m
      else if bytes_less (nocase k) (nocase k') then (k, v) # (k', v') # m
      else (k', v') # nc_put k v m)"

definition nc_at :: "byte list \<Rightarrow> 'v \<Rightarrow> (byte list \<times> 'v) list \<Rightarrow> 'v \<times> (byte list \<times> 'v) list" where
  "nc_at k new m = (case nc_find k m of Some v \<Rightarrow> (v, m) | None \<Rightarrow> (new, nc_put k new m))"

section \<open>State\<close>

type_synonym keymap_t = "(byte list \<times> byte list) list"
type_synonym secmap_t = "(byte list \<times> keymap_t) list"

record core_config =
  cc_filename :: "byte list"
  cc_smap :: secmap_t

section \<open>Reading a file\<close>

definition is_blank :: "byte \<Rightarrow> bool" where
  "is_blank c \<longleftrightarrow> c = 0x20 \<or> c = 0x09"

definition is_print :: "byte \<Rightarrow> bool" where
  "is_print c \<longleftrightarrow> 0x20 \<le> unat c \<and> unat c \<le> 0x7E"

definition skip_blank :: "byte list \<Rightarrow> byte list" where
  "skip_blank p = dropWhile is_blank p"

definition upto_first :: "byte \<Rightarrow> byte list \<Rightarrow> byte list option" where
  "upto_first c v = (if c \<in> set v then Some (takeWhile (\<lambda>b. b \<noteq> c) v @ [c]) else None)"

definition upto_last :: "byte \<Rightarrow> byte list \<Rightarrow> byte list option" where
  "upto_last c v = (if c \<in> set v then Some (rev (dropWhile (\<lambda>b. b \<noteq> c) (rev v))) else None)"

text \<open>The \<open>switch\<close>: what remains of the text after the equals sign; \<open>None\<close> is \<open>goto error\<close>.\<close>

definition value_text :: "byte list \<Rightarrow> byte list option" where
  "value_text v = (case v of
     [] \<Rightarrow> Some []
   | c # r \<Rightarrow>
       if c = 0x28 then upto_first 0x29 v
       else if c = 0x5B then upto_first 0x5D v
       else if c = 0x7B then upto_first 0x7D v
       else if c = 0x22 then map_option ((#) c) (upto_last 0x22 r)
       else if c = 0x27 then map_option ((#) c) (upto_last 0x27 r)
       else Some (rev (dropWhile is_blank (rev v))))"

text \<open>A line: nothing, an invalid line, a section header, or a value, with the section when the line names it.\<close>

datatype line_result = Blank | Invalid | BadValue "byte list option" | Section "byte list" | Setting "byte list option" "byte list" "byte list"

definition set_line :: "byte list option \<Rightarrow> byte list \<Rightarrow> byte list \<Rightarrow> line_result" where
  "set_line sec key v = (case value_text v of None \<Rightarrow> BadValue sec | Some t \<Rightarrow> Setting sec key (0x3F # t))"

definition key_line :: "byte list \<Rightarrow> byte list option \<Rightarrow> line_result" where
  "key_line key v =
     (if key \<noteq> [] \<and> hd key = 0x5B
      then (case dropWhile (\<lambda>b. b \<noteq> 0x5D) key of
              [] \<Rightarrow> Invalid
            | r # post \<Rightarrow>
                (let sec = tl (takeWhile (\<lambda>b. b \<noteq> 0x5D) key)
                 in case v of
                      None \<Rightarrow> if post = [] then Section sec else Invalid
                    | Some t \<Rightarrow> if post \<noteq> [] \<and> hd post = 0x2E then set_line (Some sec) (tl post) t else Invalid))
      else (case v of None \<Rightarrow> Blank | Some t \<Rightarrow> set_line None key t))"

definition read_line :: "byte list \<Rightarrow> line_result" where
  "read_line l =
     (let key = skip_blank l
      in if key = [] \<or> hd key = 0x23 \<or> hd key = 0x3F \<or> hd key = 0x3B then Blank
         else if \<not> is_print (hd key) then Invalid
         else (let ends = (\<lambda>b. b = 0x3D \<or> is_blank b);
                   k = takeWhile (\<lambda>b. \<not> ends b) key;
                   rest = dropWhile (\<lambda>b. \<not> ends b) key
               in if rest \<noteq> []
                  then (let p = (if hd rest = 0x3D then rest else skip_blank (tl rest))
                        in if p \<noteq> [] \<and> hd p = 0x3D then key_line k (Some (skip_blank (tl p)))
                           else if hd key = 0x5B then key_line k None
                           else Invalid)
                  else if hd key \<noteq> 0x5B then Invalid
                  else key_line k None))"

text \<open>The state of the loop: the section \<open>kmap\<close> points to, the map, and the result so far.\<close>

definition put_value :: "byte list \<Rightarrow> byte list \<Rightarrow> byte list \<Rightarrow> secmap_t \<Rightarrow> secmap_t" where
  "put_value sec key v sm = (case nc_at sec [] sm of (km, sm1) \<Rightarrow> nc_put sec (nc_put key v km) sm1)"

definition line_step :: "byte list \<times> secmap_t \<times> int \<Rightarrow> byte list \<Rightarrow> byte list \<times> secmap_t \<times> int" where
  "line_step st l = (case st of (cur, sm, ret) \<Rightarrow>
     (case read_line l of
        Blank \<Rightarrow> (cur, sm, ret)
      | Invalid \<Rightarrow> (cur, sm, - 1)
      | BadValue sec \<Rightarrow> (cur, (case sec of None \<Rightarrow> sm | Some s \<Rightarrow> snd (nc_at s [] sm)), - 1)
      | Section s \<Rightarrow> (s, snd (nc_at s [] sm), ret)
      | Setting sec key v \<Rightarrow> (cur, put_value (case sec of None \<Rightarrow> cur | Some s \<Rightarrow> s) key v sm, ret)))"

text \<open>The lines of the buffer, which ends at a zero byte. A line feed takes a carriage return before it with it.\<close>

definition chop_cr :: "byte list \<Rightarrow> byte list" where
  "chop_cr l = (if l \<noteq> [] \<and> last l = 0x0D then butlast l else l)"

function config_lines :: "byte list \<Rightarrow> byte list list" where
  "config_lines s =
     (if s = [] then []
      else (case dropWhile (\<lambda>b. b \<noteq> 0x0A) s of
              [] \<Rightarrow> [s]
            | _ # r \<Rightarrow> chop_cr (takeWhile (\<lambda>b. b \<noteq> 0x0A) s) # config_lines r))"
  by pat_completeness auto
termination
proof (relation "measure length", simp)
  fix s :: "byte list" and c r
  assume "dropWhile (\<lambda>b. b \<noteq> 0x0A) s = c # r"
  then show "(r, s) \<in> measure length" using length_dropWhile_le [of "\<lambda>b. b \<noteq> 0x0A" s] by simp
qed

declare config_lines.simps [simp del]

text \<open>\<open>files\<close> gives the content of a file that can be opened; the result is that of the program, and the state.\<close>

definition ParseConfig ::
    "(byte list \<Rightarrow> byte list option) \<Rightarrow> byte list option \<Rightarrow> byte list option \<Rightarrow> core_config \<Rightarrow> int \<times> core_config" where
  "ParseConfig files fn defsec c =
     (let name = (case fn of None \<Rightarrow> c_str (cc_filename c) | Some f \<Rightarrow> c_str f);
          c1 = (if fn \<noteq> None \<and> cc_filename c = [] then c\<lparr>cc_filename := name\<rparr> else c)
      in if c_str (cc_filename c1) = [] then (- 1, c1)
         else (case files name of
                 None \<Rightarrow> (- 1, c1)
               | Some buf \<Rightarrow>
                   (let sec = (case defsec of None \<Rightarrow> [] | Some s \<Rightarrow> c_str s);
                        (cur, sm, ret) = foldl line_step (sec, snd (nc_at sec [] (cc_smap c1)), 0) (config_lines (c_str buf))
                    in (ret, c1\<lparr>cc_smap := sm\<rparr>))))"

section \<open>Asking\<close>

definition HasSection :: "byte list \<Rightarrow> core_config \<Rightarrow> bool" where
  "HasSection sec c = (case nc_find sec (cc_smap c) of None \<Rightarrow> False | Some km \<Rightarrow> km \<noteq> [])"

definition HasKey :: "byte list \<Rightarrow> byte list \<Rightarrow> core_config \<Rightarrow> bool" where
  "HasKey sec key c = (case nc_find sec (cc_smap c) of None \<Rightarrow> False
     | Some km \<Rightarrow> (case nc_find key km of None \<Rightarrow> False | Some v \<Rightarrow> v \<noteq> []))"

text \<open>Asking for a value adds the section and the key when they are not there, and marks the value as asked for.\<close>

definition GetStrVal :: "byte list \<Rightarrow> byte list \<Rightarrow> core_config \<Rightarrow> byte list option \<times> core_config" where
  "GetStrVal sec key c =
     (let (km, sm) = nc_at sec [] (cc_smap c);
          (v, km1) = nc_at key [] km
      in case v of
           [] \<Rightarrow> (None, c\<lparr>cc_smap := nc_put sec km1 sm\<rparr>)
         | _ # t \<Rightarrow> (Some t, c\<lparr>cc_smap := nc_put sec (nc_put key (0x20 # t) km1) sm\<rparr>))"

definition str2int :: "byte list \<Rightarrow> int \<Rightarrow> int" where
  "str2int s def =
     (let is = (\<lambda>w. nocase s = nocase (bytes_of w))
      in if (s \<noteq> [] \<and> is_digit (hd s)) \<or> (length s \<ge> 2 \<and> hd s = 0x2D \<and> is_digit (s ! 1)) then atoi s
         else if is ''On'' then 1 else if is ''Off'' then 0
         else if is ''Yes'' then 1 else if is ''No'' then 0
         else if is ''True'' then 1 else if is ''False'' then 0
         else if is ''Enable'' then 1 else if is ''Disable'' then 0
         else if is ''Enabled'' then 1 else if is ''Disabled'' then 0
         else def)"

definition GetIntVal :: "byte list \<Rightarrow> byte list \<Rightarrow> int \<Rightarrow> core_config \<Rightarrow> int \<times> core_config" where
  "GetIntVal sec key def c =
     (case GetStrVal sec key c of
        (None, c1) \<Rightarrow> (def, c1)
      | (Some val, c1) \<Rightarrow> (str2int (c_str val) def, c1))"

text \<open>\<open>strtol\<close> with base 0 on a text that starts with a digit: the number, and what is left.\<close>

definition hex_digit :: "byte \<Rightarrow> nat option" where
  "hex_digit c =
     (let n = unat c
      in if 48 \<le> n \<and> n \<le> 57 then Some (n - 48)
         else if 65 \<le> n \<and> n \<le> 70 then Some (n - 55)
         else if 97 \<le> n \<and> n \<le> 102 then Some (n - 87) else None)"

fun base_value :: "nat \<Rightarrow> nat \<Rightarrow> byte list \<Rightarrow> nat \<times> byte list" where
  "base_value b a [] = (a, [])"
| "base_value b a (c # s) = (case hex_digit c of
     Some d \<Rightarrow> if d < b then base_value b (a * b + d) s else (a, c # s)
   | None \<Rightarrow> (a, c # s))"

definition strtol0 :: "byte list \<Rightarrow> int \<times> byte list" where
  "strtol0 s =
     (let (n, rest) = (if length s \<ge> 3 \<and> s ! 0 = 0x30 \<and> lower (s ! 1) = 0x78 \<and> hex_digit (s ! 2) \<noteq> None
                       then base_value 16 0 (drop 2 s)
                       else if s \<noteq> [] \<and> s ! 0 = 0x30 then base_value 8 0 s
                       else base_value 10 0 s)
      in (min (2 ^ 63 - 1) (int n), rest))"

definition idx_of :: "byte list \<Rightarrow> byte list list \<Rightarrow> int" where
  "idx_of val array =
     (let (n, rest) = strtol0 val; n32 = sint (word_of_int n :: u32)
      in if val \<noteq> [] \<and> is_digit (hd val) \<and> rest = [] \<and> 0 \<le> n32 \<and> n32 < int (length array) then n32
         else (case List.find (\<lambda>i. nocase val = nocase (array ! i)) [0..<length array] of Some i \<Rightarrow> int i | None \<Rightarrow> - 1))"

definition GetIdxVal :: "byte list \<Rightarrow> byte list \<Rightarrow> byte list list \<Rightarrow> int \<Rightarrow> core_config \<Rightarrow> int \<times> core_config" where
  "GetIdxVal sec key array nDefault c =
     (case GetStrVal sec key c of
        (None, c1) \<Rightarrow> (nDefault, c1)
      | (Some val, c1) \<Rightarrow> (idx_of (c_str val) array, c1))"

section \<open>Writing a file\<close>

definition dump_key :: "bool \<Rightarrow> byte list \<times> byte list \<Rightarrow> byte list" where
  "dump_key dec e = (case e of (key, val) \<Rightarrow>
     (case val of
        [] \<Rightarrow> if dec then bytes_of ''# '' @ c_str key @ bytes_of '' NOT SET'' @ [0x0A] else []
      | flag # v \<Rightarrow> if flag = 0 then (if dec then bytes_of ''# '' @ c_str key @ bytes_of '' NOT SET'' @ [0x0A] else [])
          else (if flag = 0x20 \<or> \<not> dec then [] else [flag, 0x20]) @ c_str key @ bytes_of '' = '' @ c_str v @ [0x0A]))"

definition dump_section :: "bool \<Rightarrow> byte list \<times> keymap_t \<Rightarrow> byte list" where
  "dump_section dec e = (case e of (sec, km) \<Rightarrow>
     if km = [] then [] else [0x0A, 0x5B] @ c_str sec @ [0x5D, 0x0A] @ concat (map (dump_key dec) km))"

definition Dump :: "bool \<Rightarrow> core_config \<Rightarrow> byte list" where
  "Dump dec c = bytes_of ''##### ORIGINAL FILE '' @ c_str (cc_filename c) @ bytes_of '' #####'' @ [0x0A] @
     concat (map (dump_section dec) (cc_smap c))"

text \<open>Into a file; \<open>ok\<close>: it can be opened.\<close>

definition Dump_file :: "bool \<Rightarrow> bool \<Rightarrow> core_config \<Rightarrow> int \<times> byte list option" where
  "Dump_file ok dec c = (if ok then (0, Some (Dump dec c)) else (- 1, None))"

end
