(* ===== verification/CoreConfigProps.thy ===== *)
theory CoreConfigProps
  imports CoreConfig
begin

text \<open>What \<open>CConfig\<close> keeps when its values are written to a file and read back.\<close>

section \<open>Lookups\<close>

lemma nc_find_put: "nc_find k (nc_put k' v m) = (if nocase k = nocase k' then Some v else nc_find k m)"
  by (induction k' v m rule: nc_put.induct) auto

lemma nc_find_cong: "nocase k = nocase k' \<Longrightarrow> nc_find k m = nc_find k' m"
  by (induction m) auto

text \<open>The text stored for a key of a section.\<close>

definition stored :: "secmap_t \<Rightarrow> byte list \<Rightarrow> byte list \<Rightarrow> byte list option" where
  "stored sm sec key = (case nc_find sec sm of None \<Rightarrow> None | Some km \<Rightarrow> nc_find key km)"

lemma stored_add_section: "stored (snd (nc_at s [] sm)) sec key = stored sm sec key"
  by (auto simp: nc_at_def stored_def nc_find_put nc_find_cong [of sec s] split: option.split)

lemma stored_put_value:
  "stored (put_value s k v sm) sec key = (if nocase sec = nocase s \<and> nocase key = nocase k then Some v else stored sm sec key)"
  by (auto simp: put_value_def nc_at_def stored_def nc_find_put nc_find_cong [of sec s] split: option.split)

lemma GetStrVal_stored:
  "fst (GetStrVal sec key c) = (case stored (cc_smap c) sec key of Some (_ # t) \<Rightarrow> Some t | _ \<Rightarrow> None)"
  by (auto simp: GetStrVal_def nc_at_def stored_def Let_def split: option.split list.split prod.split)

section \<open>Order\<close>

lemma bytes_less_irrefl [simp]: "\<not> bytes_less a a"
  by (induction a) auto

lemma bytes_less_trans: "bytes_less a b \<Longrightarrow> bytes_less b c \<Longrightarrow> bytes_less a c"
proof (induction a b arbitrary: c rule: bytes_less.induct)
  case (2 b bs)
  then show ?case by (cases c) auto
next
  case (4 a as b bs)
  then show ?case by (cases c) auto
qed auto

lemma bytes_less_total: "a \<noteq> b \<Longrightarrow> \<not> bytes_less a b \<Longrightarrow> bytes_less b a"
proof (induction a b rule: bytes_less.induct)
  case (4 a as b bs)
  then show ?case by (cases "a = b") auto
qed auto

fun nc_sorted :: "(byte list \<times> 'v) list \<Rightarrow> bool" where
  "nc_sorted [] = True"
| "nc_sorted ((k, v) # m) = ((\<forall>e \<in> set m. bytes_less (nocase k) (nocase (fst e))) \<and> nc_sorted m)"

lemma nc_put_keys: "set (nc_put k v m) \<subseteq> {(k, v)} \<union> set m \<union> {e. \<exists>v'. (fst e, v') \<in> set m \<and> nocase (fst e) = nocase k \<and> snd e = v}"
  by (induction k v m rule: nc_put.induct) auto

lemma nc_put_sorted: "nc_sorted m \<Longrightarrow> nc_sorted (nc_put k v m)"
proof (induction k v m rule: nc_put.induct)
  case (2 k v k' v' m)
  consider "nocase k = nocase k'" | "bytes_less (nocase k) (nocase k')" "nocase k \<noteq> nocase k'" | "bytes_less (nocase k') (nocase k)" "\<not> bytes_less (nocase k) (nocase k')" "nocase k \<noteq> nocase k'"
    using bytes_less_total by blast
  then show ?case
  proof cases
    case 1
    then show ?thesis using 2 by auto
  next
    case b: 2
    then show ?thesis using 2 bytes_less_trans [OF b(1)] by auto
  next
    case c: 3
    have "\<forall>e \<in> set (nc_put k v m). bytes_less (nocase k') (nocase (fst e))"
      using nc_put_keys [of k v m] 2(2) c by fastforce
    then show ?thesis using 2 c by auto
  qed
qed simp

lemma nc_at_sorted: "nc_sorted m \<Longrightarrow> nc_sorted (snd (nc_at k v m))"
  by (simp add: nc_at_def nc_put_sorted split: option.split)

lemma nc_sorted_find:
  assumes "nc_sorted m" "(k, v) \<in> set m"
  shows "nc_find k m = Some v"
  using assms by (induction m) fastforce+

section \<open>Lines\<close>

lemma config_lines_newline:
  assumes "0x0A \<notin> set l"
  shows "config_lines (l @ 0x0A # r) = chop_cr l # config_lines r"
proof -
  have "dropWhile (\<lambda>b. b \<noteq> 0x0A) (l @ 0x0A # r) = 0x0A # r" "takeWhile (\<lambda>b. b \<noteq> 0x0A) (l @ 0x0A # r) = l"
    using assms by (auto simp: dropWhile_append takeWhile_append)
  then show ?thesis by (subst config_lines.simps) simp
qed

lemma config_lines_terminated:
  assumes "\<forall>l \<in> set ls. 0x0A \<notin> set l"
  shows "config_lines (concat (map (\<lambda>l. l @ [0x0A]) ls)) = map chop_cr ls"
  using assms
proof (induction ls)
  case Nil
  then show ?case by (simp add: config_lines.simps)
next
  case (Cons l ls)
  then show ?case using config_lines_newline [of l] by simp
qed

lemma config_lines_set: "l \<in> set (config_lines s) \<Longrightarrow> set l \<subseteq> set s \<and> 0x0A \<notin> set l"
proof (induction s rule: config_lines.induct)
  case (1 s)
  show ?case
  proof (cases "dropWhile (\<lambda>b. b \<noteq> 0x0A) s")
    case Nil
    then have "0x0A \<notin> set s" by (auto simp: dropWhile_eq_Nil_conv)
    moreover have "config_lines s = (if s = [] then [] else [s])"
      by (subst config_lines.simps) (use Nil in \<open>simp del: dropWhile_eq_Nil_conv\<close>)
    ultimately show ?thesis using 1(2) by (auto split: if_splits)
  next
    case (Cons c r)
    have ne: "s \<noteq> []" using Cons by auto
    have r: "set r \<subseteq> set s" using set_dropWhileD [of _ "\<lambda>b. b \<noteq> 0x0A" s] Cons by (metis list.set_intros(2) subsetI)
    have "l = chop_cr (takeWhile (\<lambda>b. b \<noteq> 0x0A) s) \<or> l \<in> set (config_lines r)"
      using 1(2) Cons ne by (subst (asm) config_lines.simps) auto
    moreover have "set (chop_cr t) \<subseteq> set t" for t by (auto simp: chop_cr_def dest: in_set_butlastD)
    ultimately show ?thesis using 1(1) [OF ne Cons] r by (fastforce dest: set_takeWhileD)
  qed
qed


section \<open>Texts that come back\<close>

definition clean_value :: "byte list \<Rightarrow> bool" where
  "clean_value t \<longleftrightarrow> 0 \<notin> set t \<and> 0x0A \<notin> set t \<and> 0x0D \<notin> set t \<and> skip_blank t = t \<and> value_text t = Some t"

definition clean_sec :: "byte list \<Rightarrow> bool" where
  "clean_sec s \<longleftrightarrow> set s \<inter> {0, 0x0A, 0x09, 0x20, 0x3D, 0x5D} = {}"

definition clean_key :: "byte list \<Rightarrow> bool" where
  "clean_key k \<longleftrightarrow> set k \<inter> {0, 0x0A, 0x09, 0x20, 0x3D} = {} \<and>
     (k \<noteq> [] \<longrightarrow> is_print (hd k) \<and> hd k \<notin> {0x23, 0x3F, 0x3B, 0x5B})"

lemma upto_first_again: "upto_first c v = Some t \<Longrightarrow> upto_first c t = Some t"
  by (auto simp: upto_first_def takeWhile_append split: if_splits dest: set_takeWhileD)

lemma upto_last_again: "upto_last c v = Some t \<Longrightarrow> upto_last c t = Some t"
proof -
  assume a: "upto_last c v = Some t"
  then have "dropWhile (\<lambda>b. b \<noteq> c) (rev t) = rev t" "t \<noteq> []" "c \<in> set v"
    by (auto simp: upto_last_def split: if_splits)
  moreover from this have "last t = c" using dropWhile_eq_self_iff [of "\<lambda>b. b \<noteq> c" "rev t"] by (auto simp: hd_rev)
  ultimately show ?thesis by (auto simp: upto_last_def)
qed

lemma value_text_again:
  assumes "value_text v = Some t"
  shows "value_text t = Some t"
proof (cases v)
  case (Cons c r)
  show ?thesis
  proof (cases "c \<in> {0x28, 0x5B, 0x7B}")
    case True
    then obtain d where d: "upto_first d (c # r) = Some t" "d \<noteq> c" "\<And>w. value_text (c # w) = upto_first d (c # w)"
      using assms Cons by (auto simp: value_text_def)
    then obtain w where "t = c # w" by (auto simp: upto_first_def split: if_splits)
    then show ?thesis using d upto_first_again [OF d(1)] by simp
  next
    case False
    show ?thesis
    proof (cases "c \<in> {0x22, 0x27}")
      case True
      then obtain w where "t = c # w" "upto_last c r = Some w" using assms Cons by (auto simp: value_text_def)
      then show ?thesis using True upto_last_again by (auto simp: value_text_def)
    next
      case q: False
      then have t: "t = rev (dropWhile is_blank (rev (c # r)))" using False assms Cons by (simp add: value_text_def)
      show ?thesis
      proof (cases t)
        case (Cons c' w)
        have "rev t @ rev (takeWhile is_blank (rev (c # r))) = rev t @ rev (takeWhile is_blank (rev (c # r)))" ..
        have "c # r = t @ rev (takeWhile is_blank (rev (c # r)))"
          unfolding t by (metis rev_append rev_rev_ident takeWhile_dropWhile_id)
        then have "c' = c" using Cons by simp
        moreover have "dropWhile is_blank (rev t) = rev t" unfolding t by simp
        ultimately show ?thesis using q False Cons by (simp add: value_text_def)
      qed (simp add: value_text_def)
    qed
  qed
qed (use assms in \<open>simp add: value_text_def\<close>)

lemma set_trimmed: "x \<in> set (dropWhile P (rev w)) \<Longrightarrow> x \<in> set w"
  using set_dropWhileD [of x P "rev w"] by simp

lemma value_text_sub:
  assumes "value_text v = Some t" "skip_blank v = v"
  shows "set t \<subseteq> set v" "skip_blank t = t"
proof -
  have f: "set t \<subseteq> set w \<and> hd t = hd w \<and> t \<noteq> []" if "upto_first d w = Some t" "hd w \<noteq> d" for d w t
    using that by (cases w) (auto simp: upto_first_def dest: set_takeWhileD split: if_splits)
  have f1: "set t \<subseteq> set w" if "upto_first d w = Some t" for d w t
    using that by (auto simp: upto_first_def dest: set_takeWhileD split: if_splits)
  have l: "set t \<subseteq> set w" if "upto_last d w = Some t" for d w t
    using that by (auto simp: upto_last_def dest: set_trimmed split: if_splits)
  show "set t \<subseteq> set v"
    using assms(1) by (auto simp: value_text_def dest: f1 [THEN subsetD] l [THEN subsetD] set_trimmed [of _ is_blank "_ # _", simplified] split: list.splits if_splits)
  have "t = [] \<or> hd t = hd v"
  proof (cases v)
    case (Cons c r)
    have "rev (dropWhile is_blank (rev (c # r))) = [] \<or> hd (rev (dropWhile is_blank (rev (c # r)))) = c"
      by (metis append_is_Nil_conv hd_append2 list.sel(1) rev_append rev_rev_ident takeWhile_dropWhile_id)
    then show ?thesis using assms(1) Cons by (auto simp: value_text_def dest: f split: if_splits)
  qed (use assms(1) in \<open>simp add: value_text_def\<close>)
  moreover have "v = [] \<or> \<not> is_blank (hd v)" using assms(2) by (auto simp: skip_blank_def dropWhile_eq_self_iff)
  ultimately show "skip_blank t = t" using \<open>set t \<subseteq> set v\<close> by (cases "v = []") (auto simp: skip_blank_def dropWhile_eq_self_iff)
qed


lemma skip_blank_skip [simp]: "skip_blank (skip_blank w) = skip_blank w"
  by (simp add: skip_blank_def)

lemma set_skip_blank: "set (skip_blank w) \<subseteq> set w"
  by (auto simp: skip_blank_def dest: set_dropWhileD)

lemma set_tl: "set (tl w) \<subseteq> set w"
  by (cases w) auto

definition ends_key :: "byte \<Rightarrow> bool" where
  "ends_key b \<longleftrightarrow> b = 0x3D \<or> is_blank b"

lemma read_line_key_eq:
  "read_line l = (let key = skip_blank l; k = takeWhile (\<lambda>b. \<not> ends_key b) key; rest = dropWhile (\<lambda>b. \<not> ends_key b) key;
       p = (if hd rest = 0x3D then rest else skip_blank (tl rest))
   in if key = [] \<or> hd key = 0x23 \<or> hd key = 0x3F \<or> hd key = 0x3B then Blank
    else if \<not> is_print (hd key) then Invalid
    else if rest \<noteq> [] then (if p \<noteq> [] \<and> hd p = 0x3D then key_line k (Some (skip_blank (tl p)))
           else if hd key = 0x5B then key_line k None else Invalid)
    else if hd key \<noteq> 0x5B then Invalid else key_line k None)"
  unfolding read_line_def Let_def ends_key_def by (rule refl)

lemma read_line_key:
  assumes "read_line l = r" "r \<noteq> Blank" "r \<noteq> Invalid"
  obtains k v where "r = key_line k v" "set k \<subseteq> set l" "\<forall>b \<in> set k. \<not> ends_key b"
    "k = [] \<or> is_print (hd k) \<and> hd k \<notin> {0x23, 0x3F, 0x3B}" "\<forall>w. v = Some w \<longrightarrow> skip_blank w = w \<and> set w \<subseteq> set l"
proof -
  define key where "key = skip_blank l"
  define k where "k = takeWhile (\<lambda>b. \<not> ends_key b) key"
  define rest where "rest = dropWhile (\<lambda>b. \<not> ends_key b) key"
  define p where "p = (if hd rest = 0x3D then rest else skip_blank (tl rest))"
  have u: "read_line l = (if key = [] \<or> hd key = 0x23 \<or> hd key = 0x3F \<or> hd key = 0x3B then Blank
    else if \<not> is_print (hd key) then Invalid
    else if rest \<noteq> [] then (if p \<noteq> [] \<and> hd p = 0x3D then key_line k (Some (skip_blank (tl p)))
           else if hd key = 0x5B then key_line k None else Invalid)
    else if hd key \<noteq> 0x5B then Invalid else key_line k None)"
    unfolding read_line_key_eq Let_def key_def k_def rest_def p_def by (rule refl)
  then have h: "key \<noteq> []" "hd key \<notin> {0x23, 0x3F, 0x3B}" "is_print (hd key)" using assms by (auto split: if_splits)
  have s: "set key \<subseteq> set l" "set k \<subseteq> set key" "set rest \<subseteq> set key" unfolding key_def k_def rest_def
    using set_skip_blank [of l] by (auto dest: set_takeWhileD set_dropWhileD)
  have "set p \<subseteq> set rest" unfolding p_def using set_skip_blank [of "tl rest"] set_tl [of rest] by auto
  then have w: "set (skip_blank (tl p)) \<subseteq> set l" using set_skip_blank [of "tl p"] set_tl [of p] s by blast
  have k: "\<forall>b \<in> set k. \<not> ends_key b" unfolding k_def by (auto dest: set_takeWhileD)
  have "k = [] \<or> hd k = hd key" using h(1) unfolding k_def by (cases key) auto
  then have k0: "k = [] \<or> is_print (hd k) \<and> hd k \<notin> {0x23, 0x3F, 0x3B}" using h(2,3) by auto
  have ks: "set k \<subseteq> set l" using s by blast
  have "r = key_line k (Some (skip_blank (tl p))) \<or> r = key_line k None"
    using u h assms by (auto split: if_splits)
  then show thesis
  proof
    assume "r = key_line k (Some (skip_blank (tl p)))"
    then show thesis by (rule that [OF _ ks k k0]) (use w in simp)
  next
    assume "r = key_line k None"
    then show thesis by (rule that [OF _ ks k k0]) simp
  qed
qed

lemma key_line_Section:
  "key_line k v = Section s \<Longrightarrow> set s \<subseteq> set k \<and> 0x5D \<notin> set s"
  using set_tl [of "takeWhile (\<lambda>b. b \<noteq> 0x5D) k"]
  by (auto simp: key_line_def set_line_def Let_def dest: set_takeWhileD split: if_splits list.splits option.splits)

lemma key_line_Setting:
  "key_line k v = Setting None kk vv \<Longrightarrow> kk = k \<and> (k = [] \<or> hd k \<noteq> 0x5B) \<and> (\<exists>w t. v = Some w \<and> value_text w = Some t \<and> vv = 0x3F # t)"
  by (auto simp: key_line_def set_line_def Let_def split: if_splits list.splits option.splits)

lemma line_clean:
  assumes "set l \<inter> {0, 0x0A, 0x0D} = {}"
  shows "read_line l = Section s \<Longrightarrow> clean_sec s"
    "read_line l = Setting None k v \<Longrightarrow> clean_key k \<and> v \<noteq> [] \<and> hd v = 0x3F \<and> clean_value (tl v)"
proof -
  assume r: "read_line l = Section s"
  then obtain k v where k: "Section s = key_line k v" "set k \<subseteq> set l" "\<forall>b \<in> set k. \<not> ends_key b"
    by (rule read_line_key) simp_all
  then show "clean_sec s" using key_line_Section [OF k(1) [symmetric]] assms by (auto simp: clean_sec_def ends_key_def is_blank_def)
next
  assume r: "read_line l = Setting None k v"
  then obtain k' v' where k: "Setting None k v = key_line k' v'" "set k' \<subseteq> set l" "\<forall>b \<in> set k'. \<not> ends_key b"
    "k' = [] \<or> is_print (hd k') \<and> hd k' \<notin> {0x23, 0x3F, 0x3B}" "\<forall>w. v' = Some w \<longrightarrow> skip_blank w = w \<and> set w \<subseteq> set l"
    by (rule read_line_key) simp_all
  then obtain w t where w: "k = k'" "k' = [] \<or> hd k' \<noteq> 0x5B" "v' = Some w" "value_text w = Some t" "v = 0x3F # t"
    using key_line_Setting [OF k(1) [symmetric]] by auto
  have "clean_value t"
    using value_text_again [OF w(4)] value_text_sub [OF w(4)] k(5) w(3) assms by (auto simp: clean_value_def)
  then show "clean_key k \<and> v \<noteq> [] \<and> hd v = 0x3F \<and> clean_value (tl v)"
    using k(2-4) w assms by (auto simp: clean_key_def ends_key_def is_blank_def)
qed

section \<open>What reading and asking keep\<close>

lemma nc_put_set:
  "(k', v') \<in> set (nc_put k v m) \<Longrightarrow> (k', v') \<in> set m \<or> v' = v \<and> (k' = k \<or> (\<exists>w. (k', w) \<in> set m))"
  by (induction k v m rule: nc_put.induct) (auto split: if_splits)


lemma nc_find_None_less: "nc_sorted m \<Longrightarrow> \<forall>e \<in> set m. bytes_less (nocase k) (nocase (fst e)) \<Longrightarrow> nc_find k m = None"
  by (induction m) auto

lemma nc_put_found:
  assumes "nc_sorted m" "nc_find k m = Some u" "(k', v') \<in> set (nc_put k v m)"
  shows "(k', v') \<in> set m \<or> v' = v \<and> (k', u) \<in> set m"
  using assms
proof (induction k v m rule: nc_put.induct)
  case (2 k v a w m)
  have "\<not> bytes_less (nocase k) (nocase a)" if "nocase k \<noteq> nocase a"
  proof
    assume l: "bytes_less (nocase k) (nocase a)"
    then have "\<forall>e \<in> set m. bytes_less (nocase k) (nocase (fst e))" using 2(2) bytes_less_trans [OF l] by auto
    then have "nc_find k m = None" using nc_find_None_less 2(2) by auto
    then show False using 2(3) that by simp
  qed
  then show ?case using 2 by (cases "nocase k = nocase a") auto
qed simp

lemma nc_find_in: "nc_find k m = Some v \<Longrightarrow> \<exists>k'. (k', v) \<in> set m"
  by (induction m) (auto split: if_splits)

text \<open>After reading every key has a value (\<open>strict\<close>); asking adds keys without one.\<close>

definition values_ok :: "bool \<Rightarrow> keymap_t \<Rightarrow> bool" where
  "values_ok strict km \<longleftrightarrow> nc_sorted km \<and>
     (\<forall>(k, v) \<in> set km. if v = [] then \<not> strict else hd v \<noteq> 0 \<and> clean_key k \<and> clean_value (tl v))"

definition config_ok :: "bool \<Rightarrow> secmap_t \<Rightarrow> bool" where
  "config_ok strict sm \<longleftrightarrow> nc_sorted sm \<and> (\<forall>(s, km) \<in> set sm. clean_sec s \<and> values_ok strict km)"

lemma values_ok_Nil [simp]: "values_ok strict []"
  by (simp add: values_ok_def)

lemma add_section_ok: "config_ok strict sm \<Longrightarrow> clean_sec s \<Longrightarrow> config_ok strict (snd (nc_at s [] sm))"
  by (fastforce simp: nc_at_def config_ok_def nc_put_sorted dest: nc_put_set split: option.split)

lemma find_section_ok: "config_ok strict sm \<Longrightarrow> values_ok strict (fst (nc_at s [] sm))"
  by (auto simp: nc_at_def config_ok_def dest!: nc_find_in split: option.split)

lemma put_section_ok:
  assumes ok: "config_ok strict sm" and s: "clean_sec s" and km: "values_ok strict km"
  shows "config_ok strict (nc_put s km sm)"
  using assms by (fastforce simp: config_ok_def nc_put_sorted dest: nc_put_set)

lemma put_value_ok:
  assumes "config_ok True sm" "clean_sec s" "clean_key k" "v \<noteq> []" "hd v \<noteq> 0" "clean_value (tl v)"
  shows "config_ok True (put_value s k v sm)"
proof -
  obtain km sm1 where at: "nc_at s [] sm = (km, sm1)" by fastforce
  have km: "values_ok True km" using find_section_ok [OF assms(1), of s] at by simp
  have "v' \<noteq> [] \<and> hd v' \<noteq> 0 \<and> clean_key k' \<and> clean_value (tl v')" if e: "(k', v') \<in> set (nc_put k v km)" for k' v'
  proof -
    have old: "w \<noteq> [] \<and> hd w \<noteq> 0 \<and> clean_key k' \<and> clean_value (tl w)" if "(k', w) \<in> set km" for w
      using km that by (auto simp: values_ok_def dest!: bspec [of "set km" _ "(k', w)"] split: if_splits)
    show ?thesis using nc_put_set [OF e] old assms(3-6) by auto
  qed
  then have "values_ok True (nc_put k v km)" using km by (auto simp: values_ok_def nc_put_sorted)
  then show ?thesis using put_section_ok [of True sm1 s] add_section_ok [OF assms(1,2)] assms(2) at by (simp add: put_value_def)
qed

definition plain_line :: "byte list \<Rightarrow> bool" where
  "plain_line l \<longleftrightarrow> 0x0D \<notin> set l \<and>
     (case read_line l of Setting (Some s) k v \<Rightarrow> False | BadValue (Some s) \<Rightarrow> False | _ \<Rightarrow> True)"

lemma line_step_ok:
  assumes "config_ok True sm" "clean_sec cur" "plain_line l" "set l \<inter> {0, 0x0A} = {}"
  shows "case line_step (cur, sm, ret) l of (cur', sm', ret') \<Rightarrow> config_ok True sm' \<and> clean_sec cur'"
proof -
  have l: "set l \<inter> {0, 0x0A, 0x0D} = {}" using assms(3,4) by (auto simp: plain_line_def)
  show ?thesis
  proof (cases "read_line l")
    case (Setting sec k v)
    then show ?thesis using assms(1-3) line_clean(2) [OF l, of k v] put_value_ok [OF assms(1,2), of k v]
      by (cases sec) (auto simp: line_step_def plain_line_def)
  next
    case (Section s)
    then show ?thesis using assms(1) line_clean(1) [OF l Section] by (simp add: line_step_def add_section_ok)
  next
    case (BadValue sec)
    then show ?thesis using assms(1-3) by (cases sec) (auto simp: line_step_def plain_line_def)
  qed (use assms in \<open>simp_all add: line_step_def\<close>)
qed

lemma lines_ok:
  assumes "config_ok True sm" "clean_sec cur" "\<forall>l \<in> set ls. plain_line l \<and> set l \<inter> {0, 0x0A} = {}"
  shows "config_ok True (fst (snd (foldl line_step (cur, sm, ret) ls)))"
  using assms
proof (induction ls arbitrary: cur sm ret)
  case (Cons l ls)
  obtain cur' sm' ret' where st: "line_step (cur, sm, ret) l = (cur', sm', ret')" by (cases "line_step (cur, sm, ret) l")
  have "config_ok True sm'" "clean_sec cur'" using line_step_ok [OF Cons.prems(1,2), of l ret] Cons.prems(3) st by auto
  then show ?case using Cons.IH [of sm' cur' ret'] Cons.prems(3) st by simp
qed simp

lemma ask_ok:
  assumes ok: "config_ok False (cc_smap c)" and s: "clean_sec s"
  shows "config_ok False (cc_smap (snd (GetStrVal s k c)))"
proof -
  obtain km sm where at: "nc_at s [] (cc_smap c) = (km, sm)" by fastforce
  obtain v km1 where at2: "nc_at k [] km = (v, km1)" by fastforce
  have sm: "config_ok False sm" using add_section_ok [OF ok s] at by simp
  have km: "values_ok False km" using find_section_ok [OF ok, of s] at by simp
  then have km1: "values_ok False km1"
    using at2 by (fastforce simp: nc_at_def values_ok_def nc_put_sorted split: option.splits dest!: nc_put_set)
  have "values_ok False (nc_put k (0x20 # t) km1)" if v: "v = f # t" for f t
  proof -
    have "nc_find k km = Some v" "km1 = km" using at2 v by (auto simp: nc_at_def split: option.splits)
    then show ?thesis using km v
      by (fastforce simp: values_ok_def nc_put_sorted dest!: nc_put_found [of km k v])
  qed
  then show ?thesis using at at2 put_section_ok [OF sm s] km1 by (auto simp: GetStrVal_def Let_def split: list.split)
qed


section \<open>The lines of a dump\<close>

definition key_lines :: "byte list \<times> byte list \<Rightarrow> byte list list" where
  "key_lines e = (case e of (k, v) \<Rightarrow> if v = [] \<or> hd v = 0 then [] else [k @ [0x20, 0x3D, 0x20] @ tl v])"

definition section_lines :: "byte list \<times> keymap_t \<Rightarrow> byte list list" where
  "section_lines e = (case e of (s, km) \<Rightarrow> if km = [] then [] else [] # ([0x5B] @ s @ [0x5D]) # concat (map key_lines km))"

definition dump_header :: "core_config \<Rightarrow> byte list" where
  "dump_header c = bytes_of ''##### ORIGINAL FILE '' @ c_str (cc_filename c) @ bytes_of '' #####''"

abbreviation terminated :: "byte list list \<Rightarrow> byte list" where
  "terminated ls \<equiv> concat (map (\<lambda>l. l @ [0x0A]) ls)"

lemma equals_bytes: "bytes_of '' = '' = [0x20, 0x3D, 0x20]"
  by code_simp

lemma terminated_concat: "terminated (concat lss) = concat (map terminated lss)"
  by (induction lss) simp_all

lemma dump_keys:
  assumes "values_ok b km"
  shows "concat (map (dump_key False) km) = terminated (concat (map key_lines km))"
proof -
  have "dump_key False e = terminated (key_lines e)" if e: "e \<in> set km" for e
  proof -
    obtain k v where kv: "e = (k, v)" by fastforce
    have "v \<noteq> [] \<Longrightarrow> hd v \<noteq> 0 \<and> 0 \<notin> set k \<and> 0 \<notin> set (tl v)"
      using assms e kv by (auto simp: values_ok_def clean_key_def clean_value_def dest!: bspec [of "set km" _ "(k, v)"] split: if_splits)
    then show ?thesis using kv by (cases v) (simp_all add: dump_key_def key_lines_def equals_bytes)
  qed
  then have "map (dump_key False) km = map (\<lambda>e. terminated (key_lines e)) km" by simp
  then show ?thesis by (simp only: terminated_concat map_map comp_def)
qed

lemma dump_sections:
  assumes "config_ok b sm"
  shows "concat (map (dump_section False) sm) = terminated (concat (map section_lines sm))"
proof -
  have "dump_section False e = terminated (section_lines e)" if e: "e \<in> set sm" for e
  proof -
    obtain s km where skm: "e = (s, km)" by fastforce
    have "0 \<notin> set s" "values_ok b km" using assms e skm by (auto simp: config_ok_def clean_sec_def)
    then show ?thesis using skm dump_keys [of b km] by (simp add: dump_section_def section_lines_def)
  qed
  then have "map (dump_section False) sm = map (\<lambda>e. terminated (section_lines e)) sm" by simp
  then show ?thesis by (simp only: terminated_concat map_map comp_def)
qed

lemma Dump_lines:
  assumes "config_ok b (cc_smap c)"
  shows "Dump False c = terminated (dump_header c # concat (map section_lines (cc_smap c)))"
  by (simp add: Dump_def dump_header_def dump_sections [OF assms])

lemma read_line_parts:
  assumes l: "skip_blank l = k @ rest" and k: "\<forall>b \<in> set k. \<not> ends_key b" and r: "rest = [] \<or> ends_key (hd rest)"
    and h: "k @ rest \<noteq> []" "hd (k @ rest) \<notin> {0x23, 0x3F, 0x3B}" "is_print (hd (k @ rest))"
  shows "read_line l =
    (if rest \<noteq> [] then (let p = (if hd rest = 0x3D then rest else skip_blank (tl rest))
       in if p \<noteq> [] \<and> hd p = 0x3D then key_line k (Some (skip_blank (tl p))) else if hd (k @ rest) = 0x5B then key_line k None else Invalid)
     else if hd (k @ rest) \<noteq> 0x5B then Invalid else key_line k None)"
proof -
  have w: "takeWhile (\<lambda>b. \<not> ends_key b) (k @ rest) = k" "dropWhile (\<lambda>b. \<not> ends_key b) (k @ rest) = rest"
    using k r by (cases rest; simp add: takeWhile_append dropWhile_append)+
  have "\<not> (k @ rest = [] \<or> hd (k @ rest) = 0x23 \<or> hd (k @ rest) = 0x3F \<or> hd (k @ rest) = 0x3B)" "\<not> \<not> is_print (hd (k @ rest))"
    using h by auto
  then show ?thesis unfolding read_line_key_eq Let_def l w by (simp only: if_False simp_thms)
qed

lemma read_key_line:
  assumes k: "clean_key k" and t: "clean_value t"
  shows "read_line (k @ [0x20, 0x3D, 0x20] @ t) = Setting None k (0x3F # t)"
proof -
  have v: "skip_blank (0x20 # t) = t" "value_text t = Some t" using t by (auto simp: clean_value_def skip_blank_def is_blank_def)
  have e: "\<forall>b \<in> set k. \<not> ends_key b" using k by (auto simp: clean_key_def is_blank_def ends_key_def)
  show ?thesis
  proof (cases k)
    case Nil
    have "skip_blank ([0x20, 0x3D, 0x20] @ t) = [] @ 0x3D # 0x20 # t" by (simp add: skip_blank_def is_blank_def)
    from read_line_parts [OF this] show ?thesis using Nil v by (simp add: ends_key_def is_print_def key_line_def set_line_def)
  next
    case (Cons c r)
    have c: "is_print c" "c \<notin> {0x23, 0x3F, 0x3B, 0x5B}" "\<not> is_blank c" using k Cons e by (auto simp: clean_key_def ends_key_def)
    have "skip_blank (k @ [0x20, 0x3D, 0x20] @ t) = k @ 0x20 # 0x3D # 0x20 # t" using c(3) Cons by (simp add: skip_blank_def)
    from read_line_parts [OF this e] have "read_line (k @ [0x20, 0x3D, 0x20] @ t) =
      (let p = skip_blank (0x3D # 0x20 # t) in if p \<noteq> [] \<and> hd p = 0x3D then key_line k (Some (skip_blank (tl p))) else Invalid)"
      using c Cons by (simp add: ends_key_def is_blank_def)
    moreover have "skip_blank (0x3D # 0x20 # t) = 0x3D # 0x20 # t" by (simp add: skip_blank_def is_blank_def)
    ultimately show ?thesis using c(2) v Cons by (simp add: key_line_def set_line_def)
  qed
qed

lemma read_section_line:
  assumes s: "clean_sec s"
  shows "read_line ([0x5B] @ s @ [0x5D]) = Section s"
proof -
  have e: "\<forall>b \<in> set ([0x5B] @ s @ [0x5D]). \<not> ends_key b" "0x5D \<notin> set s" using s by (auto simp: clean_sec_def is_blank_def ends_key_def)
  have "skip_blank ([0x5B] @ s @ [0x5D]) = ([0x5B] @ s @ [0x5D]) @ []" by (simp add: skip_blank_def is_blank_def)
  from read_line_parts [OF this e(1)] have "read_line ([0x5B] @ s @ [0x5D]) = key_line ([0x5B] @ s @ [0x5D]) None"
    by (simp add: is_print_def)
  moreover have "dropWhile (\<lambda>b. b \<noteq> 0x5D) (0x5B # s @ [0x5D]) = [0x5D]" "takeWhile (\<lambda>b. b \<noteq> 0x5D) (0x5B # s @ [0x5D]) = 0x5B # s"
    using e(2) by (auto simp: takeWhile_append dropWhile_append)
  ultimately show ?thesis by (simp add: key_line_def)
qed

lemma read_dump_header: "read_line (dump_header c) = Blank"
proof -
  have "bytes_of ''##### ORIGINAL FILE '' = 0x23 # bytes_of ''#### ORIGINAL FILE ''" by code_simp
  then have "dump_header c = 0x23 # bytes_of ''#### ORIGINAL FILE '' @ c_str (cc_filename c) @ bytes_of '' #####''"
    by (simp add: dump_header_def)
  then show ?thesis by (simp only: read_line_def) (simp add: skip_blank_def is_blank_def)
qed


section \<open>Reading a dump\<close>

definition dumped :: "keymap_t \<Rightarrow> byte list \<Rightarrow> byte list option" where
  "dumped km k = (case nc_find k km of Some (f # t) \<Rightarrow> Some (0x3F # t) | _ \<Rightarrow> None)"

lemma dumped_Cons:
  "dumped ((k1, v1) # km) k = (if nocase k = nocase k1 then (case v1 of [] \<Rightarrow> None | _ # t \<Rightarrow> Some (0x3F # t)) else dumped km k)"
  by (simp add: dumped_def split: list.split)

lemma values_ok_Cons:
  "values_ok b ((k, v) # km) \<longleftrightarrow> (\<forall>e \<in> set km. bytes_less (nocase k) (nocase (fst e))) \<and> values_ok b km \<and>
     (if v = [] then \<not> b else hd v \<noteq> 0 \<and> clean_key k \<and> clean_value (tl v))"
  by (auto simp: values_ok_def)

lemma key_lines_pair: "key_lines (k, v) = (if v = [] \<or> hd v = 0 then [] else [k @ [0x20, 0x3D, 0x20] @ tl v])"
  by (simp add: key_lines_def)

lemma section_lines_pair:
  "section_lines (s, km) = (if km = [] then [] else [] # ([0x5B] @ s @ [0x5D]) # concat (map key_lines km))"
  by (simp add: section_lines_def)

lemma read_keys:
  assumes "values_ok b km"
  shows "\<exists>sm'. foldl line_step (cur, sm, 0) (concat (map key_lines km)) = (cur, sm', 0) \<and>
    (\<forall>s k. stored sm' s k = (if nocase s = nocase cur then (case dumped km k of Some v \<Rightarrow> Some v | None \<Rightarrow> stored sm s k) else stored sm s k))"
  using assms
proof (induction km arbitrary: sm)
  case Nil
  show ?case by (simp add: dumped_def)
next
  case (Cons e km)
  obtain k1 v1 where e: "e = (k1, v1)" by fastforce
  have ok: "values_ok b km" and less: "\<forall>e \<in> set km. bytes_less (nocase k1) (nocase (fst e))" using Cons.prems by (simp_all add: e values_ok_Cons)
  have later: "dumped km k = None" if "nocase k = nocase k1" for k
    using nc_find_None_less [of km k] ok less that by (simp add: dumped_def values_ok_def)
  show ?case
  proof (cases v1)
    case Nil
    obtain sm' where sm': "foldl line_step (cur, sm, 0) (concat (map key_lines km)) = (cur, sm', 0)"
      "\<forall>s k. stored sm' s k = (if nocase s = nocase cur then (case dumped km k of Some v \<Rightarrow> Some v | None \<Rightarrow> stored sm s k) else stored sm s k)"
      using Cons.IH [OF ok, of sm] by blast
    have "dumped (e # km) k = (if nocase k = nocase k1 then None else dumped km k)" for k using Nil e by (simp add: dumped_Cons)
    then show ?thesis using sm' Nil e later by (intro exI [of _ sm']) (auto simp: key_lines_pair split: option.split)
  next
    case (Cons f t)
    have t: "f \<noteq> 0" "clean_key k1" "clean_value t" using Cons.prems Cons by (simp_all add: e values_ok_Cons)
    obtain sm' where sm': "foldl line_step (cur, put_value cur k1 (0x3F # t) sm, 0) (concat (map key_lines km)) = (cur, sm', 0)"
      "\<forall>s k. stored sm' s k = (if nocase s = nocase cur then (case dumped km k of Some v \<Rightarrow> Some v
         | None \<Rightarrow> stored (put_value cur k1 (0x3F # t) sm) s k) else stored (put_value cur k1 (0x3F # t) sm) s k)"
      using Cons.IH [OF ok, of "put_value cur k1 (0x3F # t) sm"] by blast
    have "line_step (cur, sm, 0) (k1 @ [0x20, 0x3D, 0x20] @ t) = (cur, put_value cur k1 (0x3F # t) sm, 0)"
      using read_key_line [OF t(2,3)] by (simp add: line_step_def)
    then have "foldl line_step (cur, sm, 0) (concat (map key_lines (e # km))) = (cur, sm', 0)"
      using sm'(1) t(1) Cons by (simp add: e key_lines_pair)
    moreover have "stored sm' s k = (if nocase s = nocase cur then (case dumped (e # km) k of Some v \<Rightarrow> Some v | None \<Rightarrow> stored sm s k) else stored sm s k)" for s k
      using sm'(2) later [of k] Cons by (auto simp: e dumped_Cons stored_put_value split: option.split)
    ultimately show ?thesis by blast
  qed
qed

lemma config_ok_Cons:
  "config_ok b ((s, km) # sm) \<longleftrightarrow> (\<forall>e \<in> set sm. bytes_less (nocase s) (nocase (fst e))) \<and> config_ok b sm \<and> clean_sec s \<and> values_ok b km"
  by (auto simp: config_ok_def)

lemma read_sections:
  assumes "config_ok b secs"
  shows "\<exists>cur' sm'. foldl line_step (cur, sm, 0) (concat (map section_lines secs)) = (cur', sm', 0) \<and>
    (\<forall>s k. stored sm' s k = (case nc_find s secs of None \<Rightarrow> stored sm s k
       | Some km \<Rightarrow> (case dumped km k of Some v \<Rightarrow> Some v | None \<Rightarrow> stored sm s k)))"
  using assms
proof (induction secs arbitrary: cur sm)
  case (Cons e secs)
  obtain s1 km where e: "e = (s1, km)" by fastforce
  have ok: "config_ok b secs" "clean_sec s1" "values_ok b km" and less: "\<forall>e \<in> set secs. bytes_less (nocase s1) (nocase (fst e))"
    using Cons.prems by (simp_all add: e config_ok_Cons)
  have later: "nc_find s secs = None" if "nocase s = nocase s1" for s
    using nc_find_None_less [of secs s] ok(1) less that by (simp add: config_ok_def)
  show ?case
  proof (cases "km = []")
    case True
    obtain cur' sm' where sm': "foldl line_step (cur, sm, 0) (concat (map section_lines secs)) = (cur', sm', 0)"
      "\<forall>s k. stored sm' s k = (case nc_find s secs of None \<Rightarrow> stored sm s k
         | Some km \<Rightarrow> (case dumped km k of Some v \<Rightarrow> Some v | None \<Rightarrow> stored sm s k))"
      using Cons.IH [OF ok(1), of cur sm] by blast
    have "dumped km k = None" for k using True by (simp add: dumped_def)
    then show ?thesis using sm' True e later by (intro exI [of _ cur'] exI [of _ sm']) (auto simp: section_lines_pair split: option.split)
  next
    case False
    let ?sm = "snd (nc_at s1 [] sm)"
    obtain sm1 where sm1: "foldl line_step (s1, ?sm, 0) (concat (map key_lines km)) = (s1, sm1, 0)"
      "\<forall>s k. stored sm1 s k = (if nocase s = nocase s1 then (case dumped km k of Some v \<Rightarrow> Some v | None \<Rightarrow> stored ?sm s k) else stored ?sm s k)"
      using read_keys [OF ok(3), of s1 ?sm] by blast
    obtain cur' sm' where sm': "foldl line_step (s1, sm1, 0) (concat (map section_lines secs)) = (cur', sm', 0)"
      "\<forall>s k. stored sm' s k = (case nc_find s secs of None \<Rightarrow> stored sm1 s k
         | Some km \<Rightarrow> (case dumped km k of Some v \<Rightarrow> Some v | None \<Rightarrow> stored sm1 s k))"
      using Cons.IH [OF ok(1), of s1 sm1] by blast
    have "read_line [] = Blank" by (simp add: read_line_def skip_blank_def)
    then have "line_step (line_step (cur, sm, 0) []) ([0x5B] @ s1 @ [0x5D]) = (s1, ?sm, 0)"
      using read_section_line [OF ok(2)] by (simp add: line_step_def)
    then have "foldl line_step (cur, sm, 0) (concat (map section_lines (e # secs))) = (cur', sm', 0)"
      using sm1(1) sm'(1) False by (simp add: e section_lines_pair)
    moreover have "stored sm' s k = (case nc_find s (e # secs) of None \<Rightarrow> stored sm s k
       | Some km \<Rightarrow> (case dumped km k of Some v \<Rightarrow> Some v | None \<Rightarrow> stored sm s k))" for s k
      using sm'(2) sm1(2) later [of s] by (auto simp: e stored_add_section split: option.split)
    ultimately show ?thesis by blast
  qed
qed simp


definition tidy :: "byte list \<Rightarrow> bool" where
  "tidy l \<longleftrightarrow> 0 \<notin> set l \<and> 0x0A \<notin> set l \<and> chop_cr l = l"

lemma tidy_Nil [simp]: "tidy []"
  by (simp add: tidy_def chop_cr_def)

lemma tidy_end: "b \<notin> {0, 0x0A, 0x0D} \<Longrightarrow> set l \<inter> {0, 0x0A} = {} \<Longrightarrow> tidy (l @ [b])"
  by (auto simp: tidy_def chop_cr_def)

lemma tidy_keys:
  assumes "values_ok b km" "l \<in> set (concat (map key_lines km))"
  shows "tidy l"
proof -
  obtain k v where kv: "(k, v) \<in> set km" "l \<in> set (key_lines (k, v))" using assms(2) by auto
  then obtain f t where t: "v = f # t" "l = k @ [0x20, 0x3D, 0x20] @ t" by (cases v) (auto simp: key_lines_pair split: if_splits)
  have "clean_key k" "clean_value t" using assms(1) kv(1) t(1) by (auto simp: values_ok_def dest!: bspec [of "set km" _ "(k, v)"])
  then show ?thesis using t(2) by (cases t rule: rev_cases) (auto simp: tidy_def chop_cr_def clean_key_def clean_value_def)
qed

lemma tidy_sections:
  assumes "config_ok b sm" "l \<in> set (concat (map section_lines sm))"
  shows "tidy l"
proof -
  obtain s km where s: "(s, km) \<in> set sm" "l \<in> set (section_lines (s, km))" using assms(2) by auto
  have ok: "clean_sec s" "values_ok b km" using assms(1) s(1) by (auto simp: config_ok_def)
  have "tidy (0x5B # s @ [0x5D])" using tidy_end [of "0x5D" "0x5B # s"] ok(1) by (auto simp: clean_sec_def)
  then show ?thesis using s(2) tidy_keys [OF ok(2)] by (auto simp: section_lines_pair split: if_splits)
qed

lemma tidy_header: "0x0A \<notin> set (c_str (cc_filename c)) \<Longrightarrow> tidy (dump_header c)"
proof -
  assume f: "0x0A \<notin> set (c_str (cc_filename c))"
  have "set (bytes_of ''##### ORIGINAL FILE '') \<inter> {0, 0x0A} = {}" "set (bytes_of '' ####'') \<inter> {0, 0x0A} = {}"
    "bytes_of '' #####'' = bytes_of '' ####'' @ [0x23]" by code_simp+
  moreover have "0 \<notin> set (c_str (cc_filename c))" by (auto simp: c_str_def dest: set_takeWhileD)
  ultimately show ?thesis
    using f tidy_end [of "0x23" "bytes_of ''##### ORIGINAL FILE '' @ c_str (cc_filename c) @ bytes_of '' ####''"]
    by (auto simp: dump_header_def)
qed

lemma lines_of_terminated:
  assumes "\<forall>l \<in> set ls. tidy l"
  shows "config_lines (c_str (terminated ls)) = ls"
proof -
  have "0 \<notin> set (terminated ls)" using assms by (auto simp: tidy_def)
  moreover have "map chop_cr ls = ls" using assms by (simp add: tidy_def map_idI)
  moreover have "config_lines (terminated ls) = map chop_cr ls" using assms by (intro config_lines_terminated) (auto simp: tidy_def)
  ultimately show ?thesis by simp
qed

definition new_config :: core_config where
  "new_config = \<lparr>cc_filename = [], cc_smap = []\<rparr>"

definition ask :: "(byte list \<times> byte list) list \<Rightarrow> core_config \<Rightarrow> core_config" where
  "ask qs c = foldl (\<lambda>c q. snd (GetStrVal (fst q) (snd q) c)) c qs"

lemma stored_asked:
  "stored (cc_smap (snd (GetStrVal s' k' c))) s k =
    (if nocase s = nocase s' \<and> nocase k = nocase k'
     then (case stored (cc_smap c) s k of Some (_ # t) \<Rightarrow> Some (0x20 # t) | _ \<Rightarrow> Some []) else stored (cc_smap c) s k)"
proof -
  have "nc_find s m = nc_find s' m" if "nocase s = nocase s'" for m :: secmap_t using nc_find_cong [OF that] .
  moreover have "nc_find k m = nc_find k' m" if "nocase k = nocase k'" for m :: keymap_t using nc_find_cong [OF that] .
  ultimately show ?thesis
    by (auto simp: GetStrVal_def nc_at_def stored_def Let_def nc_find_put split: option.split list.split prod.split)
qed

lemma ask_keeps: "fst (GetStrVal s k (ask qs c)) = fst (GetStrVal s k c)"
proof (induction qs arbitrary: c)
  case (Cons q qs)
  have "fst (GetStrVal s k (snd (GetStrVal (fst q) (snd q) c))) = fst (GetStrVal s k c)"
    by (auto simp: GetStrVal_stored stored_asked split: option.split list.split)
  then show ?case using Cons by (simp add: ask_def)
qed (simp add: ask_def)

lemma ask_config_ok:
  "config_ok False (cc_smap c) \<Longrightarrow> \<forall>q \<in> set qs. clean_sec (fst q) \<Longrightarrow>
   config_ok False (cc_smap (ask qs c)) \<and> cc_filename (ask qs c) = cc_filename c"
proof (induction qs arbitrary: c)
  case (Cons q qs)
  have "config_ok False (cc_smap (snd (GetStrVal (fst q) (snd q) c)))" using ask_ok Cons.prems by simp
  moreover have "cc_filename (snd (GetStrVal (fst q) (snd q) c)) = cc_filename c"
    by (simp add: GetStrVal_def Let_def split: prod.split list.split)
  ultimately show ?case using Cons.IH Cons.prems(2) by (simp add: ask_def)
qed (simp add: ask_def)

lemma c_str_again: "c_str (c_str g) = c_str g"
  by (simp add: c_str_def)

lemma read_dump:
  assumes ok: "config_ok b (cc_smap c)" and f: "c_str g \<noteq> []" "0x0A \<notin> set (c_str (cc_filename c))"
  shows "\<exists>c2. ParseConfig (\<lambda>_. Some (Dump False c)) (Some g) None new_config = (0, c2) \<and>
    (\<forall>s k. fst (GetStrVal s k c2) = fst (GetStrVal s k c))"
proof -
  let ?ls = "dump_header c # concat (map section_lines (cc_smap c))"
  have "\<forall>l \<in> set ?ls. tidy l" using tidy_header [OF f(2)] tidy_sections [OF ok] by auto
  from lines_of_terminated [OF this] have lines: "config_lines (c_str (Dump False c)) = ?ls" by (simp only: Dump_lines [OF ok])
  obtain cur' sm' where sm': "foldl line_step ([], [([], [])], 0) (concat (map section_lines (cc_smap c))) = (cur', sm', 0)"
    "\<forall>s k. stored sm' s k = (case nc_find s (cc_smap c) of None \<Rightarrow> stored [([], [])] s k
       | Some km \<Rightarrow> (case dumped km k of Some v \<Rightarrow> Some v | None \<Rightarrow> stored [([], [])] s k))"
    using read_sections [OF ok, of "[]" "[([], [])]"] by blast
  have "line_step ([], [([], [])], 0) (dump_header c) = ([], [([], [])], 0)" by (simp add: line_step_def read_dump_header)
  then have "ParseConfig (\<lambda>_. Some (Dump False c)) (Some g) None new_config = (0, \<lparr>cc_filename = c_str g, cc_smap = sm'\<rparr>)"
    using f(1) lines sm'(1) by (simp add: ParseConfig_def new_config_def nc_at_def Let_def c_str_again)
  moreover have "stored [([], [])] s k = None" for s k by (simp add: stored_def)
  then have "fst (GetStrVal s k \<lparr>cc_filename = c_str g, cc_smap = sm'\<rparr>) = fst (GetStrVal s k c)" for s k
    using sm'(2) by (auto simp: GetStrVal_stored stored_def [of "cc_smap c"] dumped_def split: option.split list.split)
  ultimately show ?thesis by blast
qed

text \<open>C16: A file of settings, once read, survives being written and read again: whatever has been asked for in between, the dump
  is read without an error, and every key of every section has the value that it had. The file must not use the form
  \<open>[section].key = value\<close> or carriage returns.\<close>

theorem dumped_settings_read_back:
  assumes "c_str f \<noteq> []" "0x0A \<notin> set (c_str f)" "files (c_str f) = Some buf"
    and "\<forall>l \<in> set (config_lines (c_str buf)). plain_line l" "\<forall>q \<in> set qs. clean_sec (fst q)"
    and "ParseConfig files (Some f) None new_config = (r, c)"
  shows "\<exists>c2. ParseConfig (\<lambda>_. Some (Dump False (ask qs c))) (Some f) None new_config = (0, c2) \<and>
    (\<forall>s k. fst (GetStrVal s k c2) = fst (GetStrVal s k c))"
proof -
  obtain cur sm where st: "foldl line_step ([], [([], [])], 0) (config_lines (c_str buf)) = (cur, sm, r)"
    "c = \<lparr>cc_filename = c_str f, cc_smap = sm\<rparr>"
    using assms(1,3,6) by (auto simp: ParseConfig_def new_config_def nc_at_def Let_def c_str_def split: prod.splits)
  have "set l \<inter> {0, 0x0A} = {}" if "l \<in> set (config_lines (c_str buf))" for l
    using config_lines_set [OF that] by (auto simp: c_str_def dest: set_takeWhileD)
  then have "config_ok True sm" using lines_ok [of "[([], [])]" "[]" "config_lines (c_str buf)" 0] assms(4) st(1)
    by (auto simp: config_ok_def clean_sec_def)
  then have "config_ok False (cc_smap c)" using st(2) by (fastforce simp: config_ok_def values_ok_def split: if_splits)
  from ask_config_ok [OF this assms(5)] have ok: "config_ok False (cc_smap (ask qs c))" "cc_filename (ask qs c) = c_str f"
    using st(2) by simp_all
  then show ?thesis using read_dump [OF ok(1) assms(1)] assms(2) by (simp add: ask_keeps c_str_again)
qed

definition ex_settings :: "byte list" where
  "ex_settings = bytes_of ''# the server'' @ [0x0A] @ bytes_of ''[Net]'' @ [0x0A] @ bytes_of ''port = 7000'' @ [0x0A] @
     bytes_of ''Name= (a b)  '' @ [0x0A] @ bytes_of ''[log]'' @ [0x0A] @ bytes_of ''level='' @ [0x0A]"

theorem dumped_settings_read_back_witness:
  "\<exists>r c c2. ParseConfig (\<lambda>_. Some ex_settings) (Some (bytes_of ''a.conf'')) None new_config = (r, c) \<and>
     ParseConfig (\<lambda>_. Some (Dump False (ask [(bytes_of ''net'', bytes_of ''PORT''), (bytes_of ''x'', bytes_of ''y'')] c)))
       (Some (bytes_of ''a.conf'')) None new_config = (0, c2) \<and>
     (\<forall>s k. fst (GetStrVal s k c2) = fst (GetStrVal s k c))"
proof -
  obtain r c where rc: "ParseConfig (\<lambda>_. Some ex_settings) (Some (bytes_of ''a.conf'')) None new_config = (r, c)" by fastforce
  have f: "c_str (bytes_of ''a.conf'') \<noteq> []" "0x0A \<notin> set (c_str (bytes_of ''a.conf''))" by code_simp+
  have l: "\<forall>l \<in> set (config_lines (c_str ex_settings)). plain_line l" by code_simp
  have s: "\<forall>q \<in> set [(bytes_of ''net'', bytes_of ''PORT''), (bytes_of ''x'', bytes_of ''y'')]. clean_sec (fst q)" by code_simp
  show ?thesis using dumped_settings_read_back [OF f refl l s rc] rc by blast
qed

end
