(* ===== verification/MemCheck.thy ===== *)
theory MemCheck
  imports Prelude "HOL-Library.Multiset"
begin

text \<open>
  The memory statistics of the core library (\<open>core/memcheck.cpp\<close>, built with \<open>MEMCHECK\<close>): every block that is allocated is
  entered in a hash table, with its size and the place in the source, and taken out when it is freed. \<open>malloc\<close> and the like are
  arguments: the address they give, or 0. The lock around each function makes the calls follow one after the other. The slots of
  the free list carry nothing, so it is their number; the entries of the log are not kept.
\<close>

section \<open>State\<close>

definition HASHBASE :: nat where "HASHBASE = 4097"

type_synonym location = "nat \<times> int"

record mem_slot =
  sl_ptr :: nat
  sl_size :: nat
  sl_loc :: location

record memcheck =
  mc_free :: nat
  mc_used :: "mem_slot list list"
  mc_bypass :: bool
  mc_total :: u64
  mc_max :: u64

definition new_memcheck :: memcheck where
  "new_memcheck = \<lparr>mc_free = 0, mc_used = replicate HASHBASE [], mc_bypass = False, mc_total = 0, mc_max = 0\<rparr>"

section \<open>The table\<close>

definition add_ptr :: "nat \<Rightarrow> nat \<Rightarrow> location \<Rightarrow> memcheck \<Rightarrow> memcheck" where
  "add_ptr p sz loc m =
     (let n = p mod HASHBASE;
          used = (mc_used m)[n := \<lparr>sl_ptr = p, sl_size = sz, sl_loc = loc\<rparr> # mc_used m ! n];
          total = mc_total m + of_nat sz
      in m\<lparr>mc_free := mc_free m - 1, mc_used := used, mc_total := total, mc_max := (if total > mc_max m then total else mc_max m)\<rparr>)"

text \<open>The slot found in a chain, and the chain without it.\<close>

fun unlink_slot :: "nat \<Rightarrow> mem_slot list \<Rightarrow> (mem_slot \<times> mem_slot list) option" where
  "unlink_slot p [] = None"
| "unlink_slot p (s # ss) = (if sl_ptr s = p then Some (s, ss) else map_option (\<lambda>(t, r). (t, s # r)) (unlink_slot p ss))"

definition del_ptr :: "nat \<Rightarrow> memcheck \<Rightarrow> memcheck" where
  "del_ptr p m =
     (let n = p mod HASHBASE
      in case unlink_slot p (mc_used m ! n) of
           None \<Rightarrow> m
         | Some (s, r) \<Rightarrow> m\<lparr>mc_total := mc_total m - of_nat (sl_size s), mc_used := (mc_used m)[n := r], mc_free := mc_free m + 1\<rparr>)"

text \<open>The report: how many blocks are left from each place, places in order.\<close>

definition loc_less :: "location \<Rightarrow> location \<Rightarrow> bool" where
  "loc_less a b \<longleftrightarrow> fst a < fst b \<or> fst a = fst b \<and> snd a < snd b"

fun bump :: "location \<Rightarrow> (location \<times> u32) list \<Rightarrow> (location \<times> u32) list" where
  "bump l [] = [(l, 1)]"
| "bump l ((k, n) # m) =
     (if loc_less l k then (l, 1) # (k, n) # m
      else if loc_less k l then (k, n) # bump l m
      else (k, n + 1) # m)"

definition dump_non_delete :: "memcheck \<Rightarrow> (location \<times> u32) list \<times> memcheck" where
  "dump_non_delete m =
     (foldl (\<lambda>r s. bump (sl_loc s) r) [] (concat (mc_used m)),
      m\<lparr>mc_bypass := True, mc_free := 0, mc_used := replicate (length (mc_used m)) []\<rparr>)"

definition count_alloc_size :: "memcheck \<Rightarrow> u64" where
  "count_alloc_size m = mc_total m"

section \<open>Allocating and freeing\<close>

text \<open>\<open>p\<close> is what \<open>malloc\<close>, \<open>calloc\<close>, \<open>realloc\<close> or \<open>strdup\<close> gives.\<close>

definition allocated :: "nat \<Rightarrow> nat \<Rightarrow> location \<Rightarrow> memcheck \<Rightarrow> memcheck" where
  "allocated p sz loc m = (if mc_bypass m \<or> p = 0 then m else add_ptr p sz loc m)"

definition operator_new :: "nat \<Rightarrow> nat \<Rightarrow> nat \<Rightarrow> memcheck \<Rightarrow> nat \<times> memcheck" where
  "operator_new p sz ret m = (p, allocated p sz (ret, 0) m)"

definition operator_delete :: "nat \<Rightarrow> memcheck \<Rightarrow> memcheck" where
  "operator_delete p m = (if \<not> mc_bypass m \<and> p \<noteq> 0 then del_ptr p m else m)"

definition malloc_debug :: "nat \<Rightarrow> nat \<Rightarrow> nat \<Rightarrow> int \<Rightarrow> memcheck \<Rightarrow> nat \<times> memcheck" where
  "malloc_debug p sz fn ln m = (p, allocated p sz (fn, ln) m)"

definition calloc_debug :: "nat \<Rightarrow> nat \<Rightarrow> nat \<Rightarrow> nat \<Rightarrow> int \<Rightarrow> memcheck \<Rightarrow> nat \<times> memcheck" where
  "calloc_debug p sz nmem fn ln m = (p, allocated p (sz * nmem mod 2 ^ 64) (fn, ln) m)"

definition realloc_debug :: "nat \<Rightarrow> nat \<Rightarrow> nat \<Rightarrow> nat \<Rightarrow> int \<Rightarrow> memcheck \<Rightarrow> nat \<times> memcheck" where
  "realloc_debug p old sz fn ln m = (p, if mc_bypass m \<or> p = 0 then m else add_ptr p sz (fn, ln) (del_ptr old m))"

definition strdup_debug :: "nat \<Rightarrow> byte list \<Rightarrow> nat \<Rightarrow> int \<Rightarrow> memcheck \<Rightarrow> nat \<times> memcheck" where
  "strdup_debug p text fn ln m = (p, allocated p (length text + 1) (fn, ln) m)"

definition free_debug :: "nat \<Rightarrow> memcheck \<Rightarrow> memcheck" where
  "free_debug p m = (if \<not> mc_bypass m \<and> p \<noteq> 0 then del_ptr p m else m)"

section \<open>The blocks that are alive\<close>

text \<open>A call of the library, with the address it gets; and the blocks in use, by address.\<close>

datatype call =
    New nat nat nat
  | Delete nat
  | Malloc nat nat location
  | Calloc nat nat nat location
  | Realloc nat nat nat location
  | Strdup nat "byte list" location
  | Free nat

definition mc_step :: "call \<Rightarrow> memcheck \<Rightarrow> memcheck" where
  "mc_step c m = (case c of
     New p n ret \<Rightarrow> snd (operator_new p n ret m)
   | Delete p \<Rightarrow> operator_delete p m
   | Malloc p n l \<Rightarrow> snd (malloc_debug p n (fst l) (snd l) m)
   | Calloc p n k l \<Rightarrow> snd (calloc_debug p n k (fst l) (snd l) m)
   | Realloc p old n l \<Rightarrow> snd (realloc_debug p old n (fst l) (snd l) m)
   | Strdup p s l \<Rightarrow> snd (strdup_debug p s (fst l) (snd l) m)
   | Free p \<Rightarrow> free_debug p m)"

type_synonym live = "(nat \<times> nat \<times> location) list"

definition live_add :: "nat \<Rightarrow> nat \<Rightarrow> location \<Rightarrow> live \<Rightarrow> live" where
  "live_add p n l bs = (if p = 0 then bs else (p, n, l) # bs)"

definition live_del :: "nat \<Rightarrow> live \<Rightarrow> live" where
  "live_del p bs = filter (\<lambda>b. fst b \<noteq> p) bs"

definition live_step :: "call \<Rightarrow> live \<Rightarrow> live" where
  "live_step c bs = (case c of
     New p n ret \<Rightarrow> live_add p n (ret, 0) bs
   | Delete p \<Rightarrow> live_del p bs
   | Malloc p n l \<Rightarrow> live_add p n l bs
   | Calloc p n k l \<Rightarrow> live_add p (n * k) l bs
   | Realloc p old n l \<Rightarrow> if p = 0 then bs else live_add p n l (live_del old bs)
   | Strdup p s l \<Rightarrow> live_add p (length s + 1) l bs
   | Free p \<Rightarrow> live_del p bs)"

text \<open>What the allocator guarantees: a block it gives is not in use, and nothing is 0.\<close>

definition fresh :: "nat \<Rightarrow> live \<Rightarrow> bool" where
  "fresh p bs \<longleftrightarrow> p \<notin> fst ` set bs"

fun call_ok :: "call \<Rightarrow> live \<Rightarrow> bool" where
  "call_ok (New p n ret) bs = fresh p bs"
| "call_ok (Delete p) bs = True"
| "call_ok (Malloc p n l) bs = fresh p bs"
| "call_ok (Calloc p n k l) bs = (fresh p bs \<and> n * k < 2 ^ 64)"
| "call_ok (Realloc p old n l) bs = (fresh p (live_del old bs) \<and> n \<noteq> 0)"
| "call_ok (Strdup p s l) bs = fresh p bs"
| "call_ok (Free p) bs = True"

fun calls_ok :: "call list \<Rightarrow> live \<Rightarrow> bool" where
  "calls_ok [] bs = True"
| "calls_ok (c # cs) bs = (call_ok c bs \<and> calls_ok cs (live_step c bs))"

definition left_from :: "location \<Rightarrow> live \<Rightarrow> nat" where
  "left_from l bs = length (filter (\<lambda>b. snd (snd b) = l) bs)"


section \<open>The table holds the blocks that are alive\<close>

definition tuple_of :: "mem_slot \<Rightarrow> nat \<times> nat \<times> location" where
  "tuple_of s = (sl_ptr s, sl_size s, sl_loc s)"

definition mc_ok :: "memcheck \<Rightarrow> live \<Rightarrow> bool" where
  "mc_ok m bs \<longleftrightarrow> \<not> mc_bypass m \<and> length (mc_used m) = HASHBASE \<and>
     (\<forall>n < HASHBASE. \<forall>s \<in> set (mc_used m ! n). sl_ptr s mod HASHBASE = n) \<and>
     image_mset tuple_of (mset (concat (mc_used m))) = mset bs \<and> distinct (map fst bs) \<and> 0 \<notin> fst ` set bs \<and>
     mc_total m = of_nat (sum_list (map (\<lambda>b. fst (snd b)) bs))"

lemma HASHBASE_mod [simp]: "p mod HASHBASE < HASHBASE"
  by (simp add: HASHBASE_def)

lemma mset_concat_update:
  "n < length xs \<Longrightarrow> mset (concat (xs[n := ys])) + mset (xs ! n) = mset (concat xs) + mset ys"
proof (induction xs arbitrary: n)
  case (Cons x xs)
  show ?case
  proof (cases n)
    case 0
    then show ?thesis by (simp add: ac_simps)
  next
    case (Suc k)
    then show ?thesis using Cons.IH [of k] Cons.prems by (simp add: add.assoc)
  qed
qed simp

lemma add_ptr_ok:
  assumes ok: "mc_ok m bs" and p: "fresh p bs" "p \<noteq> 0"
  shows "mc_ok (add_ptr p n l m) ((p, n, l) # bs)"
proof -
  let ?i = "p mod HASHBASE" and ?s = "\<lparr>sl_ptr = p, sl_size = n, sl_loc = l\<rparr>"
  have len: "?i < length (mc_used m)" using ok by (simp add: mc_ok_def)
  have "mset (concat ((mc_used m)[?i := ?s # mc_used m ! ?i])) = add_mset ?s (mset (concat (mc_used m)))"
    using mset_concat_update [OF len, of "?s # mc_used m ! ?i"] by simp
  then show ?thesis using ok p len
    by (auto simp: mc_ok_def add_ptr_def Let_def tuple_of_def fresh_def nth_list_update)
qed

lemma unlink_slot_None: "unlink_slot p ss = None \<longleftrightarrow> p \<notin> sl_ptr ` set ss"
  by (induction ss) auto

lemma unlink_slot_Some: "unlink_slot p ss = Some (s, r) \<Longrightarrow> sl_ptr s = p \<and> mset ss = add_mset s (mset r)"
  by (induction ss arbitrary: r) (auto split: if_splits)

lemma live_del_absent: "p \<notin> fst ` set bs \<Longrightarrow> live_del p bs = bs"
  by (auto simp: live_del_def filter_id_conv)

lemma live_del_present:
  assumes "(p, n, l) \<in> set bs" "distinct (map fst bs)"
  shows "mset bs = add_mset (p, n, l) (mset (live_del p bs))" "distinct (map fst (live_del p bs))"
proof -
  show "distinct (map fst (live_del p bs))" using assms(2) by (auto simp: live_del_def distinct_map inj_on_def)
  show "mset bs = add_mset (p, n, l) (mset (live_del p bs))" using assms
  proof (induction bs)
    case (Cons b bs)
    show ?case
    proof (cases "b = (p, n, l)")
      case True
      then have "p \<notin> fst ` set bs" using Cons.prems(2) by auto
      then have "live_del p bs = bs" by (rule live_del_absent)
      then show ?thesis using True by (simp add: live_del_def)
    next
      case False
      then have inb: "(p, n, l) \<in> set bs" using Cons.prems(1) by auto
      then have "p \<in> fst ` set bs" by force
      then have "fst b \<noteq> p" using Cons.prems(2) by auto
      then show ?thesis using Cons.IH [OF inb] Cons.prems(2) by (simp add: live_del_def)
    qed
  qed simp
qed

lemma del_ptr_ok:
  assumes ok: "mc_ok m bs"
  shows "mc_ok (del_ptr p m) (live_del p bs)"
proof -
  let ?i = "p mod HASHBASE"
  have len: "?i < length (mc_used m)" using ok by (simp add: mc_ok_def)
  have ms: "image_mset tuple_of (mset (concat (mc_used m))) = mset bs" and d: "distinct (map fst bs)" using ok by (simp_all add: mc_ok_def)
  have tuples: "tuple_of ` set (concat (mc_used m)) = set bs" using ms by (metis set_image_mset set_mset_mset)
  show ?thesis
  proof (cases "unlink_slot p (mc_used m ! ?i)")
    case None
    have "p \<notin> fst ` set bs"
    proof
      assume "p \<in> fst ` set bs"
      then obtain s where s: "s \<in> set (concat (mc_used m))" "sl_ptr s = p"
        unfolding tuples [symmetric] image_image by (metis (no_types, lifting) fst_conv imageE tuple_of_def)
      then obtain j where j: "j < length (mc_used m)" "s \<in> set (mc_used m ! j)" by (auto simp: in_set_conv_nth [of _ "mc_used m"])
      then have "j = ?i" using ok s(2) by (auto simp: mc_ok_def)
      then show False using None j(2) s(2) by (auto simp: unlink_slot_None)
    qed
    then show ?thesis using ok None by (simp add: del_ptr_def live_del_absent)
  next
    case (Some sr)
    obtain s r where sr: "sr = (s, r)" by fastforce
    have u: "sl_ptr s = p" "mset (mc_used m ! ?i) = add_mset s (mset r)" using unlink_slot_Some Some sr by auto
    have "mset (concat ((mc_used m)[?i := r])) + add_mset s (mset r) = mset (concat (mc_used m)) + mset r"
      using mset_concat_update [OF len, of r] u(2) by simp
    then have c: "mset (concat (mc_used m)) = add_mset s (mset (concat ((mc_used m)[?i := r])))"
      by (metis add_mset_add_single add.assoc add.commute add_right_cancel)
    then have "tuple_of s \<in> set bs" using tuples by (metis image_eqI set_mset_mset union_single_eq_member)
    then have in_bs: "(p, sl_size s, sl_loc s) \<in> set bs" using u(1) by (simp add: tuple_of_def)
    note l = live_del_present [OF in_bs d]
    have ms': "image_mset tuple_of (mset (concat ((mc_used m)[?i := r]))) = mset (live_del p bs)"
      using ms c l(1) u(1) by (simp add: tuple_of_def)
    have "sum_list (map (\<lambda>b. fst (snd b)) bs) = sl_size s + sum_list (map (\<lambda>b. fst (snd b)) (live_del p bs))"
      using arg_cong [OF l(1), of "\<lambda>x. sum_mset (image_mset (\<lambda>b. fst (snd b)) x)"] by (simp add: sum_mset_sum_list [symmetric] del: sum_mset_sum_list)
    then have tot: "mc_total m - of_nat (sl_size s) = of_nat (sum_list (map (\<lambda>b. fst (snd b)) (live_del p bs)))"
      using ok by (simp add: mc_ok_def)
    have "set r \<subseteq> set (mc_used m ! ?i)" using u(2) by (metis set_mset_mset set_mset_add_mset_insert subset_insertI)
    then show ?thesis using ok Some sr len ms' tot l(2)
      by (auto simp: mc_ok_def del_ptr_def Let_def nth_list_update live_del_def)
  qed
qed

lemma mc_step_ok:
  assumes ok: "mc_ok m bs" and c: "call_ok c bs"
  shows "mc_ok (mc_step c m) (live_step c bs)"
proof -
  have bp: "\<not> mc_bypass m" using ok by (simp add: mc_ok_def)
  have add: "mc_ok (allocated p n l m) (live_add p n l bs)" if "fresh p bs" for p n l
    using that ok bp by (auto simp: allocated_def live_add_def intro: add_ptr_ok)
  have del: "mc_ok (if \<not> mc_bypass m \<and> p \<noteq> 0 then del_ptr p m else m) (live_del p bs)" for p
    using ok bp del_ptr_ok [OF ok, of p] by (auto simp: mc_ok_def live_del_absent)
  have re: "mc_ok (add_ptr p n l (del_ptr old m)) (live_add p n l (live_del old bs))" if "fresh p (live_del old bs)" "p \<noteq> 0" for p n l old
    using add_ptr_ok [OF del_ptr_ok [OF ok] that] that(2) by (simp add: live_add_def)
  show ?thesis
  proof (cases c)
    case (Realloc p old n l)
    then show ?thesis using c re bp ok by (simp add: mc_step_def live_step_def realloc_debug_def)
  next
    case (Calloc p n k l)
    then show ?thesis using c add by (simp add: mc_step_def live_step_def calloc_debug_def)
  qed (use c add del in \<open>auto simp: mc_step_def live_step_def operator_new_def operator_delete_def malloc_debug_def strdup_debug_def free_debug_def simp del: One_nat_def\<close>)
qed

lemma mc_steps_ok: "mc_ok m bs \<Longrightarrow> calls_ok cs bs \<Longrightarrow> mc_ok (fold mc_step cs m) (fold live_step cs bs)"
  by (induction cs arbitrary: m bs) (auto intro: mc_step_ok)

lemma new_memcheck_ok: "mc_ok new_memcheck []"
  by (simp add: mc_ok_def new_memcheck_def)

section \<open>The report\<close>

lemma loc_less_trans: "loc_less a b \<Longrightarrow> loc_less b c \<Longrightarrow> loc_less a c"
  by (auto simp: loc_less_def)

lemma loc_less_irrefl [simp]: "\<not> loc_less a a"
  by (simp add: loc_less_def)

lemma loc_less_total: "\<not> loc_less a b \<Longrightarrow> \<not> loc_less b a \<Longrightarrow> a = b"
  by (auto simp: loc_less_def prod_eq_iff)

abbreviation in_order :: "(location \<times> u32) list \<Rightarrow> bool" where
  "in_order m \<equiv> sorted_wrt loc_less (map fst m)"

lemma bump_keys: "fst ` set (bump l m) = insert l (fst ` set m)"
  by (induction l m rule: bump.induct) (auto dest: loc_less_total)

lemma bump_in_order: "in_order m \<Longrightarrow> in_order (bump l m)"
proof (induction l m rule: bump.induct)
  case (2 l k n m)
  then show ?case using bump_keys [of l m] by (auto intro: loc_less_trans)
qed simp

lemma map_of_bump:
  "in_order m \<Longrightarrow> map_of (bump l m) = (map_of m)(l \<mapsto> (case map_of m l of None \<Rightarrow> 1 | Some n \<Rightarrow> n + 1))"
proof (induction l m rule: bump.induct)
  case (2 l k n m)
  consider "loc_less l k" | "\<not> loc_less l k" "loc_less k l" | "l = k" using loc_less_total by blast
  then show ?case
  proof cases
    case 1
    then have "l \<notin> fst ` set ((k, n) # m)" using "2.prems" by (auto dest: loc_less_trans)
    then have "map_of ((k, n) # m) l = None" by (simp only: map_of_eq_None_iff not_False_eq_True)
    then show ?thesis using 1 by (simp only: bump.simps if_True map_of.simps option.case fst_conv snd_conv)
  next
    case 2
    then have "l \<noteq> k" by auto
    then show ?thesis using 2 "2.IH" "2.prems" by (auto simp: fun_eq_iff)
  next
    case 3
    then show ?thesis by (simp add: fun_eq_iff)
  qed
qed simp

definition counted :: "nat \<Rightarrow> u32 option" where
  "counted n = (if n = 0 then None else Some (of_nat n))"

lemma report_counts:
  "in_order (foldl (\<lambda>r s. bump (sl_loc s) r) [] ss) \<and>
   map_of (foldl (\<lambda>r s. bump (sl_loc s) r) [] ss) l = counted (length (filter (\<lambda>s. sl_loc s = l) ss))"
proof (induction ss rule: rev_induct)
  case (snoc s ss)
  then show ?case by (auto simp: bump_in_order map_of_bump counted_def add.commute)
qed (simp add: counted_def)

lemma left_from_slots:
  assumes "image_mset tuple_of (mset ss) = mset bs"
  shows "length (filter (\<lambda>s. sl_loc s = l) ss) = left_from l bs"
proof -
  have "left_from l bs = size (filter_mset (\<lambda>b. snd (snd b) = l) (mset bs))"
    by (simp add: left_from_def mset_filter [symmetric] del: mset_filter)
  also have "\<dots> = length (filter (\<lambda>s. sl_loc s = l) ss)"
    unfolding assms [symmetric] by (simp add: filter_mset_image_mset tuple_of_def comp_def mset_filter [symmetric] del: mset_filter)
  finally show ?thesis by simp
qed

text \<open>
  C29: With the calls made on a program that starts with an empty table, and an allocator that gives no block twice, the size
  counted is the size of the blocks that are alive (modulo the width of the counter) and the report at the end names, in order, just
  the places that still hold blocks, with the number of them; after it nothing is counted any more. A \<open>realloc\<close> to size 0, whose
  result depends on the implementation, and a \<open>calloc\<close> of \<open>2 ^ 64\<close> bytes or more, are not among the calls.
\<close>

theorem memory_counted:
  assumes "calls_ok cs []"
  shows "count_alloc_size (fold mc_step cs new_memcheck) = of_nat (sum_list (map (\<lambda>b. fst (snd b)) (fold live_step cs []))) \<and>
    sorted_wrt loc_less (map fst (fst (dump_non_delete (fold mc_step cs new_memcheck)))) \<and>
    map_of (fst (dump_non_delete (fold mc_step cs new_memcheck))) l =
      (if left_from l (fold live_step cs []) = 0 then None else Some (of_nat (left_from l (fold live_step cs [])))) \<and>
    concat (mc_used (snd (dump_non_delete (fold mc_step cs new_memcheck)))) = []"
proof -
  let ?m = "fold mc_step cs new_memcheck" and ?bs = "fold live_step cs []"
  have ok: "mc_ok ?m ?bs" using mc_steps_ok [OF new_memcheck_ok assms] .
  then have "left_from l ?bs = length (filter (\<lambda>s. sl_loc s = l) (concat (mc_used ?m)))" by (simp add: mc_ok_def left_from_slots)
  then show ?thesis using ok report_counts [of "concat (mc_used ?m)" l]
    by (simp add: dump_non_delete_def counted_def count_alloc_size_def mc_ok_def)
qed

definition a_program :: "call list" where
  "a_program = [New 4096 16 77, Malloc 8193 10 (5, 12), Malloc 8200 20 (5, 12), Free 4096, Realloc 12288 8193 30 (6, 1), Delete 0]"

theorem memory_counted_witness:
  "calls_ok a_program [] \<and> count_alloc_size (fold mc_step a_program new_memcheck) = 50 \<and>
   map_of (fst (dump_non_delete (fold mc_step a_program new_memcheck))) (5, 12) = Some 1"
proof -
  have ok: "calls_ok a_program []" by (simp add: a_program_def fresh_def live_step_def live_add_def live_del_def)
  have l: "fold live_step a_program [] = [(12288, 30, (6, 1)), (8200, 20, (5, 12))]"
    by (simp add: a_program_def live_step_def live_add_def live_del_def)
  show ?thesis using memory_counted [OF ok, of "(5, 12)"] ok by (simp add: l left_from_def)
qed

end
