(* ===== verification/TmTask.thy ===== *)
theory TmTask
  imports CText Services
begin

text \<open>
  The time task of the core library (\<open>core/tm_task.cpp\<close>): a process that writes the time into a file mapped by the processes that
  want to know it. The files, by name, hold one \<open>time_mgr\<close> each. The writer and a reader of each of the two values run side by side, and
  their accesses to the shared memory follow one another in any order: a step relation.
\<close>

section \<open>The file\<close>

record time_mgr =
  tm_sec :: int
  tm_usec :: int
  tm_tm :: int
  tm_fag :: u32
  tval_fag :: u32
  tm_pid :: int

definition zero_mgr :: time_mgr where
  "zero_mgr = \<lparr>tm_sec = 0, tm_usec = 0, tm_tm = 0, tm_fag = 0, tval_fag = 0, tm_pid = 0\<rparr>"

type_synonym tm_files = "string \<Rightarrow> time_mgr option"

text \<open>What the system calls answer: \<open>open\<close> for an existing file, \<open>open\<close> with \<open>O_CREAT\<close>, and whether \<open>mmap\<close> works.\<close>

record tm_sys =
  ts_open_ro :: "string \<Rightarrow> int"
  ts_open_rw :: "string \<Rightarrow> int"
  ts_mmap :: "string \<Rightarrow> bool"

text \<open>
  \<open>map_file\<close> for the size of a \<open>time_mgr\<close>: the file that is mapped, if any, and \<open>f_new\<close>. A file that is created is filled with zeros by
  \<open>ftruncate\<close>. The mapping without a file names neither \<open>MAP_SHARED\<close> nor \<open>MAP_PRIVATE\<close>, which the kernel refuses.
\<close>

definition map_file :: "tm_sys \<Rightarrow> string \<Rightarrow> tm_files \<Rightarrow> string option \<times> bool \<times> tm_files" where
  "map_file sys name fs =
     (let t_fd = (if fs name = None then - 1 else ts_open_ro sys name);
          f_new = (\<not> t_fd > 0);
          fd = ts_open_rw sys name
      in if fd \<ge> 0
         then (if ts_mmap sys name then Some name else None, f_new, if fs name = None then fs(name \<mapsto> zero_mgr) else fs)
         else (None, f_new, fs))"

text \<open>The command given to the shell, if there is one.\<close>

definition do_kill :: "int \<Rightarrow> int \<Rightarrow> byte list list" where
  "do_kill signo procid =
     (if procid \<le> 0 then []
      else [take 62 (bytes_of ''kill -'' @ padded False 0 signo @ bytes_of '' '' @ padded False 0 procid @ bytes_of '' > /dev/null 2>&1'')])"

datatype task_end = Exits | Parent | Child

definition default_file :: string where "default_file = ''./timemgrtask''"

text \<open>\<open>pid\<close> is the result of \<open>fork\<close>, \<open>self\<close> the number of the process. The child goes on with the loop below.\<close>

definition get_timetask ::
  "tm_sys \<Rightarrow> string option \<Rightarrow> int \<times> int \<Rightarrow> int \<Rightarrow> int \<Rightarrow> int \<Rightarrow> tm_files \<Rightarrow> task_end \<times> byte list list \<times> tm_files" where
  "get_timetask sys tmfile now t pid self fs =
     (case map_file sys default_file fs of
        (None, f_new, fs1) \<Rightarrow> (Exits, [], fs1)
      | (Some f, f_new, fs1) \<Rightarrow>
          let m = (the (fs1 f))\<lparr>tm_sec := fst now, tm_usec := snd now, tm_tm := t\<rparr>;
              cmds = (if f_new \<or> tm_pid m = 0 then [] else do_kill 9 (tm_pid m));
              m1 = (if f_new then m else m\<lparr>tm_pid := 0\<rparr>)
          in if pid < 0 then (Exits, cmds, fs1(f \<mapsto> m1))
             else if pid > 0 then (Parent, cmds, fs1(f \<mapsto> m1\<lparr>tm_pid := pid\<rparr>))
             else (Child, cmds, fs1(f \<mapsto> m1\<lparr>tm_pid := self\<rparr>)))"

text \<open>
  The file the readers map, once; without one, they ask the kernel for the time.
\<close>

definition reader_file :: "tm_sys \<Rightarrow> string option \<Rightarrow> tm_files \<Rightarrow> string option \<times> tm_files" where
  "reader_file sys tmfile fs =
     (let (r, f_new, fs1) = map_file sys (case tmfile of None \<Rightarrow> default_file | Some f \<Rightarrow> f) fs in (r, fs1))"

section \<open>The writer and the readers\<close>

text \<open>The stores before the fork (\<open>WStart\<close>, \<open>WStartUsec\<close>, \<open>WStartTm\<close>) touch no flag. A task that is still running from an earlier start is
  killed after them, so it is not among the writers here.\<close>

datatype writer_pc = WStart | WStartUsec int | WStartTm | WAdd | WSec | WUsec int | WCount | WAddTm | WTm

datatype reader_pc = RFlag | RSec | RUsec | RCheck | RDone

datatype time_pc = TFlag | TRead | TCheck | TDone

text \<open>
  The last seven fields only record what has happened: the times stored so far, the number of additions to \<open>tval_fag\<close>, for the
  reader the number at its first and its last look at the flag, and whether the writer was between two updates at the first, and
  whether the task had stored a time when \<open>get_time\<close> read it. What the file held before the task started is not a stored time.
\<close>

record tm_run =
  mgr :: time_mgr
  w_pc :: writer_pc
  w_count :: nat
  r_pc :: reader_pc
  r_flag :: u32
  r_sec :: int
  r_usec :: int
  t_pc :: time_pc
  t_flag :: u32
  c_tm :: int
  stored :: "(int \<times> int) list"
  stored_tm :: "int list"
  adds :: nat
  r_from :: nat
  r_until :: nat
  r_quiet :: bool
  t_started :: bool

definition storing :: "writer_pc \<Rightarrow> bool" where
  "storing p \<longleftrightarrow> (case p of WStart \<Rightarrow> True | WStartUsec u \<Rightarrow> True | WSec \<Rightarrow> True | WUsec u \<Rightarrow> True | _ \<Rightarrow> False)"

definition has_time :: "writer_pc \<Rightarrow> bool" where
  "has_time p \<longleftrightarrow> (case p of WStart \<Rightarrow> False | WStartUsec u \<Rightarrow> False | WStartTm \<Rightarrow> False | _ \<Rightarrow> True)"

text \<open>One step of \<open>get_timetask\<close>, of its first stores and then of its loop; \<open>now\<close> is the time of day and \<open>t\<close> the time in seconds, when it asks for them.\<close>

definition writer_step :: "int \<times> int \<Rightarrow> int \<Rightarrow> tm_run \<Rightarrow> tm_run" where
  "writer_step now t s = (case w_pc s of
     WStart \<Rightarrow> s\<lparr>mgr := (mgr s)\<lparr>tm_sec := fst now\<rparr>, w_pc := WStartUsec (snd now)\<rparr>
   | WStartUsec u \<Rightarrow> s\<lparr>mgr := (mgr s)\<lparr>tm_usec := u\<rparr>, w_pc := WStartTm, stored := (tm_sec (mgr s), u) # stored s\<rparr>
   | WStartTm \<Rightarrow> s\<lparr>mgr := (mgr s)\<lparr>tm_tm := t\<rparr>, w_pc := WAdd, stored_tm := t # stored_tm s\<rparr>
   | WAdd \<Rightarrow> s\<lparr>mgr := (mgr s)\<lparr>tval_fag := tval_fag (mgr s) + 1\<rparr>, w_pc := WSec, adds := adds s + 1\<rparr>
   | WSec \<Rightarrow> s\<lparr>mgr := (mgr s)\<lparr>tm_sec := fst now\<rparr>, w_pc := WUsec (snd now)\<rparr>
   | WUsec u \<Rightarrow> s\<lparr>mgr := (mgr s)\<lparr>tm_usec := u\<rparr>, w_pc := WCount, stored := (tm_sec (mgr s), u) # stored s\<rparr>
   | WCount \<Rightarrow> if w_count s + 1 > 20 then s\<lparr>w_pc := WAddTm, w_count := 0\<rparr> else s\<lparr>w_pc := WAdd, w_count := w_count s + 1\<rparr>
   | WAddTm \<Rightarrow> s\<lparr>mgr := (mgr s)\<lparr>tm_fag := tm_fag (mgr s) + 1\<rparr>, w_pc := WTm\<rparr>
   | WTm \<Rightarrow> s\<lparr>mgr := (mgr s)\<lparr>tm_tm := t\<rparr>, w_pc := WAdd, stored_tm := t # stored_tm s\<rparr>)"

text \<open>One step of the loop of \<open>get_timeofday\<close>.\<close>

definition reader_step :: "tm_run \<Rightarrow> tm_run" where
  "reader_step s = (case r_pc s of
     RFlag \<Rightarrow> s\<lparr>r_flag := tval_fag (mgr s), r_pc := RSec, r_from := adds s, r_quiet := \<not> storing (w_pc s)\<rparr>
   | RSec \<Rightarrow> s\<lparr>r_sec := tm_sec (mgr s), r_pc := RUsec\<rparr>
   | RUsec \<Rightarrow> s\<lparr>r_usec := tm_usec (mgr s), r_pc := RCheck\<rparr>
   | RCheck \<Rightarrow> s\<lparr>r_pc := (if tval_fag (mgr s) \<noteq> r_flag s then RFlag else RDone), r_until := adds s\<rparr>
   | RDone \<Rightarrow> s)"

text \<open>One step of the loop of \<open>get_time\<close>.\<close>

definition time_step :: "tm_run \<Rightarrow> tm_run" where
  "time_step s = (case t_pc s of
     TFlag \<Rightarrow> s\<lparr>t_flag := tm_fag (mgr s), t_pc := TRead\<rparr>
   | TRead \<Rightarrow> s\<lparr>c_tm := tm_tm (mgr s), t_pc := TCheck, t_started := has_time (w_pc s)\<rparr>
   | TCheck \<Rightarrow> s\<lparr>t_pc := (if tm_fag (mgr s) \<noteq> t_flag s then TFlag else TDone)\<rparr>
   | TDone \<Rightarrow> s)"

definition start_run :: "time_mgr \<Rightarrow> tm_run" where
  "start_run m = \<lparr>mgr = m, w_pc = WStart, w_count = 0, r_pc = RFlag, r_flag = 0, r_sec = 0, r_usec = 0, t_pc = TFlag, t_flag = 0, c_tm = 0,
     stored = [], stored_tm = [], adds = 0, r_from = 0, r_until = 0, r_quiet = False, t_started = False\<rparr>"

inductive tm_step :: "tm_run \<Rightarrow> tm_run \<Rightarrow> bool" where
  writer: "tm_step s (writer_step now t s)"
| reader: "tm_step s (reader_step s)"
| time_reader: "tm_step s (time_step s)"

inductive tm_reach :: "time_mgr \<Rightarrow> tm_run \<Rightarrow> bool" where
  start: "tm_reach m (start_run m)"
| step: "tm_reach m s \<Longrightarrow> tm_step s s' \<Longrightarrow> tm_reach m s'"

section \<open>How much later it is\<close>

text \<open>\<open>getdelay\<close>: \<open>now\<close> is what \<open>get_timeofday\<close> has given. The arithmetic is that of \<open>unsigned\<close>, the result an \<open>int\<close>.\<close>

definition getdelay :: "int \<times> int \<Rightarrow> int \<times> int \<Rightarrow> int" where
  "getdelay now begin =
     (let d = word_of_int (fst now - fst begin) :: u32;
          d1 = (if d > 0 then d * 1000 else d);
          d2 = (if snd now > snd begin then d1 + word_of_int ((snd now - snd begin) div 1000)
                else d1 - word_of_int ((snd begin - snd now) div 1000))
      in sint d2)"

section \<open>What the readers get\<close>

lemmas tm_steps = writer_step_def reader_step_def time_step_def

text \<open>Between two updates the two words are a stored time, and a quiet reader that has seen no addition has copied just them.\<close>

definition words_ok :: "tm_run \<Rightarrow> bool" where
  "words_ok s \<longleftrightarrow> (\<not> storing (w_pc s) \<longrightarrow> (tm_sec (mgr s), tm_usec (mgr s)) \<in> set (stored s))"

definition flag_ok :: "tm_run \<Rightarrow> bool" where
  "flag_ok s \<longleftrightarrow> r_pc s \<in> {RSec, RUsec, RCheck} \<longrightarrow>
     r_from s \<le> adds s \<and> tval_fag (mgr s) = r_flag s + of_nat (adds s - r_from s)"

definition quiet_ok :: "tm_run \<Rightarrow> bool" where
  "quiet_ok s \<longleftrightarrow> r_pc s \<in> {RSec, RUsec, RCheck} \<and> r_quiet s \<and> adds s = r_from s \<longrightarrow>
     \<not> storing (w_pc s) \<and> (r_pc s \<in> {RUsec, RCheck} \<longrightarrow> r_sec s = tm_sec (mgr s)) \<and> (r_pc s = RCheck \<longrightarrow> r_usec s = tm_usec (mgr s))"

definition done_ok :: "tm_run \<Rightarrow> bool" where
  "done_ok s \<longleftrightarrow> r_pc s = RDone \<and> r_quiet s \<and> r_until s - r_from s < 2 ^ 32 \<longrightarrow> (r_sec s, r_usec s) \<in> set (stored s)"

definition time_ok :: "tm_run \<Rightarrow> bool" where
  "time_ok s \<longleftrightarrow> (has_time (w_pc s) \<longrightarrow> tm_tm (mgr s) \<in> set (stored_tm s)) \<and>
     (t_pc s \<in> {TCheck, TDone} \<and> t_started s \<longrightarrow> c_tm s \<in> set (stored_tm s))"

definition run_ok :: "tm_run \<Rightarrow> bool" where
  "run_ok s \<longleftrightarrow> words_ok s \<and> flag_ok s \<and> quiet_ok s \<and> done_ok s \<and> time_ok s"

lemmas run_oks = run_ok_def words_ok_def flag_ok_def quiet_ok_def done_ok_def time_ok_def

lemma of_nat_u32_zero: "(of_nat n :: u32) = 0 \<Longrightarrow> n < 2 ^ 32 \<Longrightarrow> n = 0"
  by (auto simp: word_of_nat_eq_0_iff dest: dvd_imp_le)

lemma writer_words_ok: "words_ok s \<Longrightarrow> words_ok (writer_step now t s)"
  by (cases "w_pc s") (auto simp: words_ok_def writer_step_def storing_def)

lemma writer_flag_ok: "flag_ok s \<Longrightarrow> flag_ok (writer_step now t s)"
  by (cases "w_pc s") (auto simp: flag_ok_def writer_step_def Suc_diff_le)

lemma writer_quiet_ok: "quiet_ok s \<Longrightarrow> flag_ok s \<Longrightarrow> quiet_ok (writer_step now t s)"
  by (cases "w_pc s") (auto simp: quiet_ok_def flag_ok_def writer_step_def storing_def)

lemma writer_done_ok: "done_ok s \<Longrightarrow> done_ok (writer_step now t s)"
  by (cases "w_pc s") (simp_all add: done_ok_def writer_step_def)

lemma writer_time_ok: "time_ok s \<Longrightarrow> time_ok (writer_step now t s)"
  by (cases "w_pc s") (auto simp: time_ok_def writer_step_def has_time_def)

lemma writer_run_ok: "run_ok s \<Longrightarrow> run_ok (writer_step now t s)"
  by (simp add: run_ok_def writer_words_ok writer_flag_ok writer_quiet_ok writer_done_ok writer_time_ok)

lemma reader_run_ok:
  assumes ok: "run_ok s"
  shows "run_ok (reader_step s)"
proof (cases "r_pc s")
  case RCheck
  have "adds s = r_from s" if "tval_fag (mgr s) = r_flag s" "adds s - r_from s < 2 ^ 32"
    using that ok RCheck of_nat_u32_zero [of "adds s - r_from s"] by (auto simp: run_oks)
  then show ?thesis using ok RCheck by (auto simp: run_oks reader_step_def)
qed (use ok in \<open>auto simp: run_oks reader_step_def\<close>)

lemma time_run_ok: "run_ok s \<Longrightarrow> run_ok (time_step s)"
  by (cases "t_pc s") (auto simp: run_oks time_step_def)

lemma tm_reach_run_ok: "tm_reach m s \<Longrightarrow> run_ok s"
proof (induction rule: tm_reach.induct)
  case (start m)
  show ?case by (simp add: run_oks start_run_def storing_def has_time_def)
next
  case (step m s s')
  from step.hyps(2) step.IH show ?case by (cases rule: tm_step.cases) (auto intro: writer_run_ok reader_run_ok time_run_ok)
qed

text \<open>
  However writer and readers take turns, \<open>get_timeofday\<close> returns a time the task has stored when the writer was between two updates as
  it looked at the flag, unless the flag goes once around in between; and \<open>get_time\<close>, whose time is a single word, returns one once the
  task has stored its first.
\<close>

theorem time_read_was_stored:
  assumes "tm_reach m s"
  shows "(r_pc s = RDone \<and> r_quiet s \<and> r_until s - r_from s < 2 ^ 32 \<longrightarrow> (r_sec s, r_usec s) \<in> set (stored s)) \<and>
    (t_pc s = TDone \<and> t_started s \<longrightarrow> c_tm s \<in> set (stored_tm s))"
  using tm_reach_run_ok [OF assms] by (simp add: run_oks)

text \<open>Runs are sequences of turns.\<close>

datatype turn = Writer "int \<times> int" int | Reader | TimeReader

fun take_turn :: "turn \<Rightarrow> tm_run \<Rightarrow> tm_run" where
  "take_turn (Writer now t) s = writer_step now t s"
| "take_turn Reader s = reader_step s"
| "take_turn TimeReader s = time_step s"

lemma turns_reach: "tm_reach m s \<Longrightarrow> tm_reach m (fold take_turn ts s)"
proof (induction ts arbitrary: s)
  case (Cons a ts)
  have "tm_step s (take_turn a s)" by (cases a) (auto intro: tm_step.intros)
  then show ?case using Cons by (auto intro: tm_reach.step)
qed simp

definition a_quiet_run :: "turn list" where
  "a_quiet_run = [Writer (7, 9) 0, Writer (0, 0) 0, Writer (0, 0) 7, Reader, Reader, Reader, Reader, TimeReader, TimeReader, TimeReader]"

lemma a_quiet_run_reach: "tm_reach zero_mgr (fold take_turn a_quiet_run (start_run zero_mgr))"
  by (rule turns_reach [OF tm_reach.start])

lemma a_quiet_run_end:
  "fold take_turn a_quiet_run (start_run zero_mgr) =
   \<lparr>mgr = zero_mgr\<lparr>tm_sec := 7, tm_usec := 9, tm_tm := 7\<rparr>, w_pc = WAdd, w_count = 0, r_pc = RDone, r_flag = 0, r_sec = 7, r_usec = 9,
    t_pc = TDone, t_flag = 0, c_tm = 7, stored = [(7, 9)], stored_tm = [7], adds = 0, r_from = 0, r_until = 0, r_quiet = True, t_started = True\<rparr>"
  by (simp add: a_quiet_run_def start_run_def zero_mgr_def tm_steps storing_def has_time_def)

theorem time_read_was_stored_witness:
  "tm_reach zero_mgr (fold take_turn a_quiet_run (start_run zero_mgr)) \<and> (7, 9) \<in> set [(7, 9 :: int) :: int \<times> int] \<and> (7 :: int) \<in> set [7]"
  using time_read_was_stored [OF a_quiet_run_reach] a_quiet_run_reach by (simp add: a_quiet_run_end)

text \<open>
  A reader that looks at the flag while the writer stores accepts two halves that do not belong together: the flag is increased
  only once, before the update, so it does not change any more. Here the second before and the microsecond after a full second make a
  time that has never been stored, almost a second back.
\<close>

theorem torn_time_returned:
  "\<exists>s. tm_reach zero_mgr s \<and> r_pc s = RDone \<and> stored s = [(9, 5), (8, 999995)] \<and> (r_sec s, r_usec s) = (8, 5)"
proof -
  let ?ts = "[Writer (8, 999995) 0, Writer (0, 0) 0, Writer (0, 0) 8, Writer (0, 0) 0, Reader, Reader, Writer (9, 5) 0, Writer (0, 0) 0,
    Reader, Reader]"
  let ?s = "fold take_turn ?ts (start_run zero_mgr)"
  have "tm_reach zero_mgr ?s" by (rule turns_reach [OF tm_reach.start])
  moreover have "r_pc ?s = RDone \<and> stored ?s = [(9, 5), (8, 999995)] \<and> (r_sec ?s, r_usec ?s) = (8, 5)"
    by (simp add: start_run_def zero_mgr_def tm_steps storing_def)
  ultimately show ?thesis by blast
qed

text \<open>
  A restart tears the time without any flag: the first stores of \<open>get_timetask\<close> leave \<open>tval_fag\<close> as it is, so a reader in between
  takes the new second and the old microsecond, and finds the flag unchanged.
\<close>

theorem restart_tears_time:
  "\<exists>s. tm_reach (zero_mgr\<lparr>tm_sec := 8, tm_usec := 999995\<rparr>) s \<and> r_pc s = RDone \<and> (r_sec s, r_usec s) = (9, 999995)"
proof -
  let ?m = "zero_mgr\<lparr>tm_sec := 8, tm_usec := 999995\<rparr>" and ?ts = "[Reader, Writer (9, 5) 0, Reader, Reader, Reader]"
  let ?s = "fold take_turn ?ts (start_run ?m)"
  have "tm_reach ?m ?s" by (rule turns_reach [OF tm_reach.start])
  moreover have "r_pc ?s = RDone \<and> (r_sec ?s, r_usec ?s) = (9, 999995)"
    by (simp add: start_run_def zero_mgr_def tm_steps storing_def)
  ultimately show ?thesis by blast
qed

section \<open>The delay\<close>

lemma getdelay_word:
  "getdelay now begin = sint (word_of_int ((fst now - fst begin) * 1000 +
     (if snd now > snd begin then (snd now - snd begin) div 1000 else - ((snd begin - snd now) div 1000))) :: u32)"
  by (auto simp: getdelay_def Let_def word_gt_0 wi_hom_syms mult.commute)

text \<open>
  \<open>getdelay\<close> gives the time that has passed, in milliseconds, to less than one, in either direction, as long as it fits an \<open>int\<close>,
  although the seconds are multiplied as \<open>unsigned\<close>.
\<close>

theorem getdelay_in_milliseconds:
  assumes "0 \<le> snd now" "snd now < 1000000" "0 \<le> snd begin" "snd begin < 1000000"
    and range: "\<bar>fst now - fst begin\<bar> < 2147482"
  shows "\<bar>getdelay now begin * 1000 - ((fst now - fst begin) * 1000000 + snd now - snd begin)\<bar> < 1000"
proof -
  define d where "d = (fst now - fst begin) * 1000 +
     (if snd now > snd begin then (snd now - snd begin) div 1000 else - ((snd begin - snd now) div 1000))"
  have fits: "- (2 ^ 31) \<le> d" "d < 2 ^ 31" using assms by (auto simp: d_def)
  have "getdelay now begin = sint (word_of_int d :: u32)" unfolding getdelay_word d_def ..
  also have "\<dots> = d" using fits by (simp add: signed_of_int signed_take_bit_int_eq_self)
  finally have "getdelay now begin = d" .
  then show ?thesis using assms by (auto simp: d_def)
qed

theorem getdelay_in_milliseconds_witness: "\<bar>getdelay (100, 1500) (101, 0) * 1000 + 998500\<bar> < 1000"
  using getdelay_in_milliseconds [of "(100, 1500)" "(101, 0)"] by simp

section \<open>Whose file it is\<close>

text \<open>
  The task always writes the file \<open>./timemgrtask\<close>: with another name given, to it and to the readers, the readers map a file of
  zeros of their own, and \<open>get_time\<close> returns 0.
\<close>

theorem task_file_ignored:
  assumes "f \<noteq> default_file" "fs f = None" "ts_open_rw sys f \<ge> 0" "ts_mmap sys f"
    and "reader_file sys (Some f) (snd (snd (get_timetask sys (Some f) now t pid self fs))) = (r, fs2)"
  shows "r = Some f \<and> fs2 f = Some zero_mgr \<and> c_tm (fold take_turn [TimeReader, TimeReader, TimeReader] (start_run zero_mgr)) = 0"
proof -
  have "snd (snd (get_timetask sys (Some f) now t pid self fs)) f = None"
    using assms(1,2) by (auto simp: get_timetask_def map_file_def Let_def)
  then have "r = Some f \<and> fs2 f = Some zero_mgr" using assms(3-5) by (auto simp: reader_file_def map_file_def Let_def)
  then show ?thesis by (simp add: start_run_def time_step_def zero_mgr_def)
qed

end
