(* ===== verification/SocketClass.thy ===== *)
theory SocketClass
  imports CText Services "HOL-Library.Signed_Division"
begin

text \<open>
  The socket classes of the server (\<open>proxy/socket.cpp\<close>, \<open>include/socket.h\<close>): \<open>CSocketAddr\<close> and \<open>CSocket\<close>. The kernel is an argument;
  each system call gives its result, the value of \<open>errno\<close> after it, and the next state of the kernel. \<open>errno\<close> is set to 0 before
  the calls. Addresses are \<open>in_addr_t\<close> as they lie in memory, on a little-endian host.
\<close>

section \<open>Addresses\<close>

definition AF_INET :: u16 where "AF_INET = 2"
definition PF_INET :: int where "PF_INET = 2"
definition PF_UNIX :: int where "PF_UNIX = 1"

text \<open>\<open>CSocketAddr\<close>; port and address in network order, as in \<open>sockaddr_in\<close>.\<close>

record sock_addr =
  sin_family :: u16
  sin_port :: u16
  sin_addr :: u32
  sin_len :: nat

definition new_sock_addr :: sock_addr where
  "new_sock_addr = \<lparr>sin_family = 0, sin_port = 0, sin_addr = 0, sin_len = 16\<rparr>"

definition get_numeric_ipv4 :: "sock_addr \<Rightarrow> u32" where "get_numeric_ipv4 a = sin_addr a"
definition set_numeric_ipv4 :: "u32 \<Rightarrow> sock_addr \<Rightarrow> sock_addr" where "set_numeric_ipv4 ip a = a\<lparr>sin_addr := ip\<rparr>"
definition get_port :: "sock_addr \<Rightarrow> u16" where "get_port a = htons (sin_port a)"
definition set_port :: "u16 \<Rightarrow> sock_addr \<Rightarrow> sock_addr" where "set_port port a = a\<lparr>sin_port := htons port\<rparr>"
definition get_family :: "sock_addr \<Rightarrow> u16" where "get_family a = sin_family a"
definition set_family :: "u16 \<Rightarrow> sock_addr \<Rightarrow> sock_addr" where "set_family f a = a\<lparr>sin_family := f\<rparr>"

text \<open>
  \<open>inet_ntop\<close> and \<open>inet_pton\<close> of the C library for \<open>AF_INET\<close>: four decimal numbers up to 255 without leading zeros.
\<close>

definition inet_ntop4 :: "byte list \<Rightarrow> byte list" where
  "inet_ntop4 bs = concat (map (\<lambda>b. decimal (unat b) @ [0x2E]) (butlast bs)) @ decimal (unat (last bs))"

fun inet_pton4 :: "byte list \<Rightarrow> nat list \<Rightarrow> nat option \<Rightarrow> nat list option" where
  "inet_pton4 [] ds cur = (case cur of None \<Rightarrow> None | Some v \<Rightarrow> if length ds = 3 then Some (ds @ [v]) else None)"
| "inet_pton4 (c # s) ds cur =
     (if is_digit c
      then (case cur of
              None \<Rightarrow> inet_pton4 s ds (Some (unat c - 48))
            | Some v \<Rightarrow> if v = 0 \<or> 10 * v + (unat c - 48) > 255 then None else inet_pton4 s ds (Some (10 * v + (unat c - 48))))
      else if c = 0x2E
      then (case cur of None \<Rightarrow> None | Some v \<Rightarrow> if length ds = 3 then None else inet_pton4 s (ds @ [v]) None)
      else None)"

definition in_n2s :: "u32 \<Rightarrow> byte list" where
  "in_n2s ip = inet_ntop4 (bytes_le 4 ip)"

text \<open>The result, and the address when it is 0. The text is cut at its first zero byte by \<open>c_str\<close>.\<close>

definition in_s2n :: "byte list \<Rightarrow> int \<times> u32 option" where
  "in_s2n s =
     (case inet_pton4 (takeWhile (\<lambda>c. c \<noteq> 0) s) [] None of
        None \<Rightarrow> (- 1, None)
      | Some ds \<Rightarrow> (0, Some (word_le (map of_nat ds))))"

section \<open>System calls\<close>

type_synonym 'w answer = "int \<times> int \<times> 'w"

text \<open>The address of a UNIX socket is what lies in \<open>sun_path\<close> within the length given.\<close>

record 'w sock_sys =
  sk_socket :: "int \<Rightarrow> int \<Rightarrow> 'w \<Rightarrow> 'w answer"
  sk_close :: "int \<Rightarrow> 'w \<Rightarrow> 'w"
  sk_bind :: "int \<Rightarrow> sock_addr \<Rightarrow> 'w \<Rightarrow> 'w answer"
  sk_bind_un :: "int \<Rightarrow> byte list \<Rightarrow> 'w \<Rightarrow> 'w answer"
  sk_listen :: "int \<Rightarrow> int \<Rightarrow> 'w \<Rightarrow> 'w answer"
  sk_accept :: "int \<Rightarrow> 'w \<Rightarrow> 'w answer"
  sk_connect :: "int \<Rightarrow> sock_addr \<Rightarrow> 'w \<Rightarrow> 'w answer"
  sk_connect_un :: "int \<Rightarrow> byte list \<Rightarrow> 'w \<Rightarrow> 'w answer"
  sk_recv :: "int \<Rightarrow> nat \<Rightarrow> int \<Rightarrow> 'w \<Rightarrow> byte list \<times> 'w answer"
  sk_recvfrom :: "int \<Rightarrow> nat \<Rightarrow> int \<Rightarrow> 'w \<Rightarrow> byte list \<times> sock_addr \<times> 'w answer"
  sk_send :: "int \<Rightarrow> byte list \<Rightarrow> int \<Rightarrow> 'w \<Rightarrow> 'w answer"
  sk_sendto :: "int \<Rightarrow> byte list \<Rightarrow> sock_addr \<Rightarrow> 'w \<Rightarrow> 'w answer"
  sk_shutdown :: "int \<Rightarrow> 'w \<Rightarrow> 'w answer"
  sk_getpeername :: "int \<Rightarrow> 'w \<Rightarrow> sock_addr \<times> 'w answer"
  sk_getsockname :: "int \<Rightarrow> 'w \<Rightarrow> sock_addr \<times> 'w answer"
  sk_reuseaddr :: "int \<Rightarrow> 'w \<Rightarrow> 'w answer"
  sk_getfl :: "int \<Rightarrow> 'w \<Rightarrow> 'w answer"
  sk_setfl :: "int \<Rightarrow> int \<Rightarrow> 'w \<Rightarrow> 'w answer"
  sk_timeouts :: "int \<Rightarrow> int \<Rightarrow> int \<Rightarrow> 'w \<Rightarrow> 'w"

text \<open>How a result is given back: minus \<open>errno\<close>, or the result itself when \<open>errno\<close> is 0, for a failure.\<close>

definition failure :: "int \<Rightarrow> int \<Rightarrow> int" where
  "failure ret e = (if e \<noteq> 0 then - e else ret)"

definition sock_status :: "'w answer \<Rightarrow> int \<times> 'w" where
  "sock_status a = (case a of (ret, e, w) \<Rightarrow> (if ret < 0 then failure ret e else 0, w))"

section \<open>\<open>CSocket\<close>\<close>

definition sock_create :: "'w sock_sys \<Rightarrow> int \<Rightarrow> 'w \<Rightarrow> int \<times> 'w" where
  "sock_create k sock_type w =
     (let (fd, e, w1) = (if sock_type = 1 then sk_socket k PF_INET 1 w
                         else if sock_type = 2 then sk_socket k PF_INET 2 w
                         else if sock_type = 4 then sk_socket k PF_UNIX 1 w
                         else (0, 0, w))
      in (if fd < 0 then failure fd e else fd, w1))"

definition sock_close :: "'w sock_sys \<Rightarrow> int \<Rightarrow> 'w \<Rightarrow> 'w" where
  "sock_close k fd w = sk_close k fd w"

definition inet_addr_of :: "u32 \<Rightarrow> u16 \<Rightarrow> sock_addr" where
  "inet_addr_of ip port = set_numeric_ipv4 ip (set_port port (set_family AF_INET new_sock_addr))"

definition bind_ip :: "'w sock_sys \<Rightarrow> int \<Rightarrow> u32 \<Rightarrow> u16 \<Rightarrow> 'w \<Rightarrow> int \<times> 'w" where
  "bind_ip k fd ip port w = sock_status (sk_bind k fd (inet_addr_of ip port) w)"

definition bind_name :: "'w sock_sys \<Rightarrow> int \<Rightarrow> byte list \<Rightarrow> u16 \<Rightarrow> 'w \<Rightarrow> int \<times> 'w" where
  "bind_name k fd server_address port w =
     (case in_s2n server_address of
        (ret, None) \<Rightarrow> (ret, w)
      | (ret, Some ip) \<Rightarrow> if ret < 0 then (ret, w) else bind_ip k fd ip port w)"

definition bind_any :: "'w sock_sys \<Rightarrow> int \<Rightarrow> u16 \<Rightarrow> 'w \<Rightarrow> int \<times> 'w" where
  "bind_any k fd port w = sock_status (sk_bind k fd (inet_addr_of (htonl 0) port) w)"

text \<open>
  \<open>strncpy\<close> is given the length of the path and not that of \<open>sun_path\<close>: a longer path is written past it. The length of the
  address is taken before the first byte is cleared.
\<close>

definition un_addr :: "byte list \<Rightarrow> byte list option" where
  "un_addr path =
     (let p = takeWhile (\<lambda>c. c \<noteq> 0) path
      in if length path \<ge> 108 then None else Some (if p = [] then [] else 0 # List.tl p))"

definition bind_path :: "'w sock_sys \<Rightarrow> int \<Rightarrow> byte list \<Rightarrow> 'w \<Rightarrow> (int \<times> 'w) option" where
  "bind_path k fd path w = map_option (\<lambda>a. sock_status (sk_bind_un k fd a w)) (un_addr path)"

definition sock_listen :: "'w sock_sys \<Rightarrow> int \<Rightarrow> int \<Rightarrow> 'w \<Rightarrow> int \<times> 'w" where
  "sock_listen k fd backlog w = sock_status (sk_listen k fd backlog w)"

definition sock_accept :: "'w sock_sys \<Rightarrow> int \<Rightarrow> 'w \<Rightarrow> int \<times> 'w" where
  "sock_accept k fd w = (let (ret, e, w1) = sk_accept k fd w in (if ret \<le> 0 then failure ret e else ret, w1))"

definition connect_ip :: "'w sock_sys \<Rightarrow> int \<Rightarrow> u32 \<Rightarrow> u16 \<Rightarrow> 'w \<Rightarrow> int \<times> 'w" where
  "connect_ip k fd address port w = sock_status (sk_connect k fd (inet_addr_of address port) w)"

definition connect_name :: "'w sock_sys \<Rightarrow> int \<Rightarrow> byte list \<Rightarrow> u16 \<Rightarrow> 'w \<Rightarrow> int \<times> 'w" where
  "connect_name k fd address port w =
     (case in_s2n address of
        (ret, None) \<Rightarrow> (ret, w)
      | (ret, Some ip) \<Rightarrow> if ret < 0 then (ret, w) else connect_ip k fd ip port w)"

definition connect_path :: "'w sock_sys \<Rightarrow> int \<Rightarrow> byte list \<Rightarrow> 'w \<Rightarrow> (int \<times> 'w) option" where
  "connect_path k fd path w = map_option (\<lambda>a. sock_status (sk_connect_un k fd a w)) (un_addr path)"

text \<open>The result, \<open>received_len\<close>, and what was written to the buffer.\<close>

definition sock_receive :: "'w sock_sys \<Rightarrow> int \<Rightarrow> nat \<Rightarrow> int \<Rightarrow> 'w \<Rightarrow> int \<times> u32 \<times> byte list \<times> 'w" where
  "sock_receive k fd buf_size flag w =
     (let (buf, n, e, w1) = sk_recv k fd buf_size flag w
      in if n < 0 then (failure n e, 0, buf, w1) else (0, word_of_int n, buf, w1))"

definition MSG_TRUNC :: int where "MSG_TRUNC = 0x20"

definition sock_receive_from :: "'w sock_sys \<Rightarrow> int \<Rightarrow> nat \<Rightarrow> 'w \<Rightarrow> int \<times> u32 \<times> byte list \<times> sock_addr \<times> 'w" where
  "sock_receive_from k fd buf_size w =
     (let (buf, addr, n, e, w1) = sk_recvfrom k fd buf_size MSG_TRUNC w
      in if n < 0 then (failure n e, 0, buf, addr, w1) else (0, word_of_int n, buf, addr, w1))"

text \<open>The result and \<open>sent_len\<close>, which keeps its value \<open>l\<close> on an error.\<close>

definition sock_send :: "'w sock_sys \<Rightarrow> int \<Rightarrow> byte list \<Rightarrow> int \<Rightarrow> u32 \<Rightarrow> 'w \<Rightarrow> int \<times> u32 \<times> 'w" where
  "sock_send k fd buf flag l w =
     (let (n, e, w1) = sk_send k fd buf flag w in if n < 0 then (failure n e, l, w1) else (0, word_of_int n, w1))"

definition sock_send_to :: "'w sock_sys \<Rightarrow> int \<Rightarrow> byte list \<Rightarrow> sock_addr \<Rightarrow> u32 \<Rightarrow> 'w \<Rightarrow> int \<times> u32 \<times> 'w" where
  "sock_send_to k fd buf addr l w =
     (let (n, e, w1) = sk_sendto k fd buf addr w in if n < 0 then (failure n e, l, w1) else (0, word_of_int n, w1))"

definition sock_shutdown :: "'w sock_sys \<Rightarrow> int \<Rightarrow> 'w \<Rightarrow> int \<times> 'w" where
  "sock_shutdown k fd w = sock_status (sk_shutdown k fd w)"

text \<open>The result, and address and port when it is 0.\<close>

definition name_of :: "sock_addr \<times> 'w answer \<Rightarrow> int \<times> (u32 \<times> u16) option \<times> 'w" where
  "name_of x =
     (case x of (addr, ret, e, w) \<Rightarrow>
        if ret < 0 then (failure ret e, None, w) else (0, Some (get_numeric_ipv4 addr, get_port addr), w))"

definition get_peer_name :: "'w sock_sys \<Rightarrow> int \<Rightarrow> 'w \<Rightarrow> int \<times> (u32 \<times> u16) option \<times> 'w" where
  "get_peer_name k fd w = name_of (sk_getpeername k fd w)"

definition get_sock_name :: "'w sock_sys \<Rightarrow> int \<Rightarrow> 'w \<Rightarrow> int \<times> (u32 \<times> u16) option \<times> 'w" where
  "get_sock_name k fd w = name_of (sk_getsockname k fd w)"

definition in_text :: "int \<times> (u32 \<times> u16) option \<times> 'w \<Rightarrow> int \<times> (byte list \<times> u16) option \<times> 'w" where
  "in_text x = (case x of (ret, a, w) \<Rightarrow> (ret, map_option (\<lambda>(ip, port). (in_n2s ip, port)) a, w))"

definition get_peer_text :: "'w sock_sys \<Rightarrow> int \<Rightarrow> 'w \<Rightarrow> int \<times> (byte list \<times> u16) option \<times> 'w" where
  "get_peer_text k fd w = in_text (get_peer_name k fd w)"

definition get_sock_text :: "'w sock_sys \<Rightarrow> int \<Rightarrow> 'w \<Rightarrow> int \<times> (byte list \<times> u16) option \<times> 'w" where
  "get_sock_text k fd w = in_text (get_sock_name k fd w)"

definition set_reuseaddr :: "'w sock_sys \<Rightarrow> int \<Rightarrow> 'w \<Rightarrow> int \<times> 'w" where
  "set_reuseaddr k fd w = sock_status (sk_reuseaddr k fd w)"

definition O_NONBLOCK :: int where "O_NONBLOCK = 0x800"

definition set_nonblock :: "'w sock_sys \<Rightarrow> int \<Rightarrow> 'w \<Rightarrow> int \<times> 'w" where
  "set_nonblock k fd w =
     (let (val, e, w1) = sk_getfl k fd w
      in if val = - 1 then (failure val e, w1)
         else if val AND O_NONBLOCK \<noteq> 0 then (0, w1)
         else sock_status (sk_setfl k fd (val OR O_NONBLOCK) w1))"

text \<open>Seconds and microseconds of both time-outs; division and remainder are those of C.\<close>

definition set_timeout :: "'w sock_sys \<Rightarrow> int \<Rightarrow> int \<Rightarrow> 'w \<Rightarrow> 'w" where
  "set_timeout k fd ms w = sk_timeouts k fd (ms sdiv 1000) ((ms smod 1000) * 1000) w"

section \<open>Addresses as text\<close>

lemma pton_dec_digit:
  "d < 10 \<Longrightarrow> inet_pton4 (of_nat (48 + d) # s) ds None = inet_pton4 s ds (Some d)"
  "d < 10 \<Longrightarrow> v \<noteq> 0 \<Longrightarrow> 10 * v + d \<le> 255 \<Longrightarrow> inet_pton4 (of_nat (48 + d) # s) ds (Some v) = inet_pton4 s ds (Some (10 * v + d))"
  by (simp_all add: is_digit_def unat_of_nat del: of_nat_add)

lemma pton_decimal:
  assumes "v < 256"
  shows "inet_pton4 (decimal v @ s) ds None = inet_pton4 s ds (Some v)"
proof -
  have two: "inet_pton4 (decimal u @ t) ds None = inet_pton4 t ds (Some u)" if "u < 100" for u t
  proof (cases "u < 10")
    case True
    then have "decimal u = [of_nat (48 + u)]" by (subst decimal.simps) simp
    then show ?thesis using True pton_dec_digit(1) [of u] by (simp del: of_nat_add inet_pton4.simps)
  next
    case False
    then have "decimal u = [of_nat (48 + u div 10), of_nat (48 + u mod 10)]" using that
      by (subst decimal.simps) (subst decimal.simps, simp)
    then show ?thesis using that False pton_dec_digit(1) [of "u div 10"] pton_dec_digit(2) [of "u mod 10" "u div 10"]
      by (simp del: of_nat_add inet_pton4.simps)
  qed
  show ?thesis
  proof (cases "v < 100")
    case False
    then have "decimal v = decimal (v div 10) @ [of_nat (48 + v mod 10)]" by (subst decimal.simps) simp
    then show ?thesis using assms False two [of "v div 10"] pton_dec_digit(2) [of "v mod 10" "v div 10"]
      by (simp del: of_nat_add inet_pton4.simps)
  qed (rule two)
qed

lemma pton_dot: "length ds < 3 \<Longrightarrow> inet_pton4 (0x2E # s) ds (Some v) = inet_pton4 s (ds @ [v]) None"
  by (simp add: is_digit_def)

lemma unat_byte_less [simp]: "unat (b :: byte) < 256"
  using unsigned_less [of b] by simp

lemma pton_ntop: "inet_pton4 (inet_ntop4 [a, b, c, d]) [] None = Some [unat a, unat b, unat c, unat d]"
  by (simp add: inet_ntop4_def pton_decimal pton_dot pton_decimal [of _ "[]", simplified] del: inet_pton4.simps(2))

lemma decimal_no_zero: "0 \<notin> set (decimal n)"
  using decimal_digits [of 0 n] by (auto simp: is_digit_def)

lemma ntop_no_zero: "0 \<notin> set (inet_ntop4 bs)"
  by (auto simp: inet_ntop4_def decimal_no_zero)

lemma in_s2n_in_n2s: "in_s2n (in_n2s ip) = (0, Some ip)"
proof -
  obtain a b c d where bs: "bytes_le 4 ip = [a, b, c, d]" by (simp add: numeral_eq_Suc)
  have tw: "takeWhile (\<lambda>c. c \<noteq> 0) (in_n2s ip) = in_n2s ip"
    using ntop_no_zero [of "bytes_le 4 ip"] by (auto simp: in_n2s_def takeWhile_eq_all_conv)
  have "word_le [a, b, c, d] = ip" using word_le_bytes_le [of 4 ip] by (simp add: bs)
  then show ?thesis unfolding in_s2n_def tw by (simp add: in_n2s_def bs pton_ntop)
qed

text \<open>
  An address written as text is read back; so binding and connecting by the text of an address do what they do with the
  address, and with a text that is no address they fail without a system call.
\<close>

theorem address_text_connects:
  "in_s2n (in_n2s ip) = (0, Some ip) \<and>
   connect_name k fd (in_n2s ip) port w = connect_ip k fd ip port w \<and> bind_name k fd (in_n2s ip) port w = bind_ip k fd ip port w \<and>
   (snd (in_s2n s) = None \<longrightarrow> connect_name k fd s port w = (- 1, w) \<and> bind_name k fd s port w = (- 1, w))"
proof -
  have "snd (in_s2n s) = None \<longrightarrow> in_s2n s = (- 1, None)" by (simp add: in_s2n_def split: option.splits)
  then show ?thesis by (auto simp: connect_name_def bind_name_def in_s2n_in_n2s)
qed

theorem address_text_connects_witness:
  "snd (in_s2n (bytes_of ''localhost'')) = None \<and> in_s2n (in_n2s 0x0100007F) = (0, Some 0x0100007F) \<and>
   (\<forall>k :: nat sock_sys. connect_name k 5 (bytes_of ''localhost'') 80 0 = (- 1, 0))"
proof -
  have "snd (in_s2n (bytes_of ''localhost'')) = None" by code_simp
  then show ?thesis using address_text_connects [of "0x0100007F" _ 5 80 "0 :: nat" "bytes_of ''localhost''"] by simp
qed

text \<open>The address of a UNIX socket does not hold the first byte of the path: paths that differ only there get the same address.\<close>

theorem paths_share_address: "c \<noteq> 0 \<Longrightarrow> d \<noteq> 0 \<Longrightarrow> connect_path k fd (c # p) w = connect_path k fd (d # p) w"
  by (simp add: connect_path_def un_addr_def Let_def)

end
