(* ===== verification/ExtendHttp.thy ===== *)
theory ExtendHttp
  imports SocketClass
begin

text \<open>
  The header put before an HTTP request (\<open>include/extend_http.h\<close>): \<open>extend_http_head\<close> is packed, 17 bytes on a little-endian host, and the
  functions of \<open>CExtendHttpHead\<close> read and write its fields in a buffer. \<open>None\<close> is an access outside the buffer. The clock and
  \<open>inet_aton\<close>, with what it leaves in the address when it fails, are arguments.
\<close>

section \<open>Fields\<close>

definition EXTEND_HTTP_HEAD_VER :: byte where "EXTEND_HTTP_HEAD_VER = 1"

definition head_bytes :: nat where "head_bytes = 17"

definition put_field :: "nat \<Rightarrow> nat \<Rightarrow> 'a::len word \<Rightarrow> byte list \<Rightarrow> byte list option" where
  "put_field pos n v buf = write_at pos (bytes_le n v) buf"

definition get_field :: "nat \<Rightarrow> nat \<Rightarrow> byte list \<Rightarrow> 'a::len word option" where
  "get_field pos n buf = map_option word_le (read_at pos n buf)"

definition clock_us :: "int \<Rightarrow> int \<Rightarrow> u64" where
  "clock_us sec usec = word_of_int (sec * 1000000 + usec)"

definition eh_get_length :: "byte list \<Rightarrow> int option" where
  "eh_get_length buf = map_option (\<lambda>w :: u32. sint w) (get_field 0 4 buf)"

definition eh_set_length :: "int \<Rightarrow> byte list \<Rightarrow> byte list option" where
  "eh_set_length len buf = put_field 0 4 (word_of_int len :: u32) buf"

definition eh_get_timestamp :: "byte list \<Rightarrow> u64 option" where
  "eh_get_timestamp buf = get_field 4 8 buf"

definition eh_set_timestamp :: "u64 \<Rightarrow> u64 \<Rightarrow> byte list \<Rightarrow> byte list option" where
  "eh_set_timestamp now timestamp buf = put_field 4 8 (if timestamp = 0 then now else timestamp) buf"

definition eh_get_version :: "byte list \<Rightarrow> byte option" where
  "eh_get_version buf = get_field 16 1 buf"

definition eh_set_version :: "byte \<Rightarrow> byte list \<Rightarrow> byte list option" where
  "eh_set_version v buf = put_field 16 1 v buf"

definition eh_get_remote_ip :: "byte list \<Rightarrow> byte list option" where
  "eh_get_remote_ip buf = map_option in_n2s (get_field 12 4 buf)"

definition eh_set_remote_ip :: "(byte list \<Rightarrow> u32) \<Rightarrow> byte list \<Rightarrow> byte list \<Rightarrow> byte list option" where
  "eh_set_remote_ip aton ip buf = put_field 12 4 (aton ip) buf"

section \<open>The whole header and the body\<close>

text \<open>The buffer and \<open>*len\<close>.\<close>

definition eh_set_head :: "u64 \<Rightarrow> u32 \<Rightarrow> int \<Rightarrow> bool \<Rightarrow> byte list \<Rightarrow> (byte list \<times> int) option" where
  "eh_set_head now remote_ip bodylen is_timestamp buf =
     do { let len = (word_of_int (int head_bytes + bodylen) :: u32);
          b1 \<leftarrow> put_field 0 4 len buf;
          b2 \<leftarrow> (if is_timestamp then put_field 4 8 now b1 else Some b1);
          b3 \<leftarrow> put_field 16 1 EXTEND_HTTP_HEAD_VER b2;
          b4 \<leftarrow> put_field 12 4 remote_ip b3;
          Some (b4, sint len) }"

text \<open>What is copied to the body, and \<open>*bodylen\<close>; the copy starts at the header.\<close>

definition eh_get_body :: "byte list \<Rightarrow> (byte list \<times> int) option" where
  "eh_get_body inbuf =
     do { len \<leftarrow> eh_get_length inbuf;
          let body_len = sint (word_of_int (len - int head_bytes) :: u32);
          body \<leftarrow> read_i 0 body_len inbuf;
          Some (body, body_len) }"

definition eh_set_body :: "byte list \<Rightarrow> byte list \<Rightarrow> byte list option" where
  "eh_set_body http_buf inbuf =
     do { b1 \<leftarrow> put_field 0 4 (word_of_int (int (length http_buf) + int head_bytes) :: u32) inbuf;
          write_at head_bytes http_buf b1 }"

section \<open>Properties\<close>

lemma sint_small: "- (2 ^ 31) \<le> i \<Longrightarrow> i < 2 ^ 31 \<Longrightarrow> sint (word_of_int i :: u32) = i"
  by (simp add: signed_of_int signed_take_bit_int_eq_self)

lemma get_put_same:
  assumes "put_field pos n (v :: 'a::len word) buf = Some buf'" "LENGTH('a) \<le> 8 * n"
  shows "get_field pos n buf' = Some v"
  using assms by (auto simp: put_field_def get_field_def write_at_def read_at_def split: if_splits)

lemma get_put_other:
  assumes "put_field pos n v buf = Some buf'" "pos' + n' \<le> pos \<or> pos + n \<le> pos'"
  shows "read_at pos' n' buf' = read_at pos' n' buf"
  using assms by (cases "n = 0") (auto simp: put_field_def write_at_def read_at_def min_def drop_take add.commute split: if_splits)

lemma length_put_field: "put_field pos n v buf = Some buf' \<Longrightarrow> length buf' = length buf"
  by (auto simp: put_field_def dest: length_write_at)

lemma put_field_fits: "pos + n \<le> length buf \<Longrightarrow> \<exists>b. put_field pos n v buf = Some b"
  by (simp add: put_field_def write_at_def)

text \<open>The header that is written is read back, field by field.\<close>

theorem head_read_back:
  assumes room: "head_bytes \<le> length buf" and small: "0 \<le> bodylen" "bodylen + 17 < 2 ^ 31"
  shows "\<exists>b. eh_set_head now ip bodylen True buf = Some (b, bodylen + 17) \<and> eh_get_length b = Some (bodylen + 17) \<and>
    eh_get_timestamp b = Some now \<and> eh_get_version b = Some EXTEND_HTTP_HEAD_VER \<and> eh_get_remote_ip b = Some (in_n2s ip)"
proof -
  have fit: "17 \<le> length buf" using room by (simp add: head_bytes_def)
  let ?l = "word_of_int (17 + bodylen) :: u32"
  obtain b1 where b1: "put_field 0 4 ?l buf = Some b1" "length b1 = length buf"
    using put_field_fits [of 0 4 buf] length_put_field fit by fastforce
  obtain b2 where b2: "put_field 4 8 now b1 = Some b2" "length b2 = length buf"
    using put_field_fits [of 4 8 b1] length_put_field fit b1(2) by fastforce
  obtain b3 where b3: "put_field 16 1 EXTEND_HTTP_HEAD_VER b2 = Some b3" "length b3 = length buf"
    using put_field_fits [of 16 1 b2] length_put_field fit b2(2) by fastforce
  obtain b4 where b4: "put_field 12 4 ip b3 = Some b4"
    using put_field_fits [of 12 4 b3] fit b3(2) by fastforce
  have sl: "sint ?l = bodylen + 17" unfolding add.commute [of 17] by (rule sint_small) (use small in simp_all)
  have "eh_set_head now ip bodylen True buf = Some (b4, bodylen + 17)"
    using b1(1) b2(1) b3(1) b4 sl by (simp add: eh_set_head_def head_bytes_def Let_def)
  moreover have "get_field 0 4 b4 = Some ?l"
    using get_put_same [OF b1(1)] get_put_other [OF b2(1), of 0 4] get_put_other [OF b3(1), of 0 4] get_put_other [OF b4, of 0 4] by (simp add: get_field_def)
  moreover have "get_field 4 8 b4 = Some now"
    using get_put_same [OF b2(1)] get_put_other [OF b3(1), of 4 8] get_put_other [OF b4, of 4 8] by (simp add: get_field_def)
  moreover have "get_field 16 1 b4 = Some EXTEND_HTTP_HEAD_VER"
    using get_put_same [OF b3(1)] get_put_other [OF b4, of 16 1] by (simp add: get_field_def)
  moreover have "get_field 12 4 b4 = Some ip" using get_put_same [OF b4] by simp
  ultimately show ?thesis using sl
    by (intro exI [of _ b4]) (simp add: eh_get_length_def eh_get_timestamp_def eh_get_version_def eh_get_remote_ip_def)
qed

text \<open>\<open>get_body\<close> does not give the body that \<open>set_body\<close> has put behind the header, but as many bytes from the start of the header.\<close>

theorem body_starts_at_header:
  assumes "eh_set_body body buf = Some b" "length body + 17 < 2 ^ 31"
  shows "eh_get_body b = Some (take (length body) b, int (length body)) \<and> take (length body) (drop head_bytes b) = body"
proof -
  let ?l = "word_of_int (int (length body) + 17) :: u32"
  obtain b1 where b1: "put_field 0 4 ?l buf = Some b1" and w: "write_at 17 body b1 = Some b"
    using assms(1) by (auto simp: eh_set_body_def head_bytes_def split: Option.bind_splits)
  have len: "17 + length body \<le> length b" and body: "take (length body) (drop 17 b) = body" and front: "take 4 b = take 4 b1"
    using w by (auto simp: write_at_def min_def split: if_splits)
  have "read_at 0 4 b = read_at 0 4 b1" using front len w by (auto simp: read_at_def write_at_def split: if_splits)
  then have "get_field 0 4 b = Some ?l" using get_put_same [OF b1] by (simp add: get_field_def)
  moreover have "sint ?l = int (length body) + 17" by (rule sint_small) (use assms(2) in simp_all)
  ultimately have l: "eh_get_length b = Some (int (length body) + 17)" by (simp add: eh_get_length_def)
  have "sint (word_of_int (int (length body)) :: u32) = int (length body)"
    by (rule sint_small) (use assms(2) in simp_all)
  then have "eh_get_body b = Some (take (length body) b, int (length body))"
    using l len by (simp add: eh_get_body_def head_bytes_def Let_def read_at_def del: of_int_of_nat_eq)
  then show ?thesis using body by (simp add: head_bytes_def)
qed

end
