(* ===== verification/Locks.thy ===== *)
theory Locks
  imports ShmHash
begin

text \<open>
  The locks between processes: \<open>CAutoLock\<close> (\<open>include/shm_lock.hpp\<close>), the lock of the visitor of the shared-memory map
  (\<open>include/ShmHashMap.hpp\<close>) and the one of \<open>clib_log\<close> (\<open>proxy/clib_log.cpp\<close>). All are System V semaphores with \<open>SEM_UNDO\<close>. What \<open>semop\<close>
  answers is an argument; processes take turns in any order, which is a step relation. \<open>CSemLock\<close> has no body in the repository: its
  \<open>Lock\<close> and \<open>UnLock\<close> are one \<open>semop\<close> whose answer they give, as their callers take them.
\<close>

section \<open>One turn of each lock\<close>

datatype sem_answer = Done | Interrupted | Refused

datatype phase = Outside | Locking | Inside | Unlocking

text \<open>\<open>CAutoLock\<close> tries again after a signal, and gives up without a word on any other error.\<close>

definition auto_lock :: "sem_answer \<Rightarrow> phase" where
  "auto_lock a = (case a of Done \<Rightarrow> Inside | Interrupted \<Rightarrow> Locking | Refused \<Rightarrow> Inside)"

definition auto_unlock :: "sem_answer \<Rightarrow> phase" where
  "auto_unlock a = (case a of Done \<Rightarrow> Outside | Interrupted \<Rightarrow> Unlocking | Refused \<Rightarrow> Outside)"

text \<open>The visitor keeps in \<open>m_LockRet\<close> whether it has the lock, and unlocks only then.\<close>

definition visitor_lock :: "sem_answer \<Rightarrow> phase \<times> bool" where
  "visitor_lock a = (case a of Done \<Rightarrow> (Inside, True) | Interrupted \<Rightarrow> (Locking, False) | Refused \<Rightarrow> (Inside, False))"

definition visitor_leave :: "bool \<Rightarrow> phase" where
  "visitor_leave lock_ret = (if lock_ret then Unlocking else Outside)"

definition visitor_unlock :: "sem_answer \<Rightarrow> phase" where
  "visitor_unlock a = (case a of Done \<Rightarrow> Outside | Interrupted \<Rightarrow> Unlocking | Refused \<Rightarrow> Outside)"

text \<open>The log: the result of \<open>SemLock\<close> and \<open>SemUnlock\<close>, which \<open>write\<close> ignores.\<close>

definition SemLock :: "int \<Rightarrow> sem_answer \<Rightarrow> int" where
  "SemLock sid a = (if sid = - 1 then - 1 else case a of Done \<Rightarrow> 0 | _ \<Rightarrow> - 2)"

definition SemUnlock :: "int \<Rightarrow> sem_answer \<Rightarrow> int" where
  "SemUnlock sid a = (if sid = - 1 then - 1 else case a of Done \<Rightarrow> 0 | _ \<Rightarrow> - 2)"

definition log_lock :: "sem_answer \<Rightarrow> phase" where
  "log_lock a = Inside"

definition log_unlock :: "sem_answer \<Rightarrow> phase" where
  "log_unlock a = Outside"

text \<open>
  \<open>createSem\<close>: the answers of \<open>semget\<close> with \<open>IPC_EXCL\<close>, of \<open>semget\<close> for an existing semaphore, and of \<open>semctl\<close>. The result, the number of the
  semaphore, and whether it was set to 1.
\<close>

definition createSem :: "int \<Rightarrow> int \<Rightarrow> int \<Rightarrow> int \<times> int \<times> bool" where
  "createSem excl attach ctl =
     (if excl < 0 then (if attach = - 1 then (- 1, attach, False) else (0, attach, False))
      else if ctl = - 1 then (- 2, excl, False) else (0, excl, True))"

text \<open>
  \<open>CShmHashMap::Init\<close>: the same answers, and those of \<open>force_open_and_attach\<close>, which has no body in the repository. \<open>garbage\<close> is the
  value of \<open>init\<close> before it is assigned.
\<close>

record init_answers =
  ia_excl :: int
  ia_exists :: bool
  ia_attach :: int
  ia_ctl :: int
  ia_shm :: int
  ia_tmp_init :: bool
  ia_garbage :: bool

definition shm_Init ::
  "('k, 'a) hash_env \<Rightarrow> init_answers \<Rightarrow> int \<Rightarrow> int \<Rightarrow> int \<Rightarrow> int \<Rightarrow> int \<Rightarrow> ('k, 'a) hash_map \<Rightarrow> (int \<times> ('k, 'a) hash_map) option" where
  "shm_Init env x ns n_nodes buckets n_chunks chunk_size m =
     (if ia_excl x < 0 \<and> (\<not> ia_exists x \<or> ia_attach x < 0) then Some (- 1, m)
      else if ia_excl x \<ge> 0 \<and> ia_ctl x < 0 then Some (- 1, m)
      else if ia_shm x < 0 then Some (- 1, m)
      else map_option (\<lambda>(r, m1). (if r < 0 then - 1 else 0, m1))
             (hash_open env ns (if ia_tmp_init x then True else ia_garbage x) n_nodes buckets n_chunks chunk_size m))"

section \<open>Processes\<close>

datatype lock_kind = AutoLock | VisitorLock | LogLock

text \<open>
  \<open>has\<close> is whether the last attempt to lock took the semaphore; only the visitor looks at it. \<open>adj\<close> is what the kernel adds to the
  semaphore when the process ends.
\<close>

record task =
  kind :: lock_kind
  phase :: phase
  has :: bool
  adj :: int

record sems =
  sem_val :: int
  tasks :: "nat \<Rightarrow> task"

definition idle_task :: task where
  "idle_task = \<lparr>kind = AutoLock, phase = Outside, has = False, adj = 0\<rparr>"

definition start_sems :: sems where
  "start_sems = \<lparr>sem_val = 1, tasks = (\<lambda>i. idle_task)\<rparr>"

definition after_lock :: "lock_kind \<Rightarrow> sem_answer \<Rightarrow> phase" where
  "after_lock k a = (case k of AutoLock \<Rightarrow> auto_lock a | VisitorLock \<Rightarrow> fst (visitor_lock a) | LogLock \<Rightarrow> log_lock a)"

definition after_unlock :: "lock_kind \<Rightarrow> sem_answer \<Rightarrow> phase" where
  "after_unlock k a = (case k of AutoLock \<Rightarrow> auto_unlock a | VisitorLock \<Rightarrow> visitor_unlock a | LogLock \<Rightarrow> log_unlock a)"

definition after_use :: "lock_kind \<Rightarrow> bool \<Rightarrow> phase" where
  "after_use k b = (case k of AutoLock \<Rightarrow> Unlocking | VisitorLock \<Rightarrow> visitor_leave b | LogLock \<Rightarrow> Unlocking)"

definition set_task :: "nat \<Rightarrow> task \<Rightarrow> sems \<Rightarrow> sems" where
  "set_task i t s = s\<lparr>tasks := (tasks s)(i := t)\<rparr>"

text \<open>A process starts to lock, gets an answer, leaves the section, gets an answer when it unlocks, or is killed.\<close>

datatype move = Begin lock_kind | Take | Miss sem_answer | Leave | Give | Keep sem_answer | Die

text \<open>\<open>ok k a\<close>: whether the kernel may give the answer \<open>a\<close> to a process locking with \<open>k\<close>. A semaphore at 0 makes it wait.\<close>

definition can :: "(lock_kind \<Rightarrow> sem_answer \<Rightarrow> bool) \<Rightarrow> nat \<Rightarrow> move \<Rightarrow> sems \<Rightarrow> bool" where
  "can ok i m s = (let t = tasks s i in case m of
     Begin k \<Rightarrow> phase t = Outside
   | Take \<Rightarrow> phase t = Locking \<and> sem_val s > 0
   | Miss a \<Rightarrow> phase t = Locking \<and> a \<noteq> Done \<and> ok (kind t) a
   | Leave \<Rightarrow> phase t = Inside
   | Give \<Rightarrow> phase t = Unlocking
   | Keep a \<Rightarrow> phase t = Unlocking \<and> a \<noteq> Done
   | Die \<Rightarrow> True)"

definition move_task :: "move \<Rightarrow> task \<Rightarrow> task" where
  "move_task m t = (case m of
     Begin k \<Rightarrow> t\<lparr>kind := k, phase := Locking, has := False\<rparr>
   | Take \<Rightarrow> t\<lparr>phase := after_lock (kind t) Done, has := True, adj := adj t + 1\<rparr>
   | Miss a \<Rightarrow> t\<lparr>phase := after_lock (kind t) a\<rparr>
   | Leave \<Rightarrow> t\<lparr>phase := after_use (kind t) (has t)\<rparr>
   | Give \<Rightarrow> t\<lparr>phase := after_unlock (kind t) Done, has := False, adj := adj t - 1\<rparr>
   | Keep a \<Rightarrow> t\<lparr>phase := after_unlock (kind t) a\<rparr>
   | Die \<Rightarrow> idle_task)"

definition move_sem :: "move \<Rightarrow> task \<Rightarrow> int \<Rightarrow> int" where
  "move_sem m t v = (case m of Take \<Rightarrow> v - 1 | Give \<Rightarrow> v + 1 | Die \<Rightarrow> max 0 (v + adj t) | _ \<Rightarrow> v)"

definition do_move :: "nat \<Rightarrow> move \<Rightarrow> sems \<Rightarrow> sems" where
  "do_move i m s = \<lparr>sem_val = move_sem m (tasks s i) (sem_val s), tasks = (tasks s)(i := move_task m (tasks s i))\<rparr>"

inductive sem_reach :: "(lock_kind \<Rightarrow> sem_answer \<Rightarrow> bool) \<Rightarrow> sems \<Rightarrow> bool" for ok where
  start: "sem_reach ok start_sems"
| step: "sem_reach ok s \<Longrightarrow> can ok i m s \<Longrightarrow> sem_reach ok (do_move i m s)"

section \<open>Exclusion\<close>

text \<open>The semaphore is free, or one process has it.\<close>

definition counted_once :: "sems \<Rightarrow> bool" where
  "counted_once s \<longleftrightarrow> (sem_val s = 1 \<and> (\<forall>i. adj (tasks s i) = 0)) \<or>
     (sem_val s = 0 \<and> (\<exists>h. adj (tasks s h) = 1 \<and> (\<forall>i. i \<noteq> h \<longrightarrow> adj (tasks s i) = 0)))"

definition protected :: "task \<Rightarrow> bool" where
  "protected t \<longleftrightarrow> kind t \<noteq> VisitorLock \<or> has t"

definition task_ok :: "task \<Rightarrow> bool" where
  "task_ok t \<longleftrightarrow> (phase t = Inside \<and> protected t \<longrightarrow> adj t = 1) \<and> (phase t = Unlocking \<longrightarrow> adj t = 1) \<and>
     (phase t = Locking \<longrightarrow> \<not> has t)"

text \<open>Answers the locks can deal with: any for the visitor, signals for \<open>CAutoLock\<close>, only success for the log.\<close>

definition bearable :: "lock_kind \<Rightarrow> sem_answer \<Rightarrow> bool" where
  "bearable k a \<longleftrightarrow> k = VisitorLock \<or> k = AutoLock \<and> a = Interrupted"

lemmas lock_turns = after_lock_def after_unlock_def after_use_def auto_lock_def auto_unlock_def visitor_lock_def visitor_leave_def
  visitor_unlock_def log_lock_def log_unlock_def

lemma holder:
  assumes "counted_once s" "adj (tasks s i) \<noteq> 0"
  shows "sem_val s = 0" "adj (tasks s i) = 1" "\<forall>j. j \<noteq> i \<longrightarrow> adj (tasks s j) = 0"
proof -
  from assms obtain h where h: "sem_val s = 0" "adj (tasks s h) = 1" "\<forall>j. j \<noteq> h \<longrightarrow> adj (tasks s j) = 0"
    unfolding counted_once_def by blast
  then have "i = h" using assms(2) by blast
  with h show "sem_val s = 0" "adj (tasks s i) = 1" "\<forall>j. j \<noteq> i \<longrightarrow> adj (tasks s j) = 0" by auto
qed

lemma counted_same:
  "counted_once s \<Longrightarrow> sem_val s' = sem_val s \<Longrightarrow> (\<And>j. adj (tasks s' j) = adj (tasks s j)) \<Longrightarrow> counted_once s'"
  by (simp add: counted_once_def)

lemma move_counted:
  assumes c: "counted_once s" and t: "task_ok (tasks s i)" and m: "can ok i m s"
  shows "counted_once (do_move i m s)"
proof (cases m)
  case Take
  then have "sem_val s = 1" "\<forall>i. adj (tasks s i) = 0" using c m by (auto simp: can_def counted_once_def)
  then show ?thesis using Take by (simp add: counted_once_def do_move_def move_task_def move_sem_def)
next
  case Give
  then have "adj (tasks s i) \<noteq> 0" using t m by (simp add: can_def task_ok_def)
  from holder [OF c this] Give show ?thesis by (simp add: counted_once_def do_move_def move_task_def move_sem_def)
next
  case Die
  show ?thesis
  proof (cases "adj (tasks s i) = 0")
    case True
    have "sem_val s \<ge> 0" using c by (auto simp: counted_once_def)
    with True Die show ?thesis
      by (intro counted_same [OF c]) (simp_all add: do_move_def move_task_def move_sem_def idle_task_def)
  next
    case False
    from holder [OF c this] Die show ?thesis by (simp add: counted_once_def do_move_def move_task_def move_sem_def idle_task_def)
  qed
qed (use c in \<open>auto simp: counted_once_def do_move_def move_task_def move_sem_def\<close>)

lemma move_task_ok:
  assumes c: "counted_once s" and t: "task_ok (tasks s i)" and m: "can bearable i m s"
  shows "task_ok (move_task m (tasks s i))"
proof (cases m)
  case Take
  then have "adj (tasks s i) = 0" using c m by (auto simp: can_def counted_once_def)
  then show ?thesis using Take by (cases "kind (tasks s i)") (simp_all add: task_ok_def move_task_def lock_turns)
next
  case (Miss a)
  then show ?thesis using m t
    by (cases "kind (tasks s i)"; cases a) (auto simp: can_def task_ok_def move_task_def bearable_def lock_turns protected_def)
next
  case Leave
  then show ?thesis using t m
    by (cases "kind (tasks s i)") (auto simp: can_def task_ok_def move_task_def lock_turns protected_def)
next
  case Give
  then show ?thesis by (cases "kind (tasks s i)") (simp_all add: task_ok_def move_task_def lock_turns)
next
  case (Keep a)
  then show ?thesis using t m
    by (cases "kind (tasks s i)"; cases a) (auto simp: can_def task_ok_def move_task_def lock_turns)
qed (simp_all add: task_ok_def move_task_def idle_task_def)

lemma sem_reach_ok: "sem_reach bearable s \<Longrightarrow> counted_once s \<and> (\<forall>i. task_ok (tasks s i))"
proof (induction rule: sem_reach.induct)
  case start
  show ?case by (simp add: start_sems_def counted_once_def task_ok_def idle_task_def)
next
  case (step s i m)
  then have "counted_once (do_move i m s)" "task_ok (move_task m (tasks s i))" by (auto intro: move_counted move_task_ok)
  then show ?case using step.IH by (simp add: do_move_def)
qed

text \<open>
  C40: As long as the kernel gives the locks only answers they can deal with, at most one process is inside with the lock, whatever the
  order of their steps and whoever is killed; the semaphore never exceeds 1. A visitor the kernel has refused the lock is inside without it.
\<close>

theorem one_holder:
  assumes "sem_reach bearable s"
  shows "sem_val s \<le> 1 \<and>
    (\<forall>i j. phase (tasks s i) = Inside \<and> protected (tasks s i) \<and> phase (tasks s j) = Inside \<and> protected (tasks s j) \<longrightarrow> i = j)"
proof -
  have c: "counted_once s" and t: "\<And>i. task_ok (tasks s i)" using sem_reach_ok [OF assms] by auto
  have "i = j" if "adj (tasks s i) = 1" "adj (tasks s j) = 1" for i j
    using holder(3) [OF c, of i] that by (cases "i = j") auto
  then show ?thesis using c t by (auto simp: task_ok_def counted_once_def)
qed

fun moves_ok :: "(lock_kind \<Rightarrow> sem_answer \<Rightarrow> bool) \<Rightarrow> (nat \<times> move) list \<Rightarrow> sems \<Rightarrow> bool" where
  "moves_ok ok [] s = True"
| "moves_ok ok ((i, m) # ms) s = (can ok i m s \<and> moves_ok ok ms (do_move i m s))"

lemma moves_reach: "sem_reach ok s \<Longrightarrow> moves_ok ok ms s \<Longrightarrow> sem_reach ok (fold (\<lambda>(i, m). do_move i m) ms s)"
  by (induction ok ms s rule: moves_ok.induct) (auto intro: sem_reach.step)

lemmas moves_eval = can_def do_move_def move_task_def move_sem_def lock_turns start_sems_def idle_task_def Let_def

theorem one_holder_witness:
  "\<exists>s. sem_reach bearable s \<and> phase (tasks s 1) = Inside \<and> protected (tasks s 1) \<and> phase (tasks s 2) = Locking \<and> sem_val s \<le> 1"
proof -
  let ?ms = "[(1, Begin AutoLock), (2, Begin VisitorLock), (1, Miss Interrupted), (1, Take)]"
  have "moves_ok bearable ?ms start_sems" by (simp add: moves_eval bearable_def)
  then have r: "sem_reach bearable (fold (\<lambda>(i, m). do_move i m) ?ms start_sems)" by (rule moves_reach [OF sem_reach.start])
  then show ?thesis using one_holder [OF r]
    by (intro exI [of _ "fold (\<lambda>(i, m). do_move i m) ?ms start_sems"]) (simp add: moves_eval protected_def)
qed

text \<open>
  \<open>CAutoLock\<close> unlocks although the kernel refused the lock, and the log although a signal interrupted it: after it the semaphore is 2, and two
  processes can be inside with the lock.
\<close>

theorem lock_given_twice:
  assumes "k = AutoLock \<and> a = Refused \<or> k = LogLock \<and> a \<noteq> Done"
  shows "\<exists>s. sem_reach (\<lambda>k' a'. k' = k \<and> a' = a) s \<and> phase (tasks s 1) = Inside \<and> has (tasks s 1) \<and> phase (tasks s 2) = Inside \<and> has (tasks s 2)"
proof -
  let ?ok = "\<lambda>k' a'. k' = k \<and> a' = a"
  let ?ms = "[(0, Begin k), (0, Miss a), (0, Leave), (0, Give), (1, Begin k), (1, Take), (2, Begin k), (2, Take)]"
  have m: "moves_ok ?ok ?ms start_sems" and p: "after_lock k Done = Inside" using assms by (auto simp: moves_eval)
  have "sem_reach ?ok (fold (\<lambda>(i, m). do_move i m) ?ms start_sems)" by (rule moves_reach [OF sem_reach.start m])
  then show ?thesis by (intro exI [of _ "fold (\<lambda>(i, m). do_move i m) ?ms start_sems"]) (simp add: can_def do_move_def move_task_def p)
qed

section \<open>Opening the map\<close>

text \<open>An existing segment is opened with the value \<open>init\<close> happens to have; when that is true, the map in it is emptied.\<close>

theorem attaching_depends_on_garbage:
  assumes "ia_excl x < 0" "ia_exists x" "ia_attach x \<ge> 0" "ia_shm x \<ge> 0" "\<not> ia_tmp_init x"
  shows "shm_Init env x ns n_nodes buckets n_chunks chunk_size m =
    map_option (\<lambda>(r, m1). (if r < 0 then - 1 else 0, m1)) (hash_open env ns (ia_garbage x) n_nodes buckets n_chunks chunk_size m)"
  using assms by (simp add: shm_Init_def)

end
