(* ===== verification/Atomic.thy ===== *)
theory Atomic
  imports Prelude
begin

text \<open>
  The atomic operations of the core library with gcc 4 and later (\<open>include/atomic_gcc.h\<close> for \<open>int\<close>, \<open>include/atomic_gcc8.h\<close> for
  \<open>int64_t\<close>): each is one built-in function of the compiler, which the processor executes as one step. The result and the new value of the
  variable; the arithmetic wraps around. The older versions in assembler are not modelled.
\<close>

section \<open>On int\<close>

definition atomic_clear :: "u32 \<Rightarrow> u32 \<times> u32" where
  "atomic_clear v = (v, 0)"

definition atomic_add :: "u32 \<Rightarrow> u32 \<Rightarrow> u32 \<times> u32" where
  "atomic_add i v = (v, v + i)"

definition atomic_sub :: "u32 \<Rightarrow> u32 \<Rightarrow> u32 \<times> u32" where
  "atomic_sub i v = (v, v - i)"

definition atomic_sub_and_test :: "u32 \<Rightarrow> u32 \<Rightarrow> bool \<times> u32" where
  "atomic_sub_and_test i v = (v - i = 0, v - i)"

definition atomic_inc :: "u32 \<Rightarrow> u32 \<times> u32" where
  "atomic_inc v = (v, v + 1)"

definition atomic_dec :: "u32 \<Rightarrow> u32 \<times> u32" where
  "atomic_dec v = (v, v - 1)"

definition atomic_dec_and_test :: "u32 \<Rightarrow> bool \<times> u32" where
  "atomic_dec_and_test v = (v - 1 = 0, v - 1)"

definition atomic_inc_and_test :: "u32 \<Rightarrow> bool \<times> u32" where
  "atomic_inc_and_test v = (v + 1 = 0, v + 1)"

definition atomic_add_negative :: "u32 \<Rightarrow> u32 \<Rightarrow> bool \<times> u32" where
  "atomic_add_negative i v = (sint (v + i) < 0, v + i)"

definition atomic_add_return :: "u32 \<Rightarrow> u32 \<Rightarrow> u32 \<times> u32" where
  "atomic_add_return i v = (v + i, v + i)"

definition atomic_sub_return :: "u32 \<Rightarrow> u32 \<Rightarrow> u32 \<times> u32" where
  "atomic_sub_return i v = (v - i, v - i)"

definition atomic_inc_return :: "u32 \<Rightarrow> u32 \<times> u32" where "atomic_inc_return v = atomic_add_return 1 v"
definition atomic_dec_return :: "u32 \<Rightarrow> u32 \<times> u32" where "atomic_dec_return v = atomic_sub_return 1 v"

section \<open>On int64\<close>

definition atomic8_clear :: "u64 \<Rightarrow> u64 \<times> u64" where
  "atomic8_clear v = (v, 0)"

definition atomic8_add :: "u64 \<Rightarrow> u64 \<Rightarrow> u64 \<times> u64" where
  "atomic8_add i v = (v, v + i)"

definition atomic8_sub :: "u64 \<Rightarrow> u64 \<Rightarrow> u64 \<times> u64" where
  "atomic8_sub i v = (v, v - i)"

definition atomic8_sub_and_test :: "u64 \<Rightarrow> u64 \<Rightarrow> bool \<times> u64" where
  "atomic8_sub_and_test i v = (v - i = 0, v - i)"

definition atomic8_inc :: "u64 \<Rightarrow> u64 \<times> u64" where
  "atomic8_inc v = (v, v + 1)"

definition atomic8_dec :: "u64 \<Rightarrow> u64 \<times> u64" where
  "atomic8_dec v = (v, v - 1)"

definition atomic8_dec_and_test :: "u64 \<Rightarrow> bool \<times> u64" where
  "atomic8_dec_and_test v = (v - 1 = 0, v - 1)"

definition atomic8_inc_and_test :: "u64 \<Rightarrow> bool \<times> u64" where
  "atomic8_inc_and_test v = (v + 1 = 0, v + 1)"

definition atomic8_add_negative :: "u64 \<Rightarrow> u64 \<Rightarrow> bool \<times> u64" where
  "atomic8_add_negative i v = (sint (v + i) < 0, v + i)"

definition atomic8_add_return :: "u64 \<Rightarrow> u64 \<Rightarrow> u64 \<times> u64" where
  "atomic8_add_return i v = (v + i, v + i)"

definition atomic8_sub_return :: "u64 \<Rightarrow> u64 \<Rightarrow> u64 \<times> u64" where
  "atomic8_sub_return i v = (v - i, v - i)"

definition atomic8_inc_return :: "u64 \<Rightarrow> u64 \<times> u64" where "atomic8_inc_return v = atomic8_add_return 1 v"
definition atomic8_dec_return :: "u64 \<Rightarrow> u64 \<times> u64" where "atomic8_dec_return v = atomic8_sub_return 1 v"

section \<open>Counting references\<close>

text \<open>Operations of several threads on one variable, in the order in which they are executed, and the results they give.\<close>

datatype atomic_op = Get | Put

fun ref_run :: "atomic_op list \<Rightarrow> u32 \<Rightarrow> bool list \<times> u32" where
  "ref_run [] v = ([], v)"
| "ref_run (Get # ops) v = ref_run ops (snd (atomic_inc v))"
| "ref_run (Put # ops) v = (let (r, v1) = atomic_dec_and_test v; (rs, v2) = ref_run ops v1 in (r # rs, v2))"

fun refs :: "nat \<Rightarrow> atomic_op list \<Rightarrow> nat option" where
  "refs n [] = Some n"
| "refs n (Get # ops) = (if n = 0 \<or> n + 1 = 2 ^ 32 then None else refs (n + 1) ops)"
| "refs n (Put # ops) = (if n = 0 then None else refs (n - 1) ops)"

lemma of_nat_pred: "n \<noteq> 0 \<Longrightarrow> (of_nat n :: 'a::len word) - 1 = of_nat (n - 1)"
  by (simp add: of_nat_diff)

lemma of_nat_word_0: "n < 2 ^ 32 \<Longrightarrow> ((of_nat n :: u32) = 0) = (n = 0)"
  by (auto simp: word_of_nat_eq_0_iff dest: dvd_imp_le)

lemma refs_zero: "refs 0 ops = Some 0 \<Longrightarrow> ops = []"
  by (cases ops; cases "hd ops") auto

text \<open>
  A reference counter with as many releases as it has references: the test of the last release, and of no other, says that the counter is zero.
\<close>

theorem last_release_tells:
  assumes "0 < n" "n < 2 ^ 32" "refs n ops = Some 0"
  shows "\<exists>k. ref_run ops (of_nat n) = (replicate k False @ [True], 0)"
  using assms
proof (induction n ops rule: refs.induct)
  case (2 n ops)
  then show ?case by (auto simp: atomic_inc_def add.commute split: if_splits)
next
  case (3 n ops)
  show ?case
  proof (cases "n = 1")
    case True
    then have "ops = []" using 3 refs_zero by (simp split: if_splits)
    then show ?thesis using True by (intro exI [of _ 0]) (simp add: atomic_dec_and_test_def)
  next
    case False
    have "n - 1 < 2 ^ 32" using "3.prems"(2) by linarith
    then obtain k where k: "ref_run ops (of_nat (n - 1)) = (replicate k False @ [True], 0)" using "3.IH" "3.prems" False by fastforce
    have "(of_nat n :: u32) - 1 = of_nat (n - 1)" "(of_nat (n - 1) :: u32) \<noteq> 0"
      using 3 False of_nat_pred [of n] of_nat_word_0 [of "n - 1"] by auto
    then show ?thesis using k by (intro exI [of _ "Suc k"]) (simp add: atomic_dec_and_test_def)
  qed
qed simp

end
