(* ===== verification/HexDump.thy ===== *)
theory HexDump
  imports CText Services
begin

text \<open>
  The dump of a packet that the server prints (\<open>HexDumpImp0\<close> of \<open>proxy/decode_unit.cpp\<close>): lines of 16 bytes, in hexadecimal and as characters,
  with the position after the line in front. The text is the list of its lines; fewer than \<open>2 ^ 32 - 16\<close> bytes.
\<close>

section \<open>The text\<close>

definition hex_digit :: "nat \<Rightarrow> byte" where
  "hex_digit n = of_nat (if n < 10 then 48 + n else 87 + n)"

definition hex2 :: "byte \<Rightarrow> byte list" where
  "hex2 b = [hex_digit (unat b div 16), hex_digit (unat b mod 16)]"

definition printable :: "byte \<Rightarrow> byte" where
  "printable b = (if b < 32 \<or> 126 < b then 0x2E else b)"

text \<open>\<open>setw(n)\<close> with the fill character a space.\<close>

definition set_width :: "nat \<Rightarrow> byte list \<Rightarrow> byte list" where
  "set_width n s = replicate (n - length s) 0x20 @ s"

definition dump_line :: "nat \<Rightarrow> byte list \<Rightarrow> byte list" where
  "dump_line rpos buffer =
     set_width 7 (decimal rpos) @ [0x20, 0x20] @
     concat (map (\<lambda>n. (if n < length buffer then hex2 (buffer ! n) else [0x20, 0x20]) @ [0x20]) [0..<16]) @ [0x20] @
     map printable buffer @ [0x0A]"

function dump_lines :: "nat \<Rightarrow> byte list \<Rightarrow> byte list list" where
  "dump_lines rpos data =
     (if length data \<le> rpos then []
      else let cnt = (if length data \<ge> rpos + 16 then 16 else length data - rpos)
           in dump_line (rpos + cnt) (take cnt (drop rpos data)) # dump_lines (rpos + cnt) data)"
  by pat_completeness auto

termination
  by (relation "measure (\<lambda>(rpos, data). length data - rpos)") auto

declare dump_lines.simps [simp del]

definition HexDumpImp0 :: "byte list \<Rightarrow> int \<Rightarrow> byte list list" where
  "HexDumpImp0 data num =
     (if data = [] then []
      else [bytes_of ''Address               Hexadecimal values                  Printable'' @ [0x0A],
            bytes_of ''-------  -----------------------------------------------  -------------'' @ [0x0A],
            bytes_of ''num:['' @ padded False 0 num @ bytes_of '']'' @ [0x0A]] @ dump_lines 0 data)"

section \<open>Reading it back\<close>

definition unhex_digit :: "byte \<Rightarrow> nat" where
  "unhex_digit c = (if unat c < 58 then unat c - 48 else unat c - 87)"

text \<open>The bytes shown in a line: as many as there are characters at its end.\<close>

definition line_bytes :: "byte list \<Rightarrow> byte list" where
  "line_bytes s = map (\<lambda>n. of_nat (16 * unhex_digit (s ! (9 + 3 * n)) + unhex_digit (s ! (9 + 3 * n + 1)))) [0..<length s - 59]"

lemma unhex_hex [simp]: "n < 16 \<Longrightarrow> unhex_digit (hex_digit n) = n"
  by (simp add: unhex_digit_def hex_digit_def unat_of_nat)

lemma unhex_hex2: "of_nat (16 * unhex_digit (hex_digit (unat b div 16)) + unhex_digit (hex_digit (unat b mod 16))) = (b :: byte)"
proof -
  have "unat b < 256" using unsigned_less [of b, where ?'a = nat] by simp
  then have "unat b div 16 < 16" by simp
  then show ?thesis by (simp del: of_nat_add of_nat_mult)
qed

lemma nth_columns:
  assumes "n < m" "\<And>n. length (f n) = 3" "j < 3"
  shows "concat (map f [0..<m]) ! (3 * n + j) = f n ! j"
  using assms
proof (induction m)
  case (Suc m)
  have len: "length (concat (map f [0..<m])) = 3 * m" using Suc.prems(2) by (simp add: length_concat comp_def sum_list_triv)
  show ?case
  proof (cases "n < m")
    case True
    then show ?thesis using Suc len by (simp add: nth_append)
  next
    case False
    then have "n = m" using Suc.prems(1) by simp
    then show ?thesis using len by (simp add: nth_append)
  qed
qed simp

lemma line_bytes_dump_line:
  assumes "rpos < 10 ^ 7" "length buffer \<le> 16"
  shows "line_bytes (dump_line rpos buffer) = buffer"
proof -
  let ?f = "\<lambda>n. (if n < length buffer then hex2 (buffer ! n) else [0x20, 0x20]) @ [0x20]"
  have f3: "length (?f n) = 3" for n by (simp add: hex2_def)
  have front: "length (set_width 7 (decimal rpos)) = 7" using length_decimal [of rpos 6] assms(1) by (simp add: set_width_def)
  have cols: "length (concat (map ?f [0..<16])) = 48" using f3 by (simp add: length_concat comp_def sum_list_triv)
  have len: "length (dump_line rpos buffer) = 59 + length buffer" using front cols by (simp add: dump_line_def)
  have at: "dump_line rpos buffer ! (9 + 3 * n + j) = hex2 (buffer ! n) ! j" if "n < length buffer" "j < 2" for n j
  proof -
    have "dump_line rpos buffer ! (9 + (3 * n + j)) = concat (map ?f [0..<16]) ! (3 * n + j)"
      unfolding dump_line_def using front cols that assms(2) by (simp only: nth_append) (simp add: nth_append)
    also have "\<dots> = ?f n ! j" by (rule nth_columns) (use f3 that assms(2) in auto)
    also have "\<dots> = hex2 (buffer ! n) ! j" using that by (cases j) (simp_all add: hex2_def)
    finally show ?thesis by (simp add: add.assoc)
  qed
  show ?thesis
  proof (rule nth_equalityI)
    fix n
    assume "n < length (line_bytes (dump_line rpos buffer))"
    then have "n < length buffer" by (simp add: line_bytes_def len)
    then show "line_bytes (dump_line rpos buffer) ! n = buffer ! n"
      using at [of n 0] at [of n 1] unhex_hex2 [of "buffer ! n"] by (simp add: line_bytes_def len hex2_def)
  qed (simp add: line_bytes_def len)
qed

lemma dump_lines_bytes: "length data < 10 ^ 7 \<Longrightarrow> concat (map line_bytes (dump_lines rpos data)) = drop rpos data"
proof (induction rpos data rule: dump_lines.induct)
  case (1 rpos data)
  show ?case
  proof (cases "length data \<le> rpos")
    case False
    define cnt where "cnt = (if length data \<ge> rpos + 16 then 16 else length data - rpos)"
    have c: "cnt \<le> 16" "rpos + cnt \<le> length data" using False by (auto simp: cnt_def)
    have "concat (map line_bytes (dump_lines rpos data)) = take cnt (drop rpos data) @ drop (rpos + cnt) data"
      using 1 False c by (subst dump_lines.simps) (simp add: line_bytes_dump_line cnt_def Let_def)
    then show ?thesis by (metis append_take_drop_id drop_drop add.commute)
  qed (simp add: dump_lines.simps)
qed

text \<open>The lines below the title show all bytes of the packet, in order.\<close>

theorem dump_shows_packet: "data \<noteq> [] \<Longrightarrow> length data < 10 ^ 7 \<Longrightarrow> concat (map line_bytes (drop 3 (HexDumpImp0 data num))) = data"
  by (simp add: HexDumpImp0_def dump_lines_bytes)

end
