(* ===== verification/Logging.thy ===== *)
theory Logging
  imports Services CText
begin

text \<open>
  The log files of the three programs: \<open>init_log\<close>, \<open>set_log_level\<close> and \<open>write_log\<close> (\<open>OrderDbSync/src/Log.cc\<close>,
  \<open>OrderSyncClient/src/log.cc\<close>, \<open>OrderSyncServer/src/core/log.cpp\<close>: three versions of one file), and the
  rotating log \<open>clib_log\<close> of the server (\<open>proxy/clib_log.cpp\<close>). A file is its content by path; the answers of
  \<open>open\<close> and \<open>fstat\<close> are functions of the path, and \<open>::write\<close> takes \<open>w_room\<close> bytes at most. The text that
  \<open>vsnprintf\<close> makes of the caller's format and arguments is an argument (\<open>msg\<close>, without a zero byte). What
  the functions print about their own failures on \<open>stderr\<close> is left out.
\<close>

section \<open>State\<close>

definition LOGSIZE :: nat where "LOGSIZE = 1 * 1024 * 1024"

record log_state =
  log_dir :: "byte list"
  appname :: "byte list"
  max_file_num :: int
  max_file_size :: int
  cur_file_pos :: int
  log_level :: int
  files :: "byte list \<Rightarrow> byte list option"
  stderr :: "byte list"

record log_sys =
  w_open :: "byte list \<Rightarrow> bool"
  w_stat :: "byte list \<Rightarrow> bool"
  w_room :: "byte list \<Rightarrow> nat"

record time_stamp =
  t_year :: int
  t_mon :: int
  t_mday :: int
  t_hour :: int
  t_min :: int
  t_sec :: int
  t_msec :: int

definition log_start :: "int \<Rightarrow> (byte list \<Rightarrow> byte list option) \<Rightarrow> log_state" where
  "log_start default_num fs = \<lparr>log_dir = bytes_of ''../log'', appname = [], max_file_num = default_num,
     max_file_size = 50 * 1024 * 1024, cur_file_pos = 0, log_level = 6, files = fs, stderr = []\<rparr>"

definition init_log :: "byte list \<Rightarrow> byte list option \<Rightarrow> int \<Rightarrow> int \<Rightarrow> log_state \<Rightarrow> log_state" where
  "init_log app dir max_num max_size s =
     s\<lparr>appname := take 31 (c_str app),
       log_dir := (case dir of None \<Rightarrow> log_dir s | Some d \<Rightarrow> take 127 (c_str d)),
       max_file_num := (if max_num > 0 then max_num else max_file_num s),
       max_file_size := (if max_size > 0 then max_size else max_file_size s)\<rparr>"

definition set_log_level :: "int \<Rightarrow> log_state \<Rightarrow> log_state" where
  "set_log_level l s = (if l \<ge> 0 then s\<lparr>log_level := (if l > 4 then l else 4)\<rparr> else s)"

section \<open>The line\<close>

definition base_name :: "byte list \<Rightarrow> byte list" where
  "base_name path = rev (takeWhile (\<lambda>c. c \<noteq> 0x2F) (rev path))"

definition stamp :: "time_stamp \<Rightarrow> byte list" where
  "stamp tm = padded True 4 (t_year tm + 1900) @ padded True 2 (t_mon tm + 1) @ padded True 2 (t_mday tm) @ [0x2D] @
     padded True 2 (t_hour tm) @ [0x3A] @ padded True 2 (t_min tm) @ [0x3A] @ padded True 2 (t_sec tm)"

definition log_head :: "int \<Rightarrow> byte list \<Rightarrow> int \<Rightarrow> byte list \<Rightarrow> int \<Rightarrow> byte list \<Rightarrow> byte list" where
  "log_head level time pid filename lineno funcname =
     [0x3C] @ padded False 0 level @ bytes_of ''> ['' @ time @ bytes_of ''] pid['' @ padded False 0 pid @ bytes_of '']: '' @
     base_name filename @ [0x28] @ padded False 0 lineno @ bytes_of '')['' @ funcname @ bytes_of '']: ''"

text \<open>
  \<open>snprintf\<close> of the head, \<open>vsnprintf\<close> of the message behind it, and the end of line. The head is not
  checked: when it leaves no room, the size of the rest wraps. A message that is cut leaves its terminator
  in the line.
\<close>

definition log_line :: "byte list \<Rightarrow> byte list \<Rightarrow> byte list option" where
  "log_line head msg =
     (if length head + 2 > LOGSIZE then None
      else (let room = LOGSIZE - length head - 2;
                buf = (if room = 0 then head
                       else if length msg \<ge> room then head @ take (room - 1) msg @ [0] else head @ msg)
            in if buf = [] then None else if last buf \<noteq> 0x0A then Some (buf @ [0x0A]) else Some buf))"

section \<open>The file\<close>

definition log_path :: "log_state \<Rightarrow> byte list" where
  "log_path s = log_dir s @ [0x2F] @ appname s @ [0x5F] @ padded False 0 (cur_file_pos s) @ bytes_of ''.log''"

definition c_int :: "nat \<Rightarrow> int" where
  "c_int n = sint (of_nat n :: u32)"

text \<open>\<open>Inl\<close> is one of the early returns of \<open>write_log\<close>; \<open>None\<close> is a loop without end, or a division by zero.\<close>

partial_function (option) log_rotate ::
    "log_sys \<Rightarrow> bool \<Rightarrow> log_state \<Rightarrow> (log_state + byte list \<times> log_state) option" where
  "log_rotate sys btruncate s =
     (if appname s = [] then Some (Inl s)
      else let path = take 254 (log_path s)
           in if \<not> w_open sys path then Some (Inl s)
              else let content = (if btruncate then [] else (case files s path of None \<Rightarrow> [] | Some c \<Rightarrow> c));
                       s1 = s\<lparr>files := (files s)(path \<mapsto> content)\<rparr>
                   in if \<not> w_stat sys path then Some (Inl s1)
                      else if c_int (length content) \<ge> max_file_size s
                      then (if max_file_num s = 0 then None
                            else log_rotate sys True
                                   (s1\<lparr>cur_file_pos := (cur_file_pos s + 1) mod max_file_num s\<rparr>))
                      else Some (Inr (path, s1)))"

definition put_line :: "log_sys \<Rightarrow> byte list \<Rightarrow> byte list \<Rightarrow> log_state \<Rightarrow> log_state" where
  "put_line sys path line s =
     s\<lparr>files := (files s)(path \<mapsto> (case files s path of None \<Rightarrow> [] | Some c \<Rightarrow> c) @ take (w_room sys line) line)\<rparr>"

section \<open>The three versions\<close>

definition db_write_log ::
    "log_sys \<Rightarrow> bool \<Rightarrow> time_stamp \<Rightarrow> int \<Rightarrow> int \<Rightarrow> byte list \<Rightarrow> byte list \<Rightarrow> int \<Rightarrow> byte list \<Rightarrow> log_state \<Rightarrow> log_state option" where
  "db_write_log sys is_daemon tm pid level filename funcname lineno msg s =
     (if is_daemon \<and> level > log_level s then Some s
      else do {
        line \<leftarrow> log_line (log_head level (stamp tm) pid filename lineno funcname) msg;
        let s0 = (if \<not> is_daemon then s\<lparr>stderr := stderr s @ line\<rparr> else s);
        r \<leftarrow> log_rotate sys False s0;
        (case r of Inl s1 \<Rightarrow> Some s1 | Inr (path, s1) \<Rightarrow> Some (put_line sys path line s1)) })"

definition cli_write_log ::
    "log_sys \<Rightarrow> bool \<Rightarrow> time_stamp \<Rightarrow> int \<Rightarrow> int \<Rightarrow> byte list \<Rightarrow> byte list \<Rightarrow> int \<Rightarrow> byte list \<Rightarrow> log_state \<Rightarrow> log_state option" where
  "cli_write_log sys is_daemon tm pid level filename funcname lineno msg s =
     (if is_daemon \<and> level > log_level s then Some s
      else do {
        line \<leftarrow> log_line (log_head level (stamp tm @ [0x2E] @ padded True 3 (t_msec tm)) pid filename lineno funcname) msg;
        let s0 = (if \<not> is_daemon then s\<lparr>stderr := stderr s @ line\<rparr> else s);
        r \<leftarrow> log_rotate sys False s0;
        (case r of Inl s1 \<Rightarrow> Some s1 | Inr (path, s1) \<Rightarrow> Some (put_line sys path line s1)) })"

definition svr_write_log ::
    "log_sys \<Rightarrow> time_stamp \<Rightarrow> int \<Rightarrow> int \<Rightarrow> byte list \<Rightarrow> byte list \<Rightarrow> int \<Rightarrow> byte list \<Rightarrow> log_state \<Rightarrow> log_state option" where
  "svr_write_log sys tm pid level filename funcname lineno msg s = do {
     r \<leftarrow> log_rotate sys False s;
     (case r of
        Inl s1 \<Rightarrow> Some s1
      | Inr (path, s1) \<Rightarrow> do {
          line \<leftarrow> log_line (log_head level (stamp tm) pid filename lineno funcname) msg;
          let s2 = (if level = - 1 then s1\<lparr>stderr := stderr s1 @ line\<rparr> else s1);
          Some (put_line sys path line s2) }) }"

definition write_access ::
    "log_sys \<Rightarrow> time_stamp \<Rightarrow> int \<Rightarrow> byte list \<Rightarrow> byte list \<Rightarrow> log_state \<Rightarrow> log_state option" where
  "write_access sys tm access rsp_buf msg s =
     (if access = 0 then Some s
      else (case str_find (c_str rsp_buf) [0x0D, 0x0A] 0 of
              None \<Rightarrow> Some s
            | Some rsplen \<Rightarrow>
                (let rspinfo = take (min rsplen 255) rsp_buf;
                     head = [0x5B] @ padded True 2 (t_hour tm) @ [0x3A] @ padded True 2 (t_min tm) @ [0x3A] @
                       padded True 2 (t_sec tm) @ bytes_of ''] : response info['' @ rspinfo @ bytes_of ''] '';
                     path = take 254 (log_dir s @ [0x2F] @ appname s @ bytes_of ''.access'' @
                       padded True 4 (t_year tm + 1900) @ padded True 2 (t_mon tm + 1) @ padded True 2 (t_mday tm) @
                       bytes_of ''.log'')
                 in if length head + length msg + 2 > LOGSIZE then None
                    else (let buf = (if length head + length msg + 2 = LOGSIZE then butlast (head @ msg) @ [0] else head @ msg);
                              line = (if last buf \<noteq> 0x0A then buf @ [0x0A] else buf)
                          in if appname s \<noteq> [] \<and> w_open sys path then Some (put_line sys path line s) else Some s))))"
section \<open>Rotation\<close>

lemma log_line_ok:
  assumes "log_line head msg = Some l"
  shows "length l < LOGSIZE" "last l = 0x0A" "l \<noteq> []"
  using assms by (auto simp: log_line_def Let_def split: if_splits)

lemma log_line_total: "head \<noteq> [] \<Longrightarrow> length head + 2 \<le> LOGSIZE \<Longrightarrow> \<exists>l. log_line head msg = Some l"
  by (auto simp: log_line_def Let_def)

text \<open>A short message is written as it is.\<close>

lemma log_line_short:
  assumes "head \<noteq> []" and "length head + length msg + 2 < LOGSIZE" and "last (head @ msg) \<noteq> 0x0A"
  shows "log_line head msg = Some (head @ msg @ [0x0A])"
  using assms by (auto simp: log_line_def Let_def)

text \<open>The path of the file with number \<open>i\<close>, and the files that logging may touch.\<close>

definition path_of :: "log_state \<Rightarrow> int \<Rightarrow> byte list" where
  "path_of s i = take 254 (log_dir s @ [0x2F] @ appname s @ [0x5F] @ padded False 0 i @ bytes_of ''.log'')"

definition log_paths :: "log_state \<Rightarrow> byte list set" where
  "log_paths s = path_of s ` {0 ..< max_file_num s}"

definition log_ok :: "log_state \<Rightarrow> bool" where
  "log_ok s \<longleftrightarrow> 0 < max_file_num s \<and> 0 < max_file_size s \<and> max_file_size s < 2 ^ 30 \<and>
     0 \<le> cur_file_pos s \<and> cur_file_pos s < max_file_num s \<and>
     (\<forall>p \<in> log_paths s. \<forall>c. files s p = Some c \<longrightarrow> int (length c) < max_file_size s + int LOGSIZE)"

text \<open>What the operations never change.\<close>

definition same_setup :: "log_state \<Rightarrow> log_state \<Rightarrow> bool" where
  "same_setup s t \<longleftrightarrow> log_dir t = log_dir s \<and> appname t = appname s \<and> max_file_num t = max_file_num s \<and>
     max_file_size t = max_file_size s \<and> log_level t = log_level s \<and> (\<forall>p. p \<notin> log_paths s \<longrightarrow> files t p = files s p)"

lemma same_setup_refl [simp]: "same_setup s s"
  by (simp add: same_setup_def)

lemma same_setup_paths: "same_setup s t \<Longrightarrow> log_paths t = log_paths s \<and> path_of t = path_of s"
  by (simp add: same_setup_def log_paths_def path_of_def fun_eq_iff)

lemma same_setup_trans: "same_setup s t \<Longrightarrow> same_setup t u \<Longrightarrow> same_setup s u"
  using same_setup_paths [of s t] by (simp add: same_setup_def)

lemma log_path_of: "take 254 (log_path s) = path_of s (cur_file_pos s)"
  by (simp add: log_path_def path_of_def)

lemma current_path: "log_ok s \<Longrightarrow> path_of s (cur_file_pos s) \<in> log_paths s"
  by (auto simp: log_ok_def log_paths_def)

lemma c_int_small: "n < 2 ^ 31 \<Longrightarrow> c_int n = int n"
  by (simp add: c_int_def sint_uint signed_take_bit_int_eq_self unsigned_of_nat take_bit_nat_eq_self)

lemma log_ok_step:
  assumes ok: "log_ok s" and t: "same_setup s t" "0 \<le> cur_file_pos t" "cur_file_pos t < max_file_num s"
    "\<forall>p \<in> log_paths s. \<forall>c. files t p = Some c \<longrightarrow> int (length c) < max_file_size s + int LOGSIZE"
  shows "log_ok t"
  using assms same_setup_paths [OF t(1)] by (auto simp: log_ok_def same_setup_def)

lemma rotate_truncated:
  assumes ok: "log_ok s"
  shows "\<exists>r. log_rotate sys True s = Some r \<and>
    (case r of Inl t \<Rightarrow> log_ok t \<and> same_setup s t
     | Inr (path, t) \<Rightarrow> log_ok t \<and> same_setup s t \<and> path \<in> log_paths s \<and> files t path = Some [])"
proof -
  let ?p = "path_of s (cur_file_pos s)" and ?s1 = "s\<lparr>files := (files s)(path_of s (cur_file_pos s) \<mapsto> [])\<rparr>"
  have p: "?p \<in> log_paths s" by (rule current_path [OF ok])
  have pos: "0 < max_file_size s" "0 < max_file_size s + int LOGSIZE" using ok by (simp_all add: log_ok_def)
  have "same_setup s ?s1" using p by (simp add: same_setup_def)
  moreover from this have "log_ok ?s1"
    by (rule log_ok_step [OF ok]) (use ok pos(2) in \<open>simp_all add: log_ok_def\<close>)
  ultimately show ?thesis using ok p pos
    by (subst log_rotate.simps) (auto simp: log_path_of Let_def c_int_def)
qed

lemma rotate_ok:
  assumes ok: "log_ok s"
  shows "\<exists>r. log_rotate sys False s = Some r \<and>
    (case r of Inl t \<Rightarrow> log_ok t \<and> same_setup s t
     | Inr (path, t) \<Rightarrow> log_ok t \<and> same_setup s t \<and> path \<in> log_paths s \<and>
         (\<exists>c. files t path = Some c \<and> int (length c) < max_file_size s))"
proof -
  let ?p = "path_of s (cur_file_pos s)"
  define c where "c = (case files s ?p of None \<Rightarrow> [] | Some c \<Rightarrow> c)"
  let ?s1 = "s\<lparr>files := (files s)(?p \<mapsto> c)\<rparr>" and ?i = "(cur_file_pos s + 1) mod max_file_num s"
  let ?s2 = "?s1\<lparr>cur_file_pos := ?i\<rparr>"
  have p: "?p \<in> log_paths s" by (rule current_path [OF ok])
  have pos: "0 < max_file_num s" "0 < max_file_size s" "max_file_size s < 2 ^ 30" using ok by (simp_all add: log_ok_def)
  have c: "int (length c) < max_file_size s + int LOGSIZE"
    using ok p pos by (auto simp: c_def log_ok_def split: option.splits)
  then have ci: "c_int (length c) = int (length c)" using pos(3) by (intro c_int_small) (simp add: LOGSIZE_def)
  have s1: "same_setup s ?s1" using p by (simp add: same_setup_def)
  have ok1: "log_ok ?s1" by (rule log_ok_step [OF ok s1]) (use ok c in \<open>auto simp: log_ok_def\<close>)
  have s2: "same_setup s ?s2" using s1 by (simp add: same_setup_def)
  have ok2: "log_ok ?s2" by (rule log_ok_step [OF ok s2]) (use ok c pos(1) in \<open>auto simp: log_ok_def\<close>)
  have step: "log_rotate sys False s = (if appname s = [] then Some (Inl s)
      else if \<not> w_open sys ?p then Some (Inl s)
      else if \<not> w_stat sys ?p then Some (Inl ?s1)
      else if int (length c) \<ge> max_file_size s then log_rotate sys True ?s2 else Some (Inr (?p, ?s1)))"
    using pos(1) by (subst log_rotate.simps) (simp add: log_path_of Let_def ci flip: c_def)
  consider (e) "appname s = [] \<or> \<not> w_open sys ?p" | (st) "appname s \<noteq> []" "w_open sys ?p" "\<not> w_stat sys ?p"
    | (r) "appname s \<noteq> []" "w_open sys ?p" "w_stat sys ?p" "int (length c) \<ge> max_file_size s"
    | (k) "appname s \<noteq> []" "w_open sys ?p" "w_stat sys ?p" "int (length c) < max_file_size s"
    by linarith
  then show ?thesis
  proof cases
    case e
    then show ?thesis using step ok by auto
  next
    case st
    then show ?thesis using step ok1 s1 by simp
  next
    case k
    then show ?thesis using step ok1 s1 p by simp
  next
    case r
    then have eq: "log_rotate sys False s = log_rotate sys True ?s2" using step by simp
    obtain x where x: "log_rotate sys True ?s2 = Some x" "case x of Inl t \<Rightarrow> log_ok t \<and> same_setup ?s2 t
       | Inr (path, t) \<Rightarrow> log_ok t \<and> same_setup ?s2 t \<and> path \<in> log_paths ?s2 \<and> files t path = Some []"
      using rotate_truncated [OF ok2, of sys] by blast
    have paths: "log_paths ?s2 = log_paths s" using same_setup_paths [OF s2] by simp
    show ?thesis
    proof (cases x)
      case (Inl t)
      then show ?thesis using x eq same_setup_trans [OF s2] by simp
    next
      case (Inr y)
      then obtain path t where "x = Inr (path, t)" by (cases y) simp
      then show ?thesis using x eq same_setup_trans [OF s2] pos(2) unfolding paths by simp
    qed
  qed
qed
lemma put_line_ok:
  assumes ok: "log_ok t" and p: "path \<in> log_paths t" and c: "files t path = Some c" "int (length c) < max_file_size t"
    and l: "length line < LOGSIZE"
  shows "log_ok (put_line sys path line t)" "same_setup t (put_line sys path line t)"
proof -
  show s: "same_setup t (put_line sys path line t)" using p by (simp add: same_setup_def put_line_def)
  have len: "int (length (c @ take (w_room sys line) line)) < max_file_size t + int LOGSIZE" using c(2) l by simp
  show "log_ok (put_line sys path line t)"
    by (rule log_ok_step [OF ok s]) (use ok c(1) len in \<open>auto simp: log_ok_def put_line_def\<close>)
qed

lemma log_ok_stderr [simp]: "log_ok (s\<lparr>stderr := e\<rparr>) = log_ok s" "same_setup s (t\<lparr>stderr := e\<rparr>) = same_setup s t"
  "same_setup (s\<lparr>stderr := e\<rparr>) t = same_setup s t"
  by (simp_all add: log_ok_def log_paths_def path_of_def same_setup_def)

text \<open>A call of one of the three versions; the flag is \<open>is_daemon\<close>.\<close>

datatype log_program = DbLog bool | ClientLog bool | ServerLog

datatype log_call = LogCall time_stamp int int "byte list" "byte list" int "byte list"

fun write_log :: "log_sys \<Rightarrow> log_program \<Rightarrow> log_call \<Rightarrow> log_state \<Rightarrow> log_state option" where
  "write_log sys (DbLog d) (LogCall tm pid level filename funcname lineno msg) s =
     db_write_log sys d tm pid level filename funcname lineno msg s"
| "write_log sys (ClientLog d) (LogCall tm pid level filename funcname lineno msg) s =
     cli_write_log sys d tm pid level filename funcname lineno msg s"
| "write_log sys ServerLog (LogCall tm pid level filename funcname lineno msg) s =
     svr_write_log sys tm pid level filename funcname lineno msg s"

fun head_fits :: "log_call \<Rightarrow> bool" where
  "head_fits (LogCall tm pid level filename funcname lineno msg) \<longleftrightarrow>
     length (log_head level (stamp tm @ [0x2E] @ padded True 3 (t_msec tm)) pid filename lineno funcname) + 2 \<le> LOGSIZE"

primrec write_logs :: "log_sys \<Rightarrow> log_program \<Rightarrow> log_call list \<Rightarrow> log_state \<Rightarrow> log_state option" where
  "write_logs sys prog [] s = Some s"
| "write_logs sys prog (c # cs) s = Option.bind (write_log sys prog c s) (write_logs sys prog cs)"

lemma written_ok:
  assumes ok: "log_ok s" and line: "length line < LOGSIZE" "\<And>t. pre t = t \<or> (\<exists>e. pre t = t\<lparr>stderr := e\<rparr>)"
  shows "\<exists>t. Option.bind (log_rotate sys False s)
      (\<lambda>r. case r of Inl s1 \<Rightarrow> Some s1 | Inr (path, s1) \<Rightarrow> Some (put_line sys path line (pre s1))) = Some t \<and>
    log_ok t \<and> same_setup s t"
proof -
  obtain r where r: "log_rotate sys False s = Some r" "case r of Inl t \<Rightarrow> log_ok t \<and> same_setup s t
     | Inr (path, t) \<Rightarrow> log_ok t \<and> same_setup s t \<and> path \<in> log_paths s \<and>
         (\<exists>c. files t path = Some c \<and> int (length c) < max_file_size s)"
    using rotate_ok [OF ok, of sys] by blast
  show ?thesis
  proof (cases r)
    case (Inl t)
    then show ?thesis using r by simp
  next
    case (Inr y)
    then obtain path t where y: "r = Inr (path, t)" by (cases y) simp
    with r obtain c where t: "log_ok t" "same_setup s t" "path \<in> log_paths s" "files t path = Some c"
      "int (length c) < max_file_size s" by auto
    have pre: "log_ok (pre t)" "same_setup s (pre t)" "files (pre t) path = Some c"
      using line(2) [of t] t(1,2,4) by auto
    have m: "max_file_size (pre t) = max_file_size s" using pre(2) by (simp add: same_setup_def)
    have "path \<in> log_paths (pre t)" using same_setup_paths [OF pre(2)] t(3) by simp
    from put_line_ok [OF pre(1) this pre(3) _ line(1)] t(5) m
    have "log_ok (put_line sys path line (pre t))" "same_setup (pre t) (put_line sys path line (pre t))" by simp_all
    then show ?thesis using r(1) y same_setup_trans [OF pre(2)] by auto
  qed
qed

lemma log_head_nonempty: "log_head level time pid filename lineno funcname \<noteq> []"
  by (simp add: log_head_def)

lemma write_log_ok:
  assumes ok: "log_ok s" and h: "head_fits c"
  shows "\<exists>t. write_log sys prog c s = Some t \<and> log_ok t \<and> same_setup s t"
proof -
  obtain tm pid level filename funcname lineno msg where c: "c = LogCall tm pid level filename funcname lineno msg"
    by (cases c)
  let ?h = "log_head level (stamp tm) pid filename lineno funcname"
  let ?h2 = "log_head level (stamp tm @ [0x2E] @ padded True 3 (t_msec tm)) pid filename lineno funcname"
  have "length ?h \<le> length ?h2" by (simp add: log_head_def)
  then have fits: "length ?h + 2 \<le> LOGSIZE" "length ?h2 + 2 \<le> LOGSIZE" using h unfolding c head_fits.simps by linarith+
  obtain l where l1: "log_line ?h msg = Some l" using log_line_total [OF log_head_nonempty fits(1)] by blast
  obtain l2 where l2: "log_line ?h2 msg = Some l2" using log_line_total [OF log_head_nonempty fits(2)] by blast
  note l = l1 l2 log_line_ok(1) [OF l1] log_line_ok(1) [OF l2]
  define err where "err = (\<lambda>d x. if \<not> d then s\<lparr>stderr := stderr s @ x\<rparr> else s)"
  have err: "log_ok (err d x)" "same_setup (err d x) t = same_setup s t" for d x t
    using ok by (simp_all add: err_def)
  have id: "id t = t \<or> (\<exists>e. id t = t\<lparr>stderr := e\<rparr>)" for t :: log_state by simp
  show ?thesis
  proof (cases prog)
    case (DbLog d)
    have "write_log sys prog c s = (if d \<and> level > log_level s then Some s
      else Option.bind (log_rotate sys False (err d l))
        (\<lambda>r. case r of Inl s1 \<Rightarrow> Some s1 | Inr (path, s1) \<Rightarrow> Some (put_line sys path l (id s1))))"
      by (simp add: c DbLog db_write_log_def l1 Let_def err_def)
    then show ?thesis using ok written_ok [OF err(1) l(3) id, of sys d l] unfolding err(2) by (simp split del: sum.split)
  next
    case (ClientLog d)
    have "write_log sys prog c s = (if d \<and> level > log_level s then Some s
      else Option.bind (log_rotate sys False (err d l2))
        (\<lambda>r. case r of Inl s1 \<Rightarrow> Some s1 | Inr (path, s1) \<Rightarrow> Some (put_line sys path l2 (id s1))))"
      by (simp add: c ClientLog cli_write_log_def l2 [simplified] Let_def err_def)
    then show ?thesis using ok written_ok [OF err(1) l(4) id, of sys d l2] unfolding err(2) by (simp split del: sum.split)
  next
    case ServerLog
    let ?pre = "\<lambda>t. if level = - 1 then t\<lparr>stderr := stderr t @ l\<rparr> else t"
    have "\<And>t. ?pre t = t \<or> (\<exists>e. ?pre t = t\<lparr>stderr := e\<rparr>)" by auto
    from written_ok [OF ok l(3) this, of sys] show ?thesis
      unfolding c ServerLog write_log.simps svr_write_log_def l1 Let_def Option.bind.simps .
  qed
qed

text \<open>
  C27: The log never fills the disk: however many messages are written, whatever \<open>open\<close>, \<open>fstat\<close> and \<open>write\<close>
  answer, every call returns, each of the files with the numbers below the configured number stays shorter than
  the configured size plus one megabyte, and no other file is touched; so in all three programs.
\<close>

theorem log_bounded:
  assumes "log_ok s" and "\<forall>c \<in> set cs. head_fits c"
  shows "\<exists>t. write_logs sys prog cs s = Some t \<and> log_ok t \<and> same_setup s t"
  using assms
proof (induction cs arbitrary: s)
  case (Cons c cs)
  obtain t where t: "write_log sys prog c s = Some t" "log_ok t" "same_setup s t"
    using write_log_ok [OF Cons.prems(1), of c sys prog] Cons.prems(2) by auto
  obtain u where "write_logs sys prog cs t = Some u" "log_ok u" "same_setup t u"
    using Cons.IH [OF t(2)] Cons.prems(2) by auto
  then show ?case using t same_setup_trans by auto
qed simp

text \<open>
  The levels the database writer and the client use are 1 to 3, and \<open>set_log_level\<close> never goes below 4: the
  level suppresses nothing.
\<close>

lemma level_never_suppresses:
  assumes "level \<le> 3" and "4 \<le> log_level s"
  shows "4 \<le> log_level (set_log_level l s)" "\<not> level > log_level (set_log_level l s)"
  using assms by (simp_all add: set_log_level_def)
definition ex_log_sys :: log_sys where
  "ex_log_sys = \<lparr>w_open = \<lambda>_. True, w_stat = \<lambda>_. True, w_room = length\<rparr>"

definition ex_log :: log_state where
  "ex_log = init_log (bytes_of ''sync'') None 2 5 (log_start 3 (\<lambda>_. None))"

definition ex_call :: log_call where
  "ex_call = LogCall \<lparr>t_year = 115, t_mon = 0, t_mday = 2, t_hour = 3, t_min = 4, t_sec = 5, t_msec = 6\<rparr> 7 1
     (bytes_of ''src/Main.cc'') (bytes_of ''main'') 8 (bytes_of ''hello'')"

lemma ex_call_fits: "head_fits ex_call"
proof -
  let ?head = "log_head 1 (stamp \<lparr>t_year = 115, t_mon = 0, t_mday = 2, t_hour = 3, t_min = 4, t_sec = 5, t_msec = 6\<rparr> @
    [0x2E] @ padded True 3 6) 7 (bytes_of ''src/Main.cc'') 8 (bytes_of ''main'')"
  have "length ?head < 100" by code_simp
  then show ?thesis by (simp add: ex_call_def LOGSIZE_def)
qed

theorem log_bounded_witness:
  "\<exists>t. write_logs ex_log_sys (DbLog True) [ex_call, ex_call, ex_call] ex_log = Some t \<and> log_ok t \<and> same_setup ex_log t"
  by (rule log_bounded)
    (simp_all add: ex_call_fits ex_log_def log_ok_def log_start_def init_log_def)

section \<open>clib_log\<close>

text \<open>
  The current file and its backups by number, 0 being the file itself. \<open>junk\<close> is the content of the
  uninitialised \<open>struct stat\<close> when \<open>stat\<close> fails because the file does not exist.
\<close>

type_synonym backups = "nat \<Rightarrow> byte list option"

definition rename_file :: "nat \<Rightarrow> nat \<Rightarrow> backups \<Rightarrow> backups" where
  "rename_file a b fs = (case fs a of None \<Rightarrow> fs | Some c \<Rightarrow> fs(a := None, b := Some c))"

primrec shift_files :: "nat \<Rightarrow> backups \<Rightarrow> backups" where
  "shift_files 0 fs = fs"
| "shift_files (Suc i) fs = shift_files i (rename_file i (Suc i) fs)"

definition check_file :: "nat \<Rightarrow> int \<Rightarrow> int \<Rightarrow> backups \<Rightarrow> backups" where
  "check_file junk mi_maxfile mi_maxsize fs =
     (if mi_maxfile > 0 \<and> mi_maxsize > 0 then
        (let st_size = (case fs 0 of Some c \<Rightarrow> length c | None \<Rightarrow> junk)
         in if int st_size > mi_maxsize then shift_files (nat mi_maxfile) fs else fs)
      else fs)"

text \<open>\<open>fd\<close> is the result of \<open>open\<close>; descriptor 0 counts as a failure.\<close>

definition clib_log_write :: "int \<Rightarrow> byte list \<Rightarrow> backups \<Rightarrow> int \<times> backups" where
  "clib_log_write fd msg fs =
     (if fd > 0 then (0, fs(0 := Some ((case fs 0 of None \<Rightarrow> [] | Some c \<Rightarrow> c) @ msg))) else (- 1, fs))"

record clib_log =
  ms_file :: "byte list"
  ms_tformat :: "byte list"
  ms_eol :: "byte list"
  mi_level :: int
  mi_maxfile :: int
  mi_maxsize :: int

definition set_level :: "int \<Rightarrow> clib_log \<Rightarrow> int \<times> clib_log" where
  "set_level ai_level l = (if ai_level < 0 then (- 1, l) else (0, l\<lparr>mi_level := ai_level\<rparr>))"

definition set_maxfile :: "int \<Rightarrow> clib_log \<Rightarrow> int \<times> clib_log" where
  "set_maxfile ai_maxfile l = (if ai_maxfile < 0 then (- 1, l) else (0, l\<lparr>mi_maxfile := ai_maxfile\<rparr>))"

definition set_maxsize :: "int \<Rightarrow> clib_log \<Rightarrow> int \<times> clib_log" where
  "set_maxsize ai_maxsize l = (if ai_maxsize < 0 then (- 1, l) else (0, l\<lparr>mi_maxsize := ai_maxsize\<rparr>))"

definition set_timeformat :: "byte list option \<Rightarrow> clib_log \<Rightarrow> int \<times> clib_log" where
  "set_timeformat f l = (case f of None \<Rightarrow> (- 1, l) | Some t \<Rightarrow> (0, l\<lparr>ms_tformat := take 63 (c_str t)\<rparr>))"

definition set_eol :: "byte list option \<Rightarrow> clib_log \<Rightarrow> int \<times> clib_log" where
  "set_eol e l = (case e of None \<Rightarrow> (- 1, l) | Some t \<Rightarrow> (0, l\<lparr>ms_eol := take 15 (c_str t)\<rparr>))"

text \<open>\<open>time\<close> is the result of \<open>strftime\<close> for the time format. The colouring by user numbers is off, as in the
  server, and the name of the file has no date.\<close>

definition clib_write :: "nat \<Rightarrow> int \<Rightarrow> byte list \<Rightarrow> byte list \<Rightarrow> int \<Rightarrow> clib_log \<Rightarrow> backups \<Rightarrow> int \<times> backups" where
  "clib_write junk fd time as_msg ai_level l fs =
     (if ai_level > mi_level l then (0, fs)
      else if ms_file l = [] \<or> as_msg = [] then (- 1, fs)
      else (let s_msg = take 1023 ((if ms_tformat l \<noteq> [] then time else []) @ as_msg @ ms_eol l)
            in clib_log_write fd s_msg (check_file junk (mi_maxfile l) (mi_maxsize l) fs)))"

definition logMsg :: "nat \<Rightarrow> int \<Rightarrow> byte list \<Rightarrow> byte list \<Rightarrow> clib_log \<Rightarrow> backups \<Rightarrow> int \<times> backups" where
  "logMsg junk fd time msg l fs = clib_write junk fd time (take 1023 msg) 1 l fs"

text \<open>Each backup takes the number after its own; a gap stays a gap, but for the last number, which keeps its file.\<close>

lemma shift_files_at:
  "fs 0 = Some c \<Longrightarrow> (shift_files n fs) k =
     (if k = 0 then (if n = 0 then fs 0 else None)
      else if k \<le> n then (case fs (k - 1) of Some x \<Rightarrow> Some x | None \<Rightarrow> if k = n then fs k else None)
      else fs k)"
proof (induction n arbitrary: fs k c)
  case (Suc n)
  show ?case
  proof (cases "fs n")
    case None
    then have "n \<noteq> 0" using Suc.prems by (cases n) auto
    with None Suc show ?thesis by (auto simp: rename_file_def split: option.split)
  next
    case (Some d)
    show ?thesis
    proof (cases "n = 0")
      case False
      let ?fs = "fs(n := None, Suc n := Some d)"
      have "?fs 0 = Some c" using Suc.prems False by simp
      then have "shift_files n ?fs k = (if k = 0 then (if n = 0 then ?fs 0 else None)
        else if k \<le> n then (case ?fs (k - 1) of Some x \<Rightarrow> Some x | None \<Rightarrow> if k = n then ?fs k else None)
        else ?fs k)" by (rule Suc.IH)
      then show ?thesis using Some False
        by (auto simp: rename_file_def le_Suc_eq split: option.split)
    qed (use Some Suc.prems in \<open>auto simp: rename_file_def\<close>)
  qed
qed simp

lemma clib_message_length: "length (take 1023 xs) \<le> 1023"
  by simp

text \<open>
  The rotating log of the server: a message whose level is in force is appended to the file, and when the file
  has outgrown the limit the message opens a new one, while the file and its backups each take the next number and
  only the oldest content is dropped. The file never exceeds the limit by more than one message.
\<close>

theorem clib_log_rotates:
  assumes "ai_level \<le> mi_level l" and "ms_file l \<noteq> []" and "as_msg \<noteq> []" and "fd > 0"
    and "0 < mi_maxfile l" and "0 < mi_maxsize l" and "fs 0 = Some c"
    and "clib_write junk fd time as_msg ai_level l fs = (r, gs)"
  shows "r = 0 \<and> (\<exists>line. line = take 1023 ((if ms_tformat l \<noteq> [] then time else []) @ as_msg @ ms_eol l) \<and>
     (if int (length c) > mi_maxsize l
      then gs 0 = Some line \<and>
        (\<forall>k x. k < nat (mi_maxfile l) \<longrightarrow> fs k = Some x \<longrightarrow> gs (Suc k) = Some x)
      else gs = fs(0 := Some (c @ line))) \<and>
     (\<exists>d. gs 0 = Some d \<and> int (length d) \<le> mi_maxsize l + 1023) \<and>
     (\<forall>k > nat (mi_maxfile l). gs k = fs k))"
  using assms
  by (auto simp: clib_write_def clib_log_write_def check_file_def Let_def shift_files_at [where c = c]
      split: if_splits)

definition ex_clib :: clib_log where
  "ex_clib = \<lparr>ms_file = bytes_of ''x'', ms_tformat = [], ms_eol = [0x0A], mi_level = 6, mi_maxfile = 2, mi_maxsize = 2\<rparr>"

theorem clib_log_rotates_witness:
  "\<exists>gs. clib_write 0 3 [] [0x61] 1 ex_clib (\<lambda>k. if k = 0 then Some [1, 2, 3] else if k = 1 then Some [4] else None) = (0, gs) \<and> gs 0 = Some [0x61, 0x0A]"
proof -
  let ?fs = "\<lambda>k :: nat. if k = 0 then Some [1 :: byte, 2, 3] else if k = 1 then Some [4] else None"
  obtain r gs where g: "clib_write 0 3 [] [0x61] 1 ex_clib ?fs = (r, gs)" by fastforce
  have "r = 0 \<and> gs 0 = Some [0x61, 0x0A]"
    using clib_log_rotates [OF _ _ _ _ _ _ _ g, of "[1, 2, 3]"] by (simp add: ex_clib_def bytes_of_def)
  with g show ?thesis by simp
qed

end
