(* ===== verification/ClibColour.thy ===== *)
theory ClibColour
  imports Logging
begin

text \<open>
  The colouring of \<open>clib_log\<close> (\<open>proxy/clib_log.cpp\<close>): a file names user numbers; while it does, the messages of these users are written
  whatever their level, and those of other users not at all. The server writes without a user number.
\<close>

section \<open>User numbers\<close>

definition MIN_UIN :: nat where "MIN_UIN = 10000"

definition clib_uin_is_valid :: "u32 \<Rightarrow> bool" where
  "clib_uin_is_valid uin \<longleftrightarrow> \<not> (unat uin < MIN_UIN \<or> unat uin > 0xffffffff)"

text \<open>\<open>strtoul\<close> in base 10, and the conversion of its result to \<open>uint32_t\<close>.\<close>

definition strtoul :: "byte list \<Rightarrow> u64" where
  "strtoul s =
     (let s1 = dropWhile is_space s;
          (neg, s2) = (case s1 of c # r \<Rightarrow> if c = 0x2D then (True, r) else if c = 0x2B then (False, r) else (False, s1)
                       | [] \<Rightarrow> (False, []));
          v = digits_value (takeWhile is_digit s2)
      in if v \<ge> 2 ^ 64 then - 1 else if neg then - of_nat v else of_nat v)"

definition atouin :: "byte list \<Rightarrow> u32" where
  "atouin s = ucast (strtoul (c_str s))"

text \<open>What \<open>fgets\<close> reads into a buffer of \<open>n + 1\<close> bytes, until the end of the file.\<close>

definition fgets_chunk :: "nat \<Rightarrow> byte list \<Rightarrow> byte list" where
  "fgets_chunk n s =
     (let t = take n s in if 0x0A \<in> set t then takeWhile (\<lambda>c. c \<noteq> 0x0A) t @ [0x0A] else t)"

function fgets_lines :: "byte list \<Rightarrow> byte list list" where
  "fgets_lines s = (if s = [] then [] else fgets_chunk 18 s # fgets_lines (drop (length (fgets_chunk 18 s)) s))"
  by pat_completeness auto

termination
  by (relation "measure length") (auto simp: fgets_chunk_def Let_def)

declare fgets_lines.simps [simp del]

section \<open>The colouring\<close>

record colouring =
  mb_coloring :: bool
  set_uins :: "u32 list"

text \<open>The argument is the name's file, if there is a name, and its content, if it can be opened.\<close>

definition set_coloring_file :: "byte list option option \<Rightarrow> colouring \<Rightarrow> int \<times> colouring" where
  "set_coloring_file as_coloring c =
     (case as_coloring of
        None \<Rightarrow> (- 1, c)
      | Some None \<Rightarrow> (- 1, \<lparr>mb_coloring = False, set_uins = []\<rparr>)
      | Some (Some s) \<Rightarrow>
          let us = filter clib_uin_is_valid (map atouin (fgets_lines s))
          in (0, \<lparr>mb_coloring = (us \<noteq> []), set_uins = us\<rparr>))"

definition uin_tag :: "u32 \<Rightarrow> byte list" where
  "uin_tag uin = [0x5B] @ decimal (unat uin) @ [0x5D]"

text \<open>\<open>clib_log::write\<close> with a user number; \<open>time\<close> is the result of \<open>strftime\<close>.\<close>

definition clib_write_uin ::
  "nat \<Rightarrow> int \<Rightarrow> byte list \<Rightarrow> byte list \<Rightarrow> int \<Rightarrow> u32 \<Rightarrow> colouring \<Rightarrow> clib_log \<Rightarrow> backups \<Rightarrow> int \<times> backups" where
  "clib_write_uin junk fd time as_msg ai_level ai_uin c l fs =
     (if ai_level > mi_level l \<and> (ai_uin = 0 \<or> \<not> mb_coloring c) then (0, fs)
      else if ms_file l = [] \<or> as_msg = [] then (- 1, fs)
      else (let stamp = (if ms_tformat l \<noteq> [] then time else [])
            in if ai_uin = 0 \<or> \<not> mb_coloring c
               then clib_log_write fd (take 1023 (stamp @ as_msg @ ms_eol l)) (check_file junk (mi_maxfile l) (mi_maxsize l) fs)
               else if ai_uin \<notin> set (set_uins c) then (0, fs)
               else clib_log_write fd (take 1023 (stamp @ uin_tag ai_uin @ as_msg @ ms_eol l))
                      (check_file junk (mi_maxfile l) (mi_maxsize l) fs)))"

text \<open>
  \<open>apwrite\<close>: a missing or empty format is refused. \<open>made\<close> is the text \<open>vsnprintf\<close> makes of the format, or its negative result. Both
  \<open>vwrite\<close> look at the format and go on to \<open>apwrite\<close>.
\<close>

definition apwrite ::
  "nat \<Rightarrow> int \<Rightarrow> byte list \<Rightarrow> int \<Rightarrow> byte list option \<Rightarrow> (int + byte list) \<Rightarrow> u32 \<Rightarrow> colouring \<Rightarrow> clib_log \<Rightarrow> backups \<Rightarrow> int \<times> backups" where
  "apwrite junk fd time ai_level fmt made ai_uin c l fs =
     (if fmt = None \<or> fmt = Some [] then (- 1, fs)
      else (case made of Inl r \<Rightarrow> (r, fs) | Inr m \<Rightarrow> clib_write_uin junk fd time (take 1023 m) ai_level ai_uin c l fs))"

definition vwrite ::
  "nat \<Rightarrow> int \<Rightarrow> byte list \<Rightarrow> int \<Rightarrow> byte list option \<Rightarrow> (int + byte list) \<Rightarrow> colouring \<Rightarrow> clib_log \<Rightarrow> backups \<Rightarrow> int \<times> backups" where
  "vwrite junk fd time ai_level fmt made c l fs =
     (if fmt = None \<or> fmt = Some [] then (- 1, fs) else apwrite junk fd time ai_level fmt made 0 c l fs)"

definition vwrite_uin ::
  "nat \<Rightarrow> int \<Rightarrow> byte list \<Rightarrow> int \<Rightarrow> u32 \<Rightarrow> byte list option \<Rightarrow> (int + byte list) \<Rightarrow> colouring \<Rightarrow> clib_log \<Rightarrow> backups \<Rightarrow> int \<times> backups" where
  "vwrite_uin junk fd time ai_level ai_uin fmt made c l fs =
     (if fmt = None \<or> fmt = Some [] then (- 1, fs) else apwrite junk fd time ai_level fmt made ai_uin c l fs)"

text \<open>The new \<open>ms_logtype\<close>; without an argument the log is not split by date.\<close>

definition set_logtype :: "byte list option \<Rightarrow> int \<times> byte list" where
  "set_logtype as_logtype = (case as_logtype of None \<Rightarrow> (0, []) | Some t \<Rightarrow> (0, take 63 (c_str t)))"

section \<open>What is written\<close>

lemma strtoul_line:
  assumes "n < 2 ^ 64"
  shows "strtoul (decimal n @ [0x0A]) = of_nat n"
proof -
  obtain c r where d: "decimal n = c # r" by (cases "decimal n") simp_all
  have all: "\<forall>x \<in> set (c # r). is_digit x" using decimal_digits [of _ n] by (simp add: d)
  then have c: "is_digit c" by simp
  have "c \<noteq> 0x2D" "c \<noteq> 0x2B" "\<not> is_space c" using c by (auto simp: is_digit_def is_space_def)
  moreover have "takeWhile is_digit (c # r @ [0x0A]) = c # r"
    using all by (simp add: takeWhile_append is_digit_def)
  moreover have "digits_value (c # r) = n" using digits_value_decimal [of n] by (simp add: d)
  ultimately show ?thesis using assms by (simp add: strtoul_def d)
qed

definition uin_line :: "u32 \<Rightarrow> byte list" where
  "uin_line u = decimal (unat u) @ [0x0A]"

lemma decimal_plain: "c \<in> set (decimal n) \<Longrightarrow> c \<noteq> 0 \<and> c \<noteq> 0x0A"
  using decimal_digits [of c n] by (auto simp: is_digit_def)

lemma atouin_line: "atouin (uin_line u) = u"
proof -
  have "c_str (uin_line u) = uin_line u"
    unfolding c_str_def uin_line_def by (rule takeWhile_eq_all_conv [THEN iffD2]) (auto dest: decimal_plain)
  moreover have "unat u < 2 ^ 64" using unsigned_less [of u, where ?'a = nat] by simp
  ultimately have "atouin (uin_line u) = ucast (of_nat (unat u) :: u64)"
    using strtoul_line [of "unat u"] by (simp add: atouin_def uin_line_def)
  also have "\<dots> = u" by (intro bit_word_eqI) (auto simp: bit_simps)
  finally show ?thesis .
qed

lemma fgets_uin_line: "fgets_lines (uin_line u @ s) = uin_line u # fgets_lines s"
proof -
  have "unat u < 10 ^ Suc 9" using unsigned_less [of u, where ?'a = nat] by simp
  then have len: "length (decimal (unat u)) \<le> 10" using length_decimal [of "unat u" 9] by simp
  then have "18 - length (decimal (unat u)) = Suc (17 - length (decimal (unat u)))" by simp
  then have "take 18 (uin_line u @ s) = uin_line u @ take (17 - length (decimal (unat u))) s" using len by (simp add: uin_line_def)
  moreover have "takeWhile (\<lambda>c. c \<noteq> 0x0A) (uin_line u @ t) = decimal (unat u)" for t
    by (simp add: uin_line_def takeWhile_append) (auto dest: decimal_plain)
  ultimately have "fgets_chunk 18 (uin_line u @ s) = uin_line u" by (auto simp: fgets_chunk_def Let_def uin_line_def)
  then show ?thesis by (subst fgets_lines.simps) (simp add: uin_line_def)
qed

lemma fgets_uin_lines: "fgets_lines (concat (map uin_line us)) = map uin_line us"
  by (induction us) (simp_all add: fgets_uin_line fgets_lines.simps [of "[]"])

text \<open>A message without a user number is written as if there were no colouring.\<close>

lemma write_without_uin: "clib_write_uin junk fd time as_msg ai_level 0 c l fs = clib_write junk fd time as_msg ai_level l fs"
  by (simp add: clib_write_uin_def clib_write_def)

text \<open>
  With a file of valid user numbers, one in a line, the messages of just these users are written, with the number in front and
  whatever the level.
\<close>

theorem coloured_users_logged:
  assumes "us \<noteq> []" "\<forall>u \<in> set us. MIN_UIN \<le> unat u" and "ms_file l \<noteq> []" "as_msg \<noteq> []" "uin \<noteq> 0"
    and "set_coloring_file (Some (Some (concat (map uin_line us)))) c = (r, c')"
  shows "r = 0 \<and> clib_write_uin junk fd time as_msg ai_level uin c' l fs =
    (if uin \<in> set us
     then clib_log_write fd (take 1023 ((if ms_tformat l \<noteq> [] then time else []) @ uin_tag uin @ as_msg @ ms_eol l))
            (check_file junk (mi_maxfile l) (mi_maxsize l) fs)
     else (0, fs))"
proof -
  have "unat u \<le> 0xffffffff" for u :: u32 using unsigned_less [of u, where ?'a = nat] by simp
  then have "filter clib_uin_is_valid us = us" using assms(2) by (auto simp: filter_id_conv clib_uin_is_valid_def not_less)
  then have "r = 0 \<and> c' = \<lparr>mb_coloring = True, set_uins = us\<rparr>"
    using assms(1,6) by (simp add: set_coloring_file_def fgets_uin_lines comp_def atouin_line)
  then show ?thesis using assms(3-5) by (simp add: clib_write_uin_def)
qed

end
