(* ===== verification/Codec.thy ===== *)
theory Codec
  imports Prelude
begin

text \<open>
  The byte substitution and the check byte of the wire protocol. The client
  (\<open>OrderSyncClient/src/packet.cc\<close>) and the server
  (\<open>OrderSyncServer/src/proxy/EncryptDecrypt.cpp\<close>) each have their own tables; both are modelled,
  and the locale \<open>byte_code\<close> states what a sender and a receiver need of the tables they use:
  the receiver's table inverts the sender's. The loops over a packet body are modelled on the
  list of body bytes; where the body lies in the buffer is the business of the packet theories.
\<close>

section \<open>The tables\<close>

definition encode_map :: "byte list" where
  "encode_map =
    [112, 47, 64, 95, 68, 142, 110, 69, 126, 171, 44, 31, 180, 172, 157, 145,
     13, 54, 155, 11, 212, 196, 57, 116, 191, 35, 22, 20, 6, 235, 4, 62,
     18, 92, 139, 188, 97, 99, 246, 165, 225, 101, 216, 245, 90, 7, 240, 19,
     242, 32, 107, 74, 36, 89, 137, 100, 215, 66, 106, 94, 61, 10, 119, 224,
     128, 39, 184, 197, 140, 14, 250, 138, 213, 41, 86, 87, 108, 83, 103, 65,
     232, 0, 26, 206, 134, 131, 176, 34, 40, 77, 63, 38, 70, 79, 111, 43,
     114, 58, 241, 141, 151, 149, 73, 132, 229, 227, 121, 143, 81, 16, 168, 130,
     198, 221, 255, 252, 228, 207, 179, 9, 93, 234, 156, 52, 249, 23, 159, 218,
     135, 248, 21, 5, 60, 211, 164, 133, 46, 251, 238, 71, 59, 239, 55, 127,
     147, 175, 105, 12, 113, 49, 222, 33, 117, 160, 170, 186, 124, 56, 2, 183,
     129, 1, 253, 231, 29, 204, 205, 189, 27, 122, 42, 173, 102, 190, 85, 51,
     3, 219, 136, 178, 30, 78, 185, 230, 194, 247, 203, 125, 201, 98, 195, 166,
     220, 167, 80, 181, 75, 148, 192, 146, 76, 17, 91, 120, 217, 177, 237, 25,
     233, 161, 28, 182, 50, 153, 163, 118, 158, 123, 109, 154, 48, 214, 169, 37,
     199, 174, 150, 53, 208, 187, 210, 200, 162, 8, 243, 209, 115, 244, 72, 45,
     144, 202, 226, 88, 193, 24, 82, 254, 223, 104, 152, 84, 236, 96, 67, 15]"

definition decode_map :: "byte list" where
  "decode_map =
    [81, 161, 158, 176, 30, 131, 28, 45, 233, 119, 61, 19, 147, 16, 69, 255,
     109, 201, 32, 47, 27, 130, 26, 125, 245, 207, 82, 168, 210, 164, 180, 11,
     49, 151, 87, 25, 52, 223, 91, 65, 88, 73, 170, 95, 10, 239, 136, 1,
     220, 149, 212, 175, 123, 227, 17, 142, 157, 22, 97, 140, 132, 60, 31, 90,
     2, 79, 57, 254, 4, 7, 92, 139, 238, 102, 51, 196, 200, 89, 181, 93,
     194, 108, 246, 77, 251, 174, 74, 75, 243, 53, 44, 202, 33, 120, 59, 3,
     253, 36, 189, 37, 55, 41, 172, 78, 249, 146, 58, 50, 76, 218, 6, 94,
     0, 148, 96, 236, 23, 152, 215, 62, 203, 106, 169, 217, 156, 187, 8, 143,
     64, 160, 111, 85, 103, 135, 84, 128, 178, 54, 71, 34, 68, 99, 5, 107,
     240, 15, 199, 144, 197, 101, 226, 100, 250, 213, 219, 18, 122, 14, 216, 126,
     153, 209, 232, 214, 134, 39, 191, 193, 110, 222, 154, 9, 13, 171, 225, 145,
     86, 205, 179, 118, 12, 195, 211, 159, 66, 182, 155, 229, 35, 167, 173, 24,
     198, 244, 184, 190, 21, 67, 112, 224, 231, 188, 241, 186, 165, 166, 83, 117,
     228, 235, 230, 133, 20, 72, 221, 56, 42, 204, 127, 177, 192, 113, 150, 248,
     63, 40, 242, 105, 116, 104, 183, 163, 80, 208, 121, 29, 252, 206, 138, 141,
     46, 98, 48, 234, 237, 43, 38, 185, 129, 124, 70, 137, 115, 162, 247, 114]"

definition m_SendByteMap :: "byte list" where
  "m_SendByteMap =
    [112, 47, 64, 95, 68, 142, 110, 69, 126, 171, 44, 31, 180, 172, 157, 145,
     13, 54, 155, 11, 212, 196, 57, 116, 191, 35, 22, 20, 6, 235, 4, 62,
     18, 92, 139, 188, 97, 99, 246, 165, 225, 101, 216, 245, 90, 7, 240, 19,
     242, 32, 107, 74, 36, 89, 137, 100, 215, 66, 106, 94, 61, 10, 119, 224,
     128, 39, 184, 197, 140, 14, 250, 138, 213, 41, 86, 87, 108, 83, 103, 65,
     232, 0, 26, 206, 134, 131, 176, 34, 40, 77, 63, 38, 70, 79, 111, 43,
     114, 58, 241, 141, 151, 149, 73, 132, 229, 227, 121, 143, 81, 16, 168, 130,
     198, 221, 255, 252, 228, 207, 179, 9, 93, 234, 156, 52, 249, 23, 159, 218,
     135, 248, 21, 5, 60, 211, 164, 133, 46, 251, 238, 71, 59, 239, 55, 127,
     147, 175, 105, 12, 113, 49, 222, 33, 117, 160, 170, 186, 124, 56, 2, 183,
     129, 1, 253, 231, 29, 204, 205, 189, 27, 122, 42, 173, 102, 190, 85, 51,
     3, 219, 136, 178, 30, 78, 185, 230, 194, 247, 203, 125, 201, 98, 195, 166,
     220, 167, 80, 181, 75, 148, 192, 146, 76, 17, 91, 120, 217, 177, 237, 25,
     233, 161, 28, 182, 50, 153, 163, 118, 158, 123, 109, 154, 48, 214, 169, 37,
     199, 174, 150, 53, 208, 187, 210, 200, 162, 8, 243, 209, 115, 244, 72, 45,
     144, 202, 226, 88, 193, 24, 82, 254, 223, 104, 152, 84, 236, 96, 67, 15]"

definition m_RecvByteMap :: "byte list" where
  "m_RecvByteMap =
    [81, 161, 158, 176, 30, 131, 28, 45, 233, 119, 61, 19, 147, 16, 69, 255,
     109, 201, 32, 47, 27, 130, 26, 125, 245, 207, 82, 168, 210, 164, 180, 11,
     49, 151, 87, 25, 52, 223, 91, 65, 88, 73, 170, 95, 10, 239, 136, 1,
     220, 149, 212, 175, 123, 227, 17, 142, 157, 22, 97, 140, 132, 60, 31, 90,
     2, 79, 57, 254, 4, 7, 92, 139, 238, 102, 51, 196, 200, 89, 181, 93,
     194, 108, 246, 77, 251, 174, 74, 75, 243, 53, 44, 202, 33, 120, 59, 3,
     253, 36, 189, 37, 55, 41, 172, 78, 249, 146, 58, 50, 76, 218, 6, 94,
     0, 148, 96, 236, 23, 152, 215, 62, 203, 106, 169, 217, 156, 187, 8, 143,
     64, 160, 111, 85, 103, 135, 84, 128, 178, 54, 71, 34, 68, 99, 5, 107,
     240, 15, 199, 144, 197, 101, 226, 100, 250, 213, 219, 18, 122, 14, 216, 126,
     153, 209, 232, 214, 134, 39, 191, 193, 110, 222, 154, 9, 13, 171, 225, 145,
     86, 205, 179, 118, 12, 195, 211, 159, 66, 182, 155, 229, 35, 167, 173, 24,
     198, 244, 184, 190, 21, 67, 112, 224, 231, 188, 241, 186, 165, 166, 83, 117,
     228, 235, 230, 133, 20, 72, 221, 56, 42, 204, 127, 177, 192, 113, 150, 248,
     63, 40, 242, 105, 116, 104, 183, 163, 80, 208, 121, 29, 252, 206, 138, 141,
     46, 98, 48, 234, 237, 43, 38, 185, 129, 124, 70, 137, 115, 162, 247, 114]"

definition MapRecvByte :: "byte \<Rightarrow> byte" where
  "MapRecvByte cbData = m_RecvByteMap ! unat cbData"

definition MapSendByte :: "byte \<Rightarrow> byte" where
  "MapSendByte cbData = m_SendByteMap ! unat cbData"

definition enc_byte :: "byte \<Rightarrow> byte" where
  "enc_byte b = encode_map ! unat b"

definition dec_byte :: "byte \<Rightarrow> byte" where
  "dec_byte b = decode_map ! unat b"

lemma tables_agree: "m_SendByteMap = encode_map" "m_RecvByteMap = decode_map"
  by (simp_all only: m_SendByteMap_def encode_map_def m_RecvByteMap_def decode_map_def)

lemma length_tables: "length encode_map = 256" "length decode_map = 256"
  by (simp_all add: encode_map_def decode_map_def)

lemma tables_inverse: "map (\<lambda>e. decode_map ! unat e) encode_map = map of_nat [0..<256]"
  by code_simp

lemma tables_inverse': "map (\<lambda>d. encode_map ! unat d) decode_map = map of_nat [0..<256]"
  by code_simp

lemma nth_of_nat_bytes: "(map of_nat [0..<256] :: byte list) ! unat (b :: byte) = b"
  using unat_byte_lt [of b] by simp

lemma dec_enc_byte [simp]: "dec_byte (enc_byte b) = b"
proof -
  have "map (\<lambda>e. decode_map ! unat e) encode_map ! unat b = dec_byte (enc_byte b)"
    using unat_byte_lt [of b] by (simp add: dec_byte_def enc_byte_def length_tables)
  then show ?thesis by (simp only: tables_inverse nth_of_nat_bytes)
qed

lemma enc_dec_byte [simp]: "enc_byte (dec_byte b) = b"
proof -
  have "map (\<lambda>d. encode_map ! unat d) decode_map ! unat b = enc_byte (dec_byte b)"
    using unat_byte_lt [of b] by (simp add: dec_byte_def enc_byte_def length_tables)
  then show ?thesis by (simp only: tables_inverse' nth_of_nat_bytes)
qed

lemma Map_bytes: "MapSendByte = enc_byte" "MapRecvByte = dec_byte"
  by (simp_all add: fun_eq_iff MapSendByte_def MapRecvByte_def enc_byte_def dec_byte_def tables_agree)

section \<open>The loops over a body\<close>

text \<open>
  Client, \<open>packet_t::encode\<close>: add the plain byte to the running code, then substitute it;
  \<open>packet_t::decode\<close>: substitute, then add. The pair is the final code and the new bytes.
\<close>

primrec encode_loop :: "byte \<Rightarrow> byte list \<Rightarrow> byte \<times> byte list" where
  "encode_loop code [] = (code, [])"
| "encode_loop code (b # bs) =
     (case encode_loop (code + b) bs of (c, cs) \<Rightarrow> (c, enc_byte b # cs))"

primrec decode_loop :: "byte \<Rightarrow> byte list \<Rightarrow> byte \<times> byte list" where
  "decode_loop code [] = (code, [])"
| "decode_loop code (b # bs) =
     (let d = dec_byte b in case decode_loop (code + d) bs of (c, ds) \<Rightarrow> (c, d # ds))"

text \<open>Server, \<open>CEncryptDecrypt::EncryptBuffer\<close> and \<open>DecryptBuffer\<close>.\<close>

primrec encrypt_loop :: "byte \<Rightarrow> byte list \<Rightarrow> byte \<times> byte list" where
  "encrypt_loop cbCheckCode [] = (cbCheckCode, [])"
| "encrypt_loop cbCheckCode (b # bs) =
     (case encrypt_loop (cbCheckCode + b) bs of (c, cs) \<Rightarrow> (c, MapSendByte b # cs))"

primrec decrypt_loop :: "byte \<Rightarrow> byte list \<Rightarrow> byte \<times> byte list" where
  "decrypt_loop cbCheckCode [] = (cbCheckCode, [])"
| "decrypt_loop cbCheckCode (b # bs) =
     (let d = MapRecvByte b in case decrypt_loop (cbCheckCode + d) bs of (c, ds) \<Rightarrow> (c, d # ds))"

lemma encode_loop_eq: "encode_loop c bs = (c + sum_list bs, map enc_byte bs)"
  by (induction bs arbitrary: c) (auto simp: algebra_simps)

lemma decode_loop_eq: "decode_loop c bs = (c + sum_list (map dec_byte bs), map dec_byte bs)"
  by (induction bs arbitrary: c) (auto simp: algebra_simps Let_def)

lemma encrypt_loop_eq: "encrypt_loop c bs = (c + sum_list bs, map enc_byte bs)"
  by (induction bs arbitrary: c) (auto simp: algebra_simps Map_bytes)

lemma decrypt_loop_eq: "decrypt_loop c bs = (c + sum_list (map dec_byte bs), map dec_byte bs)"
  by (induction bs arbitrary: c) (auto simp: algebra_simps Let_def Map_bytes)

lemmas codec_loops = encode_loop_eq decode_loop_eq encrypt_loop_eq decrypt_loop_eq

section \<open>What a sender and a receiver rely on\<close>

text \<open>
  A body codec: a sender's loop and a receiver's loop over substitutions that are inverse to
  each other. The check byte a sender stores is \<open>- fst (eloop 0 bs)\<close> (written \<open>~code + 1\<close> in both
  programs); the receiver starts from it and accepts when the final code is 0.
\<close>

locale body_codec =
  fixes enc :: "byte \<Rightarrow> byte"
    and dec :: "byte \<Rightarrow> byte"
    and eloop :: "byte \<Rightarrow> byte list \<Rightarrow> byte \<times> byte list"
    and dloop :: "byte \<Rightarrow> byte list \<Rightarrow> byte \<times> byte list"
  assumes dec_enc: "dec (enc b) = b"
    and enc_dec: "enc (dec b) = b"
    and eloop_eq: "eloop c bs = (c + sum_list bs, map enc bs)"
    and dloop_eq: "dloop c bs = (c + sum_list (map dec bs), map dec bs)"
begin

lemma body_roundtrip: "dloop (- fst (eloop 0 bs)) (snd (eloop 0 bs)) = (0, bs)"
  by (simp add: eloop_eq dloop_eq dec_enc comp_def)

lemma body_length: "length (snd (eloop c bs)) = length bs" "length (snd (dloop c bs)) = length bs"
  by (simp_all add: eloop_eq dloop_eq)

text \<open>A single substituted byte changes the final code: the check byte detects it.\<close>

lemma single_error_detected:
  assumes "fst (dloop c (xs @ b # ys)) = 0" and "b' \<noteq> b"
  shows "fst (dloop c (xs @ b' # ys)) \<noteq> 0"
proof
  assume zero: "fst (dloop c (xs @ b' # ys)) = 0"
  have code: "fst (dloop c (xs @ x # ys)) =
      (c + sum_list (map dec xs) + sum_list (map dec ys)) + dec x" for x
    by (simp add: dloop_eq add_ac)
  from zero assms(1) have "dec b' = dec b" by (simp only: code) (metis add_left_cancel)
  then have "enc (dec b') = enc (dec b)" by simp
  with assms(2) show False by (simp add: enc_dec)
qed

text \<open>A corrupted check byte is detected as well.\<close>

lemma check_error_detected: "fst (dloop c bs) = 0 \<Longrightarrow> c' \<noteq> c \<Longrightarrow> fst (dloop c' bs) \<noteq> 0"
  by (auto simp: dloop_eq eq_neg_iff_add_eq_0 [symmetric])

end

text \<open>The four directions: client to server, server to client, and each side with itself.\<close>

interpretation c2s: body_codec enc_byte MapRecvByte encode_loop decrypt_loop
  by unfold_locales (simp_all add: Map_bytes codec_loops)

interpretation s2c: body_codec MapSendByte dec_byte encrypt_loop decode_loop
  by unfold_locales (simp_all add: Map_bytes codec_loops)

interpretation c2c: body_codec enc_byte dec_byte encode_loop decode_loop
  by unfold_locales (simp_all add: codec_loops)

interpretation s2s: body_codec MapSendByte MapRecvByte encrypt_loop decrypt_loop
  by unfold_locales (simp_all add: Map_bytes codec_loops)

end
