(* ===== verification/Wire.thy ===== *)
theory Wire
  imports Codec
begin

text \<open>
  The frame of the synchronisation protocol, as a specification: what one program puts on the
  wire and the other takes off it. A frame is two bytes of length (of what follows them, big
  endian), the mark \<open>BY\<close>, two version bytes, the command, the check byte and the substituted
  body. \<open>ClientPacket\<close> and \<open>ServerPacket\<close> show that the builders of both programs produce such
  frames and that their decoders return the body; nothing here models code.
\<close>

definition be :: "nat \<Rightarrow> 'a::len word \<Rightarrow> byte list" where
  "be n w = rev (bytes_le n w)"

definition frame_head :: "u16 \<Rightarrow> byte list \<Rightarrow> byte list" where
  "frame_head cmd body =
     be 2 (of_nat (length body + 7) :: u16) @ [0x42, 0x59, 1, 1] @ be 2 cmd @ [- sum_list body]"

definition frame :: "u16 \<Rightarrow> byte list \<Rightarrow> byte list" where
  "frame cmd body = frame_head cmd body @ map enc_byte body"

lemma length_be [simp, buf_simps]: "length (be n w) = n"
  by (simp add: be_def)

lemma length_frame_head [simp, buf_simps]: "length (frame_head cmd body) = 9"
  by (simp add: frame_head_def)

lemma length_frame [simp, buf_simps]: "length (frame cmd body) = 9 + length body"
  by (simp add: frame_def)

lemma bytes_le_htons: "bytes_le 2 (htons w) = be 2 w"
  by (simp add: htons_def be_def)

lemma bytes_le_htonl: "bytes_le 4 (htonl w) = be 4 w"
  by (simp add: htonl_def be_def)

lemma htons_word_le: "length bs = 2 \<Longrightarrow> htons (word_le bs) = word_le (rev bs)"
  using bswap_word_le [of bs, where 'a = 16] by (simp add: htons_def)

lemma htonl_word_le: "length bs = 4 \<Longrightarrow> htonl (word_le bs) = word_le (rev bs)"
  using bswap_word_le [of bs, where 'a = 32] by (simp add: htonl_def)

lemma word_le_rev_be [simp]:
  "LENGTH('a) \<le> 8 * n \<Longrightarrow> word_le (rev (be n w)) = (w :: 'a::len word)"
  by (simp add: be_def)

lemma htons_be [simp]: "htons (word_le (be 2 w)) = w"
  by (simp add: htons_word_le)

lemma htonl_be [simp]: "htonl (word_le (be 4 w)) = w"
  by (simp add: htonl_word_le)

lemma bswap8_be [simp]: "bswap 8 (word_le (be 8 w)) = (w :: u64)"
  using bswap_word_le [of "be 8 w", where 'a = 64] by simp

text \<open>The fields of a frame by position.\<close>

lemma frame_take_len: "take 2 (frame cmd body) = be 2 (of_nat (length body + 7) :: u16)"
  by (simp add: frame_def frame_head_def)

lemma frame_cmd: "take 2 (drop 6 (frame cmd body)) = be 2 cmd"
  by (simp add: frame_def frame_head_def)

lemma frame_mark: "frame cmd body ! 2 = 0x42" "frame cmd body ! 3 = 0x59"
  by (simp_all add: frame_def frame_head_def nth_append)

lemma frame_check: "frame cmd body ! 8 = - sum_list body"
  by (simp add: frame_def frame_head_def nth_append)

lemma frame_body: "drop 9 (frame cmd body) = map enc_byte body"
  by (simp add: frame_def)

text \<open>The bodies of the two messages: the client's data request and the server's reply.\<close>

definition request_body :: "u32 \<Rightarrow> u64 \<Rightarrow> byte list \<Rightarrow> byte list" where
  "request_body client_id event_id json =
     be 4 client_id @ be 8 event_id @ be 4 (of_nat (length json) :: u32) @ json"

definition reply_body :: "u64 \<Rightarrow> byte list" where
  "reply_body event_id = be 8 event_id"

lemma length_request_body [simp, buf_simps]: "length (request_body c e j) = 16 + length j"
  by (simp add: request_body_def)

lemma length_reply_body [simp, buf_simps]: "length (reply_body e) = 8"
  by (simp add: reply_body_def)

end
