(* ===== verification/ClientPacket.thy ===== *)
theory ClientPacket
  imports Wire
begin

text \<open>
  The client's packet buffer, \<open>packet_t\<close> of \<open>OrderSyncClient/inc/packet.h\<close> and
  \<open>OrderSyncClient/src/packet.cc\<close>. The state is the object's four fields; \<open>_data\<close> is \<open>None\<close> for
  \<open>NULL\<close> and otherwise the bytes of the allocated block. \<open>malloc\<close> is a parameter: \<open>malloc n\<close> is
  \<open>None\<close> when it fails and else a block, whose contents the code never relies on.

  An operation returns \<open>None\<close> where the code accesses memory outside the block (or through
  \<open>NULL\<close>). The constant result 0 of the \<open>write_\<close> functions is dropped. \<open>write_double\<close> and
  \<open>read_double\<close> (decimal floating-point text) are not modelled.
\<close>

section \<open>State\<close>

record packet_t =
  p_data :: "byte list option"
  p_sz :: u16
  p_idx :: u16
  p_len :: u16

record header_t =
  h_len :: u16
  h_mark :: "byte list"
  h_main :: byte
  h_sub :: byte
  h_cmd :: u16
  h_code :: byte

type_synonym malloc = "nat \<Rightarrow> byte list option"

definition new_packet :: packet_t where
  "new_packet = \<lparr>p_data = None, p_sz = 16384, p_idx = 0, p_len = 0\<rparr>"

text \<open>\<open>memcpy\<close> to and from an offset of the block.\<close>

definition put :: "nat \<Rightarrow> byte list \<Rightarrow> packet_t \<Rightarrow> packet_t option" where
  "put pos bs p = do {
     d \<leftarrow> p_data p;
     d' \<leftarrow> write_at pos bs d;
     Some (p\<lparr>p_data := Some d'\<rparr>) }"

definition get :: "nat \<Rightarrow> nat \<Rightarrow> packet_t \<Rightarrow> byte list option" where
  "get pos n p = do { d \<leftarrow> p_data p; read_at pos n d }"

section \<open>Building a packet\<close>

definition begin_packet :: "malloc \<Rightarrow> u16 \<Rightarrow> packet_t \<Rightarrow> (int \<times> packet_t) option" where
  "begin_packet malloc cmd p =
     (let p1 = (case p_data p of
                  Some _ \<Rightarrow> Some p
                | None \<Rightarrow> map_option (\<lambda>block. p\<lparr>p_data := Some block\<rparr>) (malloc (unat (p_sz p))))
      in case p1 of
           None \<Rightarrow> Some (- 1, p)
         | Some p1 \<Rightarrow> do {
             p2 \<leftarrow> put 6 (bytes_le 2 (htons cmd)) p1;
             Some (0, p2\<lparr>p_len := 9\<rparr>) })"

definition encode :: "packet_t \<Rightarrow> (int \<times> packet_t) option" where
  "encode p = do {
     let esz = p_len p - 9;
     body \<leftarrow> get 9 (unat esz) p;
     let (code, coded) = encode_loop 0 body;
     p1 \<leftarrow> put 9 coded p;
     p2 \<leftarrow> put 8 [NOT code + 1] p1;
     Some (int (unat esz), p2) }"

definition end_packet :: "packet_t \<Rightarrow> packet_t option" where
  "end_packet p = do {
     p1 \<leftarrow> put 0 (bytes_le 2 (htons (p_len p - 2))) p;
     p2 \<leftarrow> put 2 [0x42] p1;
     p3 \<leftarrow> put 3 [0x59] p2;
     p4 \<leftarrow> put 4 [1] p3;
     p5 \<leftarrow> put 5 [1] p4;
     (_, p6) \<leftarrow> encode p5;
     Some p6 }"

text \<open>The shape of every fixed-size \<open>write_\<close>: copy at \<open>_data + len\<close>, advance \<open>len\<close> (16 bits).\<close>

definition append_bytes :: "byte list \<Rightarrow> packet_t \<Rightarrow> packet_t option" where
  "append_bytes bs p = do {
     p1 \<leftarrow> put (unat (p_len p)) bs p;
     Some (p1\<lparr>p_len := p_len p + of_nat (length bs)\<rparr>) }"

definition write_int8 :: "byte \<Rightarrow> packet_t \<Rightarrow> packet_t option" where
  "write_int8 b = append_bytes [b]"

definition write_uint8 :: "byte \<Rightarrow> packet_t \<Rightarrow> packet_t option" where
  "write_uint8 b = append_bytes [b]"

definition write_int16 :: "u16 \<Rightarrow> packet_t \<Rightarrow> packet_t option" where
  "write_int16 s = append_bytes (bytes_le 2 (htons s))"

definition write_uint16 :: "u16 \<Rightarrow> packet_t \<Rightarrow> packet_t option" where
  "write_uint16 s = append_bytes (bytes_le 2 (htons s))"

definition write_int :: "u32 \<Rightarrow> packet_t \<Rightarrow> packet_t option" where
  "write_int i = append_bytes (bytes_le 4 (htonl i))"

definition write_uint :: "u32 \<Rightarrow> packet_t \<Rightarrow> packet_t option" where
  "write_uint u = append_bytes (bytes_le 4 (htonl u))"

definition htonll :: "u64 \<Rightarrow> u64" where
  "htonll u = bswap 8 u"

definition write_int64 :: "u64 \<Rightarrow> packet_t \<Rightarrow> packet_t option" where
  "write_int64 i = append_bytes (bytes_le 8 (htonll i))"

definition write_uint64 :: "u64 \<Rightarrow> packet_t \<Rightarrow> packet_t option" where
  "write_uint64 u = append_bytes (bytes_le 8 (htonll u))"

text \<open>
  The two \<open>write_string\<close>: the length, then \<open>strcpy\<close>, which also stores the terminator behind the
  bytes that \<open>len\<close> counts. A \<open>const char*\<close> argument is its bytes without the terminator; of a
  \<open>std::string\<close> \<open>strcpy\<close> copies the bytes before the first zero only.
\<close>

definition write_cstring :: "byte list \<Rightarrow> packet_t \<Rightarrow> packet_t option" where
  "write_cstring s p = do {
     let sz = (of_nat (length s) :: u32);
     p1 \<leftarrow> write_uint sz p;
     p2 \<leftarrow> put (unat (p_len p1)) (s @ [0]) p1;
     Some (p2\<lparr>p_len := p_len p1 + ucast sz\<rparr>) }"

definition write_string :: "byte list \<Rightarrow> packet_t \<Rightarrow> packet_t option" where
  "write_string s p = do {
     let sz = (of_nat (length s) :: u32);
     p1 \<leftarrow> write_uint sz p;
     p2 \<leftarrow> put (unat (p_len p1)) (takeWhile (\<lambda>b. b \<noteq> 0) s @ [0]) p1;
     Some (p2\<lparr>p_len := p_len p1 + ucast sz\<rparr>) }"

section \<open>Reading a packet\<close>

definition fetch :: "nat \<Rightarrow> packet_t \<Rightarrow> (byte list \<times> packet_t) option" where
  "fetch n p = do {
     bs \<leftarrow> get (unat (p_idx p)) n p;
     Some (bs, p\<lparr>p_idx := p_idx p + of_nat n\<rparr>) }"

definition read_int8 :: "packet_t \<Rightarrow> (byte \<times> packet_t) option" where
  "read_int8 p = do { (bs, p1) \<leftarrow> fetch 1 p; Some (word_le bs, p1) }"

definition read_uint8 :: "packet_t \<Rightarrow> (byte \<times> packet_t) option" where
  "read_uint8 p = do { (bs, p1) \<leftarrow> fetch 1 p; Some (word_le bs, p1) }"

definition read_int16 :: "packet_t \<Rightarrow> (u16 \<times> packet_t) option" where
  "read_int16 p = do { (bs, p1) \<leftarrow> fetch 2 p; Some (htons (word_le bs), p1) }"

definition read_uint16 :: "packet_t \<Rightarrow> (u16 \<times> packet_t) option" where
  "read_uint16 p = do { (bs, p1) \<leftarrow> fetch 2 p; Some (htons (word_le bs), p1) }"

definition read_int :: "packet_t \<Rightarrow> (u32 \<times> packet_t) option" where
  "read_int p = do { (bs, p1) \<leftarrow> fetch 4 p; Some (htonl (word_le bs), p1) }"

definition read_uint :: "packet_t \<Rightarrow> (u32 \<times> packet_t) option" where
  "read_uint p = do { (bs, p1) \<leftarrow> fetch 4 p; Some (htonl (word_le bs), p1) }"

definition read_int64 :: "packet_t \<Rightarrow> (u64 \<times> packet_t) option" where
  "read_int64 p = do { (bs, p1) \<leftarrow> fetch 8 p; Some (htonll (word_le bs), p1) }"

definition read_uint64 :: "packet_t \<Rightarrow> (u64 \<times> packet_t) option" where
  "read_uint64 p = do { (bs, p1) \<leftarrow> fetch 8 p; Some (htonll (word_le bs), p1) }"

text \<open>\<open>string(p, sz - 1)\<close>: the count is unsigned, so \<open>sz = 0\<close> asks for 4294967295 bytes.\<close>

definition read_string :: "packet_t \<Rightarrow> (byte list \<times> packet_t) option" where
  "read_string p = do {
     (sz, p1) \<leftarrow> read_uint p;
     s \<leftarrow> get (unat (p_idx p1)) (unat (sz - 1)) p1;
     Some (s, p1\<lparr>p_idx := p_idx p1 + ucast sz\<rparr>) }"

definition get_header :: "packet_t \<Rightarrow> header_t option" where
  "get_header p = do {
     bs \<leftarrow> get 0 9 p;
     Some \<lparr>h_len = word_le (take 2 bs), h_mark = take 2 (drop 2 bs), h_main = bs ! 4,
           h_sub = bs ! 5, h_cmd = word_le (take 2 (drop 6 bs)), h_code = bs ! 8\<rparr> }"

definition decode :: "packet_t \<Rightarrow> (int \<times> packet_t) option" where
  "decode p = do {
     let dsz = p_len p - 9;
     code0 \<leftarrow> get 8 1 p;
     coded \<leftarrow> get 9 (unat dsz) p;
     let (code, body) = decode_loop (word_le code0) coded;
     p1 \<leftarrow> put 9 body p;
     Some (if code \<noteq> 0 then - 1 else int (unat dsz), p1) }"

definition parse_packet ::
    "malloc \<Rightarrow> byte list \<Rightarrow> u16 \<Rightarrow> packet_t \<Rightarrow> (int \<times> packet_t) option" where
  "parse_packet malloc buf sz p =
     (let p1 = (case p_data p of
                  Some _ \<Rightarrow> Some p
                | None \<Rightarrow> map_option
                    (\<lambda>block. p\<lparr>p_data := Some block, p_sz := sz, p_len := sz, p_idx := 9\<rparr>)
                    (malloc (unat sz)))
      in case p1 of
           None \<Rightarrow> Some (- 1, p)
         | Some p1 \<Rightarrow> do {
             src \<leftarrow> read_at 0 (unat sz) buf;
             p2 \<leftarrow> put 0 src p1;
             (ret, p3) \<leftarrow> decode (p2\<lparr>p_len := sz, p_idx := 9\<rparr>);
             Some (if ret = - 1 then - 1 else 0, p3) })"

definition clean :: "packet_t \<Rightarrow> packet_t option" where
  "clean p = do {
     p1 \<leftarrow> (case p_data p of None \<Rightarrow> Some p | Some _ \<Rightarrow> put 0 (replicate (unat (p_sz p)) 0) p);
     Some (p1\<lparr>p_idx := 0, p_len := 0\<rparr>) }"

section \<open>A packet under construction\<close>

text \<open>
  \<open>packet_wf\<close> is the invariant of a packet between \<open>begin\<close> and \<open>end\<close>: there is a block of \<open>sz\<close>
  bytes and \<open>len\<close> lies between the header and its end. \<open>payload\<close> is what has been written behind
  the header, \<open>contents\<close> the \<open>len\<close> bytes that \<open>get_data\<close> and \<open>get_len\<close> hand to the socket.
\<close>

definition packet_wf :: "packet_t \<Rightarrow> bool" where
  "packet_wf p = (case p_data p of None \<Rightarrow> False
     | Some d \<Rightarrow> length d = unat (p_sz p) \<and> 9 \<le> unat (p_len p) \<and> unat (p_len p) \<le> length d)"

definition block :: "packet_t \<Rightarrow> byte list" where
  "block p = (case p_data p of None \<Rightarrow> [] | Some d \<Rightarrow> d)"

definition contents :: "packet_t \<Rightarrow> byte list" where
  "contents p = take (unat (p_len p)) (block p)"

definition payload :: "packet_t \<Rightarrow> byte list" where
  "payload p = drop 9 (contents p)"

definition command_bytes :: "packet_t \<Rightarrow> byte list" where
  "command_bytes p = take 2 (drop 6 (block p))"

lemma packet_wfE:
  assumes "packet_wf p"
  obtains d where "p_data p = Some d" "length d = unat (p_sz p)" "9 \<le> unat (p_len p)"
    "unat (p_len p) \<le> length d" "block p = d"
  using assms by (auto simp: packet_wf_def block_def split: option.splits)

lemma length_contents [simp]: "packet_wf p \<Longrightarrow> length (contents p) = unat (p_len p)"
  by (elim packet_wfE) (simp add: contents_def)

lemma length_payload: "packet_wf p \<Longrightarrow> length (payload p) = unat (p_len p) - 9"
  by (simp add: payload_def)

lemma put_block:
  assumes "p_data p = Some d" and "pos + length bs \<le> length d"
  shows "put pos bs p = Some (p\<lparr>p_data := Some (take pos d @ bs @ drop (pos + length bs) d)\<rparr>)"
  using assms by (simp add: put_def buf_simps)

text \<open>
  The contract of the writes: with room for the bytes in the block, the write succeeds and the
  payload grows by as many of them as \<open>len\<close> counts; without, it runs out of the block.
\<close>

lemma put_advance:
  assumes wf: "packet_wf p" and room: "unat (p_len p) + length bs \<le> unat (p_sz p)"
    and n: "n \<le> length bs"
  obtains p1 p' where "put (unat (p_len p)) bs p = Some p1"
    "p' = p1\<lparr>p_len := p_len p + of_nat n\<rparr>" "packet_wf p'" "payload p' = payload p @ take n bs"
    "p_sz p' = p_sz p" "p_len p1 = p_len p" "command_bytes p' = command_bytes p"
    "unat (p_len p') = unat (p_len p) + n"
proof -
  from wf obtain d where d: "p_data p = Some d" "length d = unat (p_sz p)" "9 \<le> unat (p_len p)"
    "unat (p_len p) \<le> length d" "block p = d" by (rule packet_wfE)
  define l where "l = unat (p_len p)"
  have l: "l + length bs \<le> length d" "9 \<le> l" using room d by (simp_all add: l_def)
  define d' where "d' = take l d @ bs @ drop (l + length bs) d"
  define p1 where "p1 = p\<lparr>p_data := Some d'\<rparr>"
  define p' where "p' = p1\<lparr>p_len := p_len p + of_nat n\<rparr>"
  have len: "unat (p_len p') = l + n"
    using unat_add_of_nat16 [of "p_len p" n] room n unat_u16_lt [of "p_sz p"]
    by (simp add: p'_def l_def)
  have put: "put (unat (p_len p)) bs p = Some p1"
    using put_block [OF d(1), of l bs] l by (simp add: p1_def d'_def l_def)
  have blk: "block p' = d'" by (simp add: block_def p'_def p1_def)
  have "length d' = length d" using l by (simp add: d'_def)
  then have wf': "packet_wf p'"
    using l len d(2) n by (simp add: packet_wf_def p'_def p1_def)
  have "contents p' = take l d @ take n bs"
    using l n by (simp add: contents_def blk len) (simp add: d'_def)
  then have pay: "payload p' = payload p @ take n bs"
    using l d by (simp add: payload_def contents_def l_def)
  have "take 2 (drop 6 d') = take 2 (drop 6 d)"
    using l by (simp add: d'_def drop_take)
  then have "command_bytes p' = command_bytes p"
    by (simp add: command_bytes_def blk d(5))
  with put wf' pay len show thesis
    by (intro that [of p1 p']) (simp_all add: p'_def p1_def l_def)
qed

lemma append_bytes_ok:
  assumes wf: "packet_wf p" and room: "unat (p_len p) + length bs \<le> unat (p_sz p)"
  obtains p' where "append_bytes bs p = Some p'" "packet_wf p'" "payload p' = payload p @ bs"
    "p_sz p' = p_sz p" "command_bytes p' = command_bytes p"
    "unat (p_len p') = unat (p_len p) + length bs"
proof -
  obtain p1 p' where "put (unat (p_len p)) bs p = Some p1"
    "p' = p1\<lparr>p_len := p_len p + of_nat (length bs)\<rparr>" "packet_wf p'"
    "payload p' = payload p @ take (length bs) bs" "p_sz p' = p_sz p"
    "command_bytes p' = command_bytes p" "unat (p_len p') = unat (p_len p) + length bs"
    by (rule put_advance [OF wf room order_refl])
  then show thesis by (intro that [of p']) (simp_all add: append_bytes_def)
qed

lemma append_bytes_overrun:
  assumes "p_data p = Some d" and "length d < unat (p_len p) + length bs"
  shows "append_bytes bs p = None"
  using assms by (simp add: append_bytes_def put_def write_at_def)

lemmas fixed_writes = write_int8_def write_uint8_def write_int16_def write_uint16_def
  write_int_def write_uint_def write_int64_def write_uint64_def

lemma takeWhile_nonzero: "0 \<notin> set s \<Longrightarrow> takeWhile (\<lambda>b. b \<noteq> (0 :: byte)) s = s"
  by auto

lemma write_string_ok:
  assumes wf: "packet_wf p" and room: "unat (p_len p) + length s + 5 \<le> unat (p_sz p)"
    and s: "0 \<notin> set s"
  obtains p' where "write_string s p = Some p'" "packet_wf p'"
    "payload p' = payload p @ be 4 (of_nat (length s) :: u32) @ s"
    "p_sz p' = p_sz p" "command_bytes p' = command_bytes p"
    "unat (p_len p') = unat (p_len p) + 4 + length s"
proof -
  let ?sz = "of_nat (length s) :: u32"
  have room1: "unat (p_len p) + length (be 4 ?sz) \<le> unat (p_sz p)" using room by simp
  obtain p1 where p1: "append_bytes (be 4 ?sz) p = Some p1" "packet_wf p1"
    "payload p1 = payload p @ be 4 ?sz" "p_sz p1 = p_sz p" "command_bytes p1 = command_bytes p"
    "unat (p_len p1) = unat (p_len p) + length (be 4 ?sz)"
    by (rule append_bytes_ok [OF wf room1])
  have room2: "unat (p_len p1) + length (s @ [0 :: byte]) \<le> unat (p_sz p1)"
    using p1 room by simp
  have n: "length s \<le> length (s @ [0 :: byte])" by simp
  obtain p2 p' where p2: "put (unat (p_len p1)) (s @ [0]) p1 = Some p2"
    "p' = p2\<lparr>p_len := p_len p1 + of_nat (length s)\<rparr>" "packet_wf p'"
    "payload p' = payload p1 @ take (length s) (s @ [0])" "p_sz p' = p_sz p1"
    "command_bytes p' = command_bytes p1" "unat (p_len p') = unat (p_len p1) + length s"
    by (rule put_advance [OF p1(2) room2 n])
  have "write_string s p = Some p'"
    using p1(1) p2(1,2) s
    by (simp add: write_string_def write_uint_def bytes_le_htonl takeWhile_nonzero
        ucast_of_nat_32_16)
  with p1 p2 show thesis by (intro that [of p']) simp_all
qed

lemma encode_ok:
  assumes wf: "packet_wf p"
  obtains q where "encode p = Some (int (length (payload p)), q)" "p_len q = p_len p"
    "p_sz q = p_sz p" "packet_wf q"
    "contents q = take 8 (contents p) @ [- sum_list (payload p)] @ map enc_byte (payload p)"
proof -
  from wf obtain d where d: "p_data p = Some d" "length d = unat (p_sz p)" "9 \<le> unat (p_len p)"
    "unat (p_len p) \<le> length d" "block p = d" by (rule packet_wfE)
  define l where "l = unat (p_len p)"
  have esz: "unat (p_len p - 9) = l - 9"
    using d(3) by (simp add: l_def unat_sub word_le_nat_alt)
  have esz_int: "uint (p_len p - 9) = int (l - 9)"
    by (simp only: uint_nat esz)
  define B where "B = take (l - 9) (drop 9 d)"
  have B: "length B = l - 9" "payload p = B"
    using d by (simp_all add: B_def payload_def contents_def l_def drop_take)
  have split_d: "d = take 8 d @ [d ! 8] @ B @ drop l d"
  proof -
    have "d = take 9 d @ B @ drop l d"
      using d(3,4) by (metis B_def append_take_drop_id drop_drop l_def le_add_diff_inverse2)
    moreover have "take 9 d = take 8 d @ [d ! 8]"
      using d(3,4) take_Suc_conv_app_nth [of 8 d] by simp
    ultimately show ?thesis by simp
  qed
  define e where "e = map enc_byte B"
  define d1 where "d1 = take 8 d @ [d ! 8] @ e @ drop l d"
  define d2 where "d2 = take 8 d @ [- sum_list B] @ e @ drop l d"
  have len8: "length (take 8 d) = 8" using d by simp
  have len9: "length (take 8 d @ [d ! 8]) = 9" using d by simp
  have "read_at 9 (l - 9) d = Some B"
    using d by (simp add: buf_simps l_def B_def)
  moreover have "write_at 9 e d = Some d1"
  proof -
    have "write_at 9 e ((take 8 d @ [d ! 8]) @ B @ drop l d) =
        Some ((take 8 d @ [d ! 8]) @ e @ drop l d)"
      by (rule write_at_append_mid [OF len9]) (simp add: e_def)
    with split_d show ?thesis by (simp add: d1_def)
  qed
  moreover have "write_at 8 [- sum_list B] d1 = Some d2"
    using write_at_append_mid [OF len8, of "[d ! 8]" "[- sum_list B]" "e @ drop l d"]
    by (simp add: d1_def d2_def)
  ultimately have enc: "encode p = Some (int (length (payload p)), p\<lparr>p_data := Some d2\<rparr>)"
    using d(1) by (simp add: encode_def get_def put_def esz esz_int encode_loop_eq B e_def [symmetric]
        not_eq_complement)
  have "length d2 = length d"
    using len8 d by (simp add: d2_def e_def B(1) l_def)
  moreover have "contents (p\<lparr>p_data := Some d2\<rparr>) =
      take 8 (contents p) @ [- sum_list (payload p)] @ map enc_byte (payload p)"
    using d len8 B by (simp add: contents_def block_def l_def [symmetric] d2_def e_def take_Cons')
  ultimately show thesis
    using enc d by (intro that [of "p\<lparr>p_data := Some d2\<rparr>"]) (simp_all add: packet_wf_def)
qed

section \<open>From begin to end: the frame\<close>

lemma begin_packet_ok:
  assumes sz: "9 \<le> unat (p_sz p)"
    and blk: "case p_data p of Some d \<Rightarrow> length d = unat (p_sz p)
                | None \<Rightarrow> (\<exists>b. malloc (unat (p_sz p)) = Some b \<and> length b = unat (p_sz p))"
  obtains q where "begin_packet malloc cmd p = Some (0, q)" "packet_wf q" "payload q = []"
    "command_bytes q = be 2 cmd" "p_len q = 9" "p_sz q = p_sz p"
proof -
  obtain d p1 where p1: "p1 = p\<lparr>p_data := Some d\<rparr>" and d: "length d = unat (p_sz p)"
    and get: "(case p_data p of Some _ \<Rightarrow> Some p
       | None \<Rightarrow> map_option (\<lambda>block. p\<lparr>p_data := Some block\<rparr>) (malloc (unat (p_sz p)))) = Some p1"
    using blk by (cases "p_data p") auto
  define d' where "d' = take 6 d @ be 2 cmd @ drop 8 d"
  define q where "q = p\<lparr>p_data := Some d', p_len := 9\<rparr>"
  have "begin_packet malloc cmd p = Some (0, q)"
    using sz d put_block [of p1 d 6 "be 2 cmd"]
    by (simp add: begin_packet_def get) (simp add: p1 bytes_le_htons q_def d'_def)
  moreover have "length d' = length d" using sz d by (simp add: d'_def)
  then have "packet_wf q" using sz d by (simp add: q_def packet_wf_def)
  moreover have "payload q = []"
    by (simp add: payload_def contents_def q_def)
  moreover have "command_bytes q = be 2 cmd"
    using sz d by (simp add: command_bytes_def block_def q_def d'_def)
  ultimately show thesis by (intro that [of q]) (simp_all add: q_def)
qed

text \<open>The header bytes that \<open>end\<close> stores before it calls \<open>encode\<close>.\<close>

lemma end_packet_head:
  assumes wf: "packet_wf p"
  obtains q where "end_packet p = map_option snd (encode q)" "packet_wf q"
    "contents q = be 2 (p_len p - 2) @ [0x42, 0x59, 1, 1] @ drop 6 (contents p)"
    "p_len q = p_len p" "p_sz q = p_sz p"
proof -
  from wf obtain d where d: "p_data p = Some d" "length d = unat (p_sz p)" "9 \<le> unat (p_len p)"
    "unat (p_len p) \<le> length d" "block p = d" by (rule packet_wfE)
  obtain a0 a1 a2 a3 a4 a5 r where r: "d = a0 # a1 # a2 # a3 # a4 # a5 # r"
    using d(3,4) by (cases d; cases "tl d"; cases "tl (tl d)"; cases "tl (tl (tl d))";
      cases "tl (tl (tl (tl d)))"; cases "tl (tl (tl (tl (tl d))))") auto
  have len2: "length (be 2 (p_len p - 2)) = Suc (Suc 0)" by simp
  obtain x y where xy: "be 2 (p_len p - 2) = [x, y]"
    using len2 unfolding length_Suc_conv by auto
  define d' where "d' = x # y # 0x42 # 0x59 # 1 # 1 # r"
  define q where "q = p\<lparr>p_data := Some d'\<rparr>"
  have "put 0 [x, y] p = Some (p\<lparr>p_data := Some (x # y # drop 2 d)\<rparr>)"
    "put 2 [0x42] (p\<lparr>p_data := Some (x # y # drop 2 d)\<rparr>) =
       Some (p\<lparr>p_data := Some (x # y # 0x42 # drop 3 d)\<rparr>)"
    "put 3 [0x59] (p\<lparr>p_data := Some (x # y # 0x42 # drop 3 d)\<rparr>) =
       Some (p\<lparr>p_data := Some (x # y # 0x42 # 0x59 # drop 4 d)\<rparr>)"
    "put 4 [1] (p\<lparr>p_data := Some (x # y # 0x42 # 0x59 # drop 4 d)\<rparr>) =
       Some (p\<lparr>p_data := Some (x # y # 0x42 # 0x59 # 1 # drop 5 d)\<rparr>)"
    "put 5 [1] (p\<lparr>p_data := Some (x # y # 0x42 # 0x59 # 1 # drop 5 d)\<rparr>) = Some q"
    by (simp_all add: put_def write_at_def d(1) r q_def d'_def eval_nat_numeral)
  then have ep: "end_packet p = map_option snd (encode q)"
    by (cases "encode q") (auto simp: end_packet_def bytes_le_htons xy)
  have wfq: "packet_wf q" using d r by (simp add: packet_wf_def q_def d'_def)
  have "contents q = be 2 (p_len p - 2) @ [0x42, 0x59, 1, 1] @ drop 6 (contents p)"
    using d r by (simp add: contents_def q_def block_def d'_def xy take_Cons' drop_take)
  with ep wfq show thesis by (intro that [of q]) (simp_all add: q_def)
qed

lemma end_packet_ok:
  assumes wf: "packet_wf p" and cmd: "command_bytes p = be 2 cmd"
  obtains q where "end_packet p = Some q" "contents q = frame cmd (payload p)" "packet_wf q"
    "p_len q = p_len p" "p_sz q = p_sz p"
proof -
  obtain q where q: "end_packet p = map_option snd (encode q)" "packet_wf q"
    "contents q = be 2 (p_len p - 2) @ [0x42, 0x59, 1, 1] @ drop 6 (contents p)"
    "p_len q = p_len p" "p_sz q = p_sz p" by (rule end_packet_head [OF wf])
  obtain r where r: "encode q = Some (int (length (payload q)), r)" "p_len r = p_len q"
    "p_sz r = p_sz q" "packet_wf r"
    "contents r = take 8 (contents q) @ [- sum_list (payload q)] @ map enc_byte (payload q)"
    by (rule encode_ok [OF q(2)])
  from wf obtain d where d: "p_data p = Some d" "length d = unat (p_sz p)" "9 \<le> unat (p_len p)"
    "unat (p_len p) \<le> length d" "block p = d" by (rule packet_wfE)
  have pay: "payload q = payload p"
    using wf by (simp add: payload_def q(3))
  have "take 2 (drop 6 (contents p)) = command_bytes p"
    using d by (simp add: contents_def command_bytes_def drop_take min_def)
  then have t8: "take 8 (contents q) = be 2 (p_len p - 2) @ [0x42, 0x59, 1, 1] @ be 2 cmd"
    using d(3) cmd by (simp add: q(3))
  have "unat (p_len p - 2) = unat (p_len p) - 2"
    using d(3) by (simp add: unat_sub word_le_nat_alt)
  then have "p_len p - 2 = (of_nat (length (payload p) + 7) :: u16)"
    using length_payload [OF wf] d(3) unat_u16_lt [of "p_len p"]
      unat_of_nat16 [of "length (payload p) + 7"]
    by (intro word_unat_eq_iff [THEN iffD2]) linarith
  then have "contents r = frame cmd (payload p)"
    by (simp only: r(5) pay t8 frame_def frame_head_def append_assoc)
  with q r show thesis by (intro that [of r]) simp_all
qed

section \<open>Parsing and reading\<close>

lemma decode_ok:
  assumes d: "p_data p = Some (H @ [c] @ B @ post)" and H: "length H = 8"
    and len: "unat (p_len p) = 9 + length B"
  shows "decode p = Some (if c + sum_list (map dec_byte B) \<noteq> 0 then - 1 else int (length B),
           p\<lparr>p_data := Some (H @ [c] @ map dec_byte B @ post)\<rparr>)"
proof -
  have dsz: "unat (p_len p - 9) = length B"
    using len by (simp add: unat_sub word_le_nat_alt)
  have dsz_int: "uint (p_len p - 9) = int (length B)"
    by (simp only: uint_nat dsz)
  have H9: "length (H @ [c]) = 9" using H by simp
  have "read_at 8 1 (H @ [c] @ B @ post) = Some [c]"
    by (rule read_at_append_mid) (simp_all add: H)
  moreover have "read_at 9 (length B) (H @ [c] @ B @ post) = Some B"
    using read_at_append_mid [OF H9 refl, of B post] by simp
  moreover have "write_at 9 (map dec_byte B) (H @ [c] @ B @ post) =
      Some (H @ [c] @ map dec_byte B @ post)"
    using write_at_append_mid [OF H9, of B "map dec_byte B" post] by simp
  ultimately show ?thesis
    by (simp only: decode_def get_def put_def d dsz dsz_int decode_loop_eq)
       (simp add: dsz dsz_int)
qed

text \<open>The object a \<open>parse_packet\<close> may be called on: no block yet, or one that is large enough.\<close>

definition receptive :: "malloc \<Rightarrow> nat \<Rightarrow> packet_t \<Rightarrow> bool" where
  "receptive malloc n p = (case p_data p of
     Some d \<Rightarrow> n \<le> length d
   | None \<Rightarrow> (case malloc n of None \<Rightarrow> False | Some b \<Rightarrow> length b = n))"

definition unread :: "packet_t \<Rightarrow> byte list" where
  "unread p = drop (unat (p_idx p)) (block p)"

lemma parse_packet_ok:
  assumes rec: "receptive malloc (unat sz) p"
    and buf: "buf = H @ [c] @ B @ rest" "length H = 8" "unat sz = 9 + length B"
  obtains q post where
    "parse_packet malloc buf sz p =
       Some (if c + sum_list (map dec_byte B) \<noteq> 0 then - 1 else 0, q)"
    "block q = H @ [c] @ map dec_byte B @ post" "unread q = map dec_byte B @ post"
    "p_idx q = 9" "p_len q = sz" "p_data p = None \<Longrightarrow> post = []"
proof -
  obtain d p1 where d: "p_data p1 = Some d" "unat sz \<le> length d"
    "p_data p = None \<Longrightarrow> length d = unat sz"
    and p1: "(case p_data p of Some _ \<Rightarrow> Some p
        | None \<Rightarrow> map_option
            (\<lambda>block. p\<lparr>p_data := Some block, p_sz := sz, p_len := sz, p_idx := 9\<rparr>)
            (malloc (unat sz))) = Some p1"
  proof (cases "p_data p")
    case None
    then obtain b where b: "malloc (unat sz) = Some b" "length b = unat sz"
      using rec by (auto simp: receptive_def split: option.splits)
    show ?thesis
      by (rule that [of "p\<lparr>p_data := Some b, p_sz := sz, p_len := sz, p_idx := 9\<rparr>" b])
         (simp_all add: None b)
  next
    case (Some a)
    then show ?thesis using rec by (intro that [of p a]) (simp_all add: receptive_def)
  qed
  define post where "post = drop (unat sz) d"
  define p2 where "p2 = p1\<lparr>p_data := Some (H @ [c] @ B @ post)\<rparr>"
  define p3 where "p3 = p2\<lparr>p_len := sz, p_idx := 9\<rparr>"
  define q where "q = p3\<lparr>p_data := Some (H @ [c] @ map dec_byte B @ post)\<rparr>"
  have src: "read_at 0 (unat sz) buf = Some (H @ [c] @ B)"
    using buf by (simp add: read_at_def)
  have put: "put 0 (H @ [c] @ B) p1 = Some p2"
    using put_block [OF d(1), of 0 "H @ [c] @ B"] d(2) buf
    by (simp add: p2_def post_def)
  have dec: "decode p3 = Some (if c + sum_list (map dec_byte B) \<noteq> 0 then - 1 else int (length B), q)"
    unfolding q_def by (rule decode_ok) (simp_all add: p3_def p2_def buf)
  have "parse_packet malloc buf sz p =
      Some (if c + sum_list (map dec_byte B) \<noteq> 0 then - 1 else 0, q)"
    unfolding parse_packet_def p1
    by (simp only: Let_def option.case src put bind.bind_lunit p3_def [symmetric] dec) simp
  moreover have "block q = H @ [c] @ map dec_byte B @ post" by (simp add: q_def block_def)
  moreover have "unread q = map dec_byte B @ post"
    using buf by (simp add: unread_def block_def q_def p3_def)
  moreover have "p_data p = None \<Longrightarrow> post = []" using d by (simp add: post_def)
  ultimately show thesis
    by (intro that [of q post]) (simp_all add: q_def p3_def)
qed

lemma parse_frame_ok:
  assumes rec: "receptive malloc (unat sz) p" and sz: "unat sz = 9 + length body"
  obtains q post where "parse_packet malloc (frame cmd body @ rest) sz p = Some (0, q)"
    "block q = frame_head cmd body @ body @ post" "unread q = body @ post" "p_idx q = 9"
    "p_len q = sz"
proof -
  define H where "H = be 2 (of_nat (length body + 7) :: u16) @ [0x42, 0x59, 1, 1] @ be 2 cmd"
  have H: "length H = 8" "frame_head cmd body = H @ [- sum_list body]"
    by (simp_all add: H_def frame_head_def)
  have buf: "frame cmd body @ rest = H @ [- sum_list body] @ map enc_byte body @ rest"
    by (simp add: frame_def H(2))
  have len: "unat sz = 9 + length (map enc_byte body)" using sz by simp
  obtain q post where "parse_packet malloc (frame cmd body @ rest) sz p =
      Some (if - sum_list body + sum_list (map dec_byte (map enc_byte body)) \<noteq> 0 then - 1 else 0, q)"
    "block q = H @ [- sum_list body] @ map dec_byte (map enc_byte body) @ post"
    "unread q = map dec_byte (map enc_byte body) @ post" "p_idx q = 9" "p_len q = sz"
    by (rule parse_packet_ok [OF rec buf H(1) len])
  then show thesis by (intro that [of q post]) (simp_all add: comp_def H(2))
qed

text \<open>The contract of the reads: the next bytes of the unread part.\<close>

lemma fetch_ok:
  assumes u: "unread p = bs @ rest" and room: "unat (p_idx p) + length bs < 65536" "bs \<noteq> []"
    and d: "p_data p \<noteq> None"
  obtains q where "fetch (length bs) p = Some (bs, q)" "unread q = rest"
    "unat (p_idx q) = unat (p_idx p) + length bs" "p_data q = p_data p"
proof -
  obtain d' where d': "p_data p = Some d'" using d by auto
  define q where "q = p\<lparr>p_idx := p_idx p + of_nat (length bs)\<rparr>"
  have dr: "drop (unat (p_idx p)) d' = bs @ rest" using u d' by (simp add: unread_def block_def)
  then have "length (drop (unat (p_idx p)) d') = length bs + length rest" by simp
  then have "unat (p_idx p) + length bs \<le> length d'" using room(2) by (cases bs) auto
  then have "fetch (length bs) p = Some (bs, q)"
    using d' dr by (simp add: fetch_def get_def read_at_def q_def)
  moreover have idx: "unat (p_idx q) = unat (p_idx p) + length bs"
    using room unat_add_of_nat16 [of "p_idx p" "length bs"] by (simp add: q_def)
  moreover have "unread q = rest"
  proof -
    have "drop (unat (p_idx p) + length bs) d' = drop (length bs) (drop (unat (p_idx p)) d')"
      by (simp add: add.commute)
    then have "drop (unat (p_idx p) + length bs) d' = rest" by (simp add: dr)
    then show ?thesis using d' idx by (simp add: unread_def block_def q_def)
  qed
  ultimately show thesis using d' by (intro that [of q]) (simp_all add: q_def)
qed

lemma read_uint64_ok:
  assumes u: "unread p = be 8 w @ rest" and room: "unat (p_idx p) + 8 < 65536"
    and d: "p_data p \<noteq> None"
  obtains q where "read_uint64 p = Some (w, q)" "unread q = rest"
    "unat (p_idx q) = unat (p_idx p) + 8" "p_data q = p_data p"
proof -
  have ne: "be 8 w \<noteq> []" using length_be [of 8 w] by (cases "be 8 w") auto
  have room': "unat (p_idx p) + length (be 8 w) < 65536" using room by simp
  obtain q where "fetch (length (be 8 w)) p = Some (be 8 w, q)" "unread q = rest"
    "unat (p_idx q) = unat (p_idx p) + length (be 8 w)" "p_data q = p_data p"
    by (rule fetch_ok [OF u room' ne d])
  then show thesis by (intro that [of q]) (simp_all add: read_uint64_def htonll_def)
qed

lemma read_uint_ok:
  assumes u: "unread p = be 4 w @ rest" and room: "unat (p_idx p) + 4 < 65536"
    and d: "p_data p \<noteq> None"
  obtains q where "read_uint p = Some (w, q)" "unread q = rest"
    "unat (p_idx q) = unat (p_idx p) + 4" "p_data q = p_data p"
proof -
  have ne: "be 4 w \<noteq> []" using length_be [of 4 w] by (cases "be 4 w") auto
  have room': "unat (p_idx p) + length (be 4 w) < 65536" using room by simp
  obtain q where "fetch (length (be 4 w)) p = Some (be 4 w, q)" "unread q = rest"
    "unat (p_idx q) = unat (p_idx p) + length (be 4 w)" "p_data q = p_data p"
    by (rule fetch_ok [OF u room' ne d])
  then show thesis by (intro that [of q]) (simp_all add: read_uint_def)
qed

text \<open>
  \<open>read_string\<close> returns one byte less than the length field counts, although \<open>write_string\<close> does
  not count the terminator.
\<close>

lemma read_string_ok:
  assumes u: "unread p = be 4 (of_nat (length s) :: u32) @ s @ rest" and s: "s \<noteq> []"
    and room: "unat (p_idx p) + 4 + length s < 65536" and d: "p_data p \<noteq> None"
  obtains q where "read_string p = Some (butlast s, q)" "unread q = rest"
    "unat (p_idx q) = unat (p_idx p) + 4 + length s" "p_data q = p_data p"
proof -
  have room4: "unat (p_idx p) + 4 < 65536" using room by simp
  obtain p1 where p1: "read_uint p = Some (of_nat (length s), p1)" "unread p1 = s @ rest"
    "unat (p_idx p1) = unat (p_idx p) + 4" "p_data p1 = p_data p"
    by (rule read_uint_ok [OF u room4 d])
  have room1: "unat (p_idx p1) + length s < 65536" using room p1 by simp
  obtain q where q: "fetch (length s) p1 = Some (s, q)" "unread q = rest"
    "unat (p_idx q) = unat (p_idx p1) + length s" "p_data q = p_data p1"
    using fetch_ok [OF p1(2) room1 s] d p1(4) by metis
  have len: "length s < 4294967296" "1 \<le> length s" using room s by (cases s; simp)+
  then have minus1: "unat ((of_nat (length s) :: u32) - 1) = length s - 1"
    by (simp add: unat_sub word_le_nat_alt unat_of_nat32)
  obtain d' where d': "p_data p1 = Some d'" "read_at (unat (p_idx p1)) (length s) d' = Some s"
    using q(1) by (auto simp: fetch_def get_def split: bind_splits)
  then have "read_at (unat (p_idx p1)) (length s - 1) d' = Some (butlast s)"
    by (intro read_at_butlast)
  then have "read_string p =
      Some (butlast s, p1\<lparr>p_idx := p_idx p1 + of_nat (length s)\<rparr>)"
    by (simp only: read_string_def p1(1) minus1 get_def d'(1) bind.bind_lunit prod.case
        ucast_of_nat_32_16)
  moreover have "q = p1\<lparr>p_idx := p_idx p1 + of_nat (length s)\<rparr>"
    using q(1) by (auto simp: fetch_def split: bind_splits)
  ultimately show thesis using q p1 by (intro that [of q]) simp_all
qed

section \<open>Properties\<close>

text \<open>
  Closing a packet that is being built turns it into the protocol's frame of the command given
  to \<open>begin\<close> around the written payload: length, mark, versions, command, check byte and
  substituted body are all in place, and nothing outside the block is touched.
\<close>

theorem end_yields_frame:
  assumes "packet_wf p" and "command_bytes p = be 2 cmd"
  shows "\<exists>q. end_packet p = Some q \<and> contents q = frame cmd (payload p) \<and> packet_wf q"
  by (rule end_packet_ok [OF assms]) blast

definition sample_packet :: packet_t where
  "sample_packet = \<lparr>p_data = Some [0, 0, 0, 0, 0, 0, 0x10, 0x02, 0, 7, 9, 0], p_sz = 12, p_idx = 0,
     p_len = 11\<rparr>"

theorem end_yields_frame_witness:
  "\<exists>q. end_packet sample_packet = Some q \<and> contents q = frame 0x1002 (payload sample_packet) \<and>
       packet_wf q"
proof (rule end_yields_frame)
  show "packet_wf sample_packet" by code_simp
  show "command_bytes sample_packet = be 2 (0x1002 :: u16)" by code_simp
qed

text \<open>
  C11: A frame that arrives in the receive buffer is accepted by \<open>parse_packet\<close> whatever follows it
  there, its body is recovered exactly, and the read index stands at its first byte.
\<close>

theorem parse_recovers_body:
  assumes "receptive malloc (unat sz) p" and "unat sz = 9 + length body"
  shows "\<exists>q post. parse_packet malloc (frame cmd body @ rest) sz p = Some (0, q) \<and>
           unread q = body @ post \<and> p_idx q = 9 \<and> p_len q = sz"
  by (rule parse_frame_ok [OF assms]) blast

theorem parse_recovers_body_witness:
  "\<exists>q post. parse_packet (\<lambda>n. Some (replicate n 0)) (frame 0x1002 [1, 2] @ [99]) 11 new_packet =
      Some (0, q) \<and> unread q = [1, 2] @ post \<and> p_idx q = 9 \<and> p_len q = 11"
proof (rule parse_recovers_body)
  show "receptive (\<lambda>n. Some (replicate n 0)) (unat (11 :: u16)) new_packet" by code_simp
  show "unat (11 :: u16) = 9 + length [1 :: byte, 2]" by code_simp
qed

text \<open>
  C35: A frame in which one body byte was changed on the way is rejected: \<open>parse_packet\<close> returns -1.
\<close>

theorem parse_rejects_corruption:
  assumes rec: "receptive malloc (unat sz) p" and sz: "unat sz = 9 + length body"
    and split: "map enc_byte body = xs @ b # ys" and bad: "b' \<noteq> b"
  shows "\<exists>q. parse_packet malloc (frame_head cmd body @ xs @ b' # ys) sz p = Some (- 1, q)"
proof -
  define H where "H = be 2 (of_nat (length body + 7) :: u16) @ [0x42, 0x59, 1, 1] @ be 2 cmd"
  have H: "length H = 8" "frame_head cmd body = H @ [- sum_list body]"
    by (simp_all add: H_def frame_head_def)
  have "- sum_list body + sum_list (map dec_byte (xs @ b # ys)) = 0"
    by (simp only: split [symmetric]) (simp add: comp_def)
  then have "fst (decode_loop (- sum_list body) (xs @ b # ys)) = 0"
    by (simp only: decode_loop_eq fst_conv)
  then have "fst (decode_loop (- sum_list body) (xs @ b' # ys)) \<noteq> 0"
    using bad by (rule c2c.single_error_detected)
  then have ne: "- sum_list body + sum_list (map dec_byte (xs @ b' # ys)) \<noteq> 0"
    by (simp only: decode_loop_eq fst_conv not_False_eq_True)
  have len: "unat sz = 9 + length (xs @ b' # ys)"
    using arg_cong [OF split, of length] sz by simp
  have buf: "frame_head cmd body @ xs @ b' # ys = H @ [- sum_list body] @ (xs @ b' # ys) @ []"
    by (simp add: H(2))
  obtain q where "parse_packet malloc (frame_head cmd body @ xs @ b' # ys) sz p =
      Some (if - sum_list body + sum_list (map dec_byte (xs @ b' # ys)) \<noteq> 0 then - 1 else 0, q)"
    by (rule parse_packet_ok [OF rec buf H(1) len])
  with ne show ?thesis by (simp only: if_True not_False_eq_True) blast
qed

theorem parse_rejects_corruption_witness:
  "\<exists>q. parse_packet (\<lambda>n. Some (replicate n 0)) (frame_head 0x1002 [1, 2] @ [47] @ 65 # []) 11
     new_packet = Some (- 1, q)"
proof (rule parse_rejects_corruption)
  show "receptive (\<lambda>n. Some (replicate n 0)) (unat (11 :: u16)) new_packet" by code_simp
  show "unat (11 :: u16) = 9 + length [1 :: byte, 2]" by code_simp
  show "map enc_byte [1, 2] = [47] @ 64 # []" by code_simp
  show "(65 :: byte) \<noteq> 64" by simp
qed

text \<open>
  The write functions have no bounds check: a value that does not fit into what is left of the
  block is written past its end (\<open>None\<close>).
\<close>

theorem write_past_the_block:
  assumes "packet_wf p" and "unat (p_sz p) < unat (p_len p) + 8"
  shows "write_uint64 u p = None"
  using assms by (elim packet_wfE) (simp add: write_uint64_def append_bytes_overrun)

theorem write_past_the_block_witness: "write_uint64 5 sample_packet = None"
  by (rule write_past_the_block) code_simp+

text \<open>
  A string of at least one byte written with \<open>write_string\<close> is read back by \<open>read_string\<close>
  without its last byte.
\<close>

theorem string_loses_last_byte:
  assumes "unread p = be 4 (of_nat (length s) :: u32) @ s @ rest" and "s \<noteq> []"
    and "unat (p_idx p) + 4 + length s < 65536" and "p_data p \<noteq> None"
  shows "\<exists>q. read_string p = Some (butlast s, q) \<and> unread q = rest"
  by (rule read_string_ok [OF assms]) blast

theorem string_loses_last_byte_witness:
  "\<exists>q. read_string \<lparr>p_data = Some [0, 0, 0, 3, 97, 98, 99], p_sz = 7, p_idx = 0, p_len = 7\<rparr> =
     Some (butlast [97, 98, 99], q) \<and> unread q = []"
proof (rule string_loses_last_byte)
  show "unread \<lparr>p_data = Some [0, 0, 0, 3, 97, 98, 99], p_sz = 7, p_idx = 0, p_len = 7\<rparr> =
      be 4 (of_nat (length [97 :: byte, 98, 99]) :: u32) @ [97, 98, 99] @ []"
    by code_simp
qed simp_all

end
