(* ===== verification/ServerPacket.thy ===== *)
theory ServerPacket
  imports Wire
begin

text \<open>
  The server's packets, \<open>proxy/ICHAT_PacketBase.h\<close>: the template \<open>PacketBase\<close> and its two
  subclasses, and \<open>CEncryptDecrypt\<close> (\<open>proxy/EncryptDecrypt.cpp\<close>). The record \<open>base_packet\<close> is
  \<open>PacketBase\<close>; its extension by \<open>m_isCheckCode\<close> is \<open>OutputPacket\<close>, and \<open>InputPacket\<close> adds no
  state. The template parameter is the length of \<open>m_strBuf\<close> (8192 for the NET packets). The base
  operations are polymorphic in the extension, as the inherited methods are.

  An operation is \<open>None\<close> where the code leaves the buffer, overflows an \<open>int\<close> or copies overlapping
  ranges with \<open>memcpy\<close>. A \<open>short\<close> is the 16 bits it holds. The constructor leaves the members
  uninitialised, so nothing is assumed of a packet before \<open>Copy\<close>, \<open>Begin\<close> or \<open>Reset\<close>.
\<close>

section \<open>State\<close>

record base_packet =
  m_strBuf :: "byte list"
  m_nPacketSize :: int
  m_nBufPos :: int

record output_packet = base_packet +
  m_isCheckCode :: bool

definition PACKET_HEADER_SIZE :: nat where
  "PACKET_HEADER_SIZE = 9"

definition PACKET_BUFFER_SIZE :: "'a base_packet_scheme \<Rightarrow> int" where
  "PACKET_BUFFER_SIZE p = int (length (m_strBuf p))"

section \<open>PacketBase\<close>

definition base_reset :: "'a base_packet_scheme \<Rightarrow> 'a base_packet_scheme" where
  "base_reset p = p\<lparr>m_strBuf := replicate (length (m_strBuf p)) 0,
     m_nBufPos := int PACKET_HEADER_SIZE, m_nPacketSize := int PACKET_HEADER_SIZE\<rparr>"

definition base_copy ::
    "byte list \<Rightarrow> int \<Rightarrow> 'a base_packet_scheme \<Rightarrow> (bool \<times> 'a base_packet_scheme) option" where
  "base_copy pInBuf nLen p =
     (if nLen > PACKET_BUFFER_SIZE p then Some (False, p)
      else do {
        let p1 = base_reset p;
        src \<leftarrow> read_i 0 nLen pInBuf;
        b \<leftarrow> write_at 0 src (m_strBuf p1);
        Some (True, p1\<lparr>m_strBuf := b, m_nPacketSize := nLen\<rparr>) })"

text \<open>The header accessors; where the guard fails the out-parameter stays uninitialised.\<close>

definition base_readHeader :: "nat \<Rightarrow> nat \<Rightarrow> 'a base_packet_scheme \<Rightarrow> byte list option" where
  "base_readHeader nLen nPos p =
     (if nPos > 0 \<or> nPos + nLen < PACKET_HEADER_SIZE then read_at nPos nLen (m_strBuf p) else None)"

definition base_writeHeader ::
    "byte list \<Rightarrow> nat \<Rightarrow> 'a base_packet_scheme \<Rightarrow> 'a base_packet_scheme option" where
  "base_writeHeader pIn nPos p =
     (if nPos > 0 \<or> nPos + length pIn < PACKET_HEADER_SIZE
      then map_option (\<lambda>b. p\<lparr>m_strBuf := b\<rparr>) (write_at nPos pIn (m_strBuf p))
      else Some p)"

definition base_begin ::
    "u16 \<Rightarrow> byte \<Rightarrow> byte \<Rightarrow> 'a base_packet_scheme \<Rightarrow> 'a base_packet_scheme option" where
  "base_begin nCmdType cVersion cSubVersion p = do {
     let p0 = base_reset p;
     let cmd = htons nCmdType;
     p1 \<leftarrow> base_writeHeader [0x42, 0x59] 2 p0;
     p2 \<leftarrow> base_writeHeader [cVersion] 4 p1;
     p3 \<leftarrow> base_writeHeader [cSubVersion] 5 p2;
     base_writeHeader (bytes_le 2 cmd) 6 p3 }"

definition base_SetBegin :: "u16 \<Rightarrow> 'a base_packet_scheme \<Rightarrow> 'a base_packet_scheme option" where
  "base_SetBegin nCmdType p = base_writeHeader (bytes_le 2 (htons nCmdType)) 6 p"

definition GetCmdType :: "'a base_packet_scheme \<Rightarrow> u16 option" where
  "GetCmdType p = do { bs \<leftarrow> base_readHeader 2 6 p; Some (htons (word_le bs)) }"

definition GetVersion :: "'a base_packet_scheme \<Rightarrow> byte option" where
  "GetVersion p = do { bs \<leftarrow> base_readHeader 1 4 p; Some (word_le bs) }"

definition GetSubVersion :: "'a base_packet_scheme \<Rightarrow> byte option" where
  "GetSubVersion p = do { bs \<leftarrow> base_readHeader 1 5 p; Some (word_le bs) }"

definition GetBodyLength :: "'a base_packet_scheme \<Rightarrow> u16 option" where
  "GetBodyLength p = do { bs \<leftarrow> base_readHeader 2 0 p; Some (htons (word_le bs)) }"

definition GetcbCheckCode :: "'a base_packet_scheme \<Rightarrow> byte option" where
  "GetcbCheckCode p = do { bs \<leftarrow> base_readHeader 1 8 p; Some (word_le bs) }"

definition base_end :: "'a base_packet_scheme \<Rightarrow> 'a base_packet_scheme option" where
  "base_end p = do {
     n \<leftarrow> cint (m_nPacketSize p - 2);
     let len = htons (word_of_int n);
     p1 \<leftarrow> base_writeHeader (bytes_le 2 len) 0 p;
     base_writeHeader [0] 8 p1 }"

definition base_oldend :: "'a base_packet_scheme \<Rightarrow> 'a base_packet_scheme option" where
  "base_oldend p = do {
     n \<leftarrow> cint (m_nPacketSize p - 2);
     let len = htons (word_of_int n);
     base_writeHeader (bytes_le 2 len) 0 p }"

text \<open>\<open>Some (None, p)\<close> is the result \<open>false\<close>, \<open>Some (Some bs, p')\<close> stores \<open>bs\<close> in \<open>pOut\<close>.\<close>

definition base_Read ::
    "int \<Rightarrow> 'a base_packet_scheme \<Rightarrow> (byte list option \<times> 'a base_packet_scheme) option" where
  "base_Read nLen p = do {
     e \<leftarrow> cint (nLen + m_nBufPos p);
     if e > m_nPacketSize p \<or> e > PACKET_BUFFER_SIZE p then Some (None, p)
     else do {
       bs \<leftarrow> read_i (m_nBufPos p) nLen (m_strBuf p);
       Some (Some bs, p\<lparr>m_nBufPos := e\<rparr>) } }"

definition base_ReadDel ::
    "int \<Rightarrow> 'a base_packet_scheme \<Rightarrow> (byte list option \<times> 'a base_packet_scheme) option" where
  "base_ReadDel nLen p = do {
     (r, p1) \<leftarrow> base_Read nLen p;
     (case r of
        None \<Rightarrow> Some (None, p1)
      | Some bs \<Rightarrow> do {
          b \<leftarrow> memcpy_in (m_nBufPos p1 - nLen) (m_nBufPos p1)
                 (PACKET_BUFFER_SIZE p1 - m_nBufPos p1) (m_strBuf p1);
          p2 \<leftarrow> base_end (p1\<lparr>m_strBuf := b, m_nBufPos := m_nBufPos p1 - nLen,
                 m_nPacketSize := m_nPacketSize p1 - nLen\<rparr>);
          Some (Some bs, p2) }) }"

definition base_readundo :: "int \<Rightarrow> 'a base_packet_scheme \<Rightarrow> 'a base_packet_scheme option" where
  "base_readundo nLen p = do {
     n \<leftarrow> cint (m_nBufPos p - nLen);
     Some (p\<lparr>m_nBufPos := n\<rparr>) }"

text \<open>The returned pointer is an offset into \<open>m_strBuf\<close>; \<open>NULL\<close> is the inner \<open>None\<close>.\<close>

definition base_readpoint ::
    "int \<Rightarrow> 'a base_packet_scheme \<Rightarrow> (nat option \<times> 'a base_packet_scheme) option" where
  "base_readpoint nLen p = do {
     e \<leftarrow> cint (nLen + m_nBufPos p);
     if e > m_nPacketSize p then Some (None, p)
     else if 0 \<le> m_nBufPos p \<and> m_nBufPos p \<le> PACKET_BUFFER_SIZE p
     then Some (Some (nat (m_nBufPos p)), p\<lparr>m_nBufPos := e\<rparr>)
     else None }"

definition base_Write ::
    "byte list \<Rightarrow> int \<Rightarrow> 'a base_packet_scheme \<Rightarrow> (bool \<times> 'a base_packet_scheme) option" where
  "base_Write pIn nLen p =
     (if m_nPacketSize p < 0 then Some (False, p)
      else do {
        e \<leftarrow> cint (nLen + m_nPacketSize p);
        if e > PACKET_BUFFER_SIZE p then Some (False, p)
        else do {
          src \<leftarrow> read_i 0 nLen pIn;
          b \<leftarrow> write_i (m_nPacketSize p) src (m_strBuf p);
          Some (True, p\<lparr>m_strBuf := b, m_nPacketSize := e\<rparr>) } })"

definition base_Insert ::
    "byte list \<Rightarrow> int \<Rightarrow> 'a base_packet_scheme \<Rightarrow> (bool \<times> 'a base_packet_scheme) option" where
  "base_Insert pIn nLen p = do {
     e \<leftarrow> cint (nLen + m_nPacketSize p);
     if e > PACKET_BUFFER_SIZE p then Some (False, p)
     else do {
       b1 \<leftarrow> memcpy_in (int PACKET_HEADER_SIZE + nLen) (int PACKET_HEADER_SIZE)
               (m_nPacketSize p - int PACKET_HEADER_SIZE) (m_strBuf p);
       src \<leftarrow> read_i 0 nLen pIn;
       b2 \<leftarrow> write_at PACKET_HEADER_SIZE src b1;
       p1 \<leftarrow> base_end (p\<lparr>m_strBuf := b2, m_nPacketSize := e\<rparr>);
       Some (True, p1) } }"

definition base_writezero :: "'a base_packet_scheme \<Rightarrow> (bool \<times> 'a base_packet_scheme) option" where
  "base_writezero p = do {
     e \<leftarrow> cint (m_nPacketSize p + 1);
     if e > PACKET_BUFFER_SIZE p then Some (False, p)
     else do {
       b \<leftarrow> write_i (m_nPacketSize p) [0] (m_strBuf p);
       Some (True, p\<lparr>m_strBuf := b, m_nPacketSize := e\<rparr>) } }"

section \<open>InputPacket\<close>

text \<open>The value is preset to -1, all bits set, which is also its byte-swapped value.\<close>

definition ReadInt :: "'a base_packet_scheme \<Rightarrow> (int \<times> 'a base_packet_scheme) option" where
  "ReadInt p = do {
     (r, p1) \<leftarrow> base_Read 4 p;
     let nValue = (case r of Some bs \<Rightarrow> word_le bs | None \<Rightarrow> - 1);
     Some (sint (htonl nValue), p1) }"

definition ReadULong :: "'a base_packet_scheme \<Rightarrow> (u64 \<times> 'a base_packet_scheme) option" where
  "ReadULong p = do {
     (r, p1) \<leftarrow> base_Read 8 p;
     let nValue = (case r of Some bs \<Rightarrow> word_le bs | None \<Rightarrow> - 1);
     Some (bswap 8 nValue, p1) }"

definition ReadIntDel :: "'a base_packet_scheme \<Rightarrow> (int \<times> 'a base_packet_scheme) option" where
  "ReadIntDel p = do {
     (r, p1) \<leftarrow> base_ReadDel 4 p;
     let nValue = (case r of Some bs \<Rightarrow> word_le bs | None \<Rightarrow> - 1);
     Some (sint (htonl nValue), p1) }"

definition ReadShort :: "'a base_packet_scheme \<Rightarrow> (u16 \<times> 'a base_packet_scheme) option" where
  "ReadShort p = do {
     (r, p1) \<leftarrow> base_Read 2 p;
     let nValue = (case r of Some bs \<Rightarrow> word_le bs | None \<Rightarrow> - 1);
     Some (htons nValue, p1) }"

definition ReadByte :: "'a base_packet_scheme \<Rightarrow> (byte \<times> 'a base_packet_scheme) option" where
  "ReadByte p = do {
     (r, p1) \<leftarrow> base_Read 1 p;
     let nValue = (case r of Some bs \<Rightarrow> word_le bs | None \<Rightarrow> - 1);
     Some (nValue, p1) }"

text \<open>\<open>ReadString(char*, int)\<close>: the bytes stored through the pointer, or \<open>None\<close> for \<open>false\<close>.\<close>

definition ReadStringTo ::
    "int \<Rightarrow> 'a base_packet_scheme \<Rightarrow> (byte list option \<times> 'a base_packet_scheme) option" where
  "ReadStringTo nMaxLen p = do {
     (nLen, p1) \<leftarrow> ReadInt p;
     if nLen = - 1 then Some (None, p1)
     else if nLen > nMaxLen then do { p2 \<leftarrow> base_readundo 2 p1; Some (None, p2) }
     else base_Read nLen p1 }"

definition ReadChar :: "'a base_packet_scheme \<Rightarrow> (nat option \<times> 'a base_packet_scheme) option" where
  "ReadChar p = do {
     (nLen, p1) \<leftarrow> ReadInt p;
     if nLen = - 1 then Some (None, p1) else base_readpoint nLen p1 }"

definition ReadString :: "'a base_packet_scheme \<Rightarrow> (byte list \<times> 'a base_packet_scheme) option" where
  "ReadString p = do {
     (r, p1) \<leftarrow> ReadChar p;
     (case r of
        None \<Rightarrow> Some ([], p1)
      | Some pos \<Rightarrow> do { s \<leftarrow> cstring (drop pos (m_strBuf p1)); Some (s, p1) }) }"

text \<open>\<open>ReadBinary\<close>: the returned length and the bytes stored.\<close>

definition ReadBinary ::
    "int \<Rightarrow> 'a base_packet_scheme \<Rightarrow> ((int \<times> byte list) \<times> 'a base_packet_scheme) option" where
  "ReadBinary nMaxLen p = do {
     (nLen, p1) \<leftarrow> ReadInt p;
     if nLen = - 1 then Some ((- 1, []), p1)
     else if nLen > nMaxLen then do { p2 \<leftarrow> base_readundo 4 p1; Some ((- 1, []), p2) }
     else do {
       (r, p2) \<leftarrow> base_Read nLen p1;
       (case r of Some bs \<Rightarrow> Some ((nLen, bs), p2) | None \<Rightarrow> Some ((0, []), p2)) } }"

definition in_Reset :: "'a base_packet_scheme \<Rightarrow> 'a base_packet_scheme" where
  "in_Reset p = base_reset p"

definition Copy ::
    "byte list \<Rightarrow> int \<Rightarrow> 'a base_packet_scheme \<Rightarrow> (bool \<times> 'a base_packet_scheme) option" where
  "Copy pInBuf nLen p = base_copy pInBuf nLen p"

definition WriteBody ::
    "byte list \<Rightarrow> int \<Rightarrow> 'a base_packet_scheme \<Rightarrow> (bool \<times> 'a base_packet_scheme) option" where
  "WriteBody pIn nLen p = base_Write pIn nLen p"

definition in_Begin ::
    "u16 \<Rightarrow> byte \<Rightarrow> byte \<Rightarrow> 'a base_packet_scheme \<Rightarrow> 'a base_packet_scheme option" where
  "in_Begin nCommand cVersion cSubVersion p = base_begin nCommand cVersion cSubVersion p"

definition in_End :: "'a base_packet_scheme \<Rightarrow> 'a base_packet_scheme option" where
  "in_End p = base_end p"

section \<open>OutputPacket\<close>

definition WriteInt :: "u32 \<Rightarrow> 'a base_packet_scheme \<Rightarrow> (bool \<times> 'a base_packet_scheme) option" where
  "WriteInt nValue p = base_Write (bytes_le 4 (htonl nValue)) 4 p"

definition WriteULong :: "u64 \<Rightarrow> 'a base_packet_scheme \<Rightarrow> (bool \<times> 'a base_packet_scheme) option" where
  "WriteULong nValue p = base_Write (bytes_le 8 (bswap 8 nValue)) 8 p"

definition WriteByte :: "byte \<Rightarrow> 'a base_packet_scheme \<Rightarrow> (bool \<times> 'a base_packet_scheme) option" where
  "WriteByte nValue p = base_Write [nValue] 1 p"

definition WriteShort :: "u16 \<Rightarrow> 'a base_packet_scheme \<Rightarrow> (bool \<times> 'a base_packet_scheme) option" where
  "WriteShort nValue p = base_Write (bytes_le 2 (htons nValue)) 2 p"

definition InsertInt :: "u32 \<Rightarrow> 'a base_packet_scheme \<Rightarrow> (bool \<times> 'a base_packet_scheme) option" where
  "InsertInt nValue p = base_Insert (bytes_le 4 (htonl nValue)) 4 p"

definition InsertByte :: "byte \<Rightarrow> 'a base_packet_scheme \<Rightarrow> (bool \<times> 'a base_packet_scheme) option" where
  "InsertByte nValue p = base_Insert [nValue] 1 p"

text \<open>
  Both \<open>WriteString\<close> ignore the result of \<open>WriteInt\<close>. A \<open>const char*\<close> is its bytes up to the
  terminator; of a \<open>std::string\<close> all bytes are written.
\<close>

definition WriteString ::
    "byte list \<Rightarrow> 'a base_packet_scheme \<Rightarrow> (bool \<times> 'a base_packet_scheme) option" where
  "WriteString s p = do {
     let nLen = int (length s);
     n1 \<leftarrow> cint (nLen + 1);
     (_, p1) \<leftarrow> WriteInt (word_of_int n1) p;
     if nLen > 0 then do {
       (ok, p2) \<leftarrow> base_Write s nLen p1;
       if ok then base_writezero p2 else Some (False, p2) }
     else base_writezero p1 }"

definition WriteCString ::
    "byte list \<Rightarrow> 'a base_packet_scheme \<Rightarrow> (bool \<times> 'a base_packet_scheme) option" where
  "WriteCString s p = do {
     let pString = takeWhile (\<lambda>b. b \<noteq> 0) s;
     let nLen = int (length pString);
     n1 \<leftarrow> cint (nLen + 1);
     (_, p1) \<leftarrow> WriteInt (word_of_int n1) p;
     if nLen > 0 then do {
       (ok, p2) \<leftarrow> base_Write pString nLen p1;
       if ok then base_writezero p2 else Some (False, p2) }
     else base_writezero p1 }"

definition WriteBinary ::
    "byte list \<Rightarrow> int \<Rightarrow> 'a base_packet_scheme \<Rightarrow> (bool \<times> 'a base_packet_scheme) option" where
  "WriteBinary pBuf nLen p = do {
     (_, p1) \<leftarrow> WriteInt (word_of_int nLen) p;
     base_Write pBuf nLen p1 }"

definition out_Begin ::
    "u16 \<Rightarrow> byte \<Rightarrow> byte \<Rightarrow> output_packet \<Rightarrow> output_packet option" where
  "out_Begin nCommand cVersion cSubVersion p = do {
     p1 \<leftarrow> base_begin nCommand cVersion cSubVersion p;
     Some (p1\<lparr>m_isCheckCode := False\<rparr>) }"

definition out_End :: "output_packet \<Rightarrow> output_packet option" where
  "out_End p = base_end (p\<lparr>m_isCheckCode := False\<rparr>)"

definition oldEnd :: "output_packet \<Rightarrow> output_packet option" where
  "oldEnd p = base_oldend (p\<lparr>m_isCheckCode := False\<rparr>)"

definition SetBegin :: "u16 \<Rightarrow> 'a base_packet_scheme \<Rightarrow> 'a base_packet_scheme option" where
  "SetBegin nCommand p = base_SetBegin nCommand p"

definition WritecbCheckCode :: "byte \<Rightarrow> output_packet \<Rightarrow> output_packet option" where
  "WritecbCheckCode nValue p = do {
     p1 \<leftarrow> base_writeHeader [nValue] 8 p;
     Some (p1\<lparr>m_isCheckCode := True\<rparr>) }"

definition IsWritecbCheckCode :: "output_packet \<Rightarrow> bool" where
  "IsWritecbCheckCode p = m_isCheckCode p"

section \<open>CEncryptDecrypt\<close>

definition EncryptBuffer :: "output_packet \<Rightarrow> (u16 \<times> output_packet) option" where
  "EncryptBuffer p =
     (if IsWritecbCheckCode p then Some (0, p)
      else do {
        n \<leftarrow> GetBodyLength p;
        let wDataSize = n - 7;
        body \<leftarrow> read_at PACKET_HEADER_SIZE (unat wDataSize) (m_strBuf p);
        let (cbCheckCode, coded) = encrypt_loop 0 body;
        b \<leftarrow> write_at PACKET_HEADER_SIZE coded (m_strBuf p);
        p1 \<leftarrow> WritecbCheckCode (NOT cbCheckCode + 1) (p\<lparr>m_strBuf := b\<rparr>);
        Some (wDataSize, p1) })"

definition DecryptBuffer :: "'a base_packet_scheme \<Rightarrow> (int \<times> 'a base_packet_scheme) option" where
  "DecryptBuffer p = do {
     n \<leftarrow> GetBodyLength p;
     let wDataSize = n - 7;
     code0 \<leftarrow> GetcbCheckCode p;
     coded \<leftarrow> read_at PACKET_HEADER_SIZE (unat wDataSize) (m_strBuf p);
     let (cbCheckCode, body) = decrypt_loop code0 coded;
     b \<leftarrow> write_at PACKET_HEADER_SIZE body (m_strBuf p);
     Some (if cbCheckCode \<noteq> 0 then - 1 else int (unat wDataSize), p\<lparr>m_strBuf := b\<rparr>) }"

section \<open>The invariant of a packet in use, and what the operations do to it\<close>

text \<open>
  \<open>pk_wf\<close>: the packet size lies between the header and the end of the buffer, the read position
  between the header and the packet size. \<open>pk_body\<close> is the body, \<open>pk_rest\<close> the part still to be
  read. The template instances have buffers of 1024 and 8192 bytes.
\<close>

definition pk_wf :: "'a base_packet_scheme \<Rightarrow> bool" where
  "pk_wf p \<longleftrightarrow> int PACKET_HEADER_SIZE \<le> m_nPacketSize p \<and> m_nPacketSize p \<le> PACKET_BUFFER_SIZE p \<and>
     int PACKET_HEADER_SIZE \<le> m_nBufPos p \<and> m_nBufPos p \<le> m_nPacketSize p \<and>
     PACKET_BUFFER_SIZE p \<le> 32768"

definition pk_head :: "'a base_packet_scheme \<Rightarrow> byte list" where
  "pk_head p = take 9 (m_strBuf p)"

definition pk_body :: "'a base_packet_scheme \<Rightarrow> byte list" where
  "pk_body p = drop 9 (take (nat (m_nPacketSize p)) (m_strBuf p))"

definition pk_rest :: "'a base_packet_scheme \<Rightarrow> byte list" where
  "pk_rest p = drop (nat (m_nBufPos p)) (take (nat (m_nPacketSize p)) (m_strBuf p))"

text \<open>What goes to the socket: \<open>packet_size()\<close> bytes from \<open>packet_buf()\<close>.\<close>

definition pk_bytes :: "'a base_packet_scheme \<Rightarrow> byte list" where
  "pk_bytes p = take (nat (m_nPacketSize p)) (m_strBuf p)"

lemma pk_wfE:
  assumes "pk_wf p"
  obtains s k where "m_nPacketSize p = int s" "m_nBufPos p = int k" "9 \<le> s" "9 \<le> k" "k \<le> s"
    "s \<le> length (m_strBuf p)" "length (m_strBuf p) \<le> 32768"
  using assms that [of "nat (m_nPacketSize p)" "nat (m_nBufPos p)"]
  by (auto simp: pk_wf_def PACKET_HEADER_SIZE_def PACKET_BUFFER_SIZE_def)

lemma pk_wfI:
  "m_nPacketSize p = int s \<Longrightarrow> m_nBufPos p = int k \<Longrightarrow> 9 \<le> s \<Longrightarrow> 9 \<le> k \<Longrightarrow> k \<le> s \<Longrightarrow>
   s \<le> length (m_strBuf p) \<Longrightarrow> length (m_strBuf p) \<le> 32768 \<Longrightarrow> pk_wf p"
  by (simp add: pk_wf_def PACKET_HEADER_SIZE_def PACKET_BUFFER_SIZE_def)

lemma length_pk_body: "pk_wf p \<Longrightarrow> int (length (pk_body p)) = m_nPacketSize p - 9"
  by (elim pk_wfE) (simp add: pk_body_def)

lemma base_Write_ok:
  assumes wf: "pk_wf p" and room: "m_nPacketSize p + int (length bs) \<le> PACKET_BUFFER_SIZE p"
  obtains q where "base_Write bs (int (length bs)) p = Some (True, q)" "pk_wf q"
    "pk_body q = pk_body p @ bs" "pk_head q = pk_head p" "PACKET_BUFFER_SIZE q = PACKET_BUFFER_SIZE p"
    "m_nPacketSize q = m_nPacketSize p + int (length bs)" "m_nBufPos q = m_nBufPos p"
    "base_packet.more q = base_packet.more p"
proof -
  from wf obtain s k where p: "m_nPacketSize p = int s" "m_nBufPos p = int k" "9 \<le> s" "9 \<le> k"
    "k \<le> s" "s \<le> length (m_strBuf p)" "length (m_strBuf p) \<le> 32768" by (rule pk_wfE)
  have sb: "s + length bs \<le> length (m_strBuf p)"
    using room p(1) by (simp add: PACKET_BUFFER_SIZE_def)
  define b where "b = take s (m_strBuf p) @ bs @ drop (s + length bs) (m_strBuf p)"
  define q where "q = p\<lparr>m_strBuf := b, m_nPacketSize := int (s + length bs)\<rparr>"
  have lb: "length b = length (m_strBuf p)" using sb by (simp add: b_def)
  have ci: "cint (int (length bs) + int s) = Some (int (s + length bs))"
    using sb p(7) by (simp add: cint_def)
  have "base_Write bs (int (length bs)) p = Some (True, q)"
    using sb ci p(1) read_at_Some [of 0 "length bs" bs] write_at_Some [of s bs "m_strBuf p"]
      read_i_nat [of 0 "length bs" bs]
    by (simp add: base_Write_def PACKET_BUFFER_SIZE_def q_def b_def)
  moreover have "pk_wf q"
    by (rule pk_wfI [of q "s + length bs" k]) (use p sb lb in \<open>simp_all add: q_def\<close>)
  moreover have "pk_body q = pk_body p @ bs"
    using p sb by (simp add: pk_body_def q_def b_def nat_add_distrib)
  moreover have "pk_head q = pk_head p"
    using p sb by (simp add: pk_head_def q_def b_def)
  ultimately show thesis
    using lb p by (intro that [of q]) (simp_all add: q_def PACKET_BUFFER_SIZE_def)
qed

lemma base_Write_full:
  assumes wf: "pk_wf p" and full: "PACKET_BUFFER_SIZE p < m_nPacketSize p + int n" and n: "n \<le> 2 ^ 30"
  shows "base_Write bs (int n) p = Some (False, p)"
proof -
  from wf obtain s k where p: "m_nPacketSize p = int s" "m_nBufPos p = int k" "9 \<le> s" "9 \<le> k"
    "k \<le> s" "s \<le> length (m_strBuf p)" "length (m_strBuf p) \<le> 32768" by (rule pk_wfE)
  have "cint (int n + int s) = Some (int n + int s)" using p n by (intro cint_Some) auto
  then show ?thesis using full p by (simp add: base_Write_def)
qed

lemma base_writezero_eq:
  assumes "pk_wf p"
  shows "base_writezero p = base_Write [0] 1 p"
proof -
  from assms obtain s k where p: "m_nPacketSize p = int s" "m_nBufPos p = int k" "9 \<le> s" "9 \<le> k"
    "k \<le> s" "s \<le> length (m_strBuf p)" "length (m_strBuf p) \<le> 32768" by (rule pk_wfE)
  have "read_i 0 1 [0] = Some [0 :: byte]" by (simp add: read_i_def read_at_def)
  then show ?thesis using p(1) by (simp add: base_writezero_def base_Write_def add.commute cong: if_cong)
qed

lemma base_Read_ok:
  assumes wf: "pk_wf p" and rest: "pk_rest p = bs @ r"
  obtains q where "base_Read (int (length bs)) p = Some (Some bs, q)" "pk_wf q" "pk_rest q = r"
    "q = p\<lparr>m_nBufPos := m_nBufPos p + int (length bs)\<rparr>"
proof -
  from wf obtain s k where p: "m_nPacketSize p = int s" "m_nBufPos p = int k" "9 \<le> s" "9 \<le> k"
    "k \<le> s" "s \<le> length (m_strBuf p)" "length (m_strBuf p) \<le> 32768" by (rule pk_wfE)
  have dt: "drop k (take s (m_strBuf p)) = bs @ r" using rest p by (simp add: pk_rest_def)
  from arg_cong [OF this, of length] have len: "k + length bs + length r = s" using p by simp
  define q where "q = p\<lparr>m_nBufPos := int (k + length bs)\<rparr>"
  have "take (length bs) (drop k (m_strBuf p)) = take (length bs) (drop k (take s (m_strBuf p)))"
    using len by (simp add: drop_take)
  then have tk: "take (length bs) (drop k (m_strBuf p)) = bs" by (simp add: dt)
  have ci: "cint (int (length bs) + int k) = Some (int (k + length bs))"
    using len p by (simp add: cint_def)
  have "base_Read (int (length bs)) p = Some (Some bs, q)"
    using p len by (simp add: base_Read_def ci PACKET_BUFFER_SIZE_def read_at_Some tk q_def)
  moreover have "pk_wf q"
    by (rule pk_wfI [of q s "k + length bs"]) (use p len in \<open>simp_all add: q_def\<close>)
  moreover have "pk_rest q = r"
  proof -
    have "drop (length bs) (drop k (take s (m_strBuf p))) = r" by (simp add: dt)
    then show ?thesis using p by (simp add: pk_rest_def q_def nat_add_distrib add.commute)
  qed
  ultimately show thesis using p by (intro that [of q]) (simp_all add: q_def)
qed

lemma base_Read_short:
  assumes wf: "pk_wf p" and n: "length (pk_rest p) < n" "n \<le> 2 ^ 30"
  shows "base_Read (int n) p = Some (None, p)"
proof -
  from wf obtain s k where p: "m_nPacketSize p = int s" "m_nBufPos p = int k" "9 \<le> s" "9 \<le> k"
    "k \<le> s" "s \<le> length (m_strBuf p)" "length (m_strBuf p) \<le> 32768" by (rule pk_wfE)
  have "s - k < n" using n p by (simp add: pk_rest_def)
  then have "int s < int n + int k" by linarith
  moreover have "cint (int n + int k) = Some (int n + int k)" using p n by (intro cint_Some) auto
  ultimately show ?thesis using p by (simp add: base_Read_def)
qed

section \<open>The integer and string accessors\<close>

lemma ReadInt_ok:
  assumes wf: "pk_wf p" and rest: "pk_rest p = be 4 (w :: u32) @ r"
  obtains q where "ReadInt p = Some (sint w, q)" "pk_wf q" "pk_rest q = r"
    "q = p\<lparr>m_nBufPos := m_nBufPos p + 4\<rparr>"
proof -
  obtain q where "base_Read (int (length (be 4 w))) p = Some (Some (be 4 w), q)" "pk_wf q"
    "pk_rest q = r" "q = p\<lparr>m_nBufPos := m_nBufPos p + int (length (be 4 w))\<rparr>"
    by (rule base_Read_ok [OF wf rest])
  then show thesis by (intro that [of q]) (simp_all add: ReadInt_def)
qed

lemma ReadULong_ok:
  assumes wf: "pk_wf p" and rest: "pk_rest p = be 8 w @ r"
  obtains q where "ReadULong p = Some (w, q)" "pk_wf q" "pk_rest q = r"
    "q = p\<lparr>m_nBufPos := m_nBufPos p + 8\<rparr>"
proof -
  obtain q where "base_Read (int (length (be 8 w))) p = Some (Some (be 8 w), q)" "pk_wf q"
    "pk_rest q = r" "q = p\<lparr>m_nBufPos := m_nBufPos p + int (length (be 8 w))\<rparr>"
    by (rule base_Read_ok [OF wf rest])
  then show thesis by (intro that [of q]) (simp_all add: ReadULong_def)
qed

text \<open>Reading past the end gives -1, and the packet is unchanged.\<close>

lemma ReadInt_short:
  assumes wf: "pk_wf p" and short: "length (pk_rest p) < 4"
  shows "ReadInt p = Some (- 1, p)"
proof -
  have "base_Read (int 4) p = Some (None, p)" by (rule base_Read_short [OF wf short]) simp
  moreover have "htonl (- 1) = - 1" by code_simp
  ultimately show ?thesis by (simp add: ReadInt_def)
qed

text \<open>
  \<open>ReadString\<close> returns the C string at the read position, wherever its terminator is: the length
  field only moves the read position.
\<close>

lemma sint_of_nat32: "n < 2 ^ 31 \<Longrightarrow> sint (of_nat n :: u32) = int n"
  by (simp add: sint_uint signed_take_bit_int_eq_self unsigned_of_nat take_bit_nat_eq_self)

lemma ReadString_ok:
  assumes wf: "pk_wf p" and rest: "pk_rest p = be 4 (of_nat (length s) :: u32) @ s @ r"
    and s: "0 \<notin> set s"
    and nul: "drop (nat (m_nBufPos p) + 4 + length s) (m_strBuf p) = 0 # tail"
  obtains q where "ReadString p = Some (s, q)" "pk_wf q" "pk_rest q = r"
proof -
  obtain p1 where p1: "ReadInt p = Some (sint (of_nat (length s) :: u32), p1)" "pk_wf p1"
    "pk_rest p1 = s @ r" "p1 = p\<lparr>m_nBufPos := m_nBufPos p + 4\<rparr>"
    by (rule ReadInt_ok [OF wf rest])
  from p1(2) obtain n k where n: "m_nPacketSize p1 = int n" "m_nBufPos p1 = int k" "9 \<le> n" "9 \<le> k"
    "k \<le> n" "n \<le> length (m_strBuf p1)" "length (m_strBuf p1) \<le> 32768" by (rule pk_wfE)
  have dt: "drop k (take n (m_strBuf p1)) = s @ r" using p1(3) n by (simp add: pk_rest_def)
  from arg_cong [OF this, of length] have len: "k + length s + length r = n" using n by simp
  have sl: "sint (of_nat (length s) :: u32) = int (length s)"
    using len n by (intro sint_of_nat32) simp
  obtain q where q: "base_Read (int (length s)) p1 = Some (Some s, q)" "pk_wf q" "pk_rest q = r"
    "q = p1\<lparr>m_nBufPos := m_nBufPos p1 + int (length s)\<rparr>"
    by (rule base_Read_ok [OF p1(2,3)])
  have "cint (int (length s) + int k) = Some (int (length s) + int k)"
    using len n by (intro cint_Some) auto
  then have rp: "base_readpoint (int (length s)) p1 = Some (Some k, q)"
    using n len by (simp add: base_readpoint_def PACKET_BUFFER_SIZE_def q(4) add.commute)
  have "drop k (m_strBuf p1) = s @ 0 # tail"
  proof -
    have "take (length s) (drop k (m_strBuf p1)) = take (length s) (drop k (take n (m_strBuf p1)))"
      using len by (simp add: drop_take)
    then have "take (length s) (drop k (m_strBuf p1)) = s" by (simp add: dt)
    moreover have "k = nat (m_nBufPos p) + 4"
      using n(2,4) by (simp add: p1(4) nat_eq_iff2) 
    then have "drop (length s) (drop k (m_strBuf p1)) = 0 # tail"
      using nul by (simp add: p1(4) add.commute)
    ultimately show ?thesis by (metis append_take_drop_id)
  qed
  then have "cstring (drop k (m_strBuf q)) = Some s"
    using s by (simp add: q(4) cstring_append_0)
  then have "ReadString p = Some (s, q)"
    by (simp add: ReadString_def ReadChar_def p1(1) sl rp)
  with q show thesis by (intro that [of q])
qed

section \<open>From Begin to EncryptBuffer: the frame\<close>

lemma be2_cases:
  obtains x y where "be 2 (w :: 'a::len word) = [x, y]"
proof -
  have len2: "length (be 2 w) = Suc (Suc 0)" by simp
  then show thesis using that unfolding length_Suc_conv by auto
qed

lemma base_begin_ok:
  assumes B: "9 \<le> length (m_strBuf p)"
  shows "base_begin cmd v sv p = Some (p\<lparr>m_strBuf :=
           [0, 0, 0x42, 0x59, v, sv] @ be 2 cmd @ [0] @ replicate (length (m_strBuf p) - 9) 0,
           m_nPacketSize := 9, m_nBufPos := 9\<rparr>)"
proof -
  obtain x y where xy: "be 2 cmd = [x, y]" by (rule be2_cases)
  have nine: "replicate (length (m_strBuf p)) (0 :: byte) =
      0 # 0 # 0 # 0 # 0 # 0 # 0 # 0 # 0 # replicate (length (m_strBuf p) - 9) 0"
    using B by (simp add: replicate_Suc [symmetric] eval_nat_numeral Suc_diff_le del: replicate_Suc)
  have w: "write_at 2 [0x42, 0x59] (a # b # c # d # r) = Some (a # b # 0x42 # 0x59 # r)"
    "write_at 4 [u] (a # b # c # d # e # r) = Some (a # b # c # d # u # r)"
    "write_at 5 [u] (a # b # c # d # e # f # r) = Some (a # b # c # d # e # u # r)"
    "write_at 6 [u, z] (a # b # c # d # e # f # g # h # r) =
      Some (a # b # c # d # e # f # u # z # r)" for a b c d e f g h u z :: byte and r
    by (simp_all add: write_at_def eval_nat_numeral)
  show ?thesis
    by (simp add: base_begin_def base_reset_def base_writeHeader_def nine w bytes_le_htons xy
        PACKET_HEADER_SIZE_def)
qed

lemma base_end_ok:
  assumes wf: "pk_wf p"
  shows "base_end p = Some (p\<lparr>m_strBuf := be 2 (word_of_int (m_nPacketSize p - 2) :: u16) @
           take 6 (drop 2 (m_strBuf p)) @ [0] @ drop 9 (m_strBuf p)\<rparr>)"
proof -
  from wf obtain s k where p: "m_nPacketSize p = int s" "m_nBufPos p = int k" "9 \<le> s" "9 \<le> k"
    "k \<le> s" "s \<le> length (m_strBuf p)" "length (m_strBuf p) \<le> 32768" by (rule pk_wfE)
  let ?n = "word_of_int (m_nPacketSize p) - 2 :: u16"
  obtain x y where xy: "be 2 ?n = [x, y]" by (rule be2_cases)
  have ci: "cint (m_nPacketSize p - 2) = Some (m_nPacketSize p - 2)"
    using p by (intro cint_Some) auto
  let ?b1 = "[x, y] @ drop 2 (m_strBuf p)"
  have w1: "write_at 0 [x, y] (m_strBuf p) = Some ?b1"
    using p by (simp add: write_at_def numeral_2_eq_2)
  have "write_at 8 [0] ?b1 = Some (take 8 ?b1 @ [0] @ drop 9 ?b1)"
    using p by (subst write_at_Some) simp_all
  then have "write_at 8 [0] ?b1 = Some ([x, y] @ take 6 (drop 2 (m_strBuf p)) @ [0] @ drop 9 (m_strBuf p))"
    by simp
  then show ?thesis
    by (simp add: base_end_def ci base_writeHeader_def PACKET_HEADER_SIZE_def bytes_le_htons xy w1)
qed

text \<open>The length field of a closed packet counts what follows it.\<close>

lemma GetBodyLength_eq: "2 \<le> length (m_strBuf p) \<Longrightarrow>
    GetBodyLength p = Some (htons (word_le (take 2 (m_strBuf p))))"
  by (simp add: GetBodyLength_def base_readHeader_def PACKET_HEADER_SIZE_def read_at_def)

lemma GetCmdType_eq: "8 \<le> length (m_strBuf p) \<Longrightarrow>
    GetCmdType p = Some (htons (word_le (take 2 (drop 6 (m_strBuf p)))))"
  by (simp add: GetCmdType_def base_readHeader_def PACKET_HEADER_SIZE_def read_at_def)

lemma GetcbCheckCode_eq:
  assumes "9 \<le> length (m_strBuf p)"
  shows "GetcbCheckCode p = Some (m_strBuf p ! 8)"
proof -
  have "take 1 (drop 8 (m_strBuf p)) = [m_strBuf p ! 8]"
    using assms by (simp add: take_Suc hd_drop_conv_nth)
  then show ?thesis
    using assms by (simp add: GetcbCheckCode_def base_readHeader_def PACKET_HEADER_SIZE_def read_at_def)
qed

lemma out_frame:
  assumes wf: "pk_wf p" and buf: "m_strBuf p = h @ body @ r" and s: "m_nPacketSize p = 9 + int (length body)"
    and h: "length h = 9" "take 6 (drop 2 h) = [0x42, 0x59, 1, 1] @ be 2 cmd"
  shows "\<exists>q q'. out_End p = Some q \<and> EncryptBuffer q = Some (of_nat (length body), q') \<and>
           m_strBuf q' = frame cmd body @ r \<and> pk_bytes q' = frame cmd body \<and>
           m_isCheckCode q' \<and> m_nPacketSize q' = m_nPacketSize p \<and> m_nBufPos q' = m_nBufPos p"
proof -
  from wf obtain n k where p: "m_nPacketSize p = int n" "m_nBufPos p = int k" "9 \<le> n" "9 \<le> k"
    "k \<le> n" "n \<le> length (m_strBuf p)" "length (m_strBuf p) \<le> 32768" by (rule pk_wfE)
  let ?l = "of_nat (length body + 7) :: u16"
  have lb: "length body + 9 \<le> 32768" using s p by simp
  have wf': "pk_wf (p\<lparr>m_isCheckCode := False\<rparr>)"
    using wf by (simp add: pk_wf_def PACKET_BUFFER_SIZE_def)
  have l: "word_of_int (m_nPacketSize p) - 2 = (of_nat (length body) + 7 :: u16)" by (simp add: s)
  define q where "q = p\<lparr>m_isCheckCode := False, m_strBuf :=
    be 2 ?l @ ([0x42, 0x59, 1, 1] @ be 2 cmd) @ [0] @ body @ r\<rparr>"
  have End: "out_End p = Some q"
    using base_end_ok [OF wf'] h by (simp add: out_End_def buf q_def l)
  have len: "GetBodyLength q = Some ?l"
    by (subst GetBodyLength_eq) (simp_all add: q_def)
  have sz: "?l - 7 = of_nat (length body)" by simp
  have un: "unat (of_nat (length body) :: u16) = length body" using lb by (simp add: unat_of_nat16)
  define pre where "pre = be 2 ?l @ ([0x42, 0x59, 1, 1] @ be 2 cmd)"
  have pre: "length pre = 8" "length (pre @ [x]) = 9" for x by (simp_all add: pre_def)
  have qb: "m_strBuf q = (pre @ [0]) @ body @ r" by (simp add: q_def pre_def)
  have rd: "read_at 9 (length body) (m_strBuf q) = Some body"
    unfolding qb by (rule read_at_append_mid) (simp_all add: pre)
  have wr: "write_at 9 (map enc_byte body) (m_strBuf q) = Some ((pre @ [0]) @ map enc_byte body @ r)"
    unfolding qb by (rule write_at_append_mid) (simp_all add: pre)
  have wc: "write_at 8 [- sum_list body] ((pre @ [0]) @ map enc_byte body @ r) =
      Some (pre @ [- sum_list body] @ map enc_byte body @ r)"
    using write_at_append_mid [of pre 8 "[0]" "[- sum_list body]" "map enc_byte body @ r"] pre by simp
  define q' where "q' = q\<lparr>m_strBuf := pre @ [- sum_list body] @ map enc_byte body @ r, m_isCheckCode := True\<rparr>"
  have enc: "EncryptBuffer q = Some (of_nat (length body), q')"
    using rd wr wc
    by (simp add: EncryptBuffer_def IsWritecbCheckCode_def len PACKET_HEADER_SIZE_def un sz
        encrypt_loop_eq WritecbCheckCode_def base_writeHeader_def not_eq_complement q'_def)
       (simp add: q_def)
  have fr: "m_strBuf q' = frame cmd body @ r"
    by (simp add: q'_def frame_def frame_head_def pre_def)
  have "pk_bytes q' = frame cmd body"
    using s by (simp add: pk_bytes_def fr) (simp add: q'_def q_def nat_add_distrib)
  with End enc fr show ?thesis by (auto simp: q'_def q_def)
qed

section \<open>From Copy to DecryptBuffer: the body\<close>

lemma Copy_ok:
  assumes n: "length src \<le> length (m_strBuf p)"
  shows "Copy (src @ rest) (int (length src)) p = Some (True, p\<lparr>
     m_strBuf := src @ replicate (length (m_strBuf p) - length src) 0,
     m_nPacketSize := int (length src), m_nBufPos := 9\<rparr>)"
  using n by (simp add: Copy_def base_copy_def PACKET_BUFFER_SIZE_def base_reset_def read_at_def
      write_at_def PACKET_HEADER_SIZE_def)

lemma Copy_too_long: "PACKET_BUFFER_SIZE p < n \<Longrightarrow> Copy buf n p = Some (False, p)"
  by (simp add: Copy_def base_copy_def)

lemma DecryptBuffer_ok:
  assumes buf: "m_strBuf p = h @ [c] @ coded @ r" and h: "length h = 8"
    and len: "htons (word_le (take 2 h)) = (of_nat (length coded + 7) :: u16)"
    and l: "length coded < 65536"
  shows "DecryptBuffer p = Some
     (if c + sum_list (map dec_byte coded) \<noteq> 0 then - 1 else int (length coded),
      p\<lparr>m_strBuf := h @ [c] @ map dec_byte coded @ r\<rparr>)"
proof -
  have bl: "GetBodyLength p = Some (of_nat (length coded) + 7)"
    using len h by (subst GetBodyLength_eq) (simp_all add: buf add.commute)
  have cc: "GetcbCheckCode p = Some c"
    using h by (subst GetcbCheckCode_eq) (simp_all add: buf nth_append)
  have un: "unat (of_nat (length coded) :: u16) = length coded" using l by (rule unat_of_nat16)
  then have ui: "uint (of_nat (length coded) :: u16) = int (length coded)"
    by (simp only: uint_nat)
  have h9: "length (h @ [c]) = 9" using h by simp
  have "read_at 9 (length coded) (m_strBuf p) = Some coded"
    using read_at_append_mid [OF h9 refl, of coded r] by (simp add: buf)
  moreover have "write_at 9 (map dec_byte coded) (m_strBuf p) = Some (h @ [c] @ map dec_byte coded @ r)"
    using write_at_append_mid [OF h9, of coded "map dec_byte coded" r] by (simp add: buf)
  ultimately show ?thesis
    by (simp add: DecryptBuffer_def bl cc un ui PACKET_HEADER_SIZE_def decrypt_loop_eq)
qed

lemma receive_frame:
  assumes B: "9 + length body \<le> length (m_strBuf p)" "length (m_strBuf p) \<le> 32768"
  obtains q q' where "Copy (frame cmd body @ rest) (int (9 + length body)) p = Some (True, q)"
    "GetCmdType q = Some cmd" "GetBodyLength q = Some (of_nat (length body + 7))"
    "DecryptBuffer q = Some (int (length body), q')" "GetCmdType q' = Some cmd" "pk_wf q'"
    "pk_rest q' = body" "m_nPacketSize q' = 9 + int (length body)" "m_nBufPos q' = 9"
    "m_strBuf q' =
       frame_head cmd body @ body @ replicate (length (m_strBuf p) - (9 + length body)) 0"
proof -
  define z where "z = replicate (length (m_strBuf p) - (9 + length body)) (0 :: byte)"
  define q where "q = p\<lparr>m_strBuf := frame cmd body @ z,
     m_nPacketSize := int (9 + length body), m_nBufPos := 9\<rparr>"
  define q' where "q' = q\<lparr>m_strBuf := frame_head cmd body @ body @ z\<rparr>"
  define h where "h = be 2 (of_nat (length body + 7) :: u16) @ [0x42, 0x59, 1, 1] @ be 2 cmd"
  have h: "length h = 8" "frame_head cmd body = h @ [- sum_list body]"
    "take 2 h = be 2 (of_nat (length body + 7) :: u16)" "drop 6 h = be 2 cmd"
    by (simp_all add: h_def frame_head_def)
  have "length (frame cmd body) \<le> length (m_strBuf p)" using B by simp
  from Copy_ok [OF this, of rest]
  have copy: "Copy (frame cmd body @ rest) (int (9 + length body)) p = Some (True, q)"
    by (simp add: q_def z_def)
  have c6: "take 2 (drop 6 (m_strBuf x)) = be 2 cmd" if "m_strBuf x = h @ y" for x :: "'a base_packet_scheme" and y
    using h by (simp add: that)
  have bl: "GetBodyLength q = Some (of_nat (length body + 7))"
    using h(1,3) by (subst GetBodyLength_eq) (simp_all add: q_def frame_def h(2))
  have cmd: "GetCmdType q = Some cmd"
    using h by (subst GetCmdType_eq) (simp_all add: q_def frame_def)
  have dec: "DecryptBuffer q = Some (int (length body), q')"
    using DecryptBuffer_ok [of q h "- sum_list body" "map enc_byte body" z] h(1) B
    by (simp add: h(3)) (simp add: q_def q'_def frame_def h(2) comp_def)
  have cmd': "GetCmdType q' = Some cmd"
    using h by (subst GetCmdType_eq) (simp_all add: q'_def)
  have wf: "pk_wf q'"
    by (rule pk_wfI [of q' "9 + length body" 9])
       (use B in \<open>simp_all add: q'_def q_def z_def\<close>)
  have "pk_rest q' = body" by (simp add: pk_rest_def q'_def q_def nat_add_distrib)
  with copy bl cmd dec cmd' wf show thesis
    by (intro that [of q q']) (simp_all add: q'_def q_def z_def)
qed

section \<open>Memory safety of the accessors\<close>

lemma base_Read_safe:
  assumes wf: "pk_wf p" and n: "0 \<le> n" "n \<le> 2 ^ 30"
  shows "\<exists>r q. base_Read n p = Some (r, q) \<and> pk_wf q \<and> m_strBuf q = m_strBuf p"
proof (cases "length (pk_rest p) < nat n")
  case True
  then have "base_Read (int (nat n)) p = Some (None, p)"
    using n by (intro base_Read_short [OF wf]) auto
  then show ?thesis using wf n by simp
next
  case False
  let ?bs = "take (nat n) (pk_rest p)"
  have "pk_rest p = ?bs @ drop (nat n) (pk_rest p)" by simp
  from wf this obtain q where "base_Read (int (length ?bs)) p = Some (Some ?bs, q)" "pk_wf q"
    "pk_rest q = drop (nat n) (pk_rest p)" "q = p\<lparr>m_nBufPos := m_nBufPos p + int (length ?bs)\<rparr>"
    by (rule base_Read_ok)
  moreover have "int (length ?bs) = n" using False n by simp
  ultimately show ?thesis by auto
qed

lemma base_Write_safe:
  assumes wf: "pk_wf p" and n: "0 \<le> n" "n \<le> 2 ^ 30" "nat n \<le> length bs"
  shows "\<exists>r q. base_Write bs n p = Some (r, q) \<and> pk_wf q \<and> PACKET_BUFFER_SIZE q = PACKET_BUFFER_SIZE p"
proof (cases "PACKET_BUFFER_SIZE p < m_nPacketSize p + n")
  case True
  then have "base_Write bs (int (nat n)) p = Some (False, p)"
    using n by (intro base_Write_full [OF wf]) auto
  then show ?thesis using wf n by auto
next
  case False
  let ?src = "take (nat n) bs"
  have room: "m_nPacketSize p + int (length ?src) \<le> PACKET_BUFFER_SIZE p"
    using False n by (simp add: min_absorb2)
  obtain q where q: "base_Write ?src (int (length ?src)) p = Some (True, q)" "pk_wf q"
    "PACKET_BUFFER_SIZE q = PACKET_BUFFER_SIZE p"
    by (rule base_Write_ok [OF wf room])
  have "read_i 0 n bs = read_i 0 n ?src" using n by (simp add: read_i_def read_at_def)
  then have "base_Write bs n p = base_Write ?src n p" by (simp add: base_Write_def cong: if_cong)
  with q n show ?thesis by (auto simp: min_absorb2)
qed

lemma write_ops_safe:
  assumes wf: "pk_wf p"
  shows "\<exists>r q. WriteInt i p = Some (r, q) \<and> pk_wf q"
    and "\<exists>r q. WriteULong u p = Some (r, q) \<and> pk_wf q"
    and "\<exists>r q. WriteShort s p = Some (r, q) \<and> pk_wf q"
    and "\<exists>r q. WriteByte b p = Some (r, q) \<and> pk_wf q"
    and "\<exists>r q. base_writezero p = Some (r, q) \<and> pk_wf q"
  using base_Write_safe [OF wf, of 4 "bytes_le 4 (htonl i)"]
    base_Write_safe [OF wf, of 8 "bytes_le 8 (bswap 8 u)"]
    base_Write_safe [OF wf, of 2 "bytes_le 2 (htons s)"]
    base_Write_safe [OF wf, of 1 "[b]"] base_Write_safe [OF wf, of 1 "[0]"]
  by (auto simp: WriteInt_def WriteULong_def WriteShort_def WriteByte_def
      base_writezero_eq [OF wf])

lemma read_ops_safe:
  assumes wf: "pk_wf p"
  shows "\<exists>r q. ReadInt p = Some (r, q) \<and> pk_wf q"
    and "\<exists>r q. ReadULong p = Some (r, q) \<and> pk_wf q"
    and "\<exists>r q. ReadShort p = Some (r, q) \<and> pk_wf q"
    and "\<exists>r q. ReadByte p = Some (r, q) \<and> pk_wf q"
  using base_Read_safe [OF wf, of 4] base_Read_safe [OF wf, of 8] base_Read_safe [OF wf, of 2]
    base_Read_safe [OF wf, of 1]
  by (auto simp: ReadInt_def ReadULong_def ReadShort_def ReadByte_def)

section \<open>Properties\<close>

text \<open>
  C10: What the server builds with \<open>Begin\<close>, a write of the body, \<open>End\<close> and \<open>EncryptBuffer\<close> is the
  protocol's frame of that command and body, whatever the packet object held before, for every body
  that fits into the buffer.
\<close>

theorem server_builds_frame:
  assumes B: "9 + length body \<le> length (m_strBuf p)" "length (m_strBuf p) \<le> 32768"
  shows "\<exists>a b c d. out_Begin cmd 1 1 p = Some a \<and> base_Write body (int (length body)) a = Some (True, b) \<and>
           out_End b = Some c \<and> EncryptBuffer c = Some (of_nat (length body), d) \<and>
           pk_bytes d = frame cmd body"
proof -
  define a where "a = p\<lparr>m_strBuf := [0, 0, 0x42, 0x59, 1, 1] @ be 2 cmd @ [0] @
    replicate (length (m_strBuf p) - 9) 0, m_nPacketSize := 9, m_nBufPos := 9, m_isCheckCode := False\<rparr>"
  have a: "out_Begin cmd 1 1 p = Some a"
    using B by (simp add: out_Begin_def base_begin_ok a_def)
  have wf: "pk_wf a" by (rule pk_wfI [of a 9 9]) (use B in \<open>simp_all add: a_def\<close>)
  have room: "m_nPacketSize a + int (length body) \<le> PACKET_BUFFER_SIZE a"
    using B by (simp add: a_def PACKET_BUFFER_SIZE_def)
  obtain b where b: "base_Write body (int (length body)) a = Some (True, b)" "pk_wf b"
    "pk_body b = pk_body a @ body" "pk_head b = pk_head a"
    "PACKET_BUFFER_SIZE b = PACKET_BUFFER_SIZE a"
    "m_nPacketSize b = m_nPacketSize a + int (length body)"
    by (rule base_Write_ok [OF wf room])
  have nb: "m_nPacketSize b = 9 + int (length body)" using b(6) by (simp add: a_def)
  have "pk_body a = []" by (simp add: pk_body_def a_def)
  with b(3) have body: "drop 9 (take (9 + length body) (m_strBuf b)) = body"
    by (simp add: pk_body_def nb nat_add_distrib)
  have lb: "length (m_strBuf b) = length (m_strBuf p)"
    using b(5) B by (simp add: PACKET_BUFFER_SIZE_def a_def)
  have h: "take 9 (m_strBuf b) = [0, 0, 0x42, 0x59, 1, 1] @ be 2 cmd @ [0]"
    using b(4) by (simp add: pk_head_def a_def)
  have "take (9 + length body) (m_strBuf b) = take 9 (m_strBuf b) @ body"
    using body append_take_drop_id [of 9 "take (9 + length body) (m_strBuf b)"] by simp
  then have buf: "m_strBuf b = take 9 (m_strBuf b) @ body @ drop (9 + length body) (m_strBuf b)"
    using append_take_drop_id [of "9 + length body" "m_strBuf b"] by simp
  have l9: "length (take 9 (m_strBuf b)) = 9" using lb B by simp
  have h6: "take 6 (drop 2 (take 9 (m_strBuf b))) = [0x42, 0x59, 1, 1] @ be 2 cmd"
    by (simp add: h)
  from out_frame [OF b(2) buf nb l9 h6] a b(1) show ?thesis by blast
qed

text \<open>The constructor's packets for the witnesses: a small buffer with arbitrary contents.\<close>

definition small_packet :: output_packet where
  "small_packet = \<lparr>m_strBuf = replicate 32 7, m_nPacketSize = 1, m_nBufPos = 2, m_isCheckCode = True\<rparr>"

theorem server_builds_frame_witness:
  "\<exists>a b c d. out_Begin 0x1002 1 1 small_packet = Some a \<and>
     base_Write [1, 2, 3] (int (length [1 :: byte, 2, 3])) a = Some (True, b) \<and> out_End b = Some c \<and>
     EncryptBuffer c = Some (of_nat (length [1 :: byte, 2, 3]), d) \<and> pk_bytes d = frame 0x1002 [1, 2, 3]"
  by (rule server_builds_frame) code_simp+

text \<open>
  C12: A frame at the head of the receive buffer, copied into an input packet and decrypted, is
  accepted with its body length, and the body is what remains to be read; the command is readable
  before and after decryption.
\<close>

theorem server_receives_frame:
  assumes "9 + length body \<le> length (m_strBuf p)" and "length (m_strBuf p) \<le> 32768"
  shows "\<exists>q q'. Copy (frame cmd body @ rest) (int (9 + length body)) p = Some (True, q) \<and>
           GetCmdType q = Some cmd \<and> DecryptBuffer q = Some (int (length body), q') \<and>
           GetCmdType q' = Some cmd \<and> pk_wf q' \<and> pk_rest q' = body"
  using assms by (rule receive_frame) blast

theorem server_receives_frame_witness:
  "\<exists>q q'. Copy (frame 2 [5, 6] @ [1]) (int (9 + length [5 :: byte, 6])) small_packet = Some (True, q) \<and>
     GetCmdType q = Some 2 \<and> DecryptBuffer q = Some (int (length [5 :: byte, 6]), q') \<and>
     GetCmdType q' = Some 2 \<and> pk_wf q' \<and> pk_rest q' = [5, 6]"
  by (rule server_receives_frame) code_simp+

text \<open>
  On a packet in use the integer accessors never leave the buffer and keep the packet
  invariant: a read past the end yields the preset value, a write that does not fit is refused.
\<close>

theorem accessors_safe:
  assumes wf: "pk_wf p"
  shows "(\<exists>r q. ReadInt p = Some (r, q) \<and> pk_wf q) \<and> (\<exists>r q. ReadULong p = Some (r, q) \<and> pk_wf q) \<and>
    (\<exists>r q. ReadShort p = Some (r, q) \<and> pk_wf q) \<and> (\<exists>r q. ReadByte p = Some (r, q) \<and> pk_wf q) \<and>
    (\<exists>r q. WriteInt i p = Some (r, q) \<and> pk_wf q) \<and> (\<exists>r q. WriteULong u p = Some (r, q) \<and> pk_wf q) \<and>
    (\<exists>r q. WriteShort s p = Some (r, q) \<and> pk_wf q) \<and> (\<exists>r q. WriteByte b p = Some (r, q) \<and> pk_wf q)"
  using read_ops_safe [OF wf] write_ops_safe [OF wf] by blast

definition used_packet :: output_packet where
  "used_packet = small_packet\<lparr>m_nPacketSize := 12, m_nBufPos := 10\<rparr>"

theorem accessors_safe_witness:
  "(\<exists>r q. ReadInt used_packet = Some (r, q) \<and> pk_wf q) \<and>
   (\<exists>r q. ReadULong used_packet = Some (r, q) \<and> pk_wf q) \<and>
   (\<exists>r q. ReadShort used_packet = Some (r, q) \<and> pk_wf q) \<and>
   (\<exists>r q. ReadByte used_packet = Some (r, q) \<and> pk_wf q) \<and>
   (\<exists>r q. WriteInt 1 used_packet = Some (r, q) \<and> pk_wf q) \<and>
   (\<exists>r q. WriteULong 2 used_packet = Some (r, q) \<and> pk_wf q) \<and>
   (\<exists>r q. WriteShort 3 used_packet = Some (r, q) \<and> pk_wf q) \<and>
   (\<exists>r q. WriteByte 4 used_packet = Some (r, q) \<and> pk_wf q)"
  by (rule accessors_safe) code_simp

text \<open>
  A length field below 7 makes \<open>DecryptBuffer\<close> run out of the buffer: the body size is computed
  in 16 bits and wraps round to at least 65529.
\<close>

lemma DecryptBuffer_short:
  assumes n: "GetBodyLength p = Some n" "unat n < 7" and B: "length (m_strBuf p) \<le> 32768"
  shows "DecryptBuffer p = None"
proof -
  have "(65529 :: u16) = - 7" by code_simp
  then have "(of_nat 65529 :: u16) = - 7" by (simp only: of_nat_numeral)
  then have eq: "n - 7 = n + of_nat 65529" by (simp only: diff_conv_add_uminus)
  have "unat n + 65529 < 65536" using n(2) by simp
  then have "unat (n - 7) = unat n + 65529" unfolding eq by (rule unat_add_of_nat16)
  then have "read_at 9 (unat (n - 7)) (m_strBuf p) = None"
    using B by (simp add: read_at_def)
  then show ?thesis
    by (cases "GetcbCheckCode p") (simp_all add: DecryptBuffer_def n(1) PACKET_HEADER_SIZE_def)
qed

text \<open>
  A negative string length, which the wire can carry, passes the bounds check of \<open>ReadChar\<close> and
  moves the read position backwards.
\<close>

theorem negative_length_moves_back:
  assumes wf: "pk_wf p" and rest: "pk_rest p = be 4 (w :: u32) @ r" and neg: "sint w < - 1"
    and small: "- (2 ^ 30) \<le> sint w"
  shows "\<exists>pos q. ReadChar p = Some (Some pos, q) \<and> m_nBufPos q = m_nBufPos p + 4 + sint w"
proof -
  obtain q where q: "ReadInt p = Some (sint w, q)" "pk_wf q" "q = p\<lparr>m_nBufPos := m_nBufPos p + 4\<rparr>"
    by (rule ReadInt_ok [OF wf rest])
  from q(2) obtain s k where s: "m_nPacketSize q = int s" "m_nBufPos q = int k" "9 \<le> s" "9 \<le> k"
    "k \<le> s" "s \<le> length (m_strBuf q)" "length (m_strBuf q) \<le> 32768" by (rule pk_wfE)
  have "cint (sint w + int k) = Some (sint w + int k)" using s neg small by (intro cint_Some) auto
  then have "base_readpoint (sint w) q = Some (Some k, q\<lparr>m_nBufPos := sint w + int k\<rparr>)"
    using s neg by (simp add: base_readpoint_def PACKET_BUFFER_SIZE_def)
  then show ?thesis using q(1) neg s(2) by (simp add: ReadChar_def) (simp add: q(3))
qed

theorem negative_length_moves_back_witness:
  "\<exists>pos q. ReadChar \<lparr>m_strBuf = replicate 9 0 @ [255, 255, 255, 240], m_nPacketSize = 13,
      m_nBufPos = 9\<rparr> = Some (Some pos, q) \<and>
    m_nBufPos q = m_nBufPos \<lparr>m_strBuf = replicate 9 0 @ [255, 255, 255, 240], m_nPacketSize = 13,
      m_nBufPos = 9\<rparr> + 4 + sint (0xFFFFFFF0 :: u32)"
  by (rule negative_length_moves_back [where r = "[]"]) code_simp+

end
