(* ===== verification/ClientConn.thy ===== *)
theory ClientConn
  imports ServerPacket Services
begin

text \<open>
  A client's connection in the server: \<open>CClientUnit\<close> (\<open>proxy/client_unit.h\<close>, \<open>client_unit.cpp\<close>) and
  the \<open>CDecoderUnit\<close> that owns it (\<open>decode_unit.h\<close>, \<open>decode_unit.cpp\<close>).

  The state \<open>server\<close> is the connection, the shared helper pool (\<open>CHelper_pool.h\<close>), the Redis
  servers, and what the connection has put on the wire. The two buffers \<open>_r\<close> and \<open>_w\<close> are the bytes
  they hold: \<open>RawCache\<close> shows that \<open>CRawCache\<close> is such a queue (as long as the pool can supply
  blocks). \<open>ApplyEvents\<close> is the effect of a successful call; \<open>Poller\<close> models the call itself.
  The system calls are inputs: the result of \<open>::recv\<close> is an argument, that of the \<open>n\<close>-th \<open>::send\<close>
  is \<open>e_send env n\<close>. Logging has no effect, and neither has \<open>update_timer\<close> on this state.

  \<open>None\<close> is undefined behaviour or an uncaught exception, which ends the process.
\<close>

section \<open>State\<close>

datatype conn_state = CONN_IDLE | CONN_FATAL_ERROR | CONN_DATA_ERROR | CONN_CONNECTING
  | CONN_DISCONNECT | CONN_CONNECTED | CONN_DATA_SENDING | CONN_DATA_RECVING | CONN_SEND_DONE
  | CONN_RECV_DONE | CONN_APPEND_SENDING | CONN_APPEND_DONE

datatype decode_status = DECODE_FATAL_ERROR | DECODE_DATA_ERROR | DECODE_WAIT_HEAD
  | DECODE_WAIT_CONTENT | DECODE_HEAD_DONE | DECODE_CONTENT_DONE | DECODE_DONE
  | DECODE_DISCONNECT_BY_USER

datatype conn_type = CONN_CLINET | CONN_OTHER

text \<open>\<open>send\<close> also returns the enumerator \<open>CONN_DATA_SENDING\<close> as an \<open>int\<close>.\<close>

definition CONN_DATA_SENDING_int :: int where "CONN_DATA_SENDING_int = 6"
definition CLIENT_CMD_DATA_REQ :: u16 where "CLIENT_CMD_DATA_REQ = 0x2"
definition SERVER_CMD_DATA_REP :: u16 where "SERVER_CMD_DATA_REP = 0x1002"
definition MAX_WEB_RECV_LEN :: nat where "MAX_WEB_RECV_LEN = 102400"

record client_unit =
  send_error_times :: int
  stage :: conn_state
  decodeStatus :: decode_status
  uid :: int
  login_flag :: int
  rbuf :: "byte list"
  wbuf :: "byte list"
  netfd :: int
  new_in :: bool
  new_out :: bool
  old_in :: bool
  old_out :: bool

record decoder_unit =
  du_id :: nat
  du_flag :: int
  du_conn_type :: conn_type

record 'c helper_pool =
  m_cmdlist :: "int list"
  m_objmap :: "int \<Rightarrow> nat option"
  m_redis_map :: "(int \<times> 'c redis_helper) list"

record ('c, 'd) server =
  cu :: client_unit
  du :: decoder_unit
  pool :: "'c helper_pool"
  db :: 'd
  wire :: "byte list"
  sends :: nat

text \<open>The result of a system call: the number of bytes, or an error that is one of \<open>EINTR\<close>, \<open>EAGAIN\<close>,
  \<open>EINPROGRESS\<close> (\<open>Retry\<close>) or another one (\<open>Fail\<close>).\<close>

datatype send_result = Sent nat | SendRetry | SendFail
datatype recv_result = Received "byte list" | RecvRetry | RecvFail

record ('c, 'd, 'v) env =
  e_send :: "nat \<Rightarrow> send_result"
  e_redis :: "('c, 'd) hiredis"
  e_json :: "'v json"
  e_in :: base_packet
  e_out :: output_packet
  e_user_close :: "('c, 'd) server \<Rightarrow> ('c, 'd) server"

definition new_client_unit :: "int \<Rightarrow> client_unit" where
  "new_client_unit fd = \<lparr>send_error_times = 0, stage = CONN_IDLE, decodeStatus = DECODE_WAIT_HEAD,
     uid = 0, login_flag = 0, rbuf = [], wbuf = [], netfd = fd, new_in = False, new_out = False,
     old_in = False, old_out = False\<rparr>"

definition EnableInput :: "client_unit \<Rightarrow> client_unit" where
  "EnableInput u = u\<lparr>new_in := True\<rparr>"
definition EnableOutput :: "client_unit \<Rightarrow> client_unit" where
  "EnableOutput u = u\<lparr>new_out := True\<rparr>"
definition DisableInput :: "client_unit \<Rightarrow> client_unit" where
  "DisableInput u = u\<lparr>new_in := False\<rparr>"
definition DisableOutput :: "client_unit \<Rightarrow> client_unit" where
  "DisableOutput u = u\<lparr>new_out := False\<rparr>"
definition ApplyEvents :: "client_unit \<Rightarrow> client_unit" where
  "ApplyEvents u = u\<lparr>old_in := new_in u, old_out := new_out u\<rparr>"

section \<open>Sending\<close>

definition add_rsp_buf :: "byte list \<Rightarrow> client_unit \<Rightarrow> client_unit" where
  "add_rsp_buf data u = u\<lparr>wbuf := wbuf u @ data\<rparr>"

definition send_failed :: "client_unit \<Rightarrow> client_unit" where
  "send_failed u = (ApplyEvents (DisableOutput (DisableInput u)))
     \<lparr>wbuf := [], rbuf := [], stage := CONN_FATAL_ERROR\<rparr>"

text \<open>One call of \<open>CClientUnit::send\<close>; \<open>res\<close> is the result of its \<open>::send\<close>.\<close>

definition send_step :: "send_result \<Rightarrow> client_unit \<Rightarrow> int \<times> client_unit" where
  "send_step res u =
     (if wbuf u \<noteq> [] then
        (case res of
           SendRetry \<Rightarrow>
             (let u1 = u\<lparr>send_error_times := send_error_times u + 1\<rparr>
              in if send_error_times u1 \<ge> 50 then (- 1, send_failed u1)
                 else (CONN_DATA_SENDING_int,
                       (ApplyEvents (EnableOutput u1))\<lparr>stage := CONN_DATA_SENDING\<rparr>))
         | SendFail \<Rightarrow> (- 1, send_failed u)
         | Sent n \<Rightarrow>
             if n = length (wbuf u)
             then (int n, (ApplyEvents (DisableOutput u))
                    \<lparr>wbuf := drop n (wbuf u), stage := CONN_SEND_DONE, send_error_times := 0\<rparr>)
             else if n < length (wbuf u)
             then (int n, (ApplyEvents (EnableOutput u))
                    \<lparr>wbuf := drop n (wbuf u), stage := CONN_DATA_SENDING, send_error_times := 0\<rparr>)
             else (- 1, (ApplyEvents (DisableOutput u))\<lparr>stage := CONN_FATAL_ERROR\<rparr>))
      else (- 1, (ApplyEvents (DisableOutput u))\<lparr>stage := CONN_FATAL_ERROR\<rparr>))"

definition send :: "('c, 'd, 'v) env \<Rightarrow> ('c, 'd) server \<Rightarrow> int \<times> ('c, 'd) server" where
  "send env s =
     (if wbuf (cu s) \<noteq> [] then
        (let res = e_send env (sends s);
             (ret, u) = send_step res (cu s);
             out = (case res of Sent n \<Rightarrow> take n (wbuf (cu s)) | _ \<Rightarrow> [])
         in (ret, s\<lparr>cu := u, sends := sends s + 1, wire := wire s @ out\<rparr>))
      else (let (ret, u) = send_step SendRetry (cu s) in (ret, s\<lparr>cu := u\<rparr>)))"

section \<open>The packet handlers\<close>

definition HandleInput :: "byte list \<Rightarrow> int" where
  "HandleInput data =
     (if length data < 9 then 0
      else if data ! 2 \<noteq> 0x42 \<or> data ! 3 \<noteq> 0x59 then - 1
      else (let pkglen = 2 + int (unat (htons (word_le (take 2 data))))
            in if pkglen < 0 \<or> pkglen > 8 * 1000 then - 1
               else if int (length data) < pkglen then 0
               else pkglen))"

definition CheckCmd :: "int \<Rightarrow> 'c helper_pool \<Rightarrow> bool" where
  "CheckCmd cmd hp = (cmd \<in> set (m_cmdlist hp))"

definition cmd_login_handler :: "int \<Rightarrow> ('c, 'd) server \<Rightarrow> ('c, 'd) server" where
  "cmd_login_handler cid s =
     s\<lparr>pool := (pool s)\<lparr>m_objmap := (m_objmap (pool s))(cid \<mapsto> du_id (du s))\<rparr>\<rparr>"

text \<open>
  The macro \<open>__REDIS_ID(sid, id, sz)\<close>: \<open>id\<close> is 64 bits wide, so \<open>sz\<close> is converted; division by zero
  ends the process.
\<close>

definition redis_id :: "u64 \<Rightarrow> nat \<Rightarrow> int option" where
  "redis_id oid sz =
     (if sz = 0 then None
      else (let sid = int (unat oid mod sz) in Some (if sid = 0 then int sz else sid)))"

definition data_flow ::
    "('c, 'd, 'v) env \<Rightarrow> byte list \<Rightarrow> ('c, 'd) server \<Rightarrow> (int \<times> ('c, 'd) server) option" where
  "data_flow env data s =
     (case j_parse (e_json env) data of
        None \<Rightarrow> Some (- 1, s)
      | Some v \<Rightarrow> do {
          oid \<leftarrow> j_uint64 (e_json env) v ''id'';
          mtime \<leftarrow> j_int64 (e_json env) v ''mtime'';
          sql \<leftarrow> j_string (e_json env) v ''sql'';
          sid \<leftarrow> redis_id oid (length (m_redis_map (pool s)));
          (case map_of (m_redis_map (pool s)) sid of
             None \<Rightarrow> Some (- 1, s)
           | Some redis \<Rightarrow> do {
               (_, d) \<leftarrow> redis_Enqueue (e_redis env) (bytes_of ''ORDER_Q'') data redis (db s);
               Some (0, s\<lparr>db := d\<rparr>) }) })"

definition cmd_data_handler ::
    "('c, 'd, 'v) env \<Rightarrow> base_packet \<Rightarrow> ('c, 'd) server \<Rightarrow> (int \<times> ('c, 'd) server) option" where
  "cmd_data_handler env pack s = do {
     (client_id, p1) \<leftarrow> ReadInt pack;
     (event_id, p2) \<leftarrow> ReadULong p1;
     (data, p3) \<leftarrow> ReadString p2;
     let s1 = cmd_login_handler client_id s;
     (_, s2) \<leftarrow> data_flow env data s1;
     o1 \<leftarrow> out_Begin SERVER_CMD_DATA_REP 1 1 (e_out env);
     (_, o2) \<leftarrow> WriteULong event_id o1;
     o3 \<leftarrow> out_End o2;
     (_, o4) \<leftarrow> EncryptBuffer o3;
     Some (send env (s2\<lparr>cu := add_rsp_buf (pk_bytes o4) (cu s2)\<rparr>)) }"

definition HandleInputBuf ::
    "('c, 'd, 'v) env \<Rightarrow> byte list \<Rightarrow> int \<Rightarrow> ('c, 'd) server \<Rightarrow> (int \<times> ('c, 'd) server) option" where
  "HandleInputBuf env pData len s = do {
     (_, p1) \<leftarrow> Copy pData len (e_in env);
     (decode, p2) \<leftarrow> DecryptBuffer p1;
     if decode = - 1 then Some (- 1, s)
     else do {
       cmd \<leftarrow> GetCmdType p2;
       if cmd = CLIENT_CMD_DATA_REQ then cmd_data_handler env p2 s else Some (- 1, s) } }"

text \<open>No handler adds to the receive buffer, so the packet loop below terminates.\<close>

lemma rbuf_send_step: "length (rbuf (snd (send_step res u))) \<le> length (rbuf u)"
  by (auto simp: send_step_def send_failed_def ApplyEvents_def EnableOutput_def DisableInput_def
      DisableOutput_def Let_def split: send_result.splits)

lemma rbuf_send: "length (rbuf (cu (snd (send env s)))) \<le> length (rbuf (cu s))"
  using rbuf_send_step [of "e_send env (sends s)" "cu s"] rbuf_send_step [of SendRetry "cu s"]
  by (auto simp: send_def Let_def split: prod.splits)

lemma data_flow_cu: "data_flow env data s = Some (r, s') \<Longrightarrow> cu s' = cu s"
  by (auto simp: data_flow_def split: option.splits bind_splits)

lemma cmd_data_handler_rbuf:
  assumes "cmd_data_handler env pack s = Some (r, s')"
  shows "length (rbuf (cu s')) \<le> length (rbuf (cu s))"
proof -
  from assms obtain cid data r2 s2 bs where s: "data_flow env data (cmd_login_handler cid s) = Some (r2, s2)"
    "send env (s2\<lparr>cu := add_rsp_buf bs (cu s2)\<rparr>) = (r, s')"
    by (auto simp: cmd_data_handler_def split: bind_splits)
  have "cu s2 = cu s" using data_flow_cu [OF s(1)] by (simp add: cmd_login_handler_def)
  then show ?thesis
    using rbuf_send [of env "s2\<lparr>cu := add_rsp_buf bs (cu s2)\<rparr>"] s(2) by (simp add: add_rsp_buf_def)
qed

lemma HandleInputBuf_rbuf:
  "HandleInputBuf env pData len s = Some (r, s') \<Longrightarrow> length (rbuf (cu s')) \<le> length (rbuf (cu s))"
  by (auto simp: HandleInputBuf_def cmd_data_handler_rbuf split: bind_splits if_splits)

lemma HandleInput_pos:
  assumes "HandleInput data > 0"
  shows "2 \<le> HandleInput data" "data \<noteq> []" "HandleInput data \<le> int (length data)"
    "HandleInput data \<le> 8000"
  using assms by (auto simp: HandleInput_def Let_def split: if_splits)

section \<open>Receiving\<close>

definition skip_r :: "int \<Rightarrow> ('c, 'd) server \<Rightarrow> ('c, 'd) server" where
  "skip_r n s = s\<lparr>cu := (cu s)\<lparr>rbuf := drop (nat n) (rbuf (cu s))\<rparr>\<rparr>"

lemma packet_consumed:
  assumes "rbuf (cu s) \<noteq> []" and "\<not> HandleInput (rbuf (cu s)) < 0" and "HandleInput (rbuf (cu s)) \<noteq> 0"
    and "HandleInputBuf env (rbuf (cu s)) (HandleInput (rbuf (cu s))) s = Some x" and "(ret, s1) = x"
  shows "length (rbuf (cu (skip_r (HandleInput (rbuf (cu s))) s1))) < length (rbuf (cu s))"
proof -
  have "2 \<le> HandleInput (rbuf (cu s))" using assms(2,3) HandleInput_pos(1) by simp
  then have "2 \<le> nat (HandleInput (rbuf (cu s)))" by simp
  moreover have "length (rbuf (cu s1)) \<le> length (rbuf (cu s))"
    using assms(4,5) HandleInputBuf_rbuf by auto
  moreover have "0 < length (rbuf (cu s))" using assms(1) by simp
  ultimately have "length (rbuf (cu s1)) - nat (HandleInput (rbuf (cu s))) < length (rbuf (cu s))"
    by linarith
  then show ?thesis by (simp add: skip_r_def)
qed

text \<open>The loop of \<open>proc_pkg\<close> over the complete packets in the receive buffer.\<close>

function pkg_loop :: "('c, 'd, 'v) env \<Rightarrow> ('c, 'd) server \<Rightarrow> (decode_status \<times> ('c, 'd) server) option" where
  "pkg_loop env s =
     (if rbuf (cu s) = [] then Some (DECODE_WAIT_HEAD, s)
      else if HandleInput (rbuf (cu s)) < 0 then Some (DECODE_FATAL_ERROR, s)
      else if HandleInput (rbuf (cu s)) = 0 then Some (DECODE_WAIT_CONTENT, s)
      else (case HandleInputBuf env (rbuf (cu s)) (HandleInput (rbuf (cu s))) s of
              None \<Rightarrow> None
            | Some (ret, s1) \<Rightarrow>
                if ret < 0 then Some (DECODE_FATAL_ERROR, s1)
                else pkg_loop env (skip_r (HandleInput (rbuf (cu s))) s1)))"
  by pat_completeness auto

termination pkg_loop
  by (relation "measure (\<lambda>(env, s). length (rbuf (cu s)))") (simp_all add: packet_consumed)

declare pkg_loop.simps [simp del]

definition policy_request :: "byte list" where
  "policy_request = bytes_of ''<policy-file-request/>''"

definition policy_reply :: "byte list" where
  "policy_reply = bytes_of (''<cross-domain-policy><allow-access-from domain='' @ [CHR 0x22, CHR ''*'', CHR 0x22]
     @ '' to-ports='' @ [CHR 0x22, CHR ''*'', CHR 0x22] @ '' /></cross-domain-policy>'')"

definition set_status :: "decode_status \<Rightarrow> ('c, 'd) server \<Rightarrow> decode_status \<times> ('c, 'd) server" where
  "set_status st s = (st, s\<lparr>cu := (cu s)\<lparr>decodeStatus := st\<rparr>\<rparr>)"

text \<open>The 23rd character the code compares with is the terminator behind the 22 of the literal.\<close>

definition proc_pkg ::
    "('c, 'd, 'v) env \<Rightarrow> recv_result \<Rightarrow> ('c, 'd) server \<Rightarrow> (decode_status \<times> ('c, 'd) server) option" where
  "proc_pkg env res s =
     (case res of
        RecvFail \<Rightarrow> Some (set_status DECODE_FATAL_ERROR s)
      | RecvRetry \<Rightarrow> Some (decodeStatus (cu s), s)
      | Received buf \<Rightarrow>
          if buf = [] then Some (set_status DECODE_DISCONNECT_BY_USER s)
          else if length buf = 23 \<and> buf ! 0 = 0x3C \<and> buf ! 1 = 0x70 then
            (let s1 = s\<lparr>du := (du s)\<lparr>du_conn_type := CONN_OTHER\<rparr>\<rparr>
             in if buf \<noteq> policy_request @ [0] then Some (set_status DECODE_FATAL_ERROR s1)
                else (let (_, s2) = send env (s1\<lparr>cu := add_rsp_buf policy_reply (cu s1)\<rparr>)
                      in Some (set_status DECODE_FATAL_ERROR s2)))
          else (case pkg_loop env (s\<lparr>cu := (cu s)\<lparr>rbuf := rbuf (cu s) @ buf\<rparr>\<rparr>) of
                  None \<Rightarrow> None
                | Some (st, s1) \<Rightarrow> Some (set_status st s1)))"

definition set_stage :: "conn_state \<Rightarrow> ('c, 'd) server \<Rightarrow> ('c, 'd) server" where
  "set_stage st s = s\<lparr>cu := (cu s)\<lparr>stage := st\<rparr>\<rparr>"

definition recv ::
    "('c, 'd, 'v) env \<Rightarrow> recv_result \<Rightarrow> ('c, 'd) server \<Rightarrow> (int \<times> ('c, 'd) server) option" where
  "recv env res s = do {
     (ret, s1) \<leftarrow> proc_pkg env res s;
     let off = s1\<lparr>cu := DisableInput (cu s1)\<rparr>;
     Some (case ret of
        DECODE_DATA_ERROR \<Rightarrow> (0, set_stage CONN_DATA_ERROR off)
      | DECODE_WAIT_HEAD \<Rightarrow> (0, set_stage CONN_DATA_RECVING s1)
      | DECODE_WAIT_CONTENT \<Rightarrow> (0, set_stage CONN_DATA_RECVING s1)
      | DECODE_DONE \<Rightarrow> (0, set_stage CONN_RECV_DONE s1)
      | DECODE_DISCONNECT_BY_USER \<Rightarrow> (0, set_stage CONN_DISCONNECT off)
      | _ \<Rightarrow> (- 1, set_stage CONN_FATAL_ERROR off)) }"

section \<open>The decoder unit\<close>

text \<open>The answer to the poller, and whether the connection still exists.\<close>

datatype poller_state = POLLER_SUCC | POLLER_COMPLETE

text \<open>
  \<open>CListener::complete\<close> and the destructors it runs: the connection type decides whether the
  logic server is told (\<open>ProcessUserClose\<close>, the parameter \<open>e_user_close\<close>; no connection ever gets the
  type \<open>CONN_CLINET\<close>), the object map forgets \<open>_flag\<close> if that is positive, the buffers are emptied.
\<close>

definition decoder_destroy :: "('c, 'd) server \<Rightarrow> ('c, 'd) server" where
  "decoder_destroy s =
     (if du_flag (du s) > 0
      then s\<lparr>pool := (pool s)\<lparr>m_objmap := (m_objmap (pool s))(du_flag (du s) := None)\<rparr>\<rparr>
      else s)\<lparr>cu := (cu s)\<lparr>wbuf := [], rbuf := []\<rparr>\<rparr>"

definition complete :: "('c, 'd, 'v) env \<Rightarrow> ('c, 'd) server \<Rightarrow> ('c, 'd) server" where
  "complete env s = decoder_destroy (if du_conn_type (du s) = CONN_CLINET then e_user_close env s else s)"

type_synonym ('c, 'd) answer = "poller_state \<times> bool \<times> ('c, 'd) server"

definition web_input :: "('c, 'd, 'v) env \<Rightarrow> ('c, 'd) server \<Rightarrow> ('c, 'd) answer" where
  "web_input env s =
     (case stage (cu s) of
        CONN_DATA_RECVING \<Rightarrow> (POLLER_SUCC, True, s)
      | CONN_IDLE \<Rightarrow> (POLLER_SUCC, True, s)
      | CONN_RECV_DONE \<Rightarrow> (POLLER_SUCC, True, s)
      | _ \<Rightarrow> (POLLER_COMPLETE, False, complete env s))"

definition web_output :: "('c, 'd, 'v) env \<Rightarrow> ('c, 'd) server \<Rightarrow> ('c, 'd) answer" where
  "web_output env s =
     (if stage (cu s) = CONN_SEND_DONE then (POLLER_COMPLETE, True, s)
      else if stage (cu s) \<in> {CONN_DATA_SENDING, CONN_APPEND_SENDING, CONN_APPEND_DONE} then
        (let (ret, s1) = send env s
         in if ret < 0 then (POLLER_COMPLETE, False, complete env s1)
            else if stage (cu s1) \<in> {CONN_SEND_DONE, CONN_DATA_SENDING, CONN_APPEND_SENDING,
                                     CONN_APPEND_DONE}
            then (POLLER_COMPLETE, True, s1)
            else (POLLER_COMPLETE, False, complete env s1))
      else (POLLER_COMPLETE, False, complete env s))"

definition web_hangup :: "('c, 'd, 'v) env \<Rightarrow> ('c, 'd) server \<Rightarrow> ('c, 'd) answer" where
  "web_hangup env s = (POLLER_COMPLETE, False, complete env s)"

definition web_timer :: "('c, 'd, 'v) env \<Rightarrow> ('c, 'd) server \<Rightarrow> ('c, 'd) answer" where
  "web_timer env s = (POLLER_COMPLETE, False, complete env s)"

section \<open>The poller's callbacks\<close>

definition Attach :: "bool \<Rightarrow> client_unit \<Rightarrow> int \<times> client_unit" where
  "Attach attached u =
     (let u1 = EnableInput u
      in if \<not> attached then (- 1, u1) else (0, (ApplyEvents u1)\<lparr>stage := CONN_IDLE\<rparr>))"

definition InputNotify ::
    "('c, 'd, 'v) env \<Rightarrow> recv_result \<Rightarrow> ('c, 'd) server \<Rightarrow> ('c, 'd) answer option" where
  "InputNotify env res s = do { (_, s1) \<leftarrow> recv env res s; Some (web_input env s1) }"

definition OutputNotify :: "('c, 'd, 'v) env \<Rightarrow> ('c, 'd) server \<Rightarrow> ('c, 'd) answer" where
  "OutputNotify env s = (let (_, s1) = send env s in web_output env s1)"

definition HangupNotify :: "('c, 'd, 'v) env \<Rightarrow> ('c, 'd) server \<Rightarrow> ('c, 'd) answer" where
  "HangupNotify env s = web_hangup env s"

definition TimerNotify :: "('c, 'd, 'v) env \<Rightarrow> ('c, 'd) server \<Rightarrow> ('c, 'd) answer" where
  "TimerNotify env s = web_timer env s"

section \<open>One request\<close>

text \<open>The objects the handlers construct on the stack are NET packets.\<close>

definition env_ok :: "('c, 'd, 'v) env \<Rightarrow> bool" where
  "env_ok env \<longleftrightarrow> length (m_strBuf (e_in env)) = 8192 \<and> length (m_strBuf (e_out env)) = 8192"

lemma HandleInput_frame:
  assumes "length body \<le> 7991"
  shows "HandleInput (frame cmd body @ rest) = int (9 + length body)"
proof -
  have mark: "(frame cmd body @ rest) ! 2 = 0x42" "(frame cmd body @ rest) ! 3 = 0x59"
    by (simp_all add: nth_append frame_mark)
  have len: "take 2 (frame cmd body @ rest) = be 2 (of_nat (length body + 7) :: u16)"
    using frame_take_len [of cmd body] by simp
  have un: "unat (of_nat (length body + 7) :: u16) = length body + 7"
    using assms by (intro unat_of_nat16) simp
  show ?thesis
    unfolding HandleInput_def mark len htons_be un Let_def using assms by simp
qed

lemma reply_packet:
  assumes "length (m_strBuf p) = 8192"
  obtains a b c d w where "out_Begin cmd 1 1 p = Some a" "WriteULong u a = Some (True, b)"
    "out_End b = Some c" "EncryptBuffer c = Some (w, d)" "pk_bytes d = frame cmd (be 8 u)"
proof -
  define a where "a = p\<lparr>m_strBuf := [0, 0, 0x42, 0x59, 1, 1] @ be 2 cmd @ [0] @
    replicate (length (m_strBuf p) - 9) 0, m_nPacketSize := 9, m_nBufPos := 9, m_isCheckCode := False\<rparr>"
  have a: "out_Begin cmd 1 1 p = Some a"
    using assms by (simp add: out_Begin_def base_begin_ok a_def)
  have wf: "pk_wf a" by (rule pk_wfI [of a 9 9]) (use assms in \<open>simp_all add: a_def\<close>)
  define h where "h = [0, 0, 0x42, 0x59, 1, 1] @ be 2 cmd @ [0 :: byte]"
  define z where "z = replicate 8175 (0 :: byte)"
  have ab: "m_strBuf a = h @ (replicate 8 0 @ z)"
    using assms by (simp add: a_def h_def z_def replicate_add [symmetric])
  have h9: "length h = 9" by (simp add: h_def)
  have rd: "read_i 0 8 (be 8 u) = Some (be 8 u)" by (simp add: read_i_def read_at_def)
  have "write_at 9 (be 8 u) (m_strBuf a) = Some (h @ be 8 u @ z)"
    unfolding ab by (rule write_at_append_mid) (simp_all add: h9)
  then have wr: "write_i 9 (be 8 u) (m_strBuf a) = Some (h @ be 8 u @ z)" by (simp add: write_i_def)
  define b where "b = a\<lparr>m_strBuf := h @ be 8 u @ z, m_nPacketSize := 17\<rparr>"
  have sz: "m_nPacketSize a = 9" "PACKET_BUFFER_SIZE a = 8192"
    using assms by (simp_all add: a_def PACKET_BUFFER_SIZE_def)
  have swap: "bytes_le 8 (bswap 8 u) = be 8 u" by (simp add: be_def)
  have b: "WriteULong u a = Some (True, b)"
    using rd wr by (simp add: WriteULong_def base_Write_def sz swap b_def)
  have wfb: "pk_wf b" by (rule pk_wfI [of b 17 9]) (simp_all add: b_def h_def z_def a_def)
  have b1: "m_strBuf b = h @ be 8 u @ z" by (simp add: b_def)
  have b2: "m_nPacketSize b = 9 + int (length (be 8 u))" by (simp add: b_def)
  have b3: "take 6 (drop 2 h) = [0x42, 0x59, 1, 1] @ be 2 cmd" by (simp add: h_def)
  from out_frame [OF wfb b1 b2 h9 b3] obtain c d where "out_End b = Some c"
    "EncryptBuffer c = Some (of_nat (length (be 8 u)), d)" "pk_bytes d = frame cmd (be 8 u)" by blast
  with a b show thesis by (rule that)
qed

text \<open>
  A data request is decoded to exactly what the client wrote, the connection is registered under
  the client's number, the data go to \<open>__data_flow\<close>, and the reply is queued and sent.
\<close>

lemma request_handled:
  assumes env: "env_ok env" and json: "0 \<notin> set json" "length json \<le> 7975"
    and flow: "data_flow env json (cmd_login_handler (sint cid) s) = Some (r, s2)"
  shows "HandleInputBuf env (frame CLIENT_CMD_DATA_REQ (request_body cid eid json) @ rest)
           (int (9 + length (request_body cid eid json))) s =
         Some (send env (s2\<lparr>cu := add_rsp_buf (frame SERVER_CMD_DATA_REP (reply_body eid)) (cu s2)\<rparr>))"
proof -
  let ?body = "request_body cid eid json"
  have B: "9 + length ?body \<le> length (m_strBuf (e_in env))" "length (m_strBuf (e_in env)) \<le> 32768"
    using env json by (simp_all add: env_ok_def)
  obtain q q' where q: "Copy (frame CLIENT_CMD_DATA_REQ ?body @ rest) (int (9 + length ?body)) (e_in env) =
      Some (True, q)"
    "GetCmdType q = Some CLIENT_CMD_DATA_REQ" "GetBodyLength q = Some (of_nat (length ?body + 7))"
    "DecryptBuffer q = Some (int (length ?body), q')" "GetCmdType q' = Some CLIENT_CMD_DATA_REQ"
    "pk_wf q'" "pk_rest q' = ?body" "m_nPacketSize q' = 9 + int (length ?body)" "m_nBufPos q' = 9"
    "m_strBuf q' = frame_head CLIENT_CMD_DATA_REQ ?body @ ?body @
       replicate (length (m_strBuf (e_in env)) - (9 + length ?body)) 0"
    by (rule receive_frame [OF B])
  have rest1: "pk_rest q' = be 4 cid @ be 8 eid @ be 4 (of_nat (length json) :: u32) @ json"
    using q(7) by (simp add: request_body_def)
  obtain p1 where p1: "ReadInt q' = Some (sint cid, p1)" "pk_wf p1"
    "pk_rest p1 = be 8 eid @ be 4 (of_nat (length json) :: u32) @ json"
    "p1 = q'\<lparr>m_nBufPos := m_nBufPos q' + 4\<rparr>"
    by (rule ReadInt_ok [OF q(6) rest1])
  obtain p2 where p2: "ReadULong p1 = Some (eid, p2)" "pk_wf p2"
    "pk_rest p2 = be 4 (of_nat (length json) :: u32) @ json"
    "p2 = p1\<lparr>m_nBufPos := m_nBufPos p1 + 8\<rparr>"
    by (rule ReadULong_ok [OF p1(2,3)])
  have rest3: "pk_rest p2 = be 4 (of_nat (length json) :: u32) @ json @ []" using p2(3) by simp
  define k where "k = length (m_strBuf (e_in env)) - (9 + length ?body)"
  have k: "0 < k" using env json by (simp add: k_def env_ok_def)
  have pos: "nat (m_nBufPos p2) = 21" by (simp add: p2(4) p1(4) q(9))
  have "drop (nat (m_nBufPos p2) + 4 + length json) (m_strBuf p2) = replicate k 0"
    unfolding pos by (simp add: p2(4) p1(4) q(10) k_def)
  then have nul: "drop (nat (m_nBufPos p2) + 4 + length json) (m_strBuf p2) = 0 # replicate (k - 1) 0"
    using k by (cases k) simp_all
  obtain p3 where p3: "ReadString p2 = Some (json, p3)" "pk_wf p3" "pk_rest p3 = []"
    by (rule ReadString_ok [OF p2(2) rest3 json(1) nul])
  have out: "length (m_strBuf (e_out env)) = 8192" using env by (simp add: env_ok_def)
  obtain a b c d w where o: "out_Begin SERVER_CMD_DATA_REP 1 1 (e_out env) = Some a"
    "WriteULong eid a = Some (True, b)" "out_End b = Some c" "EncryptBuffer c = Some (w, d)"
    "pk_bytes d = frame SERVER_CMD_DATA_REP (be 8 eid)"
    by (rule reply_packet [OF out])
  have "cmd_data_handler env q' s =
      Some (send env (s2\<lparr>cu := add_rsp_buf (frame SERVER_CMD_DATA_REP (reply_body eid)) (cu s2)\<rparr>))"
    using p1(1) p2(1) p3(1) flow o by (simp add: cmd_data_handler_def reply_body_def)
  then show ?thesis
    unfolding HandleInputBuf_def q(1) bind.bind_lunit prod.case q(4) q(5) by simp
qed

end
