(* ===== verification/ClientProps.thy ===== *)
theory ClientProps
  imports ClientConn
begin

text \<open>
  What a client's connection guarantees, on the definitions of \<open>ClientConn\<close>: the sending side keeps
  the byte stream, the receiving side does not depend on how TCP cuts the stream into segments, an
  invariant of every live connection, the handling of one data request from the socket to the Redis
  list, and what the code does on malformed packets and on closing.
\<close>

section \<open>Sending\<close>

lemma send_nonempty:
  assumes "wbuf (cu s) \<noteq> []"
  shows "send env s = (fst (send_step (e_send env (sends s)) (cu s)),
     s\<lparr>cu := snd (send_step (e_send env (sends s)) (cu s)), sends := sends s + 1,
       wire := wire s @ (case e_send env (sends s) of Sent n \<Rightarrow> take n (wbuf (cu s)) | _ \<Rightarrow> [])\<rparr>)"
  using assms by (simp add: send_def Let_def split_beta)

lemma send_empty:
  "wbuf (cu s) = [] \<Longrightarrow> send env s = (- 1, s\<lparr>cu := snd (send_step SendRetry (cu s))\<rparr>)"
  by (simp add: send_def Let_def send_step_def)

text \<open>A \<open>send\<close> that does not report an error leaves one of two stages, and asks for output as long as
  bytes wait.\<close>

lemma send_step_ok:
  assumes "0 \<le> fst (send_step res u)"
  obtains n where "snd (send_step res u) = u\<lparr>wbuf := drop n (wbuf u), new_out := drop n (wbuf u) \<noteq> [],
      old_in := new_in u, old_out := drop n (wbuf u) \<noteq> [],
      stage := if drop n (wbuf u) = [] then CONN_SEND_DONE else CONN_DATA_SENDING,
      send_error_times := if res = SendRetry then send_error_times u + 1 else 0\<rparr>"
    "n = (case res of Sent k \<Rightarrow> k | _ \<Rightarrow> 0)" "n \<le> length (wbuf u)" "wbuf u \<noteq> []" "res \<noteq> SendFail"
  using assms
  by (cases res) (auto simp: send_step_def ApplyEvents_def EnableOutput_def DisableOutput_def Let_def
      CONN_DATA_SENDING_int_def split: if_splits)

text \<open>
  C24: \<open>CClientUnit::send\<close> keeps the reply stream: whatever \<open>::send\<close> accepts, the bytes on the wire followed by
  the bytes still queued are the same before and after a call that reports no error.
\<close>

theorem send_keeps_stream:
  assumes "send env s = (r, s')" and "0 \<le> r"
  shows "wire s' @ wbuf (cu s') = wire s @ wbuf (cu s) \<and> wbuf (cu s) \<noteq> [] \<and>
     (stage (cu s') = CONN_SEND_DONE \<longleftrightarrow> wbuf (cu s') = [])"
proof -
  have ne: "wbuf (cu s) \<noteq> []" using assms send_empty [of s env] by auto
  let ?x = "send_step (e_send env (sends s)) (cu s)"
  have "0 \<le> fst ?x" using assms send_nonempty [OF ne, of env] by simp
  then obtain n where n: "wbuf (snd ?x) = drop n (wbuf (cu s))"
    "stage (snd ?x) = (if drop n (wbuf (cu s)) = [] then CONN_SEND_DONE else CONN_DATA_SENDING)"
    "n = (case e_send env (sends s) of Sent k \<Rightarrow> k | _ \<Rightarrow> 0)"
    by (rule send_step_ok) simp
  then show ?thesis
    using assms(1) ne send_nonempty [OF ne, of env] by (auto split: send_result.splits if_splits)
qed

section \<open>Segmentation\<close>

definition ext :: "byte list \<Rightarrow> ('c, 'd) server \<Rightarrow> ('c, 'd) server" where
  "ext b s = s\<lparr>cu := (cu s)\<lparr>rbuf := rbuf (cu s) @ b\<rparr>\<rparr>"

definition unstage :: "('c, 'd) server \<Rightarrow> ('c, 'd) server" where
  "unstage s = s\<lparr>cu := (cu s)\<lparr>stage := CONN_IDLE, decodeStatus := DECODE_WAIT_HEAD\<rparr>\<rparr>"

lemma ext_simps [simp]: "rbuf (cu (ext b s)) = rbuf (cu s) @ b" "ext b (ext c s) = ext (c @ b) s"
  "du (ext b s) = du s" "pool (ext b s) = pool s" "db (ext b s) = db s" "ext [] s = s"
  by (simp_all add: ext_def)

lemma send_ext:
  "fst (send env (ext b s)) = fst (send env s)"
  "0 \<le> fst (send env s) \<Longrightarrow> snd (send env (ext b s)) = ext b (snd (send env s))"
  by (auto simp: send_def send_step_def ext_def Let_def ApplyEvents_def EnableOutput_def
      DisableOutput_def send_failed_def split: send_result.splits)

lemma data_flow_with_cu:
  "data_flow env data (s\<lparr>cu := c\<rparr>) = map_option (\<lambda>(r, t). (r, t\<lparr>cu := c\<rparr>)) (data_flow env data s)"
  by (simp add: data_flow_def split: option.splits bind_splits)

lemma login_flow_with_cu:
  "data_flow env data (cmd_login_handler cid (s\<lparr>cu := c\<rparr>)) =
     map_option (\<lambda>(r, t). (r, t\<lparr>cu := c\<rparr>)) (data_flow env data (cmd_login_handler cid s))"
proof -
  have "cmd_login_handler cid (s\<lparr>cu := c\<rparr>) = (cmd_login_handler cid s)\<lparr>cu := c\<rparr>"
    by (simp add: cmd_login_handler_def)
  then show ?thesis by (simp only: data_flow_with_cu)
qed

text \<open>
  What \<open>HandleInputBuf\<close> does is decided by the packet alone: it crashes, refuses the packet, or
  queues a reply and calls \<open>send\<close>, whatever the state of the connection and whatever follows the
  packet in the buffer.
\<close>

lemma HandleInputBuf_cases:
  assumes n: "0 \<le> n" "n \<le> int (length d)"
  obtains "\<And>b c. HandleInputBuf env (d @ b) n (s\<lparr>cu := c\<rparr>) = None"
  | "\<And>b c. HandleInputBuf env (d @ b) n (s\<lparr>cu := c\<rparr>) = Some (- 1, s\<lparr>cu := c\<rparr>)"
  | u reply where "\<And>b c. HandleInputBuf env (d @ b) n (s\<lparr>cu := c\<rparr>) =
      Some (send env (u\<lparr>cu := add_rsp_buf reply c\<rparr>))"
proof -
  note result = that
  have copy: "Copy (d @ b) n p = Copy d n p" for b and p :: base_packet
  proof -
    have "nat n \<le> length d" using n by simp
    then show ?thesis by (simp add: Copy_def base_copy_def read_i_def read_at_def)
  qed
  have handler: "(\<forall>c. cmd_data_handler env p (s\<lparr>cu := c\<rparr>) = None) \<or>
      (\<exists>u reply. \<forall>c. cmd_data_handler env p (s\<lparr>cu := c\<rparr>) =
         Some (send env (u\<lparr>cu := add_rsp_buf reply c\<rparr>)))" for p
  proof (cases "do { (cid, p1) \<leftarrow> ReadInt p; (eid, p2) \<leftarrow> ReadULong p1; (data, p3) \<leftarrow> ReadString p2;
      (q, s2) \<leftarrow> data_flow env data (cmd_login_handler cid s);
      o1 \<leftarrow> out_Begin SERVER_CMD_DATA_REP 1 1 (e_out env); (_, o2) \<leftarrow> WriteULong eid o1;
      o3 \<leftarrow> out_End o2; (_, o4) \<leftarrow> EncryptBuffer o3; Some (s2, o4) }")
    case None
    then have "cmd_data_handler env p (s\<lparr>cu := c\<rparr>) = None" for c
      by (auto simp: cmd_data_handler_def Let_def bind_eq_None_conv login_flow_with_cu split: prod.splits)
    then show ?thesis by blast
  next
    case (Some x)
    then have "cmd_data_handler env p (s\<lparr>cu := c\<rparr>) =
        Some (send env ((fst x)\<lparr>cu := add_rsp_buf (pk_bytes (snd x)) c\<rparr>))" for c
      by (auto simp: cmd_data_handler_def Let_def bind_eq_Some_conv login_flow_with_cu split: prod.splits)
    then show ?thesis by blast
  qed
  show thesis
  proof (cases "do { (_, p1) \<leftarrow> Copy d n (e_in env); (dec, p2) \<leftarrow> DecryptBuffer p1; Some (dec, p2) }")
    case None
    then have "HandleInputBuf env (d @ b) n (s\<lparr>cu := c\<rparr>) = None" for b c
      by (cases "Copy d n (e_in env)") (auto simp: HandleInputBuf_def copy bind_eq_None_conv)
    then show thesis by (rule result(1))
  next
    case (Some x)
    obtain dec p2 where x: "x = (dec, p2)" by (cases x)
    have H: "HandleInputBuf env (d @ b) n (s\<lparr>cu := c\<rparr>) = (if dec = - 1 then Some (- 1, s\<lparr>cu := c\<rparr>)
        else do { cmd \<leftarrow> GetCmdType p2; if cmd = CLIENT_CMD_DATA_REQ
          then cmd_data_handler env p2 (s\<lparr>cu := c\<rparr>) else Some (- 1, s\<lparr>cu := c\<rparr>) })" for b c
      using Some unfolding HandleInputBuf_def copy x by (auto simp: bind_eq_Some_conv)
    show thesis
    proof (cases "dec = - 1 \<or> (\<exists>cmd. GetCmdType p2 = Some cmd \<and> cmd \<noteq> CLIENT_CMD_DATA_REQ)")
      case True
      then show thesis by (intro result(2)) (auto simp: H)
    next
      case False
      then show thesis
      proof (cases "GetCmdType p2")
        case None
        with False show thesis by (intro result(1)) (auto simp: H)
      next
        case (Some cmd)
        with False have "HandleInputBuf env (d @ b) n (s\<lparr>cu := c\<rparr>) =
            cmd_data_handler env p2 (s\<lparr>cu := c\<rparr>)" for b c by (auto simp: H)
        with handler [of p2] show thesis using result(1,3) by metis
      qed
    qed
  qed
qed

lemma send_unstage:
  assumes "unstage s = unstage t"
  shows "fst (send env s) = fst (send env t)"
    and "unstage (snd (send env s)) = unstage (snd (send env t))"
proof -
  obtain g e where s: "s = t\<lparr>cu := (cu t)\<lparr>stage := g, decodeStatus := e\<rparr>\<rparr>"
  proof
    show "s = t\<lparr>cu := (cu t)\<lparr>stage := stage (cu s), decodeStatus := decodeStatus (cu s)\<rparr>\<rparr>"
      using assms by (cases s, cases t, cases "cu s", cases "cu t") (simp add: unstage_def)
  qed
  show "fst (send env s) = fst (send env t)"
    "unstage (snd (send env s)) = unstage (snd (send env t))"
    by (auto simp: s send_def send_step_def unstage_def Let_def ApplyEvents_def EnableOutput_def
        DisableInput_def DisableOutput_def send_failed_def split: send_result.splits)
qed

lemma send_rbuf: "0 \<le> fst (send env s) \<Longrightarrow> rbuf (cu (snd (send env s))) = rbuf (cu s)"
  by (auto simp: send_def send_step_def Let_def ApplyEvents_def EnableOutput_def DisableOutput_def
      split: send_result.splits if_splits)

lemma HandleInputBuf_ok:
  assumes n: "0 \<le> n" "n \<le> int (length d)" and ok: "HandleInputBuf env d n s = Some (r, t)" "0 \<le> r"
  shows "HandleInputBuf env (d @ b) n (ext b s) = Some (r, ext b t)" "rbuf (cu t) = rbuf (cu s)"
proof -
  have s: "s\<lparr>cu := cu s\<rparr> = s" by simp
  obtain u reply where H: "\<And>b c. HandleInputBuf env (d @ b) n (s\<lparr>cu := c\<rparr>) =
      Some (send env (u\<lparr>cu := add_rsp_buf reply c\<rparr>))"
  proof (rule HandleInputBuf_cases [OF n, of env s])
    assume "\<And>b c. HandleInputBuf env (d @ b) n (s\<lparr>cu := c\<rparr>) = None"
    from this [of "[]" "cu s"] ok(1) show thesis by simp
  next
    assume "\<And>b c. HandleInputBuf env (d @ b) n (s\<lparr>cu := c\<rparr>) = Some (- 1, s\<lparr>cu := c\<rparr>)"
    from this [of "[]" "cu s"] ok show thesis by simp
  next
    fix u reply
    assume "\<And>b c. HandleInputBuf env (d @ b) n (s\<lparr>cu := c\<rparr>) =
      Some (send env (u\<lparr>cu := add_rsp_buf reply c\<rparr>))"
    then show thesis by (rule that)
  qed
  have st: "send env (u\<lparr>cu := add_rsp_buf reply (cu s)\<rparr>) = (r, t)" using H [of "[]" "cu s"] ok(1) by simp
  have e: "u\<lparr>cu := add_rsp_buf reply (cu (ext b s))\<rparr> = ext b (u\<lparr>cu := add_rsp_buf reply (cu s)\<rparr>)"
    by (simp add: ext_def add_rsp_buf_def)
  have "ext b s = s\<lparr>cu := cu (ext b s)\<rparr>" by (simp add: ext_def)
  then have "HandleInputBuf env (d @ b) n (ext b s) =
      Some (send env (ext b (u\<lparr>cu := add_rsp_buf reply (cu s)\<rparr>)))" using H e by metis
  then show "HandleInputBuf env (d @ b) n (ext b s) = Some (r, ext b t)"
    using send_ext [where env = env and b = b and s = "u\<lparr>cu := add_rsp_buf reply (cu s)\<rparr>"] st ok(2)
    by (auto intro: prod_eqI)
  show "rbuf (cu t) = rbuf (cu s)"
    using send_rbuf [of env "u\<lparr>cu := add_rsp_buf reply (cu s)\<rparr>"] st ok(2) by (simp add: add_rsp_buf_def)
qed

lemma HandleInputBuf_unstage:
  assumes n: "0 \<le> n" "n \<le> int (length d)" and eq: "unstage s = unstage t"
  shows "map_option (apsnd unstage) (HandleInputBuf env d n s) =
         map_option (apsnd unstage) (HandleInputBuf env d n t)"
proof -
  have s: "s = t\<lparr>cu := cu s\<rparr>"
    using eq by (cases s, cases t) (simp add: unstage_def)
  have add: "unstage (u\<lparr>cu := add_rsp_buf reply (cu s)\<rparr>) = unstage (u\<lparr>cu := add_rsp_buf reply (cu t)\<rparr>)"
    for u reply using eq
    by (cases s, cases t, cases "cu s", cases "cu t") (simp add: unstage_def add_rsp_buf_def)
  show ?thesis
  proof (rule HandleInputBuf_cases [OF n, of env t])
    assume H: "\<And>b c. HandleInputBuf env (d @ b) n (t\<lparr>cu := c\<rparr>) = None"
    from H [of "[]" "cu s"] H [of "[]" "cu t"] s show ?thesis by simp
  next
    assume H: "\<And>b c. HandleInputBuf env (d @ b) n (t\<lparr>cu := c\<rparr>) = Some (- 1, t\<lparr>cu := c\<rparr>)"
    from H [of "[]" "cu s"] H [of "[]" "cu t"] s eq show ?thesis by simp
  next
    fix u reply
    assume H: "\<And>b c. HandleInputBuf env (d @ b) n (t\<lparr>cu := c\<rparr>) =
      Some (send env (u\<lparr>cu := add_rsp_buf reply c\<rparr>))"
    from H [of "[]" "cu s"] H [of "[]" "cu t"] s send_unstage [OF add [of reply u], of env]
    show ?thesis by (simp add: apsnd_def map_prod_def split_beta)
  qed
qed

lemma HandleInput_append: "HandleInput d \<noteq> 0 \<Longrightarrow> HandleInput (d @ b) = HandleInput d"
  by (auto simp: HandleInput_def Let_def nth_append split: if_splits)

lemma skip_ext: "nat n \<le> length (rbuf (cu s)) \<Longrightarrow> skip_r n (ext b s) = ext b (skip_r n s)"
  by (simp add: skip_r_def ext_def)

lemma pkg_loop_ext:
  "pkg_loop env s = Some (st, t) \<Longrightarrow> st \<noteq> DECODE_FATAL_ERROR \<Longrightarrow>
     pkg_loop env (ext b s) = pkg_loop env (ext b t)"
proof (induction env s rule: pkg_loop.induct)
  case (1 env s)
  let ?d = "rbuf (cu s)" and ?n = "HandleInput (rbuf (cu s))"
  show ?case
  proof (cases "?d = [] \<or> ?n = 0")
    case True
    then have "t = s"
      using 1(2) by (subst (asm) pkg_loop.simps) (auto split: if_splits)
    then show ?thesis by simp
  next
    case False
    then have ne: "?d \<noteq> []" "?n \<noteq> 0" by simp_all
    have pos: "0 < ?n" using 1(2,3) ne by (subst (asm) pkg_loop.simps) (auto split: if_splits)
    obtain ret s1 where h: "HandleInputBuf env ?d ?n s = Some (ret, s1)" "0 \<le> ret"
      "pkg_loop env (skip_r ?n s1) = Some (st, t)"
      using 1(2,3) ne pos
      by (subst (asm) pkg_loop.simps) (auto split: if_splits option.splits prod.splits)
    have n: "0 \<le> ?n" "?n \<le> int (length ?d)" using pos HandleInput_pos(3) [OF pos] by simp_all
    note big = HandleInputBuf_ok [OF n h(1,2)]
    have sk: "skip_r ?n (ext b s1) = ext b (skip_r ?n s1)"
      using n big(2) by (intro skip_ext) simp
    have app: "HandleInput (rbuf (cu (ext b s))) = ?n" using ne(2) by (simp add: HandleInput_append)
    have "pkg_loop env (ext b s) = pkg_loop env (ext b (skip_r ?n s1))"
      using ne pos h(2) big(1) by (subst pkg_loop.simps) (simp add: app sk HandleInput_append)
    also have "\<dots> = pkg_loop env (ext b t)"
    proof (rule "1.IH")
      show "\<not> ?n < 0" "?n \<noteq> 0" "?d \<noteq> []" using pos ne by simp_all
      show "HandleInputBuf env ?d ?n s = Some (ret, s1)" "(ret, s1) = (ret, s1)" "\<not> ret < 0"
        using h(1,2) by simp_all
      show "pkg_loop env (skip_r ?n s1) = Some (st, t)" by (rule h(3))
      show "st \<noteq> DECODE_FATAL_ERROR" by (rule "1.prems"(2))
    qed
    finally show ?thesis .
  qed
qed

lemma unstage_rbuf: "unstage s = unstage t \<Longrightarrow> rbuf (cu s) = rbuf (cu t)"
  by (cases s, cases t, cases "cu s", cases "cu t") (simp add: unstage_def)

lemma unstage_skip: "unstage (skip_r n s) = skip_r n (unstage s)"
  by (simp add: unstage_def skip_r_def)

lemma pkg_loop_unstage:
  "unstage s = unstage t \<Longrightarrow>
     map_option (apsnd unstage) (pkg_loop env s) = map_option (apsnd unstage) (pkg_loop env t)"
proof (induction env s arbitrary: t rule: pkg_loop.induct)
  case (1 env s)
  note eq = "1.prems"
  let ?d = "rbuf (cu s)" and ?n = "HandleInput (rbuf (cu s))"
  have d: "rbuf (cu t) = ?d" using unstage_rbuf [OF eq] by simp
  show ?case
  proof (cases "?d \<noteq> [] \<and> 0 < ?n")
    case False
    then show ?thesis using eq by (subst (1 2) pkg_loop.simps) (auto simp: d)
  next
    case True
    then have n: "0 \<le> ?n" "?n \<le> int (length ?d)" using HandleInput_pos(3) by auto
    note H = HandleInputBuf_unstage [OF n eq, of env]
    show ?thesis
    proof (cases "HandleInputBuf env ?d ?n s")
      case None
      then have "HandleInputBuf env ?d ?n t = None" using H by simp
      with None True show ?thesis by (subst (1 2) pkg_loop.simps) (auto simp: d)
    next
      case (Some x)
      obtain r s1 where x: "x = (r, s1)" by (cases x)
      obtain t1 where t1: "HandleInputBuf env ?d ?n t = Some (r, t1)" "unstage t1 = unstage s1"
        using H Some x by (cases "HandleInputBuf env ?d ?n t") (auto simp: apsnd_def)
      have IH: "0 \<le> r \<Longrightarrow> map_option (apsnd unstage) (pkg_loop env (skip_r ?n s1)) =
          map_option (apsnd unstage) (pkg_loop env (skip_r ?n t1))"
        using "1.IH" [OF _ _ _ _ refl, of r s1 "skip_r ?n t1"] True Some x t1(2)
        by (simp add: unstage_skip)
      then show ?thesis using True Some x t1
        by (subst (1 2) pkg_loop.simps) (auto simp: d)
    qed
  qed
qed

text \<open>A segment \<open>proc_pkg\<close> treats as data, and what \<open>recv\<close> does after the packet loop.\<close>

definition data_segment :: "byte list \<Rightarrow> bool" where
  "data_segment b \<longleftrightarrow> b \<noteq> [] \<and> \<not> (length b = 23 \<and> b ! 0 = 0x3C \<and> b ! 1 = 0x70)"

definition after_loop :: "decode_status \<times> ('c, 'd) server \<Rightarrow> int \<times> ('c, 'd) server" where
  "after_loop x = (let (st, s) = x in
     if st \<in> {DECODE_WAIT_HEAD, DECODE_WAIT_CONTENT}
     then (0, s\<lparr>cu := (cu s)\<lparr>decodeStatus := st, stage := CONN_DATA_RECVING\<rparr>\<rparr>)
     else (- 1, s\<lparr>cu := (cu s)\<lparr>decodeStatus := st, stage := CONN_FATAL_ERROR, new_in := False\<rparr>\<rparr>))"

lemma pkg_loop_status:
  "pkg_loop env s = Some (st, t) \<Longrightarrow>
     st \<in> {DECODE_WAIT_HEAD, DECODE_WAIT_CONTENT, DECODE_FATAL_ERROR}"
proof (induction env s rule: pkg_loop.induct)
  case (1 env s)
  from "1.prems" show ?case
    by (subst (asm) pkg_loop.simps)
      (auto split: if_splits option.splits prod.splits dest!: "1.IH" [OF _ _ _ _ refl])
qed

lemma recv_data:
  assumes "data_segment b"
  shows "recv env (Received b) s = map_option after_loop (pkg_loop env (ext b s))"
proof (cases "pkg_loop env (ext b s)")
  case None
  then show ?thesis using assms by (auto simp: recv_def proc_pkg_def data_segment_def ext_def)
next
  case (Some x)
  obtain st t where x: "x = (st, t)" by (cases x)
  with Some pkg_loop_status [of env "ext b s" st t]
  have "st \<in> {DECODE_WAIT_HEAD, DECODE_WAIT_CONTENT, DECODE_FATAL_ERROR}" by simp
  then show ?thesis using assms Some x
    by (auto simp: recv_def proc_pkg_def data_segment_def ext_def after_loop_def set_status_def
        set_stage_def DisableInput_def Let_def)
qed

lemma after_loop_unstage: "map_option after_loop x = map_option after_loop (map_option (apsnd unstage) x)"
  by (cases x) (auto simp: after_loop_def unstage_def Let_def split: prod.splits)

text \<open>
  C3: Segmentation does not matter: if a first segment is received without an error, receiving the two
  segments one after the other is the same, state and result, as receiving their concatenation.
\<close>

theorem segmentation_irrelevant:
  assumes seg: "data_segment b1" "data_segment b2" "data_segment (b1 @ b2)"
    and first: "recv env (Received b1) s = Some (0, s1)"
  shows "recv env (Received (b1 @ b2)) s = recv env (Received b2) s1"
proof -
  obtain st t where loop: "pkg_loop env (ext b1 s) = Some (st, t)" "after_loop (st, t) = (0, s1)"
    using first unfolding recv_data [OF seg(1)] by (cases "pkg_loop env (ext b1 s)") auto
  have st: "st \<noteq> DECODE_FATAL_ERROR" "unstage (ext b2 s1) = unstage (ext b2 t)"
    using loop(2) by (auto simp: after_loop_def unstage_def ext_def split: if_splits)
  have "pkg_loop env (ext (b1 @ b2) s) = pkg_loop env (ext b2 t)"
    using pkg_loop_ext [OF loop(1) st(1), of b2] by simp
  then show ?thesis
    using pkg_loop_unstage [OF st(2), of env] unfolding recv_data [OF seg(2)] recv_data [OF seg(3)]
    by (subst (1 2) after_loop_unstage) simp
qed

section \<open>An invariant of every live connection\<close>

text \<open>
  The events of a connection: the poller reports input or output it was asked for and the
  connection survives the handler, or another connection changes the helper pool and the Redis
  servers. (\<open>HangupNotify\<close> and \<open>TimerNotify\<close> always end the connection.)
\<close>

inductive conn_step :: "('c, 'd, 'v) env \<Rightarrow> ('c, 'd) server \<Rightarrow> ('c, 'd) server \<Rightarrow> bool"
  for env :: "('c, 'd, 'v) env" where
  on_input: "old_in (cu s) \<Longrightarrow> InputNotify env res s = Some (ps, True, s') \<Longrightarrow> conn_step env s s'"
| on_output: "old_out (cu s) \<Longrightarrow> OutputNotify env s = (ps, True, s') \<Longrightarrow> conn_step env s s'"
| by_others: "conn_step env s (s\<lparr>pool := hp, db := d\<rparr>)"

inductive_cases conn_stepE: "conn_step env s s'"

definition live_stages :: "conn_state set" where
  "live_stages = {CONN_IDLE, CONN_DATA_RECVING, CONN_SEND_DONE, CONN_DATA_SENDING}"

definition io_ok :: "client_unit \<Rightarrow> bool" where
  "io_ok u \<longleftrightarrow> new_in u \<and> old_in u \<and> (old_out u \<longleftrightarrow> wbuf u \<noteq> []) \<and> (new_out u \<longleftrightarrow> wbuf u \<noteq> [])"

definition conn_ok :: "('c, 'd) server \<Rightarrow> bool" where
  "conn_ok s \<longleftrightarrow> io_ok (cu s) \<and> stage (cu s) \<in> live_stages \<and> HandleInput (rbuf (cu s)) = 0 \<and>
     decodeStatus (cu s) = (if rbuf (cu s) = [] then DECODE_WAIT_HEAD else DECODE_WAIT_CONTENT)"

lemma send_live:
  assumes "0 \<le> fst (send env s)" "new_in (cu s)"
  shows "io_ok (cu (snd (send env s)))" "stage (cu (snd (send env s))) \<in> {CONN_SEND_DONE, CONN_DATA_SENDING}"
    "decodeStatus (cu (snd (send env s))) = decodeStatus (cu s)"
proof -
  have ne: "wbuf (cu s) \<noteq> []" using assms send_empty [of s env] by auto
  let ?x = "send_step (e_send env (sends s)) (cu s)"
  have "0 \<le> fst ?x" using assms send_nonempty [OF ne, of env] by simp
  then obtain n k where "snd ?x = (cu s)\<lparr>wbuf := drop n (wbuf (cu s)), new_out := drop n (wbuf (cu s)) \<noteq> [],
      old_in := new_in (cu s), old_out := drop n (wbuf (cu s)) \<noteq> [],
      stage := if drop n (wbuf (cu s)) = [] then CONN_SEND_DONE else CONN_DATA_SENDING,
      send_error_times := k\<rparr>"
    by (rule send_step_ok) blast
  then show "io_ok (cu (snd (send env s)))" "decodeStatus (cu (snd (send env s))) = decodeStatus (cu s)"
    "stage (cu (snd (send env s))) \<in> {CONN_SEND_DONE, CONN_DATA_SENDING}"
    using assms(2) by (simp_all add: send_nonempty [OF ne] io_ok_def)
qed

lemma HandleInputBuf_io:
  assumes n: "0 \<le> n" "n \<le> int (length d)" and ok: "HandleInputBuf env d n s = Some (r, t)" "0 \<le> r"
    and io: "io_ok (cu s)"
  shows "io_ok (cu t)"
proof (rule HandleInputBuf_cases [OF n, of env s])
  assume "\<And>b c. HandleInputBuf env (d @ b) n (s\<lparr>cu := c\<rparr>) = None"
  from this [of "[]" "cu s"] ok(1) show ?thesis by simp
next
  assume "\<And>b c. HandleInputBuf env (d @ b) n (s\<lparr>cu := c\<rparr>) = Some (- 1, s\<lparr>cu := c\<rparr>)"
  from this [of "[]" "cu s"] ok show ?thesis by simp
next
  fix u reply
  assume "\<And>b c. HandleInputBuf env (d @ b) n (s\<lparr>cu := c\<rparr>) =
    Some (send env (u\<lparr>cu := add_rsp_buf reply c\<rparr>))"
  from this [of "[]" "cu s"] ok(1) have "send env (u\<lparr>cu := add_rsp_buf reply (cu s)\<rparr>) = (r, t)" by simp
  with send_live(1) [of env "u\<lparr>cu := add_rsp_buf reply (cu s)\<rparr>"] ok(2) io show ?thesis
    by (simp add: add_rsp_buf_def io_ok_def)
qed

lemma pkg_loop_live:
  "pkg_loop env s = Some (st, t) \<Longrightarrow> st \<noteq> DECODE_FATAL_ERROR \<Longrightarrow> io_ok (cu s) \<Longrightarrow>
     io_ok (cu t) \<and> HandleInput (rbuf (cu t)) = 0 \<and>
     st = (if rbuf (cu t) = [] then DECODE_WAIT_HEAD else DECODE_WAIT_CONTENT)"
proof (induction env s rule: pkg_loop.induct)
  case (1 env s)
  let ?d = "rbuf (cu s)" and ?n = "HandleInput (rbuf (cu s))"
  show ?case
  proof (cases "?d = [] \<or> ?n \<le> 0")
    case True
    then show ?thesis using "1.prems"
      by (subst (asm) pkg_loop.simps) (auto simp: HandleInput_def split: if_splits)
  next
    case False
    then have ne: "?d \<noteq> []" and pos: "0 < ?n" by simp_all
    obtain ret s1 where h: "HandleInputBuf env ?d ?n s = Some (ret, s1)" "0 \<le> ret"
      "pkg_loop env (skip_r ?n s1) = Some (st, t)"
      using "1.prems"(1,2) ne pos
      by (subst (asm) pkg_loop.simps) (auto split: if_splits option.splits prod.splits)
    have n: "0 \<le> ?n" "?n \<le> int (length ?d)" using pos HandleInput_pos(3) [OF pos] by simp_all
    have "io_ok (cu (skip_r ?n s1))"
      using HandleInputBuf_io [OF n h(1,2) "1.prems"(3)] by (simp add: io_ok_def skip_r_def)
    then show ?thesis using "1.IH" [OF ne _ _ h(1) refl _ h(3) "1.prems"(2)] pos h(2) by simp
  qed
qed

lemma InputNotify_live:
  assumes ok: "conn_ok s" and step: "InputNotify env res s = Some (ps, True, s')"
  shows "conn_ok s'"
proof -
  obtain r s1 where recv: "recv env res s = Some (r, s1)" "web_input env s1 = (ps, True, s')"
    using step by (auto simp: InputNotify_def bind_eq_Some_conv)
  then have s': "s' = s1" "stage (cu s1) \<in> {CONN_DATA_RECVING, CONN_IDLE, CONN_RECV_DONE}"
    by (auto simp: web_input_def split: conn_state.splits)
  show ?thesis
  proof (cases res)
    case (Received b)
    show ?thesis
    proof (cases "data_segment b")
      case False
      then show ?thesis using recv(1) s' Received
        by (auto simp: recv_def proc_pkg_def data_segment_def set_status_def set_stage_def Let_def
            split: if_splits prod.splits)
    next
      case True
      then obtain st t where t: "pkg_loop env (ext b s) = Some (st, t)" "after_loop (st, t) = (r, s1)"
        using recv(1) unfolding Received recv_data [OF True] by (cases "pkg_loop env (ext b s)") auto
      then have st: "st \<noteq> DECODE_FATAL_ERROR" using s'(2) by (auto simp: after_loop_def)
      have "io_ok (cu (ext b s))" using ok by (simp add: conn_ok_def io_ok_def ext_def)
      then have "io_ok (cu t) \<and> HandleInput (rbuf (cu t)) = 0 \<and>
          st = (if rbuf (cu t) = [] then DECODE_WAIT_HEAD else DECODE_WAIT_CONTENT)"
        by (rule pkg_loop_live [OF t(1) st])
      then show ?thesis using t(2) s'(1)
        by (auto simp: after_loop_def conn_ok_def io_ok_def live_stages_def split: if_splits)
    qed
  next
    case RecvRetry
    have "decodeStatus (cu s) = DECODE_WAIT_HEAD \<or> decodeStatus (cu s) = DECODE_WAIT_CONTENT"
      using ok by (simp add: conn_ok_def)
    then have "s1 = set_stage CONN_DATA_RECVING s"
      using recv(1) by (auto simp: RecvRetry recv_def proc_pkg_def)
    then show ?thesis using ok s'(1) by (simp add: set_stage_def conn_ok_def io_ok_def live_stages_def)
  next
    case RecvFail
    then have "stage (cu s1) = CONN_FATAL_ERROR"
      using recv(1) by (auto simp: recv_def proc_pkg_def set_status_def set_stage_def)
    then show ?thesis using s'(2) by simp
  qed
qed

lemma OutputNotify_live:
  assumes ok: "conn_ok s" and step: "OutputNotify env s = (ps, True, s')"
  shows "conn_ok s'"
proof -
  have good: "conn_ok (snd (send env t))" if "conn_ok t" "0 \<le> fst (send env t)" for t
    using that send_live [OF that(2)] send_rbuf [OF that(2)]
    by (auto simp: conn_ok_def live_stages_def io_ok_def)
  obtain r1 s1 where s1: "send env s = (r1, s1)" "web_output env s1 = (ps, True, s')"
    using step by (cases "send env s") (auto simp: OutputNotify_def)
  have r1: "0 \<le> r1"
  proof (rule ccontr)
    assume "\<not> 0 \<le> r1"
    then have "stage (cu s1) = CONN_FATAL_ERROR"
      using s1(1) by (auto simp: send_def send_step_def send_failed_def ApplyEvents_def Let_def
          CONN_DATA_SENDING_int_def split: if_splits send_result.splits)
    then show False using s1(2) by (simp add: web_output_def)
  qed
  have ok1: "conn_ok s1" using good [OF ok] s1(1) r1 by simp
  show ?thesis
  proof (cases "s' = s1")
    case False
    then have "0 \<le> fst (send env s1) \<and> s' = snd (send env s1)"
      using s1(2) by (auto simp: web_output_def Let_def split: if_splits prod.splits)
    then show ?thesis using good [OF ok1] by simp
  qed (simp add: ok1)
qed

lemma attached_ok: "conn_ok (s\<lparr>cu := snd (Attach True (new_client_unit fd))\<rparr>)"
  by (simp add: Attach_def new_client_unit_def EnableInput_def ApplyEvents_def Let_def conn_ok_def io_ok_def
      live_stages_def HandleInput_def)

text \<open>
  C4: Every connection that lives, at any time after \<open>Attach\<close>: it is registered for input, and for
  output exactly when reply bytes wait; the receive buffer holds no complete packet and less than
  8000 bytes; the stage and the decode status are the ones the code can act on.
\<close>

theorem live_connection_invariant:
  assumes "(conn_step env)\<^sup>*\<^sup>* (s0\<lparr>cu := snd (Attach True (new_client_unit fd))\<rparr>) s"
  shows "old_in (cu s) \<and> (old_out (cu s) \<longleftrightarrow> wbuf (cu s) \<noteq> []) \<and> HandleInput (rbuf (cu s)) = 0 \<and>
    length (rbuf (cu s)) < 8000 \<and>
    stage (cu s) \<in> {CONN_IDLE, CONN_DATA_RECVING, CONN_SEND_DONE, CONN_DATA_SENDING} \<and>
    decodeStatus (cu s) = (if rbuf (cu s) = [] then DECODE_WAIT_HEAD else DECODE_WAIT_CONTENT)"
proof -
  from assms have "conn_ok s"
  proof (induction rule: rtranclp_induct)
    case base
    show ?case by (rule attached_ok)
  next
    case (step t s)
    from step.hyps(2) show ?case
    proof (cases rule: conn_step.cases)
      case (on_input res ps)
      from InputNotify_live [OF step.IH on_input(2)] show ?thesis .
    next
      case (on_output ps)
      from OutputNotify_live [OF step.IH on_output(2)] show ?thesis .
    next
      case (by_others hp d)
      then show ?thesis using step.IH by (simp add: conn_ok_def)
    qed
  qed
  moreover have "length d < 8000" if "HandleInput d = 0" for d
  proof -
    have "2 + uint w \<noteq> 0" for w :: u16 using uint_ge_0 [of w] by linarith
    then show ?thesis using that by (auto simp: HandleInput_def Let_def split: if_splits)
  qed
  ultimately show ?thesis by (simp add: conn_ok_def io_ok_def live_stages_def)
qed

section \<open>One data request\<close>

lemma data_flow_frame:
  assumes "data_flow env data s = Some (r, s')"
  obtains d where "s' = s\<lparr>db := d\<rparr>"
proof
  show "s' = s\<lparr>db := db s'\<rparr>"
    using assms by (auto simp: data_flow_def split: option.splits bind_splits)
qed

lemma request_received:
  assumes env: "env_ok env" and json: "0 \<notin> set json" "length json \<le> 7975"
    and idle: "rbuf (cu s) = []" "wbuf (cu s) = []"
    and flow: "data_flow env json (cmd_login_handler (sint cid) s) = Some (r, s2)"
    and sent: "e_send env (sends s) = Sent n" "n \<le> 17"
  obtains s' where
    "InputNotify env (Received (frame CLIENT_CMD_DATA_REQ (request_body cid eid json))) s =
       Some (POLLER_SUCC, True, s')"
    "wire s' = wire s @ take n (frame SERVER_CMD_DATA_REP (reply_body eid))"
    "wbuf (cu s') = drop n (frame SERVER_CMD_DATA_REP (reply_body eid))"
    "rbuf (cu s') = []" "db s' = db s2" "pool s' = pool (cmd_login_handler (sint cid) s)" "du s' = du s"
    "sends s' = sends s + 1"
proof -
  note result = that
  let ?f = "frame CLIENT_CMD_DATA_REQ (request_body cid eid json)"
  let ?reply = "frame SERVER_CMD_DATA_REP (reply_body eid)"
  let ?s = "ext ?f s"
  have lf: "length ?f = 25 + length json" by simp
  have lr: "length ?reply = 17" by simp
  have fne: "?f \<noteq> []" using lf by (metis list.size(3) add_eq_0_iff_both_eq_0 zero_neq_numeral)
  obtain d where d: "s2 = (cmd_login_handler (sint cid) s)\<lparr>db := d\<rparr>" by (rule data_flow_frame [OF flow])
  have flow': "data_flow env json (cmd_login_handler (sint cid) ?s) = Some (r, s2\<lparr>cu := cu ?s\<rparr>)"
    using login_flow_with_cu [where s = s and c = "cu ?s" and cid = "sint cid" and data = json and env = env] flow by (simp add: ext_def)
  have r: "rbuf (cu ?s) = ?f" using idle by simp
  have H: "HandleInput ?f = int (25 + length json)"
    using HandleInput_frame [of "request_body cid eid json" CLIENT_CMD_DATA_REQ "[]"] json by simp
  define t where "t = (s2\<lparr>cu := cu ?s\<rparr>)\<lparr>cu := add_rsp_buf ?reply (cu ?s)\<rparr>"
  have B: "HandleInputBuf env ?f (int (25 + length json)) ?s = Some (send env t)"
    using request_handled [OF env json flow', of eid "[]"] by (simp add: t_def)
  have w: "wbuf (cu t) = ?reply" "sends t = sends s" "wire t = wire s"
    by (simp_all add: t_def add_rsp_buf_def ext_def idle d cmd_login_handler_def)
  have rne: "?reply \<noteq> []" using lr by (metis list.size(3) zero_neq_numeral)
  then have ne: "wbuf (cu t) \<noteq> []" by (simp add: w(1))
  define s3 where "s3 = snd (send env t)"
  have sd: "send env t = (int n, s3)" "wbuf (cu s3) = drop n ?reply" "wire s3 = wire s @ take n ?reply"
    "rbuf (cu s3) = ?f" "db s3 = db s2" "pool s3 = pool (cmd_login_handler (sint cid) s)" "du s3 = du s"
    "sends s3 = sends s + 1"
    using send_nonempty [OF ne, of env] sent lr unfolding s3_def w
    by (auto simp: send_step_def w rne r t_def d add_rsp_buf_def ApplyEvents_def DisableOutput_def
        EnableOutput_def cmd_login_handler_def ext_def idle)
  have empty: "rbuf (cu (skip_r (int (25 + length json)) s3)) = []"
    by (simp add: skip_r_def sd(4))
  have loop: "pkg_loop env ?s = Some (DECODE_WAIT_HEAD, skip_r (int (25 + length json)) s3)"
    using fne by (subst pkg_loop.simps)
      (simp add: idle H B sd(1) pkg_loop.simps [of env "skip_r _ s3"] empty del: of_nat_add)
  have seg: "data_segment ?f" using lf by (simp add: data_segment_def fne)
  show thesis
    by (rule result [of "snd (after_loop (DECODE_WAIT_HEAD, skip_r (int (25 + length json)) s3))"])
      (simp_all add: InputNotify_def recv_data [OF seg] loop after_loop_def web_input_def
        sd skip_r_def)
qed

lemma request_stored:
  assumes env: "env_ok env" and json: "0 \<notin> set json" "length json \<le> 7975"
    and idle: "rbuf (cu s) = []" "wbuf (cu s) = []"
    and parsed: "j_parse (e_json env) json = Some v" "j_uint64 (e_json env) v ''id'' = Some oid"
      "j_int64 (e_json env) v ''mtime'' = Some mtime" "j_string (e_json env) v ''sql'' = Some sql"
    and shard: "redis_id oid (length (m_redis_map (pool s))) = Some sid"
      "map_of (m_redis_map (pool s)) sid = Some redis" "r_context redis = Some ctx"
      "keeps_lists (e_redis env) ctx queues"
    and sent: "e_send env (sends s) = Sent n" "n \<le> 17"
  obtains s' where
    "InputNotify env (Received (frame CLIENT_CMD_DATA_REQ (request_body cid eid json))) s =
       Some (POLLER_SUCC, True, s')"
    "queues (db s') = (queues (db s))
       (bytes_of ''ORDER_Q'' := queues (db s) (bytes_of ''ORDER_Q'') @ [json])"
    "wire s' = wire s @ take n (frame SERVER_CMD_DATA_REP (reply_body eid))"
    "wbuf (cu s') = drop n (frame SERVER_CMD_DATA_REP (reply_body eid))" "rbuf (cu s') = []"
    "m_objmap (pool s') (sint cid) = Some (du_id (du s))"
    "m_redis_map (pool s') = m_redis_map (pool s)" "sends s' = sends s + 1"
proof -
  note result = that
  have q: "c_str (bytes_of ''ORDER_Q'') = bytes_of ''ORDER_Q''" by code_simp
  obtain d where d: "redis_Enqueue (e_redis env) (bytes_of ''ORDER_Q'') json redis (db s) =
      Some (int (length (queues (db s) (c_str (bytes_of ''ORDER_Q''))) + 1), d)"
    "queues d = (queues (db s))(c_str (bytes_of ''ORDER_Q'') :=
       queues (db s) (c_str (bytes_of ''ORDER_Q'')) @ [c_str json])"
    by (rule Enqueue_ok [OF shard(4,3)])
  have flow: "data_flow env json (cmd_login_handler (sint cid) s) =
      Some (0, (cmd_login_handler (sint cid) s)\<lparr>db := d\<rparr>)"
    using parsed shard(1,2) d(1) by (simp add: data_flow_def cmd_login_handler_def)
  obtain s' where "InputNotify env (Received (frame CLIENT_CMD_DATA_REQ (request_body cid eid json))) s =
      Some (POLLER_SUCC, True, s')"
    "wire s' = wire s @ take n (frame SERVER_CMD_DATA_REP (reply_body eid))"
    "wbuf (cu s') = drop n (frame SERVER_CMD_DATA_REP (reply_body eid))" "rbuf (cu s') = []"
    "db s' = db ((cmd_login_handler (sint cid) s)\<lparr>db := d\<rparr>)"
    "pool s' = pool (cmd_login_handler (sint cid) s)" "du s' = du s" "sends s' = sends s + 1"
    by (rule request_received [OF env json idle flow sent])
  then show thesis using d(2) json(1)
    by (intro result [of s']) (simp_all add: q cmd_login_handler_def)
qed

text \<open>
  C2: One data request, from the socket to Redis and back: a well-formed request that arrives at an idle
  connection is appended, byte for byte, to the list \<open>ORDER_Q\<close> of the Redis server its id selects, and
  the reply carrying the client's event number is sent or queued; the connection stays alive and is
  registered under the client's number.
\<close>

theorem data_request_stored:
  assumes env: "env_ok env" and json: "0 \<notin> set json" "length json \<le> 7975"
    and idle: "rbuf (cu s) = []" "wbuf (cu s) = []"
    and parsed: "j_parse (e_json env) json = Some v" "j_uint64 (e_json env) v ''id'' = Some oid"
      "j_int64 (e_json env) v ''mtime'' = Some mtime" "j_string (e_json env) v ''sql'' = Some sql"
    and shard: "redis_id oid (length (m_redis_map (pool s))) = Some sid"
      "map_of (m_redis_map (pool s)) sid = Some redis" "r_context redis = Some ctx"
      "keeps_lists (e_redis env) ctx queues"
    and sent: "e_send env (sends s) = Sent n" "n \<le> 17"
  shows "\<exists>s'. InputNotify env (Received (frame CLIENT_CMD_DATA_REQ (request_body cid eid json))) s =
        Some (POLLER_SUCC, True, s') \<and>
      queues (db s') = (queues (db s))
        (bytes_of ''ORDER_Q'' := queues (db s) (bytes_of ''ORDER_Q'') @ [json]) \<and>
      wire s' @ wbuf (cu s') = wire s @ frame SERVER_CMD_DATA_REP (reply_body eid) \<and>
      m_objmap (pool s') (sint cid) = Some (du_id (du s)) \<and> rbuf (cu s') = []"
proof -
  obtain s' where
    "InputNotify env (Received (frame CLIENT_CMD_DATA_REQ (request_body cid eid json))) s =
       Some (POLLER_SUCC, True, s')"
    "queues (db s') = (queues (db s))
       (bytes_of ''ORDER_Q'' := queues (db s) (bytes_of ''ORDER_Q'') @ [json])"
    "wire s' = wire s @ take n (frame SERVER_CMD_DATA_REP (reply_body eid))"
    "wbuf (cu s') = drop n (frame SERVER_CMD_DATA_REP (reply_body eid))" "rbuf (cu s') = []"
    "m_objmap (pool s') (sint cid) = Some (du_id (du s))"
    "m_redis_map (pool s') = m_redis_map (pool s)" "sends s' = sends s + 1"
    by (rule request_stored [where queues = queues and s = s and cid = cid and eid = eid,
          OF env json idle parsed shard sent])
  then show ?thesis by (intro exI [of _ s']) simp
qed

text \<open>
  C38: The reply does not say that the order is stored: a request whose text is not JSON is answered
  with the same frame, and nothing is written to Redis.
\<close>

theorem unparsable_request_acknowledged:
  assumes env: "env_ok env" and json: "0 \<notin> set json" "length json \<le> 7975"
    and idle: "rbuf (cu s) = []" "wbuf (cu s) = []"
    and bad: "j_parse (e_json env) json = None"
    and sent: "e_send env (sends s) = Sent n" "n \<le> 17"
  shows "\<exists>s'. InputNotify env (Received (frame CLIENT_CMD_DATA_REQ (request_body cid eid json))) s =
        Some (POLLER_SUCC, True, s') \<and> db s' = db s \<and>
      wire s' @ wbuf (cu s') = wire s @ frame SERVER_CMD_DATA_REP (reply_body eid)"
proof -
  have flow: "data_flow env json (cmd_login_handler (sint cid) s) = Some (- 1, cmd_login_handler (sint cid) s)"
    using bad by (simp add: data_flow_def)
  obtain s' where "InputNotify env (Received (frame CLIENT_CMD_DATA_REQ (request_body cid eid json))) s =
      Some (POLLER_SUCC, True, s')"
    "wire s' = wire s @ take n (frame SERVER_CMD_DATA_REP (reply_body eid))"
    "wbuf (cu s') = drop n (frame SERVER_CMD_DATA_REP (reply_body eid))" "rbuf (cu s') = []"
    "db s' = db (cmd_login_handler (sint cid) s)"
    "pool s' = pool (cmd_login_handler (sint cid) s)" "du s' = du s" "sends s' = sends s + 1"
    by (rule request_received [OF env json idle flow sent])
  then show ?thesis by (intro exI [of _ s']) (simp add: cmd_login_handler_def)
qed

text \<open>
  Closing a connection does not unregister it: after a data request and a hangup the connection is
  gone, but \<open>m_objmap\<close> still maps the client's number to it, since \<open>_flag\<close> is never set.
\<close>

theorem closed_connection_stays_registered:
  assumes env: "env_ok env" and json: "0 \<notin> set json" "length json \<le> 7975"
    and idle: "rbuf (cu s) = []" "wbuf (cu s) = []"
    and fresh: "du_flag (du s) = 0" "du_conn_type (du s) = CONN_OTHER"
    and flow: "data_flow env json (cmd_login_handler (sint cid) s) = Some (r, s2)"
    and sent: "e_send env (sends s) = Sent n" "n \<le> 17"
  shows "\<exists>s' s''. InputNotify env (Received (frame CLIENT_CMD_DATA_REQ (request_body cid eid json))) s =
        Some (POLLER_SUCC, True, s') \<and> HangupNotify env s' = (POLLER_COMPLETE, False, s'') \<and>
      m_objmap (pool s'') (sint cid) = Some (du_id (du s))"
proof -
  obtain s' where "InputNotify env (Received (frame CLIENT_CMD_DATA_REQ (request_body cid eid json))) s =
      Some (POLLER_SUCC, True, s')"
    "wire s' = wire s @ take n (frame SERVER_CMD_DATA_REP (reply_body eid))"
    "wbuf (cu s') = drop n (frame SERVER_CMD_DATA_REP (reply_body eid))" "rbuf (cu s') = []"
    "db s' = db s2" "pool s' = pool (cmd_login_handler (sint cid) s)" "du s' = du s" "sends s' = sends s + 1"
    by (rule request_received [OF env json idle flow sent])
  then show ?thesis using fresh
    by (simp add: HangupNotify_def web_hangup_def complete_def decoder_destroy_def cmd_login_handler_def)
qed

text \<open>
  C37: One packet ends the server: a packet with a length field below 7 passes the checks of
  \<open>HandleInput\<close>, and \<open>DecryptBuffer\<close> then runs out of the packet buffer.
\<close>

theorem short_packet_ends_server:
  assumes env: "env_ok env" and seg: "data_segment d" and idle: "rbuf (cu s) = []"
    and d: "9 \<le> length d" "d ! 2 = 0x42" "d ! 3 = 0x59" "unat (htons (word_le (take 2 d) :: u16)) < 7"
  shows "InputNotify env (Received d) s = None"
proof -
  define l where "l = unat (htons (word_le (take 2 d) :: u16))"
  have l: "l < 7" using d(4) by (simp add: l_def)
  have "HandleInput d = (let pkglen = 2 + int l in if pkglen < 0 \<or> pkglen > 8 * 1000 then - 1
      else if int (length d) < pkglen then 0 else pkglen)"
    using d(1,2,3) by (simp add: HandleInput_def l_def)
  then have H: "HandleInput d = int (l + 2)" using d(1) l by (simp add: Let_def)
  have dl: "length d = (l + 2) + (length d - (l + 2))" using d(1) l by simp
  have split: "d = take (l + 2) d @ drop (l + 2) d" by simp
  define p where "p = (e_in env)\<lparr>m_strBuf := take (l + 2) d @ replicate (8192 - (l + 2)) 0,
     m_nPacketSize := int (l + 2), m_nBufPos := 9\<rparr>"
  have mn: "min (length d) (Suc (Suc l)) = Suc (Suc l)" using d(1) l by simp
  have len: "length (take (l + 2) d) = l + 2" using mn by simp
  have "Copy (take (l + 2) d @ drop (l + 2) d) (int (length (take (l + 2) d))) (e_in env) = Some (True, p)"
    using env l mn unfolding p_def by (subst Copy_ok) (simp_all add: env_ok_def)
  then have copy: "Copy d (int (l + 2)) (e_in env) = Some (True, p)" by (simp add: mn)
  have "GetBodyLength p = Some (htons (word_le (take 2 d)))"
    using d(1) l by (simp add: GetBodyLength_def base_readHeader_def p_def read_at_def
        PACKET_HEADER_SIZE_def min_def numeral_2_eq_2 take_Suc_Cons)
  moreover have "length (m_strBuf p) \<le> 32768" using l d(1) by (simp add: p_def)
  ultimately have "DecryptBuffer p = None"
    using d(4) DecryptBuffer_short by blast
  then have "pkg_loop env (ext d s) = None"
    using d(1) copy by (subst pkg_loop.simps) (auto simp: idle H HandleInputBuf_def)
  then show ?thesis by (simp add: InputNotify_def recv_data [OF seg])
qed

text \<open>
  The shard of an order: with \<open>sz > 0\<close> servers, \<open>__REDIS_ID\<close> selects one of \<open>1 .. sz\<close>, equal for
  equal ids and congruent to the id, and every server is selected; with none, the division traps.
\<close>

theorem redis_id_shard:
  "redis_id oid 0 = None \<and>
   (0 < sz \<longrightarrow> (\<exists>sid. redis_id oid sz = Some sid \<and> 1 \<le> sid \<and> sid \<le> int sz \<and>
      sid mod int sz = int (unat oid) mod int sz)) \<and>
   (\<forall>k. 1 \<le> k \<and> k \<le> sz \<and> sz < 2 ^ 64 \<longrightarrow> redis_id (of_nat k) sz = Some (int k))"
proof (intro conjI allI impI)
  show "redis_id oid 0 = None" by (simp add: redis_id_def)
  assume sz: "0 < sz"
  define m where "m = unat oid mod sz"
  have m: "m < sz" "int m = int (unat oid) mod int sz" using sz by (simp_all add: m_def zmod_int)
  have "redis_id oid sz = Some (if m = 0 then int sz else int m)"
    using sz by (simp add: redis_id_def Let_def m_def)
  moreover have "(if m = 0 then int sz else int m) mod int sz = int (unat oid) mod int sz"
    using m by (simp flip: m(2))
  ultimately show "\<exists>sid. redis_id oid sz = Some sid \<and> 1 \<le> sid \<and> sid \<le> int sz \<and>
      sid mod int sz = int (unat oid) mod int sz"
    using m(1) by auto
next
  fix k assume k: "1 \<le> k \<and> k \<le> sz \<and> sz < 2 ^ 64"
  then have "unat (of_nat k :: u64) = k" by (simp add: unat_of_nat take_bit_nat_eq_self)
  then show "redis_id (of_nat k) sz = Some (int k)"
    using k by (cases "k = sz") (auto simp: redis_id_def Let_def)
qed

section \<open>An example\<close>

text \<open>A connection to a server with one Redis server, and a JSON library that reads every text as the
  order 7. The witnesses apply the properties to it.\<close>

definition ex_json :: "byte list \<Rightarrow> unit json" where
  "ex_json bad = \<lparr>j_parse = (\<lambda>b. if b = bad then None else Some ()), j_uint64 = (\<lambda>v f. Some 7),
     j_int64 = (\<lambda>v f. Some 1), j_int = (\<lambda>v f. Some 1), j_string = (\<lambda>v f. Some [0x78])\<rparr>"

definition ex_env :: "(unit, byte list \<Rightarrow> byte list list, unit) env" where
  "ex_env = \<lparr>e_send = (\<lambda>n. Sent 17), e_redis = list_server, e_json = ex_json [0x21],
     e_in = \<lparr>m_strBuf = replicate 8192 0, m_nPacketSize = 0, m_nBufPos = 0\<rparr>,
     e_out = \<lparr>m_strBuf = replicate 8192 0, m_nPacketSize = 0, m_nBufPos = 0, m_isCheckCode = False\<rparr>,
     e_user_close = (\<lambda>s. s)\<rparr>"

definition ex_server :: "(unit, byte list \<Rightarrow> byte list list) server" where
  "ex_server = \<lparr>cu = new_client_unit 5, du = \<lparr>du_id = 1, du_flag = 0, du_conn_type = CONN_OTHER\<rparr>,
     pool = \<lparr>m_cmdlist = [], m_objmap = (\<lambda>k. None),
       m_redis_map = [(1, \<lparr>r_context = Some (), r_host = [0x61], r_port = 6379, r_timeout = 5\<rparr>)]\<rparr>,
     db = (\<lambda>k. []), wire = [], sends = 0\<rparr>"

lemmas ex_defs = ex_env_def ex_server_def ex_json_def new_client_unit_def

lemma ex_facts: "env_ok ex_env" "rbuf (cu ex_server) = []" "wbuf (cu ex_server) = []"
  "e_send ex_env (sends ex_server) = Sent 17" "du_flag (du ex_server) = 0"
  "du_conn_type (du ex_server) = CONN_OTHER"
  by (simp_all add: ex_defs env_ok_def)

theorem data_request_stored_witness:
  "\<exists>s'. InputNotify ex_env (Received (frame CLIENT_CMD_DATA_REQ (request_body 3 9 [0x7B, 0x7D]))) ex_server =
        Some (POLLER_SUCC, True, s') \<and>
      db s' = (db ex_server)(bytes_of ''ORDER_Q'' := db ex_server (bytes_of ''ORDER_Q'') @ [[0x7B, 0x7D]]) \<and>
      wire s' @ wbuf (cu s') = wire ex_server @ frame SERVER_CMD_DATA_REP (reply_body 9) \<and>
      m_objmap (pool s') (sint (3 :: u32)) = Some (du_id (du ex_server)) \<and> rbuf (cu s') = []"
  by (rule data_request_stored [where n = 17 and v = "()" and oid = 7 and mtime = 1 and sql = "[0x78]"
      and sid = 1 and redis = "\<lparr>r_context = Some (), r_host = [0x61], r_port = 6379, r_timeout = 5\<rparr>"
      and ctx = "()" and queues = "\<lambda>d. d"])
    (simp_all add: ex_facts list_server_keeps_lists redis_id_def, simp_all add: ex_defs list_server_keeps_lists)

theorem unparsable_request_acknowledged_witness:
  "\<exists>s'. InputNotify ex_env (Received (frame CLIENT_CMD_DATA_REQ (request_body 3 9 [0x21]))) ex_server =
        Some (POLLER_SUCC, True, s') \<and> db s' = db ex_server \<and>
      wire s' @ wbuf (cu s') = wire ex_server @ frame SERVER_CMD_DATA_REP (reply_body 9)"
  by (rule unparsable_request_acknowledged [where n = 17]) (simp_all add: ex_facts, simp_all add: ex_defs)

theorem closed_connection_stays_registered_witness:
  "\<exists>s' s''. InputNotify ex_env (Received (frame CLIENT_CMD_DATA_REQ (request_body 3 9 [0x21]))) ex_server =
        Some (POLLER_SUCC, True, s') \<and> HangupNotify ex_env s' = (POLLER_COMPLETE, False, s'') \<and>
      m_objmap (pool s'') (sint (3 :: u32)) = Some (du_id (du ex_server))"
  by (rule closed_connection_stays_registered [where n = 17 and r = "- 1"
      and ?s2.0 = "cmd_login_handler (sint (3 :: u32)) ex_server"])
    (simp_all add: ex_facts, simp_all add: ex_defs data_flow_def)

theorem short_packet_ends_server_witness:
  "InputNotify ex_env (Received [0, 0, 0x42, 0x59, 1, 1, 0, 2, 0]) ex_server = None"
  by (rule short_packet_ends_server) (simp_all add: ex_facts, code_simp+)

theorem redis_id_shard_witness: "\<exists>sid. redis_id 7 3 = Some sid \<and> 1 \<le> sid \<and> sid \<le> int 3 \<and>
      sid mod int 3 = int (unat (7 :: u64)) mod int 3"
  using redis_id_shard [of 7 3] by simp

theorem send_keeps_stream_witness:
  "let s = ex_server\<lparr>cu := add_rsp_buf (replicate 20 1) (cu ex_server)\<rparr>; s' = snd (send ex_env s) in
   wire s' @ wbuf (cu s') = wire s @ wbuf (cu s) \<and> wbuf (cu s) \<noteq> [] \<and>
     (stage (cu s') = CONN_SEND_DONE \<longleftrightarrow> wbuf (cu s') = [])"
  unfolding Let_def by (rule send_keeps_stream [where env = ex_env and r = 17])
    (simp_all add: send_def send_step_def add_rsp_buf_def ex_defs)

theorem segmentation_irrelevant_witness:
  "recv ex_env (Received ([0, 5] @ [0x42])) ex_server =
   recv ex_env (Received [0x42]) (snd (the (recv ex_env (Received [0, 5]) ex_server)))"
  by (rule segmentation_irrelevant)
    (simp_all add: data_segment_def recv_data ext_def pkg_loop.simps HandleInput_def ex_defs after_loop_def)

theorem live_connection_invariant_witness:
  "let s = snd (the (recv ex_env (Received [0, 5]) (ex_server\<lparr>cu := snd (Attach True (new_client_unit 5))\<rparr>))) in
   old_in (cu s) \<and> (old_out (cu s) \<longleftrightarrow> wbuf (cu s) \<noteq> []) \<and> HandleInput (rbuf (cu s)) = 0 \<and>
    length (rbuf (cu s)) < 8000 \<and>
    stage (cu s) \<in> {CONN_IDLE, CONN_DATA_RECVING, CONN_SEND_DONE, CONN_DATA_SENDING} \<and>
    decodeStatus (cu s) = (if rbuf (cu s) = [] then DECODE_WAIT_HEAD else DECODE_WAIT_CONTENT)"
  unfolding Let_def
proof (rule live_connection_invariant [where env = ex_env and ?s0.0 = ex_server and fd = 5],
    rule r_into_rtranclp, rule on_input [where res = "Received [0, 5]" and ps = POLLER_SUCC])
qed (simp_all add: InputNotify_def data_segment_def recv_data ext_def pkg_loop.simps HandleInput_def
    ex_defs after_loop_def Attach_def EnableInput_def ApplyEvents_def web_input_def)

end
