(* ===== verification/MemPool.thy ===== *)
theory MemPool
  imports Prelude
begin

text \<open>
  The block pool behind every connection buffer: \<open>CMemPool\<close> of \<open>include/mempool.h\<close> and
  \<open>proxy/mempool.cpp\<close>. Blocks have power-of-two sizes; per size there is a list of free blocks
  (\<open>_free\<close>) and the set of all blocks of that size (\<open>_stub\<close>).

  The state also holds the part of the C++ heap the pool owns: \<open>heap\<close> maps the address of a live
  block to its cells, where \<open>None\<close> is a cell nobody has written yet, and \<open>next_addr\<close> supplies the
  addresses of \<open>new char[size]\<close>, which does not fail. \<open>None\<close> as a result is a failed \<open>assert\<close>, a
  read from an empty list or a shift by the width of \<open>int\<close>. The arithmetic is that of
  \<open>unsigned int\<close>, 32 bits with wrap-around.
\<close>

section \<open>State\<close>

type_synonym addr = nat
type_synonym cell = "byte option"

record mempool =
  pool_free :: "u32 \<Rightarrow> addr list option"
  pool_stub :: "u32 \<Rightarrow> addr set option"
  allocated_size :: u32
  water_mark :: u32
  heap :: "addr \<Rightarrow> cell list option"
  next_addr :: addr

definition C_MAX_POOL_SIZE :: u32 where "C_MAX_POOL_SIZE = 2097152000"
definition C_MAX_WATER_MARK :: u32 where "C_MAX_WATER_MARK = 1073741824"
definition C_EXTEND_SET :: u32 where "C_EXTEND_SET = 128"
definition C_SLOT_1 :: u32 where "C_SLOT_1 = 1048576"
definition C_SLOT_2 :: u32 where "C_SLOT_2 = 67108864"
definition C_ALLOC_CAPCITY :: u32 where "C_ALLOC_CAPCITY = 134217728"

definition new_pool :: mempool where
  "new_pool = \<lparr>pool_free = Map.empty, pool_stub = Map.empty, allocated_size = 0,
     water_mark = C_MAX_WATER_MARK, heap = Map.empty, next_addr = 0\<rparr>"

section \<open>Block sizes\<close>

text \<open>\<open>for (; size; i++, size = size >> 1);\<close>\<close>

function fit_loop :: "nat \<Rightarrow> u32 \<Rightarrow> nat" where
  "fit_loop i sz = (if sz = 0 then i else fit_loop (i + 1) (drop_bit 1 sz))"
  by auto

termination fit_loop
proof (relation "measure (\<lambda>(i, sz). unat sz)")
  show "((i + 1, drop_bit 1 sz), (i, sz)) \<in> measure (\<lambda>(i, sz). unat sz)"
    if "sz \<noteq> 0" for i and sz :: u32
    using that by (simp add: unat_drop unat_gt_0)
qed simp

declare fit_loop.simps [simp del]

definition fit_block_size :: "u32 \<Rightarrow> u32 option" where
  "fit_block_size sz =
     (let i = fit_loop 10 (drop_bit 10 sz); n = (if i < 10 then 10 else i)
      in if n < 32 then Some (push_bit n 1) else None)"

definition fit_extend_set :: "u32 \<Rightarrow> u32" where
  "fit_extend_set sz =
     (if sz < C_SLOT_1 then C_EXTEND_SET
      else if sz \<ge> C_SLOT_1 \<and> sz < C_SLOT_2 then C_ALLOC_CAPCITY div sz
      else 1)"

text \<open>How many free blocks \<open>release\<close> gives back to the heap.\<close>

definition release_count :: "u32 \<Rightarrow> u32 \<Rightarrow> u32 \<Rightarrow> u32 \<Rightarrow> u32" where
  "release_count water block_size free_count stub_count =
     (if free_count * block_size < C_SLOT_1 then 0
      else if block_size > C_SLOT_2
      then (if free_count > 1 then free_count div 2 else free_count)
      else if free_count \<ge> stub_count div 2 \<or> free_count * block_size \<ge> water
      then free_count div 2
      else 0)"

section \<open>Operations\<close>

text \<open>The loop of \<open>release\<close>: give the first \<open>n\<close> free blocks of a size back to the heap.\<close>

primrec release_loop :: "nat \<Rightarrow> u32 \<Rightarrow> mempool \<Rightarrow> mempool option" where
  "release_loop 0 sz mp = Some mp"
| "release_loop (Suc n) sz mp =
     (case (pool_free mp sz, pool_stub mp sz) of
        (Some (p # l), Some s) \<Rightarrow>
          release_loop n sz (mp\<lparr>pool_free := (pool_free mp)(sz \<mapsto> l),
            pool_stub := (pool_stub mp)(sz \<mapsto> s - {p}), heap := (heap mp)(p := None)\<rparr>)
      | _ \<Rightarrow> None)"

definition release :: "u32 \<Rightarrow> mempool \<Rightarrow> mempool option" where
  "release sz mp =
     (case (pool_free mp sz, pool_stub mp sz) of
        (Some l, Some s) \<Rightarrow>
          (let todo_count = release_count (water_mark mp) sz (of_nat (length l)) (of_nat (card s))
           in if todo_count = 0 then Some mp
              else if allocated_size mp \<ge> sz * todo_count
              then map_option (\<lambda>mp1. mp1\<lparr>allocated_size := allocated_size mp1 - sz * todo_count\<rparr>)
                     (release_loop (unat todo_count) sz mp)
              else None)
      | _ \<Rightarrow> None)"

text \<open>
  The loop of \<open>release_size\<close>, which purges the sizes \<open>2^30, 2^29, \<dots>, 2^19\<close>; the argument \<open>e\<close> is the
  exponent of \<open>purge_size\<close>. \<open>continue\<close> is a round without effect.
\<close>

primrec purge_loop :: "nat \<Rightarrow> u32 \<Rightarrow> u32 \<Rightarrow> mempool \<Rightarrow> mempool option" where
  "purge_loop 0 last_alloc mem_size mp = Some mp"
| "purge_loop (Suc e) last_alloc mem_size mp =
     (if last_alloc - allocated_size mp < mem_size \<and> push_bit (Suc e) 1 \<ge> C_SLOT_1
      then (let purge_size = push_bit e 1
            in if pool_stub mp purge_size = None then purge_loop e last_alloc mem_size mp
               else if pool_free mp purge_size = None then purge_loop e last_alloc mem_size mp
               else Option.bind (release purge_size mp) (purge_loop e last_alloc mem_size))
      else Some mp)"

definition release_size :: "u32 \<Rightarrow> mempool \<Rightarrow> (int \<times> mempool) option" where
  "release_size mem_size mp = do {
     let last_alloc_size = allocated_size mp;
     mp1 \<leftarrow> purge_loop 31 last_alloc_size mem_size (mp\<lparr>water_mark := C_ALLOC_CAPCITY\<rparr>);
     let mp2 = mp1\<lparr>water_mark := C_MAX_WATER_MARK\<rparr>;
     Some (if last_alloc_size - allocated_size mp2 < mem_size then - 1 else 0, mp2) }"

text \<open>The loop of \<open>extend\<close>: \<open>n\<close> new blocks, each pushed to the front of the free list.\<close>

primrec extend_loop :: "nat \<Rightarrow> u32 \<Rightarrow> mempool \<Rightarrow> mempool option" where
  "extend_loop 0 sz mp = Some mp"
| "extend_loop (Suc n) sz mp =
     (case (pool_free mp sz, pool_stub mp sz) of
        (Some l, Some s) \<Rightarrow>
          (let p = next_addr mp
           in extend_loop n sz (mp\<lparr>pool_free := (pool_free mp)(sz \<mapsto> p # l),
                pool_stub := (pool_stub mp)(sz \<mapsto> insert p s),
                heap := (heap mp)(p \<mapsto> replicate (unat sz) None), next_addr := p + 1\<rparr>))
      | _ \<Rightarrow> None)"

definition extend :: "u32 \<Rightarrow> mempool \<Rightarrow> (int \<times> mempool) option" where
  "extend sz mp = do {
     let extend_set = fit_extend_set sz;
     (r, mp1) \<leftarrow> (if allocated_size mp + sz * extend_set \<ge> C_MAX_POOL_SIZE
                 then release_size (allocated_size mp + sz * extend_set - C_MAX_POOL_SIZE) mp
                 else Some (0, mp));
     if r \<noteq> 0 then Some (- 1, mp1)
     else do {
       mp2 \<leftarrow> extend_loop (unat extend_set) sz mp1;
       Some (0, mp2\<lparr>allocated_size := allocated_size mp2 + sz * extend_set\<rparr>) } }"

text \<open>\<open>map::insert\<close> leaves an existing entry alone.\<close>

definition extend_new_size :: "u32 \<Rightarrow> mempool \<Rightarrow> (int \<times> mempool) option" where
  "extend_new_size sz mp =
     extend sz (mp\<lparr>
       pool_free := (if pool_free mp sz = None then (pool_free mp)(sz \<mapsto> []) else pool_free mp),
       pool_stub := (if pool_stub mp sz = None then (pool_stub mp)(sz \<mapsto> {}) else pool_stub mp)\<rparr>)"

text \<open>\<open>Some (None, mp)\<close> is the result \<open>NULL\<close>, otherwise block address and \<open>result_size\<close>.\<close>

definition take_block :: "u32 \<Rightarrow> mempool \<Rightarrow> ((addr \<times> u32) option \<times> mempool) option" where
  "take_block block_size mp =
     (case pool_free mp block_size of
        Some (ret # l) \<Rightarrow>
          Some (Some (ret, block_size), mp\<lparr>pool_free := (pool_free mp)(block_size \<mapsto> l)\<rparr>)
      | _ \<Rightarrow> Some (None, mp))"

definition allocate :: "u32 \<Rightarrow> mempool \<Rightarrow> ((addr \<times> u32) option \<times> mempool) option" where
  "allocate sz mp = do {
     block_size \<leftarrow> fit_block_size sz;
     (r, mp1) \<leftarrow> (if pool_free mp block_size = None then extend_new_size block_size mp
                 else Some (0, mp));
     if r \<noteq> 0 then Some (None, mp1)
     else if pool_free mp1 block_size = Some [] then do {
       (r2, mp2) \<leftarrow> extend block_size mp1;
       if r2 \<noteq> 0 then Some (None, mp2) else take_block block_size mp2 }
     else take_block block_size mp1 }"

definition recycle :: "addr \<Rightarrow> u32 \<Rightarrow> mempool \<Rightarrow> (int \<times> mempool) option" where
  "recycle mem mem_size mp =
     (case pool_stub mp mem_size of
        None \<Rightarrow> Some (- 1, mp)
      | Some s \<Rightarrow>
          if mem \<notin> s then Some (- 1, mp)
          else (case pool_free mp mem_size of
                  None \<Rightarrow> Some (- 1, mp)
                | Some l \<Rightarrow>
                    map_option (\<lambda>mp1. (0, mp1))
                      (release mem_size (mp\<lparr>pool_free := (pool_free mp)(mem_size \<mapsto> mem # l)\<rparr>))))"

section \<open>Block sizes are large enough\<close>

lemma fit_loop_bound: "i \<le> fit_loop i sz \<and> unat sz < 2 ^ (fit_loop i sz - i)"
proof (induction i sz rule: fit_loop.induct)
  case (1 i sz)
  show ?case
  proof (cases "sz = 0")
    case True
    then show ?thesis by (simp add: fit_loop.simps)
  next
    case False
    let ?h = "drop_bit 1 sz"
    have ih: "i + 1 \<le> fit_loop (i + 1) ?h" "unat ?h < 2 ^ (fit_loop (i + 1) ?h - (i + 1))"
      using 1 [OF False] by auto
    have eq: "fit_loop i sz = fit_loop (i + 1) ?h" using False by (subst fit_loop.simps) simp
    have "unat sz div 2 < 2 ^ (fit_loop i sz - i - 1)"
      using ih(2) by (simp add: unat_drop eq)
    then have "unat sz < 2 * 2 ^ (fit_loop i sz - i - 1)" by linarith
    also have "\<dots> = 2 ^ (fit_loop i sz - i)"
      using ih(1) by (subst power_Suc [symmetric]) (simp add: eq Suc_diff_Suc)
    finally show ?thesis using ih(1) eq by simp
  qed
qed

lemma fit_loop_least: "unat sz < 2 ^ k \<Longrightarrow> fit_loop i sz \<le> i + k"
proof (induction k arbitrary: i sz)
  case 0
  then have "sz = 0" by (simp add: unat_eq_0)
  then show ?case by (simp add: fit_loop.simps)
next
  case (Suc k)
  show ?case
  proof (cases "sz = 0")
    case True
    then show ?thesis by (simp add: fit_loop.simps)
  next
    case False
    have "unat (drop_bit 1 sz) < 2 ^ k"
      using Suc.prems by (simp add: unat_drop)
    from Suc.IH [OF this, of "i + 1"] False show ?thesis
      by (subst fit_loop.simps) simp
  qed
qed

lemma unat_shift_1:
  assumes "n < 32"
  shows "unat (push_bit n 1 :: u32) = 2 ^ n"
proof -
  have "(2 :: nat) ^ n < 2 ^ LENGTH(32)" using assms by (intro power_strict_increasing) simp_all
  then have "take_bit LENGTH(32) (push_bit n (1 :: nat)) = 2 ^ n"
    by (simp only: push_bit_eq_mult mult_1 take_bit_nat_eq_self)
  then show ?thesis by (simp only: unsigned_push_bit_eq unsigned_1)
qed

text \<open>
  Below 2 GiB the block is strictly larger than the request (so an empty cache block never is), at
  least 1 KiB and at most twice the request, and a power of two.
\<close>

lemma fit_block_size_ok:
  assumes "unat sz < 2 ^ 31"
  obtains b n where "fit_block_size sz = Some b" "b = push_bit n 1" "10 \<le> n" "n < 32"
    "unat b = 2 ^ n" "unat sz < unat b" "unat b \<le> max 1024 (2 * unat sz)"
proof -
  define h where "h = drop_bit 10 sz"
  define n where "n = fit_loop 10 h"
  have h: "unat h = unat sz div 1024" by (simp add: h_def unat_drop)
  have n: "10 \<le> n" "unat h < 2 ^ (n - 10)" using fit_loop_bound [of 10 h] by (simp_all add: n_def)
  have "unat h < 2 ^ 21" using assms h by simp
  from fit_loop_least [OF this, of 10] have n32: "n < 32" by (simp add: n_def)
  define b :: u32 where "b = push_bit n 1"
  have b: "unat b = 2 ^ n" unfolding b_def by (rule unat_shift_1 [OF n32])
  have fit: "fit_block_size sz = Some b"
    using n n32 by (simp add: fit_block_size_def Let_def h_def [symmetric] n_def [symmetric] b_def)
  have p: "(2 :: nat) ^ n = 1024 * 2 ^ (n - 10)"
    using n(1) power_add [of "2 :: nat" 10 "n - 10"] by simp
  have lt: "unat sz < unat b" using n(2) by (simp add: b h p)
  have "unat b \<le> max 1024 (2 * unat sz)"
  proof (cases "n = 10")
    case False
    then have "\<not> unat h < 2 ^ (n - 11)"
      using fit_loop_least [of h "n - 11" 10] n(1) n_def by linarith
    moreover have "(2 :: nat) ^ (n - 10) = 2 * 2 ^ (n - 11)"
      using False n(1) power_Suc [of "2 :: nat" "n - 11"] by (simp add: Suc_diff_Suc eval_nat_numeral)
    ultimately show ?thesis by (simp add: b p h)
  qed (simp add: b)
  then show thesis by (rule that [OF fit b_def n(1) n32 b lt])
qed

section \<open>The invariant\<close>

text \<open>
  \<open>pool_shape\<close>: a size has a free list iff it has a stub, the free blocks are among the size's
  blocks and occur once, and every block of the stub is live and of its size. \<open>pool_inv\<close> adds the
  accounting: \<open>_allocated_size\<close> is the total size of all blocks, and at most the pool limit.
\<close>

definition block_sizes :: "mempool \<Rightarrow> u32 set" where
  "block_sizes mp = {k. pool_stub mp k \<noteq> None}"

definition stub_bytes :: "mempool \<Rightarrow> u32 \<Rightarrow> nat" where
  "stub_bytes mp k = unat k * card (the (pool_stub mp k))"

definition size_ok :: "mempool \<Rightarrow> u32 \<Rightarrow> bool" where
  "size_ok mp k = (case (pool_free mp k, pool_stub mp k) of
     (None, None) \<Rightarrow> True
   | (Some l, Some s) \<Rightarrow> 0 < unat k \<and> unat k \<le> 2 ^ 31 \<and> finite s \<and> set l \<subseteq> s \<and> distinct l \<and>
       (\<forall>p\<in>s. \<exists>b. heap mp p = Some b \<and> length b = unat k)
   | _ \<Rightarrow> False)"

definition pool_shape :: "mempool \<Rightarrow> bool" where
  "pool_shape mp \<longleftrightarrow> (\<forall>k. size_ok mp k) \<and> finite (block_sizes mp) \<and>
     (\<forall>p. next_addr mp \<le> p \<longrightarrow> heap mp p = None)"

definition pool_inv :: "mempool \<Rightarrow> bool" where
  "pool_inv mp \<longleftrightarrow> pool_shape mp \<and>
     unat (allocated_size mp) = (\<Sum>k\<in>block_sizes mp. stub_bytes mp k) \<and>
     unat (allocated_size mp) \<le> 2097152000"

text \<open>\<open>owned mp k p\<close>: the block \<open>p\<close> of size \<open>k\<close> is handed out. \<open>keeps\<close>: the blocks handed out
  before are still handed out, with the same contents.\<close>

definition owned :: "mempool \<Rightarrow> u32 \<Rightarrow> addr \<Rightarrow> bool" where
  "owned mp k p = (case (pool_free mp k, pool_stub mp k) of
     (Some l, Some s) \<Rightarrow> p \<in> s \<and> p \<notin> set l | _ \<Rightarrow> False)"

definition keeps :: "mempool \<Rightarrow> mempool \<Rightarrow> bool" where
  "keeps mp mp' \<longleftrightarrow> (\<forall>k p. owned mp k p \<longrightarrow> owned mp' k p \<and> heap mp' p = heap mp p)"

lemma keeps_refl [simp]: "keeps mp mp"
  by (simp add: keeps_def)

lemma keeps_trans [trans]: "keeps a b \<Longrightarrow> keeps b c \<Longrightarrow> keeps a c"
  unfolding keeps_def by metis

lemma pool_inv_shape: "pool_inv mp \<Longrightarrow> pool_shape mp"
  by (simp add: pool_inv_def)

lemma new_pool_inv: "pool_inv new_pool"
  by (simp add: pool_inv_def pool_shape_def size_ok_def block_sizes_def new_pool_def)

lemma shapeE:
  assumes "pool_shape mp" and "pool_stub mp k \<noteq> None \<or> pool_free mp k \<noteq> None"
  obtains l s where "pool_free mp k = Some l" "pool_stub mp k = Some s" "0 < unat k"
    "unat k \<le> 2 ^ 31" "finite s" "set l \<subseteq> s" "distinct l" "length l \<le> card s"
    "\<And>p. p \<in> s \<Longrightarrow> \<exists>b. heap mp p = Some b \<and> length b = unat k"
proof -
  have ok: "size_ok mp k" using assms(1) by (simp add: pool_shape_def)
  then obtain l s where ls: "pool_free mp k = Some l" "pool_stub mp k = Some s"
    using assms(2) by (cases "pool_free mp k"; cases "pool_stub mp k") (simp_all add: size_ok_def)
  have fs: "finite s" "set l \<subseteq> s" "distinct l" using ok ls by (simp_all add: size_ok_def)
  then have "length l \<le> card s" by (metis card_mono distinct_card)
  with ok ls fs show thesis by (intro that [of l s]) (simp_all add: size_ok_def)
qed

lemma free_iff_stub: "pool_inv mp \<Longrightarrow> pool_free mp k = None \<longleftrightarrow> pool_stub mp k = None"
  by (auto simp: pool_inv_def pool_shape_def size_ok_def dest!: spec [of _ k] split: option.splits)

text \<open>Blocks of different sizes are different.\<close>

lemma stub_disjoint:
  assumes sh: "pool_shape mp" and s: "pool_stub mp k = Some s" "pool_stub mp k' = Some s'"
    and p: "p \<in> s" "p \<in> s'"
  shows "k' = k"
proof -
  obtain b where b: "heap mp p = Some b" "length b = unat k"
    using sh s(1) p(1) by (elim shapeE [of mp k]) auto
  obtain b' where b': "heap mp p = Some b'" "length b' = unat k'"
    using sh s(2) p(2) by (elim shapeE [of mp k']) auto
  from b b' have "unat k' = unat k" by simp
  then show ?thesis by (simp add: word_unat_eq_iff)
qed

lemma owned_heap:
  assumes "pool_shape mp" and "owned mp k p"
  obtains b where "heap mp p = Some b" "length b = unat k"
proof -
  from assms(2) obtain l s where ls: "pool_free mp k = Some l" "pool_stub mp k = Some s" "p \<in> s"
    by (auto simp: owned_def split: option.splits)
  from assms(1) ls obtain b where "heap mp p = Some b \<and> length b = unat k"
    by (elim shapeE [of mp k]) auto
  with that show thesis by blast
qed

lemma stub_total_update:
  assumes "finite (block_sizes mp)" and "pool_stub mp k = Some s"
  shows "(\<Sum>j\<in>block_sizes mp. stub_bytes (mp\<lparr>pool_stub := (pool_stub mp)(k \<mapsto> s')\<rparr>) j) + unat k * card s =
    (\<Sum>j\<in>block_sizes mp. stub_bytes mp j) + unat k * card s'"
proof -
  have k: "k \<in> block_sizes mp" using assms(2) by (simp add: block_sizes_def)
  let ?mp' = "mp\<lparr>pool_stub := (pool_stub mp)(k \<mapsto> s')\<rparr>"
  have "(\<Sum>j\<in>block_sizes mp - {k}. stub_bytes ?mp' j) = (\<Sum>j\<in>block_sizes mp - {k}. stub_bytes mp j)"
    by (rule sum.cong) (simp_all add: stub_bytes_def)
  then show ?thesis
    using sum.remove [OF assms(1) k, of "stub_bytes ?mp'"] sum.remove [OF assms(1) k, of "stub_bytes mp"]
      assms(2) by (simp add: stub_bytes_def)
qed

text \<open>What the pool accounts for depends on the stubs only.\<close>

lemma stub_total_cong:
  "pool_stub mp' = pool_stub mp \<Longrightarrow>
   (\<Sum>j\<in>block_sizes mp'. stub_bytes mp' j) = (\<Sum>j\<in>block_sizes mp. stub_bytes mp j)"
  by (simp add: block_sizes_def stub_bytes_def)

text \<open>The accounting fields do not matter for the shape.\<close>

lemma size_ok_fields [simp]:
  "size_ok (mp\<lparr>water_mark := w\<rparr>) k = size_ok mp k"
  "size_ok (mp\<lparr>allocated_size := a\<rparr>) k = size_ok mp k"
  by (auto simp: size_ok_def split: option.splits)

lemma block_sizes_fields [simp]:
  "block_sizes (mp\<lparr>water_mark := w\<rparr>) = block_sizes mp"
  "block_sizes (mp\<lparr>allocated_size := a\<rparr>) = block_sizes mp"
  by (simp_all add: block_sizes_def)

lemma shape_fields [simp]:
  "pool_shape (mp\<lparr>water_mark := w\<rparr>) = pool_shape mp"
  "pool_shape (mp\<lparr>allocated_size := a\<rparr>) = pool_shape mp"
  by (simp_all add: pool_shape_def)

lemma keeps_fields [simp]:
  "keeps mp (mp'\<lparr>water_mark := w\<rparr>) = keeps mp mp'" "keeps (mp\<lparr>water_mark := w\<rparr>) mp' = keeps mp mp'"
  "keeps mp (mp'\<lparr>allocated_size := a\<rparr>) = keeps mp mp'"
  by (simp_all add: keeps_def owned_def)

section \<open>Release\<close>

lemma release_loop_ok:
  assumes "pool_free mp sz = Some (xs @ l)" and "pool_stub mp sz = Some s"
  shows "release_loop (length xs) sz mp = Some (mp\<lparr>pool_free := (pool_free mp)(sz \<mapsto> l),
    pool_stub := (pool_stub mp)(sz \<mapsto> s - set xs), heap := (heap mp) |` (- set xs)\<rparr>)"
  using assms
proof (induction xs arbitrary: mp s)
  case Nil
  then show ?case by (simp add: fun_upd_idem)
next
  case (Cons x xs)
  define mp1 where "mp1 = mp\<lparr>pool_free := (pool_free mp)(sz \<mapsto> xs @ l),
    pool_stub := (pool_stub mp)(sz \<mapsto> s - {x}), heap := (heap mp)(x := None)\<rparr>"
  have step: "release_loop (length (x # xs)) sz mp = release_loop (length xs) sz mp1"
    using Cons.prems by (simp add: mp1_def)
  have "pool_free mp1 sz = Some (xs @ l)" "pool_stub mp1 sz = Some (s - {x})"
    by (simp_all add: mp1_def)
  from Cons.IH [OF this] show ?case
    unfolding step
    by (elim trans, intro arg_cong [where f = Some] mempool.equality)
       (auto simp: mp1_def fun_eq_iff restrict_map_def)
qed

lemma release_loop_shape:
  assumes sh: "pool_shape mp" and f: "pool_free mp sz = Some (xs @ l)" and s: "pool_stub mp sz = Some s"
  defines "mp' \<equiv> mp\<lparr>pool_free := (pool_free mp)(sz \<mapsto> l),
    pool_stub := (pool_stub mp)(sz \<mapsto> s - set xs), heap := (heap mp) |` (- set xs)\<rparr>"
  shows "pool_shape mp'" and "keeps mp mp'" and "block_sizes mp' = block_sizes mp"
proof -
  have ss: "set (xs @ l) \<subseteq> s" "distinct (xs @ l)" "finite s" "0 < unat sz" "unat sz \<le> 2 ^ 31"
    "\<And>p. p \<in> s \<Longrightarrow> \<exists>b. heap mp p = Some b \<and> length b = unat sz"
    using sh f s by (auto elim!: shapeE [of mp sz])
  show bs: "block_sizes mp' = block_sizes mp"
    using s by (auto simp: block_sizes_def mp'_def)
  have ok: "size_ok mp' k" for k
  proof (cases "k = sz")
    case True
    then show ?thesis using ss by (auto simp: size_ok_def mp'_def)
  next
    case False
    have other: "heap mp' p = heap mp p" if "pool_stub mp k = Some s'" "p \<in> s'" for s' p
      using stub_disjoint [OF sh s that(1)] that(2) ss(1) False
      by (auto simp: mp'_def restrict_map_def)
    have "size_ok mp k" using sh by (simp add: pool_shape_def)
    then show ?thesis
      using False other by (auto simp: size_ok_def mp'_def split: option.splits)
  qed
  show "pool_shape mp'"
    using sh ok by (simp add: pool_shape_def bs) (simp add: mp'_def restrict_map_def)
  show "keeps mp mp'"
    unfolding keeps_def
  proof (intro allI impI)
    fix k p
    assume ow: "owned mp k p"
    then obtain l' s' where ls: "pool_free mp k = Some l'" "pool_stub mp k = Some s'" "p \<in> s'" "p \<notin> set l'"
      by (auto simp: owned_def split: option.splits)
    have "p \<notin> set xs"
      using stub_disjoint [OF sh s ls(2)] ls ss(1) f by (cases "k = sz") auto
    then show "owned mp' k p \<and> heap mp' p = heap mp p"
      using ls f s by (auto simp: owned_def mp'_def)
  qed
qed

text \<open>Nothing that is given back to the heap, or stays free, becomes handed out.\<close>

lemma release_loop_owned: "release_loop n sz mp = Some mp' \<Longrightarrow> owned mp' k q \<Longrightarrow> owned mp k q"
proof (induction n arbitrary: mp)
  case (Suc n)
  then obtain p l s where ls: "pool_free mp sz = Some (p # l)" "pool_stub mp sz = Some s"
    "release_loop n sz (mp\<lparr>pool_free := (pool_free mp)(sz \<mapsto> l), pool_stub := (pool_stub mp)(sz \<mapsto> s - {p}),
       heap := (heap mp)(p := None)\<rparr>) = Some mp'"
    by (auto split: option.splits list.splits)
  from Suc.IH [OF ls(3) Suc.prems(2)] ls(1,2) show ?case by (auto simp: owned_def split: if_splits)
qed simp

lemma release_owned: "release sz mp = Some mp' \<Longrightarrow> owned mp' k q \<Longrightarrow> owned mp k q"
proof -
  assume r: "release sz mp = Some mp'" and o: "owned mp' k q"
  have "mp' = mp \<or> (\<exists>n mp1 a. release_loop n sz mp = Some mp1 \<and> mp' = mp1\<lparr>allocated_size := a\<rparr>)"
    using r by (auto simp: release_def Let_def split: option.splits if_splits)
  moreover have "owned (mp1\<lparr>allocated_size := a\<rparr>) k q = owned mp1 k q" for mp1 a by (simp add: owned_def)
  ultimately show "owned mp k q" using o release_loop_owned [of _ sz mp _ k q] by auto
qed

lemma release_count_le: "unat (release_count w sz f st) \<le> unat f"
proof -
  have "unat (f div 2) \<le> unat f" using unat_drop [of 1 f] by (simp add: drop_bit_Suc)
  then show ?thesis by (simp add: release_count_def)
qed

lemma stub_bytes_le_total:
  assumes inv: "pool_inv mp" and s: "pool_stub mp sz = Some s"
  shows "unat sz * card s \<le> unat (allocated_size mp)"
proof -
  have "sz \<in> block_sizes mp" "finite (block_sizes mp)"
    using inv s by (auto simp: block_sizes_def pool_inv_def pool_shape_def)
  then have "stub_bytes mp sz \<le> (\<Sum>k\<in>block_sizes mp. stub_bytes mp k)"
    by (intro member_le_sum) simp_all
  then show ?thesis using inv s by (simp add: pool_inv_def stub_bytes_def)
qed

lemma unat_mult_of_nat32:
  "unat (a :: u32) * n < 4294967296 \<Longrightarrow> unat (a * of_nat n) = unat a * n"
proof (cases "unat a = 0")
  case False
  assume a: "unat a * n < 4294967296"
  have "n \<le> unat a * n" using False by simp
  with a have "n < 4294967296" by linarith
  then have "unat (of_nat n :: u32) = n" by (rule unat_of_nat32)
  then show ?thesis using a unat_mult_lem [of a "of_nat n"] by simp
qed (simp add: unat_eq_0)

lemma release_ok:
  assumes inv: "pool_inv mp" and st: "pool_stub mp sz \<noteq> None"
  obtains mp' where "release sz mp = Some mp'" "pool_inv mp'" "keeps mp mp'"
    "block_sizes mp' = block_sizes mp" "water_mark mp' = water_mark mp"
    "unat (allocated_size mp') \<le> unat (allocated_size mp)"
proof -
  from pool_inv_shape [OF inv] st obtain l s where ls: "pool_free mp sz = Some l"
    "pool_stub mp sz = Some s" "0 < unat sz" "finite s" "set l \<subseteq> s" "distinct l" "length l \<le> card s"
    by (auto elim: shapeE [of mp sz])
  define todo where "todo = release_count (water_mark mp) sz (of_nat (length l)) (of_nat (card s))"
  define xs where "xs = take (unat todo) l"
  define l' where "l' = drop (unat todo) l"
  have total: "unat sz * card s \<le> unat (allocated_size mp)"
    by (rule stub_bytes_le_total [OF inv ls(2)])
  have cs: "card s \<le> unat sz * card s" using ls(3) by simp
  have lim: "unat (allocated_size mp) \<le> 2097152000" using inv by (simp add: pool_inv_def)
  have len32: "length l < 4294967296" using total cs ls(7) lim by linarith
  have todo: "unat todo \<le> length l"
    using release_count_le [of "water_mark mp" sz "of_nat (length l)" "of_nat (card s)"]
    by (simp add: todo_def unat_of_nat32 [OF len32])
  have xl: "l = xs @ l'" "length xs = unat todo" using todo by (simp_all add: xs_def l'_def)
  show thesis
  proof (cases "todo = 0")
    case True
    then have "release sz mp = Some mp"
      by (simp add: release_def ls todo_def [symmetric] Let_def)
    then show thesis using inv by (intro that [of mp]) simp_all
  next
    case False
    define mp1 where "mp1 = mp\<lparr>pool_free := (pool_free mp)(sz \<mapsto> l'),
      pool_stub := (pool_stub mp)(sz \<mapsto> s - set xs), heap := (heap mp) |` (- set xs)\<rparr>"
    define mp' where "mp' = mp1\<lparr>allocated_size := allocated_size mp - sz * todo\<rparr>"
    have f: "pool_free mp sz = Some (xs @ l')" using ls(1) xl by simp
    have loop: "release_loop (unat todo) sz mp = Some mp1"
      using release_loop_ok [OF f ls(2)] by (simp add: xl mp1_def)
    note sh1 = release_loop_shape [OF pool_inv_shape [OF inv] f ls(2), folded mp1_def]
    have "unat sz * unat todo \<le> unat sz * card s"
      using todo ls(7) by (intro mult_le_mono2) linarith
    from le_trans [OF this total] have le: "unat sz * unat todo \<le> unat (allocated_size mp)" .
    have prod: "unat (sz * todo) = unat sz * unat todo"
      using unat_mult_of_nat32 [of sz "unat todo"] le lim by simp
    have fits: "sz * todo \<le> allocated_size mp" using le prod by (simp add: word_le_nat_alt)
    have rel: "release sz mp = Some mp'"
      using False fits by (simp add: release_def ls todo_def [symmetric] Let_def loop mp'_def)
        (simp add: mp1_def)
    have sub: "unat (allocated_size mp') = unat (allocated_size mp) - unat sz * unat todo"
      using fits by (simp add: mp'_def unat_sub prod)
    have cd: "card s = card (s - set xs) + unat todo"
    proof -
      have "set xs \<subseteq> s" "card (set xs) = unat todo"
        using ls(5,6) xl by (auto simp: distinct_card)
      then show ?thesis using ls(4) card_mono [OF ls(4), of "set xs"]
        by (simp add: card_Diff_subset finite_subset)
    qed
    have sh': "pool_shape mp'"
      using sh1(1) by (simp add: mp'_def)
    have bs: "block_sizes mp' = block_sizes mp"
      using sh1(3) by (simp add: mp'_def)
    have "(\<Sum>k\<in>block_sizes mp'. stub_bytes mp' k) + unat sz * unat todo =
        (\<Sum>k\<in>block_sizes mp. stub_bytes mp k)"
    proof -
      have "stub_bytes mp' k = stub_bytes (mp\<lparr>pool_stub := (pool_stub mp)(sz \<mapsto> s - set xs)\<rparr>) k" for k
        by (simp add: stub_bytes_def mp'_def mp1_def)
      moreover have "finite (block_sizes mp)" using inv by (simp add: pool_inv_def pool_shape_def)
      ultimately show ?thesis
        using stub_total_update [of mp sz s "s - set xs", OF _ ls(2)] cd
        by (simp add: bs distrib_left)
    qed
    moreover have "unat (allocated_size mp) = (\<Sum>k\<in>block_sizes mp. stub_bytes mp k)"
      using inv by (simp add: pool_inv_def)
    ultimately have "unat (allocated_size mp') = (\<Sum>k\<in>block_sizes mp'. stub_bytes mp' k)"
      using sub by linarith
    then have "pool_inv mp'" using sh' sub lim unfolding pool_inv_def by linarith
    moreover have "keeps mp mp'" using sh1(2) by (simp add: mp'_def)
    ultimately show thesis
      using rel bs sub by (intro that [of mp']) (simp_all add: mp'_def mp1_def)
  qed
qed

lemma set_water_inv [simp]: "pool_inv (mp\<lparr>water_mark := w\<rparr>) = pool_inv mp"
  by (simp add: pool_inv_def stub_bytes_def)

lemma purge_loop_ok:
  assumes "pool_inv mp"
  shows "\<exists>mp'. purge_loop e last_alloc n mp = Some mp' \<and> pool_inv mp' \<and> keeps mp mp' \<and>
           block_sizes mp' = block_sizes mp \<and>
           unat (allocated_size mp') \<le> unat (allocated_size mp)"
  using assms
proof (induction e arbitrary: mp)
  case 0
  then show ?case by simp
next
  case (Suc e)
  show ?case
  proof (cases "last_alloc - allocated_size mp < n \<and> (push_bit (Suc e) 1 :: u32) \<ge> C_SLOT_1 \<and>
      pool_stub mp (push_bit e 1) \<noteq> None \<and> pool_free mp (push_bit e 1) \<noteq> None")
    case True
    then have "pool_stub mp (push_bit e 1) \<noteq> None" by blast
    from Suc.prems this obtain mp1 where "release (push_bit e 1) mp = Some mp1" "pool_inv mp1"
      "keeps mp mp1" "block_sizes mp1 = block_sizes mp" "water_mark mp1 = water_mark mp"
      "unat (allocated_size mp1) \<le> unat (allocated_size mp)" by (rule release_ok)
    moreover from Suc.IH [OF this(2)] obtain mp' where "purge_loop e last_alloc n mp1 = Some mp'"
      "pool_inv mp'" "keeps mp1 mp'" "block_sizes mp' = block_sizes mp1"
      "unat (allocated_size mp') \<le> unat (allocated_size mp1)" by blast
    ultimately show ?thesis using True by (auto simp: Let_def intro: keeps_trans)
  next
    case False
    then show ?thesis using Suc.prems Suc.IH [OF Suc.prems] by (auto simp: Let_def)
  qed
qed

text \<open>If \<open>release_size\<close> reports success, that much has been given back.\<close>

lemma release_size_ok:
  assumes inv: "pool_inv mp"
  obtains r mp' where "release_size n mp = Some (r, mp')" "pool_inv mp'" "keeps mp mp'"
    "block_sizes mp' = block_sizes mp"
    "r = 0 \<longrightarrow> unat (allocated_size mp') + unat n \<le> unat (allocated_size mp)"
proof -
  have "pool_inv (mp\<lparr>water_mark := C_ALLOC_CAPCITY\<rparr>)" using inv by simp
  from purge_loop_ok [OF this, of 31 "allocated_size mp" n] obtain mp1 where
    mp1: "purge_loop 31 (allocated_size mp) n (mp\<lparr>water_mark := C_ALLOC_CAPCITY\<rparr>) = Some mp1"
    "pool_inv mp1" "keeps mp mp1" "block_sizes mp1 = block_sizes mp"
    "unat (allocated_size mp1) \<le> unat (allocated_size mp)" by auto
  let ?r = "if allocated_size mp - allocated_size mp1 < n then - 1 else 0 :: int"
  have "release_size n mp = Some (?r, mp1\<lparr>water_mark := C_MAX_WATER_MARK\<rparr>)"
    using mp1(1) by (simp add: release_size_def Let_def)
  moreover have "unat (allocated_size mp1) + unat n \<le> unat (allocated_size mp)" if "?r = 0"
  proof -
    have "n \<le> allocated_size mp - allocated_size mp1" using that by (simp split: if_splits)
    then have "unat n \<le> unat (allocated_size mp) - unat (allocated_size mp1)"
      using mp1(5) by (simp add: word_le_nat_alt unat_sub)
    with mp1(5) show ?thesis by linarith
  qed
  ultimately show thesis
    using mp1 by (intro that [of ?r "mp1\<lparr>water_mark := C_MAX_WATER_MARK\<rparr>"]) simp_all
qed

section \<open>Extend\<close>

lemma extend_loop_ok:
  assumes "pool_shape mp" and "pool_free mp sz = Some l" and "pool_stub mp sz = Some s"
  shows "\<exists>mp' l' s'. extend_loop n sz mp = Some mp' \<and> pool_shape mp' \<and> keeps mp mp' \<and>
    pool_free mp' sz = Some l' \<and> pool_stub mp' = (pool_stub mp)(sz \<mapsto> s') \<and>
    card s' = card s + n \<and> length l' = length l + n \<and> allocated_size mp' = allocated_size mp"
  using assms
proof (induction n arbitrary: mp l s)
  case 0
  then show ?case
    by (intro exI [of _ mp] exI [of _ l] exI [of _ s]) (simp add: fun_upd_idem)
next
  case (Suc n)
  define p where "p = next_addr mp"
  define mp1 where "mp1 = mp\<lparr>pool_free := (pool_free mp)(sz \<mapsto> p # l),
    pool_stub := (pool_stub mp)(sz \<mapsto> insert p s),
    heap := (heap mp)(p \<mapsto> replicate (unat sz) None), next_addr := p + 1\<rparr>"
  have step: "extend_loop (Suc n) sz mp = extend_loop n sz mp1"
    using Suc.prems by (simp add: mp1_def p_def Let_def)
  have fresh: "heap mp p = None" using Suc.prems(1) by (simp add: pool_shape_def p_def)
  have new: "p \<notin> s'" if "pool_stub mp k = Some s'" for k s'
  proof
    assume "p \<in> s'"
    with Suc.prems(1) that obtain b where "heap mp p = Some b" by (elim shapeE [of mp k]) auto
    with fresh show False by simp
  qed
  from Suc.prems have ss: "0 < unat sz" "unat sz \<le> 2 ^ 31" "finite s" "set l \<subseteq> s" "distinct l"
    "\<And>q. q \<in> s \<Longrightarrow> \<exists>b. heap mp q = Some b \<and> length b = unat sz"
    by (auto elim!: shapeE [of mp sz])
  have ok: "size_ok mp1 k" for k
  proof (cases "k = sz")
    case True
    then show ?thesis using ss new [OF Suc.prems(3)] by (auto simp: size_ok_def mp1_def)
  next
    case False
    have "size_ok mp k" using Suc.prems(1) by (simp add: pool_shape_def)
    then show ?thesis
      using False new by (auto simp: size_ok_def mp1_def split: option.splits)
  qed
  have bs: "block_sizes mp1 = block_sizes mp"
    using Suc.prems(3) by (auto simp: block_sizes_def mp1_def)
  have sh1: "pool_shape mp1"
    using Suc.prems(1) ok by (simp add: pool_shape_def bs) (simp add: mp1_def p_def)
  have k1: "keeps mp mp1"
    using new Suc.prems(2,3)
    by (fastforce simp: keeps_def owned_def mp1_def split: option.splits if_splits)
  have "pool_free mp1 sz = Some (p # l)" "pool_stub mp1 sz = Some (insert p s)"
    by (simp_all add: mp1_def)
  from Suc.IH [OF sh1 this] obtain mp' l' s' where "extend_loop n sz mp1 = Some mp'"
    "pool_shape mp'" "keeps mp1 mp'" "pool_free mp' sz = Some l'"
    "pool_stub mp' = (pool_stub mp1)(sz \<mapsto> s')" "card s' = card (insert p s) + n"
    "length l' = length (p # l) + n" "allocated_size mp' = allocated_size mp1" by blast
  moreover have "card (insert p s) = card s + 1"
    using new [OF Suc.prems(3)] ss(3) by simp
  ultimately show ?case
    unfolding step using keeps_trans [OF k1]
    by (intro exI [of _ mp'] exI [of _ l'] exI [of _ s']) (simp add: mp1_def)
qed

lemma fit_extend_set_bound:
  assumes "0 < unat sz" and "unat sz \<le> 2 ^ 31"
  shows "unat sz * unat (fit_extend_set sz) \<le> 2 ^ 31" and "0 < unat (fit_extend_set sz)"
proof -
  consider "unat sz < 1048576" | "1048576 \<le> unat sz" "unat sz < 67108864" | "67108864 \<le> unat sz"
    by linarith
  then have "unat sz * unat (fit_extend_set sz) \<le> 2 ^ 31 \<and> 0 < unat (fit_extend_set sz)"
  proof cases
    case 1
    then have "fit_extend_set sz = C_EXTEND_SET"
      by (simp add: fit_extend_set_def C_SLOT_1_def word_less_nat_alt)
    then show ?thesis using 1 by (simp add: C_EXTEND_SET_def)
  next
    case 2
    then have "fit_extend_set sz = C_ALLOC_CAPCITY div sz"
      by (simp add: fit_extend_set_def C_SLOT_1_def C_SLOT_2_def word_less_nat_alt word_le_nat_alt)
    then have eq: "unat (fit_extend_set sz) = 134217728 div unat sz"
      by (simp add: unat_div C_ALLOC_CAPCITY_def)
    have "unat sz * (134217728 div unat sz) \<le> 2 ^ 31"
      by (rule order_trans [OF times_div_less_eq_dividend]) simp
    moreover have "0 < 134217728 div unat sz" using 2 by (simp add: div_greater_zero_iff)
    ultimately show ?thesis by (simp add: eq)
  next
    case 3
    then have "fit_extend_set sz = 1"
      by (simp add: fit_extend_set_def C_SLOT_1_def C_SLOT_2_def word_less_nat_alt word_le_nat_alt)
    then show ?thesis using assms by simp
  qed
  then show "unat sz * unat (fit_extend_set sz) \<le> 2 ^ 31" "0 < unat (fit_extend_set sz)" by auto
qed

lemma extend_ok:
  assumes inv: "pool_inv mp" and st: "pool_stub mp sz \<noteq> None"
  obtains r mp' where "extend sz mp = Some (r, mp')" "pool_inv mp'" "keeps mp mp'"
    "pool_stub mp' sz \<noteq> None" "r = 0 \<longrightarrow> (\<exists>p l. pool_free mp' sz = Some (p # l))"
proof -
  let ?ext = "fit_extend_set sz"
  from pool_inv_shape [OF inv] st have sz: "0 < unat sz" "unat sz \<le> 2 ^ 31"
    by (auto elim: shapeE [of mp sz])
  have ext: "unat sz * unat ?ext \<le> 2147483648" "0 < unat ?ext"
    using fit_extend_set_bound [OF sz] by simp_all
  have lim: "unat (allocated_size mp) \<le> 2097152000" using inv by (simp add: pool_inv_def)
  have prod: "unat (sz * ?ext) = unat sz * unat ?ext"
    using unat_mult_of_nat32 [of sz "unat ?ext"] ext by simp
  have sum: "unat (allocated_size mp + sz * ?ext) = unat (allocated_size mp) + unat sz * unat ?ext"
    using ext lim prod unat_add_lem [of "allocated_size mp" "sz * ?ext"] by simp
  obtain r mp1 where mp1: "(if allocated_size mp + sz * ?ext \<ge> C_MAX_POOL_SIZE
      then release_size (allocated_size mp + sz * ?ext - C_MAX_POOL_SIZE) mp else Some (0, mp)) =
        Some (r, mp1)" "pool_inv mp1" "keeps mp mp1" "block_sizes mp1 = block_sizes mp"
    "r = 0 \<Longrightarrow> unat (allocated_size mp1) + unat sz * unat ?ext \<le> 2097152000"
  proof (cases "allocated_size mp + sz * ?ext \<ge> C_MAX_POOL_SIZE")
    case True
    obtain r mp1 where r: "release_size (allocated_size mp + sz * ?ext - C_MAX_POOL_SIZE) mp =
        Some (r, mp1)" "pool_inv mp1" "keeps mp mp1" "block_sizes mp1 = block_sizes mp"
      "r = 0 \<longrightarrow> unat (allocated_size mp1) +
          unat (allocated_size mp + sz * ?ext - C_MAX_POOL_SIZE) \<le> unat (allocated_size mp)"
      by (rule release_size_ok [OF inv, of "allocated_size mp + sz * ?ext - C_MAX_POOL_SIZE"])
    have "unat (allocated_size mp + sz * ?ext - C_MAX_POOL_SIZE) =
        unat (allocated_size mp) + unat sz * unat ?ext - 2097152000"
      using True by (simp only: unat_sub sum) (simp add: C_MAX_POOL_SIZE_def)
    then show thesis using r True by (intro that [of r mp1]) auto
  next
    case False
    then have "unat (allocated_size mp + sz * ?ext) < 2097152000"
      by (simp add: not_le word_less_nat_alt C_MAX_POOL_SIZE_def)
    then have "unat (allocated_size mp) + unat sz * unat ?ext < 2097152000" by (simp only: sum)
    then show thesis using False inv by (intro that [of 0 mp]) auto
  qed
  show thesis
  proof (cases "r = 0")
    case False
    then have "extend sz mp = Some (- 1, mp1)" using mp1(1) by (simp add: extend_def Let_def)
    moreover have "pool_stub mp1 sz \<noteq> None"
      using mp1(4) st by (auto simp: block_sizes_def)
    ultimately show thesis using mp1 by (intro that [of "- 1" mp1]) simp_all
  next
    case True
    have "pool_stub mp1 sz \<noteq> None" using mp1(4) st by (auto simp: block_sizes_def)
    with pool_inv_shape [OF mp1(2)] obtain l s where ls: "pool_free mp1 sz = Some l"
      "pool_stub mp1 sz = Some s" by (auto elim: shapeE [of mp1 sz])
    from extend_loop_ok [OF pool_inv_shape [OF mp1(2)] ls, of "unat ?ext"] obtain mp2 l' s' where
      mp2: "extend_loop (unat ?ext) sz mp1 = Some mp2" "pool_shape mp2" "keeps mp1 mp2"
      "pool_free mp2 sz = Some l'" "pool_stub mp2 = (pool_stub mp1)(sz \<mapsto> s')"
      "card s' = card s + unat ?ext" "length l' = length l + unat ?ext"
      "allocated_size mp2 = allocated_size mp1" by blast
    define mp3 where "mp3 = mp2\<lparr>allocated_size := allocated_size mp2 + sz * ?ext\<rparr>"
    have run: "extend sz mp = Some (0, mp3)"
      using True mp1(1) mp2(1) by (simp add: extend_def Let_def mp3_def)
    have lim1: "unat (allocated_size mp1) + unat sz * unat ?ext \<le> 2097152000"
      using mp1(5) True by simp
    have alloc: "unat (allocated_size mp3) = unat (allocated_size mp1) + unat sz * unat ?ext"
      using lim1 unat_add_lem [of "allocated_size mp1" "sz * ?ext"]
      by (simp add: mp3_def mp2(8) prod)
    have fin: "finite (block_sizes mp1)" using mp1(2) by (simp add: pool_inv_def pool_shape_def)
    have bs: "block_sizes mp3 = block_sizes mp1"
      using ls(2) by (auto simp: block_sizes_def mp3_def mp2(5))
    have "stub_bytes mp3 k = stub_bytes (mp1\<lparr>pool_stub := (pool_stub mp1)(sz \<mapsto> s')\<rparr>) k" for k
      by (simp add: stub_bytes_def mp3_def mp2(5))
    then have "(\<Sum>k\<in>block_sizes mp3. stub_bytes mp3 k) + unat sz * card s =
        (\<Sum>k\<in>block_sizes mp1. stub_bytes mp1 k) + unat sz * card s'"
      using stub_total_update [OF fin ls(2), of s'] by (simp add: bs)
    moreover have "unat sz * card s' = unat sz * card s + unat sz * unat ?ext"
      by (simp add: mp2(6) distrib_left)
    moreover have "unat (allocated_size mp1) = (\<Sum>k\<in>block_sizes mp1. stub_bytes mp1 k)"
      using mp1(2) by (simp add: pool_inv_def)
    ultimately have "unat (allocated_size mp3) = (\<Sum>k\<in>block_sizes mp3. stub_bytes mp3 k)"
      using alloc by linarith
    moreover have "pool_shape mp3" using mp2(2) by (simp add: mp3_def)
    ultimately have inv3: "pool_inv mp3" using alloc lim1 unfolding pool_inv_def by linarith
    have "keeps mp mp3" using keeps_trans [OF mp1(3) mp2(3)] by (simp add: mp3_def)
    moreover have "\<exists>p l. pool_free mp3 sz = Some (p # l)"
      using mp2(4,7) ext(2) by (cases l') (auto simp: mp3_def)
    ultimately show thesis
      using run inv3 by (intro that [of 0 mp3]) (simp_all add: mp3_def mp2(5))
  qed
qed

section \<open>Allocate and recycle\<close>

lemma new_size_inv:
  assumes inv: "pool_inv mp" and b: "0 < unat b" "unat b \<le> 2 ^ 31" and new: "pool_free mp b = None"
  defines "mp1 \<equiv> mp\<lparr>pool_free := (pool_free mp)(b \<mapsto> []), pool_stub := (pool_stub mp)(b \<mapsto> {})\<rparr>"
  shows "pool_inv mp1" and "keeps mp mp1" and "extend_new_size b mp = extend b mp1"
proof -
  have ok: "size_ok mp k" for k using inv by (simp add: pool_inv_def pool_shape_def)
  have new': "pool_stub mp b = None" using ok [of b] new by (simp add: size_ok_def split: option.splits)
  have "size_ok mp1 k" for k
    using ok [of k] b by (cases "k = b") (auto simp: size_ok_def mp1_def split: option.splits)
  moreover have bs: "block_sizes mp1 = insert b (block_sizes mp)" "b \<notin> block_sizes mp"
    using new' by (auto simp: block_sizes_def mp1_def)
  ultimately have sh: "pool_shape mp1"
    using inv by (simp add: pool_inv_def pool_shape_def) (simp add: mp1_def)
  have "(\<Sum>k\<in>block_sizes mp. stub_bytes mp1 k) = (\<Sum>k\<in>block_sizes mp. stub_bytes mp k)"
    using bs(2) by (intro sum.cong) (auto simp: stub_bytes_def mp1_def)
  moreover have "stub_bytes mp1 b = 0" by (simp add: stub_bytes_def mp1_def)
  moreover have "finite (block_sizes mp)" using inv by (simp add: pool_inv_def pool_shape_def)
  ultimately have "(\<Sum>k\<in>block_sizes mp1. stub_bytes mp1 k) = (\<Sum>k\<in>block_sizes mp. stub_bytes mp k)"
    using bs by simp
  moreover have "allocated_size mp1 = allocated_size mp" by (simp add: mp1_def)
  ultimately show "pool_inv mp1" using inv sh by (simp add: pool_inv_def)
  show "keeps mp mp1"
    using new new' by (auto simp: keeps_def owned_def mp1_def split: option.splits)
  show "extend_new_size b mp = extend b mp1"
    using new new' by (simp add: extend_new_size_def mp1_def)
qed

lemma take_block_ok:
  assumes inv: "pool_inv mp" and f: "pool_free mp b = Some (p # l)"
  obtains mp' where "take_block b mp = Some (Some (p, b), mp')" "pool_inv mp'" "keeps mp mp'"
    "owned mp' b p" "\<forall>k. \<not> owned mp k p"
proof -
  define mp' where "mp' = mp\<lparr>pool_free := (pool_free mp)(b \<mapsto> l)\<rparr>"
  from pool_inv_shape [OF inv] f obtain s where s: "pool_stub mp b = Some s" "set (p # l) \<subseteq> s"
    "distinct (p # l)" by (auto elim: shapeE [of mp b])
  have ok: "size_ok mp k" for k using inv by (simp add: pool_inv_def pool_shape_def)
  have "size_ok mp' k" for k
    using ok [of k] f s by (cases "k = b") (auto simp: size_ok_def mp'_def split: option.splits)
  moreover have "block_sizes mp' = block_sizes mp" "stub_bytes mp' k = stub_bytes mp k" for k
    by (simp_all add: block_sizes_def stub_bytes_def mp'_def)
  ultimately have "pool_inv mp'"
    using inv by (simp add: pool_inv_def pool_shape_def) (simp add: mp'_def)
  moreover have "keeps mp mp'"
    using f s(2) by (auto simp: keeps_def owned_def mp'_def split: option.splits)
  moreover have "owned mp' b p" using s by (simp add: owned_def mp'_def)
  moreover have "\<not> owned mp k p" for k
  proof
    assume "owned mp k p"
    then obtain l' s' where k: "pool_free mp k = Some l'" "pool_stub mp k = Some s'" "p \<in> s'" "p \<notin> set l'"
      by (auto simp: owned_def split: option.splits)
    have "k = b" using stub_disjoint [OF pool_inv_shape [OF inv] s(1) k(2)] s(2) k(3) by auto
    with k f show False by auto
  qed
  ultimately show thesis
    using f by (intro that [of mp']) (simp_all add: take_block_def mp'_def)
qed

text \<open>
  \<open>allocate\<close> either fails, or hands out a block of the fitting size that nobody holds; the blocks
  already handed out are untouched in both cases.
\<close>

lemma allocate_ok:
  assumes inv: "pool_inv mp" and sz: "unat sz < 2 ^ 31"
  obtains r mp' where "allocate sz mp = Some (r, mp')" "pool_inv mp'" "keeps mp mp'"
    "r = None \<or> (\<exists>p b. r = Some (p, b) \<and> fit_block_size sz = Some b \<and> owned mp' b p \<and>
                     (\<forall>k. \<not> owned mp k p))"
proof -
  obtain b n where b: "fit_block_size sz = Some b" "b = push_bit n 1" "10 \<le> n" "n < 32"
    "unat b = 2 ^ n" "unat sz < unat b" by (rule fit_block_size_ok [OF sz])
  have "(2 :: nat) ^ n \<le> 2 ^ 31" using b(4) by (intro power_increasing) simp_all
  then have bs: "0 < unat b" "unat b \<le> 2 ^ 31" using b by simp_all
  define start where "start = (if pool_free mp b = None then extend_new_size b mp else Some (0, mp))"
  obtain r mp1 where mp1: "start = Some (r, mp1)" "pool_inv mp1" "keeps mp mp1"
    "pool_stub mp1 b \<noteq> None" "pool_free mp1 b \<noteq> None"
  proof (cases "pool_free mp b")
    case None
    note new = new_size_inv [OF inv bs None]
    obtain r mp1 where "extend_new_size b mp = Some (r, mp1)" "pool_inv mp1"
      "keeps (mp\<lparr>pool_free := (pool_free mp)(b \<mapsto> []), pool_stub := (pool_stub mp)(b \<mapsto> {})\<rparr>) mp1"
      "pool_stub mp1 b \<noteq> None"
      unfolding new(3) by (rule extend_ok [OF new(1), of b]) simp_all
    moreover from this have "pool_free mp1 b \<noteq> None" by (simp add: free_iff_stub)
    ultimately show thesis
      using None keeps_trans [OF new(2)] by (intro that [of r mp1]) (simp_all add: start_def)
  next
    case (Some l)
    then have "pool_stub mp b \<noteq> None"
      using pool_inv_shape [OF inv] by (auto elim: shapeE [of mp b])
    with Some inv show thesis by (intro that [of 0 mp]) (simp_all add: start_def)
  qed
  have run: "allocate sz mp = (if r \<noteq> 0 then Some (None, mp1)
     else if pool_free mp1 b = Some [] then do {
       (r2, mp2) \<leftarrow> extend b mp1; if r2 \<noteq> 0 then Some (None, mp2) else take_block b mp2 }
     else take_block b mp1)"
    by (simp only: allocate_def b(1) bind.bind_lunit start_def [symmetric] mp1(1) prod.case)
  note result = that
  have finish: thesis if mp2: "pool_inv mp2" "keeps mp mp2" "pool_free mp2 b = Some (p # l)"
    and eq: "allocate sz mp = take_block b mp2" for mp2 p l
  proof -
    obtain mp' where t: "take_block b mp2 = Some (Some (p, b), mp')" "pool_inv mp'" "keeps mp2 mp'"
      "owned mp' b p" "\<forall>k. \<not> owned mp2 k p" by (rule take_block_ok [OF mp2(1,3)])
    have "\<forall>k. \<not> owned mp k p" using t(5) mp2(2) unfolding keeps_def by blast
    with t b(1) keeps_trans [OF mp2(2) t(3)] show thesis
      by (intro result [of "Some (p, b)" mp']) (simp_all add: eq)
  qed
  show thesis
  proof (cases "r \<noteq> 0")
    case True
    then show thesis using run mp1 by (intro that [of None mp1]) simp_all
  next
    case r0: False
    show thesis
    proof (cases "pool_free mp1 b = Some []")
      case True
      obtain r2 mp2 where mp2: "extend b mp1 = Some (r2, mp2)" "pool_inv mp2" "keeps mp1 mp2"
        "pool_stub mp2 b \<noteq> None" "r2 = 0 \<longrightarrow> (\<exists>p l. pool_free mp2 b = Some (p # l))"
        by (rule extend_ok [OF mp1(2,4)])
      note k2 = keeps_trans [OF mp1(3) mp2(3)]
      show thesis
      proof (cases "r2 = 0")
        case False
        then show thesis using run r0 True mp2 k2 by (intro that [of None mp2]) simp_all
      next
        case r2: True
        then obtain p l where "pool_free mp2 b = Some (p # l)" using mp2(5) by blast
        then show thesis
          using run r0 True mp2(1) r2 by (intro finish [OF mp2(2) k2]) simp_all
      qed
    next
      case False
      then obtain p l where pl: "pool_free mp1 b = Some (p # l)"
        using mp1(5) by (metis list.exhaust not_None_eq)
      show thesis using run r0 False by (intro finish [OF mp1(2,3) pl]) simp
    qed
  qed
qed

lemma recycle_ok:
  assumes inv: "pool_inv mp" and own: "owned mp sz p"
  obtains mp' where "recycle p sz mp = Some (0, mp')" "pool_inv mp'"
    "\<forall>k q. owned mp k q \<and> q \<noteq> p \<longrightarrow> owned mp' k q \<and> heap mp' q = heap mp q"
    "\<forall>k q. owned mp' k q \<longrightarrow> owned mp k q \<and> q \<noteq> p"
proof -
  from own obtain l s where ls: "pool_free mp sz = Some l" "pool_stub mp sz = Some s" "p \<in> s" "p \<notin> set l"
    by (auto simp: owned_def split: option.splits)
  define mp1 where "mp1 = mp\<lparr>pool_free := (pool_free mp)(sz \<mapsto> p # l)\<rparr>"
  have ok: "size_ok mp k" for k using inv by (simp add: pool_inv_def pool_shape_def)
  have "size_ok mp1 k" for k
    using ok [of k] ls by (cases "k = sz") (auto simp: size_ok_def mp1_def split: option.splits)
  moreover have "block_sizes mp1 = block_sizes mp" "stub_bytes mp1 k = stub_bytes mp k" for k
    by (simp_all add: block_sizes_def stub_bytes_def mp1_def)
  ultimately have inv1: "pool_inv mp1"
    using inv by (simp add: pool_inv_def pool_shape_def) (simp add: mp1_def)
  have "pool_stub mp1 sz \<noteq> None" using ls by (simp add: mp1_def)
  from inv1 this obtain mp' where mp': "release sz mp1 = Some mp'" "pool_inv mp'" "keeps mp1 mp'"
    by (rule release_ok)
  have "owned mp1 k q \<and> heap mp1 q = heap mp q" if "owned mp k q" "q \<noteq> p" for k q
    using that ls by (auto simp: owned_def mp1_def split: option.splits)
  then have "owned mp' k q \<and> heap mp' q = heap mp q" if "owned mp k q" "q \<noteq> p" for k q
    using that mp'(3) unfolding keeps_def by metis
  moreover have "recycle p sz mp = Some (0, mp')"
    using ls mp'(1) by (simp add: recycle_def mp1_def)
  moreover have "owned mp k q \<and> q \<noteq> p" if "owned mp' k q" for k q
  proof -
    note ow = release_owned [OF mp'(1) that]
    obtain l' s' where q: "pool_free mp1 k = Some l'" "pool_stub mp1 k = Some s'" "q \<in> s'" "q \<notin> set l'"
      using ow by (auto simp: owned_def split: option.splits)
    show ?thesis
    proof (cases "k = sz")
      case True
      then show ?thesis using q ls by (auto simp: mp1_def owned_def)
    next
      case False
      then have "pool_free mp k = Some l'" "pool_stub mp k = Some s'" using q(1,2) by (simp_all add: mp1_def)
      moreover have "q \<noteq> p"
        using stub_disjoint [OF pool_inv_shape [OF inv] ls(2) calculation(2)] ls(3) q(3) False by blast
      ultimately show ?thesis using q(3,4) by (simp add: owned_def)
    qed
  qed
  ultimately show thesis using mp'(2) by (intro that [of mp']) blast+
qed

section \<open>Properties\<close>

text \<open>
  C23: The pool never aliases: on a pool in its invariant \<open>allocate\<close> terminates without tripping an
  assertion, keeps the invariant and every block already handed out with its contents, and either
  returns \<open>NULL\<close> or a block that nobody holds, strictly larger than the request.
\<close>

theorem allocate_fresh:
  assumes inv: "pool_inv mp" and sz: "unat sz < 2 ^ 31"
  shows "\<exists>r mp'. allocate sz mp = Some (r, mp') \<and> pool_inv mp' \<and> keeps mp mp' \<and>
    (\<forall>p b. r = Some (p, b) \<longrightarrow> unat sz < unat b \<and> owned mp' b p \<and> (\<forall>k. \<not> owned mp k p))"
proof -
  obtain r mp' where r: "allocate sz mp = Some (r, mp')" "pool_inv mp'" "keeps mp mp'"
    "r = None \<or> (\<exists>p b. r = Some (p, b) \<and> fit_block_size sz = Some b \<and> owned mp' b p \<and>
                     (\<forall>k. \<not> owned mp k p))"
    by (rule allocate_ok [OF inv sz])
  obtain b n where b: "fit_block_size sz = Some b" "b = push_bit n 1" "10 \<le> n" "n < 32"
    "unat b = 2 ^ n" "unat sz < unat b" by (rule fit_block_size_ok [OF sz])
  have "\<forall>p b. r = Some (p, b) \<longrightarrow> unat sz < unat b \<and> owned mp' b p \<and> (\<forall>k. \<not> owned mp k p)"
    using r(4) b(1,6) by auto
  with r(1-3) show ?thesis by blast
qed

theorem allocate_fresh_witness:
  "\<exists>r mp'. allocate 100 new_pool = Some (r, mp') \<and> pool_inv mp' \<and> keeps new_pool mp' \<and>
    (\<forall>p b. r = Some (p, b) \<longrightarrow> unat (100 :: u32) < unat b \<and> owned mp' b p \<and> (\<forall>k. \<not> owned new_pool k p))"
  by (rule allocate_fresh [OF new_pool_inv]) simp

text \<open>
  C32: Giving a block back succeeds and keeps the invariant: afterwards exactly the other blocks that were handed out
  still are, in place and with their contents, even when the pool returns memory to the heap.
\<close>

theorem recycle_isolated:
  assumes "pool_inv mp" and "owned mp sz p"
  shows "\<exists>mp'. recycle p sz mp = Some (0, mp') \<and> pool_inv mp' \<and> (\<forall>k q. owned mp' k q \<longleftrightarrow> owned mp k q \<and> q \<noteq> p) \<and>
    (\<forall>k q. owned mp' k q \<longrightarrow> heap mp' q = heap mp q)"
  by (rule recycle_ok [OF assms]) blast

definition one_block_pool :: mempool where
  "one_block_pool = \<lparr>pool_free = [1024 \<mapsto> []], pool_stub = [1024 \<mapsto> {0}], allocated_size = 1024,
     water_mark = C_MAX_WATER_MARK, heap = [0 \<mapsto> replicate 1024 None], next_addr = 1\<rparr>"

lemma one_block_pool_inv: "pool_inv one_block_pool"
proof -
  have "block_sizes one_block_pool = {1024}"
    by (auto simp: block_sizes_def one_block_pool_def split: if_splits)
  then show ?thesis
    by (simp add: pool_inv_def pool_shape_def size_ok_def stub_bytes_def one_block_pool_def)
qed

theorem recycle_isolated_witness:
  "\<exists>mp'. recycle 0 1024 one_block_pool = Some (0, mp') \<and> pool_inv mp' \<and>
    (\<forall>k q. owned mp' k q \<longleftrightarrow> owned one_block_pool k q \<and> q \<noteq> 0) \<and> (\<forall>k q. owned mp' k q \<longrightarrow> heap mp' q = heap one_block_pool q)"
  by (rule recycle_isolated [OF one_block_pool_inv]) (simp add: owned_def one_block_pool_def)

end
