(* ===== verification/RawCache.thy ===== *)
theory RawCache
  imports MemPool
begin

text \<open>
  The connection buffer \<open>CRawCache\<close> (\<open>include/cache.h\<close>, \<open>proxy/cache.cpp\<close>): a window of one pool
  block. The pool is shared by all buffers, so every operation takes it and returns it. The
  contract the connection code relies on, a queue of bytes, is the locale \<open>byte_queue\<close>; it is
  interpreted on this model at the end.
\<close>

section \<open>State and operations\<close>

record raw_cache =
  c_mem :: "addr option"
  c_block_size :: u32
  c_data_head :: u32
  c_data_len :: u32

definition new_cache :: raw_cache where
  "new_cache = \<lparr>c_mem = None, c_block_size = 0, c_data_head = 0, c_data_len = 0\<rparr>"

text \<open>\<open>data()\<close> is a pointer into the block; its value here is the address and the offset.\<close>

definition cache_data :: "raw_cache \<Rightarrow> (addr \<times> nat) option option" where
  "cache_data c =
     (if c_data_len c = 0 then Some None
      else if c_data_head c < c_block_size c
      then (case c_mem c of None \<Rightarrow> None | Some p \<Rightarrow> Some (Some (p, unat (c_data_head c))))
      else None)"

definition cache_data_len :: "raw_cache \<Rightarrow> u32" where
  "cache_data_len c = c_data_len c"

text \<open>Copies into, out of and inside the blocks of the pool.\<close>

definition store :: "addr \<Rightarrow> nat \<Rightarrow> cell list \<Rightarrow> mempool \<Rightarrow> mempool option" where
  "store p pos cs mp = do {
     b \<leftarrow> heap mp p;
     b' \<leftarrow> write_at pos cs b;
     Some (mp\<lparr>heap := (heap mp)(p \<mapsto> b')\<rparr>) }"

definition load :: "addr \<Rightarrow> nat \<Rightarrow> nat \<Rightarrow> mempool \<Rightarrow> cell list option" where
  "load p pos n mp = do { b \<leftarrow> heap mp p; read_at pos n b }"

text \<open>
  \<open>append\<close>. The result \<open>False\<close> is \<open>throw(0)\<close>, which the code does when the pool has no block.
\<close>

definition cache_append ::
    "byte list \<Rightarrow> raw_cache \<Rightarrow> mempool \<Rightarrow> (bool \<times> raw_cache \<times> mempool) option" where
  "cache_append data c mp =
     (let data_len = of_nat (length data) in
      case c_mem c of
        None \<Rightarrow> do {
          (r, mp1) \<leftarrow> allocate data_len mp;
          (case r of
             None \<Rightarrow> Some (False, c, mp1)
           | Some (p, bs) \<Rightarrow> do {
               mp2 \<leftarrow> store p 0 (map Some data) mp1;
               Some (True, \<lparr>c_mem = Some p, c_block_size = bs, c_data_head = 0,
                            c_data_len = data_len\<rparr>, mp2) }) }
      | Some mem \<Rightarrow>
          if data_len + c_data_head c + c_data_len c \<le> c_block_size c then do {
            mp1 \<leftarrow> store mem (unat (c_data_head c) + unat (c_data_len c)) (map Some data) mp;
            Some (True, c\<lparr>c_data_len := c_data_len c + data_len\<rparr>, mp1) }
          else if data_len + c_data_len c > c_block_size c then do {
            (r, mp1) \<leftarrow> allocate (data_len + c_data_len c) mp;
            (case r of
               None \<Rightarrow> Some (False, c, mp1)
             | Some (p, bs) \<Rightarrow> do {
                 old \<leftarrow> load mem (unat (c_data_head c)) (unat (c_data_len c)) mp1;
                 mp2 \<leftarrow> store p 0 old mp1;
                 mp3 \<leftarrow> store p (unat (c_data_len c)) (map Some data) mp2;
                 (_, mp4) \<leftarrow> recycle mem (c_block_size c) mp3;
                 Some (True, \<lparr>c_mem = Some p, c_block_size = bs, c_data_head = 0,
                              c_data_len = c_data_len c + data_len\<rparr>, mp4) }) }
          else do {
            old \<leftarrow> load mem (unat (c_data_head c)) (unat (c_data_len c)) mp;
            mp1 \<leftarrow> store mem 0 old mp;
            mp2 \<leftarrow> store mem (unat (c_data_len c)) (map Some data) mp1;
            Some (True, c\<lparr>c_data_head := 0, c_data_len := c_data_len c + data_len\<rparr>, mp2) })"

definition cache_skip :: "u32 \<Rightarrow> raw_cache \<Rightarrow> mempool \<Rightarrow> (raw_cache \<times> mempool) option" where
  "cache_skip n c mp =
     (case c_mem c of
        None \<Rightarrow> Some (c, mp)
      | Some mem \<Rightarrow>
          if n \<ge> c_data_len c then do {
            (_, mp1) \<leftarrow> recycle mem (c_block_size c) mp;
            Some (new_cache, mp1) }
          else Some (c\<lparr>c_data_head := c_data_head c + n, c_data_len := c_data_len c - n\<rparr>, mp))"

section \<open>The invariant and the bytes a cache holds\<close>

definition window :: "raw_cache \<Rightarrow> cell list \<Rightarrow> cell list" where
  "window c b = take (unat (c_data_len c)) (drop (unat (c_data_head c)) b)"

definition cache_inv :: "mempool \<Rightarrow> raw_cache \<Rightarrow> bool" where
  "cache_inv mp c = (case c_mem c of
     None \<Rightarrow> c = new_cache
   | Some p \<Rightarrow> owned mp (c_block_size c) p \<and>
       unat (c_data_head c) + unat (c_data_len c) \<le> unat (c_block_size c) \<and>
       unat (c_block_size c) \<le> 2 ^ 31 \<and> None \<notin> set (window c (the (heap mp p))))"

definition cache_bytes :: "mempool \<Rightarrow> raw_cache \<Rightarrow> byte list" where
  "cache_bytes mp c = (case c_mem c of
     None \<Rightarrow> [] | Some p \<Rightarrow> map the (window c (the (heap mp p))))"

text \<open>Another buffer of the same pool is not affected by operations that keep its block.\<close>

definition same_block :: "mempool \<Rightarrow> mempool \<Rightarrow> raw_cache \<Rightarrow> bool" where
  "same_block mp mp' c = (case c_mem c of
     None \<Rightarrow> True
   | Some p \<Rightarrow> owned mp' (c_block_size c) p \<and> heap mp' p = heap mp p)"

lemma cache_frame:
  "cache_inv mp c \<Longrightarrow> same_block mp mp' c \<Longrightarrow>
   cache_inv mp' c \<and> cache_bytes mp' c = cache_bytes mp c"
  by (auto simp: cache_inv_def cache_bytes_def same_block_def split: option.splits)

lemma same_block_keeps: "cache_inv mp c \<Longrightarrow> keeps mp mp' \<Longrightarrow> same_block mp mp' c"
  by (auto simp: cache_inv_def same_block_def keeps_def split: option.splits)

definition separate :: "raw_cache \<Rightarrow> raw_cache \<Rightarrow> bool" where
  "separate c d \<longleftrightarrow> c_mem c = None \<or> c_mem d = None \<or> c_mem c \<noteq> c_mem d"

lemma store_ok:
  assumes inv: "pool_inv mp" and b: "heap mp p = Some b" and room: "pos + length cs \<le> length b"
  defines "mp' \<equiv> mp\<lparr>heap := (heap mp)(p \<mapsto> take pos b @ cs @ drop (pos + length cs) b)\<rparr>"
  shows "store p pos cs mp = Some mp'" and "pool_inv mp'" and "owned mp' = owned mp"
proof -
  show "store p pos cs mp = Some mp'" using b room by (simp add: store_def buf_simps mp'_def)
  let ?b' = "take pos b @ cs @ drop (pos + length cs) b"
  have len: "length ?b' = length b" using room by simp
  have ok: "size_ok mp k" for k using inv by (simp add: pool_inv_def pool_shape_def)
  have "(\<exists>b1. heap mp' q = Some b1 \<and> length b1 = n) = (\<exists>b1. heap mp q = Some b1 \<and> length b1 = n)" for q n
    using len b by (auto simp: mp'_def)
  then have "size_ok mp' k" for k
    using ok [of k] by (simp add: size_ok_def mp'_def del: fun_upd_apply split: option.splits)
  moreover have "p < next_addr mp"
    using inv b by (auto simp: pool_inv_def pool_shape_def intro: ccontr)
  moreover have "block_sizes mp' = block_sizes mp" "stub_bytes mp' k = stub_bytes mp k" for k
    by (simp_all add: block_sizes_def stub_bytes_def mp'_def)
  ultimately show "pool_inv mp'"
    using inv by (simp add: pool_inv_def pool_shape_def) (simp add: mp'_def)
  show "owned mp' = owned mp" by (simp add: fun_eq_iff owned_def mp'_def)
qed

lemma load_ok:
  "heap mp p = Some b \<Longrightarrow> pos + n \<le> length b \<Longrightarrow> load p pos n mp = Some (take n (drop pos b))"
  by (simp add: load_def buf_simps)

lemma cache_invE:
  assumes "pool_inv mp" and "cache_inv mp c" and "c_mem c = Some p"
  obtains b where "heap mp p = Some b" "length b = unat (c_block_size c)" "owned mp (c_block_size c) p"
    "unat (c_data_head c) + unat (c_data_len c) \<le> length b" "unat (c_block_size c) \<le> 2 ^ 31"
    "None \<notin> set (window c b)" "cache_bytes mp c = map the (window c b)"
proof -
  have o: "owned mp (c_block_size c) p" using assms by (simp add: cache_inv_def)
  with pool_inv_shape [OF assms(1)] obtain b where "heap mp p = Some b" "length b = unat (c_block_size c)"
    by (rule owned_heap)
  with o assms show thesis by (intro that [of b]) (simp_all add: cache_inv_def cache_bytes_def)
qed

text \<open>The cells of a window are the bytes it holds.\<close>

lemma window_cells: "None \<notin> set cs \<Longrightarrow> map Some (map the cs) = cs"
  by (induction cs) auto

text \<open>What an operation on one buffer promises to the pool and to every other buffer of it.\<close>

definition isolated :: "raw_cache \<Rightarrow> mempool \<Rightarrow> raw_cache \<Rightarrow> mempool \<Rightarrow> bool" where
  "isolated c mp c' mp' \<longleftrightarrow> pool_inv mp' \<and> cache_inv mp' c' \<and>
     (\<forall>d. cache_inv mp d \<and> separate c d \<longrightarrow> same_block mp mp' d \<and> separate c' d)"

lemma isolatedI:
  assumes "pool_inv mp'" and "cache_inv mp' c'"
    and "\<And>d q. cache_inv mp d \<Longrightarrow> c_mem d = Some q \<Longrightarrow> c_mem c \<noteq> Some q \<Longrightarrow>
           owned mp' (c_block_size d) q \<and> heap mp' q = heap mp q \<and> c_mem c' \<noteq> Some q"
  shows "isolated c mp c' mp'"
  unfolding isolated_def
proof (intro conjI allI impI assms)
  fix d
  assume d: "cache_inv mp d \<and> separate c d"
  have "same_block mp mp' d \<and> separate c' d"
  proof (cases "c_mem d")
    case None
    then show ?thesis by (simp add: same_block_def separate_def)
  next
    case (Some q)
    with d assms(3) [of d q] show ?thesis by (auto simp: same_block_def separate_def)
  qed
  then show "same_block mp mp' d" "separate c' d" by simp_all
qed

lemma block_room:
  fixes n :: nat and c :: raw_cache
  assumes "n + unat (c_data_len c) < 2 ^ 30" and "unat (c_data_head c) + unat (c_data_len c) \<le> 2 ^ 31"
  shows "unat (of_nat n + c_data_head c + c_data_len c) = n + unat (c_data_head c) + unat (c_data_len c)"
    and "unat (of_nat n + c_data_len c) = n + unat (c_data_len c)"
    and "unat (of_nat n :: u32) = n"
proof -
  show n: "unat (of_nat n :: u32) = n" using assms(1) by (intro unat_of_nat32) simp
  have "unat (of_nat n + c_data_head c) = n + unat (c_data_head c)"
    using assms n unat_add_lem [of "of_nat n" "c_data_head c"] by simp
  then show "unat (of_nat n + c_data_head c + c_data_len c) = n + unat (c_data_head c) + unat (c_data_len c)"
    using assms unat_add_lem [of "of_nat n + c_data_head c" "c_data_len c"] by simp
  show "unat (of_nat n + c_data_len c) = n + unat (c_data_len c)"
    using assms n unat_add_lem [of "of_nat n" "c_data_len c"] by simp
qed

text \<open>The three ways to append to a buffer that has a block.\<close>

lemma append_in_place:
  assumes inv: "pool_inv mp" "cache_inv mp c" and mem: "c_mem c = Some p"
    and small: "length data + unat (c_data_len c) < 2 ^ 30"
    and fits: "of_nat (length data) + c_data_head c + c_data_len c \<le> c_block_size c"
  shows "\<exists>c' mp'. cache_append data c mp = Some (True, c', mp') \<and> isolated c mp c' mp' \<and>
    cache_bytes mp' c' = cache_bytes mp c @ data \<and>
    unat (c_data_len c') = unat (c_data_len c) + length data"
proof -
  obtain b where b: "heap mp p = Some b" "length b = unat (c_block_size c)"
    "owned mp (c_block_size c) p" "unat (c_data_head c) + unat (c_data_len c) \<le> length b"
    "unat (c_block_size c) \<le> 2 ^ 31" "None \<notin> set (window c b)" "cache_bytes mp c = map the (window c b)"
    by (rule cache_invE [OF inv mem])
  define h where "h = unat (c_data_head c)"
  define l where "l = unat (c_data_len c)"
  have hl: "unat (c_data_head c) + unat (c_data_len c) \<le> 2 ^ 31" using b by simp
  note room = block_room [OF small hl]
  have fit: "h + l + length data \<le> length b"
    using fits b(2) by (simp add: word_le_nat_alt room h_def l_def)
  note st = store_ok [OF inv(1) b(1), of "h + l" "map Some data"]
  define b' where "b' = take (h + l) b @ map Some data @ drop (h + l + length data) b"
  define mp' where "mp' = mp\<lparr>heap := (heap mp)(p \<mapsto> b')\<rparr>"
  define c' where "c' = c\<lparr>c_data_len := c_data_len c + of_nat (length data)\<rparr>"
  have l': "unat (c_data_len c') = l + length data"
    using room(2) by (simp add: c'_def l_def add.commute)
  have run: "cache_append data c mp = Some (True, c', mp')"
    using st(1) fit fits mem by (simp add: cache_append_def Let_def h_def l_def c'_def mp'_def b'_def)
  have win: "window c' b' = window c b @ map Some data"
    using fit l' unfolding window_def by (simp add: c'_def b'_def h_def [symmetric] l_def [symmetric])
      (simp add: take_drop add.commute)
  have own: "owned mp' = owned mp" "pool_inv mp'"
    using st fit by (simp_all add: mp'_def b'_def)
  with win have "cache_inv mp' c'"
    using b fit l' mem by (auto simp: cache_inv_def c'_def mp'_def h_def)
  then have "isolated c mp c' mp'"
    using own mem by (intro isolatedI) (auto simp: cache_inv_def c'_def mp'_def)
  moreover have "cache_bytes mp' c' = map the (window c' b')"
    using mem by (simp add: cache_bytes_def c'_def mp'_def)
  then have "cache_bytes mp' c' = cache_bytes mp c @ data"
    by (simp add: win b(7) comp_def)
  ultimately show ?thesis using run l' by (simp add: l_def)
qed

lemma append_shift:
  assumes inv: "pool_inv mp" "cache_inv mp c" and mem: "c_mem c = Some p"
    and small: "length data + unat (c_data_len c) < 2 ^ 30"
    and nofit: "\<not> of_nat (length data) + c_data_head c + c_data_len c \<le> c_block_size c"
    and fits: "\<not> of_nat (length data) + c_data_len c > c_block_size c"
  shows "\<exists>c' mp'. cache_append data c mp = Some (True, c', mp') \<and> isolated c mp c' mp' \<and>
    cache_bytes mp' c' = cache_bytes mp c @ data \<and>
    unat (c_data_len c') = unat (c_data_len c) + length data"
proof -
  obtain b where b: "heap mp p = Some b" "length b = unat (c_block_size c)"
    "owned mp (c_block_size c) p" "unat (c_data_head c) + unat (c_data_len c) \<le> length b"
    "unat (c_block_size c) \<le> 2 ^ 31" "None \<notin> set (window c b)" "cache_bytes mp c = map the (window c b)"
    by (rule cache_invE [OF inv mem])
  define h where "h = unat (c_data_head c)"
  define l where "l = unat (c_data_len c)"
  define w where "w = window c b"
  have hl: "unat (c_data_head c) + unat (c_data_len c) \<le> 2 ^ 31" using b by simp
  note room = block_room [OF small hl]
  have fit: "l + length data \<le> length b"
    using fits b(2) by (simp add: not_less word_le_nat_alt room l_def)
  have lw: "length w = l" using b(4) by (simp add: w_def window_def l_def)
  have ld: "load p h l mp = Some w"
    using load_ok [OF b(1), of h l] b(4) by (simp add: w_def window_def h_def l_def)
  note st1 = store_ok [OF inv(1) b(1), of 0 w]
  define b1 where "b1 = w @ drop l b"
  define mp1 where "mp1 = mp\<lparr>heap := (heap mp)(p \<mapsto> b1)\<rparr>"
  have st1: "store p 0 w mp = Some mp1" "pool_inv mp1" "owned mp1 = owned mp"
    using store_ok [OF inv(1) b(1), of 0 w] lw fit by (simp_all add: mp1_def b1_def)
  have hb1: "heap mp1 p = Some b1" "length b1 = length b"
    using lw fit by (simp_all add: mp1_def b1_def)
  define b2 where "b2 = w @ map Some data @ drop (l + length data) b"
  define mp2 where "mp2 = mp1\<lparr>heap := (heap mp1)(p \<mapsto> b2)\<rparr>"
  have st2: "store p l (map Some data) mp1 = Some mp2" "pool_inv mp2" "owned mp2 = owned mp1"
    using store_ok [OF st1(2) hb1(1), of l "map Some data"] lw fit hb1(2)
    by (simp_all add: mp2_def b2_def b1_def add.commute)
  define c' where "c' = c\<lparr>c_data_head := 0, c_data_len := c_data_len c + of_nat (length data)\<rparr>"
  have l': "unat (c_data_len c') = l + length data"
    using room(2) by (simp add: c'_def l_def add.commute)
  have run: "cache_append data c mp = Some (True, c', mp2)"
    using mem nofit fits ld st1(1) st2(1)
    by (simp add: cache_append_def Let_def h_def [symmetric] l_def [symmetric] c'_def)
  have win: "window c' b2 = w @ map Some data"
    using l' lw by (simp add: window_def c'_def b2_def)
  have "cache_inv mp2 c'"
    using b st1(3) st2(3) win fit l' mem by (auto simp: cache_inv_def c'_def mp2_def w_def)
  then have "isolated c mp c' mp2"
    using st1(3) st2 mem by (intro isolatedI) (auto simp: cache_inv_def c'_def mp2_def mp1_def)
  moreover have "cache_bytes mp2 c' = map the (window c' b2)"
    using mem by (simp add: cache_bytes_def c'_def mp2_def)
  then have "cache_bytes mp2 c' = cache_bytes mp c @ data"
    using b(7) by (simp add: win w_def comp_def)
  ultimately show ?thesis using run l' by (simp add: l_def)
qed

text \<open>The first block of a buffer, and a block handed out for a larger window.\<close>

lemma fresh_window:
  assumes inv: "pool_inv mp" and own: "owned mp bs p" and bs: "unat bs \<le> 2 ^ 31"
    and cs: "None \<notin> set cs" "length cs = unat n" "unat n \<le> unat bs"
    and b: "heap mp p = Some (cs @ r)"
  shows "cache_inv mp \<lparr>c_mem = Some p, c_block_size = bs, c_data_head = 0, c_data_len = n\<rparr>"
    and "cache_bytes mp \<lparr>c_mem = Some p, c_block_size = bs, c_data_head = 0, c_data_len = n\<rparr> = map the cs"
  using assms by (simp_all add: cache_inv_def cache_bytes_def window_def)

lemma allocate_cases:
  assumes inv: "pool_inv mp" and sz: "unat sz < 2 ^ 30"
  obtains mp' where "allocate sz mp = Some (None, mp')" "pool_inv mp'" "keeps mp mp'"
  | mp' p bs b where "allocate sz mp = Some (Some (p, bs), mp')" "pool_inv mp'" "keeps mp mp'"
    "owned mp' bs p" "\<forall>k. \<not> owned mp k p" "heap mp' p = Some b" "length b = unat bs"
    "unat sz < unat bs" "unat bs \<le> 2 ^ 31"
proof -
  have sz': "unat sz < 2 ^ 31" using sz by simp
  obtain r mp' where r: "allocate sz mp = Some (r, mp')" "pool_inv mp'" "keeps mp mp'"
    "r = None \<or> (\<exists>p b. r = Some (p, b) \<and> fit_block_size sz = Some b \<and> owned mp' b p \<and>
                     (\<forall>k. \<not> owned mp k p))"
    by (rule allocate_ok [OF inv sz'])
  obtain bs n where bs: "fit_block_size sz = Some bs" "bs = push_bit n 1" "10 \<le> n" "n < 32"
    "unat bs = 2 ^ n" "unat sz < unat bs" "unat bs \<le> max 1024 (2 * unat sz)"
    by (rule fit_block_size_ok [OF sz'])
  have le: "unat bs \<le> 2 ^ 31" using bs(7) sz by simp
  show thesis
  proof (cases r)
    case None
    then show thesis using r that(1) by blast
  next
    case (Some x)
    then obtain p where p: "r = Some (p, bs)" "owned mp' bs p" "\<forall>k. \<not> owned mp k p"
      using r(4) bs(1) by auto
    from pool_inv_shape [OF r(2)] p(2) obtain b where "heap mp' p = Some b" "length b = unat bs"
      by (rule owned_heap)
    with r p bs(6) le show thesis by (intro that(2) [of p bs mp' b]) simp_all
  qed
qed

lemma keeps_isolated:
  assumes "cache_inv mp c" and "keeps mp mp'" and "pool_inv mp'"
  shows "isolated c mp c mp' \<and> cache_bytes mp' c = cache_bytes mp c"
proof -
  have fr: "cache_inv mp' c \<and> cache_bytes mp' c = cache_bytes mp c"
    using cache_frame same_block_keeps assms(1,2) by blast
  have "isolated c mp c mp'"
    using assms fr by (intro isolatedI) (auto simp: cache_inv_def keeps_def)
  with fr show ?thesis by blast
qed

lemma append_first:
  assumes inv: "pool_inv mp" "cache_inv mp c" and mem: "c_mem c = None"
    and small: "length data < 2 ^ 30"
  shows "\<exists>ok c' mp'. cache_append data c mp = Some (ok, c', mp') \<and> isolated c mp c' mp' \<and>
    (if ok then cache_bytes mp' c' = cache_bytes mp c @ data \<and> unat (c_data_len c') = length data
     else c' = c \<and> cache_bytes mp' c' = cache_bytes mp c)"
proof -
  have n: "unat (of_nat (length data) :: u32) = length data" using small by (intro unat_of_nat32) simp
  have n30: "unat (of_nat (length data) :: u32) < 2 ^ 30" using small by (simp only: n)
  from inv(1) n30 show ?thesis
  proof (rule allocate_cases)
    fix mp'
    assume a: "allocate (of_nat (length data)) mp = Some (None, mp')" "pool_inv mp'" "keeps mp mp'"
    then have "cache_append data c mp = Some (False, c, mp')" using mem by (simp add: cache_append_def)
    with keeps_isolated [OF inv(2) a(3,2)] show ?thesis by auto
  next
    fix mp1 p bs b
    assume a: "allocate (of_nat (length data)) mp = Some (Some (p, bs), mp1)" "pool_inv mp1"
      "keeps mp mp1" "owned mp1 bs p" "\<forall>k. \<not> owned mp k p" "heap mp1 p = Some b"
      "length b = unat bs" "unat (of_nat (length data) :: u32) < unat bs" "unat bs \<le> 2 ^ 31"
    have lt: "length data < length b" using a(7,8) by (simp only: n)
    define r where "r = drop (length data) b"
    define mp2 where "mp2 = mp1\<lparr>heap := (heap mp1)(p \<mapsto> map Some data @ r)\<rparr>"
    have st: "store p 0 (map Some data) mp1 = Some mp2" "pool_inv mp2" "owned mp2 = owned mp1"
      using store_ok [OF a(2,6), of 0 "map Some data"] lt by (simp_all add: mp2_def r_def)
    define c' where "c' = \<lparr>c_mem = Some p, c_block_size = bs, c_data_head = 0,
      c_data_len = of_nat (length data)\<rparr>"
    have run: "cache_append data c mp = Some (True, c', mp2)"
      using mem a(1) st(1) by (simp add: cache_append_def c'_def)
    have o2: "owned mp2 bs p" using st(3) a(4) by simp
    have cs: "None \<notin> set (map Some data)"
      "length (map Some data) = unat (of_nat (length data) :: u32)" by (auto simp: n)
    have le: "unat (of_nat (length data) :: u32) \<le> unat bs" using a(8) by simp
    have hb: "heap mp2 p = Some (map Some data @ r)" by (simp add: mp2_def)
    note w = fresh_window [OF st(2) o2 a(9) cs le hb, folded c'_def]
    have "isolated c mp c' mp2"
      using st w(1) a(3,5)
      by (intro isolatedI) (auto simp: cache_inv_def keeps_def c'_def mp2_def)
    moreover have "cache_bytes mp2 c' = cache_bytes mp c @ data"
      using mem w(2) by (simp add: cache_bytes_def [of mp] comp_def)
    ultimately show ?thesis using run by (auto simp: c'_def n)
  qed
qed

lemma append_grow:
  assumes inv: "pool_inv mp" "cache_inv mp c" and mem: "c_mem c = Some p"
    and small: "length data + unat (c_data_len c) < 2 ^ 30"
    and nofit: "\<not> of_nat (length data) + c_data_head c + c_data_len c \<le> c_block_size c"
    and grow: "of_nat (length data) + c_data_len c > c_block_size c"
  shows "\<exists>ok c' mp'. cache_append data c mp = Some (ok, c', mp') \<and> isolated c mp c' mp' \<and>
    (if ok then cache_bytes mp' c' = cache_bytes mp c @ data \<and>
       unat (c_data_len c') = unat (c_data_len c) + length data
     else c' = c \<and> cache_bytes mp' c' = cache_bytes mp c)"
proof -
  obtain b where b: "heap mp p = Some b" "length b = unat (c_block_size c)"
    "owned mp (c_block_size c) p" "unat (c_data_head c) + unat (c_data_len c) \<le> length b"
    "unat (c_block_size c) \<le> 2 ^ 31" "None \<notin> set (window c b)" "cache_bytes mp c = map the (window c b)"
    by (rule cache_invE [OF inv mem])
  have hl: "unat (c_data_head c) + unat (c_data_len c) \<le> 2 ^ 31" using b by simp
  note room = block_room [OF small hl]
  define l where "l = unat (c_data_len c)"
  define w where "w = window c b"
  have lw: "length w = l" using b(4) by (simp add: w_def window_def l_def)
  have n30: "unat (of_nat (length data) + c_data_len c) < 2 ^ 30" using small by (simp only: room(2))
  from inv(1) n30 show ?thesis
  proof (rule allocate_cases)
    fix mp'
    assume a: "allocate (of_nat (length data) + c_data_len c) mp = Some (None, mp')" "pool_inv mp'"
      "keeps mp mp'"
    then have "cache_append data c mp = Some (False, c, mp')"
      using mem nofit grow by (simp add: cache_append_def Let_def)
    with keeps_isolated [OF inv(2) a(3,2)] show ?thesis by auto
  next
    fix mp1 q bs b1
    assume a: "allocate (of_nat (length data) + c_data_len c) mp = Some (Some (q, bs), mp1)"
      "pool_inv mp1" "keeps mp mp1" "owned mp1 bs q" "\<forall>k. \<not> owned mp k q" "heap mp1 q = Some b1"
      "length b1 = unat bs" "unat (of_nat (length data) + c_data_len c) < unat bs" "unat bs \<le> 2 ^ 31"
    have pq: "p \<noteq> q" using a(5) b(3) by auto
    have lt: "l + length data < length b1" using a(7,8) by (simp add: room(2) l_def)
    have p1: "owned mp1 (c_block_size c) p" "heap mp1 p = Some b" using a(3) b(1,3) by (auto simp: keeps_def)
    have ld: "load p (unat (c_data_head c)) l mp1 = Some w"
      using load_ok [OF p1(2)] b(4) by (simp add: w_def window_def l_def)
    define b2 where "b2 = w @ drop l b1"
    define mp2 where "mp2 = mp1\<lparr>heap := (heap mp1)(q \<mapsto> b2)\<rparr>"
    have st2: "store q 0 w mp1 = Some mp2" "pool_inv mp2" "owned mp2 = owned mp1"
      using store_ok [OF a(2,6), of 0 w] lt lw by (simp_all add: mp2_def b2_def)
    have h2: "heap mp2 q = Some b2" by (simp add: mp2_def)
    define r where "r = drop (l + length data) b1"
    define mp3 where "mp3 = mp2\<lparr>heap := (heap mp2)(q \<mapsto> (w @ map Some data) @ r)\<rparr>"
    have st3: "store q l (map Some data) mp2 = Some mp3" "pool_inv mp3" "owned mp3 = owned mp2"
      using store_ok [OF st2(2) h2, of l "map Some data"] lt lw
      by (simp_all add: mp3_def b2_def r_def add.commute)
    have "owned mp3 (c_block_size c) p" using st2(3) st3(3) p1 by simp
    from st3(2) this obtain mp4 where rc: "recycle p (c_block_size c) mp3 = Some (0, mp4)" "pool_inv mp4"
      "\<forall>k x. owned mp3 k x \<and> x \<noteq> p \<longrightarrow> owned mp4 k x \<and> heap mp4 x = heap mp3 x"
      by (rule recycle_ok)
    define c' where "c' = \<lparr>c_mem = Some q, c_block_size = bs, c_data_head = 0,
      c_data_len = of_nat (length data) + c_data_len c\<rparr>"
    have run: "cache_append data c mp = Some (True, c', mp4)"
      using mem nofit grow a(1) ld st2(1) st3(1) rc(1)
      by (simp add: cache_append_def Let_def l_def [symmetric] c'_def add.commute)
    have q4: "owned mp4 bs q" "heap mp4 q = Some ((w @ map Some data) @ r)"
      using rc(3) pq a(4) st2(3) st3(3) by (auto simp: mp3_def)
    have cs: "None \<notin> set (w @ map Some data)"
      "length (w @ map Some data) = unat (of_nat (length data) + c_data_len c)"
      using b(6) lw by (auto simp: w_def room(2) l_def)
    have le: "unat (of_nat (length data) + c_data_len c) \<le> unat bs" using a(8) by simp
    note win = fresh_window [OF rc(2) q4(1) a(9) cs le q4(2), folded c'_def]
    have old: "owned mp4 k x \<and> heap mp4 x = heap mp x" if "owned mp k x" "x \<noteq> p" for k x
    proof -
      have "owned mp1 k x \<and> heap mp1 x = heap mp x" "x \<noteq> q"
        using that(1) a(3,5) by (auto simp: keeps_def)
      then show ?thesis using rc(3) that(2) st2(3) st3(3) by (auto simp: mp3_def mp2_def)
    qed
    have "isolated c mp c' mp4"
      using rc(2) win(1) a(5) mem old
      by (intro isolatedI) (auto simp: cache_inv_def c'_def)
    moreover have "cache_bytes mp4 c' = cache_bytes mp c @ data"
      using win(2) b(7) by (simp add: w_def comp_def)
    ultimately show ?thesis using run by (auto simp: c'_def room(2))
  qed
qed

lemma append_ok:
  assumes inv: "pool_inv mp" "cache_inv mp c"
    and small: "length data + unat (c_data_len c) < 2 ^ 30"
  obtains ok c' mp' where "cache_append data c mp = Some (ok, c', mp')" "isolated c mp c' mp'"
    "cache_bytes mp' c' = (if ok then cache_bytes mp c @ data else cache_bytes mp c)"
    "unat (c_data_len c') = (if ok then unat (c_data_len c) + length data else unat (c_data_len c))"
proof (cases "c_mem c")
  case None
  then have "c_data_len c = 0" using inv by (simp add: cache_inv_def new_cache_def)
  have "length data < 2 ^ 30" using small by simp
  from append_first [OF inv None this] obtain ok c' mp' where a: "cache_append data c mp = Some (ok, c', mp')"
    "isolated c mp c' mp'"
    "if ok then cache_bytes mp' c' = cache_bytes mp c @ data \<and> unat (c_data_len c') = length data
     else c' = c \<and> cache_bytes mp' c' = cache_bytes mp c" by blast
  show thesis
    by (rule that [OF a(1,2)]) (use a(3) \<open>c_data_len c = 0\<close> in \<open>auto split: if_splits\<close>)
next
  case (Some p)
  show thesis
  proof (cases "of_nat (length data) + c_data_head c + c_data_len c \<le> c_block_size c")
    case True
    from append_in_place [OF inv Some small True] obtain c' mp' where
      a: "cache_append data c mp = Some (True, c', mp')" "isolated c mp c' mp'"
      "cache_bytes mp' c' = cache_bytes mp c @ data"
      "unat (c_data_len c') = unat (c_data_len c) + length data" by blast
    show thesis by (rule that [OF a(1,2)]) (simp_all add: a(3,4))
  next
    case nofit: False
    show thesis
    proof (cases "of_nat (length data) + c_data_len c > c_block_size c")
      case True
      from append_grow [OF inv Some small nofit True] obtain ok c' mp' where
        a: "cache_append data c mp = Some (ok, c', mp')" "isolated c mp c' mp'"
        "if ok then cache_bytes mp' c' = cache_bytes mp c @ data \<and>
           unat (c_data_len c') = unat (c_data_len c) + length data
         else c' = c \<and> cache_bytes mp' c' = cache_bytes mp c" by blast
      show thesis by (rule that [OF a(1,2)]) (use a(3) in \<open>auto split: if_splits\<close>)
    next
      case False
      from append_shift [OF inv Some small nofit False] obtain c' mp' where
        a: "cache_append data c mp = Some (True, c', mp')" "isolated c mp c' mp'"
        "cache_bytes mp' c' = cache_bytes mp c @ data"
        "unat (c_data_len c') = unat (c_data_len c) + length data" by blast
      show thesis by (rule that [OF a(1,2)]) (simp_all add: a(3,4))
    qed
  qed
qed

lemma skip_ok:
  assumes inv: "pool_inv mp" "cache_inv mp c"
  obtains c' mp' where "cache_skip n c mp = Some (c', mp')" "isolated c mp c' mp'"
    "cache_bytes mp' c' = drop (unat n) (cache_bytes mp c)"
    "unat (c_data_len c') = unat (c_data_len c) - unat n"
proof (cases "c_mem c")
  case None
  then have "c = new_cache" using inv by (simp add: cache_inv_def)
  then show thesis
    using that [of c mp] keeps_isolated [OF inv(2) keeps_refl inv(1)] None
    by (simp add: cache_skip_def cache_bytes_def new_cache_def)
next
  case (Some p)
  obtain b where b: "heap mp p = Some b" "length b = unat (c_block_size c)"
    "owned mp (c_block_size c) p" "unat (c_data_head c) + unat (c_data_len c) \<le> length b"
    "unat (c_block_size c) \<le> 2 ^ 31" "None \<notin> set (window c b)" "cache_bytes mp c = map the (window c b)"
    by (rule cache_invE [OF inv Some])
  have lw: "length (window c b) = unat (c_data_len c)" using b(4) by (simp add: window_def)
  show thesis
  proof (cases "n \<ge> c_data_len c")
    case True
    obtain mp' where rc: "recycle p (c_block_size c) mp = Some (0, mp')" "pool_inv mp'"
      "\<forall>k q. owned mp k q \<and> q \<noteq> p \<longrightarrow> owned mp' k q \<and> heap mp' q = heap mp q"
      by (rule recycle_ok [OF inv(1) b(3)])
    have "isolated c mp new_cache mp'"
      using rc Some by (intro isolatedI) (auto simp: cache_inv_def new_cache_def)
    moreover have "cache_skip n c mp = Some (new_cache, mp')" using Some True rc(1) by (simp add: cache_skip_def)
    moreover have "drop (unat n) (cache_bytes mp c) = []"
      using True lw b(7) by (simp add: word_le_nat_alt)
    moreover have "unat (c_data_len c) - unat n = 0" using True by (simp add: word_le_nat_alt)
    ultimately show thesis
      by (intro that [of new_cache mp']) (simp_all add: cache_bytes_def new_cache_def)
  next
    case False
    then have lt: "unat n < unat (c_data_len c)" by (simp add: not_le word_less_nat_alt)
    define c' where "c' = c\<lparr>c_data_head := c_data_head c + n, c_data_len := c_data_len c - n\<rparr>"
    have l': "unat (c_data_len c') = unat (c_data_len c) - unat n"
      using False by (simp add: c'_def unat_sub)
    have h': "unat (c_data_head c') = unat (c_data_head c) + unat n"
      using b(2,4,5) lt unat_add_lem [of "c_data_head c" n] by (simp add: c'_def)
    have win: "window c' b = drop (unat n) (window c b)"
      using lt by (simp add: window_def l' h' drop_take add.commute)
    have "cache_inv mp c'"
      using b Some lt l' h' win
      by (auto simp: cache_inv_def c'_def [THEN arg_cong [where f = c_mem]]
          c'_def [THEN arg_cong [where f = c_block_size]] dest: in_set_dropD)
    then have "isolated c mp c' mp"
      using inv Some by (intro isolatedI) (auto simp: cache_inv_def c'_def)
    moreover have "cache_bytes mp c' = map the (window c' b)"
      using Some b(1) by (simp add: cache_bytes_def) (simp add: c'_def)
    ultimately show thesis
      using that [of c' mp] Some False l' b(7) by (simp add: cache_skip_def c'_def [symmetric] win drop_map)
  qed
qed

lemma length_cache_bytes:
  assumes inv: "pool_inv mp" "cache_inv mp c"
  shows "length (cache_bytes mp c) = unat (c_data_len c)"
proof (cases "c_mem c")
  case None
  then show ?thesis using inv by (simp add: cache_inv_def cache_bytes_def new_cache_def)
next
  case (Some p)
  from cache_invE [OF inv Some] obtain b where "unat (c_data_head c) + unat (c_data_len c) \<le> length b"
    "cache_bytes mp c = map the (window c b)" by blast
  then show ?thesis by (simp add: window_def)
qed

text \<open>\<open>data()\<close> passes its assertion and points at the bytes the buffer holds.\<close>

lemma cache_data_ok:
  assumes inv: "pool_inv mp" "cache_inv mp c" and ne: "cache_bytes mp c \<noteq> []"
  shows "\<exists>p off b. cache_data c = Some (Some (p, off)) \<and> heap mp p = Some b \<and>
    read_at off (unat (cache_data_len c)) b = Some (map Some (cache_bytes mp c))"
proof -
  obtain p where p: "c_mem c = Some p" using ne by (cases "c_mem c") (simp_all add: cache_bytes_def)
  obtain b where b: "heap mp p = Some b" "length b = unat (c_block_size c)"
    "owned mp (c_block_size c) p" "unat (c_data_head c) + unat (c_data_len c) \<le> length b"
    "unat (c_block_size c) \<le> 2 ^ 31" "None \<notin> set (window c b)" "cache_bytes mp c = map the (window c b)"
    by (rule cache_invE [OF inv p])
  have l: "0 < unat (c_data_len c)" using ne length_cache_bytes [OF inv] by (cases "cache_bytes mp c") auto
  then have "c_data_len c \<noteq> 0" "c_data_head c < c_block_size c"
    using b(2,4) by (auto simp: word_less_nat_alt)
  then have "cache_data c = Some (Some (p, unat (c_data_head c)))"
    by (simp add: cache_data_def p)
  moreover have "read_at (unat (c_data_head c)) (unat (cache_data_len c)) b = Some (window c b)"
    using b(4) by (simp add: read_at_def window_def cache_data_len_def)
  moreover have "map Some (cache_bytes mp c) = window c b"
    using window_cells [OF b(6)] b(7) by simp
  ultimately show ?thesis using b(1) by auto
qed

section \<open>The contract of a buffer\<close>

text \<open>
  A byte queue: what its clients call (\<open>enq\<close> may refuse, \<open>deq\<close> drops up to \<open>n\<close> bytes) and what
  they may rely on. Its lemma follows whole sequences of operations, the way a connection feeds
  received chunks in and takes complete packets out.
\<close>

datatype queue_op = Put "byte list" | Take u32

primrec run_queue ::
    "(byte list \<Rightarrow> 's \<Rightarrow> (bool \<times> 's) option) \<Rightarrow> (u32 \<Rightarrow> 's \<Rightarrow> 's option) \<Rightarrow>
     queue_op list \<Rightarrow> 's \<Rightarrow> (bool list \<times> 's) option" where
  "run_queue enq deq [] s = Some ([], s)"
| "run_queue enq deq (x # xs) s =
     (case x of
        Put d \<Rightarrow> do {
          (r, s1) \<leftarrow> enq d s;
          (rs, s2) \<leftarrow> run_queue enq deq xs s1;
          Some (r # rs, s2) }
      | Take n \<Rightarrow> do { s1 \<leftarrow> deq n s; run_queue enq deq xs s1 })"

text \<open>The bytes after the operations, given which \<open>Put\<close>s were accepted.\<close>

fun spec_queue :: "queue_op list \<Rightarrow> bool list \<Rightarrow> byte list \<Rightarrow> byte list" where
  "spec_queue (Put d # xs) (r # rs) bs = spec_queue xs rs (if r then bs @ d else bs)"
| "spec_queue (Take n # xs) rs bs = spec_queue xs rs (drop (unat n) bs)"
| "spec_queue _ _ bs = bs"

fun put_bytes :: "queue_op list \<Rightarrow> nat" where
  "put_bytes [] = 0"
| "put_bytes (Put d # xs) = length d + put_bytes xs"
| "put_bytes (Take n # xs) = put_bytes xs"

locale byte_queue =
  fixes good :: "'s \<Rightarrow> bool"
    and bytes :: "'s \<Rightarrow> byte list"
    and enq :: "byte list \<Rightarrow> 's \<Rightarrow> (bool \<times> 's) option"
    and deq :: "u32 \<Rightarrow> 's \<Rightarrow> 's option"
  assumes enq_law: "good s \<Longrightarrow> length d + length (bytes s) < 2 ^ 30 \<Longrightarrow>
      \<exists>r s'. enq d s = Some (r, s') \<and> good s' \<and> bytes s' = (if r then bytes s @ d else bytes s)"
    and deq_law: "good s \<Longrightarrow> \<exists>s'. deq n s = Some s' \<and> good s' \<and> bytes s' = drop (unat n) (bytes s)"
begin

lemma run_refines:
  assumes "good s" and "put_bytes xs + length (bytes s) < 2 ^ 30"
  shows "\<exists>rs s'. run_queue enq deq xs s = Some (rs, s') \<and> good s' \<and>
           bytes s' = spec_queue xs rs (bytes s)"
  using assms
proof (induction xs arbitrary: s)
  case Nil
  then show ?case by simp
next
  case (Cons x xs)
  show ?case
  proof (cases x)
    case (Put d)
    then have "length d + length (bytes s) < 2 ^ 30" using Cons.prems by simp
    from enq_law [OF Cons.prems(1) this] obtain r s1 where s1: "enq d s = Some (r, s1)" "good s1"
      "bytes s1 = (if r then bytes s @ d else bytes s)" by blast
    then have "put_bytes xs + length (bytes s1) < 2 ^ 30" using Cons.prems(2) Put by (cases r) simp_all
    from Cons.IH [OF s1(2) this] obtain rs s' where "run_queue enq deq xs s1 = Some (rs, s')" "good s'"
      "bytes s' = spec_queue xs rs (bytes s1)" by blast
    then show ?thesis using Put s1 by simp
  next
    case (Take n)
    from deq_law [OF Cons.prems(1)] obtain s1 where s1: "deq n s = Some s1" "good s1"
      "bytes s1 = drop (unat n) (bytes s)" by blast
    then have "put_bytes xs + length (bytes s1) < 2 ^ 30" using Cons.prems(2) Take by simp
    from Cons.IH [OF s1(2) this] show ?thesis using Take s1 by simp
  qed
qed

end

section \<open>The buffer is a byte queue\<close>

definition cache_good :: "raw_cache \<times> mempool \<Rightarrow> bool" where
  "cache_good s \<longleftrightarrow> pool_inv (snd s) \<and> cache_inv (snd s) (fst s)"

definition cache_contents :: "raw_cache \<times> mempool \<Rightarrow> byte list" where
  "cache_contents s = cache_bytes (snd s) (fst s)"

definition cache_enq :: "byte list \<Rightarrow> raw_cache \<times> mempool \<Rightarrow> (bool \<times> raw_cache \<times> mempool) option" where
  "cache_enq d s = cache_append d (fst s) (snd s)"

definition cache_deq :: "u32 \<Rightarrow> raw_cache \<times> mempool \<Rightarrow> (raw_cache \<times> mempool) option" where
  "cache_deq n s = cache_skip n (fst s) (snd s)"

lemma isolated_good: "isolated c mp c' mp' \<Longrightarrow> cache_good (c', mp')"
  by (simp add: isolated_def cache_good_def)

interpretation cache: byte_queue cache_good cache_contents cache_enq cache_deq
proof unfold_locales
  fix s and d :: "byte list"
  assume g: "cache_good s" and len: "length d + length (cache_contents s) < 2 ^ 30"
  have inv: "pool_inv (snd s)" "cache_inv (snd s) (fst s)" using g by (simp_all add: cache_good_def)
  have "length d + unat (c_data_len (fst s)) < 2 ^ 30"
    using len length_cache_bytes [OF inv] by (simp add: cache_contents_def)
  from inv this obtain r c' mp' where "cache_append d (fst s) (snd s) = Some (r, c', mp')"
    "isolated (fst s) (snd s) c' mp'"
    "cache_bytes mp' c' = (if r then cache_bytes (snd s) (fst s) @ d else cache_bytes (snd s) (fst s))"
    "unat (c_data_len c') = (if r then unat (c_data_len (fst s)) + length d else unat (c_data_len (fst s)))"
    by (rule append_ok)
  then show "\<exists>r s'. cache_enq d s = Some (r, s') \<and> cache_good s' \<and>
      cache_contents s' = (if r then cache_contents s @ d else cache_contents s)"
    using isolated_good by (intro exI [of _ r] exI [of _ "(c', mp')"])
      (simp add: cache_enq_def cache_contents_def)
next
  fix s n
  assume g: "cache_good s"
  then have inv: "pool_inv (snd s)" "cache_inv (snd s) (fst s)" by (simp_all add: cache_good_def)
  obtain c' mp' where "cache_skip n (fst s) (snd s) = Some (c', mp')" "isolated (fst s) (snd s) c' mp'"
    "cache_bytes mp' c' = drop (unat n) (cache_bytes (snd s) (fst s))"
    "unat (c_data_len c') = unat (c_data_len (fst s)) - unat n" by (rule skip_ok [OF inv])
  then show "\<exists>s'. cache_deq n s = Some s' \<and> cache_good s' \<and>
      cache_contents s' = drop (unat n) (cache_contents s)"
    using isolated_good by (intro exI [of _ "(c', mp')"]) (simp add: cache_deq_def cache_contents_def)
qed

section \<open>Properties\<close>

text \<open>
  Appending to a buffer appends to the bytes it holds, in every one of the code's four ways to
  do it (or changes nothing when the pool is exhausted), keeps the invariants of pool and buffer,
  and leaves every other buffer of the pool with its own block and contents.
\<close>

theorem append_queue:
  assumes inv: "pool_inv mp" "cache_inv mp c"
    and small: "length data + unat (c_data_len c) < 2 ^ 30"
  shows "\<exists>ok c' mp'. cache_append data c mp = Some (ok, c', mp') \<and> pool_inv mp' \<and> cache_inv mp' c' \<and>
    cache_bytes mp' c' = (if ok then cache_bytes mp c @ data else cache_bytes mp c) \<and>
    (\<forall>d. cache_inv mp d \<and> separate c d \<longrightarrow>
       cache_inv mp' d \<and> cache_bytes mp' d = cache_bytes mp d \<and> separate c' d)"
proof -
  obtain ok c' mp' where a: "cache_append data c mp = Some (ok, c', mp')" "isolated c mp c' mp'"
    "cache_bytes mp' c' = (if ok then cache_bytes mp c @ data else cache_bytes mp c)"
    by (rule append_ok [OF inv small])
  have others: "cache_inv mp' d \<and> cache_bytes mp' d = cache_bytes mp d \<and> separate c' d"
    if "cache_inv mp d" "separate c d" for d
    using a(2) cache_frame [OF that(1)] that by (simp add: isolated_def)
  have "pool_inv mp'" "cache_inv mp' c'" using a(2) by (simp_all add: isolated_def)
  with a(1,3) others show ?thesis by blast
qed

definition held_cache :: raw_cache where
  "held_cache = \<lparr>c_mem = Some 0, c_block_size = 1024, c_data_head = 1023, c_data_len = 0\<rparr>"

lemma held_cache_inv: "cache_inv one_block_pool held_cache"
  by (simp add: cache_inv_def held_cache_def owned_def one_block_pool_def window_def)

theorem append_queue_witness:
  "\<exists>ok c' mp'. cache_append [1, 2] held_cache one_block_pool = Some (ok, c', mp') \<and> pool_inv mp' \<and>
    cache_inv mp' c' \<and>
    cache_bytes mp' c' = (if ok then cache_bytes one_block_pool held_cache @ [1, 2]
                          else cache_bytes one_block_pool held_cache) \<and>
    (\<forall>d. cache_inv one_block_pool d \<and> separate held_cache d \<longrightarrow>
       cache_inv mp' d \<and> cache_bytes mp' d = cache_bytes one_block_pool d \<and> separate c' d)"
  by (rule append_queue [OF one_block_pool_inv held_cache_inv]) (simp add: held_cache_def)

text \<open>
  C14: Any sequence of appends and skips on a buffer behaves like the same sequence on a list of
  bytes: no operation fails an assertion or leaves its block, and the final contents are those of
  the list, whichever appends the pool refused.
\<close>

theorem buffer_refines_list:
  assumes "pool_inv mp" and "cache_inv mp c" and "put_bytes ops + unat (c_data_len c) < 2 ^ 30"
  shows "\<exists>rs c' mp'. run_queue cache_enq cache_deq ops (c, mp) = Some (rs, c', mp') \<and>
    pool_inv mp' \<and> cache_inv mp' c' \<and> cache_bytes mp' c' = spec_queue ops rs (cache_bytes mp c)"
  using cache.run_refines [of "(c, mp)" ops] assms
  by (simp add: cache_good_def cache_contents_def length_cache_bytes)

theorem buffer_refines_list_witness:
  "\<exists>rs c' mp'. run_queue cache_enq cache_deq [Put [1, 2], Take 1] (new_cache, new_pool) = Some (rs, c', mp') \<and>
    pool_inv mp' \<and> cache_inv mp' c' \<and>
    cache_bytes mp' c' = spec_queue [Put [1, 2], Take 1] rs (cache_bytes new_pool new_cache)"
  by (rule buffer_refines_list [OF new_pool_inv]) (simp_all add: cache_inv_def new_cache_def)

end
