(* ===== verification/Mysql.thy ===== *)
theory Mysql
  imports CText Services
begin

text \<open>
  \<open>CMysqlHelper\<close> and \<open>CMysqlResult\<close>, the wrappers of \<open>OrderDbSync/src/MysqlHelper.cc\<close> (\<open>db_\<close>) and
  \<open>OrderSyncClient/src/MysqlHelper.cc\<close> (\<open>cl_\<close>) around the MySQL C library, which is the parameter
  \<open>mysql\<close>: its functions act on the state \<open>'w\<close>, which holds the connection and the database. A
  stored result is its list of rows, a column is \<open>None\<close> for \<open>NULL\<close>. Freeing a result has no effect
  on the model.
\<close>

type_synonym row = "byte list option list"

record 'w mysql =
  my_ping :: "'w \<Rightarrow> int \<times> 'w"
  my_close :: "'w \<Rightarrow> 'w"
  my_real_connect :: "'w \<Rightarrow> byte list \<Rightarrow> byte list \<Rightarrow> byte list \<Rightarrow> u32 \<Rightarrow> bool \<times> 'w"
  my_select_db :: "'w \<Rightarrow> byte list \<Rightarrow> int \<times> 'w"
  my_query :: "'w \<Rightarrow> byte list \<Rightarrow> int \<times> 'w"
  my_store_result :: "'w \<Rightarrow> row list option \<times> 'w"
  my_next_result :: "'w \<Rightarrow> int \<times> 'w"
  my_affected_rows :: "'w \<Rightarrow> u64"
  my_num_rows :: "row list \<Rightarrow> u64"

record mysql_helper =
  m_host :: "byte list"
  m_port :: u32
  m_user :: "byte list"
  m_passwd :: "byte list"

section \<open>The helper of the database writer\<close>

definition db_mysql_Connect :: "'w mysql \<Rightarrow> mysql_helper \<Rightarrow> 'w \<Rightarrow> int \<times> 'w" where
  "db_mysql_Connect api m w =
     (let (ok, w1) = my_real_connect api w (c_str (m_host m)) (c_str (m_user m)) (c_str (m_passwd m)) (m_port m)
      in (if ok then 0 else - 1, w1))"

definition db_UseDB :: "'w mysql \<Rightarrow> byte list \<Rightarrow> 'w \<Rightarrow> int \<times> 'w" where
  "db_UseDB api name w = my_select_db api w (c_str name)"

definition db_ExecuteQuery :: "'w mysql \<Rightarrow> byte list \<Rightarrow> 'w \<Rightarrow> row list option \<times> 'w" where
  "db_ExecuteQuery api sql w =
     (let (r, w1) = my_query api w (c_str sql)
      in if r \<noteq> 0 then (None, w1)
         else (let (res, w2) = my_store_result api w1;
                   (n, w3) = my_next_result api w2;
                   w4 = (if n = 0 then snd (my_store_result api w3) else w3)
               in (res, w4)))"

definition db_ExecuteNonQuery :: "'w mysql \<Rightarrow> byte list \<Rightarrow> 'w \<Rightarrow> int \<times> 'w" where
  "db_ExecuteNonQuery api sql w =
     (let (r, w1) = my_query api w (c_str sql)
      in if r = 0
         then (let (res, w2) = my_store_result api w1
               in if res \<noteq> None then (sint (ucast (my_affected_rows api w2) :: u32), w2) else (0, w2))
         else (- 1, w1))"

definition db_IsConnected :: "'w mysql \<Rightarrow> 'w \<Rightarrow> bool \<times> 'w" where
  "db_IsConnected api w = (let (r, w1) = my_ping api w in (r = 0, w1))"

section \<open>The helper of the client\<close>

definition cl_mysql_Connect :: "'w mysql \<Rightarrow> mysql_helper \<Rightarrow> 'w \<Rightarrow> int \<times> 'w" where
  "cl_mysql_Connect api m w =
     (let w0 = my_close api w;
          (ok, w1) = my_real_connect api w0 (c_str (m_host m)) (c_str (m_user m)) (c_str (m_passwd m)) (m_port m)
      in (if ok then 0 else - 1, w1))"

definition cl_UseDB :: "'w mysql \<Rightarrow> byte list \<Rightarrow> 'w \<Rightarrow> int \<times> 'w" where
  "cl_UseDB api name w = my_select_db api w (c_str name)"

definition cl_ExecuteQuery :: "'w mysql \<Rightarrow> byte list \<Rightarrow> 'w \<Rightarrow> row list option \<times> 'w" where
  "cl_ExecuteQuery api sql w =
     (let (r, w1) = my_query api w (c_str sql)
      in if r \<noteq> 0 then (None, w1)
         else (let (res, w2) = my_store_result api w1;
                   (n, w3) = my_next_result api w2;
                   w4 = (if n = 0 then snd (my_store_result api w3) else w3)
               in (res, w4)))"

definition cl_ExecuteNonQuery :: "'w mysql \<Rightarrow> byte list \<Rightarrow> 'w \<Rightarrow> u64 \<times> 'w" where
  "cl_ExecuteNonQuery api sql w =
     (let (r, w1) = my_query api w (c_str sql)
      in if r = 0
         then (let (res, w2) = my_store_result api w1
               in if res \<noteq> None
                  then (scast (ucast (my_affected_rows api w2) :: u32), w2) else (0, w2))
         else (- 1, w1))"

definition cl_IsConnected :: "'w mysql \<Rightarrow> 'w \<Rightarrow> bool \<times> 'w" where
  "cl_IsConnected api w = (let (r, w1) = my_ping api w in (r = 0, w1))"

section \<open>Results\<close>

text \<open>
  A result is the rows not fetched yet and the current one, \<open>None\<close> before the first fetch and when
  the rows are used up. The getters take a column of the current row: \<open>None\<close> where they would
  dereference \<open>NULL\<close> or leave the row.
\<close>

record mysql_result =
  r_rows :: "row list"
  r_row :: "row option"

definition new_result :: "row list \<Rightarrow> mysql_result" where
  "new_result rows = \<lparr>r_rows = rows, r_row = None\<rparr>"

definition HasNext :: "mysql_result \<Rightarrow> bool \<times> mysql_result" where
  "HasNext r = (case r_rows r of
     [] \<Rightarrow> (False, r\<lparr>r_row := None\<rparr>)
   | x # xs \<Rightarrow> (True, r\<lparr>r_rows := xs, r_row := Some x\<rparr>))"

definition GetRows :: "'w mysql \<Rightarrow> row list \<Rightarrow> int" where
  "GetRows api rows = sint (ucast (my_num_rows api rows) :: u32)"

definition GetChar :: "mysql_result \<Rightarrow> nat \<Rightarrow> byte list option option" where
  "GetChar r col = (case r_row r of
     None \<Rightarrow> None
   | Some x \<Rightarrow> if col < length x then Some (x ! col) else None)"

definition GetInt :: "mysql_result \<Rightarrow> nat \<Rightarrow> int option" where
  "GetInt r col = do { c \<leftarrow> GetChar r col; s \<leftarrow> c; Some (atoi s) }"

definition GetLong :: "mysql_result \<Rightarrow> nat \<Rightarrow> int option" where
  "GetLong r col = do { c \<leftarrow> GetChar r col; s \<leftarrow> c; Some (atol s) }"

end
