(* ===== verification/SyncClient.thy ===== *)
theory SyncClient
  imports ClientPacket Mysql
begin

text \<open>
  The client \<open>OrderSyncClient\<close>: the TCP connection (\<open>TcpClient.cc\<close>), the epoll wrapper (\<open>poller.cc\<close>),
  the fetcher (\<open>fetcher.cc\<close>) and one round of the main loop (\<open>order_sync_client.cc\<close>).

  The system calls are the fields of \<open>'w sys\<close>, functions of the state \<open>'w\<close> of everything outside
  the process: the kernel with the peer, Redis, the database. Logging has no effect. A result
  \<open>None\<close> is undefined behaviour, an uncaught exception, or a loop that does not end.
\<close>

section \<open>System calls\<close>

datatype errno = EAGAIN | EINTR | EINPROGRESS | EOTHER
datatype 'a io = Ok 'a | Err errno
datatype epoll_op = EPOLL_CTL_ADD | EPOLL_CTL_MOD | EPOLL_CTL_DEL

record 'w sys =
  s_socket :: "'w \<Rightarrow> int \<times> 'w"
  s_connect :: "'w \<Rightarrow> int \<Rightarrow> byte list \<Rightarrow> u16 \<Rightarrow> int \<times> 'w"
  s_nonblock :: "'w \<Rightarrow> int \<Rightarrow> int \<times> 'w"
  s_send :: "'w \<Rightarrow> int \<Rightarrow> byte list \<Rightarrow> nat io \<times> 'w"
  s_recv :: "'w \<Rightarrow> int \<Rightarrow> nat \<Rightarrow> byte list io \<times> 'w"
  s_close :: "'w \<Rightarrow> int \<Rightarrow> int \<times> 'w"
  s_epoll_create :: "'w \<Rightarrow> nat \<Rightarrow> int \<times> 'w"
  s_epoll_ctl :: "'w \<Rightarrow> int \<Rightarrow> epoll_op \<Rightarrow> int \<Rightarrow> u32 \<Rightarrow> int \<times> 'w"
  s_epoll_wait :: "'w \<Rightarrow> int \<Rightarrow> nat \<Rightarrow> int \<Rightarrow> (int \<times> u32) \<times> 'w"
  s_sleep :: "'w \<Rightarrow> nat \<Rightarrow> 'w"

section \<open>The TCP connection\<close>

definition READABLE :: u32 where "READABLE = 0x001"
definition WRITEABLE :: u32 where "WRITEABLE = 0x004"

record tcp_client =
  sock_fd :: int
  sock_host :: "byte list"
  sock_port :: u16
  IsConnected :: bool
  event :: u32

definition tcp_readable :: "bool \<Rightarrow> tcp_client \<Rightarrow> tcp_client" where
  "tcp_readable s c = c\<lparr>event := (if s then event c OR READABLE else event c AND NOT READABLE)\<rparr>"

definition tcp_writeable :: "bool \<Rightarrow> tcp_client \<Rightarrow> tcp_client" where
  "tcp_writeable s c = c\<lparr>event := (if s then event c OR WRITEABLE else event c AND NOT WRITEABLE)\<rparr>"

definition tcp_Disconneced :: "tcp_client \<Rightarrow> tcp_client" where
  "tcp_Disconneced c = c\<lparr>IsConnected := False\<rparr>"

definition tcp_Close :: "'w sys \<Rightarrow> tcp_client \<Rightarrow> 'w \<Rightarrow> int \<times> 'w" where
  "tcp_Close sys c w = s_close sys w (sock_fd c)"

definition tcp_Socket :: "'w sys \<Rightarrow> tcp_client \<Rightarrow> 'w \<Rightarrow> int \<times> tcp_client \<times> 'w" where
  "tcp_Socket sys c w =
     (let (fd, w1) = s_socket sys w; c1 = c\<lparr>sock_fd := fd\<rparr>
      in (if fd = - 1 then - 1 else 0, c1, w1))"

definition tcp_new :: "'w sys \<Rightarrow> byte list \<Rightarrow> u16 \<Rightarrow> 'w \<Rightarrow> tcp_client \<times> 'w" where
  "tcp_new sys host port w =
     snd (tcp_Socket sys \<lparr>sock_fd = 0, sock_host = host, sock_port = port, IsConnected = False, event = 0\<rparr> w)"

definition tcp_SetNonblock :: "'w sys \<Rightarrow> tcp_client \<Rightarrow> 'w \<Rightarrow> int \<times> 'w" where
  "tcp_SetNonblock sys c w = s_nonblock sys w (sock_fd c)"

definition tcp_Connect :: "'w sys \<Rightarrow> tcp_client \<Rightarrow> 'w \<Rightarrow> int \<times> tcp_client \<times> 'w" where
  "tcp_Connect sys c w =
     (if IsConnected c then (0, c, w)
      else if sock_fd c > 0 then
        (let (result, w1) = s_connect sys w (sock_fd c) (c_str (sock_host c)) (sock_port c);
             c1 = c\<lparr>IsConnected := (result = 0)\<rparr>;
             w2 = (if IsConnected c1 then snd (tcp_SetNonblock sys c1 w1) else w1)
         in (result, c1, w2))
      else (0, c, w))"

definition tcp_Reconnect :: "'w sys \<Rightarrow> tcp_client \<Rightarrow> 'w \<Rightarrow> int \<times> tcp_client \<times> 'w" where
  "tcp_Reconnect sys c w =
     (let (ret, c1, w1) = tcp_Socket sys c w
      in if ret = - 1 then (- 1, c1, w1) else tcp_Connect sys c1 w1)"

text \<open>\<open>Disconneced\<close> and \<open>Close\<close> always come together.\<close>

definition tcp_drop :: "'w sys \<Rightarrow> tcp_client \<Rightarrow> 'w \<Rightarrow> tcp_client \<times> 'w" where
  "tcp_drop sys c w = (let c1 = tcp_Disconneced c in (c1, snd (tcp_Close sys c1 w)))"

text \<open>The loop of \<open>Send\<close>: it retries at once while the kernel says \<open>EAGAIN\<close> or \<open>EINTR\<close>.\<close>

partial_function (option) send_loop ::
    "'w sys \<Rightarrow> byte list \<Rightarrow> nat \<Rightarrow> tcp_client \<Rightarrow> 'w \<Rightarrow> (int \<times> tcp_client \<times> 'w) option" where
  "send_loop sys buf iLen c w =
     (if iLen < length buf then
        (case s_send sys w (sock_fd c) (drop iLen buf) of
           (r, w1) \<Rightarrow>
             (case r of
                Err e \<Rightarrow>
                  if e = EAGAIN \<or> e = EINTR then send_loop sys buf iLen c w1
                  else (case tcp_drop sys c w1 of (c1, w2) \<Rightarrow> Some (0, c1, w2))
              | Ok n \<Rightarrow>
                  if n = 0 then (case tcp_drop sys c w1 of (c1, w2) \<Rightarrow> Some (0, c1, w2))
                  else send_loop sys buf (iLen + n) c w1))
      else Some (int iLen, c, w))"

definition tcp_Send ::
    "'w sys \<Rightarrow> byte list \<Rightarrow> tcp_client \<Rightarrow> 'w \<Rightarrow> (int \<times> tcp_client \<times> 'w) option" where
  "tcp_Send sys buf c w = (if IsConnected c then send_loop sys buf 0 c w else Some (0, c, w))"

definition tcp_Recv :: "'w sys \<Rightarrow> nat \<Rightarrow> tcp_client \<Rightarrow> 'w \<Rightarrow> byte list io \<times> 'w" where
  "tcp_Recv sys n c w = (if \<not> IsConnected c then (Ok [], w) else s_recv sys w (sock_fd c) n)"

definition tcp_check :: "'w sys \<Rightarrow> tcp_client \<Rightarrow> 'w \<Rightarrow> int \<times> 'w" where
  "tcp_check sys c w =
     (let (r, w1) = tcp_Recv sys 4 c w
      in case r of
           Err e \<Rightarrow> (if e \<in> {EAGAIN, EINTR, EINPROGRESS} then 1 else 0, w1)
         | Ok bs \<Rightarrow> (int (length bs), w1))"

section \<open>The epoll wrapper\<close>

text \<open>\<open>poller_t\<close> keeps the epoll descriptor; \<open>events\<close> has room for one event, the first one.\<close>

definition poller_create :: "'w sys \<Rightarrow> 'w \<Rightarrow> int \<times> 'w" where
  "poller_create sys w = s_epoll_create sys w 32"

definition poller_attach :: "'w sys \<Rightarrow> int \<Rightarrow> tcp_client \<Rightarrow> 'w \<Rightarrow> int \<times> 'w" where
  "poller_attach sys efd c w = s_epoll_ctl sys w efd EPOLL_CTL_ADD (sock_fd c) (event c)"

definition poller_apply_events :: "'w sys \<Rightarrow> int \<Rightarrow> tcp_client \<Rightarrow> 'w \<Rightarrow> int \<times> 'w" where
  "poller_apply_events sys efd c w = s_epoll_ctl sys w efd EPOLL_CTL_MOD (sock_fd c) (event c)"

definition poller_detach :: "'w sys \<Rightarrow> int \<Rightarrow> tcp_client \<Rightarrow> 'w \<Rightarrow> int \<times> 'w" where
  "poller_detach sys efd c w = s_epoll_ctl sys w efd EPOLL_CTL_DEL (sock_fd c) 0"

definition poller_wait :: "'w sys \<Rightarrow> int \<Rightarrow> int \<Rightarrow> 'w \<Rightarrow> (int \<times> u32) \<times> 'w" where
  "poller_wait sys efd timeout w = s_epoll_wait sys w efd 32 timeout"

section \<open>The fetcher\<close>

partial_function (option) fetch_order ::
    "'w sys \<Rightarrow> ('c, 'w) hiredis \<Rightarrow> byte list \<Rightarrow> 'c redis_helper \<Rightarrow> 'w \<Rightarrow> (byte list \<times> 'c redis_helper \<times> 'w) option"
    where
  "fetch_order sys api q r w =
     Option.bind (cli_ping api r w) (\<lambda>(alive, w1).
       if alive
       then Option.bind (cli_Dequeue api q [] r w1) (\<lambda>(v, w2). Some (v, r, w2))
       else (case cli_Connect api (s_sleep sys w1 1000000) r of
               (_, r1) \<Rightarrow> fetch_order sys api q r1 (s_sleep sys w1 1000000)))"

section \<open>The order date\<close>

record 'v json_rw = "'v json" +
  j_put_int :: "'v \<Rightarrow> string \<Rightarrow> int \<Rightarrow> 'v"
  j_write :: "'v \<Rightarrow> byte list"

record ('c, 'w, 'v) cl_env =
  ce_sys :: "'w sys"
  ce_redis :: "('c, 'w) hiredis"
  ce_json :: "'v json_rw"
  ce_mysql :: "'w mysql"
  ce_helper :: mysql_helper
  ce_malloc :: malloc
  ce_efd :: int
  ce_redis_key :: "byte list"
  ce_mysql_db :: "byte list"
  ce_client_id :: u32

definition bind_id :: "byte list \<Rightarrow> u64 \<Rightarrow> byte list option" where
  "bind_id sql oid =
     (case str_find sql (bytes_of '':id'') 0 of
        None \<Rightarrow> Some sql
      | Some pos \<Rightarrow> str_replace sql pos 3 (decimal (unat oid)))"

definition query_date ::
    "('c, 'w, 'v) cl_env \<Rightarrow> byte list \<Rightarrow> 'w \<Rightarrow> (int \<times> 'w) option" where
  "query_date env sql w =
     (let (conn, w1) = cl_IsConnected (ce_mysql env) w;
          w2 = (if conn then w1
                else snd (cl_UseDB (ce_mysql env) (ce_mysql_db env)
                  (snd (cl_mysql_Connect (ce_mysql env) (ce_helper env) w1))));
          (r, w3) = cl_ExecuteQuery (ce_mysql env) sql w2
      in case r of
           None \<Rightarrow> Some (- 1, w3)
         | Some rows \<Rightarrow>
             (case HasNext (new_result rows) of
                (False, _) \<Rightarrow> Some (0, w3)
              | (True, r1) \<Rightarrow> do { t \<leftarrow> GetLong r1 0; Some (t, w3) }))"

definition get_ord_date :: "('c, 'w, 'v) cl_env \<Rightarrow> u64 \<Rightarrow> 'w \<Rightarrow> (int \<times> 'w) option" where
  "get_ord_date env oid w = do {
     sql \<leftarrow> bind_id (bytes_of ''select pstarttime from paycenter_order where pid = :id'') oid;
     query_date env sql w }"

definition get_ord_date_of ::
    "('c, 'w, 'v) cl_env \<Rightarrow> byte list \<Rightarrow> u64 \<Rightarrow> 'w \<Rightarrow> (int \<times> 'w) option" where
  "get_ord_date_of env table oid w = do {
     sql \<leftarrow> bind_id (bytes_of ''select pstarttime from '' @ table @ bytes_of '' where pid = :id'') oid;
     query_date env sql w }"

section \<open>One round of the main loop\<close>

record 'c order_client =
  oc_f :: "'c redis_helper"
  oc_c :: tcp_client
  oc_out :: packet_t
  oc_in :: packet_t
  oc_event_id :: u64

text \<open>Attach the connection for input and output; the results of \<open>epoll_ctl\<close> are not looked at.\<close>

definition attach_both :: "('c, 'w, 'v) cl_env \<Rightarrow> tcp_client \<Rightarrow> 'w \<Rightarrow> tcp_client \<times> 'w" where
  "attach_both env c w =
     (let c1 = tcp_writeable True (tcp_readable True c)
      in (c1, snd (poller_attach (ce_sys env) (ce_efd env) c1 w)))"

text \<open>The branch for a readable socket: \<open>check\<close> tells whether the peer has closed.\<close>

definition on_readable :: "('c, 'w, 'v) cl_env \<Rightarrow> tcp_client \<Rightarrow> 'w \<Rightarrow> tcp_client \<times> 'w" where
  "on_readable env c w =
     (let (ok, w1) = tcp_check (ce_sys env) c w
      in if ok \<noteq> 0 then (c, w1)
         else (let (c1, w2) = tcp_drop (ce_sys env) c w1;
                   w3 = snd (poller_detach (ce_sys env) (ce_efd env) c1 w2);
                   w4 = s_sleep (ce_sys env) w3 1000000;
                   (ret, c2, w5) = tcp_Reconnect (ce_sys env) c1 w4
               in if ret = 0 then attach_both env c2 w5 else (c2, w5)))"

text \<open>The text that is sent for a fetched one: \<open>None\<close> where the order is given up.\<close>

definition prepare_order ::
    "('c, 'w, 'v) cl_env \<Rightarrow> byte list \<Rightarrow> 'w \<Rightarrow> (byte list option \<times> 'w) option" where
  "prepare_order env json w =
     (case j_parse (ce_json env) json of
        None \<Rightarrow> Some (None, w)
      | Some v \<Rightarrow> do {
          type \<leftarrow> j_int (ce_json env) v ''type'';
          oid \<leftarrow> j_uint64 (ce_json env) v ''id'';
          table \<leftarrow> j_string (ce_json env) v ''table'';
          if type = 1 then do {
            (mtime, w1) \<leftarrow> get_ord_date_of env table oid w;
            if mtime \<le> 0 then Some (None, w1)
            else Some (Some (j_write (ce_json env) (j_put_int (ce_json env) v ''mtime'' mtime)), w1) }
          else Some (Some json, w) })"

definition build_request ::
    "('c, 'w, 'v) cl_env \<Rightarrow> byte list \<Rightarrow> u64 \<Rightarrow> packet_t \<Rightarrow> packet_t option" where
  "build_request env json eid p = do {
     (ret, p1) \<leftarrow> begin_packet (ce_malloc env) 0x0002 p;
     p2 \<leftarrow> write_int (ce_client_id env) p1;
     p3 \<leftarrow> write_uint64 eid p2;
     p4 \<leftarrow> write_string json p3;
     end_packet p4 }"

text \<open>
  The two labels \<open>send\<close> and \<open>RR\<close> and the jumps between them. \<open>errs\<close> is \<open>r_errs\<close>; the result is what
  \<open>Recv\<close> put into \<open>rbuff\<close>.
\<close>

datatype label = L_send | L_RR

partial_function (option) exchange ::
    "('c, 'w, 'v) cl_env \<Rightarrow> byte list \<Rightarrow> label \<Rightarrow> nat \<Rightarrow> tcp_client \<Rightarrow> 'w \<Rightarrow>
      (byte list \<times> tcp_client \<times> 'w) option" where
  "exchange env data l errs c w =
     (case l of
        L_send \<Rightarrow>
          Option.bind (tcp_Send (ce_sys env) data c w) (\<lambda>(r, c1, w1).
            if r = 0 then
              (case tcp_drop (ce_sys env) c1 w1 of (c2, w2) \<Rightarrow>
                 (case tcp_Reconnect (ce_sys env) c2 w2 of (ret, c3, w3) \<Rightarrow>
                    if ret = 0
                    then (case attach_both env c3 w3 of (c4, w4) \<Rightarrow> exchange env data L_send errs c4 w4)
                    else exchange env data L_send errs c3 (s_sleep (ce_sys env) w3 5000000)))
            else exchange env data L_RR errs c1 w1)
      | L_RR \<Rightarrow>
          (case tcp_Recv (ce_sys env) 1024 c w of (r, w1) \<Rightarrow>
             (case r of
                Ok bs \<Rightarrow>
                  if bs = []
                  then (case tcp_drop (ce_sys env) c w1 of (c1, w2) \<Rightarrow> exchange env data L_send errs c1 w2)
                  else Some (bs, c, w1)
              | Err e \<Rightarrow>
                  if e \<in> {EAGAIN, EINTR, EINPROGRESS} then
                    (if errs \<le> 200
                     then exchange env data L_RR (errs + 1) c (s_sleep (ce_sys env) w1 25000)
                     else (case tcp_drop (ce_sys env) c w1 of (c1, w2) \<Rightarrow> exchange env data L_send 0 c1 w2))
                  else (case tcp_drop (ce_sys env) c w1 of (c1, w2) \<Rightarrow> exchange env data L_send errs c1 w2))))"

text \<open>\<open>rbuff\<close> is a block of 1024 bytes; the reply only decides what is logged.\<close>

definition check_reply ::
    "('c, 'w, 'v) cl_env \<Rightarrow> byte list \<Rightarrow> u64 \<Rightarrow> packet_t \<Rightarrow> (bool \<times> packet_t) option" where
  "check_reply env bs eid p = do {
     (ret, p1) \<leftarrow> parse_packet (ce_malloc env) (bs @ replicate (1024 - length bs) 0) (of_nat (length bs)) p;
     if ret = 0 then do { (e, p2) \<leftarrow> read_uint64 p1; Some (eid = e, p2) }
     else Some (False, p1) }"

definition on_writeable ::
    "('c, 'w, 'v) cl_env \<Rightarrow> 'c order_client \<Rightarrow> 'w \<Rightarrow> ('c order_client \<times> 'w) option" where
  "on_writeable env s w = do {
     (json, f, w1) \<leftarrow> fetch_order (ce_sys env) (ce_redis env) (ce_redis_key env) (oc_f s) w;
     let s1 = s\<lparr>oc_f := f\<rparr>;
     if json = [] then Some (s1, s_sleep (ce_sys env) w1 1000000)
     else do {
       (order, w2) \<leftarrow> prepare_order env json w1;
       (case order of
          None \<Rightarrow> Some (s1, w2)
        | Some text \<Rightarrow> do {
            out \<leftarrow> build_request env text (oc_event_id s) (oc_out s);
            data \<leftarrow> get 0 (unat (p_len out)) out;
            (bs, c, w3) \<leftarrow> exchange env data L_send 0 (oc_c s) w2;
            (ok, inp) \<leftarrow> check_reply env bs (oc_event_id s) (oc_in s);
            out1 \<leftarrow> clean out;
            Some (s1\<lparr>oc_c := c, oc_out := out1, oc_in := inp, oc_event_id := oc_event_id s + 1\<rparr>,
                  s_sleep (ce_sys env) w3 10000) }) } }"

definition run_start :: "('c, 'w, 'v) cl_env \<Rightarrow> 'c order_client \<Rightarrow> 'w \<Rightarrow> 'c order_client \<times> 'w" where
  "run_start env s w = (let (c, w1) = attach_both env (oc_c s) w in (s\<lparr>oc_c := c\<rparr>, w1))"

definition run_round ::
    "('c, 'w, 'v) cl_env \<Rightarrow> 'c order_client \<Rightarrow> 'w \<Rightarrow> ('c order_client \<times> 'w) option" where
  "run_round env s w =
     (let ((ev_nums, events), w1) = poller_wait (ce_sys env) (ce_efd env) 100 w
      in if ev_nums \<le> 0 then Some (s, w1)
         else (let (c, w2) = (if events AND READABLE \<noteq> 0 then on_readable env (oc_c s) w1 else (oc_c s, w1));
                   s1 = s\<lparr>oc_c := c\<rparr>
               in if events AND WRITEABLE \<noteq> 0 then on_writeable env s1 w2 else Some (s1, w2)))"

section \<open>Sending completes\<close>

text \<open>
  What the documentation of \<open>send\<close> promises on a connected socket: it takes a prefix of the bytes or
  none, and a socket that is full becomes writable again; \<open>patience\<close> bounds how often it still says
  no in a row. \<open>taken w fd\<close> are the bytes the kernel has taken so far.
\<close>

definition socket_ok :: "'w sys \<Rightarrow> ('w \<Rightarrow> int \<Rightarrow> byte list) \<Rightarrow> ('w \<Rightarrow> nat) \<Rightarrow> bool" where
  "socket_ok sys taken patience \<longleftrightarrow>
     (\<forall>w fd b n w'. s_send sys w fd b = (Ok n, w') \<longrightarrow> n \<le> length b \<and> taken w' fd = taken w fd @ take n b) \<and>
     (\<forall>w fd b e w'. s_send sys w fd b = (Err e, w') \<longrightarrow> taken w' fd = taken w fd \<and>
        (e = EAGAIN \<or> e = EINTR \<longrightarrow> patience w' < patience w))"

lemma send_loop_total:
  assumes ok: "socket_ok sys taken patience" and i: "iLen \<le> length buf"
  shows "\<exists>r c' w'. send_loop sys buf iLen c w = Some (r, c', w') \<and>
    ((r = int (length buf) \<and> c' = c \<and> taken w' (sock_fd c) = taken w (sock_fd c) @ drop iLen buf) \<or>
     (r = 0 \<and> \<not> IsConnected c'))"
  using i
proof (induction "length buf - iLen" arbitrary: iLen w rule: less_induct)
  case less
  note outer = less.hyps and i = less.prems
  show ?case
  proof (induction "patience w" arbitrary: w rule: less_induct)
    case less
    note inner = less.hyps
    show ?case
    proof (cases "iLen < length buf")
      case False
      then have "iLen = length buf" using i by simp
      then show ?thesis by (subst send_loop.simps) simp
    next
      case True
      obtain r w1 where s: "s_send sys w (sock_fd c) (drop iLen buf) = (r, w1)" by (cases "s_send sys w (sock_fd c) (drop iLen buf)")
      obtain c1 w2 where d: "tcp_drop sys c w1 = (c1, w2)" by (cases "tcp_drop sys c w1")
      then have off: "\<not> IsConnected c1" by (auto simp: tcp_drop_def tcp_Disconneced_def Let_def)
      show ?thesis
      proof (cases r)
        case (Err e)
        have t: "taken w1 (sock_fd c) = taken w (sock_fd c)" "e = EAGAIN \<or> e = EINTR \<Longrightarrow> patience w1 < patience w"
          using ok s Err unfolding socket_ok_def by blast+
        show ?thesis
        proof (cases "e = EAGAIN \<or> e = EINTR")
          case True
          have eq: "send_loop sys buf iLen c w = send_loop sys buf iLen c w1"
            using \<open>iLen < length buf\<close> s Err True by (subst send_loop.simps) simp
          show ?thesis using inner [OF t(2) [OF True]] by (simp only: eq t(1))
        next
          case False
          then show ?thesis using \<open>iLen < length buf\<close> s Err d off
            by (subst send_loop.simps) (auto intro!: exI [of _ c1] exI [of _ w2])
        qed
      next
        case (Ok n)
        have t: "n \<le> length (drop iLen buf)"
          "taken w1 (sock_fd c) = taken w (sock_fd c) @ take n (drop iLen buf)"
          using ok s Ok unfolding socket_ok_def by blast+
        show ?thesis
        proof (cases "n = 0")
          case True
          then show ?thesis using \<open>iLen < length buf\<close> s Ok d off
            by (subst send_loop.simps) (auto intro!: exI [of _ c1] exI [of _ w2])
        next
          case False
          have eq: "send_loop sys buf iLen c w = send_loop sys buf (iLen + n) c w1"
            using \<open>iLen < length buf\<close> s Ok False by (subst send_loop.simps) simp
          have "length buf - (iLen + n) < length buf - iLen" "iLen + n \<le> length buf"
            using False True t(1) by simp_all
          note IH = outer [OF this, of w1]
          have "take n (drop iLen buf) @ drop (iLen + n) buf = drop iLen buf"
            by (metis append_take_drop_id drop_drop add.commute)
          then show ?thesis using IH by (simp add: eq t(2))
        qed
      qed
    qed
  qed
qed

text \<open>
  C9: \<open>CTcpClient::Send\<close> returns, and all or nothing counts: on a socket that becomes writable again it
  reports the whole length, and then the kernel has taken exactly these bytes, or it reports 0 and the
  connection is dropped.
\<close>

theorem Send_completes:
  assumes "socket_ok sys taken patience" and "IsConnected c"
  shows "\<exists>r c' w'. tcp_Send sys buf c w = Some (r, c', w') \<and>
    ((r = int (length buf) \<and> c' = c \<and> taken w' (sock_fd c) = taken w (sock_fd c) @ buf) \<or>
     (r = 0 \<and> \<not> IsConnected c'))"
  using send_loop_total [OF assms(1), of 0 buf c w] assms(2) by (simp add: tcp_Send_def)

section \<open>The request\<close>

text \<open>A packet that \<open>begin\<close> can use: fresh, or with its block of \<open>sz\<close> bytes.\<close>

definition fresh_packet :: "malloc \<Rightarrow> packet_t \<Rightarrow> bool" where
  "fresh_packet malloc p \<longleftrightarrow> p_sz p = 16384 \<and>
     (case p_data p of Some d \<Rightarrow> length d = 16384
      | None \<Rightarrow> (\<exists>b. malloc 16384 = Some b \<and> length b = 16384))"

lemma build_request_ok:
  assumes p: "fresh_packet (ce_malloc env) p" and json: "length json \<le> 16354" "0 \<notin> set json"
  obtains q where "build_request env json eid p = Some q"
    "contents q = frame 2 (request_body (ce_client_id env) eid json)" "packet_wf q" "p_sz q = 16384"
    "unat (p_len q) = 25 + length json"
proof -
  note result = that
  have sz: "9 \<le> unat (p_sz p)" "unat (p_sz p) = 16384" using p by (simp_all add: fresh_packet_def)
  have blk: "case p_data p of Some d \<Rightarrow> length d = unat (p_sz p)
      | None \<Rightarrow> (\<exists>b. ce_malloc env (unat (p_sz p)) = Some b \<and> length b = unat (p_sz p))"
    using p unfolding sz(2) by (simp add: fresh_packet_def)
  obtain p1 where p1: "begin_packet (ce_malloc env) 2 p = Some (0, p1)" "packet_wf p1" "payload p1 = []"
    "command_bytes p1 = be 2 (2 :: u16)" "p_len p1 = 9" "p_sz p1 = p_sz p"
    by (rule begin_packet_ok [where malloc = "ce_malloc env" and cmd = 2, OF sz(1) blk])
  have room1: "unat (p_len p1) + length (be 4 (ce_client_id env)) \<le> unat (p_sz p1)" using p1(5,6) sz by simp
  obtain p2 where p2: "append_bytes (be 4 (ce_client_id env)) p1 = Some p2" "packet_wf p2"
    "payload p2 = payload p1 @ be 4 (ce_client_id env)" "p_sz p2 = p_sz p1" "command_bytes p2 = command_bytes p1"
    "unat (p_len p2) = unat (p_len p1) + length (be 4 (ce_client_id env))"
    by (rule append_bytes_ok [OF p1(2) room1])
  have room2: "unat (p_len p2) + length (be 8 eid) \<le> unat (p_sz p2)" using p1(5,6) p2(4,6) sz by simp
  obtain p3 where p3: "append_bytes (be 8 eid) p2 = Some p3" "packet_wf p3"
    "payload p3 = payload p2 @ be 8 eid" "p_sz p3 = p_sz p2" "command_bytes p3 = command_bytes p2"
    "unat (p_len p3) = unat (p_len p2) + length (be 8 eid)"
    by (rule append_bytes_ok [OF p2(2) room2])
  have len3: "unat (p_len p3) = 21" using p3(6) p2(6) p1(5) by simp
  have room3: "unat (p_len p3) + length json + 5 \<le> unat (p_sz p3)"
    using len3 p3(4) p2(4) p1(6) sz json by simp
  obtain p4 where p4: "write_string json p3 = Some p4" "packet_wf p4"
    "payload p4 = payload p3 @ be 4 (of_nat (length json) :: u32) @ json" "p_sz p4 = p_sz p3"
    "command_bytes p4 = command_bytes p3" "unat (p_len p4) = unat (p_len p3) + 4 + length json"
    by (rule write_string_ok [OF p3(2) room3 json(2)])
  have cmd: "command_bytes p4 = be 2 (2 :: u16)" using p4(5) p3(5) p2(5) p1(4) by simp
  obtain q where q: "end_packet p4 = Some q" "contents q = frame 2 (payload p4)" "packet_wf q"
    "p_len q = p_len p4" "p_sz q = p_sz p4"
    by (rule end_packet_ok [OF p4(2) cmd])
  have pay: "payload p4 = request_body (ce_client_id env) eid json"
    using p4(3) p3(3) p2(3) p1(3) by (simp add: request_body_def)
  have "bytes_le 4 (htonl (ce_client_id env)) = be 4 (ce_client_id env)" by (rule bytes_le_htonl)
  moreover have "bytes_le 8 (htonll eid) = be 8 eid" by (simp add: htonll_def be_def)
  ultimately have "build_request env json eid p = Some q"
    using p1(1) p2(1) p3(1) p4(1) q(1)
    by (simp add: build_request_def write_int_def write_uint64_def)
  then show thesis
    using q pay p4(4,6) p3(4) p2(4) p1(6) sz len3 p
    by (intro result [of q]) (simp_all add: fresh_packet_def)
qed

text \<open>
  C26: The request for an order is the protocol's frame around client number, event number and order, for
  every order of up to 16354 bytes.
\<close>

theorem request_is_frame:
  assumes "fresh_packet (ce_malloc env) p" and "length json \<le> 16354" and "0 \<notin> set json"
  shows "\<exists>q. build_request env json eid p = Some q \<and>
    contents q = frame 2 (request_body (ce_client_id env) eid json)"
  using build_request_ok [OF assms] by metis

section \<open>Examples\<close>

text \<open>A kernel that takes at most two bytes per call and is busy every other time: the state is what it
  has taken and whether it is busy.\<close>

definition ex_sys :: "(byte list \<times> bool) sys" where
  "ex_sys = \<lparr>s_socket = (\<lambda>w. (4, w)), s_connect = (\<lambda>w fd h p. (0, w)), s_nonblock = (\<lambda>w fd. (0, w)),
     s_send = (\<lambda>w fd b. if snd w then (Err EAGAIN, (fst w, False))
                 else (Ok (min 2 (length b)), (fst w @ take 2 b, True))),
     s_recv = (\<lambda>w fd n. (Err EAGAIN, w)), s_close = (\<lambda>w fd. (0, w)), s_epoll_create = (\<lambda>w n. (3, w)),
     s_epoll_ctl = (\<lambda>w efd op fd ev. (0, w)), s_epoll_wait = (\<lambda>w efd n t. ((1, WRITEABLE), w)),
     s_sleep = (\<lambda>w t. w)\<rparr>"

definition ex_tcp :: tcp_client where
  "ex_tcp = \<lparr>sock_fd = 4, sock_host = [], sock_port = 6666, IsConnected = True, event = 0\<rparr>"

theorem Send_completes_witness:
  "\<exists>r c' w'. tcp_Send ex_sys [1, 2, 3] ex_tcp ([], True) = Some (r, c', w') \<and>
    ((r = int (length [1, 2, 3 :: byte]) \<and> c' = ex_tcp \<and> fst w' = fst ([], True) @ [1, 2, 3]) \<or>
     (r = 0 \<and> \<not> IsConnected c'))"
proof (rule Send_completes [where taken = "\<lambda>w fd. fst w" and patience = "\<lambda>w. of_bool (snd w)"])
  show "socket_ok ex_sys (\<lambda>w fd. fst w) (\<lambda>w. of_bool (snd w))"
    by (auto simp: socket_ok_def ex_sys_def min_def split: if_splits)
qed (simp add: ex_tcp_def)

definition ex_cl_env :: "(unit, byte list \<times> bool, unit) cl_env" where
  "ex_cl_env = \<lparr>ce_sys = ex_sys, ce_redis = \<lparr>h_connect = (\<lambda>d host port t. None), h_command = (\<lambda>d ctx ws. (None, d))\<rparr>,
     ce_json = \<lparr>j_parse = (\<lambda>b. None), j_uint64 = (\<lambda>v f. None), j_int64 = (\<lambda>v f. None), j_int = (\<lambda>v f. None),
       j_string = (\<lambda>v f. None), j_put_int = (\<lambda>v f i. v), j_write = (\<lambda>v. [])\<rparr>,
     ce_mysql = \<lparr>my_ping = (\<lambda>w. (0, w)), my_close = (\<lambda>w. w), my_real_connect = (\<lambda>w h u p n. (True, w)),
       my_select_db = (\<lambda>w d. (0, w)), my_query = (\<lambda>w q. (0, w)), my_store_result = (\<lambda>w. (None, w)),
       my_next_result = (\<lambda>w. (- 1, w)), my_affected_rows = (\<lambda>w. 1), my_num_rows = (\<lambda>rows. 0)\<rparr>,
     ce_helper = \<lparr>m_host = [], m_port = 0, m_user = [], m_passwd = []\<rparr>,
     ce_malloc = (\<lambda>n. Some (replicate n 0)), ce_efd = 3, ce_redis_key = [0x51], ce_mysql_db = [],
     ce_client_id = 1001\<rparr>"

theorem request_is_frame_witness:
  "\<exists>q. build_request ex_cl_env [0x7B, 0x7D] 1 new_packet = Some q \<and>
    contents q = frame 2 (request_body (ce_client_id ex_cl_env) 1 [0x7B, 0x7D])"
  by (rule request_is_frame) (simp_all add: fresh_packet_def ex_cl_env_def new_packet_def)

end
