(* ===== verification/DbSync.thy ===== *)
theory DbSync
  imports Mysql
begin

text \<open>
  The database writer \<open>OrderDbSync\<close>: \<open>src/SyncFunc.cc\<close>, one call of \<open>sync_order\<close>, which the loop of
  \<open>src/Main.cc\<close> repeats. Redis, MySQL, the JSON library and the time zone are parameters; \<open>'w\<close> is
  the state of Redis and of the database together. \<open>usleep\<close> and logging have no effect.

  Line 34 of \<open>SyncFunc.cc\<close> misses a closing parenthesis, so the file does not compile as it is; the
  model is that of the line with it. \<open>partition\<close> stands for the build flag \<open>__PARTITION__\<close>.
\<close>

section \<open>The table name\<close>

record table_conf_t =
  old_name :: "byte list"
  new_name :: "byte list"

text \<open>\<open>localtime_r\<close> is the parameter \<open>localtime\<close>: \<open>tm_year\<close> and \<open>tm_mon\<close> of a time; \<open>now\<close> is
  \<open>time(NULL)\<close>.\<close>

definition sync_get_table_name ::
    "(int \<Rightarrow> int \<times> int) \<Rightarrow> int \<Rightarrow> table_conf_t \<Rightarrow> int \<Rightarrow> byte list option" where
  "sync_get_table_name localtime now conf mtime =
     (if mtime = 0
      then (let t = now; (year, mon) = localtime t
            in c_snprintf 128 (new_name conf) [year + 1900, mon + 1])
      else (let (year, mon) = localtime mtime
            in c_snprintf 128 (new_name conf) [year + 1900, mon + 1]))"

section \<open>The primary key\<close>

definition repair_sql :: "byte list \<Rightarrow> u64 \<Rightarrow> (int \<times> byte list) option" where
  "repair_sql sql pid =
     (let dm = bytes_of '')''
      in case str_find sql dm 0 of
           None \<Rightarrow> Some (- 1, sql)
         | Some pos \<Rightarrow> do {
             sql1 \<leftarrow> str_replace sql pos 1 (bytes_of '',pid)'');
             (case str_find sql1 dm 0 of
                None \<Rightarrow> Some (- 1, sql1)
              | Some pos \<Rightarrow>
                  (case str_find sql1 dm (pos + 1) of
                     None \<Rightarrow> Some (- 1, sql1)
                   | Some pos2 \<Rightarrow> do {
                       sql2 \<leftarrow> str_replace sql1 pos2 1 (bytes_of '','' @ decimal (unat pid) @ bytes_of '')'');
                       Some (0, sql2) })) })"

section \<open>One order\<close>

record ('c, 'w, 'v) db_env =
  de_redis :: "('c, 'w) hiredis"
  de_json :: "'v json"
  de_mysql :: "'w mysql"
  de_helper :: mysql_helper
  de_db :: "byte list"
  de_conf :: table_conf_t
  de_localtime :: "int \<Rightarrow> int \<times> int"
  de_now :: int
  de_partition :: bool

text \<open>The statement that \<open>sync_order\<close> builds from a parsed order: \<open>None\<close> is an exception of the JSON
  library or of \<open>replace\<close>, an empty text a failed table name.\<close>

definition order_sql :: "('c, 'w, 'v) db_env \<Rightarrow> 'v \<Rightarrow> (byte list \<times> byte list) option" where
  "order_sql env v = do {
     sql \<leftarrow> j_string (de_json env) v ''sql'';
     type \<leftarrow> j_int (de_json env) v ''type'';
     mtime \<leftarrow> (if type = 0 then j_int64 (de_json env) v ''stime'' else j_int64 (de_json env) v ''mtime'');
     table \<leftarrow> sync_get_table_name (de_localtime env) (de_now env) (de_conf env) mtime;
     if table = [] then Some ([], sql) else do {
       sql1 \<leftarrow> (case str_find sql (old_name (de_conf env)) 0 of
                  None \<Rightarrow> Some sql
                | Some pos \<Rightarrow>
                    str_replace sql pos (if de_partition env then 19 else length (old_name (de_conf env)))
                      table);
       sql2 \<leftarrow> (if \<not> de_partition env \<and> type = 0
                then do { oid \<leftarrow> j_uint64 (de_json env) v ''id'';
                          (_, s) \<leftarrow> repair_sql sql1 oid;
                          Some s }
                else Some sql1);
       Some (table, sql2) } }"

definition sync_order ::
    "('c, 'w, 'v) db_env \<Rightarrow> 'c redis_helper \<Rightarrow> 'w \<Rightarrow> (int \<times> 'c redis_helper \<times> 'w) option" where
  "sync_order env r w = do {
     (alive, w1) \<leftarrow> db_ping (de_redis env) r w;
     if \<not> alive then do {
       let (_, r1) = db_Connect (de_redis env) w1 r;
       (alive1, w2) \<leftarrow> db_ping (de_redis env) r1 w1;
       if \<not> alive1 then Some (- 1, r1, w2) else Some (0, r1, w2) }
     else do {
       (data, w2) \<leftarrow> db_Dequeue (de_redis env) (bytes_of ''ORDER_Q'') [] r w1;
       if data = [] then Some (0, r, w2)
       else (case j_parse (de_json env) data of
               None \<Rightarrow> Some (- 1, r, w2)
             | Some v \<Rightarrow> do {
                 (table, sql) \<leftarrow> order_sql env v;
                 if table = [] then Some (- 1, r, w2)
                 else (let (conn, w3) = db_IsConnected (de_mysql env) w2;
                           w4 = (if conn then w3
                                 else snd (db_UseDB (de_mysql env) (de_db env)
                                   (snd (db_mysql_Connect (de_mysql env) (de_helper env) w3))));
                           (urows, w5) = db_ExecuteNonQuery (de_mysql env) sql w4
                       in Some (0, r, w5)) }) } }"

section \<open>What the writer does to a statement\<close>

lemma bytes_of_simps: "bytes_of [] = []" "bytes_of (c # s) = of_char c # bytes_of s"
  by (simp_all add: bytes_of_def)

lemma length_bytes_of [simp]: "length (bytes_of s) = length s"
  by (simp add: bytes_of_def)

text \<open>
  Without partitioning, an insert gets its primary key: in a statement with one column list and one
  value list, \<open>__repair_sql\<close> adds the column \<open>pid\<close> and its value as the last ones.
\<close>

theorem repair_sql_adds_key:
  assumes "0x29 \<notin> set a" "0x29 \<notin> set b"
  shows "repair_sql (a @ [0x29] @ b @ [0x29] @ c) pid =
    Some (0, a @ bytes_of '',pid)'' @ b @ bytes_of '','' @ decimal (unat pid) @ bytes_of '')'' @ c)"
proof -
  have p: "bytes_of '')'' = [0x29]" "bytes_of '',pid)'' = [0x2C, 0x70, 0x69, 0x64] @ [0x29]" by (simp_all add: bytes_of_simps)
  define a' where "a' = a @ [0x2C, 0x70, 0x69, 0x64]"
  have a': "0x29 \<notin> set a'" using assms(1) by (simp add: a'_def)
  have f1: "str_find (a @ [0x29] @ b @ [0x29] @ c) [0x29] 0 = Some (length a)"
    using assms(1) by (simp add: str_find_def)
  have r1: "str_replace (a @ [0x29] @ b @ [0x29] @ c) (length a) 1 (bytes_of '',pid)'') =
      Some (a' @ [0x29] @ b @ [0x29] @ c)"
    unfolding p by (simp add: str_replace_def a'_def)
  have f2: "str_find (a' @ [0x29] @ b @ [0x29] @ c) [0x29] 0 = Some (length a')"
    using a' by (simp add: str_find_def)
  have f3: "str_find (a' @ [0x29] @ b @ [0x29] @ c) [0x29] (length a' + 1) = Some (length a' + 1 + length b)"
    using assms(2) by (simp add: str_find_def)
  have r2: "str_replace (a' @ [0x29] @ b @ [0x29] @ c) (length a' + 1 + length b) 1 x =
      Some (a' @ [0x29] @ b @ x @ c)" for x
    by (simp add: str_replace_def)
  show ?thesis
    unfolding repair_sql_def Let_def p(1) f1 option.case r1 bind.bind_lunit f2 f3 r2
    by (simp add: a'_def p)
qed

theorem repair_sql_adds_key_witness:
  "repair_sql (bytes_of ''t(a'' @ [0x29] @ bytes_of '' v(1'' @ [0x29] @ bytes_of '';'') 42 =
    Some (0, bytes_of ''t(a'' @ bytes_of '',pid)'' @ bytes_of '' v(1'' @ bytes_of '','' @
      decimal (unat (42 :: u64)) @ bytes_of '')'' @ bytes_of '';'')"
  by (rule repair_sql_adds_key) code_simp+

text \<open>
  With partitioning, the last digit of the old table name stays: the comment gives the name
  \<open>paycenter_order_0001\<close> a fixed length of 20, the code replaces 19 bytes.
\<close>

theorem partition_leaves_last_digit:
  assumes env: "de_partition env" "old_name (de_conf env) = bytes_of ''paycenter_order_''"
    and sql: "j_string (de_json env) v ''sql'' =
        Some (pre @ bytes_of ''paycenter_order_'' @ [d1, d2, d3, d4] @ post)"
      "find_in (bytes_of ''paycenter_order_'') (pre @ bytes_of ''paycenter_order_'' @ [d1, d2, d3, d4] @ post) =
        Some (length pre)"
    and type: "j_int (de_json env) v ''type'' = Some 1" "j_int64 (de_json env) v ''mtime'' = Some mtime"
    and table: "sync_get_table_name (de_localtime env) (de_now env) (de_conf env) mtime = Some table"
      "table \<noteq> []"
  shows "order_sql env v = Some (table, pre @ table @ [d4] @ post)"
proof -
  let ?s = "pre @ bytes_of ''paycenter_order_'' @ [d1, d2, d3, d4] @ post"
  have f: "str_find ?s (old_name (de_conf env)) 0 = Some (length pre)"
    using sql(2) by (simp add: str_find_def env(2))
  have r: "str_replace ?s (length pre) 19 table = Some (pre @ table @ [d4] @ post)"
    by (simp add: str_replace_def)
  have "(if (1 :: int) = 0 then j_int64 (de_json env) v ''stime'' else j_int64 (de_json env) v ''mtime'') =
      Some mtime" using type(2) by simp
  then show ?thesis
    unfolding order_sql_def sql(1) type(1) bind.bind_lunit
    by (simp only: bind.bind_lunit table f option.case env(1) if_True r if_False simp_thms)
qed

section \<open>One order\<close>

text \<open>The database calls leave the Redis lists alone.\<close>

definition mysql_keeps :: "'w mysql \<Rightarrow> ('w \<Rightarrow> byte list \<Rightarrow> byte list list) \<Rightarrow> bool" where
  "mysql_keeps api queues \<longleftrightarrow>
     (\<forall>w. queues (snd (my_ping api w)) = queues w) \<and>
     (\<forall>w h u p n. queues (snd (my_real_connect api w h u p n)) = queues w) \<and>
     (\<forall>w d. queues (snd (my_select_db api w d)) = queues w) \<and>
     (\<forall>w q. queues (snd (my_query api w q)) = queues w) \<and>
     (\<forall>w. queues (snd (my_store_result api w)) = queues w)"

lemma ping_ok:
  assumes "keeps_lists api ctx queues" "r_context r = Some ctx"
  shows "db_ping api r w = Some (True, w)"
proof -
  obtain p where "h_command api w ctx [bytes_of ''ping''] = (Some p, w)" "rp_str p = Some (bytes_of ''PONG'')"
    using assms(1) unfolding keeps_lists_def by blast
  moreover have "c_str (bytes_of ''PONG'') = bytes_of ''PONG''" by code_simp
  ultimately show ?thesis using assms(2) by (simp add: db_ping_def redis_command_def)
qed

lemma ExecuteNonQuery_keeps:
  assumes "mysql_keeps api queues"
  shows "queues (snd (db_ExecuteNonQuery api sql w)) = queues w"
  using assms by (simp add: db_ExecuteNonQuery_def mysql_keeps_def split_beta Let_def)

lemma sync_dequeue:
  assumes redis: "keeps_lists api ctx queues" "r_context r = Some ctx"
    and q: "queues w (bytes_of ''ORDER_Q'') = data # rest" "0 \<notin> set data"
  obtains w1 where "db_Dequeue api (bytes_of ''ORDER_Q'') [] r w = Some (data, w1)"
    "queues w1 = (queues w)(bytes_of ''ORDER_Q'' := rest)"
proof -
  have cq: "c_str (bytes_of ''ORDER_Q'') = bytes_of ''ORDER_Q''" by code_simp
  have "queues w (c_str (bytes_of ''ORDER_Q'')) = data # rest" using q(1) by (simp only: cq)
  then obtain w1 where w1: "redis_Dequeue api (bytes_of ''ORDER_Q'') [] r w = Some (c_str data, w1)"
    "queues w1 = (queues w)(c_str (bytes_of ''ORDER_Q'') := rest)"
    by (rule Dequeue_ok [OF redis])
  show thesis
  proof (rule that)
    show "db_Dequeue api (bytes_of ''ORDER_Q'') [] r w = Some (data, w1)"
      using w1(1) q(2) by (simp add: db_Dequeue_eq)
    show "queues w1 = (queues w)(bytes_of ''ORDER_Q'' := rest)" using w1(2) by (simp only: cq)
  qed
qed

lemma sync_order_ok:
  assumes redis: "keeps_lists (de_redis env) ctx queues" "r_context r = Some ctx"
    and q: "queues w (bytes_of ''ORDER_Q'') = data # rest" "data \<noteq> []" "0 \<notin> set data"
    and v: "j_parse (de_json env) data = Some v" "order_sql env v = Some (table, sql)" "table \<noteq> []"
    and db: "\<And>w. my_ping (de_mysql env) w = (0, w)"
  obtains w1 where "queues w1 = (queues w)(bytes_of ''ORDER_Q'' := rest)"
    "sync_order env r w = Some (0, r, snd (db_ExecuteNonQuery (de_mysql env) sql w1))"
proof -
  obtain w1 where deq: "db_Dequeue (de_redis env) (bytes_of ''ORDER_Q'') [] r w = Some (data, w1)"
    and qs: "queues w1 = (queues w)(bytes_of ''ORDER_Q'' := rest)"
    by (rule sync_dequeue [where queues = queues and w = w, OF redis q(1,3)])
  have conn: "db_IsConnected (de_mysql env) w1 = (True, w1)" by (simp add: db_IsConnected_def db)
  obtain n w2 where ex: "db_ExecuteNonQuery (de_mysql env) sql w1 = (n, w2)" by fastforce
  have "sync_order env r w = Some (0, r, w2)"
    unfolding sync_order_def ping_ok [OF redis] bind.bind_lunit prod.case deq
    using q(2) v by (simp add: conn ex)
  with qs ex show thesis by (intro that [of w1]) simp_all
qed

text \<open>
  C13: One call of \<open>sync_order\<close> on a live Redis connection takes exactly the oldest order off the list
  and executes exactly its statement, once; it reports success whatever the database answers.
\<close>

theorem sync_order_executes_oldest:
  assumes redis: "keeps_lists (de_redis env) ctx queues" "r_context r = Some ctx"
    and keep: "mysql_keeps (de_mysql env) queues"
    and q: "queues w (bytes_of ''ORDER_Q'') = data # rest" "data \<noteq> []" "0 \<notin> set data"
    and v: "j_parse (de_json env) data = Some v" "order_sql env v = Some (table, sql)" "table \<noteq> []"
    and db: "\<And>w. my_ping (de_mysql env) w = (0, w)"
  shows "\<exists>w1. queues w1 = (queues w)(bytes_of ''ORDER_Q'' := rest) \<and>
    sync_order env r w = Some (0, r, snd (db_ExecuteNonQuery (de_mysql env) sql w1)) \<and>
    queues (snd (db_ExecuteNonQuery (de_mysql env) sql w1)) (bytes_of ''ORDER_Q'') = rest"
proof -
  obtain w1 where "queues w1 = (queues w)(bytes_of ''ORDER_Q'' := rest)"
    "sync_order env r w = Some (0, r, snd (db_ExecuteNonQuery (de_mysql env) sql w1))"
    by (rule sync_order_ok [where queues = queues and w = w, OF redis q v db])
  then show ?thesis
    using ExecuteNonQuery_keeps [OF keep, of sql w1] by (intro exI [of _ w1]) simp
qed

text \<open>
  C34: An order the database refuses is lost: it is off the list, nothing keeps it, and \<open>sync_order\<close>
  returns 0.
\<close>

theorem refused_order_lost:
  assumes redis: "keeps_lists (de_redis env) ctx queues" "r_context r = Some ctx"
    and q: "queues w (bytes_of ''ORDER_Q'') = data # rest" "data \<noteq> []" "0 \<notin> set data"
    and v: "j_parse (de_json env) data = Some v" "order_sql env v = Some (table, sql)" "table \<noteq> []"
    and db: "\<And>w. my_ping (de_mysql env) w = (0, w)"
    and refused: "\<And>w. my_query (de_mysql env) w (c_str sql) = (1, w)"
  shows "\<exists>w1. sync_order env r w = Some (0, r, w1) \<and> queues w1 = (queues w)(bytes_of ''ORDER_Q'' := rest)"
proof -
  have "db_ExecuteNonQuery (de_mysql env) sql w1 = (- 1, w1)" for w1
    by (simp add: db_ExecuteNonQuery_def refused)
  moreover obtain w1 where "queues w1 = (queues w)(bytes_of ''ORDER_Q'' := rest)"
    "sync_order env r w = Some (0, r, snd (db_ExecuteNonQuery (de_mysql env) sql w1))"
    by (rule sync_order_ok [where queues = queues and w = w, OF redis q v db])
  ultimately show ?thesis by simp
qed

section \<open>Many orders\<close>

text \<open>The loop of \<open>main\<close>, a number of times; a database that executes what it is sent: \<open>executed\<close> are
  the statements so far.\<close>

primrec drain ::
    "nat \<Rightarrow> ('c, 'w, 'v) db_env \<Rightarrow> 'c redis_helper \<Rightarrow> 'w \<Rightarrow> ('c redis_helper \<times> 'w) option" where
  "drain 0 env r w = Some (r, w)"
| "drain (Suc n) env r w = Option.bind (sync_order env r w) (\<lambda>(_, r1, w1). drain n env r1 w1)"

definition mysql_logs :: "'w mysql \<Rightarrow> ('w \<Rightarrow> byte list list) \<Rightarrow> bool" where
  "mysql_logs api executed \<longleftrightarrow>
     (\<forall>w. my_ping api w = (0, w)) \<and>
     (\<forall>w q. fst (my_query api w q) = 0 \<and> executed (snd (my_query api w q)) = executed w @ [q]) \<and>
     (\<forall>w. executed (snd (my_store_result api w)) = executed w)"

definition redis_keeps :: "('c, 'w) hiredis \<Rightarrow> ('w \<Rightarrow> byte list list) \<Rightarrow> bool" where
  "redis_keeps api executed \<longleftrightarrow> (\<forall>w ctx ws. executed (snd (h_command api w ctx ws)) = executed w)"

definition storable :: "('c, 'w, 'v) db_env \<Rightarrow> byte list \<Rightarrow> bool" where
  "storable env data \<longleftrightarrow> data \<noteq> [] \<and> 0 \<notin> set data \<and>
     (\<exists>v table sql. j_parse (de_json env) data = Some v \<and> order_sql env v = Some (table, sql) \<and> table \<noteq> [])"

definition statement :: "('c, 'w, 'v) db_env \<Rightarrow> byte list \<Rightarrow> byte list" where
  "statement env data = c_str (snd (the (order_sql env (the (j_parse (de_json env) data)))))"

lemma db_Dequeue_keeps:
  assumes keep: "redis_keeps api executed" and deq: "db_Dequeue api q v r w = Some (s, w1)"
  shows "executed w1 = executed w"
proof -
  obtain ctx where ctx: "r_context r = Some ctx"
    using deq by (cases "r_context r") (simp_all add: db_Dequeue_def redis_command_def)
  obtain p d where h: "h_command api w ctx [bytes_of ''lpop'', c_str q] = (p, d)" by fastforce
  have "w1 = d" using deq
    by (cases p) (auto simp: db_Dequeue_def redis_command_def ctx h split: if_splits)
  then show ?thesis using keep h unfolding redis_keeps_def by (metis snd_conv)
qed

lemma sync_order_logged:
  assumes redis: "keeps_lists (de_redis env) ctx queues" "r_context r = Some ctx"
    and my: "mysql_keeps (de_mysql env) queues" "mysql_logs (de_mysql env) executed"
      "redis_keeps (de_redis env) executed"
    and q: "queues w (bytes_of ''ORDER_Q'') = data # rest" and st: "storable env data"
  obtains w1 where "sync_order env r w = Some (0, r, w1)"
    "queues w1 = (queues w)(bytes_of ''ORDER_Q'' := rest)"
    "executed w1 = executed w @ [statement env data]"
proof -
  from st obtain v table sql where v: "data \<noteq> []" "0 \<notin> set data" "j_parse (de_json env) data = Some v"
    "order_sql env v = Some (table, sql)" "table \<noteq> []" unfolding storable_def by blast
  have ping: "my_ping (de_mysql env) w = (0, w)" for w using my(2) by (simp add: mysql_logs_def)
  obtain w1 where deq: "db_Dequeue (de_redis env) (bytes_of ''ORDER_Q'') [] r w = Some (data, w1)"
    and qs: "queues w1 = (queues w)(bytes_of ''ORDER_Q'' := rest)"
    by (rule sync_dequeue [where queues = queues and w = w, OF redis q v(2)])
  have ew: "executed w1 = executed w"
    by (rule db_Dequeue_keeps [OF my(3) deq])
  have conn: "db_IsConnected (de_mysql env) w1 = (True, w1)" by (simp add: db_IsConnected_def ping)
  obtain n w2 where ex: "db_ExecuteNonQuery (de_mysql env) sql w1 = (n, w2)" by fastforce
  have "executed (snd (db_ExecuteNonQuery (de_mysql env) sql w1)) = executed w1 @ [c_str sql]"
    using my(2) by (simp add: db_ExecuteNonQuery_def mysql_logs_def split_beta Let_def)
  then have "executed w2 = executed w @ [statement env data]" using ex ew v(3,4) by (simp add: statement_def)
  moreover have "sync_order env r w = Some (0, r, w2)"
    unfolding sync_order_def ping_ok [OF redis] bind.bind_lunit prod.case deq
    using v by (simp add: conn ex)
  moreover have "queues w2 = queues w1" using ExecuteNonQuery_keeps [OF my(1), of sql w1] ex by simp
  ultimately show thesis using qs by (intro that [of w2]) simp_all
qed

lemma drain_ok:
  assumes redis: "keeps_lists (de_redis env) ctx queues" "r_context r = Some ctx"
    and my: "mysql_keeps (de_mysql env) queues" "mysql_logs (de_mysql env) executed"
      "redis_keeps (de_redis env) executed"
  shows "queues w (bytes_of ''ORDER_Q'') = datas @ rest \<Longrightarrow> list_all (storable env) datas \<Longrightarrow>
    \<exists>w'. drain (length datas) env r w = Some (r, w') \<and> queues w' (bytes_of ''ORDER_Q'') = rest \<and>
      executed w' = executed w @ map (statement env) datas"
proof (induction datas arbitrary: w)
  case Nil
  then show ?case by simp
next
  case (Cons data datas)
  have q: "queues w (bytes_of ''ORDER_Q'') = data # (datas @ rest)" using Cons.prems(1) by simp
  have st: "storable env data" "list_all (storable env) datas" using Cons.prems(2) by simp_all
  obtain w1 where w1: "sync_order env r w = Some (0, r, w1)"
    "queues w1 = (queues w)(bytes_of ''ORDER_Q'' := datas @ rest)"
    "executed w1 = executed w @ [statement env data]"
    by (rule sync_order_logged [where queues = queues and executed = executed and w = w, OF redis my q st(1)])
  have "queues w1 (bytes_of ''ORDER_Q'') = datas @ rest" using w1(2) by simp
  from Cons.IH [OF this st(2)] w1 show ?case by auto
qed

section \<open>An example\<close>

definition ex_mysql :: "int \<Rightarrow> 'w mysql" where
  "ex_mysql r = \<lparr>my_ping = (\<lambda>w. (0, w)), my_close = (\<lambda>w. w), my_real_connect = (\<lambda>w h u p n. (True, w)),
     my_select_db = (\<lambda>w d. (0, w)), my_query = (\<lambda>w q. (r, w)), my_store_result = (\<lambda>w. (None, w)),
     my_next_result = (\<lambda>w. (- 1, w)), my_affected_rows = (\<lambda>w. 1), my_num_rows = (\<lambda>rows. 0)\<rparr>"

text \<open>A Redis server and a database in one state.\<close>

type_synonym stores = "(byte list \<Rightarrow> byte list list) \<times> byte list list"

definition ex_pair_redis :: "(unit, stores) hiredis" where
  "ex_pair_redis = \<lparr>h_connect = (\<lambda>d host port t. Some ()),
     h_command = (\<lambda>d ctx ws. let (p, q) = h_command list_server (fst d) () ws in (p, (q, snd d)))\<rparr>"

definition ex_pair_mysql :: "stores mysql" where
  "ex_pair_mysql = \<lparr>my_ping = (\<lambda>w. (0, w)), my_close = (\<lambda>w. w), my_real_connect = (\<lambda>w h u p n. (True, w)),
     my_select_db = (\<lambda>w d. (0, w)), my_query = (\<lambda>w q. (0, (fst w, snd w @ [q]))),
     my_store_result = (\<lambda>w. (None, w)), my_next_result = (\<lambda>w. (- 1, w)), my_affected_rows = (\<lambda>w. 1),
     my_num_rows = (\<lambda>rows. 0)\<rparr>"

lemma ex_pair_ok: "keeps_lists ex_pair_redis () fst" "mysql_keeps ex_pair_mysql fst"
  "mysql_logs ex_pair_mysql snd" "redis_keeps ex_pair_redis snd"
  by (simp_all add: keeps_lists_def ex_pair_redis_def list_server_def bytes_of_def mysql_keeps_def
      ex_pair_mysql_def mysql_logs_def redis_keeps_def split_beta Let_def)

definition ex_order :: "byte list \<Rightarrow> unit json" where
  "ex_order sql = \<lparr>j_parse = (\<lambda>b. Some ()), j_uint64 = (\<lambda>v f. Some 7), j_int64 = (\<lambda>v f. Some 1),
     j_int = (\<lambda>v f. Some 1), j_string = (\<lambda>v f. Some sql)\<rparr>"

definition ex_db_env :: "int \<Rightarrow> byte list \<Rightarrow> (unit, byte list \<Rightarrow> byte list list, unit) db_env" where
  "ex_db_env r sql = \<lparr>de_redis = list_server, de_json = ex_order sql, de_mysql = ex_mysql r,
     de_helper = \<lparr>m_host = [], m_port = 0, m_user = [], m_passwd = []\<rparr>, de_db = [],
     de_conf = \<lparr>old_name = bytes_of ''paycenter_order_'', new_name = bytes_of ''n%4d%02d''\<rparr>,
     de_localtime = (\<lambda>t. (114, 7)), de_now = 5, de_partition = True\<rparr>"

definition ex_redis :: "unit redis_helper" where
  "ex_redis = \<lparr>r_context = Some (), r_host = [0x61], r_port = 6379, r_timeout = 5\<rparr>"

lemmas ex_db_defs = ex_db_env_def ex_order_def ex_mysql_def ex_redis_def

lemma ex_table: "sync_get_table_name (\<lambda>t. (114, 7)) 5
    \<lparr>old_name = bytes_of ''paycenter_order_'', new_name = bytes_of ''n%4d%02d''\<rparr> 1 = Some (bytes_of ''n201408'')"
  by code_simp

theorem partition_leaves_last_digit_witness:
  "order_sql (ex_db_env 0 (bytes_of ''update '' @ bytes_of ''paycenter_order_'' @ [0x30, 0x30, 0x30, 0x31] @ bytes_of '' x''))
     () = Some (bytes_of ''n201408'', bytes_of ''update '' @ bytes_of ''n201408'' @ [0x31] @ bytes_of '' x'')"
proof (rule partition_leaves_last_digit [where mtime = 1])
  show "sync_get_table_name (de_localtime (ex_db_env 0 s)) (de_now (ex_db_env 0 s)) (de_conf (ex_db_env 0 s)) 1 =
    Some (bytes_of ''n201408'')" for s
    using ex_table by (simp add: ex_db_defs)
qed (simp_all add: ex_db_defs bytes_of_simps)

theorem sync_order_executes_oldest_witness:
  "let w = (\<lambda>k. [])(bytes_of ''ORDER_Q'' := [[0x31], [0x32]]);
       env = ex_db_env 0 (bytes_of ''x'')
   in \<exists>w1. w1 = w(bytes_of ''ORDER_Q'' := [[0x32]]) \<and>
    sync_order env ex_redis w = Some (0, ex_redis, snd (db_ExecuteNonQuery (de_mysql env) (bytes_of ''x'') w1)) \<and>
    snd (db_ExecuteNonQuery (de_mysql env) (bytes_of ''x'') w1) (bytes_of ''ORDER_Q'') = [[0x32]]"
  unfolding Let_def
proof (rule sync_order_executes_oldest [where queues = "\<lambda>d. d" and ctx = "()" and v = "()"
      and table = "bytes_of ''n201408''" and data = "[0x31]"])
  show "order_sql (ex_db_env 0 (bytes_of ''x'')) () = Some (bytes_of ''n201408'', bytes_of ''x'')"
    using ex_table by (simp add: ex_db_defs order_sql_def str_find_def bytes_of_simps)
qed (simp_all add: ex_db_defs list_server_keeps_lists mysql_keeps_def bytes_of_simps)

theorem refused_order_lost_witness:
  "let w = (\<lambda>k. [])(bytes_of ''ORDER_Q'' := [[0x31], [0x32]]);
       env = ex_db_env 1 (bytes_of ''x'')
   in \<exists>w1. sync_order env ex_redis w = Some (0, ex_redis, w1) \<and> w1 = w(bytes_of ''ORDER_Q'' := [[0x32]])"
  unfolding Let_def
proof (rule refused_order_lost [where queues = "\<lambda>d. d" and ctx = "()" and v = "()"
      and table = "bytes_of ''n201408''" and data = "[0x31]" and sql = "bytes_of ''x''"])
  show "order_sql (ex_db_env 1 (bytes_of ''x'')) () = Some (bytes_of ''n201408'', bytes_of ''x'')"
    using ex_table by (simp add: ex_db_defs order_sql_def str_find_def bytes_of_simps)
qed (simp_all add: ex_db_defs list_server_keeps_lists bytes_of_simps)

end
