(* ===== verification/Pipeline.thy ===== *)
theory Pipeline
  imports ClientProps SyncClient DbSync
begin

text \<open>
  The three programs together. \<open>net\<close> is the world the client runs in: the server process with its
  connection to this client, how much of the server's replies the client has read, and the client's
  own Redis lists. What the client sends arrives at the server as one segment
  (\<open>segmentation_irrelevant\<close> says that this is no restriction) and the poller calls
  \<open>CClientUnit::InputNotify\<close>. The database writer then works on the server's Redis servers.
\<close>

section \<open>The client in front of the server\<close>

record ('c, 'd) net =
  srv :: "('c, 'd) server"
  seen :: nat
  mine :: "byte list \<Rightarrow> byte list list"

definition net_sys :: "('c, 'd, 'v) env \<Rightarrow> ('c, 'd) net sys" where
  "net_sys env = \<lparr>s_socket = (\<lambda>w. (4, w)), s_connect = (\<lambda>w fd h p. (- 1, w)), s_nonblock = (\<lambda>w fd. (0, w)),
     s_send = (\<lambda>w fd b. case InputNotify env (Received b) (srv w) of
                 Some (_, True, s) \<Rightarrow> (Ok (length b), w\<lparr>srv := s\<rparr>) | _ \<Rightarrow> (Err EOTHER, w)),
     s_recv = (\<lambda>w fd n. let bs = take n (drop (seen w) (wire (srv w)))
                 in if bs = [] then (Err EAGAIN, w) else (Ok bs, w\<lparr>seen := seen w + length bs\<rparr>)),
     s_close = (\<lambda>w fd. (0, w)), s_epoll_create = (\<lambda>w n. (3, w)),
     s_epoll_ctl = (\<lambda>w efd op fd ev. (0, w)), s_epoll_wait = (\<lambda>w efd n t. ((1, WRITEABLE), w)),
     s_sleep = (\<lambda>w t. w)\<rparr>"

definition net_redis :: "(unit, ('c, 'd) net) hiredis" where
  "net_redis = \<lparr>h_connect = (\<lambda>w host port t. Some ()),
     h_command = (\<lambda>w ctx ws. let (p, q) = h_command list_server (mine w) () ws in (p, w\<lparr>mine := q\<rparr>))\<rparr>"

lemma net_redis_keeps_lists: "keeps_lists net_redis () mine"
  by (simp add: keeps_lists_def net_redis_def list_server_def bytes_of_def Let_def)

lemma net_ping:
  assumes "r_context r = Some ()"
  shows "cli_ping net_redis r w = Some (True, w)"
proof -
  have "c_str (bytes_of ''PONG'') = bytes_of ''PONG''" by code_simp
  then show ?thesis using assms
    by (simp add: cli_ping_def redis_command_def net_redis_def list_server_def)
qed

lemma net_fetch:
  assumes r: "r_context r = Some ()" and q: "0 \<notin> set key" "mine w key = json # rest" "0 \<notin> set json"
  shows "fetch_order sys net_redis key r w = Some (json, r, w\<lparr>mine := (mine w)(key := rest)\<rparr>)"
proof -
  have "cli_Dequeue net_redis key [] r w = Some (json, w\<lparr>mine := (mine w)(key := rest)\<rparr>)"
    using r q by (simp add: cli_Dequeue_def redis_command_def net_redis_def list_server_def bytes_of_def)
  then show ?thesis using net_ping [OF r, of w] by (subst fetch_order.simps) simp
qed

lemma contents_get: "packet_wf q \<Longrightarrow> get 0 (unat (p_len q)) q = Some (contents q)"
  by (elim packet_wfE) (simp add: get_def read_at_def contents_def block_def)

lemma reply_accepted:
  assumes "receptive (ce_malloc env) 17 p"
  shows "\<exists>q. check_reply env (frame cmd (reply_body eid)) eid p = Some (True, q) \<and> receptive (ce_malloc env) 17 q"
proof -
  have rec: "receptive (ce_malloc env) (unat (17 :: u16)) p" using assms by simp
  have sz: "unat (17 :: u16) = 9 + length (reply_body eid)" by simp
  obtain q post where q: "parse_packet (ce_malloc env)
      (frame cmd (reply_body eid) @ replicate (1024 - length (frame cmd (reply_body eid))) 0) 17 p = Some (0, q)"
    "block q = frame_head cmd (reply_body eid) @ reply_body eid @ post" "unread q = reply_body eid @ post"
    "p_idx q = 9" "p_len q = 17"
    by (rule parse_frame_ok [OF rec sz])
  have "length (block q) = 17 + length post" by (simp add: q(2))
  then have "block q \<noteq> []" by auto
  then have d: "p_data q \<noteq> None" by (cases "p_data q") (simp_all add: block_def)
  have u: "unread q = be 8 eid @ post" "unat (p_idx q) + 8 < 65536" using q(3,4) by (simp_all add: reply_body_def)
  obtain r where "read_uint64 q = Some (eid, r)" "p_data r = p_data q"
    by (rule read_uint64_ok [OF u d])
  moreover have "receptive (ce_malloc env) 17 r"
    using \<open>length (block q) = 17 + length post\<close> d \<open>p_data r = p_data q\<close>
    by (auto simp: receptive_def block_def)
  ultimately show ?thesis using q(1) by (simp add: check_reply_def)
qed

section \<open>One order on its way\<close>

text \<open>
  \<open>ready\<close>: the client is connected and its packets are usable, the server's connection is idle and
  the client has read all replies. \<open>plain_order\<close>: a text both ends can parse, of an order for a new
  row (no type 1, which needs a date from MySQL).
\<close>

definition ready :: "(unit, ('c, 'd) net, 'u) cl_env \<Rightarrow> unit order_client \<Rightarrow> ('c, 'd) net \<Rightarrow> bool" where
  "ready cenv s w \<longleftrightarrow> 0 \<notin> set (ce_redis_key cenv) \<and>
     r_context (oc_f s) = Some () \<and> IsConnected (oc_c s) \<and>
     fresh_packet (ce_malloc cenv) (oc_out s) \<and> receptive (ce_malloc cenv) 17 (oc_in s) \<and>
     rbuf (cu (srv w)) = [] \<and> wbuf (cu (srv w)) = [] \<and> seen w = length (wire (srv w))"

definition plain_order :: "(unit, ('c, 'd) net, 'u) cl_env \<Rightarrow> ('c, 'd, 'v) env \<Rightarrow> byte list \<Rightarrow> bool" where
  "plain_order cenv env json \<longleftrightarrow> json \<noteq> [] \<and> 0 \<notin> set json \<and> length json \<le> 7975 \<and>
     (\<exists>v oid table n. j_parse (ce_json cenv) json = Some v \<and> j_int (ce_json cenv) v ''type'' = Some n \<and> n \<noteq> 1 \<and>
        j_uint64 (ce_json cenv) v ''id'' = Some oid \<and> j_string (ce_json cenv) v ''table'' = Some table) \<and>
     (\<exists>v oid mtime sql. j_parse (e_json env) json = Some v \<and> j_uint64 (e_json env) v ''id'' = Some oid \<and>
        j_int64 (e_json env) v ''mtime'' = Some mtime \<and> j_string (e_json env) v ''sql'' = Some sql)"

text \<open>The two programs linked, with one Redis server whose lists are \<open>queues\<close>.\<close>

definition linked :: "(unit, ('c, 'd) net, 'u) cl_env \<Rightarrow> ('c, 'd, 'v) env \<Rightarrow> 'c redis_helper \<Rightarrow>
    ('d \<Rightarrow> byte list \<Rightarrow> byte list list) \<Rightarrow> bool" where
  "linked cenv env redis queues \<longleftrightarrow> ce_sys cenv = net_sys env \<and> ce_redis cenv = net_redis \<and>
     env_ok env \<and> (\<forall>n. e_send env n = Sent 17) \<and>
     (\<exists>ctx. r_context redis = Some ctx \<and> keeps_lists (e_redis env) ctx queues)"

lemma clean_ok:
  assumes "packet_wf q" "p_sz q = 16384"
  obtains q' where "clean q = Some q'" "fresh_packet malloc q'"
proof -
  from assms(1) obtain d where d: "p_data q = Some d" "length d = unat (p_sz q)" by (rule packet_wfE)
  have "put 0 (replicate (unat (p_sz q)) 0) q = Some (q\<lparr>p_data := Some (replicate 16384 0)\<rparr>)"
    using d assms(2) by (simp add: put_def write_at_def)
  then show thesis using d assms(2)
    by (intro that [of "q\<lparr>p_data := Some (replicate 16384 0), p_idx := 0, p_len := 0\<rparr>"])
      (simp_all add: clean_def fresh_packet_def)
qed

lemma redis_id_one: "redis_id oid 1 = Some 1"
  by (simp add: redis_id_def)

lemma order_delivered:
  assumes link: "linked cenv env redis queues" and rdy: "ready cenv s w"
    and order: "plain_order cenv env json" "mine w (ce_redis_key cenv) = json # rest"
    and one: "m_redis_map (pool (srv w)) = [(1, redis)]"
  obtains s' w' where "on_writeable cenv s w = Some (s', w')" "ready cenv s' w'"
    "mine w' = (mine w)(ce_redis_key cenv := rest)"
    "queues (db (srv w')) = (queues (db (srv w)))
       (bytes_of ''ORDER_Q'' := queues (db (srv w)) (bytes_of ''ORDER_Q'') @ [json])"
    "oc_event_id s' = oc_event_id s + 1" "m_redis_map (pool (srv w')) = [(1, redis)]"
proof -
  note result = that
  from link obtain ctx where sys: "ce_sys cenv = net_sys env" "ce_redis cenv = net_redis"
    and env: "env_ok env" and sent: "e_send env (sends (srv w)) = Sent 17"
    and ctx: "r_context redis = Some ctx" "keeps_lists (e_redis env) ctx queues"
    unfolding linked_def by blast
  from order(1) obtain v oid mtime sql where parsed: "j_parse (e_json env) json = Some v"
    "j_uint64 (e_json env) v ''id'' = Some oid" "j_int64 (e_json env) v ''mtime'' = Some mtime"
    "j_string (e_json env) v ''sql'' = Some sql" unfolding plain_order_def by blast
  note c = rdy [unfolded ready_def] order(2)
  have idle: "rbuf (cu (srv w)) = []" "wbuf (cu (srv w)) = []" "seen w = length (wire (srv w))" using c by auto
  have shard: "redis_id oid (length (m_redis_map (pool (srv w)))) = Some 1"
    "map_of (m_redis_map (pool (srv w))) 1 = Some redis" by (simp_all add: one redis_id_one [simplified])
  have json: "0 \<notin> set json" "length json \<le> 7975" "json \<noteq> []" using order(1) by (auto simp: plain_order_def)
  define w1 where "w1 = w\<lparr>mine := (mine w)(ce_redis_key cenv := rest)\<rparr>"
  have fetched: "fetch_order (net_sys env) net_redis (ce_redis_key cenv) (oc_f s) w = Some (json, oc_f s, w1)"
    using c json(1) unfolding w1_def by (intro net_fetch) simp_all
  have prep: "prepare_order cenv json w1 = Some (Some json, w1)"
    using order(1) by (auto simp: prepare_order_def plain_order_def)
  have out: "fresh_packet (ce_malloc cenv) (oc_out s)" "length json \<le> 16354" "0 \<notin> set json" using c json by auto
  obtain q where q: "build_request cenv json (oc_event_id s) (oc_out s) = Some q"
    "contents q = frame 2 (request_body (ce_client_id cenv) (oc_event_id s) json)" "packet_wf q" "p_sz q = 16384"
    "unat (p_len q) = 25 + length json"
    by (rule build_request_ok [OF out])
  have n17: "(17 :: nat) \<le> 17" by simp
  obtain s2 where s2: "InputNotify env (Received (frame CLIENT_CMD_DATA_REQ
        (request_body (ce_client_id cenv) (oc_event_id s) json))) (srv w) = Some (POLLER_SUCC, True, s2)"
    "queues (db s2) = (queues (db (srv w)))
       (bytes_of ''ORDER_Q'' := queues (db (srv w)) (bytes_of ''ORDER_Q'') @ [json])"
    "wire s2 = wire (srv w) @ take 17 (frame SERVER_CMD_DATA_REP (reply_body (oc_event_id s)))"
    "wbuf (cu s2) = drop 17 (frame SERVER_CMD_DATA_REP (reply_body (oc_event_id s)))" "rbuf (cu s2) = []"
    "m_objmap (pool s2) (sint (ce_client_id cenv)) = Some (du_id (du (srv w)))"
    "m_redis_map (pool s2) = m_redis_map (pool (srv w))" "sends s2 = sends (srv w) + 1"
    by (rule request_stored [where queues = queues and s = "srv w" and n = 17 and cid = "ce_client_id cenv"
          and eid = "oc_event_id s", OF env json(1,2) idle(1,2) parsed shard ctx sent n17])
  have cmd: "frame 2 b = frame CLIENT_CMD_DATA_REQ b" for b by (simp add: CLIENT_CMD_DATA_REQ_def)
  let ?reply = "frame SERVER_CMD_DATA_REP (reply_body (oc_event_id s))"
  have lr: "length ?reply = 17" by simp
  then have rne: "?reply \<noteq> []" by (metis list.size(3) zero_neq_numeral)
  define w2 where "w2 = w1\<lparr>srv := s2\<rparr>"
  have lq: "length (contents q) = 25 + length json" using q(3,5) by simp
  have snd: "s_send (net_sys env) w1 fd (contents q) = (Ok (length (contents q)), w2)" for fd
    using s2(1) by (simp add: net_sys_def w1_def w2_def q(2) cmd)
  have tcp: "tcp_Send (net_sys env) (contents q) (oc_c s) w1 = Some (int (length (contents q)), oc_c s, w2)"
    using c lq by (simp add: tcp_Send_def send_loop.simps [of _ _ 0] snd send_loop.simps [of _ _ "25 + _"])
  define w3 where "w3 = w2\<lparr>seen := seen w + 17\<rparr>"
  have "wire s2 = wire (srv w) @ ?reply" using s2(3) lr by (metis order_refl take_all)
  then have rcv: "tcp_Recv (net_sys env) 1024 (oc_c s) w2 = (Ok ?reply, w3)"
    using c rne idle(3) lr by (simp add: tcp_Recv_def net_sys_def w2_def w1_def w3_def Let_def)
  have pos: "int (length (contents q)) \<noteq> 0" using lq by simp
  have exc: "exchange cenv (contents q) L_send 0 (oc_c s) w1 = Some (?reply, oc_c s, w3)"
    using pos by (simp add: exchange.simps [of _ _ L_send] sys tcp)
      (simp add: exchange.simps [of _ _ L_RR] sys rcv rne)
  obtain p where p: "check_reply cenv ?reply (oc_event_id s) (oc_in s) = Some (True, p)"
    "receptive (ce_malloc cenv) 17 p"
    using reply_accepted [of cenv "oc_in s"] c by blast
  obtain q' where q': "clean q = Some q'" "fresh_packet (ce_malloc cenv) q'"
    by (rule clean_ok [OF q(3,4)])
  define s' where "s' = s\<lparr>oc_c := oc_c s, oc_out := q', oc_in := p, oc_event_id := oc_event_id s + 1\<rparr>"
  have "on_writeable cenv s w = Some (s', w3)"
    using c unfolding on_writeable_def sys fetched
    by (simp add: prep q(1) contents_get [OF q(3)] exc p(1) q'(1) s'_def json(3)) (simp add: net_sys_def)
  moreover have "wbuf (cu s2) = []" using s2(4) lr by simp
  moreover have "seen w3 = length (wire (srv w3))"
    using \<open>wire s2 = wire (srv w) @ ?reply\<close> lr idle(3) by (simp add: w3_def w2_def w1_def)
  ultimately show thesis
    using s2(2,5,7) c q'(2) p(2) one
    by (intro result [of s' w3]) (simp_all add: w3_def w2_def w1_def s'_def ready_def)
qed

section \<open>Many orders\<close>

primrec rounds ::
    "nat \<Rightarrow> ('c, 'w, 'v) cl_env \<Rightarrow> 'c order_client \<Rightarrow> 'w \<Rightarrow> ('c order_client \<times> 'w) option" where
  "rounds 0 cenv s w = Some (s, w)"
| "rounds (Suc n) cenv s w = Option.bind (on_writeable cenv s w) (\<lambda>(s1, w1). rounds n cenv s1 w1)"

lemma orders_delivered:
  assumes link: "linked cenv env redis queues"
  shows "ready cenv s w \<Longrightarrow> list_all (plain_order cenv env) jsons \<Longrightarrow>
    mine w (ce_redis_key cenv) = jsons \<Longrightarrow> m_redis_map (pool (srv w)) = [(1, redis)] \<Longrightarrow>
    \<exists>s' w'. rounds (length jsons) cenv s w = Some (s', w') \<and> ready cenv s' w' \<and>
      mine w' (ce_redis_key cenv) = [] \<and>
      queues (db (srv w')) = (queues (db (srv w)))
        (bytes_of ''ORDER_Q'' := queues (db (srv w)) (bytes_of ''ORDER_Q'') @ jsons) \<and>
      oc_event_id s' = oc_event_id s + of_nat (length jsons)"
proof (induction jsons arbitrary: s w)
  case Nil
  then show ?case by simp
next
  case (Cons json jsons)
  have plain: "plain_order cenv env json" using Cons.prems(2) by simp
  obtain s1 w1 where one: "on_writeable cenv s w = Some (s1, w1)" "ready cenv s1 w1"
    "mine w1 = (mine w)(ce_redis_key cenv := jsons)"
    "queues (db (srv w1)) = (queues (db (srv w)))
       (bytes_of ''ORDER_Q'' := queues (db (srv w)) (bytes_of ''ORDER_Q'') @ [json])"
    "oc_event_id s1 = oc_event_id s + 1" "m_redis_map (pool (srv w1)) = [(1, redis)]"
    by (rule order_delivered [OF link Cons.prems(1) plain Cons.prems(3,4)])
  have q: "mine w1 (ce_redis_key cenv) = jsons" using one(3) by simp
  have all: "list_all (plain_order cenv env) jsons" using Cons.prems(2) by simp
  from Cons.IH [OF one(2) all q one(6)] obtain s' w' where
    "rounds (length jsons) cenv s1 w1 = Some (s', w')" "ready cenv s' w'" "mine w' (ce_redis_key cenv) = []"
    "queues (db (srv w')) = (queues (db (srv w1)))
        (bytes_of ''ORDER_Q'' := queues (db (srv w1)) (bytes_of ''ORDER_Q'') @ jsons)"
    "oc_event_id s' = oc_event_id s1 + of_nat (length jsons)" by blast
  then show ?case using one(1,4,5) by (simp add: fun_eq_iff add.assoc)
qed

end
