(* ===== verification/IniFile.thy ===== *)
theory IniFile
  imports CText Services
begin

text \<open>
  The configuration files: \<open>src/IniFile.cc\<close> of \<open>OrderDbSync\<close> (the client has the same file). A file is
  \<open>Some\<close> of its bytes, or \<open>None\<close> if it cannot be opened. \<open>buf\<close> is the array of 16384 bytes the file is
  loaded into. The result \<open>None\<close> is a failed \<open>assert\<close> or an access outside an array. Section, key and
  value are C strings, given as their bytes without the terminator.
\<close>

section \<open>Loading\<close>

definition MAX_FILE_SIZE :: nat where "MAX_FILE_SIZE = 1024 * 16"

text \<open>\<open>fgetc\<close> is stored into a \<open>char\<close> before the comparison with \<open>EOF\<close>, so a byte 255 ends the file.\<close>

definition load_ini_file :: "byte list option \<Rightarrow> (int \<times> byte list \<times> nat) option" where
  "load_ini_file file =
     (case file of
        None \<Rightarrow> Some (0, replicate MAX_FILE_SIZE 0, 0)
      | Some f \<Rightarrow>
          (let c = takeWhile (\<lambda>b. b \<noteq> 0xFF) f
           in if length c < MAX_FILE_SIZE
              then Some (1, c @ replicate (MAX_FILE_SIZE - length c) 0, length c) else None))"

section \<open>Parsing\<close>

definition newline :: "byte \<Rightarrow> bool" where "newline c \<longleftrightarrow> c = 0x0A \<or> c = 0x0D"
definition end_of_string :: "byte \<Rightarrow> bool" where "end_of_string c \<longleftrightarrow> c = 0"
definition left_barce :: "byte \<Rightarrow> bool" where "left_barce c \<longleftrightarrow> c = 0x5B"
definition isright_brace :: "byte \<Rightarrow> bool" where "isright_brace c \<longleftrightarrow> c = 0x5D"

text \<open>The inner loops, each a scan from \<open>i\<close> on: to the closing bracket (a \<open>do\<close> loop), over white space,
  to the end of the line.\<close>

function find_right :: "byte list \<Rightarrow> nat \<Rightarrow> nat option" where
  "find_right p i =
     (if i + 1 < length p
      then if \<not> isright_brace (p ! (i + 1)) \<and> \<not> end_of_string (p ! (i + 1)) then find_right p (i + 1)
           else Some (i + 1)
      else None)"
  by pat_completeness auto
termination by (relation "measure (\<lambda>(p, i). length p - i)") auto

function skip_space :: "byte list \<Rightarrow> nat \<Rightarrow> nat option" where
  "skip_space p i = (if i < length p then if is_space (p ! i) then skip_space p (i + 1) else Some i else None)"
  by pat_completeness auto
termination by (relation "measure (\<lambda>(p, i). length p - i)") auto

function line_end :: "byte list \<Rightarrow> nat \<Rightarrow> nat option" where
  "line_end p i =
     (if i < length p
      then if \<not> newline (p ! i) \<and> \<not> end_of_string (p ! i) then line_end p (i + 1) else Some i
      else None)"
  by pat_completeness auto
termination by (relation "measure (\<lambda>(p, i). length p - i)") auto

text \<open>The search for the first \<open>=\<close> of the line \<open>ns .. i\<close>, and the comparison of what is before it.\<close>

function scan_key :: "byte list \<Rightarrow> byte list \<Rightarrow> nat \<Rightarrow> nat \<Rightarrow> nat \<Rightarrow> nat option option" where
  "scan_key key p ns i j =
     (if j < i
      then if j + 1 < length p
           then if p ! j \<noteq> 0x3D
                then if p ! (j + 1) = 0x3D \<and> strncmp_eq key (drop ns p) (j + 1 - ns) then Some (Some (j + 1))
                     else scan_key key p ns i (j + 1)
                else Some None
           else None
      else Some None)"
  by pat_completeness auto
termination by (relation "measure (\<lambda>(key, p, ns, i, j). i - j)") auto

declare find_right.simps [simp del] skip_space.simps [simp del] line_end.simps [simp del] scan_key.simps [simp del]

record found =
  key_s :: nat
  key_e :: int
  value_s :: nat
  value_e :: nat

text \<open>The loop over the lines of a section: the key, or the index behind the section.\<close>

lemma line_end_ge: "line_end p i = Some j \<Longrightarrow> i \<le> j \<and> j < length p"
proof (induction p i rule: line_end.induct)
  case (1 p i)
  from "1.prems" show ?case
    by (subst (asm) line_end.simps) (auto split: if_splits dest: "1.IH" [simplified])
qed

function section_loop :: "byte list \<Rightarrow> byte list \<Rightarrow> nat \<Rightarrow> (nat + found) option" where
  "section_loop key p i =
     (if i < length p
      then if \<not> (newline (p ! (i - 1)) \<and> left_barce (p ! i)) \<and> \<not> end_of_string (p ! i)
           then (case line_end p i of
                   None \<Rightarrow> None
                 | Some e \<Rightarrow>
                     (case (if p ! i \<noteq> 0x3B then scan_key key p i e i else Some None) of
                        None \<Rightarrow> None
                      | Some (Some j) \<Rightarrow>
                          Some (Inr \<lparr>key_s = i, key_e = int j - 1, value_s = j + 1, value_e = e\<rparr>)
                      | Some None \<Rightarrow> section_loop key p (e + 1)))
           else Some (Inl i)
      else None)"
  by pat_completeness auto
termination by (relation "measure (\<lambda>(key, p, i). length p - i)") (auto dest: line_end_ge)

record positions =
  sec_s :: int
  sec_e :: int
  at_key :: "found option"

lemma find_right_ge: "find_right p i = Some j \<Longrightarrow> i < j \<and> j < length p"
proof (induction p i rule: find_right.induct)
  case (1 p i)
  from "1.prems" show ?case
    by (subst (asm) find_right.simps) (auto split: if_splits dest: "1.IH" [simplified])
qed

lemma skip_space_ge: "skip_space p i = Some j \<Longrightarrow> i \<le> j \<and> j < length p"
proof (induction p i rule: skip_space.induct)
  case (1 p i)
  from "1.prems" show ?case
    by (subst (asm) skip_space.simps) (auto split: if_splits dest: "1.IH" [simplified])
qed

declare section_loop.simps [simp del]

lemma section_loop_ge: "section_loop key p i = Some (Inl j) \<Longrightarrow> i \<le> j \<and> j < length p"
proof (induction "length p - i" arbitrary: i rule: less_induct)
  case less
  from less.prems consider "j = i" "i < length p"
    | e where "i < length p" "line_end p i = Some e" "section_loop key p (e + 1) = Some (Inl j)"
    by (subst (asm) section_loop.simps) (auto split: if_splits option.splits)
  then show ?case
  proof cases
    case 2
    have e: "i \<le> e" using line_end_ge [OF 2(2)] by simp
    have "length p - (e + 1) < length p - i" using e 2(1) by arith
    from less.hyps [OF this 2(3)] e show ?thesis by simp
  qed simp
qed

text \<open>The main loop. Only the first bytes of the section's name are compared, as many as the bracket
  holds.\<close>

function parse_loop :: "byte list \<Rightarrow> byte list \<Rightarrow> byte list \<Rightarrow> nat \<Rightarrow> positions \<Rightarrow> positions option" where
  "parse_loop sec key p i st =
     (if i < length p
      then if \<not> end_of_string (p ! i)
           then if (i = 0 \<or> newline (p ! (i - 1))) \<and> left_barce (p ! i)
                then (case find_right p i of
                        None \<Rightarrow> None
                      | Some r \<Rightarrow>
                          if strncmp_eq (drop (i + 1) p) sec (r - (i + 1))
                          then (case skip_space p (r + 1) of
                                  None \<Rightarrow> None
                                | Some e \<Rightarrow>
                                    (let st1 = st\<lparr>sec_s := int (i + 1), sec_e := int e\<rparr>
                                     in case section_loop key p e of
                                          None \<Rightarrow> None
                                        | Some (Inr f) \<Rightarrow> Some (st1\<lparr>at_key := Some f\<rparr>)
                                        | Some (Inl j) \<Rightarrow> parse_loop sec key p j st1))
                          else parse_loop sec key p r st)
                else parse_loop sec key p (i + 1) st
           else Some st
      else None)"
  by pat_completeness auto
termination
  by (relation "measure (\<lambda>(sec, key, p, i, st). length p - i)")
    (auto dest!: find_right_ge skip_space_ge section_loop_ge)

declare parse_loop.simps [simp del]

definition parse_file :: "byte list \<Rightarrow> byte list \<Rightarrow> byte list \<Rightarrow> positions option" where
  "parse_file sec key buf =
     (if sec = [] \<or> key = [] then None
      else parse_loop sec key buf 0 \<lparr>sec_s = - 1, sec_e = - 1, at_key = None\<rparr>)"

section \<open>Reading a value\<close>

definition strncpy :: "byte list \<Rightarrow> nat \<Rightarrow> byte list" where
  "strncpy src n = take n (src @ replicate n 0)"

text \<open>\<open>value0\<close> is the array of \<open>n\<close> bytes before the call; the result is the array after it.\<close>

definition read_profile_string ::
    "byte list \<Rightarrow> byte list \<Rightarrow> byte list \<Rightarrow> nat \<Rightarrow> byte list option \<Rightarrow> byte list option \<Rightarrow>
      (int \<times> byte list) option" where
  "read_profile_string sec key value0 n dflt file =
     (if sec = [] \<or> key = [] \<or> n = 0 then None
      else do {
        let missing = (0, case dflt of None \<Rightarrow> value0 | Some d \<Rightarrow> strncpy d n);
        (ok, buf, file_size) \<leftarrow> load_ini_file file;
        if ok = 0 then Some missing
        else do {
          st \<leftarrow> parse_file sec key buf;
          (case at_key st of
             None \<Rightarrow> Some missing
           | Some f \<Rightarrow> do {
               let cpcount = min (value_e f - value_s f) (n - 1);
               bs \<leftarrow> read_at (value_s f) cpcount buf;
               Some (1, bs @ replicate (n - cpcount) 0) }) } })"

definition read_profile_int ::
    "byte list \<Rightarrow> byte list \<Rightarrow> int \<Rightarrow> byte list option \<Rightarrow> int option" where
  "read_profile_int sec key dflt file = do {
     (ok, v) \<leftarrow> read_profile_string sec key (replicate 32 0) 32 None file;
     Some (if ok = 0 then dflt else atoi (c_str v)) }"

section \<open>Writing a value\<close>

text \<open>
  The result is what \<open>fputs\<close> writes to the file, \<open>writable\<close> whether \<open>fopen\<close> can open it; the text must
  fit into \<open>w_buf\<close>. In the second case the rest of the file is the format of a \<open>sprintf\<close> with one
  \<open>int\<close> argument.
\<close>

definition write_profile_string ::
    "byte list \<Rightarrow> byte list \<Rightarrow> byte list \<Rightarrow> byte list option \<Rightarrow> bool \<Rightarrow> (int \<times> byte list option) option" where
  "write_profile_string sec key v file writable =
     (if sec = [] \<or> key = [] then None
      else do {
        (ok, buf, file_size) \<leftarrow> load_ini_file file;
        st \<leftarrow> (if ok = 0 then Some \<lparr>sec_s = - 1, sec_e = - 1, at_key = None\<rparr> else parse_file sec key buf);
        w \<leftarrow> (if sec_s st = - 1
              then Some (take file_size buf @ (if file_size = 0 then [] else [0x0A]) @
                [0x5B] @ sec @ [0x5D, 0x0A] @ key @ [0x3D] @ v @ [0x0A])
              else (case at_key st of
                      None \<Rightarrow> do {
                        rest \<leftarrow> c_format (c_str (drop (nat (sec_e st)) buf)) [int file_size - sec_e st];
                        Some (take (nat (sec_e st)) buf @ key @ [0x3D] @ v @ [0x0A] @ rest) }
                    | Some f \<Rightarrow>
                        Some (take (value_s f) buf @ v @ take (file_size - value_e f) (drop (value_e f) buf))));
        if length w < MAX_FILE_SIZE
        then Some (if writable then (1, Some (c_str w)) else (0, file))
        else None })"

section \<open>The parser looks no further than it has to\<close>

text \<open>\<open>agree m p q\<close>: two buffers that begin with the same \<open>m\<close> bytes.\<close>

definition agree :: "nat \<Rightarrow> byte list \<Rightarrow> byte list \<Rightarrow> bool" where
  "agree m p q \<longleftrightarrow> m \<le> length p \<and> m \<le> length q \<and> (\<forall>k < m. p ! k = q ! k)"

lemma agreeD: "agree m p q \<Longrightarrow> k < m \<Longrightarrow> p ! k = q ! k \<and> k < length p \<and> k < length q"
  by (simp add: agree_def)

lemma agree_take: "agree m p q \<Longrightarrow> k \<le> m \<Longrightarrow> take k p = take k q"
  by (intro nth_equalityI) (auto simp: agree_def)

lemma agree_strncmp:
  assumes "agree m p q" "ns + n \<le> m"
  shows "strncmp_eq a (drop ns p) n = strncmp_eq a (drop ns q) n"
    and "strncmp_eq (drop ns p) a n = strncmp_eq (drop ns q) a n"
proof -
  have "take n (drop ns p) = take n (drop ns q)"
    using agree_take [OF assms(1), of "ns + n"] assms(2) by (simp add: take_drop add.commute)
  then show "strncmp_eq a (drop ns p) n = strncmp_eq a (drop ns q) n"
    "strncmp_eq (drop ns p) a n = strncmp_eq (drop ns q) a n" by (simp_all add: strncmp_eq_def)
qed

lemma find_right_agree: "find_right p i = Some j \<Longrightarrow> agree m p q \<Longrightarrow> j < m \<Longrightarrow> find_right q i = Some j"
proof (induction p i rule: find_right.induct)
  case (1 p i)
  have ij: "i + 1 \<le> j" using find_right_ge [OF "1.prems"(1)] by simp
  then have at: "p ! (i + 1) = q ! (i + 1)" "i + 1 < length p" "i + 1 < length q"
    using agreeD [OF "1.prems"(2), of "i + 1"] "1.prems"(3) by simp_all
  show ?case
    using "1.prems" "1.IH" at by (subst find_right.simps, subst (asm) find_right.simps) (auto split: if_splits)
qed

lemma skip_space_agree: "skip_space p i = Some j \<Longrightarrow> agree m p q \<Longrightarrow> j < m \<Longrightarrow> skip_space q i = Some j"
proof (induction p i rule: skip_space.induct)
  case (1 p i)
  have "i \<le> j" using skip_space_ge [OF "1.prems"(1)] by simp
  then have at: "p ! i = q ! i" "i < length p" "i < length q"
    using agreeD [OF "1.prems"(2), of i] "1.prems"(3) by simp_all
  show ?case
    using "1.prems" "1.IH" at by (subst skip_space.simps, subst (asm) skip_space.simps) (auto split: if_splits)
qed

lemma line_end_agree: "line_end p i = Some j \<Longrightarrow> agree m p q \<Longrightarrow> j < m \<Longrightarrow> line_end q i = Some j"
proof (induction p i rule: line_end.induct)
  case (1 p i)
  have "i \<le> j" using line_end_ge [OF "1.prems"(1)] by simp
  then have at: "p ! i = q ! i" "i < length p" "i < length q"
    using agreeD [OF "1.prems"(2), of i] "1.prems"(3) by simp_all
  show ?case
    using "1.prems" "1.IH" at by (subst line_end.simps, subst (asm) line_end.simps) (auto split: if_splits)
qed

lemma scan_key_range: "scan_key key p ns i j = Some (Some r) \<Longrightarrow> j < r \<and> r \<le> i \<and> p ! r = 0x3D"
proof (induction key p ns i j rule: scan_key.induct)
  case (1 key p ns i j)
  from "1.prems" show ?case
    by (subst (asm) scan_key.simps) (auto split: if_splits dest: "1.IH" [simplified])
qed

lemma scan_key_agree:
  "scan_key key p ns i j = Some (Some r) \<Longrightarrow> agree m p q \<Longrightarrow> r < m \<Longrightarrow> r \<le> i' \<Longrightarrow> ns \<le> j \<Longrightarrow>
     scan_key key q ns i' j = Some (Some r)"
proof (induction key p ns i j rule: scan_key.induct)
  case (1 key p ns i j)
  have jr: "j + 1 \<le> r" using scan_key_range [OF "1.prems"(1)] by simp
  have at: "p ! j = q ! j" "p ! (j + 1) = q ! (j + 1)" "j + 1 < length q"
    using agreeD [OF "1.prems"(2), of j] agreeD [OF "1.prems"(2), of "j + 1"] jr "1.prems"(3) by simp_all
  have cmp: "strncmp_eq key (drop ns p) (j + 1 - ns) = strncmp_eq key (drop ns q) (j + 1 - ns)"
    using jr "1.prems"(3,5) by (intro agree_strncmp [OF "1.prems"(2)]) simp
  from "1.prems"(1) have cond: "j < i" "j + 1 < length p" "p ! j \<noteq> 0x3D"
    by (subst (asm) scan_key.simps, simp split: if_splits)+
  show ?case
  proof (cases "p ! (j + 1) = 0x3D \<and> strncmp_eq key (drop ns p) (j + 1 - ns)")
    case True
    then have "r = j + 1" using "1.prems"(1) cond by (subst (asm) scan_key.simps) simp
    then show ?thesis using True at cmp cond "1.prems"(4) by (subst scan_key.simps) simp
  next
    case False
    then have "scan_key key p ns i (j + 1) = Some (Some r)"
      using "1.prems"(1) cond by (subst (asm) scan_key.simps) (auto split: if_splits)
    from "1.IH" [OF cond False this "1.prems"(2,3,4)] "1.prems"(5)
    have "scan_key key q ns i' (j + 1) = Some (Some r)" by simp
    then show ?thesis using False at cmp cond jr "1.prems"(4) by (subst scan_key.simps) auto
  qed
qed

lemma scan_key_agree_None:
  "scan_key key p ns i j = Some None \<Longrightarrow> agree m p q \<Longrightarrow> i < m \<Longrightarrow> ns \<le> j \<Longrightarrow>
     scan_key key q ns i j = Some None"
proof (induction key p ns i j rule: scan_key.induct)
  case (1 key p ns i j)
  show ?case
  proof (cases "j < i")
    case False
    then show ?thesis by (subst scan_key.simps) simp
  next
    case True
    have at: "p ! j = q ! j" "p ! (j + 1) = q ! (j + 1)" "j + 1 < length q" "j + 1 < length p"
      using agreeD [OF "1.prems"(2), of j] agreeD [OF "1.prems"(2), of "j + 1"] True "1.prems"(3) by simp_all
    have cmp: "strncmp_eq key (drop ns p) (j + 1 - ns) = strncmp_eq key (drop ns q) (j + 1 - ns)"
      using True "1.prems"(3,4) by (intro agree_strncmp [OF "1.prems"(2)]) simp
    have step: "scan_key key q ns i (j + 1) = Some None"
      if "p ! j \<noteq> 0x3D" "\<not> (p ! (j + 1) = 0x3D \<and> strncmp_eq key (drop ns p) (j + 1 - ns))"
        "scan_key key p ns i (j + 1) = Some None"
      using "1.IH" [OF True at(4) that "1.prems"(2,3)] "1.prems"(4) by simp
    show ?thesis
      using "1.prems"(1) True at cmp step
      by (subst scan_key.simps, subst (asm) scan_key.simps) (auto split: if_splits)
  qed
qed

text \<open>One line of a section, and one step of the main loop, as rules.\<close>

lemma section_loop_cases:
  assumes "section_loop key p i = Some x"
  obtains "x = Inl i" "i < length p" "(newline (p ! (i - 1)) \<and> left_barce (p ! i)) \<or> end_of_string (p ! i)"
  | e r where "i < length p" "\<not> ((newline (p ! (i - 1)) \<and> left_barce (p ! i)) \<or> end_of_string (p ! i))"
      "line_end p i = Some e" "p ! i \<noteq> 0x3B" "scan_key key p i e i = Some (Some r)"
      "x = Inr \<lparr>key_s = i, key_e = int r - 1, value_s = r + 1, value_e = e\<rparr>"
  | e where "i < length p" "\<not> ((newline (p ! (i - 1)) \<and> left_barce (p ! i)) \<or> end_of_string (p ! i))"
      "line_end p i = Some e" "p ! i = 0x3B \<or> scan_key key p i e i = Some None"
      "section_loop key p (e + 1) = Some x"
  using assms by (subst (asm) section_loop.simps) (auto split: if_splits option.splits)

lemma section_loop_stop:
  "i < length p \<Longrightarrow> (newline (p ! (i - 1)) \<and> left_barce (p ! i)) \<or> end_of_string (p ! i) \<Longrightarrow>
     section_loop key p i = Some (Inl i)"
  by (subst section_loop.simps) auto

lemma section_loop_found:
  "i < length p \<Longrightarrow> \<not> ((newline (p ! (i - 1)) \<and> left_barce (p ! i)) \<or> end_of_string (p ! i)) \<Longrightarrow>
     line_end p i = Some e \<Longrightarrow> p ! i \<noteq> 0x3B \<Longrightarrow> scan_key key p i e i = Some (Some r) \<Longrightarrow>
     section_loop key p i = Some (Inr \<lparr>key_s = i, key_e = int r - 1, value_s = r + 1, value_e = e\<rparr>)"
  by (subst section_loop.simps) auto

lemma section_loop_next:
  "i < length p \<Longrightarrow> \<not> ((newline (p ! (i - 1)) \<and> left_barce (p ! i)) \<or> end_of_string (p ! i)) \<Longrightarrow>
     line_end p i = Some e \<Longrightarrow> p ! i = 0x3B \<or> scan_key key p i e i = Some None \<Longrightarrow>
     section_loop key p i = section_loop key p (e + 1)"
  by (subst section_loop.simps) auto

lemma section_loop_range:
  "section_loop key p i = Some (Inr f) \<Longrightarrow>
     i \<le> key_s f \<and> key_s f + 1 < value_s f \<and> value_s f \<le> value_e f + 1 \<and> p ! (value_s f - 1) = 0x3D \<and>
     line_end p (key_s f) = Some (value_e f)"
proof (induction "length p - i" arbitrary: i rule: less_induct)
  case less
  from less.prems show ?case
  proof (cases rule: section_loop_cases)
    case (2 e r)
    then show ?thesis using scan_key_range [OF 2(5)] by simp
  next
    case (3 e)
    have e: "i \<le> e" using line_end_ge [OF 3(3)] by simp
    then have "length p - (e + 1) < length p - i" using 3(1) by arith
    from less.hyps [OF this 3(5)] e show ?thesis by simp
  qed simp
qed

lemma section_loop_agree_Inl:
  "section_loop key p i = Some (Inl j) \<Longrightarrow> agree m p q \<Longrightarrow> j < m \<Longrightarrow> section_loop key q i = Some (Inl j)"
proof (induction "length p - i" arbitrary: i rule: less_induct)
  case less
  have ij: "i \<le> j" using section_loop_ge [OF less.prems(1)] by simp
  have at: "p ! i = q ! i" "p ! (i - 1) = q ! (i - 1)" "i < length q"
    using agreeD [OF less.prems(2), of i] agreeD [OF less.prems(2), of "i - 1"] ij less.prems(3) by simp_all
  from less.prems(1) show ?case
  proof (cases rule: section_loop_cases)
    case 1
    then show ?thesis using section_loop_stop [of i q key] at by simp
  next
    case (3 e)
    have ge: "i \<le> e" "e + 1 \<le> j" using line_end_ge [OF 3(3)] section_loop_ge [OF 3(5)] by simp_all
    then have le: "line_end q i = Some e" using line_end_agree [OF 3(3) less.prems(2)] less.prems(3) by simp
    have key: "q ! i = 0x3B \<or> scan_key key q i e i = Some None"
      using 3(4) at scan_key_agree_None [OF _ less.prems(2), of key i e i] ge less.prems(3) by auto
    have "length p - (e + 1) < length p - i" using 3(1) ge by arith
    from less.hyps [OF this 3(5) less.prems(2,3)]
    show ?thesis using section_loop_next [OF at(3) _ le key] 3(2) at by simp
  qed simp
qed

lemma section_loop_agree_Inr:
  "section_loop key p i = Some (Inr f) \<Longrightarrow> agree (value_s f) p q \<Longrightarrow>
     line_end q (key_s f) = Some e' \<Longrightarrow> value_s f \<le> e' + 1 \<Longrightarrow>
     section_loop key q i = Some (Inr (f\<lparr>value_e := e'\<rparr>))"
proof (induction "length p - i" arbitrary: i rule: less_induct)
  case less
  have im: "i \<le> key_s f" "key_s f + 1 < value_s f" using section_loop_range [OF less.prems(1)] by simp_all
  have at: "p ! i = q ! i" "p ! (i - 1) = q ! (i - 1)" "i < length q"
    using agreeD [OF less.prems(2), of i] agreeD [OF less.prems(2), of "i - 1"] im by simp_all
  from less.prems(1) show ?case
  proof (cases rule: section_loop_cases)
    case (2 e r)
    then have f: "key_s f = i" "value_s f = r + 1" by simp_all
    have "scan_key key q i e' i = Some (Some r)"
      using less.prems(2,4) f by (intro scan_key_agree [OF 2(5), of "r + 1"]) simp_all
    then show ?thesis
      using section_loop_found [OF at(3), of e' key r] 2(2,4,6) at less.prems(3) f(1) by simp
  next
    case (3 e)
    have ge: "i \<le> e" "e + 1 \<le> key_s f" using line_end_ge [OF 3(3)] section_loop_range [OF 3(5)] by simp_all
    then have le: "line_end q i = Some e" using line_end_agree [OF 3(3) less.prems(2)] im by simp
    have key: "q ! i = 0x3B \<or> scan_key key q i e i = Some None"
      using 3(4) at scan_key_agree_None [OF _ less.prems(2), of key i e i] ge im by auto
    have "length p - (e + 1) < length p - i" using 3(1) ge by arith
    from less.hyps [OF this 3(5) less.prems(2,3,4)]
    show ?thesis using section_loop_next [OF at(3) _ le key] 3(2) at by simp
  qed simp
qed

definition header_at :: "byte list \<Rightarrow> nat \<Rightarrow> bool" where
  "header_at p i \<longleftrightarrow> (i = 0 \<or> newline (p ! (i - 1))) \<and> left_barce (p ! i)"

lemma parse_loop_step:
  assumes "i < length p" "\<not> end_of_string (p ! i)"
  shows "\<not> header_at p i \<Longrightarrow> parse_loop sec key p i st = parse_loop sec key p (i + 1) st"
    and "header_at p i \<Longrightarrow> find_right p i = Some r \<Longrightarrow> \<not> strncmp_eq (drop (i + 1) p) sec (r - (i + 1)) \<Longrightarrow>
      parse_loop sec key p i st = parse_loop sec key p r st"
    and "header_at p i \<Longrightarrow> find_right p i = Some r \<Longrightarrow> strncmp_eq (drop (i + 1) p) sec (r - (i + 1)) \<Longrightarrow>
      skip_space p (r + 1) = Some e \<Longrightarrow> section_loop key p e = Some (Inr f) \<Longrightarrow>
      parse_loop sec key p i st = Some (st\<lparr>sec_s := int (i + 1), sec_e := int e, at_key := Some f\<rparr>)"
    and "header_at p i \<Longrightarrow> find_right p i = Some r \<Longrightarrow> strncmp_eq (drop (i + 1) p) sec (r - (i + 1)) \<Longrightarrow>
      skip_space p (r + 1) = Some e \<Longrightarrow> section_loop key p e = Some (Inl j) \<Longrightarrow>
      parse_loop sec key p i st = parse_loop sec key p j (st\<lparr>sec_s := int (i + 1), sec_e := int e\<rparr>)"
  using assms by (subst parse_loop.simps; auto simp: header_at_def)+

lemma parse_loop_cases:
  assumes "parse_loop sec key p i st = Some x"
  obtains "i < length p" "end_of_string (p ! i)" "x = st"
  | "i < length p" "\<not> end_of_string (p ! i)" "\<not> header_at p i" "parse_loop sec key p (i + 1) st = Some x"
  | r where "i < length p" "\<not> end_of_string (p ! i)" "header_at p i" "find_right p i = Some r"
      "\<not> strncmp_eq (drop (i + 1) p) sec (r - (i + 1))" "parse_loop sec key p r st = Some x"
  | r e f where "i < length p" "\<not> end_of_string (p ! i)" "header_at p i" "find_right p i = Some r"
      "strncmp_eq (drop (i + 1) p) sec (r - (i + 1))" "skip_space p (r + 1) = Some e"
      "section_loop key p e = Some (Inr f)"
      "x = st\<lparr>sec_s := int (i + 1), sec_e := int e, at_key := Some f\<rparr>"
  | r e j where "i < length p" "\<not> end_of_string (p ! i)" "header_at p i" "find_right p i = Some r"
      "strncmp_eq (drop (i + 1) p) sec (r - (i + 1))" "skip_space p (r + 1) = Some e"
      "section_loop key p e = Some (Inl j)"
      "parse_loop sec key p j (st\<lparr>sec_s := int (i + 1), sec_e := int e\<rparr>) = Some x"
proof -
  note result = that
  show thesis
  proof (cases "i < length p \<and> \<not> end_of_string (p ! i)")
    case False
    then show thesis using assms result(1) by (subst (asm) parse_loop.simps) (auto split: if_splits)
  next
    case True
    then show thesis
    proof (cases "header_at p i")
      case False
      then show thesis using assms True parse_loop_step(1) [of i p] result(2) by simp
    next
      case header: True
      then obtain r where r: "find_right p i = Some r"
        using assms True by (subst (asm) parse_loop.simps) (auto simp: header_at_def split: option.splits)
      show thesis
      proof (cases "strncmp_eq (drop (i + 1) p) sec (r - (i + 1))")
        case False
        then show thesis using assms True header r parse_loop_step(2) [of i p r] result(3) by simp
      next
        case name: True
        then obtain e y where e: "skip_space p (r + 1) = Some e" "section_loop key p e = Some y"
          using assms True header r
          by (subst (asm) parse_loop.simps) (auto simp: header_at_def Let_def split: option.splits)
        show thesis
        proof (cases y)
          case (Inl j)
          have "parse_loop sec key p j (st\<lparr>sec_s := int (i + 1), sec_e := int e\<rparr>) = Some x"
            using assms True header r name e Inl parse_loop_step(4) [of i p r sec e key j st] by simp
          with result(5) True header r name e Inl show thesis by blast
        next
          case (Inr f)
          have "x = st\<lparr>sec_s := int (i + 1), sec_e := int e, at_key := Some f\<rparr>"
            using assms True header r name e Inr parse_loop_step(3) [of i p r sec e key f st] by simp
          with result(4) True header r name e Inr show thesis by blast
        qed
      qed
    qed
  qed
qed

lemma parse_loop_range:
  "parse_loop sec key p i st = Some x \<Longrightarrow> at_key st = None \<Longrightarrow> at_key x = Some f \<Longrightarrow>
     i < key_s f \<and> key_s f + 1 < value_s f \<and> value_s f \<le> value_e f + 1 \<and> p ! (value_s f - 1) = 0x3D \<and>
     line_end p (key_s f) = Some (value_e f)"
proof (induction "length p - i" arbitrary: i st rule: less_induct)
  case less
  from less.prems(1) show ?case
  proof (cases rule: parse_loop_cases)
    case 2
    have "length p - (i + 1) < length p - i" using 2(1) by arith
    from less.hyps [OF this 2(4) less.prems(2,3)] show ?thesis by simp
  next
    case (3 r)
    have r: "i < r" using find_right_ge [OF 3(4)] by simp
    then have "length p - r < length p - i" using 3(1) by arith
    from less.hyps [OF this 3(6) less.prems(2,3)] r show ?thesis by simp
  next
    case (4 r e f')
    have "i < e" using find_right_ge [OF 4(4)] skip_space_ge [OF 4(6)] by simp
    then show ?thesis using section_loop_range [OF 4(7)] 4(8) less.prems(3) by simp
  next
    case (5 r e j)
    have j: "i < j" using find_right_ge [OF 5(4)] skip_space_ge [OF 5(6)] section_loop_ge [OF 5(7)] by simp
    then have "length p - j < length p - i" using 5(1) by arith
    from less.hyps [OF this 5(8)] less.prems(2,3) j show ?thesis by simp
  qed (use less.prems in simp)
qed

lemma parse_loop_agree:
  "parse_loop sec key p i st = Some x \<Longrightarrow> at_key st = None \<Longrightarrow> at_key x = Some f \<Longrightarrow>
     agree (value_s f) p q \<Longrightarrow> line_end q (key_s f) = Some e' \<Longrightarrow> value_s f \<le> e' + 1 \<Longrightarrow>
     parse_loop sec key q i st = Some (x\<lparr>at_key := Some (f\<lparr>value_e := e'\<rparr>)\<rparr>)"
proof (induction "length p - i" arbitrary: i st rule: less_induct)
  case less
  note ag = less.prems(4) and range = parse_loop_range [OF less.prems(1,2,3)]
  have lt: "i < value_s f" "i - 1 < value_s f" using range by linarith+
  have at: "p ! i = q ! i" "p ! (i - 1) = q ! (i - 1)" "i < length q"
    using agreeD [OF ag lt(1)] agreeD [OF ag lt(2)] by simp_all
  then have hd: "header_at q i = header_at p i" by (simp add: header_at_def)
  have right: "find_right q i = Some r" if "find_right p i = Some r" "r < value_s f" for r
    by (rule find_right_agree [OF that(1) ag that(2)])
  have name: "strncmp_eq (drop (i + 1) p) sec (r - (i + 1)) = strncmp_eq (drop (i + 1) q) sec (r - (i + 1))"
    if "i < r" "r < value_s f" for r
    using that by (intro agree_strncmp [OF ag]) simp
  from less.prems(1) show ?case
  proof (cases rule: parse_loop_cases)
    case 2
    have "length p - (i + 1) < length p - i" using 2(1) by arith
    from less.hyps [OF this 2(4) less.prems(2-6)]
    show ?thesis using parse_loop_step(1) [of i q] at hd 2(2,3) by simp
  next
    case (3 r)
    have r: "i < r" using find_right_ge [OF 3(4)] by simp
    have rm: "r < value_s f" using parse_loop_range [OF 3(6) less.prems(2,3)] by simp
    have "length p - r < length p - i" using r 3(1) by arith
    from less.hyps [OF this 3(6) less.prems(2-6)]
    show ?thesis
      using parse_loop_step(2) [of i q r sec key st] at hd 3(2,3,5) right [OF 3(4) rm] name [OF r rm] by simp
  next
    case (4 r e f')
    have f: "f' = f" using 4(8) less.prems(3) by simp
    have ge: "i < r" "r + 1 \<le> e" "e < value_s f"
      using find_right_ge [OF 4(4)] skip_space_ge [OF 4(6)] section_loop_range [OF 4(7)] f by simp_all
    have rm: "r < value_s f" using ge by simp
    have sp: "skip_space q (r + 1) = Some e" by (rule skip_space_agree [OF 4(6) ag ge(3)])
    have "section_loop key q e = Some (Inr (f\<lparr>value_e := e'\<rparr>))"
      using section_loop_agree_Inr [OF 4(7)] ag less.prems(5,6) f by simp
    then show ?thesis
      using parse_loop_step(3) [of i q r sec e key "f\<lparr>value_e := e'\<rparr>" st] at hd 4(2,3,5,8)
        right [OF 4(4) rm] name [OF ge(1) rm] sp by simp
  next
    case (5 r e j)
    have ge: "i < r" "r + 1 \<le> e" "e \<le> j"
      using find_right_ge [OF 5(4)] skip_space_ge [OF 5(6)] section_loop_ge [OF 5(7)] by simp_all
    have jm: "j < value_s f" using parse_loop_range [OF 5(8)] less.prems(2,3) by simp
    have rm: "r < value_s f" "e < value_s f" using ge jm by simp_all
    have sp: "skip_space q (r + 1) = Some e" by (rule skip_space_agree [OF 5(6) ag rm(2)])
    have sl: "section_loop key q e = Some (Inl j)" by (rule section_loop_agree_Inl [OF 5(7) ag jm])
    have "length p - j < length p - i" using ge 5(1) by arith
    from less.hyps [OF this 5(8) _ less.prems(3-6)] less.prems(2)
    have "parse_loop sec key q j (st\<lparr>sec_s := int (i + 1), sec_e := int e\<rparr>) =
        Some (x\<lparr>at_key := Some (f\<lparr>value_e := e'\<rparr>)\<rparr>)" by simp
    then show ?thesis
      using parse_loop_step(4) [of i q r sec e key j st] at hd 5(2,3,5) right [OF 5(4) rm(1)]
        name [OF ge(1) rm(1)] sp sl by simp
  qed (use less.prems in simp)
qed

section \<open>Updating a value\<close>

lemma line_end_stop:
  "line_end p i = Some j \<Longrightarrow> (newline (p ! j) \<or> end_of_string (p ! j)) \<and>
     (\<forall>k. i \<le> k \<and> k < j \<longrightarrow> \<not> newline (p ! k) \<and> \<not> end_of_string (p ! k))"
proof (induction p i rule: line_end.induct)
  case (1 p i)
  show ?case
  proof (cases "i < length p \<and> \<not> newline (p ! i) \<and> \<not> end_of_string (p ! i)")
    case True
    then have "line_end p (i + 1) = Some j" using "1.prems" by (subst (asm) line_end.simps) simp
    with "1.IH" True have "newline (p ! j) \<or> end_of_string (p ! j)"
      "\<forall>k. i + 1 \<le> k \<and> k < j \<longrightarrow> \<not> newline (p ! k) \<and> \<not> end_of_string (p ! k)" by blast+
    then show ?thesis using True by (metis Suc_eq_plus1 le_antisym not_less_eq_eq)
  next
    case False
    then show ?thesis using "1.prems" by (subst (asm) line_end.simps) (auto split: if_splits)
  qed
qed

lemma line_end_eq:
  "i \<le> j \<Longrightarrow> j < length p \<Longrightarrow> newline (p ! j) \<or> end_of_string (p ! j) \<Longrightarrow>
     (\<forall>k. i \<le> k \<and> k < j \<longrightarrow> \<not> newline (p ! k) \<and> \<not> end_of_string (p ! k)) \<Longrightarrow> line_end p i = Some j"
proof (induction "j - i" arbitrary: i)
  case 0
  then show ?case by (subst line_end.simps) auto
next
  case (Suc n)
  then have "line_end p (i + 1) = Some j" by simp
  moreover have "i < j" using Suc.hyps(2) by simp
  ultimately show ?case using Suc.prems by (subst line_end.simps) auto
qed

text \<open>A file that fits, without zero bytes and bytes 255, is loaded as it is.\<close>

definition plain_file :: "byte list \<Rightarrow> bool" where
  "plain_file c \<longleftrightarrow> 0 \<notin> set c \<and> 0xFF \<notin> set c \<and> length c < MAX_FILE_SIZE"

definition loaded :: "byte list \<Rightarrow> byte list" where
  "loaded c = c @ replicate (MAX_FILE_SIZE - length c) 0"

lemma load_plain: "plain_file c \<Longrightarrow> load_ini_file (Some c) = Some (1, loaded c, length c)"
proof -
  assume c: "plain_file c"
  have "takeWhile (\<lambda>b. b \<noteq> 0xFF) c = c"
    by (rule takeWhile_eq_all_conv [THEN iffD2]) (use c in \<open>auto simp: plain_file_def\<close>)
  with c show ?thesis
    by (simp add: load_ini_file_def loaded_def plain_file_def Let_def del: takeWhile_eq_all_conv)
qed

lemma length_loaded [simp]: "plain_file c \<Longrightarrow> length (loaded c) = MAX_FILE_SIZE"
  by (simp add: loaded_def plain_file_def)

lemma loaded_nth: "plain_file c \<Longrightarrow> k < MAX_FILE_SIZE \<Longrightarrow> loaded c ! k = (if k < length c then c ! k else 0)"
  by (simp add: loaded_def nth_append)

lemma parse_loop_section:
  "parse_loop sec key p i st = Some x \<Longrightarrow> at_key st = None \<Longrightarrow> at_key x \<noteq> None \<Longrightarrow> 0 < sec_s x"
proof (induction "length p - i" arbitrary: i st rule: less_induct)
  case less
  from less.prems(1) show ?case
  proof (cases rule: parse_loop_cases)
    case 2
    have "length p - (i + 1) < length p - i" using 2(1) by arith
    from less.hyps [OF this 2(4) less.prems(2,3)] show ?thesis .
  next
    case (3 r)
    have "length p - r < length p - i" using find_right_ge [OF 3(4)] 3(1) by arith
    from less.hyps [OF this 3(6) less.prems(2,3)] show ?thesis .
  next
    case (5 r e j)
    have "i < j" using find_right_ge [OF 5(4)] skip_space_ge [OF 5(6)] section_loop_ge [OF 5(7)] by simp
    then have "length p - j < length p - i" using 5(1) by arith
    from less.hyps [OF this 5(8)] less.prems(2,3) show ?thesis by simp
  qed (use less.prems in simp_all)
qed

text \<open>Where the key and its value are: inside the file, the value up to the end of its line.\<close>

lemma key_bounds:
  assumes c: "plain_file c" and st: "parse_file sec key (loaded c) = Some st" "at_key st = Some f"
  shows "sec \<noteq> []" "key \<noteq> []" "0 < sec_s st"
    "key_s f + 1 < value_s f" "value_s f \<le> value_e f" "value_e f \<le> length c"
    "line_end (loaded c) (key_s f) = Some (value_e f)"
    "parse_loop sec key (loaded c) 0 \<lparr>sec_s = - 1, sec_e = - 1, at_key = None\<rparr> = Some st"
proof -
  let ?p = "loaded c"
  show keys: "sec \<noteq> []" "key \<noteq> []" using st(1) by (auto simp: parse_file_def split: if_splits)
  show pl: "parse_loop sec key ?p 0 \<lparr>sec_s = - 1, sec_e = - 1, at_key = None\<rparr> = Some st"
    using st(1) keys by (simp add: parse_file_def)
  show "0 < sec_s st" using parse_loop_section [OF pl] st(2) by simp
  have range: "key_s f + 1 < value_s f" "value_s f \<le> value_e f + 1" "?p ! (value_s f - 1) = 0x3D"
    "line_end ?p (key_s f) = Some (value_e f)"
    using parse_loop_range [OF pl _ st(2)] by simp_all
  note stop = line_end_stop [OF range(4)]
  have e: "value_e f < MAX_FILE_SIZE" using line_end_ge [OF range(4)] c by simp
  have "value_e f \<noteq> value_s f - 1"
    using stop range(3) by (auto simp: newline_def end_of_string_def)
  with range(1,2) show ve: "value_s f \<le> value_e f" by simp
  have "value_s f - 1 < MAX_FILE_SIZE" using e ve by linarith
  then have "value_s f - 1 < length c"
    using range(3) loaded_nth [OF c, of "value_s f - 1"] by (simp split: if_splits)
  then have vs: "value_s f \<le> length c" by simp
  show "value_e f \<le> length c"
  proof (rule ccontr)
    assume "\<not> value_e f \<le> length c"
    then have "key_s f \<le> length c \<and> length c < value_e f" using range(1) vs by simp
    then have "\<not> end_of_string (?p ! length c)" using stop by blast
    moreover have "?p ! length c = 0" using c loaded_nth [OF c, of "length c"] by (simp add: plain_file_def)
    ultimately show False by (simp add: end_of_string_def)
  qed
  show "key_s f + 1 < value_s f" "line_end ?p (key_s f) = Some (value_e f)" by (rule range)+
qed

text \<open>The file with the bytes of the value replaced, and how the parser sees it.\<close>

definition with_value :: "found \<Rightarrow> byte list \<Rightarrow> byte list \<Rightarrow> byte list" where
  "with_value f v c = take (value_s f) c @ v @ drop (value_e f) c"

definition one_line :: "byte list \<Rightarrow> bool" where
  "one_line v \<longleftrightarrow> (\<forall>b \<in> set v. \<not> newline b \<and> b \<noteq> 0 \<and> b \<noteq> 0xFF)"

lemma with_value_plain:
  assumes "plain_file c" "one_line v" "value_s f \<le> length c"
    "value_s f + length v + (length c - value_e f) < MAX_FILE_SIZE"
  shows "plain_file (with_value f v c)"
    "length (with_value f v c) = value_s f + length v + (length c - value_e f)"
proof -
  show l: "length (with_value f v c) = value_s f + length v + (length c - value_e f)"
    using assms(3) by (simp add: with_value_def)
  have "set (with_value f v c) \<subseteq> set c \<union> set v"
    using set_take_subset [of "value_s f" c] set_drop_subset [of "value_e f" c] by (auto simp: with_value_def)
  then show "plain_file (with_value f v c)" using assms(1,2,4) l by (auto simp: plain_file_def one_line_def)
qed

lemma parse_updated:
  assumes c: "plain_file c" and st: "parse_file sec key (loaded c) = Some st" "at_key st = Some f"
    and v: "one_line v" and fits: "value_s f + length v + (length c - value_e f) < MAX_FILE_SIZE"
  shows "parse_file sec key (loaded (with_value f v c)) =
    Some (st\<lparr>at_key := Some (f\<lparr>value_e := value_s f + length v\<rparr>)\<rparr>)"
proof -
  let ?p = "loaded c" and ?q = "loaded (with_value f v c)" and ?e = "value_s f + length v"
  note b = key_bounds [OF c st]
  note stop = line_end_stop [OF b(7)]
  have vs: "value_s f \<le> length c" using b(5,6) by simp
  note new = with_value_plain [OF c v vs fits]
  have q: "?q ! k = (if k < value_s f then ?p ! k else if k < ?e then v ! (k - value_s f) else ?p ! value_e f)"
    if "k \<le> ?e" for k
  proof -
    have k: "k < MAX_FILE_SIZE" "value_e f < MAX_FILE_SIZE"
      using that fits line_end_ge [OF b(7)] c by simp_all
    have at: "?q ! k = (if k < length (with_value f v c) then with_value f v c ! k else 0)"
      by (rule loaded_nth [OF new(1) k(1)])
    consider "k < value_s f" | "value_s f \<le> k" "k < ?e" | "k = ?e"
      using \<open>k \<le> ?e\<close> by linarith
    then show ?thesis
    proof cases
      case 1
      then show ?thesis using at new(2) vs k loaded_nth [OF c k(1)] by (simp add: with_value_def nth_append)
    next
      case 2
      then have "k - value_s f < length v" by simp
      then show ?thesis using 2 at new(2) vs by (simp add: with_value_def nth_append)
    next
      case 3
      then show ?thesis
        using at new(2) vs b(6) loaded_nth [OF c k(2)] by (auto simp: with_value_def nth_append)
    qed
  qed
  have ag: "agree (value_s f) ?p ?q"
    using c new(1) vs q fits by (simp add: agree_def)
  have le: "line_end ?q (key_s f) = Some ?e"
  proof (rule line_end_eq)
    show "key_s f \<le> ?e" "?e < length ?q" using b(4) fits new(1) by simp_all
    show "newline (?q ! ?e) \<or> end_of_string (?q ! ?e)" using stop q [of ?e] by simp
    show "\<forall>k. key_s f \<le> k \<and> k < ?e \<longrightarrow> \<not> newline (?q ! k) \<and> \<not> end_of_string (?q ! k)"
    proof (intro allI impI)
      fix k assume k: "key_s f \<le> k \<and> k < ?e"
      show "\<not> newline (?q ! k) \<and> \<not> end_of_string (?q ! k)"
      proof (cases "k < value_s f")
        case True
        then show ?thesis using stop q [of k] k b(5) by simp
      next
        case False
        then have "k - value_s f < length v" using k by linarith
        then have "v ! (k - value_s f) \<in> set v" by simp
        then show ?thesis using v q [of k] k False by (simp add: end_of_string_def one_line_def)
      qed
    qed
  qed
  have "parse_loop sec key ?q 0 \<lparr>sec_s = - 1, sec_e = - 1, at_key = None\<rparr> =
      Some (st\<lparr>at_key := Some (f\<lparr>value_e := ?e\<rparr>)\<rparr>)"
    by (rule parse_loop_agree [OF b(8) _ st(2) ag le]) simp_all
  then show ?thesis using b(1,2) by (simp add: parse_file_def)
qed

lemma write_updates:
  assumes c: "plain_file c" and st: "parse_file sec key (loaded c) = Some st" "at_key st = Some f"
    and v: "one_line v" and fits: "value_s f + length v + (length c - value_e f) < MAX_FILE_SIZE"
  shows "write_profile_string sec key v (Some c) True = Some (1, Some (with_value f v c))"
proof -
  note b = key_bounds [OF c st]
  have le: "value_s f \<le> length c" using b(5,6) by simp
  note new = with_value_plain [OF c v le fits]
  have w: "take (value_s f) (loaded c) @ v @ take (length c - value_e f) (drop (value_e f) (loaded c)) =
      with_value f v c"
    using le b(6) by (simp add: loaded_def with_value_def)
  have "c_str (with_value f v c) = with_value f v c"
    by (rule c_str_id) (use new(1) in \<open>simp add: plain_file_def\<close>)
  moreover have "write_profile_string sec key v (Some c) True =
      (if length (with_value f v c) < MAX_FILE_SIZE then Some (1, Some (c_str (with_value f v c))) else None)"
    unfolding w [symmetric] using b(1,2,3) st
    by (simp add: write_profile_string_def load_plain [OF c] del: length_append length_take length_drop)
  ultimately show ?thesis using new(2) fits by simp
qed

lemma read_updated:
  assumes c: "plain_file c" and st: "parse_file sec key (loaded c) = Some st" "at_key st = Some f"
    and n: "0 < n"
  shows "read_profile_string sec key value0 n dflt (Some c) =
    Some (1, take (n - 1) (take (value_e f - value_s f) (drop (value_s f) c)) @
      replicate (n - min (value_e f - value_s f) (n - 1)) 0)"
proof -
  note b = key_bounds [OF c st]
  have lt: "value_e f < MAX_FILE_SIZE" using line_end_ge [OF b(7)] c by simp
  let ?k = "min (value_e f - value_s f) (n - 1)"
  have "take ?k (drop (value_s f) (loaded c)) = take (n - 1) (take (value_e f - value_s f) (drop (value_s f) c))"
    using b(5,6) by (simp add: loaded_def min.commute)
  then have "read_at (value_s f) ?k (loaded c) =
      Some (take (n - 1) (take (value_e f - value_s f) (drop (value_s f) c)))"
    using lt b(5) c by (simp add: read_at_def)
  then show ?thesis
    using b(1,2) st n by (simp add: read_profile_string_def load_plain [OF c] Let_def)
qed

text \<open>
  C15: Writing a value and reading it back: if the file has the key, \<open>write_profile_string\<close> replaces exactly
  the bytes of its value, and \<open>read_profile_string\<close> on the new file returns the new value, cut to the
  caller's buffer and terminated.
\<close>

theorem update_then_read:
  assumes c: "plain_file c" and st: "parse_file sec key (loaded c) = Some st" "at_key st = Some f"
    and v: "one_line v" and n: "0 < n"
    and fits: "value_s f + length v + (length c - value_e f) < MAX_FILE_SIZE"
  shows "write_profile_string sec key v (Some c) True = Some (1, Some (with_value f v c)) \<and>
    read_profile_string sec key value0 n dflt (Some (with_value f v c)) =
      Some (1, take (n - 1) v @ replicate (n - min (length v) (n - 1)) 0)"
proof
  show "write_profile_string sec key v (Some c) True = Some (1, Some (with_value f v c))"
    by (rule write_updates [OF c st v fits])
  have vs: "value_s f \<le> length c" using key_bounds [OF c st] by simp
  have "take (min (n - 1) (length v)) (drop (value_s f) (with_value f v c)) = take (n - 1) v"
    using vs by (simp add: with_value_def min_def)
  then show "read_profile_string sec key value0 n dflt (Some (with_value f v c)) =
      Some (1, take (n - 1) v @ replicate (n - min (length v) (n - 1)) 0)"
    using read_updated [OF with_value_plain(1) [OF c v vs fits] parse_updated [OF c st v fits] _ n] by simp
qed

text \<open>A smaller buffer is enough for the parser: the file and as many zeros as it looks at.\<close>

lemma parse_loop_extend:
  "parse_loop sec key p i st = Some x \<Longrightarrow> agree (length p) p q \<Longrightarrow> parse_loop sec key q i st = Some x"
proof (induction "length p - i" arbitrary: i st rule: less_induct)
  case less
  note ag = less.prems(2)
  from less.prems(1) have i: "i < length p" by (cases rule: parse_loop_cases)
  have at: "p ! i = q ! i" "p ! (i - 1) = q ! (i - 1)" "i < length q"
    using agreeD [OF ag i] agreeD [OF ag, of "i - 1"] i by simp_all
  then have hd: "header_at q i = header_at p i" by (simp add: header_at_def)
  have name: "strncmp_eq (drop (i + 1) p) sec (r - (i + 1)) = strncmp_eq (drop (i + 1) q) sec (r - (i + 1))"
    if "find_right p i = Some r" for r
    using find_right_ge [OF that] by (intro agree_strncmp [OF ag]) simp
  have sub: "find_right p i = Some r \<Longrightarrow> find_right q i = Some r"
    "skip_space p k = Some e \<Longrightarrow> skip_space q k = Some e" for r e k
    using find_right_agree [OF _ ag] find_right_ge [of p i r] skip_space_agree [OF _ ag] skip_space_ge [of p k e]
    by blast+
  from less.prems(1) show ?case
  proof (cases rule: parse_loop_cases)
    case 1
    then show ?thesis using at by (subst parse_loop.simps) simp
  next
    case 2
    have "length p - (i + 1) < length p - i" using i by arith
    from less.hyps [OF this 2(4) ag] show ?thesis using parse_loop_step(1) [of i q] at hd 2(2,3) by simp
  next
    case (3 r)
    have "length p - r < length p - i" using find_right_ge [OF 3(4)] i by arith
    from less.hyps [OF this 3(6) ag] show ?thesis
      using parse_loop_step(2) [of i q r sec key st] at hd 3(2,3,5) sub(1) [OF 3(4)] name [OF 3(4)] by simp
  next
    case (4 r e f)
    note range = section_loop_range [OF 4(7)]
    then have le: "line_end p (key_s f) = Some (value_e f)" by simp
    have "value_s f \<le> length p" using line_end_ge [OF le] range by simp
    then have "agree (value_s f) p q" using ag by (simp add: agree_def)
    from section_loop_agree_Inr [OF 4(7) this line_end_agree [OF le ag]] range line_end_ge [OF le]
    have "section_loop key q e = Some (Inr f)" by simp
    then show ?thesis
      using parse_loop_step(3) [of i q r sec e key f st] at hd 4(2,3,5,8) sub(1) [OF 4(4)] name [OF 4(4)]
        sub(2) [OF 4(6)] by simp
  next
    case (5 r e j)
    have "i < j" "j < length p"
      using find_right_ge [OF 5(4)] skip_space_ge [OF 5(6)] section_loop_ge [OF 5(7)] by simp_all
    then have "length p - j < length p - i" "section_loop key q e = Some (Inl j)"
      using section_loop_agree_Inl [OF 5(7) ag] i by (arith, simp)
    with less.hyps [OF this(1) 5(8) ag] show ?thesis
      using parse_loop_step(4) [of i q r sec e key j st] at hd 5(2,3,5) sub(1) [OF 5(4)] name [OF 5(4)]
        sub(2) [OF 5(6)] by simp
  qed
qed

lemma parse_loaded:
  assumes c: "plain_file c" and st: "parse_file sec key (c @ replicate z 0) = Some st"
    and z: "length c + z \<le> MAX_FILE_SIZE"
  shows "parse_file sec key (loaded c) = Some st"
proof -
  have "agree (length (c @ replicate z 0)) (c @ replicate z 0) (loaded c)"
    using c z loaded_nth [OF c] by (auto simp: agree_def nth_append)
  from parse_loop_extend [OF _ this] st show ?thesis by (simp add: parse_file_def split: if_splits)
qed

text \<open>\<open>[s]\<close>, and a line \<open>k=1\<close>.\<close>

definition ex_file :: "byte list" where "ex_file = [0x5B, 0x73, 0x5D, 0x0A, 0x6B, 0x3D, 0x31, 0x0A]"
definition ex_at :: found where "ex_at = \<lparr>key_s = 4, key_e = 4, value_s = 6, value_e = 7\<rparr>"

lemma ex_file_plain: "plain_file ex_file" by code_simp

lemma ex_file_parsed: "parse_file [0x73] [0x6B] (loaded ex_file) = Some \<lparr>sec_s = 1, sec_e = 4, at_key = Some ex_at\<rparr>"
  by (rule parse_loaded [OF ex_file_plain, where z = 1]; code_simp)

theorem update_then_read_witness:
  "write_profile_string [0x73] [0x6B] [0x32, 0x33] (Some ex_file) True =
     Some (1, Some [0x5B, 0x73, 0x5D, 0x0A, 0x6B, 0x3D, 0x32, 0x33, 0x0A]) \<and>
   read_profile_string [0x73] [0x6B] [] 2 None (Some [0x5B, 0x73, 0x5D, 0x0A, 0x6B, 0x3D, 0x32, 0x33, 0x0A]) =
     Some (1, [0x32, 0])"
proof -
  have new: "with_value ex_at [0x32, 0x33] ex_file = [0x5B, 0x73, 0x5D, 0x0A, 0x6B, 0x3D, 0x32, 0x33, 0x0A]"
    by code_simp
  have "one_line [0x32, 0x33]" "value_s ex_at + length [0x32, 0x33 :: byte] + (length ex_file - value_e ex_at) < MAX_FILE_SIZE"
    by code_simp+
  from update_then_read [OF ex_file_plain ex_file_parsed _ this(1) _ this(2), of 2 "[]" None]
  show ?thesis by (simp add: new)
qed

section \<open>Which line answers a query\<close>

lemma find_right_eq:
  "i < r \<Longrightarrow> r < length p \<Longrightarrow> isright_brace (p ! r) \<or> end_of_string (p ! r) \<Longrightarrow>
     (\<forall>k. i < k \<and> k < r \<longrightarrow> \<not> isright_brace (p ! k) \<and> \<not> end_of_string (p ! k)) \<Longrightarrow> find_right p i = Some r"
proof (induction "r - i" arbitrary: i)
  case (Suc n)
  show ?case
  proof (cases "i + 1 = r")
    case True
    then show ?thesis using Suc.prems by (subst find_right.simps) auto
  next
    case False
    then have "find_right p (i + 1) = Some r" using Suc by simp
    then show ?thesis using False Suc.prems by (subst find_right.simps) auto
  qed
qed simp

lemma scan_key_eq:
  "j < r \<Longrightarrow> r \<le> i \<Longrightarrow> r < length p \<Longrightarrow> p ! r = 0x3D \<Longrightarrow> (\<forall>k. j \<le> k \<and> k < r \<longrightarrow> p ! k \<noteq> 0x3D) \<Longrightarrow>
     strncmp_eq key (drop ns p) (r - ns) \<Longrightarrow> scan_key key p ns i j = Some (Some r)"
proof (induction "r - j" arbitrary: j)
  case (Suc n)
  show ?case
  proof (cases "j + 1 = r")
    case True
    then show ?thesis using Suc.prems by (subst scan_key.simps) auto
  next
    case False
    then have "scan_key key p ns i (j + 1) = Some (Some r)" using Suc by simp
    then show ?thesis using False Suc.prems by (subst scan_key.simps) auto
  qed
qed simp

text \<open>A file with one section and its first line: what the parser sees at each place.\<close>

definition one_key :: "byte list \<Rightarrow> byte list \<Rightarrow> byte list \<Rightarrow> byte list \<Rightarrow> byte list" where
  "one_key s k v rest = [0x5B] @ s @ [0x5D, 0x0A] @ k @ [0x3D] @ v @ [0x0A] @ rest"

lemma one_key_nth:
  "(one_key s k v rest @ z) ! 0 = 0x5B"
  "i < length s \<Longrightarrow> (one_key s k v rest @ z) ! (Suc i) = s ! i"
  "(one_key s k v rest @ z) ! (Suc (length s)) = 0x5D"
  "(one_key s k v rest @ z) ! (length s + 2) = 0x0A"
  "i < length k \<Longrightarrow> (one_key s k v rest @ z) ! (length s + 3 + i) = k ! i"
  "(one_key s k v rest @ z) ! (length s + 3 + length k) = 0x3D"
  "i < length v \<Longrightarrow> (one_key s k v rest @ z) ! (length s + 4 + length k + i) = v ! i"
  "(one_key s k v rest @ z) ! (length s + 4 + length k + length v) = 0x0A"
  by (simp_all add: one_key_def nth_append nth_Cons')

definition section_name :: "byte list \<Rightarrow> bool" where
  "section_name s \<longleftrightarrow> (\<forall>b \<in> set s. b \<noteq> 0 \<and> b \<noteq> 0x5D)"

definition key_name :: "byte list \<Rightarrow> bool" where
  "key_name k \<longleftrightarrow> one_line k \<and> 0x3D \<notin> set k \<and> k \<noteq> [] \<and> hd k \<noteq> 0x5B \<and> hd k \<noteq> 0x3B \<and> \<not> is_space (hd k)"

lemma parse_one_key:
  assumes s: "section_name s" and k: "key_name k" and v: "one_line v"
    and sec: "take (length s) sec = s" "sec \<noteq> []" and key: "take (length k) key = k"
  shows "parse_file sec key (one_key s k v rest @ replicate 1 0) =
    Some \<lparr>sec_s = 1, sec_e = int (length s) + 3,
      at_key = Some \<lparr>key_s = length s + 3, key_e = int (length s + 2 + length k),
        value_s = length s + 4 + length k, value_e = length s + 4 + length k + length v\<rparr>\<rparr>"
proof -
  let ?p = "one_key s k v rest @ [0]" and ?k = "length s + 3" and ?r = "length s + 3 + length k"
  let ?e = "length s + 4 + length k + length v"
  note at = one_key_nth [where s = s and k = k and v = v and rest = rest and z = "[0]"]
  have len: "?e < length ?p" by (simp add: one_key_def)
  have k0: "k \<noteq> []" and key0: "key \<noteq> []" using k key by (auto simp: key_name_def)
  have first: "?p ! ?k = hd k" using at(5) [of 0] k0 by (simp add: hd_conv_nth)
  have right: "find_right ?p 0 = Some (Suc (length s))"
  proof (rule find_right_eq)
    show "\<forall>i. 0 < i \<and> i < Suc (length s) \<longrightarrow> \<not> isright_brace (?p ! i) \<and> \<not> end_of_string (?p ! i)"
    proof (intro allI impI)
      fix i assume i: "0 < i \<and> i < Suc (length s)"
      then obtain j where "i = Suc j" "j < length s" by (cases i) auto
      then have "?p ! i \<in> set s" using at(2) by simp
      then show "\<not> isright_brace (?p ! i) \<and> \<not> end_of_string (?p ! i)"
        using s by (auto simp: section_name_def isright_brace_def end_of_string_def)
    qed
  qed (use len at(3) in \<open>simp_all add: isright_brace_def\<close>)
  have space: "skip_space ?p (length s + 2) = Some ?k"
  proof -
    have "is_space (0x0A :: byte)" "\<not> is_space (?p ! ?k)" using first k by (simp_all add: key_name_def is_space_def)
    then have "skip_space ?p ?k = Some ?k" using len by (subst skip_space.simps) simp
    with \<open>is_space 0x0A\<close> show ?thesis
      using at(4) len by (subst skip_space.simps) (simp add: numeral_3_eq_3)
  qed
  have name: "strncmp_eq (drop 1 ?p) sec (length s)" using sec by (simp add: strncmp_eq_def one_key_def)
  have chars: "\<forall>i. ?k \<le> i \<and> i < ?r \<longrightarrow> ?p ! i \<in> set k"
  proof (intro allI impI)
    fix i assume "?k \<le> i \<and> i < ?r"
    then obtain j where "i = ?k + j" "j < length k" by (metis le_Suc_ex nat_add_left_cancel_less)
    then show "?p ! i \<in> set k" using at(5) by simp
  qed
  have line: "line_end ?p ?k = Some ?e"
  proof (rule line_end_eq)
    show "\<forall>i. ?k \<le> i \<and> i < ?e \<longrightarrow> \<not> newline (?p ! i) \<and> \<not> end_of_string (?p ! i)"
    proof (intro allI impI)
      fix i assume i: "?k \<le> i \<and> i < ?e"
      consider "i < ?r" | "i = ?r" | j where "j < length v" "i = length s + 4 + length k + j"
      proof -
        have "i < ?r \<or> i = ?r \<or> i - (length s + 4 + length k) < length v \<and>
            i = length s + 4 + length k + (i - (length s + 4 + length k))" using i by arith
        with that show thesis by blast
      qed
      then show "\<not> newline (?p ! i) \<and> \<not> end_of_string (?p ! i)"
      proof cases
        case 1
        then have "?p ! i \<in> set k" using chars i by simp
        then show ?thesis using k by (auto simp: key_name_def one_line_def end_of_string_def)
      next
        case 2
        then show ?thesis using at(6) by (simp add: newline_def end_of_string_def)
      next
        case 3
        then have "?p ! i \<in> set v" using at(7) by simp
        then show ?thesis using v by (auto simp: one_line_def end_of_string_def)
      qed
    qed
  qed (use len at(8) in \<open>simp_all add: newline_def\<close>)
  have scan: "scan_key key ?p ?k ?e ?k = Some (Some ?r)"
  proof (rule scan_key_eq)
    show "\<forall>i. ?k \<le> i \<and> i < ?r \<longrightarrow> ?p ! i \<noteq> 0x3D" using chars k by (auto simp: key_name_def)
    show "strncmp_eq key (drop ?k ?p) (?r - ?k)" using key by (simp add: strncmp_eq_def one_key_def numeral_3_eq_3)
  qed (use len k0 at(6) in simp_all)
  have body: "\<not> ((newline (?p ! (?k - 1)) \<and> left_barce (?p ! ?k)) \<or> end_of_string (?p ! ?k))" "?p ! ?k \<noteq> 0x3B"
    using first k by (auto simp: key_name_def one_line_def left_barce_def end_of_string_def)
  have "section_loop key ?p ?k = Some (Inr \<lparr>key_s = ?k, key_e = int ?r - 1, value_s = ?r + 1, value_e = ?e\<rparr>)"
    using len by (intro section_loop_found [OF _ body(1) line body(2) scan]) simp
  moreover have "header_at ?p 0" "\<not> end_of_string (?p ! 0)" "0 < length ?p"
    using at(1) by (simp_all add: header_at_def left_barce_def end_of_string_def)
  ultimately show ?thesis
    using parse_loop_step(3) [of 0 ?p "Suc (length s)" sec ?k key _ "\<lparr>sec_s = - 1, sec_e = - 1, at_key = None\<rparr>"]
      right name space sec(2) key0 by (simp add: parse_file_def)
qed

lemma read_one_key:
  assumes c: "plain_file (one_key s k v rest)" and s: "section_name s" and k: "key_name k" and v: "one_line v"
    and sec: "s @ s' \<noteq> []" and n: "0 < n"
  shows "read_profile_string (s @ s') (k @ k') value0 n dflt (Some (one_key s k v rest)) =
    Some (1, take (n - 1) v @ replicate (n - min (length v) (n - 1)) 0)"
proof -
  let ?c = "one_key s k v rest"
  have "drop (length s + 4 + length k) ?c = v @ 0x0A # rest"
    by (simp add: one_key_def numeral_eq_Suc)
  moreover have p: "parse_file (s @ s') (k @ k') (loaded ?c) =
    Some \<lparr>sec_s = 1, sec_e = int (length s) + 3,
      at_key = Some \<lparr>key_s = length s + 3, key_e = int (length s + 2 + length k),
        value_s = length s + 4 + length k, value_e = length s + 4 + length k + length v\<rparr>\<rparr>"
    using parse_one_key [OF s k v _ sec, of "k @ k'" rest] c
    by (intro parse_loaded [OF c, of _ _ 1]) (simp_all add: plain_file_def)
  ultimately show ?thesis
    using read_updated [OF c p _ n] by (simp add: min_def)
qed

text \<open>
  Which line answers a query: a line \<open>k=v\<close> in a section \<open>[s]\<close> at the start of the file is taken as the answer
  to every key that begins with \<open>k\<close> in every section that begins with \<open>s\<close> (the comparison has the
  length of the file's names), and the value returned is the rest of the line, cut to the caller's buffer.
\<close>

theorem prefix_key_answers:
  assumes c: "plain_file (one_key s k v rest)" and s: "section_name s" and k: "key_name k" and v: "one_line v"
    and sec: "s @ s' \<noteq> []" and n: "0 < n"
  shows "read_profile_string (s @ s') (k @ k') value0 n dflt (Some (one_key s k v rest)) =
    Some (1, take (n - 1) v @ replicate (n - min (length v) (n - 1)) 0)"
  by (rule read_one_key [OF assms])

text \<open>A file \<open>[sv]\<close> with the line \<open>i=1\<close> answers the query for \<open>ip\<close> in \<open>svr\<close>.\<close>

theorem prefix_key_answers_witness:
  "read_profile_string [0x73, 0x76, 0x72] [0x69, 0x70] [] 3 None
     (Some [0x5B, 0x73, 0x76, 0x5D, 0x0A, 0x69, 0x3D, 0x31, 0x0A]) = Some (1, [0x31, 0, 0])"
proof -
  have eq: "one_key [0x73, 0x76] [0x69] [0x31] [] = [0x5B, 0x73, 0x76, 0x5D, 0x0A, 0x69, 0x3D, 0x31, 0x0A]"
    by code_simp
  have "plain_file (one_key [0x73, 0x76] [0x69] [0x31] [])" "section_name [0x73, 0x76]" "key_name [0x69]"
    "one_line [0x31]" by code_simp+
  from prefix_key_answers [OF this, of "[0x72]" 3 "[0x70]" "[]" None]
  show ?thesis by (simp add: eq numeral_2_eq_2)
qed

section \<open>Adding a key\<close>

lemma c_format_plain: "0x25 \<notin> set f \<Longrightarrow> c_format f args = Some f"
  by (induction f) auto

lemma c_str_stops: "0 \<notin> set xs \<Longrightarrow> c_str (xs @ 0 # ys) = xs"
  by (induction xs) (auto simp: c_str_def)

lemma c_str_loaded: "plain_file c \<Longrightarrow> k \<le> length c \<Longrightarrow> c_str (drop k (loaded c)) = drop k c"
proof -
  assume c: "plain_file c" and k: "k \<le> length c"
  then obtain z where "MAX_FILE_SIZE - length c = Suc z" by (cases "MAX_FILE_SIZE - length c") (auto simp: plain_file_def)
  moreover have "0 \<notin> set (drop k c)" using c set_drop_subset [of k c] by (auto simp: plain_file_def)
  ultimately show ?thesis using k by (simp add: loaded_def c_str_stops)
qed

lemma write_adds:
  assumes c: "plain_file c" and st: "parse_file sec key (loaded c) = Some st" "at_key st = None" "sec_s st \<noteq> - 1"
    and k: "nat (sec_e st) \<le> length c"
  shows "write_profile_string sec key v (Some c) True =
    (case c_format (drop (nat (sec_e st)) c) [int (length c) - sec_e st] of
       None \<Rightarrow> None
     | Some f \<Rightarrow>
         (let w = take (nat (sec_e st)) c @ key @ [0x3D] @ v @ [0x0A] @ f
          in if length w < MAX_FILE_SIZE then Some (1, Some (c_str w)) else None))"
proof -
  have "sec \<noteq> []" "key \<noteq> []" using st(1) by (auto simp: parse_file_def split: if_splits)
  moreover have "take (nat (sec_e st)) (loaded c) = take (nat (sec_e st)) c" using k by (simp add: loaded_def)
  ultimately show ?thesis
    using st by (simp add: write_profile_string_def load_plain [OF c] c_str_loaded [OF c k] split: option.split)
qed

text \<open>
  Adding a key: if the section is there without the key, and no percent sign follows its header, then
  the line \<open>key=v\<close> is inserted right behind the header, not at the end of the section, and everything else
  stays.
\<close>

theorem add_key_inserts:
  assumes c: "plain_file c" and st: "parse_file sec key (loaded c) = Some st" "at_key st = None" "sec_s st \<noteq> - 1"
    and k: "nat (sec_e st) \<le> length c"
    and line: "0 \<notin> set (key @ v)" and rest: "0x25 \<notin> set (drop (nat (sec_e st)) c)"
    and fits: "length c + length key + length v + 2 < MAX_FILE_SIZE"
  shows "write_profile_string sec key v (Some c) True =
    Some (1, Some (take (nat (sec_e st)) c @ key @ [0x3D] @ v @ [0x0A] @ drop (nat (sec_e st)) c))"
proof -
  let ?w = "take (nat (sec_e st)) c @ key @ [0x3D] @ v @ [0x0A] @ drop (nat (sec_e st)) c"
  have "length ?w < MAX_FILE_SIZE" using fits k by simp
  moreover have "0 \<notin> set ?w"
    using c line set_take_subset [of "nat (sec_e st)" c] set_drop_subset [of "nat (sec_e st)" c]
    by (auto simp: plain_file_def)
  then have "c_str ?w = ?w" by (rule c_str_id)
  ultimately show ?thesis
    unfolding write_adds [OF c st k] c_format_plain [OF rest] option.case Let_def by (simp only: if_True)
qed

definition ex_conversion :: "byte \<Rightarrow> byte list" where
  "ex_conversion d = [0x5B, 0x73, 0x5D, 0x0A, 0x72, 0x3D, 0x25, d, 0x0A]"

lemma ex_section_parsed:
  "parse_file [0x73] [0x6B] (loaded [0x5B, 0x73, 0x5D, 0x0A]) = Some \<lparr>sec_s = 1, sec_e = 4, at_key = None\<rparr>"
  by (rule parse_loaded [where z = 1]; code_simp)

theorem add_key_inserts_witness:
  "write_profile_string [0x73] [0x6B] [0x31] (Some [0x5B, 0x73, 0x5D, 0x0A]) True =
     Some (1, Some [0x5B, 0x73, 0x5D, 0x0A, 0x6B, 0x3D, 0x31, 0x0A])"
proof -
  have "plain_file [0x5B, 0x73, 0x5D, 0x0A]" "(4 :: nat) + 1 + 1 + 2 < MAX_FILE_SIZE" by code_simp+
  from add_key_inserts [OF this(1) ex_section_parsed, of "[0x31]"] this(2)
  show ?thesis by simp
qed

text \<open>
  Adding a key where the rest of the file has a conversion: in the file \<open>[s]\<close>, \<open>r=%d\<close> the key \<open>k\<close> is added
  with the value \<open>1\<close>, and the text of the other line is replaced by a number; with \<open>r=%s\<close> the
  call takes a number as the address of a text.
\<close>

theorem add_key_expands_percent:
  "write_profile_string [0x73] [0x6B] [0x31] (Some (ex_conversion 0x64)) True =
     Some (1, Some [0x5B, 0x73, 0x5D, 0x0A, 0x6B, 0x3D, 0x31, 0x0A, 0x72, 0x3D, 0x35, 0x0A]) \<and>
   write_profile_string [0x73] [0x6B] [0x31] (Some (ex_conversion 0x73)) True = None"
proof -
  have parsed: "parse_file [0x73] [0x6B] (loaded (ex_conversion d)) = Some \<lparr>sec_s = 1, sec_e = 4, at_key = None\<rparr>"
    if "d = 0x64 \<or> d = 0x73" for d
    by (rule parse_loaded [where z = 1]; use that in \<open>elim disjE; hypsubst; code_simp\<close>)
  have plain: "plain_file (ex_conversion 0x64)" "plain_file (ex_conversion 0x73)" by code_simp+
  have f: "c_format (drop 4 (ex_conversion 0x64)) [5] = Some [0x72, 0x3D, 0x35, 0x0A]"
    "c_format (drop 4 (ex_conversion 0x73)) [5] = None" by code_simp+
  have l: "length (ex_conversion d) = 9" "take 4 (ex_conversion d) = [0x5B, 0x73, 0x5D, 0x0A]" for d
    by (simp_all add: ex_conversion_def)
  show ?thesis
    using write_adds [OF plain(1) parsed, of "[0x31]"] write_adds [OF plain(2) parsed, of "[0x31]"] f l
    by (simp add: c_str_def MAX_FILE_SIZE_def)
qed

end
