(* ===== verification/RedisCopies.thy ===== *)
theory RedisCopies
  imports Services
begin

text \<open>
  The rest of the two copies of the Redis helper: \<open>CRedisHelper\<close> of \<open>OrderSyncClient\<close> (\<open>cli_\<close>) and of
  \<open>OrderDbSync\<close> (\<open>db_\<close>). What their programs call in the loop is in \<open>Services\<close>; the methods here are the
  constructors and the ones of the common interface. The three classes are written separately; that they
  are the same is the theorem at the end.
\<close>

section \<open>The copy of the client\<close>

definition cli_new ::
    "('c, 'd) hiredis \<Rightarrow> 'd \<Rightarrow> byte list \<Rightarrow> u16 \<Rightarrow> u16 \<Rightarrow> 'c redis_helper" where
  "cli_new api d host port second =
     \<lparr>r_context = h_connect api d (c_str host) port second, r_host = host, r_port = port,
      r_timeout = second\<rparr>"

definition cli_Connect_to ::
    "('c, 'd) hiredis \<Rightarrow> 'd \<Rightarrow> byte list \<Rightarrow> u16 \<Rightarrow> u16 \<Rightarrow> 'c redis_helper \<Rightarrow> int \<times> 'c redis_helper" where
  "cli_Connect_to api d host port second r =
     (let ctx = h_connect api d host port second
      in (if ctx = None then 1 else 0, r\<lparr>r_context := ctx\<rparr>))"

definition cli_Set ::
    "('c, 'd) hiredis \<Rightarrow> byte list \<Rightarrow> byte list \<Rightarrow> 'c redis_helper \<Rightarrow> 'd \<Rightarrow> (int \<times> 'd) option" where
  "cli_Set api key v r d = do {
     (reply, d1) \<leftarrow> redis_command api [bytes_of ''SET'', c_str key, c_str v] r d;
     Some (case reply of Some p \<Rightarrow> rp_integer p | None \<Rightarrow> 1, d1) }"

definition cli_Get ::
    "('c, 'd) hiredis \<Rightarrow> byte list \<Rightarrow> 'c redis_helper \<Rightarrow> 'd \<Rightarrow> (byte list \<times> 'd) option" where
  "cli_Get api key r d = do {
     (reply, d1) \<leftarrow> redis_command api [bytes_of ''GET'', c_str key] r d;
     p \<leftarrow> reply;
     s \<leftarrow> rp_str p;
     Some (c_str s, d1) }"

definition cli_Enqueue ::
    "('c, 'd) hiredis \<Rightarrow> byte list \<Rightarrow> byte list \<Rightarrow> 'c redis_helper \<Rightarrow> 'd \<Rightarrow> (int \<times> 'd) option" where
  "cli_Enqueue api queue v r d = do {
     (reply, d1) \<leftarrow> redis_command api [bytes_of ''rpush'', c_str queue, c_str v] r d;
     Some (case reply of Some p \<Rightarrow> rp_integer p | None \<Rightarrow> 1, d1) }"

definition cli_Push ::
    "('c, 'd) hiredis \<Rightarrow> byte list \<Rightarrow> byte list \<Rightarrow> 'c redis_helper \<Rightarrow> 'd \<Rightarrow> (int \<times> 'd) option" where
  "cli_Push api stack v r d = do {
     (reply, d1) \<leftarrow> redis_command api [bytes_of ''rpush'', c_str stack, c_str v] r d;
     Some (case reply of Some p \<Rightarrow> rp_integer p | None \<Rightarrow> 1, d1) }"

definition cli_Pop ::
    "('c, 'd) hiredis \<Rightarrow> byte list \<Rightarrow> 'c redis_helper \<Rightarrow> 'd \<Rightarrow> (byte list \<times> 'd) option" where
  "cli_Pop api stack r d = do {
     (reply, d1) \<leftarrow> redis_command api [bytes_of ''rpop'', c_str stack] r d;
     p \<leftarrow> reply;
     s \<leftarrow> rp_str p;
     Some (c_str s, d1) }"

definition cli_IsActived ::
    "('c, 'd) hiredis \<Rightarrow> 'c redis_helper \<Rightarrow> 'd \<Rightarrow> (bool \<times> 'd) option" where
  "cli_IsActived api r d = cli_ping api r d"

section \<open>The copy of the database writer\<close>

definition db_new ::
    "('c, 'd) hiredis \<Rightarrow> 'd \<Rightarrow> byte list \<Rightarrow> u16 \<Rightarrow> u16 \<Rightarrow> 'c redis_helper" where
  "db_new api d host port second =
     \<lparr>r_context = h_connect api d (c_str host) port second, r_host = host, r_port = port,
      r_timeout = second\<rparr>"

definition db_Connect_to ::
    "('c, 'd) hiredis \<Rightarrow> 'd \<Rightarrow> byte list \<Rightarrow> u16 \<Rightarrow> u16 \<Rightarrow> 'c redis_helper \<Rightarrow> int \<times> 'c redis_helper" where
  "db_Connect_to api d host port second r =
     (let ctx = h_connect api d host port second
      in (if ctx = None then 1 else 0, r\<lparr>r_context := ctx\<rparr>))"

definition db_Set ::
    "('c, 'd) hiredis \<Rightarrow> byte list \<Rightarrow> byte list \<Rightarrow> 'c redis_helper \<Rightarrow> 'd \<Rightarrow> (int \<times> 'd) option" where
  "db_Set api key v r d = do {
     (reply, d1) \<leftarrow> redis_command api [bytes_of ''SET'', c_str key, c_str v] r d;
     Some (case reply of Some p \<Rightarrow> rp_integer p | None \<Rightarrow> 1, d1) }"

definition db_Get ::
    "('c, 'd) hiredis \<Rightarrow> byte list \<Rightarrow> 'c redis_helper \<Rightarrow> 'd \<Rightarrow> (byte list \<times> 'd) option" where
  "db_Get api key r d = do {
     (reply, d1) \<leftarrow> redis_command api [bytes_of ''GET'', c_str key] r d;
     p \<leftarrow> reply;
     s \<leftarrow> rp_str p;
     Some (c_str s, d1) }"

definition db_Enqueue ::
    "('c, 'd) hiredis \<Rightarrow> byte list \<Rightarrow> byte list \<Rightarrow> 'c redis_helper \<Rightarrow> 'd \<Rightarrow> (int \<times> 'd) option" where
  "db_Enqueue api queue v r d = do {
     (reply, d1) \<leftarrow> redis_command api [bytes_of ''rpush'', c_str queue, c_str v] r d;
     Some (case reply of Some p \<Rightarrow> rp_integer p | None \<Rightarrow> 1, d1) }"

definition db_Push ::
    "('c, 'd) hiredis \<Rightarrow> byte list \<Rightarrow> byte list \<Rightarrow> 'c redis_helper \<Rightarrow> 'd \<Rightarrow> (int \<times> 'd) option" where
  "db_Push api stack v r d = do {
     (reply, d1) \<leftarrow> redis_command api [bytes_of ''rpush'', c_str stack, c_str v] r d;
     Some (case reply of Some p \<Rightarrow> rp_integer p | None \<Rightarrow> 1, d1) }"

definition db_Pop ::
    "('c, 'd) hiredis \<Rightarrow> byte list \<Rightarrow> 'c redis_helper \<Rightarrow> 'd \<Rightarrow> (byte list \<times> 'd) option" where
  "db_Pop api stack r d = do {
     (reply, d1) \<leftarrow> redis_command api [bytes_of ''rpop'', c_str stack] r d;
     p \<leftarrow> reply;
     s \<leftarrow> rp_str p;
     Some (c_str s, d1) }"

definition db_IsActived ::
    "('c, 'd) hiredis \<Rightarrow> 'c redis_helper \<Rightarrow> 'd \<Rightarrow> (bool \<times> 'd) option" where
  "db_IsActived api r d = db_ping api r d"

section \<open>One helper in three places\<close>

lemmas copy_defs =
  cli_new_def db_new_def redis_new_def
  cli_Connect_to_def db_Connect_to_def redis_Connect_to_def
  cli_Connect_def db_Connect_def redis_Connect_def
  cli_Set_def db_Set_def redis_Set_def
  cli_Get_def db_Get_def redis_Get_def
  cli_Enqueue_def db_Enqueue_def redis_Enqueue_def
  cli_Dequeue_def db_Dequeue_def redis_Dequeue_def
  cli_Push_def db_Push_def redis_Push_def
  cli_Pop_def db_Pop_def redis_Pop_def
  cli_ping_def db_ping_def redis_ping_def

text \<open>
  The helper classes of the three programs are the same: every operation of the copies in the client
  and in the database writer has the result and the effect of the server's on all arguments.
\<close>

theorem redis_helpers_agree:
  "(cli_new, cli_Connect_to, cli_Connect, cli_Set, cli_Get, cli_Enqueue, cli_Dequeue, cli_Push, cli_Pop, cli_ping) =
     (redis_new, redis_Connect_to, redis_Connect, redis_Set, redis_Get, redis_Enqueue, redis_Dequeue, redis_Push,
      redis_Pop, redis_ping) \<and>
   (db_new, db_Connect_to, db_Connect, db_Set, db_Get, db_Enqueue, db_Dequeue, db_Push, db_Pop, db_ping) =
     (redis_new, redis_Connect_to, redis_Connect, redis_Set, redis_Get, redis_Enqueue, redis_Dequeue, redis_Push,
      redis_Pop, redis_ping)"
  unfolding prod.inject fun_eq_iff copy_defs by simp

end
