(* ===== verification/Startup.thy ===== *)
theory Startup
  imports IniFile RedisCopies DbSync SyncClient
begin

text \<open>
  How the programs start: \<open>OrderDbSync/src/ConfigDef.cc\<close> with \<open>Init\<close> and \<open>main\<close> of \<open>Main.cc\<close>, and \<open>_init\<close>
  and \<open>main\<close> of \<open>OrderSyncClient/src/main.cc\<close>. A \<open>char\<close> array of a configuration is given by the text it
  holds; a number is cut to the field's width. The file names are constants, so the file is given by its
  contents. Logging, \<open>daemon\<close> and \<open>chdir\<close> have no effect; \<open>new\<close> does not fail.
\<close>

section \<open>The configuration of the database writer\<close>

record EMysqlConf =
  my_host :: "byte list"
  my_port :: u16
  my_db :: "byte list"
  my_user :: "byte list"
  my_passwd :: "byte list"

record ERedisConf =
  re_host :: "byte list"
  re_port :: u16
  re_timeout :: u16

record EQueueConf =
  qu_nums :: u16
  qu_names :: "byte list list"

record EServerConf =
  se_version :: "byte list"
  se_sleep_msec :: u32

text \<open>A text of a configuration: the default is the empty one, so the array is overwritten in any case.\<close>

definition profile_text :: "string \<Rightarrow> byte list \<Rightarrow> nat \<Rightarrow> byte list option \<Rightarrow> byte list option" where
  "profile_text sec key n file = do {
     (ok, v) \<leftarrow> read_profile_string (bytes_of sec) key (replicate n 0) n (Some []) file;
     Some (c_str v) }"

definition profile_int :: "string \<Rightarrow> string \<Rightarrow> byte list option \<Rightarrow> int option" where
  "profile_int sec key file = read_profile_int (bytes_of sec) (bytes_of key) 0 file"

definition Load_Mysql_Conf :: "byte list option \<Rightarrow> EMysqlConf option" where
  "Load_Mysql_Conf file = do {
     host \<leftarrow> profile_text ''mysql'' (bytes_of ''host'') 16 file;
     port \<leftarrow> profile_int ''mysql'' ''port'' file;
     db \<leftarrow> profile_text ''mysql'' (bytes_of ''db'') 50 file;
     user \<leftarrow> profile_text ''mysql'' (bytes_of ''user'') 50 file;
     passwd \<leftarrow> profile_text ''mysql'' (bytes_of ''passwd'') 50 file;
     Some \<lparr>my_host = host, my_port = of_int port, my_db = db, my_user = user, my_passwd = passwd\<rparr> }"

definition Load_Redis_Conf :: "byte list option \<Rightarrow> ERedisConf option" where
  "Load_Redis_Conf file = do {
     host \<leftarrow> profile_text ''redis'' (bytes_of ''host'') 16 file;
     port \<leftarrow> profile_int ''redis'' ''port'' file;
     timeout \<leftarrow> profile_int ''redis'' ''timeout'' file;
     Some \<lparr>re_host = host, re_port = of_int port, re_timeout = of_int timeout\<rparr> }"

text \<open>The names \<open>queue1\<close>, \<open>queue2\<close>, ... from the number \<open>i\<close> on.\<close>

primrec queue_names :: "nat \<Rightarrow> nat \<Rightarrow> byte list option \<Rightarrow> byte list list option" where
  "queue_names 0 i file = Some []"
| "queue_names (Suc n) i file = do {
     name \<leftarrow> profile_text ''queue'' (take 49 (bytes_of ''queue'' @ decimal i)) 50 file;
     names \<leftarrow> queue_names n (i + 1) file;
     Some (name # names) }"

definition Load_Queue_Conf :: "byte list option \<Rightarrow> EQueueConf \<Rightarrow> EQueueConf option" where
  "Load_Queue_Conf file conf = do {
     names \<leftarrow> queue_names (unat (qu_nums conf)) 1 file;
     Some (conf\<lparr>qu_names := names\<rparr>) }"

definition Load_Server_Conf :: "byte list option \<Rightarrow> EServerConf option" where
  "Load_Server_Conf file = do {
     version \<leftarrow> profile_text ''server'' (bytes_of ''version'') 10 file;
     delay \<leftarrow> profile_int ''server'' ''delay'' file;
     Some \<lparr>se_version = version, se_sleep_msec = of_int delay\<rparr> }"

definition load_table_conf :: "byte list option \<Rightarrow> table_conf_t option" where
  "load_table_conf file = do {
     old \<leftarrow> profile_text ''table'' (bytes_of ''old_name'') 128 file;
     new \<leftarrow> profile_text ''table'' (bytes_of ''new_name'') 128 file;
     Some \<lparr>old_name = old, new_name = new\<rparr> }"

record db_conf =
  mysql_conf :: EMysqlConf
  redis_conf :: ERedisConf
  queue_conf :: EQueueConf
  server_conf :: EServerConf
  table_conf :: table_conf_t

definition db_Init :: "byte list option \<Rightarrow> db_conf option" where
  "db_Init file = do {
     mysql \<leftarrow> Load_Mysql_Conf file;
     redis \<leftarrow> Load_Redis_Conf file;
     queue \<leftarrow> Load_Queue_Conf file \<lparr>qu_nums = 4, qu_names = []\<rparr>;
     server \<leftarrow> Load_Server_Conf file;
     table \<leftarrow> load_table_conf file;
     Some \<lparr>mysql_conf = mysql, redis_conf = redis, queue_conf = queue, server_conf = server,
       table_conf = table\<rparr> }"

section \<open>The start of the database writer\<close>

text \<open>\<open>main\<close> up to its loop: \<open>Inl\<close> is the exit code of a failed start, \<open>Inr\<close> the two helpers.\<close>

definition mysql_of :: "EMysqlConf \<Rightarrow> mysql_helper" where
  "mysql_of c = \<lparr>m_host = my_host c, m_port = ucast (my_port c), m_user = my_user c, m_passwd = my_passwd c\<rparr>"

definition db_start ::
    "'w mysql \<Rightarrow> ('c, 'w) hiredis \<Rightarrow> db_conf \<Rightarrow> 'w \<Rightarrow> ((int + mysql_helper \<times> 'c redis_helper) \<times> 'w) option" where
  "db_start mapi rapi conf w =
     (let m = mysql_of (mysql_conf conf);
          (_, w1) = db_mysql_Connect mapi m w;
          (_, w2) = db_UseDB mapi (my_db (mysql_conf conf)) w1;
          (conn, w3) = db_IsConnected mapi w2
      in if \<not> conn then Some (Inl (- 1), w3)
         else do {
           let rc = redis_conf conf;
           let r = db_new rapi w3 (re_host rc) (re_port rc) (re_timeout rc);
           (alive, w4) \<leftarrow> db_IsActived rapi r w3;
           Some (if alive then (Inr (m, r), w4) else (Inl (- 1), w4)) })"

text \<open>The whole program: configuration, start, and \<open>n\<close> turns of the loop. The fields of \<open>env0\<close> that the
  configuration determines are replaced.\<close>

definition db_main ::
    "byte list option \<Rightarrow> ('c, 'w, 'v) db_env \<Rightarrow> nat \<Rightarrow> 'w \<Rightarrow> (int + 'c redis_helper) option \<times> 'w option" where
  "db_main file env0 n w =
     (case db_Init file of
        None \<Rightarrow> (None, None)
      | Some conf \<Rightarrow>
          (case db_start (de_mysql env0) (de_redis env0) conf w of
             None \<Rightarrow> (None, None)
           | Some (Inl e, w1) \<Rightarrow> (Some (Inl e), Some w1)
           | Some (Inr (m, r), w1) \<Rightarrow>
               (case drain n (env0\<lparr>de_helper := m, de_db := my_db (mysql_conf conf), de_conf := table_conf conf\<rparr>) r w1 of
                  None \<Rightarrow> (None, None)
                | Some (r1, w2) \<Rightarrow> (Some (Inr r1), Some w2))))"

section \<open>The start of the client\<close>

record conf_t =
  server_ip :: "byte list"
  server_port :: u16
  redis_ip :: "byte list"
  redis_port :: u16
  redis_key :: "byte list"
  mysql_ip :: "byte list"
  mysql_port :: u16
  mysql_username :: "byte list"
  mysql_password :: "byte list"
  mysql_db :: "byte list"
  client_id :: u32

definition cl_init :: "byte list option \<Rightarrow> conf_t option" where
  "cl_init file = do {
     sip \<leftarrow> profile_text ''server'' (bytes_of ''ip'') 16 file;
     sport \<leftarrow> profile_int ''server'' ''port'' file;
     rip \<leftarrow> profile_text ''redis'' (bytes_of ''ip'') 16 file;
     rport \<leftarrow> profile_int ''redis'' ''port'' file;
     rkey \<leftarrow> profile_text ''redis'' (bytes_of ''key'') 64 file;
     mip \<leftarrow> profile_text ''mysql'' (bytes_of ''ip'') 16 file;
     mport \<leftarrow> profile_int ''mysql'' ''port'' file;
     mdb \<leftarrow> profile_text ''mysql'' (bytes_of ''db'') 64 file;
     muser \<leftarrow> profile_text ''mysql'' (bytes_of ''username'') 64 file;
     mpass \<leftarrow> profile_text ''mysql'' (bytes_of ''password'') 64 file;
     cid \<leftarrow> profile_int ''client'' ''id'' file;
     Some \<lparr>server_ip = sip, server_port = of_int sport, redis_ip = rip, redis_port = of_int rport,
       redis_key = rkey, mysql_ip = mip, mysql_port = of_int mport, mysql_username = muser,
       mysql_password = mpass, mysql_db = mdb, client_id = of_int cid\<rparr> }"

text \<open>\<open>main\<close> up to \<open>run\<close>: \<open>Inr\<close> is the environment of the main loop, with what the configuration
  determines, and its state. The timeout of the Redis helper is the default one.\<close>

definition cl_start ::
    "('c, 'w, 'v) cl_env \<Rightarrow> conf_t \<Rightarrow> 'w \<Rightarrow> (int + ('c, 'w, 'v) cl_env \<times> 'c order_client) \<times> 'w" where
  "cl_start env0 conf w =
     (let r = cli_new (ce_redis env0) w (redis_ip conf) (redis_port conf) 5;
          (c, w1) = tcp_new (ce_sys env0) (server_ip conf) (server_port conf) w;
          (ret, c1, w2) = tcp_Connect (ce_sys env0) c w1
      in if ret \<noteq> 0 then (Inl (- 1), w2)
         else (let m = \<lparr>m_host = mysql_ip conf, m_port = ucast (mysql_port conf), m_user = mysql_username conf,
                        m_passwd = mysql_password conf\<rparr>;
                   (mret, w3) = cl_mysql_Connect (ce_mysql env0) m w2
               in if mret \<noteq> 0 then (Inl (- 1), w3)
                  else (let (_, w4) = cl_UseDB (ce_mysql env0) (mysql_db conf) w3;
                            (efd, w5) = poller_create (ce_sys env0) w4
                        in if efd \<le> 0 then (Inl (- 1), w5)
                           else (Inr (env0\<lparr>ce_helper := m, ce_efd := efd, ce_redis_key := redis_key conf,
                                        ce_mysql_db := mysql_db conf, ce_client_id := client_id conf\<rparr>,
                                      \<lparr>oc_f = r, oc_c = c1, oc_out = new_packet, oc_in = new_packet,
                                        oc_event_id = 1\<rparr>), w5))))"

section \<open>Without a file, and with long names\<close>

lemma profile_missing:
  "key \<noteq> [] \<Longrightarrow> sec \<noteq> [] \<Longrightarrow> 0 < n \<Longrightarrow> profile_text sec key n None = Some []"
  "key' \<noteq> [] \<Longrightarrow> sec \<noteq> [] \<Longrightarrow> profile_int sec key' None = Some 0"
  by (simp_all add: profile_text_def profile_int_def read_profile_int_def read_profile_string_def
      load_ini_file_def strncpy_def c_str_def bytes_of_def)

text \<open>
  A missing configuration file is not an error: both programs go on with empty names and port 0; the
  number of queues is the constant 4.
\<close>

theorem missing_configuration:
  "db_Init None = Some
     \<lparr>mysql_conf = \<lparr>my_host = [], my_port = 0, my_db = [], my_user = [], my_passwd = []\<rparr>,
      redis_conf = \<lparr>re_host = [], re_port = 0, re_timeout = 0\<rparr>,
      queue_conf = \<lparr>qu_nums = 4, qu_names = [[], [], [], []]\<rparr>,
      server_conf = \<lparr>se_version = [], se_sleep_msec = 0\<rparr>,
      table_conf = \<lparr>old_name = [], new_name = []\<rparr>\<rparr> \<and>
   cl_init None = Some
     \<lparr>server_ip = [], server_port = 0, redis_ip = [], redis_port = 0, redis_key = [], mysql_ip = [],
      mysql_port = 0, mysql_username = [], mysql_password = [], mysql_db = [], client_id = 0\<rparr>"
proof -
  have n: "bytes_of (c # s) \<noteq> []" for c s by (simp add: bytes_of_def)
  have q: "take 49 (bytes_of ''queue'' @ decimal i) \<noteq> []" for i by (simp add: bytes_of_def)
  have "queue_names 4 1 None = Some [[], [], [], []]"
    by (simp add: eval_nat_numeral profile_missing q [simplified eval_nat_numeral])
  then show ?thesis
    by (simp add: db_Init_def Load_Mysql_Conf_def Load_Redis_Conf_def Load_Queue_Conf_def Load_Server_Conf_def
        load_table_conf_def cl_init_def profile_missing n)
qed

text \<open>
  A database host of more than 15 characters is cut without a message: the array of the address has
  16 bytes.
\<close>

theorem mysql_host_cut:
  assumes c: "plain_file (one_key (bytes_of ''mysql'') (bytes_of ''host'') v rest)" and v: "one_line v"
    and conf: "Load_Mysql_Conf (Some (one_key (bytes_of ''mysql'') (bytes_of ''host'') v rest)) = Some conf"
  shows "my_host conf = take 15 v"
proof -
  let ?f = "one_key (bytes_of ''mysql'') (bytes_of ''host'') v rest"
  have names: "section_name (bytes_of ''mysql'')" "key_name (bytes_of ''host'')" "bytes_of ''mysql'' \<noteq> []" by code_simp+
  have "read_profile_string (bytes_of ''mysql'') (bytes_of ''host'') (replicate 16 0) 16 (Some []) (Some ?f) =
      Some (1, take 15 v @ replicate (16 - min (length v) 15) 0)"
    using read_one_key [OF c names(1,2) v, of "[]" 16 "[]"] names(3) by simp
  moreover obtain z where "16 - min (length v) 15 = Suc z" by (cases "16 - min (length v) 15") (auto simp: min_def split: if_splits)
  moreover have "0 \<notin> set (take 15 v)" using v set_take_subset [of 15 v] by (auto simp: one_line_def)
  ultimately have "profile_text ''mysql'' (bytes_of ''host'') 16 (Some ?f) = Some (take 15 v)"
    by (simp add: profile_text_def c_str_stops)
  then show ?thesis using conf by (auto simp: Load_Mysql_Conf_def split: Option.bind_splits)
qed

section \<open>From start to finish\<close>

lemma db_start_ok:
  assumes my: "\<And>w. my_ping mapi w = (0, w)" and redis: "\<And>d h p t. h_connect rapi d h p t = Some ctx"
    and lists: "keeps_lists rapi ctx queues"
  shows "db_start mapi rapi conf w =
    Some (Inr (mysql_of (mysql_conf conf), \<lparr>r_context = Some ctx, r_host = re_host (redis_conf conf),
        r_port = re_port (redis_conf conf), r_timeout = re_timeout (redis_conf conf)\<rparr>),
      snd (db_UseDB mapi (my_db (mysql_conf conf)) (snd (db_mysql_Connect mapi (mysql_of (mysql_conf conf)) w))))"
proof -
  let ?r = "\<lparr>r_context = Some ctx, r_host = re_host (redis_conf conf),
        r_port = re_port (redis_conf conf), r_timeout = re_timeout (redis_conf conf)\<rparr>"
  have "db_ping rapi ?r w = Some (True, w)" for w by (rule ping_ok [OF lists]) simp
  then show ?thesis
    by (simp add: db_start_def db_IsConnected_def my db_new_def redis db_IsActived_def split_beta Let_def)
qed

text \<open>
  C22: From start to finish: with a readable configuration and both servers up, the program starts, and
  after one turn of its loop per queued order the queue is empty and exactly the statements of the orders,
  with the configured table names, have been executed, oldest first.
\<close>

theorem db_main_writes_orders:
  assumes conf: "db_Init file = Some conf"
    and redis: "\<And>d h p t. h_connect (de_redis env) d h p t = Some ctx" "keeps_lists (de_redis env) ctx queues"
    and my: "mysql_keeps (de_mysql env) queues" "mysql_logs (de_mysql env) executed" "redis_keeps (de_redis env) executed"
    and quiet: "\<And>w h u p n. executed (snd (my_real_connect (de_mysql env) w h u p n)) = executed w"
      "\<And>w d. executed (snd (my_select_db (de_mysql env) w d)) = executed w"
    and orders: "queues w (bytes_of ''ORDER_Q'') = datas"
      "list_all (storable (env\<lparr>de_helper := mysql_of (mysql_conf conf), de_db := my_db (mysql_conf conf),
         de_conf := table_conf conf\<rparr>)) datas"
  shows "\<exists>r w'. db_main file env (length datas) w = (Some (Inr r), Some w') \<and>
    queues w' (bytes_of ''ORDER_Q'') = [] \<and>
    executed w' = executed w @ map (statement (env\<lparr>de_helper := mysql_of (mysql_conf conf),
      de_db := my_db (mysql_conf conf), de_conf := table_conf conf\<rparr>)) datas"
proof -
  let ?env = "env\<lparr>de_helper := mysql_of (mysql_conf conf), de_db := my_db (mysql_conf conf), de_conf := table_conf conf\<rparr>"
  let ?r = "\<lparr>r_context = Some ctx, r_host = re_host (redis_conf conf),
        r_port = re_port (redis_conf conf), r_timeout = re_timeout (redis_conf conf)\<rparr>"
  let ?w = "snd (db_UseDB (de_mysql env) (my_db (mysql_conf conf))
    (snd (db_mysql_Connect (de_mysql env) (mysql_of (mysql_conf conf)) w)))"
  have ping: "my_ping (de_mysql env) w = (0, w)" for w using my(2) by (simp add: mysql_logs_def)
  have keep: "queues ?w = queues w" "executed ?w = executed w"
    using my(1) quiet by (simp_all add: mysql_keeps_def db_UseDB_def db_mysql_Connect_def split_beta Let_def)
  have start: "db_start (de_mysql env) (de_redis env) conf w = Some (Inr (mysql_of (mysql_conf conf), ?r), ?w)"
    by (rule db_start_ok [OF ping redis])
  have "queues ?w (bytes_of ''ORDER_Q'') = datas @ []" using orders(1) keep(1) by simp
  then obtain w' where "drain (length datas) ?env ?r ?w = Some (?r, w')" "queues w' (bytes_of ''ORDER_Q'') = []"
    "executed w' = executed ?w @ map (statement ?env) datas"
    using drain_ok [where queues = queues and executed = executed and env = ?env and ctx = ctx and r = ?r and rest = "[]",
        OF _ _ _ _ _ _ orders(2)] redis(2) my by auto
  then show ?thesis using conf start keep(2) by (simp add: db_main_def)
qed

section \<open>Examples\<close>

text \<open>A lookup in a short file, evaluated on the file and one zero instead of the whole array.\<close>

definition short_text :: "string \<Rightarrow> byte list \<Rightarrow> nat \<Rightarrow> byte list \<Rightarrow> byte list option" where
  "short_text sec key n c =
     (if plain_file c \<and> 0 < n then do {
        st \<leftarrow> parse_file (bytes_of sec) key (c @ replicate 1 0);
        Some (case at_key st of
                None \<Rightarrow> []
              | Some f \<Rightarrow> take (n - 1) (take (value_e f - value_s f) (drop (value_s f) c))) }
      else None)"

lemma short_text: "short_text sec key n c = Some x \<Longrightarrow> profile_text sec key n (Some c) = Some x"
proof -
  assume "short_text sec key n c = Some x"
  then obtain st where c: "plain_file c" "0 < n" and st: "parse_file (bytes_of sec) key (c @ replicate 1 0) = Some st"
    and x: "x = (case at_key st of None \<Rightarrow> []
      | Some f \<Rightarrow> take (n - 1) (take (value_e f - value_s f) (drop (value_s f) c)))"
    by (auto simp: short_text_def split: if_splits Option.bind_splits)
  have keys: "bytes_of sec \<noteq> []" "key \<noteq> []" using st by (auto simp: parse_file_def split: if_splits)
  have p: "parse_file (bytes_of sec) key (loaded c) = Some st"
    by (rule parse_loaded [OF c(1) st]) (use c(1) in \<open>simp add: plain_file_def\<close>)
  have z: "0 \<notin> set x" using c(1) x
    by (auto simp: plain_file_def split: option.splits dest!: in_set_takeD in_set_dropD)
  show ?thesis
  proof (cases "at_key st")
    case None
    then show ?thesis using c(2) keys p x
      by (simp add: profile_text_def read_profile_string_def load_plain [OF c(1)] strncpy_def c_str_def)
  next
    case (Some f)
    let ?m = "min (value_e f - value_s f) (n - 1)"
    have "?m < n" using c(2) by (auto simp: min_def)
    then obtain k where "n - ?m = Suc k" by (metis Suc_diff_Suc)
    then show ?thesis using read_updated [OF c(1) p Some c(2)] x z Some
      by (simp add: profile_text_def c_str_stops)
  qed
qed

text \<open>A key the file does not have.\<close>

definition absent :: "string \<Rightarrow> byte list \<Rightarrow> byte list \<Rightarrow> bool" where
  "absent sec key c \<longleftrightarrow>
     (case parse_loop (bytes_of sec) key (c @ replicate 1 0) 0 \<lparr>sec_s = - 1, sec_e = - 1, at_key = None\<rparr> of
        None \<Rightarrow> False | Some st \<Rightarrow> at_key st = None)"

lemma absent_text:
  assumes c: "plain_file c" and sec: "absent sec key c" "sec \<noteq> []" and key: "key \<noteq> []" "0 < n"
  shows "profile_text sec key n (Some c) = Some []"
proof -
  obtain st where "parse_file (bytes_of sec) key (c @ replicate 1 0) = Some st" "at_key st = None"
    using sec key by (auto simp: absent_def parse_file_def bytes_of_def split: option.splits)
  moreover from this(1) have "parse_file (bytes_of sec) key (loaded c) = Some st"
    by (rule parse_loaded [OF c]) (use c in \<open>simp add: plain_file_def\<close>)
  ultimately show ?thesis using sec(2) key
    by (simp add: profile_text_def read_profile_string_def load_plain [OF c] strncpy_def c_str_def bytes_of_def)
qed

lemma absent_int:
  assumes c: "plain_file c" and sec: "absent sec (bytes_of key) c" "sec \<noteq> []" and key: "key \<noteq> []"
  shows "profile_int sec key (Some c) = Some 0"
proof -
  obtain st where "parse_file (bytes_of sec) (bytes_of key) (c @ replicate 1 0) = Some st" "at_key st = None"
    using sec key by (auto simp: absent_def parse_file_def bytes_of_def split: option.splits)
  moreover from this(1) have "parse_file (bytes_of sec) (bytes_of key) (loaded c) = Some st"
    by (rule parse_loaded [OF c]) (use c in \<open>simp add: plain_file_def\<close>)
  ultimately show ?thesis using sec(2) key
    by (simp add: profile_int_def read_profile_int_def read_profile_string_def load_plain [OF c] bytes_of_def)
qed

text \<open>\<open>[mysql]\<close> with a host of 17 characters.\<close>

definition ex_host :: "byte list" where "ex_host = bytes_of ''db.shop.example.x''"

lemma ex_host_loaded:
  "Load_Mysql_Conf (Some (one_key (bytes_of ''mysql'') (bytes_of ''host'') ex_host [])) =
     Some \<lparr>my_host = take 15 ex_host, my_port = 0, my_db = [], my_user = [], my_passwd = []\<rparr>"
proof -
  let ?c = "one_key (bytes_of ''mysql'') (bytes_of ''host'') ex_host []"
  have "short_text ''mysql'' (bytes_of ''host'') 16 ?c = Some (take 15 ex_host)"
    "short_text ''mysql'' (bytes_of ''db'') 50 ?c = Some []" "short_text ''mysql'' (bytes_of ''user'') 50 ?c = Some []"
    "short_text ''mysql'' (bytes_of ''passwd'') 50 ?c = Some []" "absent ''mysql'' (bytes_of ''port'') ?c" "plain_file ?c" by code_simp+
  then show ?thesis by (simp add: Load_Mysql_Conf_def short_text absent_int)
qed

theorem mysql_host_cut_witness: "my_host \<lparr>my_host = take 15 ex_host, my_port = 0, my_db = [], my_user = [], my_passwd = []\<rparr> = take 15 ex_host"
proof (rule mysql_host_cut [OF _ _ ex_host_loaded])
  show "plain_file (one_key (bytes_of ''mysql'') (bytes_of ''host'') ex_host [])" "one_line ex_host" by code_simp+
qed

text \<open>\<open>[table]\<close> with a new name; one order.\<close>

definition ex_table_file :: "byte list" where
  "ex_table_file = one_key (bytes_of ''table'') (bytes_of ''new_name'') [0x6E] []"

definition ex_conf :: db_conf where
  "ex_conf = \<lparr>mysql_conf = \<lparr>my_host = [], my_port = 0, my_db = [], my_user = [], my_passwd = []\<rparr>,
      redis_conf = \<lparr>re_host = [], re_port = 0, re_timeout = 0\<rparr>,
      queue_conf = \<lparr>qu_nums = 4, qu_names = [[], [], [], []]\<rparr>,
      server_conf = \<lparr>se_version = [], se_sleep_msec = 0\<rparr>,
      table_conf = \<lparr>old_name = [], new_name = [0x6E]\<rparr>\<rparr>"

lemma ex_absent:
  "absent ''mysql'' key ex_table_file" "absent ''redis'' key ex_table_file"
  "absent ''queue'' key ex_table_file" "absent ''server'' key ex_table_file"
  by code_simp+

lemma ex_conf_loaded: "db_Init (Some ex_table_file) = Some ex_conf"
proof -
  have c: "plain_file ex_table_file" by code_simp
  have table: "short_text ''table'' (bytes_of ''old_name'') 128 ex_table_file = Some []"
    "short_text ''table'' (bytes_of ''new_name'') 128 ex_table_file = Some [0x6E]" by code_simp+
  have ne: "bytes_of (a # s) \<noteq> []" "take 49 (bytes_of ''queue'' @ decimal i) \<noteq> []" for a s i
    by (simp_all add: bytes_of_def)
  note absent = ex_absent [THEN absent_text [OF c]] ex_absent [THEN absent_int [OF c]]
  have s4: "4 = Suc (Suc (Suc (Suc 0)))" by simp
  have "queue_names 4 1 (Some ex_table_file) = Some [[], [], [], []]"
    unfolding s4 queue_names.simps by (simp add: absent ne del: take_append)
  then show ?thesis
    by (simp add: db_Init_def Load_Mysql_Conf_def Load_Redis_Conf_def Load_Queue_Conf_def Load_Server_Conf_def
        load_table_conf_def table [THEN short_text] absent ne ex_conf_def)
qed

definition ex_main_env :: "(unit, stores, unit) db_env" where
  "ex_main_env = \<lparr>de_redis = ex_pair_redis, de_json = ex_order [0x78], de_mysql = ex_pair_mysql,
     de_helper = mysql_of (mysql_conf ex_conf), de_db = [], de_conf = table_conf ex_conf,
     de_localtime = (\<lambda>t. (114, 7)), de_now = 5, de_partition = False\<rparr>"

lemma ex_main_env_update:
  "ex_main_env\<lparr>de_helper := mysql_of (mysql_conf ex_conf), de_db := my_db (mysql_conf ex_conf),
     de_conf := table_conf ex_conf\<rparr> = ex_main_env"
  by (simp add: ex_main_env_def ex_conf_def)

theorem db_main_writes_orders_witness:
  "\<exists>r w'. db_main (Some ex_table_file) ex_main_env (length [[0x31 :: byte]])
       ((\<lambda>k. [])(bytes_of ''ORDER_Q'' := [[0x31]]), []) = (Some (Inr r), Some w') \<and>
    fst w' (bytes_of ''ORDER_Q'') = [] \<and> snd w' = snd ((\<lambda>k. [])(bytes_of ''ORDER_Q'' := [[0x31 :: byte]]), []) @
      map (statement (ex_main_env\<lparr>de_helper := mysql_of (mysql_conf ex_conf), de_db := my_db (mysql_conf ex_conf),
     de_conf := table_conf ex_conf\<rparr>)) [[0x31]]"
proof (rule db_main_writes_orders [OF ex_conf_loaded])
  show "list_all (storable (ex_main_env\<lparr>de_helper := mysql_of (mysql_conf ex_conf),
      de_db := my_db (mysql_conf ex_conf), de_conf := table_conf ex_conf\<rparr>)) [[0x31]]"
    unfolding ex_main_env_update
    by (simp add: storable_def order_sql_def ex_main_env_def ex_order_def ex_conf_def sync_get_table_name_def
        c_snprintf_def str_find_def str_replace_def)
qed (use ex_pair_ok in \<open>simp_all add: ex_main_env_def ex_pair_redis_def ex_pair_mysql_def\<close>)

end
