(* ===== verification/Poller.thy ===== *)
theory Poller
  imports Prelude
begin

text \<open>
  The event loop of the server: \<open>CPollerUnit\<close> and \<open>CPollerObject\<close> (\<open>core/poller.cpp\<close>,
  \<open>include/poller.h\<close>). The server has one \<open>CPollerUnit\<close>. A slot is given by its index in
  \<open>pollerTable\<close>, an object by a number in place of its address. The system calls are the fields of
  \<open>'w epoll\<close>, functions of the kernel's state \<open>'w\<close>. \<open>None\<close> is undefined behaviour: an access outside
  the table, a \<open>NULL\<close> or a deleted object, \<open>abort\<close>.
\<close>

unbundle bit_operations_syntax

section \<open>State\<close>

datatype ctl = CTL_ADD | CTL_MOD | CTL_DEL

record 'w epoll =
  ep_create :: "'w \<Rightarrow> int \<Rightarrow> int \<times> 'w"
  ep_ctl :: "'w \<Rightarrow> int \<Rightarrow> ctl \<Rightarrow> int \<Rightarrow> u32 \<Rightarrow> u64 \<Rightarrow> int \<times> 'w"
  ep_wait :: "'w \<Rightarrow> int \<Rightarrow> int \<Rightarrow> int \<Rightarrow> (u32 \<times> u64) list \<times> 'w"
  ep_nonblock :: "'w \<Rightarrow> int \<Rightarrow> 'w"
  ep_close :: "'w \<Rightarrow> int \<Rightarrow> 'w"

record slot =
  sl_seq :: u32
  sl_poller :: "nat option"
  sl_free :: "nat option"

record poller_unit =
  epfd :: int
  maxPollers :: int
  usedPollers :: int
  freeSlotList :: "nat option"
  pollerTable :: "slot list"

text \<open>\<open>ownerUnit\<close> tells whether the pointer to the unit is set.\<close>

record poller_object =
  netfd :: int
  ownerUnit :: bool
  newEvents :: u32
  oldEvents :: u32
  epslot :: "nat option"

record 'w poll_state =
  pu :: poller_unit
  po :: "nat \<Rightarrow> poller_object option"
  kernel :: 'w

section \<open>Slots\<close>

definition new_poller_unit :: "int \<Rightarrow> poller_unit" where
  "new_poller_unit mp =
     \<lparr>epfd = - 1, maxPollers = mp, usedPollers = 0, freeSlotList = None, pollerTable = []\<rparr>"

definition SetMaxPollers :: "int \<Rightarrow> poller_unit \<Rightarrow> int \<times> poller_unit" where
  "SetMaxPollers mp u = (if epfd u \<ge> 0 then (- 1, u) else (0, u\<lparr>maxPollers := mp\<rparr>))"

text \<open>\<open>table_ok\<close> and \<open>events_ok\<close>: whether the two allocations succeed.\<close>

definition InitializePollerUnit ::
    "'w epoll \<Rightarrow> bool \<Rightarrow> bool \<Rightarrow> poller_unit \<Rightarrow> 'w \<Rightarrow> (int \<times> poller_unit \<times> 'w) option" where
  "InitializePollerUnit api table_ok events_ok u w =
     (if \<not> table_ok then Some (- 1, u, w)
      else if maxPollers u \<le> 0 then None
      else (let n = nat (maxPollers u);
                u1 = u\<lparr>pollerTable := map (\<lambda>i. \<lparr>sl_seq = 0, sl_poller = None,
                         sl_free = if i < n - 1 then Some (i + 1) else None\<rparr>) [0 ..< n],
                       freeSlotList := Some 0\<rparr>
            in if \<not> events_ok then Some (- 1, u1, w)
               else (let (fd, w1) = ep_create api w (maxPollers u)
                     in Some (if fd = - 1 then - 1 else 0, u1\<lparr>epfd := fd\<rparr>, w1))))"

definition AllocEpollSlot :: "poller_unit \<Rightarrow> (nat option \<times> poller_unit) option" where
  "AllocEpollSlot u =
     (case freeSlotList u of
        None \<Rightarrow> Some (None, u)
      | Some i \<Rightarrow>
          if i < length (pollerTable u)
          then (let s = pollerTable u ! i
                in Some (Some i, u\<lparr>usedPollers := usedPollers u + 1, freeSlotList := sl_free s,
                     pollerTable := (pollerTable u)[i := s\<lparr>sl_free := None\<rparr>]\<rparr>))
          else None)"

definition FreeEpollSlot :: "nat \<Rightarrow> poller_unit \<Rightarrow> poller_unit option" where
  "FreeEpollSlot i u =
     (if i < length (pollerTable u)
      then (let s = pollerTable u ! i
            in Some (u\<lparr>freeSlotList := Some i, usedPollers := usedPollers u - 1,
                 pollerTable := (pollerTable u)[i := s\<lparr>sl_free := freeSlotList u, sl_poller := None,
                   sl_seq := sl_seq s + 1\<rparr>]\<rparr>))
      else None)"

text \<open>The number of an event: the slot's sequence number in the upper half, its index in the lower one.\<close>

definition event_id :: "u32 \<Rightarrow> nat \<Rightarrow> u64" where
  "event_id seq i = push_bit 32 (ucast seq) + of_nat i"

definition EPOLL_DATA_SLOT :: "u64 \<Rightarrow> u64" where "EPOLL_DATA_SLOT x = x AND 0xFFFFFFFF"
definition EPOLL_DATA_SEQ :: "u64 \<Rightarrow> u64" where "EPOLL_DATA_SEQ x = drop_bit 32 x"

definition VerifyEvents :: "u64 \<Rightarrow> poller_unit \<Rightarrow> int option" where
  "VerifyEvents d u =
     (let idx = sint (ucast (EPOLL_DATA_SLOT d) :: u32)
      in if idx \<ge> maxPollers u then Some (- 1)
         else if 0 \<le> idx \<and> nat idx < length (pollerTable u)
         then Some (if EPOLL_DATA_SEQ d \<noteq> ucast (sl_seq (pollerTable u ! nat idx)) then - 1 else 0)
         else None)"

section \<open>Objects\<close>

definition new_poller_object :: "bool \<Rightarrow> int \<Rightarrow> poller_object" where
  "new_poller_object own fd = \<lparr>netfd = fd, ownerUnit = own, newEvents = 0, oldEvents = 0, epslot = None\<rparr>"

definition EPOLLIN :: u32 where "EPOLLIN = 0x001"
definition EPOLLOUT :: u32 where "EPOLLOUT = 0x004"
definition EPOLLERR :: u32 where "EPOLLERR = 0x008"
definition EPOLLHUP :: u32 where "EPOLLHUP = 0x010"

definition po_EnableInput :: "bool \<Rightarrow> poller_object \<Rightarrow> poller_object" where
  "po_EnableInput i p = p\<lparr>newEvents := (if i then newEvents p OR EPOLLIN else newEvents p AND NOT EPOLLIN)\<rparr>"

definition po_EnableOutput :: "bool \<Rightarrow> poller_object \<Rightarrow> poller_object" where
  "po_EnableOutput i p = p\<lparr>newEvents := (if i then newEvents p OR EPOLLOUT else newEvents p AND NOT EPOLLOUT)\<rparr>"

text \<open>The object a pointer leads to, and a slot's object and sequence number.\<close>

definition set_object :: "nat \<Rightarrow> poller_object \<Rightarrow> 'w poll_state \<Rightarrow> 'w poll_state" where
  "set_object p x st = st\<lparr>po := (po st)(p \<mapsto> x)\<rparr>"

definition set_slot :: "nat \<Rightarrow> (slot \<Rightarrow> slot) \<Rightarrow> 'w poll_state \<Rightarrow> 'w poll_state" where
  "set_slot i f st = st\<lparr>pu := (pu st)\<lparr>pollerTable := (pollerTable (pu st))[i := f (pollerTable (pu st) ! i)]\<rparr>\<rparr>"

definition Epctl :: "'w epoll \<Rightarrow> ctl \<Rightarrow> int \<Rightarrow> u32 \<Rightarrow> u64 \<Rightarrow> 'w poll_state \<Rightarrow> int \<times> 'w poll_state" where
  "Epctl api op fd ev d st =
     (let (r, w) = ep_ctl api (kernel st) (epfd (pu st)) op fd ev d
      in (if r = - 1 then - 1 else 0, st\<lparr>kernel := w\<rparr>))"

text \<open>The common end of \<open>AttachPoller\<close> and \<open>ApplyEvents\<close>: a new sequence number, and the registration
  of the events under it.\<close>

definition register_events ::
    "'w epoll \<Rightarrow> ctl \<Rightarrow> nat \<Rightarrow> poller_object \<Rightarrow> nat \<Rightarrow> 'w poll_state \<Rightarrow> (int \<times> 'w poll_state) option" where
  "register_events api op p x i st =
     (if i < length (pollerTable (pu st))
      then (let st1 = set_slot i (\<lambda>s. s\<lparr>sl_seq := sl_seq s + 1\<rparr>) st;
                d = event_id (sl_seq (pollerTable (pu st1) ! i)) i;
                (r, st2) = Epctl api op (netfd x) (newEvents x) d st1
            in Some (if r = 0 then (0, set_object p (x\<lparr>oldEvents := newEvents x\<rparr>) st2) else (- 1, st2)))
      else None)"

definition po_ApplyEvents :: "'w epoll \<Rightarrow> nat \<Rightarrow> 'w poll_state \<Rightarrow> (int \<times> 'w poll_state) option" where
  "po_ApplyEvents api p st = do {
     x \<leftarrow> po st p;
     (case epslot x of
        None \<Rightarrow> Some (0, st)
      | Some i \<Rightarrow>
          if oldEvents x = newEvents x then Some (0, st) else register_events api CTL_MOD p x i st) }"

text \<open>\<open>given\<close> is whether the argument is not \<open>NULL\<close>.\<close>

definition AttachPoller :: "'w epoll \<Rightarrow> bool \<Rightarrow> nat \<Rightarrow> 'w poll_state \<Rightarrow> (int \<times> 'w poll_state) option" where
  "AttachPoller api given p st = do {
     x \<leftarrow> po st p;
     if given \<and> ownerUnit x then Some (- 1, st)
     else do {
       let x = (if given then x\<lparr>ownerUnit := True\<rparr> else x);
       let st = set_object p x st;
       if netfd x < 0 then Some (- 1, st)
       else if epslot x = None then
         if \<not> ownerUnit x then None
         else do {
           (e, u) \<leftarrow> AllocEpollSlot (pu st);
           (case e of
              None \<Rightarrow> Some (- 1, st)
            | Some i \<Rightarrow> do {
                let x = x\<lparr>epslot := Some i\<rparr>;
                let st = set_object p x (st\<lparr>pu := u\<rparr>);
                let st = set_slot i (\<lambda>s. s\<lparr>sl_poller := Some p\<rparr>) st;
                let st = st\<lparr>kernel := ep_nonblock api (kernel st) (netfd x)\<rparr>;
                register_events api CTL_ADD p x i st }) }
       else po_ApplyEvents api p st } }"

definition GetPollerEventId :: "nat \<Rightarrow> 'w poll_state \<Rightarrow> u64 option" where
  "GetPollerEventId p st = do {
     x \<leftarrow> po st p;
     (case epslot x of
        None \<Rightarrow> Some 0
      | Some i \<Rightarrow> if i < length (pollerTable (pu st))
                  then Some (event_id (sl_seq (pollerTable (pu st) ! i)) i) else None) }"

definition DetachPoller :: "'w epoll \<Rightarrow> nat \<Rightarrow> 'w poll_state \<Rightarrow> (int \<times> 'w poll_state) option" where
  "DetachPoller api p st = do {
     x \<leftarrow> po st p;
     (case epslot x of
        None \<Rightarrow> Some (0, st)
      | Some i \<Rightarrow> do {
          let (r, st1) = Epctl api CTL_DEL (netfd x) 0 0 st;
          let x1 = (if r = 0 then x\<lparr>oldEvents := newEvents x\<rparr> else x);
          u \<leftarrow> FreeEpollSlot i (pu st1);
          Some (0, set_object p (x1\<lparr>epslot := None\<rparr>) (st1\<lparr>pu := u\<rparr>)) }) }"

text \<open>The destructor.\<close>

definition destroy_object :: "'w epoll \<Rightarrow> nat \<Rightarrow> 'w poll_state \<Rightarrow> 'w poll_state option" where
  "destroy_object api p st = do {
     x \<leftarrow> po st p;
     u \<leftarrow> (case epslot x of Some i \<Rightarrow> if ownerUnit x then FreeEpollSlot i (pu st) else Some (pu st)
                         | None \<Rightarrow> Some (pu st));
     let st1 = st\<lparr>pu := u, po := (po st)(p := None)\<rparr>;
     Some (if netfd x > 0 then st1\<lparr>kernel := ep_close api (kernel st1) (netfd x)\<rparr> else st1) }"

section \<open>The event loop\<close>

text \<open>The virtual functions an event can call; the result is the return value and the state after.\<close>

datatype callback = InputNotify | OutputNotify | HangupNotify

type_synonym 'w handler = "callback \<Rightarrow> nat \<Rightarrow> 'w poll_state \<Rightarrow> (int \<times> 'w poll_state) option"

definition base_InputNotify :: "nat \<Rightarrow> 'w poll_state \<Rightarrow> (int \<times> 'w poll_state) option" where
  "base_InputNotify p st = map_option (\<lambda>x. (0, set_object p (po_EnableInput False x) st)) (po st p)"

definition base_OutputNotify :: "nat \<Rightarrow> 'w poll_state \<Rightarrow> (int \<times> 'w poll_state) option" where
  "base_OutputNotify p st = map_option (\<lambda>x. (0, set_object p (po_EnableOutput False x) st)) (po st p)"

definition base_HangupNotify :: "nat \<Rightarrow> 'w poll_state \<Rightarrow> (int \<times> 'w poll_state) option" where
  "base_HangupNotify p st = None"

definition base_handler :: "'w handler" where
  "base_handler cb = (case cb of InputNotify \<Rightarrow> base_InputNotify | OutputNotify \<Rightarrow> base_OutputNotify
     | HangupNotify \<Rightarrow> base_HangupNotify)"

text \<open>One of the two notifications of an event: whether to go on with it, and the state.\<close>

definition notify ::
    "'w handler \<Rightarrow> callback \<Rightarrow> bool \<Rightarrow> nat \<Rightarrow> nat \<Rightarrow> 'w poll_state \<Rightarrow> (bool \<times> 'w poll_state) option" where
  "notify h cb on i p st =
     (if on then do {
        (ret_code, st1) \<leftarrow> h cb p st;
        Some (sl_poller (pollerTable (pu st1) ! i) = Some p \<and> ret_code = 0, st1) }
      else Some (True, st))"

definition process_event ::
    "'w epoll \<Rightarrow> 'w handler \<Rightarrow> u32 \<times> u64 \<Rightarrow> 'w poll_state \<Rightarrow> 'w poll_state option" where
  "process_event api h ev st = do {
     let (events, d) = ev;
     v \<leftarrow> VerifyEvents d (pu st);
     if v = - 1 then Some st
     else do {
       let i = unat (EPOLL_DATA_SLOT d);
       p \<leftarrow> sl_poller (pollerTable (pu st) ! i);
       x \<leftarrow> po st p;
       let st = set_object p (x\<lparr>newEvents := oldEvents x\<rparr>) st;
       if events AND (EPOLLHUP OR EPOLLERR) \<noteq> 0 then map_option snd (h HangupNotify p st)
       else do {
         (go, st) \<leftarrow> notify h InputNotify (events AND EPOLLIN \<noteq> 0) i p st;
         if \<not> go then Some st
         else do {
           (go, st) \<leftarrow> notify h OutputNotify (events AND EPOLLOUT \<noteq> 0) i p st;
           if \<not> go then Some st else map_option snd (po_ApplyEvents api p st) } } } }"

fun ProcessPollerEvents ::
    "'w epoll \<Rightarrow> 'w handler \<Rightarrow> (u32 \<times> u64) list \<Rightarrow> 'w poll_state \<Rightarrow> 'w poll_state option" where
  "ProcessPollerEvents api h [] st = Some st"
| "ProcessPollerEvents api h (ev # evs) st =
     Option.bind (process_event api h ev st) (ProcessPollerEvents api h evs)"

definition WaitPollerEvents :: "'w epoll \<Rightarrow> int \<Rightarrow> 'w poll_state \<Rightarrow> (u32 \<times> u64) list \<times> 'w poll_state" where
  "WaitPollerEvents api timeout st =
     (let (evs, w) = ep_wait api (kernel st) (epfd (pu st)) (maxPollers (pu st)) timeout
      in (evs, st\<lparr>kernel := w\<rparr>))"

section \<open>Event numbers\<close>

lemma unat_up [simp]: "unat (ucast (s :: u32) :: u64) = unat s"
proof -
  have "unat s < 2 ^ 64" using unsigned_less [of s, where ?'a = nat] by simp
  then show ?thesis by (simp add: unsigned_ucast_eq take_bit_nat_eq_self)
qed

lemma unat_event_id: "i < 2 ^ 32 \<Longrightarrow> unat (event_id seq i) = unat seq * 2 ^ 32 + i"
proof -
  assume i: "i < 2 ^ 32"
  have s: "unat seq < 2 ^ 32" using unsigned_less [of seq] by simp
  have "(ucast seq :: u64) = of_nat (unat seq)" by simp
  then have eq: "event_id seq i = of_nat (unat seq * 2 ^ 32 + i)"
    by (simp add: event_id_def push_bit_eq_mult)
  have "unat seq * 2 ^ 32 + i < 2 ^ 64" using i s by simp
  then show ?thesis unfolding eq unsigned_of_nat by (simp add: take_bit_nat_eq_self)
qed

lemma event_id_parts:
  assumes "i < 2 ^ 32"
  shows "EPOLL_DATA_SLOT (event_id seq i) = of_nat i" "EPOLL_DATA_SEQ (event_id seq i) = ucast seq"
proof -
  have s: "unat seq < 2 ^ 32" using unsigned_less [of seq] by simp
  have m: "EPOLL_DATA_SLOT x = take_bit 32 x" for x
    unfolding EPOLL_DATA_SLOT_def take_bit_eq_mask by (simp add: mask_eq_exp_minus_1)
  have "unat (EPOLL_DATA_SLOT (event_id seq i)) = i"
    unfolding m unsigned_take_bit_eq unat_event_id [OF assms] using assms by (simp add: take_bit_eq_mod)
  then show "EPOLL_DATA_SLOT (event_id seq i) = of_nat i" by (metis of_nat_unat ucast_id)
  have "unat (EPOLL_DATA_SEQ (event_id seq i)) = unat (ucast seq :: u64)"
    unfolding EPOLL_DATA_SEQ_def unsigned_drop_bit_eq unat_event_id [OF assms]
    using assms s by (simp add: drop_bit_eq_div take_bit_nat_eq_self)
  then show "EPOLL_DATA_SEQ (event_id seq i) = ucast seq" by (rule unsigned_word_eqI)
qed

text \<open>
  An event number gives back the sequence number and the slot it was made of.
\<close>

theorem event_id_roundtrip:
  assumes "i < 2 ^ 32"
  shows "EPOLL_DATA_SLOT (event_id seq i) = of_nat i \<and> EPOLL_DATA_SEQ (event_id seq i) = ucast seq"
  using event_id_parts [OF assms] by simp

theorem event_id_roundtrip_witness:
  "EPOLL_DATA_SLOT (event_id 7 3) = of_nat 3 \<and> EPOLL_DATA_SEQ (event_id 7 3) = ucast (7 :: u32)"
  by (rule event_id_roundtrip) simp

lemma VerifyEvents_event_id:
  assumes "i < length (pollerTable u)" "int (length (pollerTable u)) \<le> maxPollers u" "maxPollers u < 2 ^ 31"
  shows "VerifyEvents (event_id seq i) u = Some (if seq = sl_seq (pollerTable u ! i) then 0 else - 1)"
proof -
  have i: "int i < 2 ^ 31" using assms by linarith
  then have i2: "i < 2 ^ 32" "i < 2 ^ 31" by simp_all
  have "(ucast (of_nat i :: u64) :: u32) = of_nat i"
    using i2 of_nat_unat [of "of_nat i :: u64", where 'a = "32 word"]
    by (simp add: unsigned_of_nat take_bit_nat_eq_self del: of_nat_unat)
  then have "sint (ucast (EPOLL_DATA_SLOT (event_id seq i)) :: u32) = int i"
    unfolding event_id_parts(1) [OF i2(1)] using i2
    by (simp add: signed_of_nat signed_take_bit_int_eq_self)
  moreover have "(ucast seq :: u64) = ucast s \<longleftrightarrow> seq = s" for s :: u32
    by (metis unat_up unsigned_word_eqI)
  ultimately show ?thesis
    using assms event_id_parts(2) [OF i2(1)] by (simp add: VerifyEvents_def Let_def)
qed

section \<open>The slot table\<close>

text \<open>The free list as the list of its slots; what holds of the table between two calls.\<close>

primrec chain :: "slot list \<Rightarrow> nat option \<Rightarrow> nat list \<Rightarrow> bool" where
  "chain t f [] \<longleftrightarrow> f = None"
| "chain t f (i # fl) \<longleftrightarrow> f = Some i \<and> i < length t \<and> chain t (sl_free (t ! i)) fl"

definition unit_ok :: "poller_unit \<Rightarrow> nat list \<Rightarrow> bool" where
  "unit_ok u fl \<longleftrightarrow> chain (pollerTable u) (freeSlotList u) fl \<and> distinct fl \<and>
     int (length (pollerTable u)) = maxPollers u \<and> maxPollers u < 2 ^ 31 \<and>
     usedPollers u = maxPollers u - int (length fl)"

definition attachment :: "'w poll_state \<Rightarrow> nat \<Rightarrow> (nat option \<times> bool) option" where
  "attachment st p = map_option (\<lambda>x. (epslot x, ownerUnit x)) (po st p)"

definition table_ok :: "'w poll_state \<Rightarrow> nat list \<Rightarrow> bool" where
  "table_ok st fl \<longleftrightarrow> unit_ok (pu st) fl \<and>
     (\<forall>i < length (pollerTable (pu st)). sl_poller (pollerTable (pu st) ! i) = None \<longrightarrow> i \<in> set fl) \<and>
     (\<forall>i < length (pollerTable (pu st)). \<forall>p. sl_poller (pollerTable (pu st) ! i) = Some p \<longrightarrow>
        i \<notin> set fl \<and> attachment st p = Some (Some i, True)) \<and>
     (\<forall>p i b. attachment st p = Some (Some i, b) \<longrightarrow>
        i < length (pollerTable (pu st)) \<and> sl_poller (pollerTable (pu st) ! i) = Some p)"

definition poll_ok :: "'w poll_state \<Rightarrow> bool" where
  "poll_ok st \<longleftrightarrow> (\<exists>fl. table_ok st fl)"

lemma table_okD:
  assumes "table_ok st fl"
  shows "unit_ok (pu st) fl"
    "i < length (pollerTable (pu st)) \<Longrightarrow> sl_poller (pollerTable (pu st) ! i) = None \<Longrightarrow> i \<in> set fl"
    "i < length (pollerTable (pu st)) \<Longrightarrow> sl_poller (pollerTable (pu st) ! i) = Some p \<Longrightarrow>
       i \<notin> set fl \<and> attachment st p = Some (Some i, True)"
    "attachment st p = Some (Some i, b) \<Longrightarrow>
       i < length (pollerTable (pu st)) \<and> sl_poller (pollerTable (pu st) ! i) = Some p"
  using assms unfolding table_ok_def by blast+

lemma poll_okI:
  assumes "unit_ok (pu st) fl"
    "\<And>i. i < length (pollerTable (pu st)) \<Longrightarrow> sl_poller (pollerTable (pu st) ! i) = None \<Longrightarrow> i \<in> set fl"
    "\<And>i p. i < length (pollerTable (pu st)) \<Longrightarrow> sl_poller (pollerTable (pu st) ! i) = Some p \<Longrightarrow>
       i \<notin> set fl \<and> attachment st p = Some (Some i, True)"
    "\<And>p i b. attachment st p = Some (Some i, b) \<Longrightarrow>
       i < length (pollerTable (pu st)) \<and> sl_poller (pollerTable (pu st) ! i) = Some p"
  shows "poll_ok st"
  unfolding poll_ok_def table_ok_def using assms by blast

lemma chain_frame:
  "length t' = length t \<Longrightarrow> (\<forall>i \<in> set fl. sl_free (t' ! i) = sl_free (t ! i)) \<Longrightarrow> chain t' f fl = chain t f fl"
  by (induction fl arbitrary: f) auto

lemma chain_range: "chain t f fl \<Longrightarrow> i \<in> set fl \<Longrightarrow> i < length t"
  by (induction fl arbitrary: f) auto

lemma chain_cases: "chain t f fl \<Longrightarrow> (case f of None \<Rightarrow> fl = [] | Some i \<Rightarrow> \<exists>fl'. fl = i # fl')"
  by (cases fl) auto

lemma Alloc_ok:
  assumes "unit_ok u (i # fl)"
  obtains u' where "AllocEpollSlot u = Some (Some i, u')" "unit_ok u' fl" "i < length (pollerTable u)"
    "pollerTable u' = (pollerTable u)[i := (pollerTable u ! i)\<lparr>sl_free := None\<rparr>]" "i \<notin> set fl"
proof (rule that [of "u\<lparr>usedPollers := usedPollers u + 1, freeSlotList := sl_free (pollerTable u ! i),
    pollerTable := (pollerTable u)[i := (pollerTable u ! i)\<lparr>sl_free := None\<rparr>]\<rparr>"])
  let ?t = "(pollerTable u)[i := (pollerTable u ! i)\<lparr>sl_free := None\<rparr>]"
  have "\<forall>j \<in> set fl. sl_free (?t ! j) = sl_free (pollerTable u ! j)"
    using assms by (auto simp: unit_ok_def nth_list_update)
  then have "chain ?t f fl = chain (pollerTable u) f fl" for f by (intro chain_frame) simp_all
  with assms show "unit_ok (u\<lparr>usedPollers := usedPollers u + 1, freeSlotList := sl_free (pollerTable u ! i),
    pollerTable := ?t\<rparr>) fl" by (simp add: unit_ok_def)
qed (use assms in \<open>auto simp: unit_ok_def AllocEpollSlot_def Let_def\<close>)

lemma Alloc_full: "unit_ok u [] \<Longrightarrow> AllocEpollSlot u = Some (None, u)"
  by (simp add: unit_ok_def AllocEpollSlot_def)

lemma Free_ok:
  assumes "unit_ok u fl" "i < length (pollerTable u)" "i \<notin> set fl"
  obtains u' where "FreeEpollSlot i u = Some u'" "unit_ok u' (i # fl)"
    "pollerTable u' = (pollerTable u)[i := (pollerTable u ! i)\<lparr>sl_free := freeSlotList u, sl_poller := None,
       sl_seq := sl_seq (pollerTable u ! i) + 1\<rparr>]"
proof (rule that [of "u\<lparr>freeSlotList := Some i, usedPollers := usedPollers u - 1,
    pollerTable := (pollerTable u)[i := (pollerTable u ! i)\<lparr>sl_free := freeSlotList u, sl_poller := None,
       sl_seq := sl_seq (pollerTable u ! i) + 1\<rparr>]\<rparr>"])
  let ?t = "(pollerTable u)[i := (pollerTable u ! i)\<lparr>sl_free := freeSlotList u, sl_poller := None,
       sl_seq := sl_seq (pollerTable u ! i) + 1\<rparr>]"
  have "\<forall>j \<in> set fl. sl_free (?t ! j) = sl_free (pollerTable u ! j)"
    using assms by (auto simp: nth_list_update)
  then have "chain ?t f fl = chain (pollerTable u) f fl" for f by (intro chain_frame) simp_all
  with assms show "unit_ok (u\<lparr>freeSlotList := Some i, usedPollers := usedPollers u - 1, pollerTable := ?t\<rparr>) (i # fl)"
    by (simp add: unit_ok_def)
qed (use assms in \<open>simp_all add: FreeEpollSlot_def Let_def\<close>)

text \<open>A change of sequence numbers, of events or of the kernel leaves the invariant alone.\<close>

definition same_slots :: "slot list \<Rightarrow> slot list \<Rightarrow> bool" where
  "same_slots t t' \<longleftrightarrow> length t' = length t \<and>
     (\<forall>i < length t. sl_poller (t' ! i) = sl_poller (t ! i) \<and> sl_free (t' ! i) = sl_free (t ! i))"

lemma poll_ok_frame:
  assumes ok: "poll_ok st" and u: "same_slots (pollerTable (pu st)) (pollerTable (pu st'))"
    "freeSlotList (pu st') = freeSlotList (pu st)" "maxPollers (pu st') = maxPollers (pu st)"
    "usedPollers (pu st') = usedPollers (pu st)"
    and objs: "attachment st' = attachment st"
  shows "poll_ok st'"
proof -
  obtain fl where fl: "table_ok st fl" using ok unfolding poll_ok_def by blast
  have len: "length (pollerTable (pu st')) = length (pollerTable (pu st))" using u(1) by (simp add: same_slots_def)
  have "\<forall>i \<in> set fl. sl_free (pollerTable (pu st') ! i) = sl_free (pollerTable (pu st) ! i)"
    using u(1) table_okD(1) [OF fl] chain_range unfolding unit_ok_def same_slots_def by blast
  note chain = chain_frame [OF len this]
  have fl': "unit_ok (pu st') fl" using table_okD(1) [OF fl] u(2-4) len by (simp add: unit_ok_def chain)
  have same: "sl_poller (pollerTable (pu st') ! i) = sl_poller (pollerTable (pu st) ! i)"
    if "i < length (pollerTable (pu st))" for i using u(1) that by (simp add: same_slots_def)
  show ?thesis
  proof (rule poll_okI [OF fl'], unfold objs len)
    fix i p b
    show "i \<in> set fl" if "i < length (pollerTable (pu st))" "sl_poller (pollerTable (pu st') ! i) = None"
      using that table_okD(2) [OF fl] same by simp
    show "i \<notin> set fl \<and> attachment st p = Some (Some i, True)"
      if "i < length (pollerTable (pu st))" "sl_poller (pollerTable (pu st') ! i) = Some p"
      using that table_okD(3) [OF fl] same by simp
    show "i < length (pollerTable (pu st)) \<and> sl_poller (pollerTable (pu st') ! i) = Some p"
      if "attachment st p = Some (Some i, b)"
      using table_okD(4) [OF fl that] same by simp
  qed
qed

lemma attachment_set_object:
  "po st p = Some x \<Longrightarrow> epslot x' = epslot x \<Longrightarrow> ownerUnit x' = ownerUnit x \<Longrightarrow>
     attachment (set_object p x' st) = attachment st"
  by (auto simp: attachment_def set_object_def fun_eq_iff)

lemma attachment_simps [simp]:
  "attachment (st\<lparr>kernel := w\<rparr>) = attachment st" "attachment (st\<lparr>pu := u\<rparr>) = attachment st"
  "attachment (set_slot i f st) = attachment st"
  by (simp_all add: attachment_def set_slot_def fun_eq_iff)

lemma poll_ok_object:
  assumes "poll_ok st" "po st p = Some x" "epslot x' = epslot x" "ownerUnit x' = ownerUnit x"
  shows "poll_ok (set_object p x' st)"
  by (rule poll_ok_frame [OF assms(1)])
    (use assms attachment_set_object in \<open>simp_all add: same_slots_def set_object_def\<close>)

lemma register_ok:
  assumes ok: "poll_ok st" and x: "po st p = Some x" "epslot x = Some i"
  obtains r st' where "register_events api op p x i st = Some (r, st')" "poll_ok st'" "r = 0 \<or> r = - 1"
    "sl_seq (pollerTable (pu st') ! i) = sl_seq (pollerTable (pu st) ! i) + 1"
proof -
  note result = that
  have "attachment st p = Some (Some i, ownerUnit x)" using x by (simp add: attachment_def)
  then have i: "i < length (pollerTable (pu st))" using ok table_okD(4) unfolding poll_ok_def by blast
  let ?s1 = "set_slot i (\<lambda>s. s\<lparr>sl_seq := sl_seq s + 1\<rparr>) st"
  have ok1: "poll_ok (?s1\<lparr>kernel := w\<rparr>)" for w
    by (rule poll_ok_frame [OF ok]) (auto simp: same_slots_def set_slot_def nth_list_update [OF i])
  obtain r w where e: "Epctl api op (netfd x) (newEvents x) (event_id (sl_seq (pollerTable (pu ?s1) ! i)) i) ?s1 =
      (r, ?s1\<lparr>kernel := w\<rparr>)" "r = 0 \<or> r = - 1"
    by (simp add: Epctl_def split_beta Let_def)
  have ok2: "poll_ok (set_object p (x\<lparr>oldEvents := newEvents x\<rparr>) (?s1\<lparr>kernel := w\<rparr>))"
    by (rule poll_ok_object [OF ok1, where x = x]) (use x in \<open>simp_all add: set_slot_def\<close>)
  show thesis
  proof (cases "r = 0")
    case True
    then show thesis using i e ok2
      by (intro result [of 0 "set_object p (x\<lparr>oldEvents := newEvents x\<rparr>) (?s1\<lparr>kernel := w\<rparr>)"])
        (simp_all add: register_events_def Let_def set_object_def set_slot_def)
  next
    case False
    then show thesis using i e ok1
      by (intro result [of "- 1" "?s1\<lparr>kernel := w\<rparr>"]) (simp_all add: register_events_def Let_def set_slot_def)
  qed
qed

text \<open>A slot is given back, and one is taken.\<close>

lemma release_slot:
  assumes ok: "poll_ok st" and p: "attachment st p = Some (Some i, b)"
  obtains u where "FreeEpollSlot i (pu st) = Some u" "i < length (pollerTable (pu st))"
    "pollerTable u = (pollerTable (pu st))[i := (pollerTable (pu st) ! i)\<lparr>sl_free := freeSlotList (pu st),
       sl_poller := None, sl_seq := sl_seq (pollerTable (pu st) ! i) + 1\<rparr>]"
proof -
  obtain fl where tab: "table_ok st fl" using ok unfolding poll_ok_def by blast
  note fl = table_okD [OF tab]
  have i: "i < length (pollerTable (pu st))" "i \<notin> set fl"
    using fl(4) [OF p] fl(3) by auto
  from Free_ok [OF fl(1) i] that i show thesis by blast
qed

lemma release_slot_ok:
  assumes ok: "poll_ok st" and p: "attachment st p = Some (Some i, b)" and u: "FreeEpollSlot i (pu st) = Some u"
    and st': "pu st' = u" "\<And>q. q \<noteq> p \<Longrightarrow> attachment st' q = attachment st q"
      "\<And>j c. attachment st' p \<noteq> Some (Some j, c)"
  shows "poll_ok st'"
proof -
  obtain fl where tab: "table_ok st fl" using ok unfolding poll_ok_def by blast
  note fl = table_okD [OF tab]
  have i: "i < length (pollerTable (pu st))" "sl_poller (pollerTable (pu st) ! i) = Some p" "i \<notin> set fl"
    using fl(4) [OF p] fl(3) by auto
  let ?t = "(pollerTable (pu st))[i := (pollerTable (pu st) ! i)\<lparr>sl_free := freeSlotList (pu st),
       sl_poller := None, sl_seq := sl_seq (pollerTable (pu st) ! i) + 1\<rparr>]"
  obtain u' where "FreeEpollSlot i (pu st) = Some u'" "unit_ok u' (i # fl)" "pollerTable u' = ?t"
    by (rule Free_ok [OF fl(1) i(1,3)])
  then have u': "unit_ok u (i # fl)" "pollerTable u = ?t" using u by simp_all
  show ?thesis
  proof (rule poll_okI [of _ "i # fl"], unfold st'(1) u'(2))
    show "unit_ok u (i # fl)" by (rule u')
  next
    fix j assume "j < length ?t"
     "sl_poller (?t ! j) = None"
    then show "j \<in> set (i # fl)" using fl(2) by (cases "j = i") simp_all
  next
    fix j q assume j: "j < length ?t"
     "sl_poller (?t ! j) = Some q"
    then have ne: "j \<noteq> i" by auto
    with j have q: "j \<notin> set fl \<and> attachment st q = Some (Some j, True)" using fl(3) by simp
    then have "q \<noteq> p" using p ne by auto
    then show "j \<notin> set (i # fl) \<and> attachment st' q = Some (Some j, True)" using q ne st'(2) by simp
  next
    fix q j c assume a: "attachment st' q = Some (Some j, c)"
    then have "q \<noteq> p" using st'(3) by auto
    then have "j < length (pollerTable (pu st)) \<and> sl_poller (pollerTable (pu st) ! j) = Some q" using a st'(2) fl(4) by simp
    moreover from this have "j \<noteq> i" using i(2) \<open>q \<noteq> p\<close> by auto
    ultimately show "j < length ?t \<and>
     sl_poller (?t ! j) = Some q" by simp
  qed
qed

lemma take_ok:
  assumes ok: "poll_ok st" and p: "attachment st p = Some (None, b)" and a: "AllocEpollSlot (pu st) = Some (Some i, u)"
    and st': "pollerTable (pu st') = (pollerTable u)[i := (pollerTable u ! i)\<lparr>sl_poller := Some p\<rparr>]"
    "freeSlotList (pu st') = freeSlotList u" "maxPollers (pu st') = maxPollers u" "usedPollers (pu st') = usedPollers u"
    "\<And>q. q \<noteq> p \<Longrightarrow> attachment st' q = attachment st q" "attachment st' p = Some (Some i, True)"
  shows "poll_ok st'"
proof -
  obtain fl where tab: "table_ok st fl" using ok unfolding poll_ok_def by blast
  note fl = table_okD [OF tab]
  obtain fl' where fl': "fl = i # fl'"
  proof (cases fl)
    case Nil
    then show ?thesis using Alloc_full fl(1) a by auto
  next
    case (Cons j fl')
    then have "unit_ok (pu st) (j # fl')" using fl(1) by simp
    then obtain u' where "AllocEpollSlot (pu st) = Some (Some j, u')" by (rule Alloc_ok)
    with a Cons that show ?thesis by simp
  qed
  then have "unit_ok (pu st) (i # fl')" using fl(1) by simp
  then obtain u' where "AllocEpollSlot (pu st) = Some (Some i, u')" "unit_ok u' fl'" "i < length (pollerTable (pu st))"
    "pollerTable u' = (pollerTable (pu st))[i := (pollerTable (pu st) ! i)\<lparr>sl_free := None\<rparr>]" "i \<notin> set fl'"
    by (rule Alloc_ok)
  with a have u: "unit_ok u fl'" "i < length (pollerTable (pu st))"
    "pollerTable u = (pollerTable (pu st))[i := (pollerTable (pu st) ! i)\<lparr>sl_free := None\<rparr>]" "i \<notin> set fl'" by simp_all
  have t: "pollerTable (pu st') = (pollerTable (pu st))[i := (pollerTable (pu st) ! i)\<lparr>sl_free := None, sl_poller := Some p\<rparr>]"
    using st'(1) u(2,3) by simp
  have "\<forall>j \<in> set fl'. sl_free (pollerTable (pu st') ! j) = sl_free (pollerTable u ! j)"
    using t u by (auto simp: nth_list_update)
  then have "chain (pollerTable (pu st')) (freeSlotList u) fl' = chain (pollerTable u) (freeSlotList u) fl'"
    using t u(3) by (intro chain_frame) simp_all
  then have uo: "unit_ok (pu st') fl'" using u(1,3) t st'(2-4) by (simp add: unit_ok_def)
  have free: "sl_poller (pollerTable (pu st) ! i) = None"
    using fl(3) u(2) fl' by (cases "sl_poller (pollerTable (pu st) ! i)") auto
  show ?thesis
  proof (rule poll_okI [OF uo], unfold t)
    fix j assume "j < length ((pollerTable (pu st))[i := (pollerTable (pu st) ! i)\<lparr>sl_free := None, sl_poller := Some p\<rparr>])"
      "sl_poller ((pollerTable (pu st))[i := (pollerTable (pu st) ! i)\<lparr>sl_free := None, sl_poller := Some p\<rparr>] ! j) = None"
    then show "j \<in> set fl'" using fl(2) fl' by (cases "j = i") auto
  next
    fix j q assume j: "j < length ((pollerTable (pu st))[i := (pollerTable (pu st) ! i)\<lparr>sl_free := None, sl_poller := Some p\<rparr>])"
      "sl_poller ((pollerTable (pu st))[i := (pollerTable (pu st) ! i)\<lparr>sl_free := None, sl_poller := Some p\<rparr>] ! j) = Some q"
    show "j \<notin> set fl' \<and> attachment st' q = Some (Some j, True)"
    proof (cases "j = i")
      case True
      then show ?thesis using j u(2,4) st'(6) by simp
    next
      case False
      then have "j \<notin> set fl \<and> attachment st q = Some (Some j, True)" using j fl(3) by simp
      moreover from this have "q \<noteq> p" using p by auto
      ultimately show ?thesis using st'(5) fl' by simp
    qed
  next
    fix q j c assume a: "attachment st' q = Some (Some j, c)"
    show "j < length ((pollerTable (pu st))[i := (pollerTable (pu st) ! i)\<lparr>sl_free := None, sl_poller := Some p\<rparr>]) \<and>
      sl_poller ((pollerTable (pu st))[i := (pollerTable (pu st) ! i)\<lparr>sl_free := None, sl_poller := Some p\<rparr>] ! j) = Some q"
    proof (cases "q = p")
      case True
      then show ?thesis using a st'(6) u(2) by simp
    next
      case False
      then have "j < length (pollerTable (pu st)) \<and> sl_poller (pollerTable (pu st) ! j) = Some q" using a st'(5) fl(4) by simp
      moreover from this have "j \<noteq> i" using free by auto
      ultimately show ?thesis by simp
    qed
  qed
qed

lemma attachment_owner: "poll_ok st \<Longrightarrow> attachment st p = Some (Some i, b) \<Longrightarrow> b"
proof -
  assume ok: "poll_ok st" and p: "attachment st p = Some (Some i, b)"
  obtain fl where fl: "table_ok st fl" using ok unfolding poll_ok_def by blast
  have "attachment st p = Some (Some i, True)" using table_okD(4) [OF fl p] table_okD(3) [OF fl] by blast
  with p show b by simp
qed

lemma alloc_total:
  assumes "poll_ok st"
  obtains "AllocEpollSlot (pu st) = Some (None, pu st)"
  | i u where "AllocEpollSlot (pu st) = Some (Some i, u)" "i < length (pollerTable (pu st))"
      "pollerTable u = (pollerTable (pu st))[i := (pollerTable (pu st) ! i)\<lparr>sl_free := None\<rparr>]"
proof -
  obtain fl where fl: "table_ok st fl" using assms unfolding poll_ok_def by blast
  note ok = table_okD(1) [OF fl]
  show thesis
  proof (cases fl)
    case Nil
    then show thesis using ok Alloc_full that(1) by blast
  next
    case (Cons i fl')
    with ok have "unit_ok (pu st) (i # fl')" by simp
    then show thesis using that(2) by (elim Alloc_ok) blast
  qed
qed

text \<open>The sequence numbers only move on, by one at a time.\<close>

definition bumps :: "'w poll_state \<Rightarrow> 'w poll_state \<Rightarrow> bool" where
  "bumps st st' \<longleftrightarrow> length (pollerTable (pu st')) = length (pollerTable (pu st)) \<and>
     (\<forall>j < length (pollerTable (pu st)). sl_seq (pollerTable (pu st') ! j) = sl_seq (pollerTable (pu st) ! j) \<or>
        sl_seq (pollerTable (pu st') ! j) = sl_seq (pollerTable (pu st) ! j) + 1)"

lemma bumps_same: "pollerTable (pu st') = pollerTable (pu st) \<Longrightarrow> bumps st st'"
  by (simp add: bumps_def)

lemma bumps_slot:
  "pollerTable (pu st') = (pollerTable (pu st))[i := s] \<Longrightarrow>
     (i < length (pollerTable (pu st)) \<Longrightarrow> sl_seq s = sl_seq (pollerTable (pu st) ! i) + 1) \<Longrightarrow> bumps st st'"
  by (cases "i < length (pollerTable (pu st))") (auto simp: bumps_def nth_list_update list_update_beyond)

lemma register_bumps:
  "register_events api op p x i st = Some (r, st') \<Longrightarrow> bumps st st'"
  by (rule bumps_slot [of _ _ i])
    (auto simp: register_events_def Epctl_def set_object_def set_slot_def Let_def split: prod.splits if_splits)

lemma attachmentI: "po st p = Some x \<Longrightarrow> attachment st p = Some (epslot x, ownerUnit x)"
  by (simp add: attachment_def)

lemma apply_ok:
  assumes ok: "poll_ok st" and x: "po st p = Some x"
  obtains r st' where "po_ApplyEvents api p st = Some (r, st')" "poll_ok st'" "bumps st st'"
proof (cases "epslot x = None \<or> oldEvents x = newEvents x")
  case True
  then show thesis using that [of 0 st] ok x bumps_same [of st st]
    by (auto simp: po_ApplyEvents_def split: option.split)
next
  case False
  then obtain i where i: "epslot x = Some i" "oldEvents x \<noteq> newEvents x" by auto
  obtain r st' where "register_events api CTL_MOD p x i st = Some (r, st')" "poll_ok st'"
    by (rule register_ok [OF ok x i(1)])
  moreover from this(1) have "bumps st st'" by (rule register_bumps)
  ultimately show thesis using that [of r st'] i x by (simp add: po_ApplyEvents_def)
qed

lemma detach_ok:
  assumes ok: "poll_ok st" and x: "po st p = Some x"
  obtains st' where "DetachPoller api p st = Some (0, st')" "poll_ok st'" "bumps st st'"
    "\<And>i. epslot x = Some i \<Longrightarrow> i < length (pollerTable (pu st)) \<and>
       sl_seq (pollerTable (pu st') ! i) = sl_seq (pollerTable (pu st) ! i) + 1"
proof (cases "epslot x")
  case None
  then show thesis using that [of st] ok x bumps_same [of st st] by (simp add: DetachPoller_def)
next
  case (Some i)
  obtain r w where e: "Epctl api CTL_DEL (netfd x) 0 0 st = (r, st\<lparr>kernel := w\<rparr>)"
    by (simp add: Epctl_def split_beta Let_def)
  let ?x = "(if r = 0 then x\<lparr>oldEvents := newEvents x\<rparr> else x)\<lparr>epslot := None\<rparr>"
  have att: "attachment st p = Some (Some i, ownerUnit x)" using attachmentI [OF x] Some by simp
  obtain u where u: "FreeEpollSlot i (pu st) = Some u" "i < length (pollerTable (pu st))"
    "pollerTable u = (pollerTable (pu st))[i := (pollerTable (pu st) ! i)\<lparr>sl_free := freeSlotList (pu st),
       sl_poller := None, sl_seq := sl_seq (pollerTable (pu st) ! i) + 1\<rparr>]"
    by (rule release_slot [OF ok att])
  let ?st = "set_object p ?x (st\<lparr>kernel := w, pu := u\<rparr>)"
  have "DetachPoller api p st = Some (0, ?st)" using x Some e u(1) by (simp add: DetachPoller_def)
  moreover have "poll_ok ?st" by (rule release_slot_ok [OF ok att u(1)]) (auto simp: attachment_def set_object_def)
  moreover have "bumps st ?st" by (rule bumps_slot [of _ _ i]) (simp add: set_object_def u(3), simp)
  ultimately show thesis using that [of ?st] Some u(2,3) by (simp add: set_object_def)
qed

lemma destroy_ok:
  assumes ok: "poll_ok st" and x: "po st p = Some x"
  obtains st' where "destroy_object api p st = Some st'" "poll_ok st'" "bumps st st'"
    "\<And>i. epslot x = Some i \<Longrightarrow> i < length (pollerTable (pu st)) \<and>
       sl_seq (pollerTable (pu st') ! i) = sl_seq (pollerTable (pu st) ! i) + 1"
proof (cases "epslot x")
  case None
  let ?st1 = "st\<lparr>po := (po st)(p := None)\<rparr>"
  let ?st = "if netfd x > 0 then ?st1\<lparr>kernel := ep_close api (kernel st) (netfd x)\<rparr> else ?st1"
  obtain fl where fl: "table_ok st fl" using ok unfolding poll_ok_def by blast
  have "destroy_object api p st = Some ?st" using x None by (simp add: destroy_object_def)
  moreover have "table_ok ?st fl"
    using fl x None attachmentI [OF x] unfolding table_ok_def by (auto simp: attachment_def)
  moreover have "bumps st ?st" by (rule bumps_same) simp
  ultimately show thesis using that [of ?st] None unfolding poll_ok_def by auto
next
  case (Some i)
  have att: "attachment st p = Some (Some i, ownerUnit x)" using attachmentI [OF x] Some by simp
  have own: "ownerUnit x" by (rule attachment_owner [OF ok att])
  obtain u where u: "FreeEpollSlot i (pu st) = Some u" "i < length (pollerTable (pu st))"
    "pollerTable u = (pollerTable (pu st))[i := (pollerTable (pu st) ! i)\<lparr>sl_free := freeSlotList (pu st),
       sl_poller := None, sl_seq := sl_seq (pollerTable (pu st) ! i) + 1\<rparr>]"
    by (rule release_slot [OF ok att])
  let ?st1 = "st\<lparr>pu := u, po := (po st)(p := None)\<rparr>"
  let ?st = "if netfd x > 0 then ?st1\<lparr>kernel := ep_close api (kernel st) (netfd x)\<rparr> else ?st1"
  have "destroy_object api p st = Some ?st" using x Some u(1) own by (simp add: destroy_object_def)
  moreover have "poll_ok ?st" by (rule release_slot_ok [OF ok att u(1)]) (auto simp: attachment_def)
  moreover have "bumps st ?st" by (rule bumps_slot [of _ _ i]) (simp add: u(3), simp)
  ultimately show thesis using that [of ?st] Some u(2,3) by simp
qed

lemma attach_alloc:
  assumes "po st p = Some x" "\<not> (given \<and> ownerUnit x)" "given \<or> ownerUnit x" "0 \<le> netfd x" "epslot x = None"
    and X: "X = (if given then x\<lparr>ownerUnit := True\<rparr> else x)" and S: "S = set_object p X st"
  shows "AllocEpollSlot (pu S) = Some (None, u) \<Longrightarrow> AttachPoller api given p st = Some (- 1, S)"
    and "AllocEpollSlot (pu S) = Some (Some i, u) \<Longrightarrow>
      T = set_slot i (\<lambda>s. s\<lparr>sl_poller := Some p\<rparr>) (set_object p (X\<lparr>epslot := Some i\<rparr>) (S\<lparr>pu := u\<rparr>)) \<Longrightarrow>
      AttachPoller api given p st = register_events api CTL_ADD p (X\<lparr>epslot := Some i\<rparr>) i
        (T\<lparr>kernel := ep_nonblock api (kernel T) (netfd X)\<rparr>)"
  using assms by (cases given; simp add: AttachPoller_def Let_def)+

lemma attach_ok:
  assumes ok: "poll_ok st" and x: "po st p = Some x" and own: "given \<or> ownerUnit x"
  obtains r st' where "AttachPoller api given p st = Some (r, st')" "poll_ok st'" "bumps st st'"
proof -
  note result = that
  let ?x = "if given then x\<lparr>ownerUnit := True\<rparr> else x"
  let ?s = "set_object p ?x st"
  show thesis
  proof (cases "given \<and> ownerUnit x")
    case True
    then show thesis using result [of "- 1" st] ok x bumps_same [of st st] by (simp add: AttachPoller_def)
  next
    case False
    have slot: "epslot x = None" if "given"
    proof (rule ccontr)
      assume "epslot x \<noteq> None"
      then obtain i where "epslot x = Some i" by auto
      then have "attachment st p = Some (Some i, False)" using attachmentI [OF x] False that by simp
      then show False using attachment_owner [OF ok] by blast
    qed
    have ok1: "poll_ok ?s"
    proof (cases given)
      case True
      obtain fl where fl: "table_ok st fl" using ok unfolding poll_ok_def by blast
      have "table_ok ?s fl" using fl slot [OF True] x unfolding table_ok_def
        by (auto simp: attachment_def set_object_def)
      then show ?thesis unfolding poll_ok_def by blast
    next
      case False
      then show ?thesis using poll_ok_object [OF ok x] by simp
    qed
    have b1: "bumps st ?s" by (rule bumps_same) (simp add: set_object_def)
    have x1: "po ?s p = Some ?x" "ownerUnit ?x" using own by (auto simp: set_object_def)
    consider "netfd x < 0" | "netfd x \<ge> 0" "epslot x \<noteq> None" | "netfd x \<ge> 0" "epslot x = None" by force
    then show thesis
    proof cases
      case 1
      then show thesis using result [of "- 1" ?s] ok1 b1 x False by (simp add: AttachPoller_def)
    next
      case 2
      then have "\<not> given" by (auto dest: slot)
      moreover obtain r st' where "po_ApplyEvents api p ?s = Some (r, st')" "poll_ok st'" "bumps ?s st'"
        by (rule apply_ok [OF ok1 x1(1)])
      moreover have "bumps st st'" using \<open>bumps ?s st'\<close> by (simp add: bumps_def set_object_def)
      ultimately show thesis using result [of r st'] 2 x False by (auto simp: AttachPoller_def)
    next
      case 3
      have att: "attachment ?s p = Some (None, True)" using attachmentI [OF x1(1)] x1(2) 3 by simp
      have pus: "pu ?s = pu st" by (simp add: set_object_def)
      from ok1 show thesis
      proof (cases rule: alloc_total)
        case 1
        from attach_alloc(1) [OF x False own 3 refl refl 1] show thesis using result ok1 b1 by blast
      next
        case (2 i u)
        let ?x2 = "?x\<lparr>epslot := Some i\<rparr>"
        let ?s2 = "(set_slot i (\<lambda>s. s\<lparr>sl_poller := Some p\<rparr>) (set_object p ?x2 (?s\<lparr>pu := u\<rparr>)))"
        let ?s3 = "?s2\<lparr>kernel := ep_nonblock api (kernel ?s2) (netfd ?x2)\<rparr>"
        have ok3: "poll_ok ?s3"
          by (rule take_ok [OF ok1 att 2(1)])
            (use x1(2) in \<open>auto simp: set_slot_def set_object_def attachment_def\<close>)
        have x3: "po ?s3 p = Some ?x2" "epslot ?x2 = Some i" by (simp_all add: set_slot_def set_object_def)
        obtain r st' where r: "register_events api CTL_ADD p ?x2 i ?s3 = Some (r, st')" "poll_ok st'"
          by (rule register_ok [OF ok3 x3])
        have "bumps ?s3 st'" by (rule register_bumps [OF r(1)])
        then have "bumps st st'" using 2(2,3)
          by (auto simp: bumps_def set_slot_def set_object_def nth_list_update split: if_splits)
        moreover have "AttachPoller api given p st = Some (r, st')"
          using attach_alloc(2) [OF x False own 3 refl refl 2(1) refl] r(1) by simp
        ultimately show thesis using result r(2) by blast
      qed
    qed
  qed
qed

section \<open>Any sequence of operations\<close>

datatype poll_op =
    OpCreate nat bool int
  | OpEvents nat u32
  | OpAttach bool nat
  | OpApply nat
  | OpDetach nat
  | OpDestroy nat

definition valid_op :: "poll_op \<Rightarrow> 'w poll_state \<Rightarrow> bool" where
  "valid_op op st =
     (case op of
        OpCreate p own fd \<Rightarrow> po st p = None
      | OpEvents p ev \<Rightarrow> po st p \<noteq> None
      | OpAttach given p \<Rightarrow> (case po st p of None \<Rightarrow> False | Some x \<Rightarrow> given \<or> ownerUnit x)
      | OpApply p \<Rightarrow> po st p \<noteq> None
      | OpDetach p \<Rightarrow> po st p \<noteq> None
      | OpDestroy p \<Rightarrow> po st p \<noteq> None)"

definition run_op :: "'w epoll \<Rightarrow> poll_op \<Rightarrow> 'w poll_state \<Rightarrow> 'w poll_state option" where
  "run_op api op st =
     (case op of
        OpCreate p own fd \<Rightarrow> Some (set_object p (new_poller_object own fd) st)
      | OpEvents p ev \<Rightarrow> map_option (\<lambda>x. set_object p (x\<lparr>newEvents := ev\<rparr>) st) (po st p)
      | OpAttach given p \<Rightarrow> map_option snd (AttachPoller api given p st)
      | OpApply p \<Rightarrow> map_option snd (po_ApplyEvents api p st)
      | OpDetach p \<Rightarrow> map_option snd (DetachPoller api p st)
      | OpDestroy p \<Rightarrow> destroy_object api p st)"

primrec run_ops :: "'w epoll \<Rightarrow> poll_op list \<Rightarrow> 'w poll_state \<Rightarrow> 'w poll_state option" where
  "run_ops api [] st = Some st"
| "run_ops api (op # ops) st =
     (if valid_op op st then Option.bind (run_op api op st) (run_ops api ops) else None)"

lemma create_ok:
  assumes "poll_ok st" "po st p = None"
  shows "poll_ok (set_object p (new_poller_object own fd) st)"
proof -
  obtain fl where fl: "table_ok st fl" using assms unfolding poll_ok_def by blast
  have "table_ok (set_object p (new_poller_object own fd) st) fl"
    using fl assms(2) unfolding table_ok_def
    by (auto simp: attachment_def set_object_def new_poller_object_def)
  then show ?thesis unfolding poll_ok_def by blast
qed

lemma run_op_ok:
  assumes ok: "poll_ok st" and v: "valid_op op st"
  obtains st' where "run_op api op st = Some st'" "poll_ok st'" "bumps st st'"
proof (cases op)
  case (OpCreate p own fd)
  let ?st = "set_object p (new_poller_object own fd) st"
  have "bumps st ?st" by (rule bumps_same) (simp add: set_object_def)
  then show thesis using that [of ?st] create_ok [OF ok] v OpCreate by (simp add: run_op_def valid_op_def)
next
  case (OpEvents p ev)
  then obtain x where x: "po st p = Some x" using v by (auto simp: valid_op_def)
  let ?st = "set_object p (x\<lparr>newEvents := ev\<rparr>) st"
  have "bumps st ?st" by (rule bumps_same) (simp add: set_object_def)
  moreover have "poll_ok ?st" by (rule poll_ok_object [OF ok x]) simp_all
  ultimately show thesis using that [of ?st] x OpEvents by (simp add: run_op_def)
next
  case (OpAttach given p)
  then obtain x where x: "po st p = Some x" "given \<or> ownerUnit x" using v by (auto simp: valid_op_def split: option.splits)
  obtain r st' where "AttachPoller api given p st = Some (r, st')" "poll_ok st'" "bumps st st'"
    by (rule attach_ok [OF ok x])
  then show thesis using that [of st'] OpAttach by (simp add: run_op_def)
next
  case (OpApply p)
  then obtain x where x: "po st p = Some x" using v by (auto simp: valid_op_def)
  obtain r st' where "po_ApplyEvents api p st = Some (r, st')" "poll_ok st'" "bumps st st'"
    by (rule apply_ok [OF ok x])
  then show thesis using that [of st'] OpApply by (simp add: run_op_def)
next
  case (OpDetach p)
  then obtain x where x: "po st p = Some x" using v by (auto simp: valid_op_def)
  obtain st' where "DetachPoller api p st = Some (0, st')" "poll_ok st'" "bumps st st'"
    by (rule detach_ok [OF ok x])
  then show thesis using that [of st'] OpDetach by (simp add: run_op_def)
next
  case (OpDestroy p)
  then obtain x where x: "po st p = Some x" using v by (auto simp: valid_op_def)
  obtain st' where "destroy_object api p st = Some st'" "poll_ok st'" "bumps st st'"
    by (rule destroy_ok [OF ok x])
  then show thesis using that [of st'] OpDestroy by (simp add: run_op_def)
qed

lemma run_ops_ok:
  "run_ops api ops st = Some st' \<Longrightarrow> poll_ok st \<Longrightarrow>
     poll_ok st' \<and> length (pollerTable (pu st')) = length (pollerTable (pu st)) \<and>
     (\<forall>j < length (pollerTable (pu st)). \<exists>k \<le> length ops.
        sl_seq (pollerTable (pu st') ! j) = sl_seq (pollerTable (pu st) ! j) + of_nat k)"
proof (induction ops arbitrary: st)
  case Nil
  then show ?case by simp
next
  case (Cons op ops)
  then have v: "valid_op op st" by (auto split: if_splits)
  obtain st1 where s1: "run_op api op st = Some st1" "poll_ok st1" "bumps st st1"
    by (rule run_op_ok [OF Cons.prems(2) v])
  then have "run_ops api ops st1 = Some st'" using Cons.prems(1) v by simp
  note IH = Cons.IH [OF this s1(2)]
  have "\<exists>k \<le> Suc (length ops). sl_seq (pollerTable (pu st') ! j) = sl_seq (pollerTable (pu st) ! j) + of_nat k"
    if j: "j < length (pollerTable (pu st))" for j
  proof -
    from IH s1(3) j obtain k where k: "k \<le> length ops"
      "sl_seq (pollerTable (pu st') ! j) = sl_seq (pollerTable (pu st1) ! j) + of_nat k"
      unfolding bumps_def by auto
    from s1(3) j consider "sl_seq (pollerTable (pu st1) ! j) = sl_seq (pollerTable (pu st) ! j)"
      | "sl_seq (pollerTable (pu st1) ! j) = sl_seq (pollerTable (pu st) ! j) + 1" unfolding bumps_def by blast
    then show ?thesis
    proof cases
      case 1
      then show ?thesis using k by (intro exI [of _ k]) simp
    next
      case 2
      then show ?thesis using k by (intro exI [of _ "Suc k"]) simp
    qed
  qed
  then show ?case using IH s1(3) by (simp add: bumps_def)
qed

lemma chain_init:
  "k \<le> n \<Longrightarrow> chain (map (\<lambda>i. \<lparr>sl_seq = 0, sl_poller = None, sl_free = if i < n - 1 then Some (i + 1) else None\<rparr>) [0 ..< n])
     (if k < n then Some k else None) [k ..< n]"
proof (induction "n - k" arbitrary: k)
  case 0
  then show ?case by simp
next
  case (Suc m)
  then have k: "k < n" by simp
  let ?t = "map (\<lambda>i. \<lparr>sl_seq = 0, sl_poller = None, sl_free = if i < n - 1 then Some (i + 1) else None\<rparr>) [0 ..< n]"
  have free: "sl_free (?t ! k) = (if k + 1 < n then Some (k + 1) else None)" using k by auto
  have "m = n - (k + 1)" "k + 1 \<le> n" using Suc.hyps(2) k by simp_all
  note IH = Suc.hyps(1) [OF this]
  have "k < length ?t" using k by simp
  then show ?case unfolding upt_conv_Cons [OF k] chain.simps free using IH k by (simp only: if_True simp_thms Suc_eq_plus1)
qed

lemma initialized_ok:
  assumes "InitializePollerUnit api True True u w = Some (r, u', w')" "maxPollers u < 2 ^ 31" "usedPollers u = 0"
  shows "poll_ok \<lparr>pu = u', po = Map.empty, kernel = w'\<rparr>"
proof -
  let ?n = "nat (maxPollers u)"
  let ?t = "map (\<lambda>i. \<lparr>sl_seq = 0, sl_poller = None, sl_free = if i < ?n - 1 then Some (i + 1) else None\<rparr>) [0 ..< ?n]"
  have n: "0 < maxPollers u" using assms(1) by (simp add: InitializePollerUnit_def split: if_splits)
  obtain fd where "u' = u\<lparr>pollerTable := ?t, freeSlotList := Some 0, epfd := fd\<rparr>"
    using assms(1) n unfolding InitializePollerUnit_def Let_def by (auto split: prod.splits)
  then have u': "pollerTable u' = ?t" "freeSlotList u' = Some 0" "maxPollers u' = maxPollers u" "usedPollers u' = 0"
    using assms(3) by simp_all
  have "chain ?t (if 0 < ?n then Some 0 else None) [0 ..< ?n]" by (rule chain_init) simp
  then have c: "chain (pollerTable u') (freeSlotList u') [0 ..< ?n]" using u'(1,2) n by (simp only: zero_less_nat_eq if_True)
  have l: "length (pollerTable u') = ?n" "\<forall>i < ?n. sl_poller (pollerTable u' ! i) = None"
    unfolding u'(1) by simp_all
  have "table_ok \<lparr>pu = u', po = Map.empty, kernel = w'\<rparr> [0 ..< ?n]"
    using n c l u'(3,4) assms(2) by (simp add: table_ok_def unit_ok_def attachment_def)
  then show ?thesis unfolding poll_ok_def by blast
qed

text \<open>
  C21: No operation on a poller object leaves the table: from the initialised unit on, every operation on an
  object that exists returns, and afterwards free list and objects agree - the free slots are exactly those
  without an object, and each other slot and its object point at each other.
\<close>

theorem poller_table_invariant:
  assumes "InitializePollerUnit api True True (new_poller_unit mp) w = Some (r, u, w')" and "mp < 2 ^ 31"
    and "run_ops api ops \<lparr>pu = u, po = Map.empty, kernel = w'\<rparr> = Some st" and "valid_op op st"
  shows "poll_ok st \<and> (\<exists>st'. run_op api op st = Some st' \<and> poll_ok st')"
proof -
  have "poll_ok \<lparr>pu = u, po = Map.empty, kernel = w'\<rparr>"
    by (rule initialized_ok [OF assms(1)]) (use assms(2) in \<open>simp_all add: new_poller_unit_def\<close>)
  then have "poll_ok st" using run_ops_ok [OF assms(3)] by simp
  then show ?thesis using run_op_ok [OF _ assms(4)] by metis
qed

text \<open>
  C5: An event that was reported before its object was detached is not delivered: whatever attaches,
  detaches or changes its events in between, less than about four billion operations later the loop skips
  it, even if the slot belongs to another object by then.
\<close>

theorem stale_event_skipped:
  assumes ok: "poll_ok st" and x: "po st p = Some x" "epslot x = Some i"
    and det: "DetachPoller api p st = Some (r, st1)" and ops: "run_ops api ops st1 = Some st2"
    and few: "length ops < 2 ^ 32 - 1"
  shows "process_event api h (ev, event_id (sl_seq (pollerTable (pu st) ! i)) i) st2 = Some st2"
proof -
  let ?s = "\<lambda>st. sl_seq (pollerTable (pu st) ! i)"
  from detach_ok [OF ok x(1)] obtain st' where "DetachPoller api p st = Some (0, st')" "poll_ok st'" "bumps st st'"
    "i < length (pollerTable (pu st)) \<and> ?s st' = ?s st + 1" using x(2) by metis
  with det have s1: "poll_ok st1" "bumps st st1" "i < length (pollerTable (pu st1))" "?s st1 = ?s st + 1"
    by (simp_all add: bumps_def)
  from run_ops_ok [OF ops s1(1)] s1(3) obtain k where k: "k \<le> length ops" "?s st2 = ?s st1 + of_nat k"
    and ok2: "poll_ok st2" and i: "i < length (pollerTable (pu st2))" by auto
  obtain fl where "table_ok st2 fl" using ok2 unfolding poll_ok_def by blast
  note table_okD(1) [OF this]
  then have u: "int (length (pollerTable (pu st2))) \<le> maxPollers (pu st2)" "maxPollers (pu st2) < 2 ^ 31"
    unfolding unit_ok_def by simp_all
  have "(of_nat (k + 1) :: u32) \<noteq> 0"
  proof
    assume "(of_nat (k + 1) :: u32) = 0"
    then have "unat (of_nat (k + 1) :: u32) = 0" by simp
    moreover have "k + 1 < 2 ^ 32" using k(1) few by simp
    ultimately show False by (simp add: unsigned_of_nat take_bit_nat_eq_self del: of_nat_add of_nat_Suc)
  qed
  moreover have "?s st2 = ?s st + of_nat (k + 1)" using k(2) s1(4) by (simp add: add.assoc)
  ultimately have "?s st \<noteq> ?s st2" by (metis add_cancel_left_right)
  then have "VerifyEvents (event_id (?s st) i) (pu st2) = Some (- 1)"
    using VerifyEvents_event_id [OF i u] by simp
  then show ?thesis by (simp add: process_event_def)
qed

text \<open>
  When every slot is taken, an object cannot be attached: the call reports failure, and neither the
  table nor the kernel sees anything of it.
\<close>

theorem attach_fails_when_full:
  assumes ok: "poll_ok st" and full: "usedPollers (pu st) = maxPollers (pu st)"
    and x: "po st p = Some x" "\<not> ownerUnit x" "0 \<le> netfd x" "epslot x = None"
  shows "AttachPoller api True p st = Some (- 1, set_object p (x\<lparr>ownerUnit := True\<rparr>) st)"
proof -
  obtain fl where fl: "table_ok st fl" using ok unfolding poll_ok_def by blast
  then have "fl = []" using table_okD(1) [OF fl] full by (simp add: unit_ok_def)
  then have "AllocEpollSlot (pu st) = Some (None, pu st)" using table_okD(1) [OF fl] Alloc_full by blast
  then have "AllocEpollSlot (pu (set_object p (x\<lparr>ownerUnit := True\<rparr>) st)) = Some (None, pu st)"
    by (simp add: set_object_def)
  from attach_alloc(1) [OF x(1) _ _ x(3,4) _ _ this, of True] x(2) show ?thesis by simp
qed

text \<open>
  C17: A current event is delivered to its object and to no other: with the number the object has now, an
  event for reading calls exactly the object's \<open>InputNotify\<close>, on the events that were last registered;
  afterwards the changed events are registered, unless the call failed or gave the slot away.
\<close>

theorem current_event_delivered:
  assumes ok: "poll_ok st" and x: "po st p = Some x" "epslot x = Some i" and d: "GetPollerEventId p st = Some d"
    and ev: "ev AND EPOLLIN \<noteq> 0" "ev AND EPOLLOUT = 0" "ev AND (EPOLLHUP OR EPOLLERR) = 0"
  shows "process_event api h (ev, d) st =
    (case h InputNotify p (set_object p (x\<lparr>newEvents := oldEvents x\<rparr>) st) of
       None \<Rightarrow> None
     | Some (ret_code, st1) \<Rightarrow>
         if sl_poller (pollerTable (pu st1) ! i) = Some p \<and> ret_code = 0
         then map_option snd (po_ApplyEvents api p st1) else Some st1)"
proof -
  obtain fl where fl: "table_ok st fl" using ok unfolding poll_ok_def by blast
  have "attachment st p = Some (Some i, ownerUnit x)" using attachmentI [OF x(1)] x(2) by simp
  then have i: "i < length (pollerTable (pu st))" "sl_poller (pollerTable (pu st) ! i) = Some p"
    using table_okD(4) [OF fl] by blast+
  have u: "int (length (pollerTable (pu st))) \<le> maxPollers (pu st)" "maxPollers (pu st) < 2 ^ 31"
    using table_okD(1) [OF fl] unfolding unit_ok_def by simp_all
  then have i32: "i < 2 ^ 32" using i(1) by simp
  have d': "d = event_id (sl_seq (pollerTable (pu st) ! i)) i"
    using d x i(1) by (simp add: GetPollerEventId_def)
  then have v: "VerifyEvents d (pu st) = Some 0" using VerifyEvents_event_id [OF i(1) u] by simp
  have s: "unat (EPOLL_DATA_SLOT d) = i"
    unfolding d' event_id_parts(1) [OF i32] using i32 by (simp add: unsigned_of_nat take_bit_nat_eq_self)
  show ?thesis
    using x v s i(2) ev
    by (auto simp: process_event_def notify_def Let_def split: option.split prod.split)
qed

section \<open>The loop and its callbacks\<close>

text \<open>What the loop relies on: the virtual functions keep the table in order.\<close>

locale event_handler =
  fixes h :: "'w handler"
  assumes keeps: "poll_ok st \<Longrightarrow> h cb p st = Some (r, st') \<Longrightarrow> poll_ok st'"
begin

lemma notify_keeps: "poll_ok st \<Longrightarrow> notify h cb on i p st = Some (go, st') \<Longrightarrow> poll_ok st'"
  by (auto simp: notify_def split: if_splits Option.bind_splits dest: keeps)

lemma apply_keeps: "poll_ok st \<Longrightarrow> po_ApplyEvents api p st = Some (r, st') \<Longrightarrow> poll_ok st'"
proof -
  assume ok: "poll_ok st" and a: "po_ApplyEvents api p st = Some (r, st')"
  then obtain x where "po st p = Some x" by (auto simp: po_ApplyEvents_def split: Option.bind_splits)
  from apply_ok [OF ok this, of api] a show "poll_ok st'" by auto
qed

lemma process_event_keeps:
  assumes ok: "poll_ok st" and e: "process_event api h (ev, d) st = Some st'"
  shows "poll_ok st'"
proof (cases "VerifyEvents d (pu st) = Some (- 1)")
  case True
  then show ?thesis using ok e by (simp add: process_event_def)
next
  case False
  let ?i = "unat (EPOLL_DATA_SLOT d)"
  obtain p x where x: "sl_poller (pollerTable (pu st) ! ?i) = Some p" "po st p = Some x"
    using False e by (auto simp: process_event_def Let_def split: Option.bind_splits)
  let ?s = "set_object p (x\<lparr>newEvents := oldEvents x\<rparr>) st"
  have s: "poll_ok ?s" by (rule poll_ok_object [OF ok x(2)]) simp_all
  from False e x consider r where "h HangupNotify p ?s = Some (r, st')"
    | "notify h InputNotify (ev AND EPOLLIN \<noteq> 0) ?i p ?s = Some (False, st')"
    | st1 where "notify h InputNotify (ev AND EPOLLIN \<noteq> 0) ?i p ?s = Some (True, st1)"
        "notify h OutputNotify (ev AND EPOLLOUT \<noteq> 0) ?i p st1 = Some (False, st')"
    | st1 st2 r where "notify h InputNotify (ev AND EPOLLIN \<noteq> 0) ?i p ?s = Some (True, st1)"
        "notify h OutputNotify (ev AND EPOLLOUT \<noteq> 0) ?i p st1 = Some (True, st2)"
        "po_ApplyEvents api p st2 = Some (r, st')"
    by (auto simp: process_event_def Let_def split: Option.bind_splits if_splits)
  then show ?thesis
  proof cases
    case 1
    then show ?thesis using keeps s by blast
  next
    case 2
    then show ?thesis using notify_keeps s by blast
  next
    case 3
    then show ?thesis using notify_keeps s by blast
  next
    case 4
    then show ?thesis using notify_keeps s apply_keeps by blast
  qed
qed

lemma loop_keeps: "poll_ok st \<Longrightarrow> ProcessPollerEvents api h evs st = Some st' \<Longrightarrow> poll_ok st'"
proof (induction evs arbitrary: st)
  case (Cons ev evs)
  then obtain st1 where "process_event api h ev st = Some st1" "ProcessPollerEvents api h evs st1 = Some st'"
    by (auto split: Option.bind_splits)
  then show ?case using Cons process_event_keeps by (cases ev) blast
qed simp

end

text \<open>The virtual functions of \<open>CPollerObject\<close> itself.\<close>

lemma base_handler_keeps: "poll_ok st \<Longrightarrow> base_handler cb p st = Some (r, st') \<Longrightarrow> poll_ok st'"
  by (cases cb)
    (auto simp: base_handler_def base_InputNotify_def base_OutputNotify_def base_HangupNotify_def po_EnableInput_def
      po_EnableOutput_def intro: poll_ok_object)

interpretation base: event_handler base_handler
  by unfold_locales (rule base_handler_keeps)

text \<open>The effect of the connections' \<open>HangupNotify\<close> on the table: \<open>CDecoderUnit::web_hangup\<close> of \<open>proxy/decode_unit.cpp\<close>
  calls \<open>CListener::complete\<close>, which deletes the object, and returns \<open>POLLER_COMPLETE\<close>.\<close>

definition closing_handler :: "'w epoll \<Rightarrow> 'w handler" where
  "closing_handler api cb p st =
     (case cb of HangupNotify \<Rightarrow> map_option (\<lambda>st. (1, st)) (destroy_object api p st) | _ \<Rightarrow> base_handler cb p st)"

lemma closing_handler_keeps: "poll_ok st \<Longrightarrow> closing_handler api cb p st = Some (r, st') \<Longrightarrow> poll_ok st'"
proof (cases cb)
  case HangupNotify
  assume ok: "poll_ok st" and c: "closing_handler api cb p st = Some (r, st')"
  then have d: "destroy_object api p st = Some st'" using HangupNotify by (simp add: closing_handler_def)
  then obtain x where "po st p = Some x" by (auto simp: destroy_object_def split: Option.bind_splits)
  from destroy_ok [OF ok this, of api] d show "poll_ok st'" by auto
qed (auto simp: closing_handler_def dest: base_handler_keeps)

interpretation closing: event_handler "closing_handler api" for api
  by unfold_locales (rule closing_handler_keeps)

text \<open>
  A whole round of the event loop keeps the table in order, whatever events the kernel reports, stale
  or invented ones included, also when the objects delete themselves on a hang-up.
\<close>

theorem event_loop_keeps_table:
  assumes "poll_ok st" and "ProcessPollerEvents api (closing_handler api) evs st = Some st'"
  shows "poll_ok st'"
  by (rule closing.loop_keeps [OF assms])

section \<open>Examples\<close>

text \<open>A kernel that agrees with everything, a table of one slot, and an object in it.\<close>

definition ex_epoll :: "unit epoll" where
  "ex_epoll = \<lparr>ep_create = (\<lambda>w n. (3, w)), ep_ctl = (\<lambda>w efd op fd ev d. (0, w)), ep_wait = (\<lambda>w efd n t. ([], w)),
     ep_nonblock = (\<lambda>w fd. w), ep_close = (\<lambda>w fd. w)\<rparr>"

definition ex_unit :: poller_unit where
  "ex_unit = \<lparr>epfd = 3, maxPollers = 1, usedPollers = 0, freeSlotList = Some 0,
     pollerTable = [\<lparr>sl_seq = 0, sl_poller = None, sl_free = None\<rparr>]\<rparr>"

definition ex_object :: poller_object where
  "ex_object = \<lparr>netfd = 5, ownerUnit = True, newEvents = 1, oldEvents = 1, epslot = Some 0\<rparr>"

definition ex_poll :: "unit poll_state" where
  "ex_poll = \<lparr>pu = \<lparr>epfd = 3, maxPollers = 1, usedPollers = 1, freeSlotList = None,
       pollerTable = [\<lparr>sl_seq = 1, sl_poller = Some 1, sl_free = None\<rparr>]\<rparr>,
     po = [1 \<mapsto> ex_object], kernel = ()\<rparr>"

lemmas ex_poll_defs = ex_epoll_def ex_unit_def ex_object_def ex_poll_def new_poller_object_def set_object_def
  set_slot_def

lemma ex_initialized: "InitializePollerUnit ex_epoll True True (new_poller_unit 1) () = Some (0, ex_unit, ())"
  by (simp add: InitializePollerUnit_def new_poller_unit_def ex_epoll_def ex_unit_def)

lemma ex_run:
  "run_ops ex_epoll [OpCreate 1 False 5, OpEvents 1 1, OpAttach True 1] \<lparr>pu = ex_unit, po = Map.empty, kernel = ()\<rparr> =
     Some ex_poll"
  by (simp add: ex_poll_defs run_op_def valid_op_def AttachPoller_def AllocEpollSlot_def register_events_def Epctl_def)

theorem poller_table_invariant_witness:
  "poll_ok ex_poll \<and> (\<exists>st'. run_op ex_epoll (OpDetach 1) ex_poll = Some st' \<and> poll_ok st')"
  by (rule poller_table_invariant [OF ex_initialized _ ex_run]) (simp_all add: valid_op_def ex_poll_def)

lemma ex_poll_ok: "poll_ok ex_poll"
  using run_ops_ok [OF ex_run] initialized_ok [OF ex_initialized] by (simp add: new_poller_unit_def)

theorem stale_event_skipped_witness:
  "\<exists>st1 st2. DetachPoller ex_epoll 1 ex_poll = Some (0, st1) \<and>
     run_ops ex_epoll [OpCreate 2 False 6, OpAttach True 2] st1 = Some st2 \<and>
     process_event ex_epoll base_handler (EPOLLIN, event_id (sl_seq (pollerTable (pu ex_poll) ! 0)) 0) st2 = Some st2"
proof -
  have x: "po ex_poll 1 = Some ex_object" "epslot ex_object = Some 0" by (simp_all add: ex_poll_def ex_object_def)
  obtain st1 where d: "DetachPoller ex_epoll 1 ex_poll = Some (0, st1)"
    by (rule detach_ok [OF ex_poll_ok x(1)])
  then have "st1 = \<lparr>pu = \<lparr>epfd = 3, maxPollers = 1, usedPollers = 0, freeSlotList = Some 0,
       pollerTable = [\<lparr>sl_seq = 2, sl_poller = None, sl_free = None\<rparr>]\<rparr>,
     po = [1 \<mapsto> ex_object\<lparr>epslot := None\<rparr>], kernel = ()\<rparr>"
    by (simp add: ex_poll_defs DetachPoller_def Epctl_def FreeEpollSlot_def)
  then obtain st2 where o: "run_ops ex_epoll [OpCreate 2 False 6, OpAttach True 2] st1 = Some st2"
    by (simp add: ex_poll_defs run_op_def valid_op_def AttachPoller_def AllocEpollSlot_def register_events_def Epctl_def)
  from stale_event_skipped [OF ex_poll_ok x d o] have "process_event ex_epoll base_handler
      (EPOLLIN, event_id (sl_seq (pollerTable (pu ex_poll) ! 0)) 0) st2 = Some st2" by simp
  with d o show ?thesis by blast
qed

theorem attach_fails_when_full_witness:
  "AttachPoller ex_epoll True 2 (set_object 2 (new_poller_object False 6) ex_poll) =
     Some (- 1, set_object 2 ((new_poller_object False 6)\<lparr>ownerUnit := True\<rparr>)
       (set_object 2 (new_poller_object False 6) ex_poll))"
proof (rule attach_fails_when_full)
  show "poll_ok (set_object 2 (new_poller_object False 6) ex_poll)"
    by (rule create_ok [OF ex_poll_ok]) (simp add: ex_poll_def)
qed (simp_all add: ex_poll_defs)

theorem current_event_delivered_witness:
  "process_event ex_epoll base_handler (1, event_id 1 0) ex_poll =
    (case base_handler InputNotify 1 (set_object 1 (ex_object\<lparr>newEvents := oldEvents ex_object\<rparr>) ex_poll) of
       None \<Rightarrow> None
     | Some (ret_code, st1) \<Rightarrow>
         if sl_poller (pollerTable (pu st1) ! 0) = Some 1 \<and> ret_code = 0
         then map_option snd (po_ApplyEvents ex_epoll 1 st1) else Some st1)"
proof (rule current_event_delivered [OF ex_poll_ok])
  show "GetPollerEventId 1 ex_poll = Some (event_id 1 0)" by (simp add: GetPollerEventId_def ex_poll_defs)
  show "(1 :: u32) AND EPOLLIN \<noteq> 0" "(1 :: u32) AND EPOLLOUT = 0" "(1 :: u32) AND (EPOLLHUP OR EPOLLERR) = 0"
    by code_simp+
qed (simp_all add: ex_poll_def ex_object_def)

theorem event_loop_keeps_table_witness:
  "\<exists>st'. ProcessPollerEvents ex_epoll (closing_handler ex_epoll) [(EPOLLHUP, event_id 1 0)] ex_poll = Some st' \<and> poll_ok st'"
proof -
  have v: "VerifyEvents (event_id 1 0) (pu ex_poll) = Some 0" "EPOLL_DATA_SLOT (event_id 1 0) = 0"
    "EPOLLHUP AND (EPOLLHUP OR EPOLLERR) \<noteq> 0"
    by (simp add: ex_poll_def VerifyEvents_event_id, code_simp+)
  then obtain st' where "ProcessPollerEvents ex_epoll (closing_handler ex_epoll) [(EPOLLHUP, event_id 1 0)] ex_poll = Some st'"
    by (simp add: process_event_def closing_handler_def destroy_object_def FreeEpollSlot_def ex_poll_defs Let_def)
  then show ?thesis using event_loop_keeps_table [OF ex_poll_ok] by blast
qed

end
