(* ===== verification/ListHead.thy ===== *)
theory ListHead
  imports Prelude
begin

text \<open>
  The intrusive doubly linked lists of the server (\<open>include/list.h\<close>), as pointers: a node is its address,
  \<open>nxt\<close> and \<open>prv\<close> are the two fields of every node. Each function performs the assignments of the source,
  in their order. \<open>ring\<close> says that the nodes reachable from a head are those of a HOL list; the lemmas
  show that the pointer operations are the list operations.
\<close>

section \<open>The operations\<close>

record links =
  nxt :: "nat \<Rightarrow> nat"
  prv :: "nat \<Rightarrow> nat"

definition set_next :: "nat \<Rightarrow> nat \<Rightarrow> links \<Rightarrow> links" where
  "set_next p q h = h\<lparr>nxt := (nxt h)(p := q)\<rparr>"

definition set_prev :: "nat \<Rightarrow> nat \<Rightarrow> links \<Rightarrow> links" where
  "set_prev p q h = h\<lparr>prv := (prv h)(p := q)\<rparr>"

definition INIT_LIST_HEAD :: "nat \<Rightarrow> links \<Rightarrow> links" where
  "INIT_LIST_HEAD p h = set_prev p p (set_next p p h)"

definition list_add_between :: "nat \<Rightarrow> nat \<Rightarrow> nat \<Rightarrow> links \<Rightarrow> links" where
  "list_add_between p prev nx h = set_next prev p (set_prev p prev (set_next p nx (set_prev nx p h)))"

definition list_add :: "nat \<Rightarrow> nat \<Rightarrow> links \<Rightarrow> links" where
  "list_add p head h = list_add_between p head (nxt h head) h"

definition list_add_tail :: "nat \<Rightarrow> nat \<Rightarrow> links \<Rightarrow> links" where
  "list_add_tail p head h = list_add_between p (prv h head) head h"

definition list_del_between :: "nat \<Rightarrow> nat \<Rightarrow> links \<Rightarrow> links" where
  "list_del_between prev nx h = set_next prev nx (set_prev nx prev h)"

definition list_del :: "nat \<Rightarrow> links \<Rightarrow> links" where
  "list_del e h = set_prev e 0 (set_next e 0 (list_del_between (prv h e) (nxt h e) h))"

definition list_del_init :: "nat \<Rightarrow> links \<Rightarrow> links" where
  "list_del_init e h = INIT_LIST_HEAD e (list_del_between (prv h e) (nxt h e) h)"

definition list_move :: "nat \<Rightarrow> nat \<Rightarrow> links \<Rightarrow> links" where
  "list_move e head h = list_add e head (list_del_between (prv h e) (nxt h e) h)"

definition list_move_tail :: "nat \<Rightarrow> nat \<Rightarrow> links \<Rightarrow> links" where
  "list_move_tail e head h = list_add_tail e head (list_del_between (prv h e) (nxt h e) h)"

definition list_empty :: "nat \<Rightarrow> links \<Rightarrow> bool" where
  "list_empty head h \<longleftrightarrow> nxt h head = head"

definition list_splice_between :: "nat \<Rightarrow> nat \<Rightarrow> links \<Rightarrow> links" where
  "list_splice_between l head h =
     (let first = nxt h l; last = prv h l; at = nxt h head
      in set_prev at last (set_next last at (set_next head first (set_prev first head h))))"

definition list_splice :: "nat \<Rightarrow> nat \<Rightarrow> links \<Rightarrow> links" where
  "list_splice l head h = (if \<not> list_empty l h then list_splice_between l head h else h)"

definition list_splice_init :: "nat \<Rightarrow> nat \<Rightarrow> links \<Rightarrow> links" where
  "list_splice_init l head h =
     (if \<not> list_empty l h then INIT_LIST_HEAD l (list_splice_between l head h) else h)"

lemma links_simps [simp]:
  "nxt (set_next p q h) = (nxt h)(p := q)" "prv (set_next p q h) = prv h"
  "nxt (set_prev p q h) = nxt h" "prv (set_prev p q h) = (prv h)(p := q)"
  by (simp_all add: set_next_def set_prev_def)

text \<open>The methods of \<open>CListHead\<close> that are not another name of one of these: \<open>FreeList\<close> resets the nodes one
  by one.\<close>

partial_function (option) FreeList :: "nat \<Rightarrow> links \<Rightarrow> links option" where
  "FreeList head h = (if list_empty head h then Some h else FreeList head (list_del_init (nxt h head) h))"

section \<open>Rings\<close>

primrec path :: "links \<Rightarrow> nat \<Rightarrow> nat list \<Rightarrow> nat \<Rightarrow> bool" where
  "path h a [] b \<longleftrightarrow> nxt h a = b \<and> prv h b = a"
| "path h a (x # xs) b \<longleftrightarrow> nxt h a = x \<and> prv h x = a \<and> path h x xs b"

definition ring :: "links \<Rightarrow> nat \<Rightarrow> nat list \<Rightarrow> bool" where
  "ring h head xs \<longleftrightarrow> distinct (head # xs) \<and> path h head xs head"

lemma path_append: "path h a (xs @ x # ys) b \<longleftrightarrow> path h a xs x \<and> path h x ys b"
  by (induction xs arbitrary: a) auto

lemma path_frame:
  "(\<forall>x \<in> set (a # xs). nxt h' x = nxt h x) \<Longrightarrow> (\<forall>x \<in> set (xs @ [b]). prv h' x = prv h x) \<Longrightarrow>
     path h' a xs b = path h a xs b"
  by (induction xs arbitrary: a) auto

lemma ring_frame:
  "(\<forall>x \<in> set (head # xs). nxt h' x = nxt h x \<and> prv h' x = prv h x) \<Longrightarrow> ring h' head xs = ring h head xs"
  unfolding ring_def using path_frame [of head xs h' h head] by auto

lemma path_ends:
  "path h a xs b \<Longrightarrow> nxt h a = (case xs of [] \<Rightarrow> b | x # _ \<Rightarrow> x) \<and> prv h b = (if xs = [] then a else last xs)"
  by (induction xs arbitrary: a) (auto split: list.splits)

lemma ring_init: "ring (INIT_LIST_HEAD p h) p []"
  by (simp add: ring_def INIT_LIST_HEAD_def)

lemma ring_empty: "ring h head xs \<Longrightarrow> list_empty head h \<longleftrightarrow> xs = []"
  unfolding ring_def list_empty_def by (cases xs) auto

lemma ring_next: "ring h head (x # xs) \<Longrightarrow> nxt h head = x"
  by (simp add: ring_def)

text \<open>A node between two others: taken out, and put in.\<close>

lemma path_insert:
  assumes "path h a (xs @ ys) b" and "distinct (a # xs @ ys)" "b \<notin> set (xs @ ys)" "p \<notin> set (a # b # xs @ ys)"
    and prev: "prev = last (a # xs)" and nx: "nx = hd (ys @ [b])"
  shows "path (list_add_between p prev nx h) a (xs @ p # ys) b"
  using assms(1-4) prev
proof (induction xs arbitrary: a)
  case Nil
  show ?case
  proof (cases ys)
    case Nil
    then show ?thesis using Nil.prems nx by (auto simp: list_add_between_def)
  next
    case (Cons y ys')
    have "path (list_add_between p a y h) y ys' b = path h y ys' b"
      using Nil.prems(2-4) Cons by (intro path_frame) (auto simp: list_add_between_def)
    then show ?thesis using Nil.prems Cons nx by (auto simp: list_add_between_def)
  qed
next
  case (Cons x xs)
  have "path (list_add_between p prev nx h) x (xs @ p # ys) b" using Cons.prems by (intro Cons.IH) auto
  moreover have "prev \<noteq> a" "nx \<noteq> x"
    using Cons.prems nx by (auto split: if_splits) (cases ys; auto)+
  ultimately show ?case using Cons.prems by (auto simp: list_add_between_def)
qed

lemma path_delete:
  assumes "path h a (xs @ e # ys) b" and "distinct (a # xs @ e # ys)" "b \<notin> set (xs @ e # ys)"
  shows "path (list_del_between (prv h e) (nxt h e) h) a (xs @ ys) b" "nxt h e = hd (ys @ [b])" "prv h e = last (a # xs)"
proof -
  have e: "path h a xs e" "path h e ys b" using assms(1) by (simp_all add: path_append)
  show nx: "nxt h e = hd (ys @ [b])" using path_ends [OF e(2)] by (cases ys) simp_all
  show pv: "prv h e = last (a # xs)" using path_ends [OF e(1)] by simp
  show "path (list_del_between (prv h e) (nxt h e) h) a (xs @ ys) b"
    using assms unfolding nx pv
  proof (induction xs arbitrary: a)
    case Nil
    show ?case
    proof (cases ys)
      case (Cons y ys')
      have "path (list_del_between a y h) y ys' b = path h y ys' b"
        using Nil.prems(2,3) Cons by (intro path_frame) (auto simp: list_del_between_def)
      then show ?thesis using Nil.prems Cons by (auto simp: list_del_between_def)
    qed (use Nil in \<open>simp add: list_del_between_def\<close>)
  next
    case (Cons x xs)
    have "path (list_del_between (last (x # xs)) (hd (ys @ [b])) h) x (xs @ ys) b" using Cons.prems by (intro Cons.IH) auto
    moreover have "last (x # xs) \<noteq> a" "hd (ys @ [b]) \<noteq> x"
      using Cons.prems by (auto split: if_splits) (cases ys; auto)+
    ultimately show ?case using Cons.prems by (auto simp: list_del_between_def)
  qed
qed

lemma ring_insert:
  assumes "ring h head (xs @ ys)" "p \<notin> set (head # xs @ ys)" "prev = last (head # xs)" "nx = hd (ys @ [head])"
  shows "ring (list_add_between p prev nx h) head (xs @ p # ys)"
  using assms path_insert [of h head xs ys head p prev nx] by (auto simp: ring_def)

lemma ring_add: "ring h head xs \<Longrightarrow> p \<notin> set (head # xs) \<Longrightarrow> ring (list_add p head h) head (p # xs)"
  using ring_insert [of h head "[]" xs p head "nxt h head"] path_ends [of h head xs head]
  by (auto simp: list_add_def ring_def split: list.splits)

lemma ring_add_tail: "ring h head xs \<Longrightarrow> p \<notin> set (head # xs) \<Longrightarrow> ring (list_add_tail p head h) head (xs @ [p])"
  using ring_insert [of h head xs "[]" p "prv h head" head] path_ends [of h head xs head]
  by (auto simp: list_add_tail_def ring_def split: list.splits)

text \<open>After the neighbours of \<open>e\<close> have been joined, nothing but them has changed.\<close>

lemma ring_unlink:
  assumes "ring h head (xs @ e # ys)"
  shows "ring (list_del_between (prv h e) (nxt h e) h) head (xs @ ys)"
    "n \<notin> set (head # xs @ ys) \<Longrightarrow> nxt (list_del_between (prv h e) (nxt h e) h) n = nxt h n \<and>
       prv (list_del_between (prv h e) (nxt h e) h) n = prv h n"
proof -
  have d: "distinct (head # xs @ e # ys)" "path h head (xs @ e # ys) head" "head \<notin> set (xs @ e # ys)"
    using assms by (auto simp: ring_def)
  note del = path_delete [OF d(2) d(1) d(3)]
  show "ring (list_del_between (prv h e) (nxt h e) h) head (xs @ ys)"
    using del(1) d(1) by (simp add: ring_def)
  have "nxt h e \<in> set (head # xs @ ys)" "prv h e \<in> set (head # xs @ ys)"
    unfolding del(2,3) by (cases ys; simp) (cases xs; simp)
  then show "n \<notin> set (head # xs @ ys) \<Longrightarrow> nxt (list_del_between (prv h e) (nxt h e) h) n = nxt h n \<and>
       prv (list_del_between (prv h e) (nxt h e) h) n = prv h n"
    by (auto simp: list_del_between_def)
qed

lemma ring_del_init:
  assumes "ring h head (xs @ e # ys)"
  shows "ring (list_del_init e h) head (xs @ ys)" "ring (list_del_init e h) e []"
    "n \<notin> set (head # xs @ e # ys) \<Longrightarrow> nxt (list_del_init e h) n = nxt h n \<and> prv (list_del_init e h) n = prv h n"
proof -
  have "e \<notin> set (head # xs @ ys)" using assms by (auto simp: ring_def)
  moreover from this have "ring (INIT_LIST_HEAD e g) head (xs @ ys) = ring g head (xs @ ys)" for g
    by (intro ring_frame) (auto simp: INIT_LIST_HEAD_def)
  ultimately show "ring (list_del_init e h) head (xs @ ys)" using ring_unlink(1) [OF assms] by (simp add: list_del_init_def)
  show "ring (list_del_init e h) e []" by (simp add: list_del_init_def ring_init)
  show "n \<notin> set (head # xs @ e # ys) \<Longrightarrow> nxt (list_del_init e h) n = nxt h n \<and> prv (list_del_init e h) n = prv h n"
    using ring_unlink(2) [OF assms, of n] by (auto simp: list_del_init_def INIT_LIST_HEAD_def)
qed

lemma ring_move:
  assumes "ring h head (xs @ e # ys)"
  shows "ring (list_move e head h) head (e # xs @ ys)" "ring (list_move_tail e head h) head ((xs @ ys) @ [e])"
proof -
  have "e \<notin> set (head # xs @ ys)" using assms by (auto simp: ring_def)
  with ring_unlink(1) [OF assms]
  show "ring (list_move e head h) head (e # xs @ ys)" "ring (list_move_tail e head h) head ((xs @ ys) @ [e])"
    unfolding list_move_def list_move_tail_def by (auto intro: ring_add ring_add_tail simp del: append_assoc)
qed

text \<open>From one ring to another, and from none.\<close>

lemma ring_move_tail_other:
  assumes a: "ring h a (xs @ e # ys)" and b: "ring h b zs" and ne: "set (a # xs @ e # ys) \<inter> set (b # zs) = {}"
  shows "ring (list_move_tail e b h) a (xs @ ys)" "ring (list_move_tail e b h) b (zs @ [e])"
    "n \<notin> set (a # xs @ e # ys) \<union> set (b # zs) \<Longrightarrow>
       nxt (list_move_tail e b h) n = nxt h n \<and> prv (list_move_tail e b h) n = prv h n"
proof -
  let ?g = "list_del_between (prv h e) (nxt h e) h"
  have d: "e \<notin> set (a # xs @ ys)" using a by (auto simp: ring_def)
  have "\<forall>x \<in> set (b # zs). x \<notin> set (a # xs @ ys)" using ne by auto
  then have gb: "ring ?g b zs" using b ring_unlink(2) [OF a] by (subst ring_frame [of b zs _ h]) blast+
  have pv: "prv ?g b \<in> set (b # zs)" using path_ends [of ?g b zs b] gb by (auto simp: ring_def split: list.splits)
  have e: "e \<notin> set (b # zs)" using ne by auto
  show "ring (list_move_tail e b h) b (zs @ [e])"
    unfolding list_move_tail_def by (rule ring_add_tail [OF gb e])
  have other: "nxt (list_move_tail e b h) n = nxt ?g n \<and> prv (list_move_tail e b h) n = prv ?g n"
    if "n \<notin> set (b # zs)" "n \<noteq> e" for n
    using that pv by (auto simp: list_move_tail_def list_add_tail_def list_add_between_def)
  have "\<forall>x \<in> set (a # xs @ ys). x \<notin> set (b # zs) \<and> x \<noteq> e" using ne d by auto
  then have "ring (list_move_tail e b h) a (xs @ ys) = ring ?g a (xs @ ys)"
    using other by (intro ring_frame) blast
  then show "ring (list_move_tail e b h) a (xs @ ys)" using ring_unlink(1) [OF a] by simp
  show "n \<notin> set (a # xs @ e # ys) \<union> set (b # zs) \<Longrightarrow>
       nxt (list_move_tail e b h) n = nxt h n \<and> prv (list_move_tail e b h) n = prv h n"
    using other [of n] ring_unlink(2) [OF a, of n] by auto
qed

lemma ring_move_tail_idle:
  assumes e: "ring h e []" and b: "ring h b zs" and ne: "e \<notin> set (b # zs)"
  shows "ring (list_move_tail e b h) b (zs @ [e])"
    "n \<notin> set (e # b # zs) \<Longrightarrow> nxt (list_move_tail e b h) n = nxt h n \<and> prv (list_move_tail e b h) n = prv h n"
proof -
  let ?g = "list_del_between (prv h e) (nxt h e) h"
  have "nxt h e = e" "prv h e = e" using e by (auto simp: ring_def)
  then have g: "?g = h" by (simp add: list_del_between_def set_next_def set_prev_def fun_upd_idem)
  show "ring (list_move_tail e b h) b (zs @ [e])"
    unfolding list_move_tail_def g by (rule ring_add_tail [OF b ne])
  have "prv h b \<in> set (b # zs)" using path_ends [of h b zs b] b by (auto simp: ring_def split: list.splits)
  then show "n \<notin> set (e # b # zs) \<Longrightarrow> nxt (list_move_tail e b h) n = nxt h n \<and> prv (list_move_tail e b h) n = prv h n"
    unfolding list_move_tail_def g by (auto simp: list_add_tail_def list_add_between_def)
qed

lemma path_retarget:
  "path h a xs b \<Longrightarrow> (\<forall>n \<in> set (butlast (a # xs)). nxt g n = nxt h n) \<Longrightarrow> (\<forall>n \<in> set xs. prv g n = prv h n) \<Longrightarrow>
     nxt g (last (a # xs)) = c \<Longrightarrow> prv g c = last (a # xs) \<Longrightarrow> path g a xs c"
  by (induction xs arbitrary: a) (auto split: if_splits)

lemma ring_splice:
  assumes l: "ring h l xs" and b: "ring h head ys" and ne: "set (l # xs) \<inter> set (head # ys) = {}"
  shows "ring (list_splice l head h) head (xs @ ys)" "ring (list_splice_init l head h) head (xs @ ys)"
    "ring (list_splice_init l head h) l []"
proof -
  let ?g = "list_splice_between l head h"
  have g: "ring ?g head (xs @ ys)" if xs: "xs = x # xs'" for x xs'
  proof -
    have ends: "nxt h l = x" "prv h l = last xs" "nxt h head = hd (ys @ [head])"
      using path_ends [of h l xs l] path_ends [of h head ys head] l b xs
      by (auto simp: ring_def split: list.splits)
    have dl: "distinct (l # x # xs')" and db: "distinct (head # ys)" using l b xs by (simp_all add: ring_def)
    let ?at = "hd (ys @ [head])"
    have at: "?at \<in> set (head # ys)" by (cases ys) simp_all
    have next_g: "nxt ?g n = (if n = last xs then ?at else if n = head then x else nxt h n)" for n
      using ends by (simp add: list_splice_between_def Let_def)
    have prev_g: "prv ?g n = (if n = ?at then last xs else if n = x then head else prv h n)" for n
      using ends by (simp add: list_splice_between_def Let_def)
    have out: "n \<notin> set (head # ys)" if "n \<in> set xs" for n using ne that by auto
    have lx: "last xs \<in> set xs" using xs by simp
    have "path h x xs' l" using l xs by (simp add: ring_def)
    then have "path ?g x xs' ?at"
    proof (rule path_retarget)
      show "\<forall>n \<in> set (butlast (x # xs')). nxt ?g n = nxt h n"
      proof
        fix n assume n: "n \<in> set (butlast (x # xs'))"
        then have "n \<noteq> last xs" using dl xs by (metis append_butlast_last_id distinct.simps(2) distinct_append
              disjoint_iff list.distinct(1) list.set_intros(1))
        moreover have "n \<in> set xs" using n xs by (metis in_set_butlastD)
        ultimately show "nxt ?g n = nxt h n" using out [of n] next_g by auto
      qed
      show "\<forall>n \<in> set xs'. prv ?g n = prv h n"
        using prev_g dl at out xs by (metis distinct.simps(2) list.set_intros(2))
    qed (use next_g prev_g xs in simp_all)
    moreover have "nxt ?g head = x" "prv ?g x = head"
      using next_g [of head] prev_g [of x] out [OF lx] out [of x] at xs by auto
    ultimately have first: "path ?g head xs ?at" using xs by simp
    have "path ?g head (xs @ ys) head"
    proof (cases ys)
      case Nil
      then show ?thesis using first by simp
    next
      case (Cons y ys')
      have "path h y ys' head" using b Cons by (simp add: ring_def)
      moreover have "path ?g y ys' head = path h y ys' head"
        using next_g prev_g out [OF lx] out [of x] db Cons xs
        by (intro path_frame) auto
      ultimately show ?thesis using first Cons by (simp add: path_append)
    qed
    moreover have "distinct (head # xs @ ys)" using l b ne by (auto simp: ring_def)
    ultimately show ?thesis by (simp add: ring_def)
  qed
  have e: "list_empty l h \<longleftrightarrow> xs = []" by (rule ring_empty [OF l])
  show "ring (list_splice l head h) head (xs @ ys)" using g e b by (cases xs) (simp_all add: list_splice_def)
  have "ring (INIT_LIST_HEAD l ?g) head (xs @ ys) = ring ?g head (xs @ ys)" if "xs \<noteq> []"
    using ne l by (intro ring_frame) (auto simp: INIT_LIST_HEAD_def ring_def)
  then show "ring (list_splice_init l head h) head (xs @ ys)" using g e b
    by (cases xs) (simp_all add: list_splice_init_def)
  show "ring (list_splice_init l head h) l []"
    using e l ring_init by (cases xs) (simp_all add: list_splice_init_def)
qed

lemma FreeList_ok:
  "ring h head xs \<Longrightarrow> \<exists>h'. FreeList head h = Some h' \<and> ring h' head [] \<and> (\<forall>x \<in> set xs. ring h' x []) \<and>
     (\<forall>n. n \<notin> set (head # xs) \<longrightarrow> nxt h' n = nxt h n \<and> prv h' n = prv h n)"
proof (induction xs arbitrary: h)
  case Nil
  then show ?case using ring_empty [OF Nil] by (subst FreeList.simps) auto
next
  case (Cons x xs)
  have ne: "\<not> list_empty head h" "nxt h head = x" using ring_empty [OF Cons.prems] ring_next [OF Cons.prems] by simp_all
  have r: "ring h head ([] @ x # xs)" using Cons.prems by simp
  note del = ring_del_init [OF r]
  obtain h' where h': "FreeList head (list_del_init x h) = Some h'" "ring h' head []" "\<forall>y \<in> set xs. ring h' y []"
    "\<forall>n. n \<notin> set (head # xs) \<longrightarrow> nxt h' n = nxt (list_del_init x h) n \<and> prv h' n = prv (list_del_init x h) n"
    using Cons.IH [of "list_del_init x h"] del(1) by auto
  have x: "x \<notin> set (head # xs)" using Cons.prems by (auto simp: ring_def)
  then have "ring h' x [] = ring (list_del_init x h) x []" using h'(4) by (intro ring_frame) simp
  with h' ne del x show ?case by (subst FreeList.simps) (auto intro!: exI [of _ h'])
qed

text \<open>
  C25: The pointer lists are lists: on a ring with the nodes \<open>xs\<close> the operations of \<open>list.h\<close> add at the front or
  at the end, tell whether the list is empty, take a node out and leave it a ring of its own, and move a
  node to the front or to the end - the order of the other nodes never changes.
\<close>

theorem list_operations_refine:
  assumes "ring h head xs"
  shows "(list_empty head h \<longleftrightarrow> xs = []) \<and>
    (\<forall>p. p \<notin> set (head # xs) \<longrightarrow>
       ring (list_add p head h) head (p # xs) \<and> ring (list_add_tail p head h) head (xs @ [p])) \<and>
    (\<forall>ys e zs. xs = ys @ e # zs \<longrightarrow>
       ring (list_del_init e h) head (ys @ zs) \<and> ring (list_del_init e h) e [] \<and>
       ring (list_move e head h) head (e # ys @ zs) \<and> ring (list_move_tail e head h) head (ys @ zs @ [e])) \<and>
    (\<forall>l ys. ring h l ys \<and> set (l # ys) \<inter> set (head # xs) = {} \<longrightarrow>
       ring (list_splice l head h) head (ys @ xs) \<and> ring (list_splice_init l head h) head (ys @ xs) \<and>
       ring (list_splice_init l head h) l [])"
proof (intro conjI allI impI)
  show "list_empty head h \<longleftrightarrow> xs = []" by (rule ring_empty [OF assms])
next
  fix p assume p: "p \<notin> set (head # xs)"
  show "ring (list_add p head h) head (p # xs)" "ring (list_add_tail p head h) head (xs @ [p])"
    by (rule ring_add [OF assms p], rule ring_add_tail [OF assms p])
next
  fix ys e zs assume "xs = ys @ e # zs"
  then have r: "ring h head (ys @ e # zs)" using assms by simp
  show "ring (list_del_init e h) head (ys @ zs)" "ring (list_del_init e h) e []"
    "ring (list_move e head h) head (e # ys @ zs)" "ring (list_move_tail e head h) head (ys @ zs @ [e])"
    using ring_del_init(1,2) [OF r] ring_move [OF r] by simp_all
next
  fix l ys assume l: "ring h l ys \<and> set (l # ys) \<inter> set (head # xs) = {}"
  show "ring (list_splice l head h) head (ys @ xs)" "ring (list_splice_init l head h) head (ys @ xs)"
    "ring (list_splice_init l head h) l []"
    using ring_splice [of h l ys head xs] assms l by blast+
qed

text \<open>
  \<open>FreeList\<close> returns on every ring, and empties it: afterwards the head and each former node are rings of
  their own, and no other node has changed.
\<close>

theorem FreeList_returns:
  assumes "ring h head xs"
  shows "\<exists>h'. FreeList head h = Some h' \<and> ring h' head [] \<and> (\<forall>x \<in> set xs. ring h' x []) \<and>
     (\<forall>n. n \<notin> set (head # xs) \<longrightarrow> nxt h' n = nxt h n \<and> prv h' n = prv h n)"
  by (rule FreeList_ok [OF assms])

text \<open>A ring of two nodes, built from three initialised ones.\<close>

definition ex_links :: links where
  "ex_links = list_add_tail 2 0 (list_add_tail 1 0 (INIT_LIST_HEAD 0 \<lparr>nxt = id, prv = id\<rparr>))"

lemma ex_ring: "ring ex_links 0 [1, 2]"
proof -
  have "ring (list_add_tail 1 0 (INIT_LIST_HEAD 0 \<lparr>nxt = id, prv = id\<rparr>)) 0 ([] @ [1])"
    by (rule ring_add_tail [OF ring_init]) simp
  then have "ring ex_links 0 (([] @ [1]) @ [2])" unfolding ex_links_def by (rule ring_add_tail) simp
  then show ?thesis by simp
qed

text \<open>A second ring beside it, to be spliced in.\<close>

definition ex_two_lists :: links where
  "ex_two_lists = list_add_tail 4 3 (INIT_LIST_HEAD 3 ex_links)"

lemma ex_two_rings: "ring ex_two_lists 0 [1, 2]" "ring ex_two_lists 3 [4]"
  by (simp_all add: ring_def ex_two_lists_def ex_links_def list_add_tail_def list_add_between_def INIT_LIST_HEAD_def set_next_def set_prev_def)

theorem list_operations_refine_witness:
  "ring (list_add 5 0 ex_two_lists) 0 [5, 1, 2] \<and> ring (list_del_init 1 ex_two_lists) 0 [2] \<and>
   ring (list_move_tail 1 0 ex_two_lists) 0 [2, 1] \<and> ring (list_splice_init 3 0 ex_two_lists) 0 [4, 1, 2] \<and>
   ring (list_splice_init 3 0 ex_two_lists) 3 []"
proof -
  note ops = list_operations_refine [OF ex_two_rings(1)]
  have split: "[1, 2] = [] @ 1 # [2 :: nat]" by simp
  have "ring (list_add 5 0 ex_two_lists) 0 [5, 1, 2]" using ops by simp
  moreover have "ring (list_del_init 1 ex_two_lists) 0 ([] @ [2]) \<and> ring (list_move_tail 1 0 ex_two_lists) 0 ([] @ [2] @ [1])"
    using ops split by blast
  moreover have "ring (list_splice_init 3 0 ex_two_lists) 0 ([4] @ [1, 2]) \<and> ring (list_splice_init 3 0 ex_two_lists) 3 []"
    using conjunct2 [OF conjunct2 [OF conjunct2 [OF ops]], rule_format, of 3 "[4]"] ex_two_rings(2) by simp
  ultimately show ?thesis by simp
qed

theorem FreeList_returns_witness:
  "\<exists>h'. FreeList 0 ex_links = Some h' \<and> ring h' 0 [] \<and> (\<forall>x \<in> set [1, 2]. ring h' x []) \<and>
     (\<forall>n. n \<notin> set [0, 1, 2] \<longrightarrow> nxt h' n = nxt ex_links n \<and> prv h' n = prv ex_links n)"
  using FreeList_returns [OF ex_ring] .

end
