(* ===== verification/TimerList.thy ===== *)
theory TimerList
  imports ListHead
begin

text \<open>
  The timers of the server (\<open>core/timerlist.cpp\<close>, \<open>include/timerlist.h\<close>) on the pointer lists: a timer
  object and a timer list are their list nodes. \<open>'w\<close> is the rest of the program's state, which a
  notification may change. Time is \<open>GET_TIMESTAMP()\<close> in microseconds, a parameter; the 64-bit times
  are integers (in use they are far from the bounds of the type).
\<close>

definition TIMESTAMP_PRECISION :: int where "TIMESTAMP_PRECISION = 1000000"

record 'w timers =
  lk :: links
  objexp :: "nat \<Rightarrow> int"
  world :: 'w

record timer_list =
  tl_head :: nat
  tl_timeout :: int

record timer_unit =
  tu_pending :: nat
  tu_next :: "timer_list list"

section \<open>Timers\<close>

text \<open>A list whose time-out is not positive leaves the expiry of the object as it was.\<close>

definition AttachTimer :: "int \<Rightarrow> timer_list \<Rightarrow> nat \<Rightarrow> 'w timers \<Rightarrow> 'w timers" where
  "AttachTimer clock lst t w =
     (let w1 = (if tl_timeout lst > 0
                then w\<lparr>objexp := (objexp w)(t := clock + tl_timeout lst * TIMESTAMP_PRECISION)\<rparr> else w)
      in w1\<lparr>lk := list_move_tail t (tl_head lst) (lk w1)\<rparr>)"

definition AttachZeroTimer :: "timer_unit \<Rightarrow> nat \<Rightarrow> 'w timers \<Rightarrow> 'w timers" where
  "AttachZeroTimer u t w = w\<lparr>lk := list_move_tail t (tu_pending u) (lk w)\<rparr>"

definition DisableTimer :: "nat \<Rightarrow> 'w timers \<Rightarrow> 'w timers" where
  "DisableTimer t w = w\<lparr>lk := list_del_init t (lk w)\<rparr>"

text \<open>What the virtual function \<open>TimerNotify\<close> of a timer does; \<open>None\<close> is \<open>abort\<close>, which the base class calls.\<close>

type_synonym 'w timer_notify = "nat \<Rightarrow> 'w timers \<Rightarrow> 'w timers option"

definition base_TimerNotify :: "'w timer_notify" where
  "base_TimerNotify t w = None"

text \<open>The loop of \<open>CTimerList::CheckExpired\<close>; the result is the number of timers that were notified.\<close>

partial_function (option) expire_loop ::
    "'w timer_notify \<Rightarrow> nat \<Rightarrow> int \<Rightarrow> nat \<Rightarrow> 'w timers \<Rightarrow> (nat \<times> 'w timers) option" where
  "expire_loop notify head now n w =
     (if list_empty head (lk w) then Some (n, w)
      else if objexp w (nxt (lk w) head) > now then Some (n, w)
      else Option.bind (notify (nxt (lk w) head) (w\<lparr>lk := list_del_init (nxt (lk w) head) (lk w)\<rparr>))
             (expire_loop notify head now (n + 1)))"

definition tl_CheckExpired ::
    "'w timer_notify \<Rightarrow> int \<Rightarrow> timer_list \<Rightarrow> int \<Rightarrow> 'w timers \<Rightarrow> (nat \<times> 'w timers) option" where
  "tl_CheckExpired notify clock lst now w =
     expire_loop notify (tl_head lst) (if now = 0 then clock else now) 0 w"

partial_function (option) pending_loop ::
    "'w timer_notify \<Rightarrow> nat \<Rightarrow> nat \<Rightarrow> 'w timers \<Rightarrow> (nat \<times> 'w timers) option" where
  "pending_loop notify head n w =
     (if list_empty head (lk w) then Some (n, w)
      else Option.bind (notify (nxt (lk w) head) (w\<lparr>lk := list_del_init (nxt (lk w) head) (lk w)\<rparr>))
             (pending_loop notify head (n + 1)))"

definition CheckPending :: "'w timer_notify \<Rightarrow> timer_unit \<Rightarrow> 'w timers \<Rightarrow> (nat \<times> 'w timers) option" where
  "CheckPending notify u w = pending_loop notify (tu_pending u) 0 w"

fun expire_lists ::
    "'w timer_notify \<Rightarrow> int \<Rightarrow> int \<Rightarrow> timer_list list \<Rightarrow> nat \<Rightarrow> 'w timers \<Rightarrow> (nat \<times> 'w timers) option" where
  "expire_lists notify clock now [] n w = Some (n, w)"
| "expire_lists notify clock now (lst # lsts) n w = do {
     (k, w1) \<leftarrow> tl_CheckExpired notify clock lst now w;
     expire_lists notify clock now lsts (n + k) w1 }"

definition CheckExpired ::
    "'w timer_notify \<Rightarrow> int \<Rightarrow> timer_unit \<Rightarrow> int \<Rightarrow> 'w timers \<Rightarrow> (nat \<times> 'w timers) option" where
  "CheckExpired notify clock u now w = do {
     let now = (if now = 0 then clock else now);
     (n, w1) \<leftarrow> CheckPending notify u w;
     expire_lists notify clock now (tu_next u) n w1 }"

text \<open>\<open>fresh\<close> is the address of the new list.\<close>

definition GetTimerList :: "nat \<Rightarrow> int \<Rightarrow> timer_unit \<Rightarrow> 'w timers \<Rightarrow> timer_list \<times> timer_unit \<times> 'w timers" where
  "GetTimerList fresh timeout u w =
     (case find (\<lambda>lst. tl_timeout lst = timeout) (tu_next u) of
        Some lst \<Rightarrow> (lst, u, w)
      | None \<Rightarrow> (let lst = \<lparr>tl_head = fresh, tl_timeout = timeout\<rparr>
                in (lst, u\<lparr>tu_next := lst # tu_next u\<rparr>, w\<lparr>lk := INIT_LIST_HEAD fresh (lk w)\<rparr>)))"

text \<open>How long the loop may wait: until the first timer of a list expires, at most \<open>msec\<close>.\<close>

fun first_expiry :: "timer_list list \<Rightarrow> int \<Rightarrow> 'w timers \<Rightarrow> int" where
  "first_expiry [] exp w = exp"
| "first_expiry (lst # lsts) exp w =
     (if list_empty (tl_head lst) (lk w) then first_expiry lsts exp w
      else first_expiry lsts (if objexp w (nxt (lk w) (tl_head lst)) < exp
                             then objexp w (nxt (lk w) (tl_head lst)) else exp) w)"

definition ExpireMicroSeconds :: "int \<Rightarrow> int \<Rightarrow> timer_unit \<Rightarrow> 'w timers \<Rightarrow> int" where
  "ExpireMicroSeconds clock msec u w =
     (let exp = first_expiry (tu_next u) (clock + msec * (TIMESTAMP_PRECISION div 1000)) w - clock
      in if exp \<le> 0 then 0 else exp div (TIMESTAMP_PRECISION div 1000))"

section \<open>Waiting\<close>

lemma first_expiry_min:
  "first_expiry lsts exp w \<le> exp \<and>
   (\<forall>lst \<in> set lsts. \<not> list_empty (tl_head lst) (lk w) \<longrightarrow> first_expiry lsts exp w \<le> objexp w (nxt (lk w) (tl_head lst))) \<and>
   (first_expiry lsts exp w = exp \<or> (\<exists>lst \<in> set lsts. \<not> list_empty (tl_head lst) (lk w) \<and>
      first_expiry lsts exp w = objexp w (nxt (lk w) (tl_head lst))))"
proof (induction lsts arbitrary: exp)
  case (Cons lst lsts)
  let ?e = "if list_empty (tl_head lst) (lk w) then exp else min exp (objexp w (nxt (lk w) (tl_head lst)))"
  have eq: "first_expiry (lst # lsts) exp w = first_expiry lsts ?e w" by (auto simp: min_def)
  show ?case unfolding eq using Cons.IH [of ?e] by (auto simp: min_def split: if_splits)
qed simp

text \<open>
  C31: The loop waits exactly as long as it may: the waiting time, in milliseconds, is at most the one asked for; it is 0 or
  ends no later than any timer of any list expires; and when it is shorter than asked for, a millisecond more would be too
  late for some timer - so without timers it is the time asked for. The lists are in the order of expiry, as attaching keeps
  them.
\<close>

theorem wait_ends_in_time:
  assumes "0 \<le> msec"
    and lists: "\<forall>lst \<in> set (tu_next u). ring (lk w) (tl_head lst) (ts lst) \<and> sorted (map (objexp w) (ts lst))"
    and res: "r = ExpireMicroSeconds clock msec u w"
  shows "0 \<le> r \<and> r \<le> msec \<and>
    (\<forall>lst \<in> set (tu_next u). \<forall>t \<in> set (ts lst). r = 0 \<or> clock + r * 1000 \<le> objexp w t) \<and>
    (r < msec \<longrightarrow> (\<exists>lst \<in> set (tu_next u). \<exists>t \<in> set (ts lst). objexp w t < clock + (r + 1) * 1000))"
proof -
  define f where "f = first_expiry (tu_next u) (clock + msec * 1000) w"
  note min = first_expiry_min [of "tu_next u" "clock + msec * 1000" w, folded f_def]
  have first: "list_empty (tl_head lst) (lk w) \<longleftrightarrow> ts lst = []" "ts lst \<noteq> [] \<Longrightarrow> nxt (lk w) (tl_head lst) = hd (ts lst)"
    if "lst \<in> set (tu_next u)" for lst
    using lists that ring_empty ring_next by (blast, metis list.collapse)
  have early: "f \<le> objexp w t" if l: "lst \<in> set (tu_next u)" and t: "t \<in> set (ts lst)" for lst t
  proof -
    have "f \<le> objexp w (hd (ts lst))" using min first [OF l] l t by force
    also have "\<dots> \<le> objexp w t" using lists l t by (cases "ts lst") auto
    finally show ?thesis .
  qed
  have r: "r = (if f - clock \<le> 0 then 0 else (f - clock) div 1000)"
    by (simp add: res ExpireMicroSeconds_def TIMESTAMP_PRECISION_def Let_def f_def)
  have div: "x div 1000 * 1000 \<le> x" "x < (x div 1000 + 1) * 1000" for x :: int by presburger+
  have le: "f \<le> clock + msec * 1000" using min by blast
  have bounds: "0 \<le> r" "r \<le> msec" using le assms(1) by (auto simp: r)
  moreover have "r = 0 \<or> clock + r * 1000 \<le> f" using div(1) [of "f - clock"] by (auto simp: r)
  then have "\<forall>lst \<in> set (tu_next u). \<forall>t \<in> set (ts lst). r = 0 \<or> clock + r * 1000 \<le> objexp w t"
    using early by fastforce
  moreover have "\<exists>lst \<in> set (tu_next u). \<exists>t \<in> set (ts lst). objexp w t < clock + (r + 1) * 1000" if "r < msec"
  proof -
    have late: "f < clock + (r + 1) * 1000" using div(2) [of "f - clock"] by (auto simp: r)
    also have "\<dots> \<le> clock + msec * 1000" using that by simp
    finally obtain lst where l: "lst \<in> set (tu_next u)" "\<not> list_empty (tl_head lst) (lk w)"
      "f = objexp w (nxt (lk w) (tl_head lst))" using min by auto
    then show ?thesis using first [OF l(1)] late by (intro bexI [of _ lst] bexI [of _ "hd (ts lst)"]) simp_all
  qed
  ultimately show ?thesis by blast
qed

section \<open>Expiry\<close>

text \<open>The timers \<open>ts\<close> are notified one after the other, each after it has been taken out of its list.\<close>

primrec notified :: "'w timer_notify \<Rightarrow> nat list \<Rightarrow> 'w timers \<Rightarrow> 'w timers \<Rightarrow> bool" where
  "notified notify [] w w' \<longleftrightarrow> w' = w"
| "notified notify (t # ts) w w' \<longleftrightarrow>
     (case notify t (w\<lparr>lk := list_del_init t (lk w)\<rparr>) of None \<Rightarrow> False | Some w1 \<Rightarrow> notified notify ts w1 w')"

text \<open>What a notification does to the list it comes from: nothing, or, if \<open>rearm\<close>, it puts its own timer back at
  the end, to expire later. \<open>P S\<close> is what it needs of the rest of the state while \<open>S\<close> are the timers that are not
  notified yet, and what it keeps for the others.\<close>

locale timer_callback =
  fixes notify :: "'w timer_notify" and head :: nat and now :: int and rearm :: bool and P :: "nat set \<Rightarrow> 'w \<Rightarrow> bool"
  assumes fires: "ring (lk w) head ys \<Longrightarrow> ring (lk w) t [] \<Longrightarrow> t \<notin> set (head # ys) \<Longrightarrow> P (insert t (set ys)) (world w) \<Longrightarrow>
    \<exists>w'. notify t w = Some w' \<and> ring (lk w') head (ys @ (if rearm then [t] else [])) \<and>
      (rearm \<longrightarrow> now < objexp w' t) \<and> (\<forall>y \<in> set ys. objexp w' y = objexp w y) \<and>
      P (set (ys @ (if rearm then [t] else []))) (world w')"
begin

lemma expire_loop_fires:
  "ring (lk w) head (xs @ zs) \<Longrightarrow> \<forall>z \<in> set zs. now < objexp w z \<Longrightarrow> P (set (xs @ zs)) (world w) \<Longrightarrow>
   \<exists>w'. expire_loop notify head now n w = Some (n + length (takeWhile (\<lambda>t. objexp w t \<le> now) xs), w') \<and>
     notified notify (takeWhile (\<lambda>t. objexp w t \<le> now) xs) w w' \<and>
     ring (lk w') head (dropWhile (\<lambda>t. objexp w t \<le> now) xs @ zs @
       (if rearm then takeWhile (\<lambda>t. objexp w t \<le> now) xs else [])) \<and>
     P (set (dropWhile (\<lambda>t. objexp w t \<le> now) xs @ zs @
       (if rearm then takeWhile (\<lambda>t. objexp w t \<le> now) xs else []))) (world w')"
proof (induction xs arbitrary: w zs n)
  case Nil
  have "expire_loop notify head now n w = Some (n, w)"
    using ring_empty [OF Nil(1)] Nil(2) ring_next [of "lk w" head "hd zs" "List.tl zs"] Nil(1)
    by (subst expire_loop.simps) (cases zs; auto)
  then show ?case using Nil by auto
next
  case (Cons x xs)
  have r: "ring (lk w) head ([] @ x # (xs @ zs))" using Cons.prems(1) by simp
  have ne: "\<not> list_empty head (lk w)" "nxt (lk w) head = x" using ring_empty [OF r] ring_next [of "lk w" head x] r by simp_all
  show ?case
  proof (cases "objexp w x \<le> now")
    case False
    then have "expire_loop notify head now n w = Some (n, w)" using ne by (subst expire_loop.simps) simp
    then show ?thesis using False Cons.prems by auto
  next
    case True
    let ?w = "w\<lparr>lk := list_del_init x (lk w)\<rparr>" and ?new = "if rearm then [x] else []"
    have x: "x \<notin> set (head # xs @ zs)" using r by (auto simp: ring_def)
    obtain w1 where w1: "notify x ?w = Some w1" "ring (lk w1) head ((xs @ zs) @ ?new)"
      "rearm \<longrightarrow> now < objexp w1 x" "\<forall>y \<in> set (xs @ zs). objexp w1 y = objexp ?w y" "P (set ((xs @ zs) @ ?new)) (world w1)"
      using fires [of ?w "xs @ zs" x] ring_del_init(1,2) [OF r] x Cons.prems(3) by auto
    have eq: "objexp w1 y = objexp w y" if "y \<in> set (xs @ zs)" for y using w1(4) that by simp
    have take_eq: "takeWhile (\<lambda>t. objexp w1 t \<le> now) xs = takeWhile (\<lambda>t. objexp w t \<le> now) xs"
      "dropWhile (\<lambda>t. objexp w1 t \<le> now) xs = dropWhile (\<lambda>t. objexp w t \<le> now) xs"
      using eq by (auto intro!: takeWhile_cong dropWhile_cong)
    have "ring (lk w1) head (xs @ (zs @ ?new))" using w1(2) by simp
    moreover have "\<forall>z \<in> set (zs @ ?new). now < objexp w1 z" using w1(3) eq Cons.prems(2) by auto
    moreover have "P (set (xs @ (zs @ ?new))) (world w1)" using w1(5) by simp
    ultimately obtain w' where "expire_loop notify head now (n + 1) w1 =
        Some (n + 1 + length (takeWhile (\<lambda>t. objexp w1 t \<le> now) xs), w')"
      "notified notify (takeWhile (\<lambda>t. objexp w1 t \<le> now) xs) w1 w'"
      "ring (lk w') head (dropWhile (\<lambda>t. objexp w1 t \<le> now) xs @ (zs @ ?new) @
        (if rearm then takeWhile (\<lambda>t. objexp w1 t \<le> now) xs else []))"
      "P (set (dropWhile (\<lambda>t. objexp w1 t \<le> now) xs @ (zs @ ?new) @
        (if rearm then takeWhile (\<lambda>t. objexp w1 t \<le> now) xs else []))) (world w')"
      using Cons.IH [of w1 "zs @ ?new" "n + 1"] by blast
    moreover have "expire_loop notify head now n w = expire_loop notify head now (n + 1) w1"
      using ne True w1(1) by (subst expire_loop.simps) simp
    ultimately show ?thesis using True w1(1) by (cases rearm) (simp_all add: take_eq)
  qed
qed

end

text \<open>The timer of the server itself (\<open>CRealTimer\<close> of \<open>proxy/RealTimer.cpp\<close>) attaches itself again; the notifications of
  the connections are in the theory ServerLoop.\<close>

definition real_TimerNotify :: "int \<Rightarrow> timer_list \<Rightarrow> 'w timer_notify" where
  "real_TimerNotify clock realTimerlist t w = Some (AttachTimer clock realTimerlist t w)"

lemma list_del_init_idle: "ring h t [] \<Longrightarrow> list_del_init t h = h"
  by (auto simp: ring_def list_del_init_def INIT_LIST_HEAD_def list_del_between_def set_next_def set_prev_def fun_upd_idem)

lemma rearm_ok:
  assumes "0 < tl_timeout lst" "now \<le> clock" "ring (lk w) (tl_head lst) ys" "ring (lk w) t []" "t \<notin> set (tl_head lst # ys)"
  shows "\<exists>w'. real_TimerNotify clock lst t w = Some w' \<and> ring (lk w') (tl_head lst) (ys @ [t]) \<and>
    now < objexp w' t \<and> (\<forall>y \<in> set ys. objexp w' y = objexp w y)"
  using assms ring_move_tail_idle(1) [OF assms(4,3,5)]
  by (intro exI [of _ "AttachTimer clock lst t w"])
    (auto simp: real_TimerNotify_def AttachTimer_def TIMESTAMP_PRECISION_def Let_def)

text \<open>\<open>CRealTimer\<close> with the list of 60 seconds that \<open>CIncoming::open\<close> gives it; the clock at the notification is
  the time of the check.\<close>

definition real_list :: "nat \<Rightarrow> timer_list" where
  "real_list head = \<lparr>tl_head = head, tl_timeout = 60\<rparr>"

interpretation rearming: timer_callback "real_TimerNotify now (real_list head)" head now True "\<lambda>S w. True" for head now
proof
  fix w :: "'a timers" and ys t
  assume "ring (lk w) head ys" "ring (lk w) t []" "t \<notin> set (head # ys)"
  then show "\<exists>w'. real_TimerNotify now (real_list head) t w = Some w' \<and>
      ring (lk w') head (ys @ (if True then [t] else [])) \<and> (True \<longrightarrow> now < objexp w' t) \<and>
      (\<forall>y \<in> set ys. objexp w' y = objexp w y) \<and> True"
    using rearm_ok [of "real_list head" now now w ys t] by (simp add: real_list_def)
qed

text \<open>A timer list in use: in the order of the expiry times, none later than a time-out from \<open>clock\<close>.\<close>

definition timers_ok :: "int \<Rightarrow> timer_list \<Rightarrow> nat list \<Rightarrow> 'w timers \<Rightarrow> bool" where
  "timers_ok clock lst xs w \<longleftrightarrow> ring (lk w) (tl_head lst) xs \<and> 0 < tl_timeout lst \<and> sorted (map (objexp w) xs) \<and>
     (\<forall>t \<in> set xs. objexp w t \<le> clock + tl_timeout lst * TIMESTAMP_PRECISION)"

lemma attach_ordered:
  assumes "sorted (map f xs)" "\<forall>t \<in> set xs. f t \<le> e" "t \<notin> set xs"
  shows "sorted (map (f(t := e)) (xs @ [t]))"
proof -
  have "map (f(t := e)) xs = map f xs" using assms(3) by simp
  then show ?thesis using assms by (simp add: sorted_append)
qed

text \<open>
  C18: Attaching keeps a timer list with a positive time-out in the order of expiry: whether the timer was idle or is put back from
  within the list, it goes to the end, with the latest expiry of all, as long as the clock does not go
  backwards.
\<close>

theorem attach_keeps_order:
  assumes ok: "timers_ok clock0 lst xs w" and clock: "clock0 \<le> clock"
    and t: "(t \<notin> set (tl_head lst # xs) \<and> ring (lk w) t [] \<and> rest = xs) \<or> (xs = ys @ t # zs \<and> rest = ys @ zs)"
  shows "timers_ok clock lst (rest @ [t]) (AttachTimer clock lst t w) \<and>
    objexp (AttachTimer clock lst t w) t = clock + tl_timeout lst * TIMESTAMP_PRECISION"
proof -
  let ?e = "clock + tl_timeout lst * TIMESTAMP_PRECISION"
  have r: "ring (lk w) (tl_head lst) xs" and pos: "0 < tl_timeout lst" using ok by (simp_all add: timers_ok_def)
  have le: "\<forall>x \<in> set xs. objexp w x \<le> ?e" using ok clock by (force simp: timers_ok_def)
  have rest: "sorted (map (objexp w) rest)" "set rest \<subseteq> set xs" "t \<notin> set rest"
    using t ok r by (auto simp: timers_ok_def sorted_append ring_def)
  have new: "ring (list_move_tail t (tl_head lst) (lk w)) (tl_head lst) (rest @ [t])"
    using t ring_move_tail_idle(1) [of "lk w" t "tl_head lst" xs] ring_move(2) [of "lk w" "tl_head lst" ys t zs] r by auto
  have "sorted (map ((objexp w)(t := ?e)) (rest @ [t]))"
    using rest le by (intro attach_ordered) auto
  then show ?thesis using new pos le rest by (auto simp: timers_ok_def AttachTimer_def)
qed

lemma takeWhile_sorted:
  "sorted (map f xs) \<Longrightarrow> takeWhile (\<lambda>t. f t \<le> (now :: int)) xs = filter (\<lambda>t. f t \<le> now) xs \<and>
     dropWhile (\<lambda>t. f t \<le> now) xs = filter (\<lambda>t. now < f t) xs"
proof (induction xs)
  case (Cons x xs)
  show ?case
  proof (cases "f x \<le> now")
    case False
    then have later: "\<forall>y \<in> set xs. now < f y" using Cons.prems by force
    then have "filter (\<lambda>t. f t \<le> now) xs = []" "filter (\<lambda>t. now < f t) xs = xs"
      by (auto simp: filter_empty_conv filter_id_conv not_le)
    then show ?thesis using False by simp
  qed (use Cons in auto)
qed simp

text \<open>
  The counter's timer survives its notification: \<open>CheckExpired\<close> returns although the timer attaches itself
  to the list that is being checked, notifies it once, and afterwards it is the last of the list again.
\<close>

theorem real_timer_rearms:
  assumes r: "ring (lk w) head (t # xs)" and t: "objexp w t \<le> now" "now \<noteq> 0" and rest: "\<forall>x \<in> set xs. now < objexp w x"
  shows "\<exists>w'. tl_CheckExpired (real_TimerNotify now (real_list head)) clock (real_list head) now w = Some (1, w') \<and>
    ring (lk w') head (xs @ [t]) \<and> objexp w' t = now + 60 * TIMESTAMP_PRECISION"
proof -
  have r': "ring (lk w) head ([t] @ xs)" using r by simp
  from rearming.expire_loop_fires [OF r' rest, of 0] t(1)
  obtain w' where "expire_loop (real_TimerNotify now (real_list head)) head now 0 w = Some (1, w')"
    "notified (real_TimerNotify now (real_list head)) [t] w w'" "ring (lk w') head (xs @ [t])" by auto
  then show ?thesis using t(2)
    by (simp add: tl_CheckExpired_def real_list_def real_TimerNotify_def AttachTimer_def)
qed

section \<open>Examples\<close>

text \<open>Two timers, one of them due at 5.\<close>

definition ex_timers :: "unit timers" where
  "ex_timers = \<lparr>lk = ex_links, objexp = (\<lambda>t. if t = 1 then 5 else 15), world = ()\<rparr>"

definition ex_timer_list :: timer_list where
  "ex_timer_list = \<lparr>tl_head = 0, tl_timeout = 1\<rparr>"

lemma ex_timers_ok: "timers_ok 10 ex_timer_list [1, 2] ex_timers"
  using ex_ring by (simp add: timers_ok_def ex_timers_def ex_timer_list_def TIMESTAMP_PRECISION_def)

theorem wait_ends_in_time_witness:
  "\<exists>r \<ge> 0. r \<le> 10 \<and> (r = 0 \<or> 2 + r * 1000 \<le> objexp ex_timers 1) \<and> objexp ex_timers 1 < 2 + (r + 1) * 1000 \<and>
     r = ExpireMicroSeconds 2 10 \<lparr>tu_pending = 9, tu_next = [ex_timer_list]\<rparr> ex_timers"
proof -
  let ?u = "\<lparr>tu_pending = 9, tu_next = [ex_timer_list]\<rparr>"
  have "\<forall>lst \<in> set (tu_next ?u). ring (lk ex_timers) (tl_head lst) [1, 2] \<and> sorted (map (objexp ex_timers) [1, 2])"
    using ex_timers_ok by (simp add: timers_ok_def)
  from wait_ends_in_time [OF _ this refl, of 10 2] show ?thesis by (force simp: ex_timers_def)
qed

theorem attach_keeps_order_witness:
  "timers_ok 20 ex_timer_list ([2] @ [1]) (AttachTimer 20 ex_timer_list 1 ex_timers) \<and>
   objexp (AttachTimer 20 ex_timer_list 1 ex_timers) 1 = 20 + tl_timeout ex_timer_list * TIMESTAMP_PRECISION"
  by (rule attach_keeps_order [OF ex_timers_ok, where ys = "[]" and zs = "[2]"]) simp_all

theorem real_timer_rearms_witness:
  "\<exists>w'. tl_CheckExpired (real_TimerNotify 10 (real_list 0)) 0 (real_list 0) 10 ex_timers = Some (1, w') \<and>
    ring (lk w') 0 ([2] @ [1]) \<and> objexp w' 1 = 10 + 60 * TIMESTAMP_PRECISION"
  by (rule real_timer_rearms) (use ex_ring in \<open>simp_all add: ex_timers_def\<close>)

end
