(* ===== verification/HelperUnit.thy ===== *)
theory HelperUnit
  imports ClientConn
begin

text \<open>
  The server's connection to a logic server: \<open>CHelperUnit\<close> (\<open>proxy/helper_unit.h\<close>, \<open>helper_unit.cpp\<close>).
  As in \<open>ClientConn\<close> the two buffers are the bytes they hold, and the results of the system calls are
  arguments: of \<open>CNet::tcp_connect\<close> (its result and the socket it stores), of \<open>AttachPoller\<close>, \<open>::send\<close> and
  \<open>::recv\<close>. The server's statistics and switches, which the connection sets, are part of the state; timers are
  not (\<open>TimerList\<close>). The lookup of the client for a payment (\<open>_get_client_by_id\<close>) is commented out in the
  source and yields \<open>NULL\<close>.
\<close>

section \<open>State\<close>

definition SERVER_CMD_REP :: u16 where "SERVER_CMD_REP = 0x1001"
definition INTER_CMD_RES :: u16 where "INTER_CMD_RES = 0x9001"
definition INTER_CMD_WAITER_STAT_RES :: u16 where "INTER_CMD_WAITER_STAT_RES = 0x9002"
definition INTER_CMD_NOTIFY_STAT_RES :: u16 where "INTER_CMD_NOTIFY_STAT_RES = 0x9003"
definition SVR_MAX_W_QLEN :: int where "SVR_MAX_W_QLEN = 1024"
definition SVR_MAX_N_QLEN :: int where "SVR_MAX_N_QLEN = 1024"

record server_stat =
  w_qlen :: u32
  n_qlen :: u32
  w_ctime :: u32
  n_ctime :: u32

record server_switch =
  w_is_busyed :: bool
  n_is_busyed :: bool

text \<open>\<open>hu_attached\<close> tells whether the object has a slot of the poller. The constructor leaves the port
  indeterminate (0 here); it is set together with the address before the first connection.\<close>

record helper_unit =
  hu_stage :: conn_state
  hu_errors :: int
  hu_r :: "byte list"
  hu_w :: "byte list"
  hu_fd :: int
  hu_attached :: bool
  hu_new_in :: bool
  hu_new_out :: bool
  hu_old_in :: bool
  hu_old_out :: bool
  hu_addr :: "byte list"
  hu_port :: int

record helper_state =
  hu :: helper_unit
  stat :: server_stat
  switch :: server_switch

record 'v helper_env =
  he_json :: "'v json"
  he_in :: base_packet
  he_out :: output_packet
  he_pool :: bool

definition new_helper_unit :: helper_unit where
  "new_helper_unit = \<lparr>hu_stage = CONN_IDLE, hu_errors = 0, hu_r = [], hu_w = [], hu_fd = 0, hu_attached = False,
     hu_new_in = False, hu_new_out = False, hu_old_in = False, hu_old_out = False, hu_addr = [], hu_port = 0\<rparr>"

definition hu_events :: "bool \<Rightarrow> bool \<Rightarrow> helper_unit \<Rightarrow> helper_unit" where
  "hu_events i out u = u\<lparr>hu_new_in := i, hu_new_out := out\<rparr>"

definition hu_ApplyEvents :: "helper_unit \<Rightarrow> helper_unit" where
  "hu_ApplyEvents u = (if hu_attached u then u\<lparr>hu_old_in := hu_new_in u, hu_old_out := hu_new_out u\<rparr> else u)"

text \<open>\<open>CRawCache\<close> is a queue: \<open>append\<close> and \<open>skip\<close>.\<close>

definition append_pkg :: "byte list \<Rightarrow> helper_unit \<Rightarrow> helper_unit" where
  "append_pkg buf u = u\<lparr>hu_w := hu_w u @ buf\<rparr>"

definition IpMap :: "(byte list \<Rightarrow> byte list option) \<Rightarrow> byte list \<Rightarrow> byte list" where
  "IpMap m_ipmap ip = (case m_ipmap ip of None \<Rightarrow> [] | Some r \<Rightarrow> r)"

section \<open>Connecting and sending\<close>

definition reset_helper :: "helper_unit \<Rightarrow> helper_unit" where
  "reset_helper u = (hu_ApplyEvents (hu_events False False (u\<lparr>hu_w := [], hu_r := []\<rparr>)))
     \<lparr>hu_attached := False, hu_fd := - 1, hu_stage := CONN_IDLE\<rparr>"

text \<open>\<open>SOCKET_CREATE_FAILED\<close> and the value of \<open>errno\<close> only decide what is logged and whether the attempt is
  still in progress.\<close>

datatype connect_result = Connected int | InProgress int | ConnectFailed int

definition hu_attach :: "bool \<Rightarrow> helper_unit \<Rightarrow> int \<times> helper_unit" where
  "hu_attach slot u =
     (if hu_attached u then (0, hu_ApplyEvents u)
      else if slot \<and> hu_fd u \<ge> 0 then (0, u\<lparr>hu_attached := True, hu_old_in := hu_new_in u, hu_old_out := hu_new_out u\<rparr>)
      else (- 1, u))"

definition reConnect :: "connect_result \<Rightarrow> bool \<Rightarrow> helper_unit \<Rightarrow> int \<times> helper_unit" where
  "reConnect c slot u =
     (case c of
        ConnectFailed fd \<Rightarrow> (- 1, u\<lparr>hu_fd := fd\<rparr>)
      | InProgress fd \<Rightarrow> hu_attach slot (u\<lparr>hu_fd := fd, hu_stage := CONN_CONNECTING\<rparr>)
      | Connected fd \<Rightarrow> hu_attach slot (u\<lparr>hu_fd := fd, hu_stage := CONN_CONNECTED\<rparr>))"

definition hu_connect :: "connect_result \<Rightarrow> bool \<Rightarrow> helper_unit \<Rightarrow> int \<times> helper_unit" where
  "hu_connect c slot u =
     (if hu_stage u = CONN_IDLE \<or> hu_fd u < 0
      then (case c of
              Connected fd \<Rightarrow> hu_attach slot (u\<lparr>hu_fd := fd, hu_stage := CONN_CONNECTED\<rparr>)
            | InProgress fd \<Rightarrow> (- 1, u\<lparr>hu_fd := fd\<rparr>)
            | ConnectFailed fd \<Rightarrow> (- 1, u\<lparr>hu_fd := fd\<rparr>))
      else hu_attach slot (u\<lparr>hu_stage := CONN_CONNECTED\<rparr>))"

definition send_to_cgi :: "send_result \<Rightarrow> helper_unit \<Rightarrow> int \<times> helper_unit" where
  "send_to_cgi res u =
     (if hu_w u \<noteq> [] then
        (case res of
           SendRetry \<Rightarrow>
             (let u1 = u\<lparr>hu_errors := hu_errors u + 1\<rparr>
              in if hu_errors u1 \<ge> 50 then (- 1, (reset_helper u1)\<lparr>hu_stage := CONN_FATAL_ERROR\<rparr>)
                 else (CONN_DATA_SENDING_int, hu_ApplyEvents (u1\<lparr>hu_new_out := True\<rparr>)))
         | SendFail \<Rightarrow> (- 1, (reset_helper u)\<lparr>hu_stage := CONN_FATAL_ERROR\<rparr>)
         | Sent n \<Rightarrow>
             if n = length (hu_w u)
             then (int n, (hu_ApplyEvents (u\<lparr>hu_w := drop n (hu_w u), hu_new_out := False\<rparr>))
                    \<lparr>hu_stage := CONN_SEND_DONE, hu_errors := 0\<rparr>)
             else if n < length (hu_w u)
             then (int n, (hu_ApplyEvents (u\<lparr>hu_new_out := True\<rparr>))
                    \<lparr>hu_w := drop n (hu_w u), hu_stage := CONN_DATA_SENDING, hu_errors := 0\<rparr>)
             else (int n, (hu_ApplyEvents (hu_events False False u))\<lparr>hu_stage := CONN_FATAL_ERROR\<rparr>))
      else (0, u))"

text \<open>The two overloads of \<open>send_to_logic\<close>; the first one also attaches the timer.\<close>

definition send_to_logic :: "connect_result \<Rightarrow> bool \<Rightarrow> send_result \<Rightarrow> helper_unit \<Rightarrow> int \<times> helper_unit" where
  "send_to_logic c slot res u =
     (let (r, u1) = hu_connect c slot (u\<lparr>hu_new_in := True\<rparr>)
      in if r < 0 then (- 1, reset_helper u1) else send_to_cgi res u1)"

section \<open>Receiving\<close>

definition pay_res :: "'v helper_env \<Rightarrow> base_packet \<Rightarrow> int option" where
  "pay_res env pack = do {
     (code, p1) \<leftarrow> ReadByte pack;
     (json, p2) \<leftarrow> ReadString p1;
     (ret, err, result) \<leftarrow>
       (case j_parse (he_json env) json of
          None \<Rightarrow> Some (- 1, 1, [])
        | Some v \<Rightarrow> do {
            flow \<leftarrow> j_uint64 (he_json env) v ''flow'';
            result \<leftarrow> j_string (he_json env) v ''result'';
            Some (0, 0, result) });
     o1 \<leftarrow> out_Begin SERVER_CMD_REP 1 1 (he_out env);
     (_, o2) \<leftarrow> WriteInt err o1;
     (_, o3) \<leftarrow> WriteString result o2;
     o4 \<leftarrow> out_End o3;
     (_, o5) \<leftarrow> EncryptBuffer o4;
     Some ret }"

definition worker_stat_chk :: "base_packet \<Rightarrow> helper_state \<Rightarrow> helper_state option" where
  "worker_stat_chk pack s = do {
     cmd \<leftarrow> GetCmdType pack;
     (len, p1) \<leftarrow> ReadInt pack;
     (ctime, p2) \<leftarrow> ReadInt p1;
     Some (if cmd = INTER_CMD_WAITER_STAT_RES
           then s\<lparr>switch := (switch s)\<lparr>w_is_busyed := len > SVR_MAX_W_QLEN\<rparr>,
                  stat := (stat s)\<lparr>w_qlen := word_of_int len, w_ctime := word_of_int ctime\<rparr>\<rparr>
           else if cmd = INTER_CMD_NOTIFY_STAT_RES
           then s\<lparr>switch := (switch s)\<lparr>n_is_busyed := len > SVR_MAX_N_QLEN\<rparr>,
                  stat := (stat s)\<lparr>n_qlen := word_of_int len, n_ctime := word_of_int ctime\<rparr>\<rparr>
           else s) }"

definition hu_skip :: "nat \<Rightarrow> helper_state \<Rightarrow> helper_state" where
  "hu_skip n s = s\<lparr>hu := (hu s)\<lparr>hu_r := drop n (hu_r (hu s))\<rparr>\<rparr>"

text \<open>One turn of the loop of \<open>process_pkg\<close>: the result of the function, or the state the loop goes on with.\<close>

datatype turn = Return int helper_state | Again helper_state

definition pkg_turn :: "'v helper_env \<Rightarrow> helper_state \<Rightarrow> turn option" where
  "pkg_turn env s =
     (let r = hu_r (hu s)
      in if r = [] \<or> length r < 9 then Some (Return 0 s)
         else (let contenLen = unat (htons (word_le (take 2 r)))
               in if contenLen > 10 * 1024 then Some (Return (- 1) s)
                  else (let pkglen = 2 + contenLen
                        in if length r < pkglen then Some (Return 0 s)
                           else do {
                             (_, p1) \<leftarrow> Copy r (int pkglen) (he_in env);
                             nCmd \<leftarrow> GetCmdType p1;
                             (_, p2) \<leftarrow> DecryptBuffer p1;
                             if \<not> he_pool env then Some (Again s)
                             else if nCmd = INTER_CMD_RES then do {
                               _ \<leftarrow> pay_res env p2;
                               Some (Again (hu_skip pkglen s)) }
                             else if nCmd = INTER_CMD_WAITER_STAT_RES \<or> nCmd = INTER_CMD_NOTIFY_STAT_RES then do {
                               s1 \<leftarrow> worker_stat_chk p2 s;
                               Some (Again (hu_skip pkglen s1)) }
                             else Some (Again s) })))"

partial_function (option) process_pkg :: "'v helper_env \<Rightarrow> helper_state \<Rightarrow> (int \<times> helper_state) option" where
  "process_pkg env s =
     Option.bind (pkg_turn env s)
       (\<lambda>t. case t of Return r s1 \<Rightarrow> Some (r, s1) | Again s1 \<Rightarrow> process_pkg env s1)"

definition recv_from_cgi ::
    "'v helper_env \<Rightarrow> recv_result \<Rightarrow> connect_result \<Rightarrow> bool \<Rightarrow> helper_state \<Rightarrow> (int \<times> helper_state) option" where
  "recv_from_cgi env res c slot s =
     (case res of
        RecvRetry \<Rightarrow> Some (0, s\<lparr>hu := (hu s)\<lparr>hu_stage := CONN_DATA_RECVING\<rparr>\<rparr>)
      | RecvFail \<Rightarrow> Some (- 1, s\<lparr>hu := (hu s)\<lparr>hu_stage := CONN_FATAL_ERROR\<rparr>\<rparr>)
      | Received buf \<Rightarrow>
          if buf = [] then
            (let (_, u) = reConnect c slot ((hu s)\<lparr>hu_stage := CONN_DISCONNECT\<rparr>) in Some (- 1, s\<lparr>hu := u\<rparr>))
          else do {
            (r, s1) \<leftarrow> process_pkg env (s\<lparr>hu := (hu s)\<lparr>hu_r := hu_r (hu s) @ buf\<rparr>\<rparr>);
            if r < 0 then Some (- 1, s1)
            else Some (int (length buf), s1\<lparr>hu := (hu s1)\<lparr>hu_stage := CONN_RECV_DONE\<rparr>\<rparr>) })"

section \<open>Callbacks\<close>

definition hu_InputNotify ::
    "'v helper_env \<Rightarrow> recv_result \<Rightarrow> connect_result \<Rightarrow> bool \<Rightarrow> helper_state \<Rightarrow> (poller_state \<times> helper_state) option" where
  "hu_InputNotify env res c slot s = do {
     (ret, s1) \<leftarrow> recv_from_cgi env res c slot s;
     Some (if ret < 0 then (POLLER_COMPLETE, s1\<lparr>hu := reset_helper (hu s1)\<rparr>) else (POLLER_SUCC, s1)) }"

definition hu_OutputNotify :: "send_result \<Rightarrow> helper_state \<Rightarrow> poller_state \<times> helper_state" where
  "hu_OutputNotify res s = (POLLER_SUCC, s\<lparr>hu := snd (send_to_cgi res (hu s))\<rparr>)"

definition hu_HangupNotify :: "'v helper_env \<Rightarrow> helper_state \<Rightarrow> (poller_state \<times> helper_state) option" where
  "hu_HangupNotify env s = do {
     (_, s1) \<leftarrow> process_pkg env s;
     Some (POLLER_COMPLETE, s1\<lparr>hu := reset_helper (hu s1)\<rparr>) }"

definition hu_TimerNotify :: "helper_state \<Rightarrow> helper_state" where
  "hu_TimerNotify s = s\<lparr>hu := reset_helper (hu s)\<rparr>"
section \<open>The packets of the logic server\<close>

definition helper_env_ok :: "'v helper_env \<Rightarrow> bool" where
  "helper_env_ok env \<longleftrightarrow> length (m_strBuf (he_in env)) = 8192 \<and> he_pool env"

lemma frame_content_length:
  assumes "length body \<le> 8183"
  shows "unat (htons (word_le (take 2 (frame cmd body @ rest)) :: u16)) = length body + 7"
proof -
  have len: "take 2 (frame cmd body @ rest) = be 2 (of_nat (length body + 7) :: u16)"
    by (simp add: frame_take_len)
  have "unat (of_nat (length body + 7) :: u16) = length body + 7"
    using assms by (intro unat_of_nat16) simp
  then show ?thesis unfolding len htons_be .
qed

lemma frame_not_Nil: "frame cmd body \<noteq> []"
  by (simp add: frame_def frame_head_def be_def)

text \<open>A complete packet at the head of the receive buffer reaches the \<open>switch\<close> with its body readable.\<close>

lemma turn_frame:
  assumes env: "helper_env_ok env" and len: "length body \<le> 8183" and r: "hu_r (hu s) = frame cmd body @ rest"
  obtains p where "pk_wf p" "pk_rest p = body" "GetCmdType p = Some cmd"
    "pkg_turn env s =
       (if cmd = INTER_CMD_RES then do { _ \<leftarrow> pay_res env p; Some (Again (hu_skip (9 + length body) s)) }
        else if cmd = INTER_CMD_WAITER_STAT_RES \<or> cmd = INTER_CMD_NOTIFY_STAT_RES
        then do { s1 \<leftarrow> worker_stat_chk p s; Some (Again (hu_skip (9 + length body) s1)) }
        else Some (Again s))"
proof -
  have B: "9 + length body \<le> length (m_strBuf (he_in env))" "length (m_strBuf (he_in env)) \<le> 32768"
    using env len by (simp_all add: helper_env_ok_def)
  obtain q p where q: "Copy (frame cmd body @ rest) (int (9 + length body)) (he_in env) = Some (True, q)"
    "GetCmdType q = Some cmd" "GetBodyLength q = Some (of_nat (length body + 7))"
    "DecryptBuffer q = Some (int (length body), p)" "GetCmdType p = Some cmd" "pk_wf p"
    "pk_rest p = body" "m_nPacketSize p = 9 + int (length body)" "m_nBufPos p = 9"
    "m_strBuf p = frame_head cmd body @ body @
       replicate (length (m_strBuf (he_in env)) - (9 + length body)) 0"
    by (rule receive_frame [OF B])
  have pool: "he_pool env" using env by (simp add: helper_env_ok_def)
  have sz: "2 + (length body + 7) = 9 + length body" by simp
  have ne: "frame cmd body \<noteq> []" "\<not> length (frame cmd body @ rest) < 9"
    "\<not> length body + 7 > 10 * 1024" "\<not> length (frame cmd body @ rest) < 9 + length body"
    using len length_frame [of cmd body] frame_not_Nil by auto
  have "pkg_turn env s =
       (if cmd = INTER_CMD_RES then do { _ \<leftarrow> pay_res env p; Some (Again (hu_skip (9 + length body) s)) }
        else if cmd = INTER_CMD_WAITER_STAT_RES \<or> cmd = INTER_CMD_NOTIFY_STAT_RES
        then do { s1 \<leftarrow> worker_stat_chk p s; Some (Again (hu_skip (9 + length body) s1)) }
        else Some (Again s))"
    unfolding pkg_turn_def Let_def r frame_content_length [OF len] sz q(1) bind.bind_lunit prod.case
    using q(2,4) pool ne by simp
  with q(6,7,5) show thesis by (rule that)
qed

text \<open>The loop makes no progress when a turn gives back its own state.\<close>

lemma process_pkg_turns: "process_pkg env s = Some x \<Longrightarrow> pkg_turn env s \<noteq> Some (Again s)"
  by (erule process_pkg.raw_induct [rotated]) (auto split: bind_splits turn.splits)

lemma process_pkg_stuck: "pkg_turn env s = Some (Again s) \<Longrightarrow> process_pkg env s = None"
  using process_pkg_turns [of env s] by (cases "process_pkg env s") auto

text \<open>What a status packet does.\<close>

datatype status = Waiter u32 u32 | Notifier u32 u32

fun status_cmd :: "status \<Rightarrow> u16" where
  "status_cmd (Waiter len ctime) = INTER_CMD_WAITER_STAT_RES"
| "status_cmd (Notifier len ctime) = INTER_CMD_NOTIFY_STAT_RES"

fun status_body :: "status \<Rightarrow> byte list" where
  "status_body (Waiter len ctime) = be 4 len @ be 4 ctime"
| "status_body (Notifier len ctime) = be 4 len @ be 4 ctime"

fun report :: "status \<Rightarrow> helper_state \<Rightarrow> helper_state" where
  "report (Waiter len ctime) s = s\<lparr>switch := (switch s)\<lparr>w_is_busyed := sint len > 1024\<rparr>,
     stat := (stat s)\<lparr>w_qlen := len, w_ctime := ctime\<rparr>\<rparr>"
| "report (Notifier len ctime) s = s\<lparr>switch := (switch s)\<lparr>n_is_busyed := sint len > 1024\<rparr>,
     stat := (stat s)\<lparr>n_qlen := len, n_ctime := ctime\<rparr>\<rparr>"

lemma hu_report [simp]: "hu (report x s) = hu s"
  by (cases x) simp_all

lemma report_hu [simp]: "report x (s\<lparr>hu := u\<rparr>) = (report x s)\<lparr>hu := u\<rparr>"
  by (cases x) simp_all

lemma fold_report_hu: "fold report xs (s\<lparr>hu := u\<rparr>) = (fold report xs s)\<lparr>hu := u\<rparr>"
  by (induction xs arbitrary: s) simp_all

lemma hu_fold_report: "hu (fold report xs s) = hu s"
  by (induction xs arbitrary: s) simp_all

lemma worker_stat_chk_ok:
  assumes wf: "pk_wf p" and rest: "pk_rest p = status_body x" and cmd: "GetCmdType p = Some (status_cmd x)"
  shows "worker_stat_chk p s = Some (report x s)"
proof -
  obtain len ctime where b: "status_body x = be 4 len @ be 4 ctime"
    "x = Waiter len ctime \<or> x = Notifier len ctime"
    by (cases x) auto
  obtain p1 where p1: "ReadInt p = Some (sint len, p1)" "pk_wf p1" "pk_rest p1 = be 4 ctime"
    by (rule ReadInt_ok [OF wf rest [unfolded b(1)]])
  have "pk_rest p1 = be 4 ctime @ []" using p1(3) by simp
  then obtain p2 where p2: "ReadInt p1 = Some (sint ctime, p2)"
    by (rule ReadInt_ok [OF p1(2)])
  from b(2) cmd show ?thesis
    by (auto simp: worker_stat_chk_def p1(1) p2 INTER_CMD_WAITER_STAT_RES_def INTER_CMD_NOTIFY_STAT_RES_def
        SVR_MAX_W_QLEN_def SVR_MAX_N_QLEN_def)
qed

definition status_frame :: "status \<Rightarrow> byte list" where
  "status_frame x = frame (status_cmd x) (status_body x)"

lemma length_status_body: "length (status_body x) = 8"
  by (cases x) simp_all

lemma length_status_frame [simp]: "length (status_frame x) = 17"
  by (simp add: status_frame_def length_status_body)

lemma status_turn:
  assumes "helper_env_ok env" and "hu_r (hu s) = status_frame x @ rest"
  shows "pkg_turn env s = Some (Again (hu_skip 17 (report x s)))"
proof -
  have r: "hu_r (hu s) = frame (status_cmd x) (status_body x) @ rest"
    using assms(2) by (simp add: status_frame_def)
  have len: "length (status_body x) \<le> 8183" by (simp add: length_status_body)
  obtain p where p: "pk_wf p" "pk_rest p = status_body x" "GetCmdType p = Some (status_cmd x)"
    "pkg_turn env s =
       (if status_cmd x = INTER_CMD_RES
        then do { _ \<leftarrow> pay_res env p; Some (Again (hu_skip (9 + length (status_body x)) s)) }
        else if status_cmd x = INTER_CMD_WAITER_STAT_RES \<or> status_cmd x = INTER_CMD_NOTIFY_STAT_RES
        then do { s1 \<leftarrow> worker_stat_chk p s; Some (Again (hu_skip (9 + length (status_body x)) s1)) }
        else Some (Again s))"
    by (rule turn_frame [OF assms(1) len r])
  have "status_cmd x \<noteq> INTER_CMD_RES" "status_cmd x = INTER_CMD_WAITER_STAT_RES \<or> status_cmd x = INTER_CMD_NOTIFY_STAT_RES"
    by (cases x; simp add: INTER_CMD_RES_def INTER_CMD_WAITER_STAT_RES_def INTER_CMD_NOTIFY_STAT_RES_def)+
  then show ?thesis using p(4) worker_stat_chk_ok [OF p(1,2,3), of s] by (simp add: length_status_body)
qed

lemma status_packets_done:
  assumes "helper_env_ok env" and "length rest < 9" and "hu_r (hu s) = concat (map status_frame xs) @ rest"
  shows "process_pkg env s = Some (0, fold report xs (s\<lparr>hu := (hu s)\<lparr>hu_r := rest\<rparr>\<rparr>))"
  using assms(3)
proof (induction xs arbitrary: s)
  case Nil
  then have "pkg_turn env s = Some (Return 0 s)" using assms(2) by (simp add: pkg_turn_def Let_def)
  then show ?case using Nil by (subst process_pkg.simps) simp
next
  case (Cons x xs)
  have r: "hu_r (hu s) = status_frame x @ concat (map status_frame xs) @ rest" using Cons.prems by simp
  let ?s1 = "hu_skip 17 (report x s)"
  have "hu_r (hu ?s1) = concat (map status_frame xs) @ rest" using r by (simp add: hu_skip_def)
  from Cons.IH [OF this] status_turn [OF assms(1) r] show ?case
    by (subst process_pkg.simps) (simp add: hu_skip_def fold_report_hu)
qed
text \<open>
  C20: Any number of status packets followed by less than a packet header is processed to the end: the
  loop of \<open>process_pkg\<close> returns 0, the statistics and the switches are those of the last packet of each kind
  (a queue longer than 1024 is busy), and the incomplete bytes stay in the buffer.
\<close>

theorem status_packets_processed:
  assumes "helper_env_ok env" and "length rest < 9" and "hu_r (hu s) = concat (map status_frame xs) @ rest"
  shows "process_pkg env s = Some (0, fold report xs (s\<lparr>hu := (hu s)\<lparr>hu_r := rest\<rparr>\<rparr>))"
  using assms by (rule status_packets_done)

definition ex_helper_env :: "unit helper_env" where
  "ex_helper_env = \<lparr>he_json = \<lparr>j_parse = \<lambda>_. None, j_uint64 = \<lambda>_ _. None, j_int64 = \<lambda>_ _. None, j_int = \<lambda>_ _. None,
       j_string = \<lambda>_ _. None\<rparr>,
     he_in = \<lparr>m_strBuf = replicate 8192 0, m_nPacketSize = 0, m_nBufPos = 0\<rparr>,
     he_out = \<lparr>m_strBuf = replicate 8192 0, m_nPacketSize = 0, m_nBufPos = 0, m_isCheckCode = False\<rparr>,
     he_pool = True\<rparr>"

definition ex_helper :: "byte list \<Rightarrow> helper_state" where
  "ex_helper r = \<lparr>hu = new_helper_unit\<lparr>hu_r := r\<rparr>,
     stat = \<lparr>w_qlen = 0, n_qlen = 0, w_ctime = 0, n_ctime = 0\<rparr>,
     switch = \<lparr>w_is_busyed = False, n_is_busyed = False\<rparr>\<rparr>"

lemma ex_helper_env_ok: "helper_env_ok ex_helper_env"
  by (simp add: helper_env_ok_def ex_helper_env_def)

theorem status_packets_processed_witness:
  "process_pkg ex_helper_env (ex_helper (status_frame (Waiter 2000 7) @ status_frame (Notifier 3 8) @ [0])) =
     Some (0, \<lparr>hu = new_helper_unit\<lparr>hu_r := [0]\<rparr>, stat = \<lparr>w_qlen = 2000, n_qlen = 3, w_ctime = 7, n_ctime = 8\<rparr>,
       switch = \<lparr>w_is_busyed = True, n_is_busyed = False\<rparr>\<rparr>)"
  using status_packets_processed [of ex_helper_env "[0]"
      "ex_helper (status_frame (Waiter 2000 7) @ status_frame (Notifier 3 8) @ [0])" "[Waiter 2000 7, Notifier 3 8]"]
  by (simp add: ex_helper_env_ok ex_helper_def new_helper_unit_def)

text \<open>
  C33: A complete packet whose command is none of the three that \<open>process_pkg\<close> knows is neither consumed
  nor answered, and the loop never returns: one such packet from a logic server hangs the whole server.
\<close>

theorem unknown_command_spins:
  assumes "helper_env_ok env" and "length body \<le> 8183" and "hu_r (hu s) = frame cmd body @ rest"
    and "cmd \<notin> {INTER_CMD_RES, INTER_CMD_WAITER_STAT_RES, INTER_CMD_NOTIFY_STAT_RES}"
  shows "process_pkg env s = None"
  using turn_frame [OF assms(1,2,3)] assms(4) by (auto intro: process_pkg_stuck)

theorem unknown_command_spins_witness:
  "process_pkg ex_helper_env (ex_helper (frame 0x1234 [1, 2, 3])) = None"
  by (rule unknown_command_spins [where cmd = "0x1234" and body = "[1, 2, 3]" and rest = "[]"])
    (simp_all add: ex_helper_env_ok ex_helper_def INTER_CMD_RES_def INTER_CMD_WAITER_STAT_RES_def
      INTER_CMD_NOTIFY_STAT_RES_def)

end
