(* ===== verification/GameUnit.thy ===== *)
theory GameUnit
  imports ClientProps HelperUnit
begin

text \<open>
  The connection to a game server: \<open>CGameUnit\<close> (\<open>proxy/game_unit.h\<close>, \<open>game_unit.cpp\<close>). Each client
  has one; what the game server sends is passed on to the client. The state is the unit and the client it
  belongs to (\<open>ClientConn\<close>); the client's \<open>CClientUnit\<close> exists as long as the game unit does. \<open>complete\<close>
  destroys client and game unit; \<open>alive\<close> tells whether they still exist. The results of the system calls are
  arguments, as in \<open>HelperUnit\<close>.
\<close>

section \<open>State\<close>

definition SERVER_COMMAND_LOGOUT_SUCCESS :: u16 where "SERVER_COMMAND_LOGOUT_SUCCESS = 0x2013"
definition SERVER_COMMAND_CHANGE_GAMESERVER :: u16 where "SERVER_COMMAND_CHANGE_GAMESERVER = 0x7213"

record game_unit =
  g_stage :: conn_state
  g_errors :: int
  g_r :: "byte list"
  g_w :: "byte list"
  g_fd :: int
  g_attached :: bool
  g_new_in :: bool
  g_new_out :: bool
  g_old_in :: bool
  g_old_out :: bool
  g_addr :: "byte list"
  g_port :: int
  g_tid :: int

record ('c, 'd) game_state =
  gu :: game_unit
  client :: "('c, 'd) server"
  alive :: bool

definition no_addr :: "byte list" where "no_addr = bytes_of ''0.0.0.0''"

definition new_game_unit :: game_unit where
  "new_game_unit = \<lparr>g_stage = CONN_IDLE, g_errors = 0, g_r = [], g_w = [], g_fd = 0, g_attached = False,
     g_new_in = False, g_new_out = False, g_old_in = False, g_old_out = False,
     g_addr = no_addr, g_port = 0, g_tid = 0\<rparr>"

definition g_events :: "bool \<Rightarrow> bool \<Rightarrow> game_unit \<Rightarrow> game_unit" where
  "g_events i out u = u\<lparr>g_new_in := i, g_new_out := out\<rparr>"

definition g_ApplyEvents :: "game_unit \<Rightarrow> game_unit" where
  "g_ApplyEvents u = (if g_attached u then u\<lparr>g_old_in := g_new_in u, g_old_out := g_new_out u\<rparr> else u)"

definition g_append_pkg :: "byte list \<Rightarrow> game_unit \<Rightarrow> game_unit" where
  "g_append_pkg buf u = u\<lparr>g_w := g_w u @ buf\<rparr>"

definition g_reset :: "game_unit \<Rightarrow> game_unit" where
  "g_reset u = (g_ApplyEvents (g_events False False (u\<lparr>g_w := [], g_r := []\<rparr>)))
     \<lparr>g_attached := False, g_fd := - 1, g_stage := CONN_IDLE, g_tid := 0, g_addr := no_addr, g_port := 0\<rparr>"

section \<open>Connecting and sending\<close>

definition g_attach :: "bool \<Rightarrow> game_unit \<Rightarrow> int \<times> game_unit" where
  "g_attach slot u =
     (if g_attached u then (0, g_ApplyEvents u)
      else if slot \<and> g_fd u \<ge> 0 then (0, u\<lparr>g_attached := True, g_old_in := g_new_in u, g_old_out := g_new_out u\<rparr>)
      else (- 1, u))"

definition g_reConnect :: "connect_result \<Rightarrow> bool \<Rightarrow> game_unit \<Rightarrow> int \<times> game_unit" where
  "g_reConnect c slot u =
     (case c of
        ConnectFailed fd \<Rightarrow> (- 1, u\<lparr>g_fd := fd\<rparr>)
      | InProgress fd \<Rightarrow> g_attach slot (u\<lparr>g_fd := fd, g_stage := CONN_CONNECTING\<rparr>)
      | Connected fd \<Rightarrow> g_attach slot (u\<lparr>g_fd := fd, g_stage := CONN_CONNECTED\<rparr>))"

definition g_connect :: "connect_result \<Rightarrow> bool \<Rightarrow> game_unit \<Rightarrow> int \<times> game_unit" where
  "g_connect c slot u =
     (if g_stage u = CONN_IDLE \<or> g_fd u < 0
      then (case c of
              Connected fd \<Rightarrow> g_attach slot (u\<lparr>g_fd := fd, g_stage := CONN_CONNECTED\<rparr>)
            | InProgress fd \<Rightarrow> (- 1, u\<lparr>g_fd := fd\<rparr>)
            | ConnectFailed fd \<Rightarrow> (- 1, u\<lparr>g_fd := fd\<rparr>))
      else g_attach slot (u\<lparr>g_stage := CONN_CONNECTED\<rparr>))"

definition g_send_to_cgi :: "send_result \<Rightarrow> game_unit \<Rightarrow> int \<times> game_unit" where
  "g_send_to_cgi res u =
     (if g_w u \<noteq> [] then
        (case res of
           SendRetry \<Rightarrow>
             (let u1 = u\<lparr>g_errors := g_errors u + 1\<rparr>
              in if g_errors u1 \<ge> 50 then (- 1, (g_reset u1)\<lparr>g_stage := CONN_FATAL_ERROR\<rparr>)
                 else (CONN_DATA_SENDING_int, g_ApplyEvents (u1\<lparr>g_new_out := True\<rparr>)))
         | SendFail \<Rightarrow> (- 1, (g_reset u)\<lparr>g_stage := CONN_FATAL_ERROR\<rparr>)
         | Sent n \<Rightarrow>
             if n = length (g_w u)
             then (int n, (g_ApplyEvents (u\<lparr>g_w := drop n (g_w u), g_new_out := False\<rparr>))
                    \<lparr>g_stage := CONN_SEND_DONE, g_errors := 0\<rparr>)
             else if n < length (g_w u)
             then (int n, (g_ApplyEvents (u\<lparr>g_new_out := True\<rparr>))
                    \<lparr>g_w := drop n (g_w u), g_errors := 0, g_stage := CONN_DATA_SENDING\<rparr>)
             else (int n, (g_ApplyEvents (g_events False False u))\<lparr>g_stage := CONN_FATAL_ERROR\<rparr>))
      else (0, u))"

definition g_send_to_logic :: "connect_result \<Rightarrow> bool \<Rightarrow> send_result \<Rightarrow> game_unit \<Rightarrow> int \<times> game_unit" where
  "g_send_to_logic c slot res u =
     (let (r, u1) = g_connect c slot (u\<lparr>g_new_in := True\<rparr>)
      in if r < 0 then (- 1, g_reset u1) else g_send_to_cgi res u1)"

section \<open>Passing packets on\<close>

definition g_skip :: "nat \<Rightarrow> ('c, 'd) game_state \<Rightarrow> ('c, 'd) game_state" where
  "g_skip n s = s\<lparr>gu := (gu s)\<lparr>g_r := drop n (g_r (gu s))\<rparr>\<rparr>"

text \<open>
  One packet of the loop of \<open>process_pkg\<close>, at the head of the receive buffer and \<open>pkglen\<close> bytes long: \<open>Inl\<close> is the
  result of the function, \<open>Inr\<close> the state the loop goes on with. \<open>e_in env\<close> is the new \<open>NETInputPacket\<close>; the
  result of \<open>Copy\<close> is not looked at.
\<close>

definition g_packet ::
    "('c, 'd, 'v) env \<Rightarrow> nat \<Rightarrow> ('c, 'd) game_state \<Rightarrow> (int \<times> ('c, 'd) game_state + ('c, 'd) game_state) option" where
  "g_packet env pkglen s = do {
     (_, p) \<leftarrow> Copy (g_r (gu s)) (int pkglen) (e_in env);
     cmd \<leftarrow> GetCmdType p;
     if stage (cu (client s)) = CONN_FATAL_ERROR then Some (Inl (- 1, s))
     else do {
       let (ret, c) = send env ((client s)\<lparr>cu := add_rsp_buf (pk_bytes p) (cu (client s))\<rparr>);
       let s1 = s\<lparr>client := c\<rparr>;
       if ret < 0 then Some (Inl (- 1, s1))
       else do {
         let s2 = g_skip pkglen s1;
         if cmd = SERVER_COMMAND_LOGOUT_SUCCESS then Some (Inl (0, s2\<lparr>gu := g_reset (gu s2)\<rparr>))
         else if cmd = SERVER_COMMAND_CHANGE_GAMESERVER then do {
           (_, p1) \<leftarrow> DecryptBuffer p;
           (uid, p2) \<leftarrow> ReadInt p1;
           (ip, p3) \<leftarrow> ReadString p2;
           (port, p4) \<leftarrow> ReadInt p3;
           Some (Inl (0, s2\<lparr>gu := (g_reset (gu s2))\<lparr>g_addr := ip, g_port := port\<rparr>\<rparr>)) }
         else Some (Inr s2) } } }"

lemma g_packet_skips:
  assumes "g_packet env n s = Some (Inr s2)"
  shows "g_r (gu s2) = drop n (g_r (gu s))"
  using assms by (auto simp: g_packet_def g_skip_def Let_def split: bind_splits prod.splits if_splits)

function g_process_pkg :: "('c, 'd, 'v) env \<Rightarrow> ('c, 'd) game_state \<Rightarrow> (int \<times> ('c, 'd) game_state) option" where
  "g_process_pkg env s =
     (let r = g_r (gu s)
      in if r = [] \<or> length r < 9 then Some (0, s)
         else (let contenLen = unat (htons (word_le (take 2 r)))
               in if contenLen > 10 * 1024 then Some (- 1, s)
                  else (let pkglen = 2 + contenLen
                        in if length r < pkglen then Some (0, s)
                           else (case g_packet env pkglen s of
                                   None \<Rightarrow> None
                                 | Some (Inl x) \<Rightarrow> Some x
                                 | Some (Inr s1) \<Rightarrow> g_process_pkg env s1))))"
  by pat_completeness auto
termination
proof (relation "measure (\<lambda>(env, s). length (g_r (gu s)))", goal_cases)
  case (2 env s x xa xb a)
  then show ?case by (simp add: g_packet_skips)
qed simp

declare g_process_pkg.simps [simp del]

definition g_recv_from_cgi ::
    "('c, 'd, 'v) env \<Rightarrow> recv_result \<Rightarrow> ('c, 'd) game_state \<Rightarrow> (int \<times> ('c, 'd) game_state) option" where
  "g_recv_from_cgi env res s =
     (case res of
        RecvRetry \<Rightarrow> Some (0, s\<lparr>gu := (gu s)\<lparr>g_stage := CONN_DATA_RECVING\<rparr>\<rparr>)
      | RecvFail \<Rightarrow> Some (- 1, s\<lparr>gu := (gu s)\<lparr>g_stage := CONN_FATAL_ERROR\<rparr>\<rparr>)
      | Received buf \<Rightarrow>
          if buf = [] then Some (- 1, s\<lparr>gu := (gu s)\<lparr>g_stage := CONN_DISCONNECT\<rparr>\<rparr>)
          else do {
            (r, s1) \<leftarrow> g_process_pkg env (s\<lparr>gu := (gu s)\<lparr>g_r := g_r (gu s) @ buf\<rparr>\<rparr>);
            if r < 0 then Some (- 1, s1)
            else Some (int (length buf), s1\<lparr>gu := (gu s1)\<lparr>g_stage := CONN_RECV_DONE\<rparr>\<rparr>) })"

section \<open>Callbacks\<close>

text \<open>\<open>reset_helper\<close> and \<open>_decoderunit->complete()\<close>.\<close>

definition g_complete :: "('c, 'd, 'v) env \<Rightarrow> ('c, 'd) game_state \<Rightarrow> ('c, 'd) game_state" where
  "g_complete env s = s\<lparr>gu := g_reset (gu s), client := complete env (client s), alive := False\<rparr>"

definition g_InputNotify ::
    "('c, 'd, 'v) env \<Rightarrow> recv_result \<Rightarrow> ('c, 'd) game_state \<Rightarrow> (poller_state \<times> ('c, 'd) game_state) option" where
  "g_InputNotify env res s = do {
     (ret, s1) \<leftarrow> g_recv_from_cgi env res s;
     Some (if ret < 0 then (POLLER_COMPLETE, g_complete env s1) else (POLLER_SUCC, s1)) }"

definition g_OutputNotify ::
    "('c, 'd, 'v) env \<Rightarrow> send_result \<Rightarrow> ('c, 'd) game_state \<Rightarrow> poller_state \<times> ('c, 'd) game_state" where
  "g_OutputNotify env res s =
     (let (ret, u) = g_send_to_cgi res (gu s); s1 = s\<lparr>gu := u\<rparr>
      in (POLLER_SUCC, if ret < 0 then g_complete env s1 else s1))"

definition g_HangupNotify ::
    "('c, 'd, 'v) env \<Rightarrow> ('c, 'd) game_state \<Rightarrow> (poller_state \<times> ('c, 'd) game_state) option" where
  "g_HangupNotify env s = do { (_, s1) \<leftarrow> g_process_pkg env s; Some (POLLER_COMPLETE, g_complete env s1) }"

definition g_TimerNotify :: "('c, 'd, 'v) env \<Rightarrow> ('c, 'd) game_state \<Rightarrow> ('c, 'd) game_state" where
  "g_TimerNotify env s = g_complete env s"

definition GetClientUid :: "('c, 'd) game_state \<Rightarrow> int" where
  "GetClientUid s = uid (cu (client s))"

section \<open>What the client gets\<close>

definition pkt_cmd :: "byte list \<Rightarrow> u16" where
  "pkt_cmd f = htons (word_le (take 2 (drop 6 f)))"

text \<open>A packet of a length the buffers take, with a command that is passed on and nothing more.\<close>

definition relayed :: "byte list \<Rightarrow> bool" where
  "relayed f \<longleftrightarrow> 9 \<le> length f \<and> length f \<le> 8192 \<and> 2 + unat (htons (word_le (take 2 f)) :: u16) = length f \<and>
     pkt_cmd f \<notin> {SERVER_COMMAND_LOGOUT_SUCCESS, SERVER_COMMAND_CHANGE_GAMESERVER}"

text \<open>The beginning of a packet of which more has to come.\<close>

definition incomplete :: "byte list \<Rightarrow> bool" where
  "incomplete r \<longleftrightarrow> length r < 9 \<or>
     unat (htons (word_le (take 2 r)) :: u16) \<le> 10 * 1024 \<and> length r < 2 + unat (htons (word_le (take 2 r)) :: u16)"

definition reply_stream :: "('c, 'd) server \<Rightarrow> byte list" where
  "reply_stream s = wire s @ wbuf (cu s)"

lemma send_stream:
  assumes "send env s = (r, s')" and "0 \<le> r"
  shows "reply_stream s' = reply_stream s" "stage (cu s') \<noteq> CONN_FATAL_ERROR"
proof -
  have ne: "wbuf (cu s) \<noteq> []" using assms send_empty [of s env] by auto
  let ?x = "send_step (e_send env (sends s)) (cu s)"
  have "0 \<le> fst ?x" using assms send_nonempty [OF ne, of env] by simp
  then obtain n where n: "wbuf (snd ?x) = drop n (wbuf (cu s))"
    "stage (snd ?x) = (if drop n (wbuf (cu s)) = [] then CONN_SEND_DONE else CONN_DATA_SENDING)"
    "n = (case e_send env (sends s) of Sent k \<Rightarrow> k | _ \<Rightarrow> 0)"
    by (rule send_step_ok) simp
  show "reply_stream s' = reply_stream s"
    using assms(1) n(1,3) send_nonempty [OF ne, of env] by (auto simp: reply_stream_def split: send_result.splits)
  show "stage (cu s') \<noteq> CONN_FATAL_ERROR"
    using assms(1) n(2) send_nonempty [OF ne, of env] by (auto split: if_splits)
qed

lemma send_fails: "send env s = (r, s') \<Longrightarrow> r < 0 \<Longrightarrow> stage (cu s') = CONN_FATAL_ERROR \<and> r = - 1"
  by (auto simp: send_def send_step_def send_failed_def Let_def CONN_DATA_SENDING_int_def
      split: if_splits send_result.splits prod.splits)

lemma g_packet_relays:
  assumes env: "length (m_strBuf (e_in env)) = 8192" and f: "relayed f" and r: "g_r (gu s) = f @ rest"
    and st: "stage (cu (client s)) \<noteq> CONN_FATAL_ERROR"
  shows "g_packet env (length f) s =
    (let (ret, c) = send env ((client s)\<lparr>cu := add_rsp_buf f (cu (client s))\<rparr>)
     in Some (if ret < 0 then Inl (- 1, s\<lparr>client := c\<rparr>) else Inr (g_skip (length f) (s\<lparr>client := c\<rparr>))))"
proof -
  define q where "q = (e_in env)\<lparr>m_strBuf := f @ replicate (8192 - length f) 0,
     m_nPacketSize := int (length f), m_nBufPos := 9\<rparr>"
  have l: "9 \<le> length f" "length f \<le> length (m_strBuf (e_in env))" using f env by (simp_all add: relayed_def)
  have copy: "Copy (f @ rest) (int (length f)) (e_in env) = Some (True, q)"
    using Copy_ok [OF l(2), of rest] env by (simp add: q_def)
  have cmd: "GetCmdType q = Some (pkt_cmd f)"
    using l(1) by (subst GetCmdType_eq) (simp_all add: q_def pkt_cmd_def)
  have bytes: "pk_bytes q = f" by (simp add: pk_bytes_def q_def)
  show ?thesis
    using st f by (simp add: g_packet_def r copy cmd bytes relayed_def Let_def split: prod.splits)
qed

lemma relay_ok:
  assumes env: "length (m_strBuf (e_in env)) = 8192" and rest: "incomplete rest"
  shows "list_all relayed fs \<Longrightarrow> g_r (gu s) = concat fs @ rest \<Longrightarrow> stage (cu (client s)) \<noteq> CONN_FATAL_ERROR \<Longrightarrow>
    \<exists>r s'. g_process_pkg env s = Some (r, s') \<and>
      (r = 0 \<and> reply_stream (client s') = reply_stream (client s) @ concat fs \<and> g_r (gu s') = rest \<or>
       r = - 1 \<and> stage (cu (client s')) = CONN_FATAL_ERROR)"
proof (induction fs arbitrary: s)
  case Nil
  then show ?case using rest by (subst g_process_pkg.simps) (auto simp: Let_def incomplete_def)
next
  case (Cons f fs)
  let ?c0 = "(client s)\<lparr>cu := add_rsp_buf f (cu (client s))\<rparr>"
  obtain ret c where sd: "send env ?c0 = (ret, c)" by (cases "send env ?c0")
  have f: "relayed f" and fs: "list_all relayed fs" using Cons.prems(1) by simp_all
  have r: "g_r (gu s) = f @ concat fs @ rest" using Cons.prems(2) by simp
  note pkt = g_packet_relays [OF env f r Cons.prems(3)]
  have l: "9 \<le> length f" "length f \<le> 8192" and len: "2 + unat (htons (word_le (take 2 (g_r (gu s)))) :: u16) = length f"
    using f by (simp_all add: relayed_def r)
  have small: "\<not> unat (htons (word_le (take 2 (g_r (gu s)))) :: u16) > 10 * 1024" using l len by simp
  have head: "\<not> (g_r (gu s) = [] \<or> length (g_r (gu s)) < 9)" "\<not> length (g_r (gu s)) < length f" using l by (auto simp: r)
  have turn: "g_process_pkg env s = (case g_packet env (length f) s of
      None \<Rightarrow> None | Some (Inl x) \<Rightarrow> Some x | Some (Inr s1) \<Rightarrow> g_process_pkg env s1)"
    by (subst g_process_pkg.simps) (simp only: Let_def len small head if_False)
  show ?case
  proof (cases "ret < 0")
    case True
    then show ?thesis using pkt sd send_fails [OF sd] turn by simp
  next
    case False
    then have st: "reply_stream c = reply_stream ?c0" "stage (cu c) \<noteq> CONN_FATAL_ERROR"
      using send_stream [OF sd] by simp_all
    let ?s1 = "g_skip (length f) (s\<lparr>client := c\<rparr>)"
    have "g_process_pkg env s = g_process_pkg env ?s1" using pkt sd turn False by simp
    moreover have "g_r (gu ?s1) = concat fs @ rest" "client ?s1 = c" using r by (simp_all add: g_skip_def)
    moreover have "reply_stream c = reply_stream (client s) @ f"
      using st(1) by (simp add: reply_stream_def add_rsp_buf_def)
    ultimately show ?thesis using Cons.IH [OF fs, of ?s1] st(2) by (auto simp: append_assoc)
  qed
qed

text \<open>
  What the game server sends is passed on: on any number of complete packets of at most 8192 bytes, none of which tells the client
  to log out or to change the server, and an incomplete one behind them, \<open>process_pkg\<close> returns; unless a send to the client fails,
  which it reports, the client's reply stream has grown by exactly these packets, in order and unchanged, and the incomplete rest
  waits in the buffer. (The two commands left out end the loop and drop what follows; larger packets, up to 10 KB, do not fit the
  packet buffer. In this program nothing connects a game unit: its \<open>send_to_logic\<close> has no caller.)
\<close>

theorem packets_relayed:
  assumes "length (m_strBuf (e_in env)) = 8192" and "incomplete rest" and "list_all relayed fs"
    and "g_r (gu s) = concat fs @ rest" and "stage (cu (client s)) \<noteq> CONN_FATAL_ERROR"
  shows "\<exists>r s'. g_process_pkg env s = Some (r, s') \<and>
    (r = 0 \<and> reply_stream (client s') = reply_stream (client s) @ concat fs \<and> g_r (gu s') = rest \<or>
     r = - 1 \<and> stage (cu (client s')) = CONN_FATAL_ERROR)"
  using relay_ok [OF assms(1,2,3,4,5)] .

definition ex_game_env :: "(unit, unit, unit) env" where
  "ex_game_env = \<lparr>e_send = (\<lambda>n. Sent 5), e_redis = \<lparr>h_connect = (\<lambda>w h p t. None), h_command = (\<lambda>w c ws. (None, w))\<rparr>,
     e_json = he_json ex_helper_env, e_in = he_in ex_helper_env, e_out = he_out ex_helper_env, e_user_close = (\<lambda>s. s)\<rparr>"

definition ex_game :: "byte list \<Rightarrow> (unit, unit) game_state" where
  "ex_game r = \<lparr>gu = new_game_unit\<lparr>g_r := r\<rparr>,
     client = \<lparr>cu = new_client_unit 5, du = \<lparr>du_id = 1, du_flag = 0, du_conn_type = CONN_OTHER\<rparr>,
       pool = \<lparr>m_cmdlist = [], m_objmap = (\<lambda>k. None), m_redis_map = []\<rparr>, db = (), wire = [], sends = 0\<rparr>,
     alive = True\<rparr>"

definition ex_packet :: "byte list" where "ex_packet = [0, 8, 0x42, 0x59, 1, 1, 0, 9, 0, 7]"

lemma ex_packet_relayed: "relayed ex_packet"
  by code_simp

theorem packets_relayed_witness:
  "\<exists>r s'. g_process_pkg ex_game_env (ex_game (ex_packet @ ex_packet @ [0])) = Some (r, s') \<and>
    (r = 0 \<and> reply_stream (client s') = reply_stream (client (ex_game (ex_packet @ ex_packet @ [0]))) @
       concat [ex_packet, ex_packet] \<and> g_r (gu s') = [0] \<or>
     r = - 1 \<and> stage (cu (client s')) = CONN_FATAL_ERROR)"
  by (rule packets_relayed)
    (simp_all add: ex_packet_relayed incomplete_def ex_game_env_def ex_helper_env_def ex_game_def new_client_unit_def)

end
