(* ===== verification/ServerUtil.thy ===== *)
theory ServerUtil
  imports Prelude
begin

text \<open>
  The helpers of the server that are about values only: \<open>TGlobal\<close> (\<open>proxy/global.cpp\<close>): choosing a logic server,
  membership, splitting a text, the bits of a byte; and \<open>GetAllocFromSid\<close> and \<open>GetRand\<close> of \<open>client_unit.cpp\<close>. A
  \<open>vector<int>\<close> is a list, reading outside of it is undefined (\<open>None\<close>), as is dividing by zero. The static counters
  are passed along. \<open>rand\<close> is the parameter \<open>random\<close>, a function of the seed.
\<close>

section \<open>Choosing a logic server\<close>

definition vec_at :: "'a list \<Rightarrow> int \<Rightarrow> 'a option" where
  "vec_at v i = (if 0 \<le> i \<and> nat i < length v then Some (v ! nat i) else None)"

text \<open>\<open>n\<close> is \<open>_loopNum\<close>.\<close>

definition LoopSvid :: "int list \<Rightarrow> int \<Rightarrow> (int \<times> int) option" where
  "LoopSvid v n =
     (let size = int (length v);
          n1 = (if n < size - 1 \<and> n \<ge> 0 then n + 1 else 0)
      in map_option (\<lambda>x. (x, n1)) (vec_at v n1))"

text \<open>\<open>n\<close> is \<open>_randCount\<close>, \<open>now\<close> the time.\<close>

definition RandomSvid :: "(u32 \<Rightarrow> nat) \<Rightarrow> u32 \<Rightarrow> int list \<Rightarrow> int \<Rightarrow> (int \<times> int) option" where
  "RandomSvid random now v n =
     (if length v = 1 then Some (v ! 0, n)
      else (let n0 = (if n > 100000000 then 0 else n)
            in if v = [] then None
               else map_option (\<lambda>x. (x, n0 + 1)) (vec_at v (int (random (now + of_int n0) mod length v)))))"

fun InWhiteList :: "int list \<Rightarrow> int \<Rightarrow> bool" where
  "InWhiteList [] x = False"
| "InWhiteList (y # v) x = (if x = y then True else InWhiteList v x)"

text \<open>The conversion of a table number to a logic server; division of C++ truncates towards 0.\<close>

definition GetAllocFromSid :: "16 word \<Rightarrow> int" where
  "GetAllocFromSid sid = (let s = sint sid in if s \<ge> 0 then s div 200 else - ((- s) div 200))"

definition GetRand :: "(u32 \<Rightarrow> nat) \<Rightarrow> u32 \<Rightarrow> int \<Rightarrow> nat \<times> int" where
  "GetRand random now n =
     (let n0 = (if n > 1000000000 then 0 else n) in (random (now + of_int n0) mod 100, n0 + 1))"

section \<open>Texts\<close>

text \<open>\<open>strtok_r\<close>: skip separators, then the token up to the next separator, which is dropped.\<close>

definition strtok :: "byte list \<Rightarrow> byte list \<Rightarrow> (byte list \<times> byte list) option" where
  "strtok sp s =
     (let s1 = dropWhile (\<lambda>c. c \<in> set sp) s
      in if s1 = [] then None
         else Some (takeWhile (\<lambda>c. c \<notin> set sp) s1, drop 1 (dropWhile (\<lambda>c. c \<notin> set sp) s1)))"

lemma strtok_shorter:
  assumes "strtok sp s = Some (t, r)"
  shows "length r < length s"
proof -
  let ?s1 = "dropWhile (\<lambda>c. c \<in> set sp) s"
  have ne: "?s1 \<noteq> []" "r = drop 1 (dropWhile (\<lambda>c. c \<notin> set sp) ?s1)"
    using assms by (auto simp: strtok_def Let_def split: if_splits)
  then have "hd ?s1 \<notin> set sp" using hd_dropWhile by blast
  then have "dropWhile (\<lambda>c. c \<notin> set sp) ?s1 = dropWhile (\<lambda>c. c \<notin> set sp) (tl ?s1)"
    using ne(1) by (cases ?s1) auto
  then have "length r \<le> length (tl ?s1)"
    using ne(2) length_dropWhile_le [of "\<lambda>c. c \<notin> set sp" "tl ?s1"] by simp
  moreover have "length (tl ?s1) < length ?s1" using ne(1) by simp
  moreover have "length ?s1 \<le> length s" by (rule length_dropWhile_le)
  ultimately show ?thesis by linarith
qed

function strtok_loop :: "byte list \<Rightarrow> byte list \<Rightarrow> byte list list" where
  "strtok_loop sp s = (case strtok sp s of None \<Rightarrow> [] | Some (t, r) \<Rightarrow> t # strtok_loop sp r)"
  by pat_completeness auto
termination by (relation "measure (\<lambda>(sp, s). length s)") (auto dest: strtok_shorter)

declare strtok_loop.simps [simp del]

definition split_str :: "byte list \<Rightarrow> byte list \<Rightarrow> byte list list \<Rightarrow> byte list list" where
  "split_str s sp v = (case strtok sp s of
     None \<Rightarrow> v
   | Some (t, r) \<Rightarrow> (v @ [t]) @ strtok_loop sp r)"

definition binary2char :: "byte \<Rightarrow> byte list" where
  "binary2char c = map (\<lambda>i. (if bit c i then 1 else 0) + 0x30) [0..<8]"

section \<open>Round robin\<close>

text \<open>The servers chosen by a number of calls in a row.\<close>

primrec loop_calls :: "nat \<Rightarrow> int list \<Rightarrow> int \<Rightarrow> int list option" where
  "loop_calls 0 v n = Some []"
| "loop_calls (Suc k) v n = do { (x, n1) \<leftarrow> LoopSvid v n; xs \<leftarrow> loop_calls k v n1; Some (x # xs) }"

lemma LoopSvid_next:
  assumes "v \<noteq> []"
  obtains k where "k < length v" "LoopSvid v n = Some (v ! k, int k)"
    "0 \<le> n \<Longrightarrow> n < int (length v) \<Longrightarrow> k = (nat n + 1) mod length v"
proof (cases "n < int (length v) - 1 \<and> n \<ge> 0")
  case True
  then have "nat n + 1 < length v" by linarith
  then show thesis using True
    by (intro that [of "nat n + 1"]) (simp_all add: LoopSvid_def vec_at_def Let_def nat_add_distrib)
next
  case False
  have "(nat n + 1) mod length v = 0" if "0 \<le> n" "n < int (length v)"
  proof -
    have "nat n + 1 = length v" using that False by linarith
    then show ?thesis by simp
  qed
  then show thesis using False assms
    by (intro that [of 0]) (auto simp: LoopSvid_def vec_at_def Let_def)
qed

lemma loop_calls_from:
  assumes "k < length v"
  shows "loop_calls c v (int k) = Some (map (\<lambda>i. v ! ((k + 1 + i) mod length v)) [0..<c])"
  using assms
proof (induction c arbitrary: k)
  case (Suc c)
  have "v \<noteq> []" using Suc.prems by auto
  then obtain m where m: "m < length v" "LoopSvid v (int k) = Some (v ! m, int m)" "m = (k + 1) mod length v"
    using LoopSvid_next [of v "int k"] Suc.prems by (metis nat_int of_nat_0_le_iff of_nat_less_iff)
  have "(m + 1 + i) mod length v = (k + 1 + Suc i) mod length v" for i
    using mod_add_left_eq [of "k + 1" "length v" "1 + i"] by (simp add: m(3) add.assoc)
  then have "map (\<lambda>i. v ! ((m + 1 + i) mod length v)) [0..<c] = map (\<lambda>i. v ! ((k + 1 + i) mod length v)) (map Suc [0..<c])"
    by simp
  moreover have "[0..<Suc c] = 0 # map Suc [0..<c]" by (simp add: upt_conv_Cons map_Suc_upt)
  ultimately show ?case using Suc.IH [OF m(1)] m(2,3) by (simp del: upt_Suc)
qed simp

lemma loop_calls_any:
  assumes "v \<noteq> []"
  obtains m where "m < length v" "loop_calls c v n = Some (map (\<lambda>i. v ! ((m + i) mod length v)) [0..<c])"
proof (cases c)
  case 0
  then show thesis using assms that [of 0] by simp
next
  case (Suc d)
  obtain m where m: "m < length v" "LoopSvid v n = Some (v ! m, int m)" by (rule LoopSvid_next [OF assms])
  have "[0..<c] = 0 # map Suc [0..<d]" by (simp add: Suc upt_conv_Cons map_Suc_upt del: upt_Suc)
  then have "loop_calls c v n = Some (map (\<lambda>i. v ! ((m + i) mod length v)) [0..<c])"
    using m loop_calls_from [OF m(1), of d] by (simp add: Suc del: upt_Suc)
  then show thesis by (rule that [OF m(1)])
qed

text \<open>
  Round robin: wherever the counter stands, also after the list of servers was replaced by a shorter one,
  as many calls of \<open>LoopSvid\<close> as there are servers choose each server of the list once, in the order of the
  list from some server on.
\<close>

theorem LoopSvid_round_robin:
  assumes "v \<noteq> []"
  shows "\<exists>m < length v. loop_calls (length v) v n = Some (rotate m v)"
proof -
  obtain m where m: "m < length v"
    "loop_calls (length v) v n = Some (map (\<lambda>i. v ! ((m + i) mod length v)) [0..<length v])"
    by (rule loop_calls_any [OF assms])
  have "map (\<lambda>i. v ! ((m + i) mod length v)) [0..<length v] = rotate m v"
    by (rule nth_equalityI) (simp_all add: nth_rotate)
  with m show ?thesis by auto
qed

theorem LoopSvid_round_robin_witness:
  "\<exists>m < length [7, 8, 9 :: int]. loop_calls (length [7, 8, 9 :: int]) [7, 8, 9] 5 = Some (rotate m [7, 8, 9])"
  by (rule LoopSvid_round_robin) simp

section \<open>Splitting a text\<close>

text \<open>Splitting at every separator, and dropping the empty pieces.\<close>

fun pieces :: "byte list \<Rightarrow> byte list \<Rightarrow> byte list list" where
  "pieces sp [] = [[]]"
| "pieces sp (c # s) =
     (if c \<in> set sp then [] # pieces sp s
      else (case pieces sp s of p # ps \<Rightarrow> (c # p) # ps | [] \<Rightarrow> [[c]]))"

lemma pieces_not_Nil: "pieces sp s \<noteq> []"
  by (induction s) (auto split: list.splits)

lemma pieces_token:
  assumes "\<forall>c \<in> set t. c \<notin> set sp"
  shows "pieces sp (t @ s) = (t @ hd (pieces sp s)) # tl (pieces sp s)"
  using assms by (induction t) (auto simp: pieces_not_Nil split: list.splits)

lemma pieces_seps:
  "\<forall>c \<in> set t. c \<in> set sp \<Longrightarrow> filter (\<lambda>p. p \<noteq> []) (pieces sp (t @ s)) = filter (\<lambda>p. p \<noteq> []) (pieces sp s)"
  by (induction t) auto

lemma strtok_None: "strtok sp s = None \<longleftrightarrow> (\<forall>c \<in> set s. c \<in> set sp)"
  by (simp add: strtok_def Let_def)

lemma strtok_loop_pieces: "strtok_loop sp s = filter (\<lambda>p. p \<noteq> []) (pieces sp s)"
proof (induction "length s" arbitrary: s rule: less_induct)
  case less
  show ?case
  proof (cases "strtok sp s")
    case None
    then have "\<forall>c \<in> set s. c \<in> set sp" by (simp add: strtok_None)
    then show ?thesis using pieces_seps [of s sp "[]"] None by (subst strtok_loop.simps) simp
  next
    case (Some x)
    obtain t r where x: "x = (t, r)" by fastforce
    let ?s1 = "dropWhile (\<lambda>c. c \<in> set sp) s"
    have s1: "?s1 \<noteq> []" "t = takeWhile (\<lambda>c. c \<notin> set sp) ?s1" "r = drop 1 (dropWhile (\<lambda>c. c \<notin> set sp) ?s1)"
      using Some x by (auto simp: strtok_def Let_def split: if_splits)
    have hd: "hd ?s1 \<notin> set sp" using s1(1) hd_dropWhile by blast
    have t: "t \<noteq> []" "\<forall>c \<in> set t. c \<notin> set sp"
      using s1(1,2) hd by (cases ?s1; auto dest: set_takeWhileD)+
    obtain d where d: "dropWhile (\<lambda>c. c \<notin> set sp) ?s1 = d" by blast
    then have split: "?s1 = t @ d" using takeWhile_dropWhile_id [of "\<lambda>c. c \<notin> set sp" ?s1] by (simp add: s1(2))
    have r: "r = drop 1 d" by (simp only: s1(3) d)
    have "filter (\<lambda>p. p \<noteq> []) (pieces sp s) = filter (\<lambda>p. p \<noteq> []) (pieces sp (takeWhile (\<lambda>c. c \<in> set sp) s @ ?s1))"
      by (simp only: takeWhile_dropWhile_id)
    also have "\<dots> = filter (\<lambda>p. p \<noteq> []) (pieces sp ?s1)"
      by (rule pieces_seps) (auto dest: set_takeWhileD)
    also have "\<dots> = t # filter (\<lambda>p. p \<noteq> []) (pieces sp r)"
    proof (cases d)
      case Nil
      then show ?thesis using pieces_token [OF t(2), of "[]"] t(1) by (simp add: split r)
    next
      case (Cons c z)
      then have "c \<in> set sp" using hd_dropWhile [of "\<lambda>c. c \<notin> set sp" ?s1] d by simp
      then have "pieces sp (t @ c # z) = t # pieces sp z" using pieces_token [OF t(2), of "c # z"] by simp
      then show ?thesis using Cons t(1) by (simp add: split r)
    qed
    finally show ?thesis
      using less [OF strtok_shorter [OF Some [unfolded x]]] Some x by (subst strtok_loop.simps) simp
  qed
qed

text \<open>
  \<open>split_str\<close> adds to the vector exactly the non-empty pieces of the text between separators, in their
  order.
\<close>

theorem split_str_pieces: "split_str s sp v = v @ filter (\<lambda>p. p \<noteq> []) (pieces sp s)"
  using strtok_loop_pieces [of sp s] by (subst (asm) strtok_loop.simps) (auto simp: split_str_def split: option.splits)

text \<open>The eight characters of \<open>binary2char\<close> determine the byte; \<open>InWhiteList\<close> is membership.\<close>

lemma binary2char_inj: "binary2char a = binary2char b \<Longrightarrow> a = b"
proof (rule bit_word_eqI)
  fix i assume eq: "binary2char a = binary2char b" and "i < LENGTH(8)"
  then have "(if bit a i then 1 else 0 :: byte) = (if bit b i then 1 else 0)"
    using arg_cong [OF eq, of "\<lambda>x. x ! i"] by (simp add: binary2char_def)
  then show "bit a i = bit b i" by (auto split: if_splits)
qed

lemma InWhiteList_iff: "InWhiteList v x \<longleftrightarrow> x \<in> set v"
  by (induction v) auto

end
