(* ===== verification/Hall.thy ===== *)
theory Hall
  imports GameUnit ServerUtil
begin

text \<open>
  What the server says to the logic servers: the shared table of logic servers (\<open>CHelperPool\<close>) and the functions
  that build a packet and hand it to one of them, \<open>ProcessUserClose\<close> (\<open>decode_unit.cpp\<close>), \<open>SendClientClose\<close>
  (\<open>helper_unit.cpp\<close>), \<open>_active_helper\<close> (\<open>incoming.cpp\<close>), \<open>SendGetLevelCount\<close> (\<open>RealTimer.cpp\<close>),
  \<open>GetRandomHelper\<close>, \<open>SendPacketToHelperUnit\<close>, \<open>SendIPSetPacket\<close> and \<open>ProcessOpenDebug\<close> (\<open>client_unit.cpp\<close>).
  A \<open>map\<close> from numbers to pointers is a function to \<open>option\<close> twice: no entry, or an entry that may be
  \<open>NULL\<close>; a \<open>map\<close> that is iterated is the list of its entries by ascending key. New packet objects, whose buffers
  are uninitialised, are arguments.
\<close>

section \<open>State\<close>

definition CLIENT_PACKET :: u16 where "CLIENT_PACKET = 0x0001"
definition CLIENT_PACKET2 :: u16 where "CLIENT_PACKET2 = 0x0004"
definition CLIENT_CLOSE_PACKET :: u16 where "CLIENT_CLOSE_PACKET = 0x0002"
definition SERVER_CMD_SET_IP :: u16 where "SERVER_CMD_SET_IP = 0x0301"
definition CMD_GET_ROOM_LEVER_NUM :: u16 where "CMD_GET_ROOM_LEVER_NUM = 0x0311"
definition CLIENT_COMMAND_LOGIN :: int where "CLIENT_COMMAND_LOGIN = 0x1001"
definition INTER_CMD_WAITER_STAT_REQ :: u16 where "INTER_CMD_WAITER_STAT_REQ = 0x8002"
definition INTER_CMD_NOTIFY_STAT_REQ :: u16 where "INTER_CMD_NOTIFY_STAT_REQ = 0x8003"

record hall =
  helpermap :: "int \<Rightarrow> helper_unit option option"
  svidlist :: "int list"
  levelmap :: "(int \<times> int list) list"
  ipmap :: "byte list \<Rightarrow> byte list option"
  cmdlist :: "int list"
  loopNum :: int
  randCount :: int
  hall_svid :: int
  debugLogSwitch :: int

text \<open>What the system calls of one \<open>send_to_logic\<close> give.\<close>

record link =
  l_connect :: connect_result
  l_slot :: bool
  l_send :: send_result

definition append_and_send :: "link \<Rightarrow> byte list \<Rightarrow> helper_unit \<Rightarrow> int \<times> helper_unit" where
  "append_and_send l bs h = send_to_logic (l_connect l) (l_slot l) (l_send l) (append_pkg bs h)"

text \<open>The lookup in \<open>m_helpermap\<close>, and the packet handed to the helper that was found, if it is not \<open>NULL\<close>.\<close>

definition deliver :: "link \<Rightarrow> int \<Rightarrow> byte list \<Rightarrow> hall \<Rightarrow> hall" where
  "deliver l svid bs s = (case helpermap s svid of
     Some (Some h) \<Rightarrow> s\<lparr>helpermap := (helpermap s)(svid \<mapsto> Some (snd (append_and_send l bs h)))\<rparr>
   | _ \<Rightarrow> s)"

section \<open>Operations\<close>

text \<open>\<open>CListener::complete\<close> calls \<open>ProcessUserClose\<close> for connections of the type \<open>CONN_CLINET\<close>; the program gives no connection this
  type, so in it the function is never reached.\<close>

definition ProcessUserClose :: "output_packet \<Rightarrow> link \<Rightarrow> int \<Rightarrow> int \<Rightarrow> hall \<Rightarrow> (int \<times> hall) option" where
  "ProcessUserClose packet l flag tid s =
     (if flag \<le> 0 then Some (0, s)
      else do {
        p1 \<leftarrow> out_Begin CLIENT_CLOSE_PACKET 1 1 packet;
        (_, p2) \<leftarrow> WriteInt (word_of_int flag) p1;
        (_, p3) \<leftarrow> WriteInt (word_of_int (hall_svid s)) p2;
        p4 \<leftarrow> out_End p3;
        (svid, n) \<leftarrow> (if tid > 0 then Some ((tid div 65536) div 200, loopNum s) else LoopSvid (svidlist s) (loopNum s));
        Some (0, deliver l svid (pk_bytes p4) (s\<lparr>loopNum := n\<rparr>)) })"

definition SendClientClose :: "output_packet \<Rightarrow> link \<Rightarrow> int \<Rightarrow> hall \<Rightarrow> hall option" where
  "SendClientClose transPacket l u s = do {
     p1 \<leftarrow> out_Begin CLIENT_CLOSE_PACKET 1 1 transPacket;
     (_, p2) \<leftarrow> WriteInt (word_of_int u) p1;
     (_, p3) \<leftarrow> WriteInt (word_of_int (hall_svid s)) p2;
     p4 \<leftarrow> out_End p3;
     if length (svidlist s) > 0 then do {
       (svid, n) \<leftarrow> LoopSvid (svidlist s) (loopNum s);
       Some (deliver l svid (pk_bytes p4) (s\<lparr>loopNum := n\<rparr>)) }
     else Some s }"

text \<open>\<open>m_helpermap[svid]\<close> adds a \<open>NULL\<close> entry when there is none.\<close>

definition helper_at :: "int \<Rightarrow> hall \<Rightarrow> helper_unit option \<times> hall" where
  "helper_at svid s = (case helpermap s svid of
     Some h \<Rightarrow> (h, s)
   | None \<Rightarrow> (None, s\<lparr>helpermap := (helpermap s)(svid \<mapsto> None)\<rparr>))"

definition active_request :: "output_packet \<Rightarrow> link \<Rightarrow> u16 \<Rightarrow> int \<Rightarrow> hall \<Rightarrow> hall option" where
  "active_request out l cmd svid s =
     (case helper_at svid s of
        (None, s1) \<Rightarrow> Some s1
      | (Some h, s1) \<Rightarrow> do {
          o1 \<leftarrow> out_Begin cmd 1 1 out;
          o2 \<leftarrow> out_End o1;
          (_, o3) \<leftarrow> EncryptBuffer o2;
          Some (s1\<lparr>helpermap := (helpermap s1)(svid \<mapsto> Some (snd (append_and_send l (pk_bytes o3) h)))\<rparr>) })"

definition active_helper :: "output_packet \<Rightarrow> link \<Rightarrow> int \<Rightarrow> int \<Rightarrow> hall \<Rightarrow> (int \<times> hall) option" where
  "active_helper out l level svid s =
     (if level = 1 then map_option (Pair 0) (active_request out l INTER_CMD_WAITER_STAT_REQ svid s)
      else if level = 2 then map_option (Pair 0) (active_request out l INTER_CMD_NOTIFY_STAT_REQ svid s)
      else Some (0, s))"

definition RandomUid :: "(u32 \<Rightarrow> nat) \<Rightarrow> u32 \<Rightarrow> nat" where
  "RandomUid random now = random now mod 10"

fun write_levels :: "(int \<times> int list) list \<Rightarrow> output_packet \<Rightarrow> output_packet option" where
  "write_levels [] p = Some p"
| "write_levels ((level, v) # m) p = do {
     (_, p1) \<leftarrow> WriteShort (word_of_int level) p;
     write_levels m p1 }"

definition SendGetLevelCount ::
    "(u32 \<Rightarrow> nat) \<Rightarrow> u32 \<Rightarrow> output_packet \<Rightarrow> output_packet \<Rightarrow> link \<Rightarrow> hall \<Rightarrow> hall option" where
  "SendGetLevelCount random now SubPacket outPkg l s = do {
     let nUid = RandomUid random now;
     (nSvid, n) \<leftarrow> RandomSvid random now (svidlist s) (randCount s);
     p1 \<leftarrow> out_Begin CMD_GET_ROOM_LEVER_NUM 1 1 SubPacket;
     (_, p2) \<leftarrow> WriteShort (of_nat (length (levelmap s))) p1;
     p3 \<leftarrow> write_levels (levelmap s) p2;
     p4 \<leftarrow> out_End p3;
     (_, p5) \<leftarrow> EncryptBuffer p4;
     o1 \<leftarrow> out_Begin CLIENT_PACKET 1 1 outPkg;
     (_, o2) \<leftarrow> WriteInt (of_nat nUid) o1;
     (_, o3) \<leftarrow> WriteInt (word_of_int (hall_svid s)) o2;
     (_, o4) \<leftarrow> WriteBinary (m_strBuf p5) (m_nPacketSize p5) o3;
     o5 \<leftarrow> out_End o4;
     Some (deliver l nSvid (pk_bytes o5) (s\<lparr>randCount := n\<rparr>)) }"

definition level_servers :: "int \<Rightarrow> hall \<Rightarrow> int list option" where
  "level_servers level s = map_of (levelmap s) level"

text \<open>The result is the key of the helper; \<open>None\<close> inside stands for \<open>NULL\<close>.\<close>

definition GetRandomHelper :: "(u32 \<Rightarrow> nat) \<Rightarrow> u32 \<Rightarrow> 16 word \<Rightarrow> hall \<Rightarrow> (int option \<times> hall) option" where
  "GetRandomHelper random now level s = (case level_servers (sint level) s of
     None \<Rightarrow> Some (None, s)
   | Some v \<Rightarrow>
       if length v > 0 then do {
         (svid, n) \<leftarrow> RandomSvid random now v (randCount s);
         Some (case helpermap s svid of Some (Some h) \<Rightarrow> Some svid | _ \<Rightarrow> None, s\<lparr>randCount := n\<rparr>) }
       else Some (None, s))"

definition SendPacketToHelperUnit ::
    "output_packet \<Rightarrow> link \<Rightarrow> int \<Rightarrow> int \<Rightarrow> u32 \<Rightarrow> u16 \<Rightarrow> byte list \<Rightarrow> int \<Rightarrow> helper_unit \<Rightarrow> (int \<times> helper_unit) option" where
  "SendPacketToHelperUnit transPacket l user svid ip api pData nSize h = do {
     p1 \<leftarrow> out_Begin CLIENT_PACKET2 1 1 transPacket;
     (_, p2) \<leftarrow> WriteInt (word_of_int user) p1;
     (_, p3) \<leftarrow> WriteInt (word_of_int svid) p2;
     (_, p4) \<leftarrow> WriteInt ip p3;
     (_, p5) \<leftarrow> WriteShort api p4;
     (_, p6) \<leftarrow> WriteBinary pData nSize p5;
     p7 \<leftarrow> out_End p6;
     let (r, h1) = append_and_send l (pk_bytes p7) h;
     Some (if r < 0 then (- 1, h1) else (0, h1)) }"

definition SendIPSetPacket ::
    "output_packet \<Rightarrow> u32 \<Rightarrow> base_packet \<Rightarrow> int \<Rightarrow> game_unit \<Rightarrow> (base_packet \<times> game_unit) option" where
  "SendIPSetPacket outPkg ip reqPacket cmd g =
     (if cmd = CLIENT_COMMAND_LOGIN then do {
        (_, q1) \<leftarrow> DecryptBuffer reqPacket;
        (nTableId, q2) \<leftarrow> ReadInt q1;
        (nUserId, q3) \<leftarrow> ReadInt q2;
        p1 \<leftarrow> out_Begin SERVER_CMD_SET_IP 1 1 outPkg;
        (_, p2) \<leftarrow> WriteInt (word_of_int nTableId) p1;
        (_, p3) \<leftarrow> WriteInt (word_of_int nUserId) p2;
        (_, p4) \<leftarrow> WriteInt (htonl ip) p3;
        p5 \<leftarrow> out_End p4;
        (_, p6) \<leftarrow> EncryptBuffer p5;
        Some (q3, g_append_pkg (pk_bytes p6) g) }
      else Some (reqPacket, g))"

definition debug_password :: "byte list" where
  "debug_password = bytes_of ''!@#$%^&*()''"

definition ProcessOpenDebug :: "base_packet \<Rightarrow> hall \<Rightarrow> (int \<times> hall) option" where
  "ProcessOpenDebug pPacket s = do {
     (_, q1) \<leftarrow> DecryptBuffer pPacket;
     (strFlag, q2) \<leftarrow> ReadString q1;
     if strFlag \<noteq> debug_password then Some (- 1, s)
     else do {
       (v, q3) \<leftarrow> ReadInt q2;
       Some (0, s\<lparr>debugLogSwitch := v\<rparr>) } }"
section \<open>Building a packet\<close>

text \<open>A packet under construction: its command and the body written so far.\<close>

definition built :: "u16 \<Rightarrow> byte list \<Rightarrow> output_packet \<Rightarrow> bool" where
  "built cmd body p \<longleftrightarrow> pk_wf p \<and> pk_head p = [0, 0, 0x42, 0x59, 1, 1] @ be 2 cmd @ [0] \<and> pk_body p = body \<and>
     length (m_strBuf p) = 8192"

text \<open>A finished packet that was not encrypted.\<close>

definition plain_frame :: "u16 \<Rightarrow> byte list \<Rightarrow> byte list" where
  "plain_frame cmd body = be 2 (of_nat (length body + 7) :: u16) @ [0x42, 0x59, 1, 1] @ be 2 cmd @ [0] @ body"

lemma length_plain_frame [simp]: "length (plain_frame cmd body) = 9 + length body"
  by (simp add: plain_frame_def)

lemma built_Begin:
  assumes "length (m_strBuf p) = 8192"
  obtains q where "out_Begin cmd 1 1 p = Some q" "built cmd [] q"
proof -
  define q where "q = p\<lparr>m_strBuf := [0, 0, 0x42, 0x59, 1, 1] @ be 2 cmd @ [0] @
    replicate (length (m_strBuf p) - 9) 0, m_nPacketSize := 9, m_nBufPos := 9, m_isCheckCode := False\<rparr>"
  have "out_Begin cmd 1 1 p = Some q" using assms by (simp add: out_Begin_def base_begin_ok q_def)
  moreover have "pk_wf q" by (rule pk_wfI [of q 9 9]) (use assms in \<open>simp_all add: q_def\<close>)
  then have "built cmd [] q" using assms by (simp add: built_def q_def pk_head_def pk_body_def)
  ultimately show thesis by (rule that)
qed

lemma built_Write:
  assumes b: "built cmd body p" and room: "length body + length bs \<le> 8183"
  obtains q where "base_Write bs (int (length bs)) p = Some (True, q)" "built cmd (body @ bs) q"
proof -
  have wf: "pk_wf p" and body: "pk_body p = body" and len: "length (m_strBuf p) = 8192" using b by (simp_all add: built_def)
  have sz: "m_nPacketSize p = 9 + int (length body)" using length_pk_body [OF wf] body by simp
  have "m_nPacketSize p + int (length bs) \<le> PACKET_BUFFER_SIZE p"
    using room by (simp add: sz PACKET_BUFFER_SIZE_def len)
  then obtain q where "base_Write bs (int (length bs)) p = Some (True, q)" "pk_wf q"
    "pk_body q = pk_body p @ bs" "pk_head q = pk_head p" "PACKET_BUFFER_SIZE q = PACKET_BUFFER_SIZE p"
    by (rule base_Write_ok [OF wf])
  with b show thesis by (intro that [of q]) (auto simp: built_def PACKET_BUFFER_SIZE_def)
qed

lemma built_WriteInt:
  assumes "built cmd body p" and "length body + 4 \<le> 8183"
  obtains q where "WriteInt x p = Some (True, q)" "built cmd (body @ be 4 x) q"
  using built_Write [OF assms(1), of "be 4 x"] assms(2) by (auto simp: WriteInt_def htonl_def be_def)

lemma built_WriteShort:
  assumes "built cmd body p" and "length body + 2 \<le> 8183"
  obtains q where "WriteShort x p = Some (True, q)" "built cmd (body @ be 2 x) q"
  using built_Write [OF assms(1), of "be 2 x"] assms(2) by (auto simp: WriteShort_def bytes_le_htons)

lemma built_bytes:
  assumes "built cmd body p"
  shows "m_strBuf p = ([0, 0, 0x42, 0x59, 1, 1] @ be 2 cmd @ [0]) @ body @ drop (9 + length body) (m_strBuf p)"
    "m_nPacketSize p = 9 + int (length body)"
proof -
  have wf: "pk_wf p" and body: "pk_body p = body" and head: "take 9 (m_strBuf p) = [0, 0, 0x42, 0x59, 1, 1] @ be 2 cmd @ [0]"
    using assms by (simp_all add: built_def pk_head_def)
  show sz: "m_nPacketSize p = 9 + int (length body)" using length_pk_body [OF wf] body by simp
  have "body = drop 9 (take (9 + length body) (m_strBuf p))"
    using body sz by (simp add: pk_body_def nat_add_distrib)
  then have body': "take (length body) (drop 9 (m_strBuf p)) = body" by (simp add: take_drop add.commute)
  have "m_strBuf p = take 9 (m_strBuf p) @ drop 9 (m_strBuf p)" by simp
  also have "drop 9 (m_strBuf p) = body @ drop (9 + length body) (m_strBuf p)"
    using append_take_drop_id [of "length body" "drop 9 (m_strBuf p)"] body' by (simp add: add.commute)
  finally show "m_strBuf p = ([0, 0, 0x42, 0x59, 1, 1] @ be 2 cmd @ [0]) @ body @ drop (9 + length body) (m_strBuf p)"
    by (simp only: head)
qed

lemma built_End:
  assumes b: "built cmd body p"
  obtains q where "out_End p = Some q" "pk_bytes q = plain_frame cmd body"
proof -
  have wf: "pk_wf (p\<lparr>m_isCheckCode := False\<rparr>)"
    using b by (simp add: built_def pk_wf_def PACKET_BUFFER_SIZE_def)
  have bytes: "m_strBuf p = ([0, 0, 0x42, 0x59, 1, 1] @ be 2 cmd @ [0]) @ body @ drop (9 + length body) (m_strBuf p)"
    "m_nPacketSize p = 9 + int (length body)"
    by (rule built_bytes [OF b])+
  obtain r where buf: "m_strBuf p = ([0, 0, 0x42, 0x59, 1, 1] @ be 2 cmd @ [0]) @ body @ r" using bytes(1) by blast
  define q where "q = p\<lparr>m_isCheckCode := False, m_strBuf := be 2 (of_nat (length body + 7) :: u16) @
      [0x42, 0x59, 1, 1] @ be 2 cmd @ [0] @ body @ r\<rparr>"
  have q: "out_End p = Some q" "m_strBuf q = be 2 (of_nat (length body + 7) :: u16) @
      [0x42, 0x59, 1, 1] @ be 2 cmd @ [0] @ body @ r" "m_nPacketSize q = 9 + int (length body)"
    using base_end_ok [OF wf] by (simp_all add: out_End_def buf bytes(2) q_def add.commute)
  have "m_strBuf q = plain_frame cmd body @ r" "m_nPacketSize q = int (length (plain_frame cmd body))"
    using q(2,3) by (simp_all add: plain_frame_def)
  then have "pk_bytes q = plain_frame cmd body" unfolding pk_bytes_def by (simp del: length_plain_frame)
  with q(1) show thesis by (rule that)
qed

lemma built_Encrypt:
  assumes b: "built cmd body p"
  obtains q n r where "out_End p = Some q" "EncryptBuffer q = Some (n, r)" "pk_bytes r = frame cmd body"
    "m_nPacketSize r = int (9 + length body)" "length (m_strBuf r) = 8192"
proof -
  have wf: "pk_wf p" "length (m_strBuf p) = 8192" using b by (simp_all add: built_def)
  have buf: "m_strBuf p = ([0, 0, 0x42, 0x59, 1, 1] @ be 2 cmd @ [0]) @ body @ drop (9 + length body) (m_strBuf p)"
    and sz: "m_nPacketSize p = 9 + int (length body)" by (rule built_bytes [OF b])+
  have room: "9 + length body \<le> 8192"
    using wf sz by (auto simp: pk_wf_def PACKET_BUFFER_SIZE_def)
  obtain q r where "out_End p = Some q" "EncryptBuffer q = Some (of_nat (length body), r)"
    "m_strBuf r = frame cmd body @ drop (9 + length body) (m_strBuf p)"
    "pk_bytes r = frame cmd body" "m_nPacketSize r = m_nPacketSize p"
    using out_frame [OF wf(1) buf sz, of cmd] by auto
  then show thesis using sz wf(2) room by (intro that [of q "of_nat (length body)" r]) auto
qed

section \<open>Telling a logic server that a client left\<close>

lemma close_packet:
  assumes "length (m_strBuf packet) = 8192"
  obtains p1 p2 p3 p4 where "out_Begin CLIENT_CLOSE_PACKET 1 1 packet = Some p1" "WriteInt x p1 = Some (True, p2)"
    "WriteInt y p2 = Some (True, p3)" "out_End p3 = Some p4"
    "pk_bytes p4 = plain_frame CLIENT_CLOSE_PACKET (be 4 x @ be 4 y)"
proof -
  obtain p1 where p1: "out_Begin CLIENT_CLOSE_PACKET 1 1 packet = Some p1" "built CLIENT_CLOSE_PACKET [] p1"
    by (rule built_Begin [OF assms])
  obtain p2 where p2: "WriteInt x p1 = Some (True, p2)" "built CLIENT_CLOSE_PACKET ([] @ be 4 x) p2"
    by (rule built_WriteInt [OF p1(2)]) simp
  obtain p3 where p3: "WriteInt y p2 = Some (True, p3)" "built CLIENT_CLOSE_PACKET (([] @ be 4 x) @ be 4 y) p3"
    by (rule built_WriteInt [OF p2(2)]) simp
  obtain p4 where p4: "out_End p3 = Some p4" "pk_bytes p4 = plain_frame CLIENT_CLOSE_PACKET (([] @ be 4 x) @ be 4 y)"
    by (rule built_End [OF p3(2)])
  from p1(1) p2(1) p3(1) p4(1) show thesis by (rule that) (simp add: p4(2))
qed

text \<open>A connected helper keeps its stream of bytes.\<close>

definition hu_connected :: "helper_unit \<Rightarrow> bool" where
  "hu_connected h \<longleftrightarrow> hu_stage h \<noteq> CONN_IDLE \<and> hu_fd h \<ge> 0 \<and> hu_attached h"

lemma append_and_send_stream:
  assumes "hu_connected h" and "l_send l = Sent n" and "n \<le> length (hu_w h @ bs)" and "bs \<noteq> []"
  shows "hu_w (snd (append_and_send l bs h)) = drop n (hu_w h @ bs)" "fst (append_and_send l bs h) = int n"
    "hu_connected (snd (append_and_send l bs h))"
  using assms
  by (auto simp: append_and_send_def send_to_logic_def hu_connect_def hu_attach_def hu_connected_def append_pkg_def
      hu_ApplyEvents_def send_to_cgi_def Let_def split: prod.splits)

definition close_target :: "int \<Rightarrow> hall \<Rightarrow> int option" where
  "close_target tid s = (if tid > 0 then Some (tid div 65536 div 200) else map_option fst (LoopSvid (svidlist s) (loopNum s)))"

text \<open>
  When a logged-in client's connection ends, the logic server of the client's table, or the next one in turn
  for a client at no table, is told once: the close packet with the client's number and this server's number
  goes to the end of that server's stream, and no other logic server is touched.
\<close>

theorem user_close_reported:
  assumes "length (m_strBuf packet) = 8192" and "flag > 0" and "close_target tid s = Some t"
    and "helpermap s t = Some (Some h)" and "hu_connected h" and "l_send l = Sent n" and "n \<le> length (hu_w h) + 17"
  shows "\<exists>s' h'. ProcessUserClose packet l flag tid s = Some (0, s') \<and>
           helpermap s' = (helpermap s)(t \<mapsto> Some h') \<and> hu_connected h' \<and>
           hu_w h' = drop n (hu_w h @ plain_frame CLIENT_CLOSE_PACKET
             (be 4 (word_of_int flag :: u32) @ be 4 (word_of_int (hall_svid s) :: u32)))"
proof -
  let ?body = "be 4 (word_of_int flag :: u32) @ be 4 (word_of_int (hall_svid s) :: u32)"
  let ?frame = "plain_frame CLIENT_CLOSE_PACKET ?body"
  obtain p1 p2 p3 p4 where p: "out_Begin CLIENT_CLOSE_PACKET 1 1 packet = Some p1"
    "WriteInt (word_of_int flag) p1 = Some (True, p2)" "WriteInt (word_of_int (hall_svid s)) p2 = Some (True, p3)"
    "out_End p3 = Some p4" "pk_bytes p4 = ?frame"
    by (rule close_packet [OF assms(1)])
  obtain k where k: "(if tid > 0 then Some ((tid div 65536) div 200, loopNum s)
      else LoopSvid (svidlist s) (loopNum s)) = Some (t, k)"
    using assms(3) by (auto simp: close_target_def split: if_splits)
  let ?h = "snd (append_and_send l ?frame h)"
  have "length (hu_w h @ ?frame) = length (hu_w h) + 17" "?frame \<noteq> []" by (simp_all add: plain_frame_def)
  then have "hu_w ?h = drop n (hu_w h @ ?frame)" "hu_connected ?h"
    using append_and_send_stream [OF assms(5,6), of ?frame] assms(7) by simp_all
  moreover have "ProcessUserClose packet l flag tid s = Some (0, deliver l t ?frame (s\<lparr>loopNum := k\<rparr>))"
    using assms(2) p k by (simp add: ProcessUserClose_def)
  moreover have "helpermap (deliver l t ?frame (s\<lparr>loopNum := k\<rparr>)) = (helpermap s)(t \<mapsto> Some ?h)"
    using assms(4) by (simp add: deliver_def)
  ultimately show ?thesis by blast
qed
definition ex_out :: output_packet where
  "ex_out = \<lparr>m_strBuf = replicate 8192 0, m_nPacketSize = 0, m_nBufPos = 0, m_isCheckCode = False\<rparr>"

definition ex_helper_conn :: helper_unit where
  "ex_helper_conn = new_helper_unit\<lparr>hu_stage := CONN_CONNECTED, hu_fd := 7, hu_attached := True, hu_w := [9]\<rparr>"

definition ex_hall :: hall where
  "ex_hall = \<lparr>helpermap = [3 \<mapsto> Some ex_helper_conn, 4 \<mapsto> None], svidlist = [4, 3], levelmap = [(1, [3]), (2, [4, 3])],
     ipmap = Map.empty, cmdlist = [], loopNum = 0, randCount = 0, hall_svid = 5, debugLogSwitch = 0\<rparr>"

theorem user_close_reported_witness:
  "\<exists>s' h'. ProcessUserClose ex_out \<lparr>l_connect = Connected 7, l_slot = True, l_send = Sent 2\<rparr> 12 (601 * 65536) ex_hall = Some (0, s') \<and>
     helpermap s' = (helpermap ex_hall)(3 \<mapsto> Some h') \<and> hu_connected h' \<and>
     hu_w h' = drop 2 (hu_w ex_helper_conn @ plain_frame CLIENT_CLOSE_PACKET
       (be 4 (word_of_int 12 :: u32) @ be 4 (word_of_int (hall_svid ex_hall) :: u32)))"
  by (rule user_close_reported)
    (simp_all add: ex_out_def ex_hall_def ex_helper_conn_def hu_connected_def close_target_def new_helper_unit_def)

section \<open>Asking for the number of players\<close>

lemma write_levels_built:
  assumes "built cmd body p" and "length body + 2 * length m \<le> 8183"
  shows "\<exists>q. write_levels m p = Some q \<and> built cmd (body @ concat (map (\<lambda>e. be 2 (word_of_int (fst e) :: u16)) m)) q"
  using assms
proof (induction m arbitrary: body p)
  case (Cons e m)
  obtain level v where e: "e = (level, v)" by fastforce
  obtain q where q: "WriteShort (word_of_int level) p = Some (True, q)" "built cmd (body @ be 2 (word_of_int level :: u16)) q"
    by (rule built_WriteShort [OF Cons.prems(1)]) (use Cons.prems(2) in simp)
  show ?case using Cons.IH [OF q(2)] Cons.prems(2) q(1) by (simp add: e)
qed simp

text \<open>\<open>WriteBinary\<close> reads its bytes from the front of the buffer it is given.\<close>

lemma built_WriteBinary:
  assumes b: "built cmd body p" and buf: "take n buf = bs" "n \<le> length buf" and room: "length body + 4 + n \<le> 8183"
  obtains q where "WriteBinary buf (int n) p = Some (True, q)" "built cmd (body @ be 4 (of_nat n :: u32) @ bs) q"
proof -
  obtain p1 where p1: "WriteInt (of_nat n) p = Some (True, p1)" "built cmd (body @ be 4 (of_nat n :: u32)) p1"
    by (rule built_WriteInt [OF b]) (use room in simp)
  have bs: "length bs = n" using buf by auto
  have room': "length (body @ be 4 (of_nat n :: u32)) + length bs \<le> 8183" unfolding bs using room by simp
  obtain q where q: "base_Write bs (int (length bs)) p1 = Some (True, q)"
    "built cmd ((body @ be 4 (of_nat n :: u32)) @ bs) q"
    by (rule built_Write [OF p1(2) room'])
  have "read_i 0 (int n) buf = Some bs" "read_i 0 (int n) bs = Some bs"
    using buf bs by (simp_all add: read_i_def read_at_def)
  then have "base_Write buf (int n) p1 = base_Write bs (int (length bs)) p1" by (simp only: base_Write_def bs)
  with p1(1) q show thesis by (intro that [of q]) (simp_all add: WriteBinary_def)
qed

lemma RandomSvid_mem: "RandomSvid random now v n = Some (x, m) \<Longrightarrow> x \<in> set v"
  by (auto simp: RandomSvid_def vec_at_def Let_def split: if_splits)

lemma RandomSvid_defined: "v \<noteq> [] \<Longrightarrow> \<exists>x m. RandomSvid random now v n = Some (x, m)"
  by (auto simp: RandomSvid_def vec_at_def Let_def nat_mod_distrib)

definition level_body :: "hall \<Rightarrow> byte list" where
  "level_body s = be 2 (of_nat (length (levelmap s)) :: u16) @
     concat (map (\<lambda>e. be 2 (word_of_int (fst e) :: u16)) (levelmap s))"

definition level_frame :: "nat \<Rightarrow> hall \<Rightarrow> byte list" where
  "level_frame user s = plain_frame CLIENT_PACKET (be 4 (of_nat user :: u32) @ be 4 (word_of_int (hall_svid s) :: u32) @
     be 4 (of_nat (9 + length (level_body s)) :: u32) @ frame CMD_GET_ROOM_LEVER_NUM (level_body s))"

lemma length_level_body: "length (level_body s) = 2 + 2 * length (levelmap s)"
  by (simp add: level_body_def length_concat comp_def sum_list_triv)

text \<open>
  The question for the players per level names every level of the table once, in an encrypted packet
  inside an open one, and goes to a logic server of the list (to none when that server's helper is missing).
\<close>

theorem level_count_asked:
  assumes "length (m_strBuf sub) = 8192" and "length (m_strBuf out) = 8192"
    and "svidlist s \<noteq> []" and "length (levelmap s) \<le> 4000"
  shows "\<exists>t n. t \<in> set (svidlist s) \<and>
     SendGetLevelCount random now sub out l s =
       Some (deliver l t (level_frame (random now mod 10) s) (s\<lparr>randCount := n\<rparr>))"
proof -
  obtain t n where t: "RandomSvid random now (svidlist s) (randCount s) = Some (t, n)"
    using RandomSvid_defined [OF assms(3)] by blast
  let ?c = "CMD_GET_ROOM_LEVER_NUM" and ?w = "be 2 (of_nat (length (levelmap s)) :: u16)"
  obtain p1 where p1: "out_Begin ?c 1 1 sub = Some p1" "built ?c [] p1" by (rule built_Begin [OF assms(1)])
  obtain p2 where p2: "WriteShort (of_nat (length (levelmap s))) p1 = Some (True, p2)" "built ?c ([] @ ?w) p2"
    by (rule built_WriteShort [OF p1(2)]) simp
  obtain p3 where p3: "write_levels (levelmap s) p2 = Some p3" "built ?c (level_body s) p3"
    using write_levels_built [OF p2(2), of "levelmap s"] assms(4) by (auto simp: level_body_def)
  obtain p4 k p5 where p5: "out_End p3 = Some p4" "EncryptBuffer p4 = Some (k, p5)"
    "pk_bytes p5 = frame ?c (level_body s)" "m_nPacketSize p5 = int (9 + length (level_body s))"
    "length (m_strBuf p5) = 8192"
    by (rule built_Encrypt [OF p3(2)])
  let ?a = "be 4 (of_nat (random now mod 10) :: u32)" and ?b = "be 4 (word_of_int (hall_svid s) :: u32)"
  obtain o1 where o1: "out_Begin CLIENT_PACKET 1 1 out = Some o1" "built CLIENT_PACKET [] o1"
    by (rule built_Begin [OF assms(2)])
  obtain o2 where o2: "WriteInt (of_nat (random now mod 10)) o1 = Some (True, o2)" "built CLIENT_PACKET ([] @ ?a) o2"
    by (rule built_WriteInt [OF o1(2)]) simp
  obtain o3 where o3: "WriteInt (word_of_int (hall_svid s)) o2 = Some (True, o3)" "built CLIENT_PACKET (([] @ ?a) @ ?b) o3"
    by (rule built_WriteInt [OF o2(2)]) simp
  have bs: "take (9 + length (level_body s)) (m_strBuf p5) = frame ?c (level_body s)"
    using p5(3) unfolding pk_bytes_def p5(4) nat_int .
  obtain o4 where o4: "WriteBinary (m_strBuf p5) (int (9 + length (level_body s))) o3 = Some (True, o4)"
    "built CLIENT_PACKET ((([] @ ?a) @ ?b) @ be 4 (of_nat (9 + length (level_body s)) :: u32) @ frame ?c (level_body s)) o4"
    by (rule built_WriteBinary [OF o3(2) bs]) (use assms(4) p5(5) in \<open>simp_all add: length_level_body\<close>)
  obtain o5 where o5: "out_End o4 = Some o5" "pk_bytes o5 = level_frame (random now mod 10) s"
    using built_End [OF o4(2)] unfolding level_frame_def by auto
  have "SendGetLevelCount random now sub out l s =
      Some (deliver l t (level_frame (random now mod 10) s) (s\<lparr>randCount := n\<rparr>))"
    unfolding SendGetLevelCount_def RandomUid_def Let_def t p1(1) p2(1) p3(1) p5(1,2,4) o1(1) o2(1) o3(1)
    by (simp only: bind.bind_lunit prod.case p2 p3 p5 o1 o2 o3 o4 o5)
  with RandomSvid_mem [OF t] show ?thesis by blast
qed

theorem level_count_asked_witness:
  "\<exists>t n. t \<in> set (svidlist ex_hall) \<and>
     SendGetLevelCount (\<lambda>x. unat x) 5 ex_out ex_out \<lparr>l_connect = Connected 7, l_slot = True, l_send = Sent 2\<rparr> ex_hall =
       Some (deliver \<lparr>l_connect = Connected 7, l_slot = True, l_send = Sent 2\<rparr> t
         (level_frame (unat (5 :: u32) mod 10) ex_hall) (ex_hall\<lparr>randCount := n\<rparr>))"
  by (rule level_count_asked) (simp_all add: ex_out_def ex_hall_def)
section \<open>Forwarding the client's address\<close>

lemma be_htonl: "be 4 (htonl w) = bytes_le 4 w"
  by (simp add: be_def htonl_def)

text \<open>
  A login request on its way to a game server is followed by a packet with the table and the user of the
  request and the client's address, in the order in which the address lies in memory.
\<close>

theorem client_address_forwarded:
  assumes "length (m_strBuf outPkg) = 8192" and "length (m_strBuf req) = 8192" and "length extra \<le> 8000"
    and "Copy (frame cmd (be 4 (t :: u32) @ be 4 (u :: u32) @ extra) @ rest) (int (17 + length extra)) req = Some (True, q)"
  shows "\<exists>q'. SendIPSetPacket outPkg ip q CLIENT_COMMAND_LOGIN g =
     Some (q', g\<lparr>g_w := g_w g @ frame SERVER_CMD_SET_IP (be 4 t @ be 4 u @ bytes_le 4 ip)\<rparr>)"
proof -
  let ?in = "be 4 t @ be 4 u @ extra" and ?c = "SERVER_CMD_SET_IP"
  have B: "9 + length ?in \<le> length (m_strBuf req)" "length (m_strBuf req) \<le> 32768" using assms(2,3) by simp_all
  have sz: "9 + length ?in = 17 + length extra" by simp
  obtain q0 p where p: "Copy (frame cmd ?in @ rest) (int (9 + length ?in)) req = Some (True, q0)"
    "DecryptBuffer q0 = Some (int (length ?in), p)" "pk_wf p" "pk_rest p = ?in"
    by (rule receive_frame [OF B])
  have "q0 = q" using p(1) assms(4) unfolding sz by simp
  with p(2) have dec: "DecryptBuffer q = Some (int (length ?in), p)" by simp
  obtain r1 where r1: "ReadInt p = Some (sint t, r1)" "pk_wf r1" "pk_rest r1 = be 4 u @ extra"
    by (rule ReadInt_ok [OF p(3,4)])
  obtain r2 where r2: "ReadInt r1 = Some (sint u, r2)" by (rule ReadInt_ok [OF r1(2,3)])
  obtain p1 where p1: "out_Begin ?c 1 1 outPkg = Some p1" "built ?c [] p1" by (rule built_Begin [OF assms(1)])
  obtain p2 where p2: "WriteInt t p1 = Some (True, p2)" "built ?c ([] @ be 4 t) p2"
    by (rule built_WriteInt [OF p1(2)]) simp
  obtain p3 where p3: "WriteInt u p2 = Some (True, p3)" "built ?c (([] @ be 4 t) @ be 4 u) p3"
    by (rule built_WriteInt [OF p2(2)]) simp
  obtain p4 where p4: "WriteInt (htonl ip) p3 = Some (True, p4)"
    "built ?c ((([] @ be 4 t) @ be 4 u) @ be 4 (htonl ip)) p4"
    by (rule built_WriteInt [OF p3(2)]) simp
  obtain p5 k p6 where p6: "out_End p4 = Some p5" "EncryptBuffer p5 = Some (k, p6)"
    "pk_bytes p6 = frame ?c ((([] @ be 4 t) @ be 4 u) @ be 4 (htonl ip))"
    by (rule built_Encrypt [OF p4(2)])
  show ?thesis
    by (simp add: SendIPSetPacket_def dec r1(1) r2 p1(1) p2(1) p3(1) p4(1) p6 be_htonl g_append_pkg_def)
qed

theorem client_address_forwarded_witness:
  "\<exists>q q'. Copy (frame 0x1001 (be 4 (601 :: u32) @ be 4 (12 :: u32) @ []) @ []) (int (17 + 0)) (e_in ex_env) = Some (True, q) \<and>
     SendIPSetPacket ex_out 0x0100007F q CLIENT_COMMAND_LOGIN new_game_unit =
     Some (q', new_game_unit\<lparr>g_w := g_w new_game_unit @ frame SERVER_CMD_SET_IP (be 4 (601 :: u32) @ be 4 (12 :: u32) @ bytes_le 4 (0x0100007F :: u32))\<rparr>)"
proof -
  let ?in = "be 4 (601 :: u32) @ be 4 (12 :: u32) @ []"
  have len: "length (m_strBuf (e_in ex_env)) = 8192" using ex_facts(1) by (simp add: env_ok_def)
  have B: "9 + length ?in \<le> length (m_strBuf (e_in ex_env))" "length (m_strBuf (e_in ex_env)) \<le> 32768"
    using len by simp_all
  obtain q where q: "Copy (frame 0x1001 ?in @ []) (int (9 + length ?in)) (e_in ex_env) = Some (True, q)"
    by (rule receive_frame [OF B])
  have c: "Copy (frame 0x1001 (be 4 (601 :: u32) @ be 4 (12 :: u32) @ []) @ []) (int (17 + length ([] :: byte list)))
      (e_in ex_env) = Some (True, q)" using q by simp
  have "length (m_strBuf ex_out) = 8192" by (simp add: ex_out_def)
  from client_address_forwarded [OF this len _ c, of "0x0100007F" new_game_unit] c show ?thesis by auto
qed

end
