(* ===== verification/ServerConfig.thy ===== *)
theory ServerConfig
  imports Hall CText
begin

text \<open>
  The server's configuration: \<open>TGlobal::DaemonInit\<close> (\<open>global.cpp\<close>), \<open>CIncoming::InitHelperUnit\<close>
  (\<open>incoming.cpp\<close>), \<open>CClientUnit::ResetHelperUnit\<close> and \<open>ResetIpMap\<close> (\<open>client_unit.cpp\<close>). The XML library
  (\<open>CMarkupSTL\<close>) is a parameter: a document with a cursor, and the functions of it that the code calls.
  \<open>FindElem\<close> moves the cursor to the next sibling of a name, \<open>IntoElem\<close> into the element it stands on,
  \<open>OutOfElem\<close> back out of it; \<open>GetAttrib\<close> reads an attribute of the element it stands on, empty if there is none.
\<close>

section \<open>The XML library\<close>

record 'x markup =
  m_load :: "byte list \<Rightarrow> 'x option"
  m_find :: "string \<Rightarrow> 'x \<Rightarrow> bool \<times> 'x"
  m_into :: "'x \<Rightarrow> bool \<times> 'x"
  m_out :: "'x \<Rightarrow> bool \<times> 'x"
  m_attrib :: "string \<Rightarrow> 'x \<Rightarrow> byte list"

definition attrib_int :: "'x markup \<Rightarrow> string \<Rightarrow> 'x \<Rightarrow> int" where
  "attrib_int m name x = atoi (c_str (m_attrib m name x))"

text \<open>Each call of \<open>FindElem\<close> in a row finds the next of these elements, and the last one none.\<close>

primrec siblings :: "'x markup \<Rightarrow> string \<Rightarrow> 'x \<Rightarrow> 'x list \<Rightarrow> 'x \<Rightarrow> bool" where
  "siblings m name x [] e \<longleftrightarrow> m_find m name x = (False, e)"
| "siblings m name x (y # ys) e \<longleftrightarrow> m_find m name x = (True, y) \<and> siblings m name y ys e"

section \<open>The process: config.xml\<close>

record daemon_config =
  c_log_name :: "byte list"
  c_log_dir :: "byte list"
  c_log_num :: int
  c_log_size :: int
  c_log_level :: int
  c_accesslog :: int
  c_maxpoller :: int
  c_webtimeout :: int
  c_helpertimeout :: int
  c_backlog :: int
  c_redisIp :: "byte list"
  c_redisPort :: int
  c_udpSwitch :: int
  c_udpIp :: "byte list"
  c_udpPort :: int
  c_key :: "byte list"

definition at_least :: "int \<Rightarrow> int \<Rightarrow> int" where
  "at_least b v = (if v < b then b else v)"

text \<open>\<open>Inl\<close> stands for the result -1, \<open>pid\<close> is the number of the process.\<close>

definition DaemonInit :: "'x markup \<Rightarrow> nat \<Rightarrow> byte list option \<Rightarrow> unit + daemon_config" where
  "DaemonInit m pid conf_file = (case conf_file of
     None \<Rightarrow> Inl ()
   | Some file \<Rightarrow>
       if c_str file = [] then Inl ()
       else (case m_load m (c_str file) of
         None \<Rightarrow> Inl ()
       | Some x0 \<Rightarrow>
           (let (found, x) = m_find m ''SYSTEM'' x0
            in if \<not> found then Inl ()
               else if m_attrib m ''BindAddr'' x = [] then Inl ()
               else Inr \<lparr>c_log_name = bytes_of ''Log_'' @ decimal pid,
                 c_log_dir = c_str (m_attrib m ''LogDir'' x),
                 c_log_num = attrib_int m ''LogNum'' x,
                 c_log_size = attrib_int m ''LogSize'' x,
                 c_log_level = attrib_int m ''LogLevel'' x,
                 c_accesslog = attrib_int m ''AccessLog'' x,
                 c_maxpoller = at_least 1024 (attrib_int m ''MaxFdCount'' x),
                 c_webtimeout = at_least 1 (attrib_int m ''WebTimeout'' x),
                 c_helpertimeout = at_least 1 (attrib_int m ''HelperTimeout'' x),
                 c_backlog = at_least 256 (attrib_int m ''MaxListenCount'' x),
                 c_redisIp = m_attrib m ''RedisServer'' x,
                 c_redisPort = attrib_int m ''RedisPort'' x,
                 c_udpSwitch = attrib_int m ''UdpSwitch'' x,
                 c_udpIp = m_attrib m ''UdpServer'' x,
                 c_udpPort = attrib_int m ''UdpPort'' x,
                 c_key = m_attrib m ''KEY'' x\<rparr>)))"

lemma attrib_int_bounds: "- (2 ^ 31) \<le> attrib_int m name x" "attrib_int m name x < 2 ^ 31"
  using sint_range_size [of "word_of_int (atol (c_str (m_attrib m name x))) :: u32"]
  by (simp_all add: attrib_int_def atoi_def word_size)

text \<open>Whatever the file says, the limits are usable.\<close>

lemma DaemonInit_bounds:
  assumes "DaemonInit m pid file = Inr cfg"
  shows "1024 \<le> c_maxpoller cfg" "c_maxpoller cfg < 2 ^ 31" "1 \<le> c_webtimeout cfg" "1 \<le> c_helpertimeout cfg"
    "256 \<le> c_backlog cfg"
proof -
  have "\<exists>x. c_maxpoller cfg = at_least 1024 (attrib_int m ''MaxFdCount'' x) \<and>
      c_webtimeout cfg = at_least 1 (attrib_int m ''WebTimeout'' x) \<and>
      c_helpertimeout cfg = at_least 1 (attrib_int m ''HelperTimeout'' x) \<and>
      c_backlog cfg = at_least 256 (attrib_int m ''MaxListenCount'' x)"
    using assms by (force simp: DaemonInit_def split: option.splits if_splits prod.splits)
  then obtain x where x: "c_maxpoller cfg = at_least 1024 (attrib_int m ''MaxFdCount'' x)"
      "c_webtimeout cfg = at_least 1 (attrib_int m ''WebTimeout'' x)"
      "c_helpertimeout cfg = at_least 1 (attrib_int m ''HelperTimeout'' x)"
      "c_backlog cfg = at_least 256 (attrib_int m ''MaxListenCount'' x)"
    by blast
  show "1024 \<le> c_maxpoller cfg" "c_maxpoller cfg < 2 ^ 31" "1 \<le> c_webtimeout cfg" "1 \<le> c_helpertimeout cfg"
    "256 \<le> c_backlog cfg"
    using attrib_int_bounds [of m "''MaxFdCount''" x] by (simp_all add: x at_least_def)
qed

section \<open>The Redis servers: server.xml\<close>

definition server_xml :: "byte list" where
  "server_xml = bytes_of ''../conf/server.xml''"

text \<open>One turn of \<open>while(markup.FindElem("Redis"))\<close> at an element: the pool, or the failure.\<close>

definition add_redis ::
    "('c, 'd) hiredis \<Rightarrow> 'd \<Rightarrow> int \<Rightarrow> byte list \<Rightarrow> int \<Rightarrow> 'c helper_pool \<Rightarrow> 'c helper_pool option" where
  "add_redis api d svid ip port hp = (case map_of (m_redis_map hp) svid of
     Some redis \<Rightarrow> Some hp
   | None \<Rightarrow>
       (let (ret, redis) = redis_Connect api d (redis_new api d ip (word_of_int port) 5)
        in if ret \<noteq> 0 then None else Some (hp\<lparr>m_redis_map := m_redis_map hp @ [(svid, redis)]\<rparr>)))"

partial_function (option) redis_list_loop ::
    "'x markup \<Rightarrow> ('c, 'd) hiredis \<Rightarrow> 'd \<Rightarrow> 'x \<Rightarrow> 'c helper_pool \<Rightarrow> (int \<times> 'x \<times> 'c helper_pool) option" where
  "redis_list_loop m api d x hp =
     (let (found, x1) = m_find m ''Redis'' x
      in if \<not> found then Some (0, x1, hp)
         else (case add_redis api d (attrib_int m ''svid'' x1) (m_attrib m ''ip'' x1) (attrib_int m ''port'' x1) hp of
                 None \<Rightarrow> Some (- 1, x1, hp)
               | Some hp1 \<Rightarrow> redis_list_loop m api d x1 hp1))"

definition InitHelperUnit ::
    "'x markup \<Rightarrow> ('c, 'd) hiredis \<Rightarrow> 'd \<Rightarrow> 'c helper_pool \<Rightarrow> (int \<times> 'c helper_pool) option" where
  "InitHelperUnit m api d hp =
     (case m_load m server_xml of
        None \<Rightarrow> Some (- 1, hp)
      | Some x0 \<Rightarrow>
          (let (f1, x1) = m_find m ''SYSTEM'' x0; (f2, x2) = m_into m x1; (f3, x3) = m_find m ''Node'' x2
           in if \<not> f1 then Some (- 1, hp)
              else if \<not> f2 then Some (- 1, hp)
              else if f3 then
                (let (f4, x4) = m_into m x3; (f5, x5) = m_find m ''RedisList'' x4; (f6, x6) = m_into m x5
                 in if \<not> f4 then Some (- 1, hp)
                    else if \<not> f5 then Some (- 1, hp)
                    else if \<not> f6 then Some (- 1, hp)
                    else do {
                      (ret, x7, hp1) \<leftarrow> redis_list_loop m api d x6 hp;
                      if ret \<noteq> 0 then Some (- 1, hp1)
                      else (let (f8, x8) = m_out m x7; (f9, x9) = m_out m x8
                            in if \<not> f8 then Some (- 1, hp1) else if \<not> f9 then Some (- 1, hp1) else Some (0, hp1)) })
              else (if \<not> fst (m_out m x3) then Some (- 1, hp) else Some (0, hp))))"

section \<open>The logic servers: server.xml\<close>

fun put_level :: "int \<Rightarrow> int \<Rightarrow> (int \<times> int list) list \<Rightarrow> (int \<times> int list) list" where
  "put_level level svid [] = [(level, [svid])]"
| "put_level level svid ((l, v) # m) =
     (if level < l then (level, [svid]) # (l, v) # m
      else if level = l then (l, v @ [svid]) # m
      else (l, v) # put_level level svid m)"

text \<open>One turn of \<open>while(markup.FindElem("Server"))\<close>; \<open>new\<close> throws and does not return \<open>NULL\<close>.\<close>

definition add_server :: "int \<Rightarrow> int \<Rightarrow> byte list \<Rightarrow> int \<Rightarrow> hall \<Rightarrow> hall option" where
  "add_server svid level ip port s =
     (case (case helpermap s svid of Some p \<Rightarrow> p | None \<Rightarrow> Some new_helper_unit) of
        None \<Rightarrow> None
      | Some h \<Rightarrow> Some (s\<lparr>helpermap := (helpermap s)(svid \<mapsto> Some (h\<lparr>hu_addr := ip, hu_port := port\<rparr>)),
          svidlist := svidlist s @ [svid], levelmap := put_level level svid (levelmap s)\<rparr>))"

partial_function (option) server_list_loop :: "'x markup \<Rightarrow> 'x \<Rightarrow> hall \<Rightarrow> (int \<times> 'x \<times> hall) option" where
  "server_list_loop m x s =
     (let (found, x1) = m_find m ''Server'' x
      in if \<not> found then Some (0, x1, s)
         else (case add_server (attrib_int m ''svid'' x1) (attrib_int m ''level'' x1) (m_attrib m ''ip'' x1)
                      (attrib_int m ''port'' x1) s of
                 None \<Rightarrow> Some (- 1, x1, s)
               | Some s1 \<Rightarrow> server_list_loop m x1 s1))"

partial_function (option) cmd_list_loop :: "'x markup \<Rightarrow> 'x \<Rightarrow> hall \<Rightarrow> ('x \<times> hall) option" where
  "cmd_list_loop m x s =
     (let (found, x1) = m_find m ''Cmd'' x
      in if \<not> found then Some (x1, s)
         else cmd_list_loop m x1 (s\<lparr>cmdlist := cmdlist s @ [attrib_int m ''value'' x1]\<rparr>))"

definition forget_servers :: "hall \<Rightarrow> hall" where
  "forget_servers s = s\<lparr>levelmap := [], svidlist := [], helpermap := Map.empty\<rparr>"

definition ResetHelperUnit :: "'x markup \<Rightarrow> hall \<Rightarrow> (int \<times> hall) option" where
  "ResetHelperUnit m s =
     (case m_load m server_xml of
        None \<Rightarrow> Some (- 1, s)
      | Some x0 \<Rightarrow>
          (let (f1, x1) = m_find m ''SYSTEM'' x0; (f2, x2) = m_into m x1; (f3, x3) = m_find m ''Node'' x2;
               s1 = forget_servers s;
               (f4, x4) = m_into m x3; (f5, x5) = m_find m ''ServerList'' x4; (f6, x6) = m_into m x5
           in if \<not> f1 then Some (- 1, s)
              else if \<not> f2 then Some (- 1, s)
              else if \<not> f3 then Some (0, s)
              else if \<not> f4 then Some (- 1, s1)
              else if \<not> f5 then Some (- 1, s1)
              else if \<not> f6 then Some (- 1, s1)
              else do {
                (ret, x7, s2) \<leftarrow> server_list_loop m x6 s1;
                if ret \<noteq> 0 then Some (- 1, s2)
                else (let (f8, x8) = m_out m x7; (f9, x9) = m_find m ''CmdList'' x8; (f10, x10) = m_into m x9
                      in if \<not> f8 then Some (- 1, s2)
                         else if \<not> f9 then Some (- 1, s2)
                         else if \<not> f10 then Some (- 1, s2)
                         else do {
                           (x11, s3) \<leftarrow> cmd_list_loop m x10 (s2\<lparr>cmdlist := []\<rparr>);
                           if \<not> fst (m_out m x11) then Some (- 1, s3) else Some (0, s3) }) }))"

partial_function (option) ip_loop :: "'x markup \<Rightarrow> 'x \<Rightarrow> hall \<Rightarrow> hall option" where
  "ip_loop m x s =
     (let (found, x1) = m_find m ''IP'' x
      in if \<not> found then Some s
         else ip_loop m x1 (s\<lparr>ipmap := (ipmap s)(m_attrib m ''eth0'' x1 \<mapsto> m_attrib m ''eth1'' x1)\<rparr>))"

definition ResetIpMap :: "'x markup \<Rightarrow> hall \<Rightarrow> (int \<times> hall) option" where
  "ResetIpMap m s =
     (case m_load m server_xml of
        None \<Rightarrow> Some (- 1, s)
      | Some x0 \<Rightarrow>
          (let (f1, x1) = m_find m ''SYSTEM'' x0; (f2, x2) = m_into m x1; (f3, x3) = m_find m ''IPMap'' x2;
               (f4, x4) = m_into m x3
           in if \<not> f1 then Some (- 1, s)
              else if \<not> f2 then Some (- 1, s)
              else if \<not> f3 then Some (0, s)
              else if \<not> f4 then Some (- 1, s)
              else map_option (Pair 0) (ip_loop m x4 s)))"
section \<open>Every order finds a Redis server\<close>

definition row_svid :: "'x markup \<Rightarrow> 'x \<Rightarrow> int" where
  "row_svid m y = attrib_int m ''svid'' y"

definition row_redis :: "'x markup \<Rightarrow> ('c, 'd) hiredis \<Rightarrow> 'd \<Rightarrow> 'x \<Rightarrow> 'c redis_helper" where
  "row_redis m api d y =
     snd (redis_Connect api d (redis_new api d (m_attrib m ''ip'' y) (word_of_int (attrib_int m ''port'' y)) 5))"

definition row_connects :: "'x markup \<Rightarrow> ('c, 'd) hiredis \<Rightarrow> 'd \<Rightarrow> 'x \<Rightarrow> bool" where
  "row_connects m api d y \<longleftrightarrow>
     h_connect api d (c_str (m_attrib m ''ip'' y)) (word_of_int (attrib_int m ''port'' y)) 5 \<noteq> None"

text \<open>The servers a list of elements adds: the first element of each number counts.\<close>

primrec add_rows :: "'x markup \<Rightarrow> ('c, 'd) hiredis \<Rightarrow> 'd \<Rightarrow> 'x list \<Rightarrow> (int \<times> 'c redis_helper) list \<Rightarrow> (int \<times> 'c redis_helper) list" where
  "add_rows m api d [] rm = rm"
| "add_rows m api d (y # ys) rm =
     add_rows m api d ys (if row_svid m y \<in> fst ` set rm then rm else rm @ [(row_svid m y, row_redis m api d y)])"

lemma add_redis_row:
  assumes "row_connects m api d y"
  shows "add_redis api d (attrib_int m ''svid'' y) (m_attrib m ''ip'' y) (attrib_int m ''port'' y) hp =
    Some (hp\<lparr>m_redis_map := (if row_svid m y \<in> fst ` set (m_redis_map hp) then m_redis_map hp
       else m_redis_map hp @ [(row_svid m y, row_redis m api d y)])\<rparr>)"
proof (cases "map_of (m_redis_map hp) (attrib_int m ''svid'' y)")
  case None
  moreover from None have "row_svid m y \<notin> fst ` set (m_redis_map hp)" by (simp add: row_svid_def map_of_eq_None_iff)
  moreover have "fst (redis_Connect api d (redis_new api d (m_attrib m ''ip'' y) (word_of_int (attrib_int m ''port'' y)) 5)) = 0"
    using assms by (auto simp: row_connects_def redis_Connect_def redis_new_def)
  ultimately show ?thesis by (simp add: add_redis_def row_redis_def row_svid_def prod.case_eq_if)
next
  case (Some r)
  then have "row_svid m y \<in> fst ` set (m_redis_map hp)" by (force simp: row_svid_def dest: map_of_SomeD)
  with Some show ?thesis by (simp add: add_redis_def)
qed

lemma redis_list_rows:
  assumes "siblings m ''Redis'' x ys e" and "\<forall>y \<in> set ys. row_connects m api d y"
  shows "redis_list_loop m api d x hp = Some (0, e, hp\<lparr>m_redis_map := add_rows m api d ys (m_redis_map hp)\<rparr>)"
  using assms
proof (induction ys arbitrary: x hp)
  case Nil
  then show ?case by (subst redis_list_loop.simps) simp
next
  case (Cons y ys)
  then show ?case by (subst redis_list_loop.simps) (simp add: add_redis_row)
qed

lemma add_rows_fresh:
  assumes "distinct (map (row_svid m) ys)" and "\<forall>y \<in> set ys. row_svid m y \<notin> fst ` set rm"
  shows "add_rows m api d ys rm = rm @ map (\<lambda>y. (row_svid m y, row_redis m api d y)) ys"
  using assms
proof (induction ys arbitrary: rm)
  case (Cons y ys)
  have "\<forall>z \<in> set ys. row_svid m z \<noteq> row_svid m y" using Cons.prems(1) by (metis distinct.simps(2) image_eqI list.simps(9) set_map)
  then have "add_rows m api d ys (rm @ [(row_svid m y, row_redis m api d y)]) =
      (rm @ [(row_svid m y, row_redis m api d y)]) @ map (\<lambda>y. (row_svid m y, row_redis m api d y)) ys"
    using Cons.prems by (intro Cons.IH) auto
  then show ?case using Cons.prems by simp
qed simp

text \<open>The document as \<open>InitHelperUnit\<close> walks through it.\<close>

definition redis_document :: "'x markup \<Rightarrow> 'x list \<Rightarrow> bool" where
  "redis_document m ys \<longleftrightarrow> (\<exists>x0 x1 x2 x3 x4 x5 x6 x7 x8 x9.
     m_load m server_xml = Some x0 \<and> m_find m ''SYSTEM'' x0 = (True, x1) \<and> m_into m x1 = (True, x2) \<and>
     m_find m ''Node'' x2 = (True, x3) \<and> m_into m x3 = (True, x4) \<and> m_find m ''RedisList'' x4 = (True, x5) \<and>
     m_into m x5 = (True, x6) \<and> siblings m ''Redis'' x6 ys x7 \<and> m_out m x7 = (True, x8) \<and> m_out m x8 = (True, x9))"

lemma InitHelperUnit_rows:
  assumes "redis_document m ys" and "\<forall>y \<in> set ys. row_connects m api d y"
  shows "InitHelperUnit m api d hp = Some (0, hp\<lparr>m_redis_map := add_rows m api d ys (m_redis_map hp)\<rparr>)"
  using assms(1) redis_list_rows [OF _ assms(2)] by (auto simp: redis_document_def InitHelperUnit_def)

lemma orders_find_server:
  assumes "redis_document m ys" and "\<forall>y \<in> set ys. row_connects m api d y" and "m_redis_map hp = []"
    and "distinct (map (row_svid m) ys)" and "row_svid m ` set ys = {1 .. int (length ys)}" and "ys \<noteq> []"
  shows "\<exists>hp'. InitHelperUnit m api d hp = Some (0, hp') \<and>
    (\<exists>y \<in> set ys. redis_id oid (length (m_redis_map hp')) = Some (row_svid m y) \<and>
       map_of (m_redis_map hp') (row_svid m y) = Some (row_redis m api d y))"
proof -
  let ?rm = "map (\<lambda>y. (row_svid m y, row_redis m api d y)) ys"
  have rm: "add_rows m api d ys (m_redis_map hp) = ?rm"
    using add_rows_fresh [OF assms(4), of "[]" api d] assms(3) by simp
  have n: "length ys \<noteq> 0" using assms(6) by simp
  define sid where "sid = (let k = int (unat oid mod length ys) in if k = 0 then int (length ys) else k)"
  have id: "redis_id oid (length ?rm) = Some sid" using n by (simp add: redis_id_def sid_def Let_def)
  have "unat oid mod length ys < length ys" using n by simp
  then have "sid \<in> row_svid m ` set ys" unfolding assms(5) sid_def using n
    by (auto simp: Let_def Suc_le_eq)
  then obtain y where y: "y \<in> set ys" "sid = row_svid m y" by blast
  have "distinct (map fst ?rm)" using assms(4) by (simp add: comp_def)
  moreover have "(row_svid m y, row_redis m api d y) \<in> set ?rm" using y(1) by auto
  ultimately have "map_of ?rm (row_svid m y) = Some (row_redis m api d y)" by (rule map_of_is_SomeI)
  with id y show ?thesis using InitHelperUnit_rows [OF assms(1,2), of hp] unfolding rm
    by (intro exI [of _ "hp\<lparr>m_redis_map := ?rm\<rparr>"]) auto
qed
text \<open>
  When \<open>server.xml\<close> lists Redis servers with the numbers 1 to \<open>n\<close>, in any order, and all of them can be
  reached, the start succeeds, and from then on every order number is assigned to a server of the list: the
  connection with the host and port of the element with the number that \<open>__REDIS_ID\<close> computes.
\<close>

theorem every_order_finds_server:
  assumes "redis_document m ys" and "\<forall>y \<in> set ys. row_connects m api d y" and "m_redis_map hp = []"
    and "distinct (map (row_svid m) ys)" and "row_svid m ` set ys = {1 .. int (length ys)}" and "ys \<noteq> []"
  shows "\<exists>hp'. InitHelperUnit m api d hp = Some (0, hp') \<and>
    (\<exists>y \<in> set ys. redis_id oid (length (m_redis_map hp')) = Some (row_svid m y) \<and>
       map_of (m_redis_map hp') (row_svid m y) = Some (row_redis m api d y))"
  using assms by (rule orders_find_server)

section \<open>The table of logic servers after a reload\<close>

definition row_level :: "'x markup \<Rightarrow> 'x \<Rightarrow> int" where
  "row_level m y = attrib_int m ''level'' y"

definition row_helper :: "'x markup \<Rightarrow> 'x \<Rightarrow> helper_unit \<Rightarrow> helper_unit" where
  "row_helper m y h = h\<lparr>hu_addr := m_attrib m ''ip'' y, hu_port := attrib_int m ''port'' y\<rparr>"

definition level_list :: "'x markup \<Rightarrow> 'x list \<Rightarrow> int \<Rightarrow> int list" where
  "level_list m ys l = map (row_svid m) (filter (\<lambda>y. row_level m y = l) ys)"

text \<open>The helper of a number has the address of the last element with it.\<close>

definition configured_helpers :: "'x markup \<Rightarrow> 'x list \<Rightarrow> int \<Rightarrow> helper_unit option option" where
  "configured_helpers m ys i = map_option (\<lambda>y. Some (row_helper m y new_helper_unit)) (find (\<lambda>y. row_svid m y = i) (rev ys))"

definition configured_levels :: "'x markup \<Rightarrow> 'x list \<Rightarrow> int \<Rightarrow> int list option" where
  "configured_levels m ys l = (if l \<in> row_level m ` set ys then Some (level_list m ys l) else None)"

text \<open>What the table holds of the elements read so far: exactly the levels that occur, every list with the numbers of its level
  in the order of the document, and a helper of its own for exactly the numbers that occur.\<close>

definition sorted_levels :: "(int \<times> int list) list \<Rightarrow> bool" where
  "sorted_levels lm \<longleftrightarrow> sorted (map fst lm) \<and> distinct (map fst lm)"

definition table_of :: "'x markup \<Rightarrow> 'x list \<Rightarrow> hall \<Rightarrow> bool" where
  "table_of m ys s \<longleftrightarrow> svidlist s = map (row_svid m) ys \<and> map_of (levelmap s) = configured_levels m ys \<and>
     sorted_levels (levelmap s) \<and> helpermap s = configured_helpers m ys"

lemma configured_helpers_snoc:
  "configured_helpers m (ys @ [y]) = (configured_helpers m ys)(row_svid m y \<mapsto> Some (row_helper m y new_helper_unit))"
  by (auto simp: configured_helpers_def fun_eq_iff)

lemma configured_levels_snoc:
  "configured_levels m (ys @ [y]) = (configured_levels m ys)(row_level m y \<mapsto>
     (case configured_levels m ys (row_level m y) of None \<Rightarrow> [] | Some v \<Rightarrow> v) @ [row_svid m y])"
  by (auto simp: configured_levels_def level_list_def fun_eq_iff filter_empty_conv image_iff)

lemma configured_helper: "configured_helpers m ys i = Some p \<Longrightarrow> \<exists>z. p = Some (row_helper m z new_helper_unit)"
  by (auto simp: configured_helpers_def)

lemma configured_helpers_None: "configured_helpers m ys i = None \<longleftrightarrow> i \<notin> row_svid m ` set ys"
  by (auto simp: configured_helpers_def find_None_iff)

lemma put_level_keys: "fst ` set (put_level l i lm) = insert l (fst ` set lm)"
  by (induction l i lm rule: put_level.induct) auto

lemma put_level_sorted: "sorted_levels lm \<Longrightarrow> sorted_levels (put_level l i lm)"
proof (induction l i lm rule: put_level.induct)
  case (2 level svid l v m)
  have keys: "fst ` set (put_level level svid m) = insert level (fst ` set m)" by (rule put_level_keys)
  from 2 show ?case by (force simp: sorted_levels_def keys)
qed (simp add: sorted_levels_def)

lemma map_of_put_level:
  "sorted_levels lm \<Longrightarrow> map_of (put_level l i lm) =
     (map_of lm)(l \<mapsto> (case map_of lm l of None \<Rightarrow> [] | Some v \<Rightarrow> v) @ [i])"
proof (induction l i lm rule: put_level.induct)
  case (2 level svid l v m)
  then have "level \<notin> fst ` set m" if "level < l" using that by (force simp: sorted_levels_def)
  then have "map_of m level = None" if "level < l" using that by (simp add: map_of_eq_None_iff)
  with 2 show ?case by (auto simp: sorted_levels_def fun_eq_iff)
qed auto

lemma add_server_table:
  assumes t: "table_of m ys s"
  obtains s1 where "add_server (attrib_int m ''svid'' y) (attrib_int m ''level'' y) (m_attrib m ''ip'' y)
      (attrib_int m ''port'' y) s = Some s1" "table_of m (ys @ [y]) s1" "cmdlist s1 = cmdlist s"
    "ipmap s1 = ipmap s" "randCount s1 = randCount s"
proof -
  define i where "i = row_svid m y"
  have i: "attrib_int m ''svid'' y = i" by (simp add: i_def row_svid_def)
  have hm: "helpermap s = configured_helpers m ys" using t by (simp add: table_of_def)
  obtain h where h: "(case helpermap s i of Some p \<Rightarrow> p | None \<Rightarrow> Some new_helper_unit) = Some h"
    "row_helper m y h = row_helper m y new_helper_unit"
  proof (cases "helpermap s i")
    case (Some p)
    then obtain z where "p = Some (row_helper m z new_helper_unit)" using configured_helper unfolding hm by blast
    with Some show ?thesis by (intro that [of "row_helper m z new_helper_unit"]) (simp_all add: row_helper_def)
  qed (use that in simp)
  let ?s1 = "s\<lparr>helpermap := (helpermap s)(i \<mapsto> Some (row_helper m y new_helper_unit)),
    svidlist := svidlist s @ [i], levelmap := put_level (row_level m y) i (levelmap s)\<rparr>"
  have "add_server i (attrib_int m ''level'' y) (m_attrib m ''ip'' y) (attrib_int m ''port'' y) s = Some ?s1"
    using h by (simp add: add_server_def row_level_def row_helper_def)
  moreover have "table_of m (ys @ [y]) ?s1"
  proof -
    have srt: "sorted_levels (levelmap s)" and lv: "map_of (levelmap s) = configured_levels m ys" using t by (simp_all add: table_of_def)
    have "map_of (put_level (row_level m y) i (levelmap s)) = configured_levels m (ys @ [y])"
      unfolding map_of_put_level [OF srt] configured_levels_snoc lv i_def ..
    then show ?thesis using t put_level_sorted [OF srt] by (simp add: table_of_def configured_helpers_snoc hm i_def)
  qed
  ultimately show thesis using that [of ?s1] by (simp add: i)
qed

lemma server_list_rows:
  assumes "siblings m ''Server'' x zs e" and "table_of m ys s"
  shows "\<exists>s'. server_list_loop m x s = Some (0, e, s') \<and> table_of m (ys @ zs) s' \<and> cmdlist s' = cmdlist s \<and>
    ipmap s' = ipmap s \<and> randCount s' = randCount s"
  using assms
proof (induction zs arbitrary: x ys s)
  case Nil
  then show ?case by (subst server_list_loop.simps) simp
next
  case (Cons y zs)
  obtain s1 where s1: "add_server (attrib_int m ''svid'' y) (attrib_int m ''level'' y) (m_attrib m ''ip'' y)
      (attrib_int m ''port'' y) s = Some s1" "table_of m (ys @ [y]) s1" "cmdlist s1 = cmdlist s" "ipmap s1 = ipmap s"
    "randCount s1 = randCount s"
    by (rule add_server_table [where y = y, OF Cons.prems(2)])
  have "siblings m ''Server'' y zs e" using Cons.prems(1) by simp
  from Cons.IH [OF this s1(2)] obtain s' where s': "server_list_loop m y s1 = Some (0, e, s')"
    "table_of m ((ys @ [y]) @ zs) s'" "cmdlist s' = cmdlist s1" "ipmap s' = ipmap s1" "randCount s' = randCount s1"
    by blast
  have "m_find m ''Server'' x = (True, y)" using Cons.prems(1) by simp
  then have "server_list_loop m x s = Some (0, e, s')"
    by (subst server_list_loop.simps) (simp add: s1(1) s'(1))
  moreover have "table_of m (ys @ y # zs) s'" using s'(2) by simp
  ultimately show ?case using s'(3-5) s1(3-5) by auto
qed

lemma cmd_list_rows:
  "siblings m ''Cmd'' x zs e \<Longrightarrow>
   cmd_list_loop m x s = Some (e, s\<lparr>cmdlist := cmdlist s @ map (attrib_int m ''value'') zs\<rparr>)"
proof (induction zs arbitrary: x s)
  case Nil
  then show ?case by (subst cmd_list_loop.simps) simp
next
  case (Cons y zs)
  then show ?case by (subst cmd_list_loop.simps) simp
qed

definition server_document :: "'x markup \<Rightarrow> 'x list \<Rightarrow> 'x list \<Rightarrow> bool" where
  "server_document m ys zs \<longleftrightarrow> (\<exists>x0 x1 x2 x3 x4 x5 x6 x7 x8 x9 x10 x11.
     m_load m server_xml = Some x0 \<and> m_find m ''SYSTEM'' x0 = (True, x1) \<and> m_into m x1 = (True, x2) \<and>
     m_find m ''Node'' x2 = (True, x3) \<and> m_into m x3 = (True, x4) \<and> m_find m ''ServerList'' x4 = (True, x5) \<and>
     m_into m x5 = (True, x6) \<and> siblings m ''Server'' x6 ys x7 \<and> m_out m x7 = (True, x8) \<and>
     m_find m ''CmdList'' x8 = (True, x9) \<and> m_into m x9 = (True, x10) \<and> siblings m ''Cmd'' x10 zs x11 \<and>
     fst (m_out m x11))"

lemma table_of_Nil: "table_of m [] (forget_servers s)"
  by (simp add: table_of_def forget_servers_def configured_levels_def configured_helpers_def sorted_levels_def fun_eq_iff)

lemma reset_table:
  assumes "server_document m ys zs"
  shows "\<exists>s'. ResetHelperUnit m s = Some (0, s') \<and> table_of m ys s' \<and> cmdlist s' = map (attrib_int m ''value'') zs \<and>
    randCount s' = randCount s"
proof -
  obtain x0 x1 x2 x3 x4 x5 x6 x7 x8 x9 x10 x11 where d:
    "m_load m server_xml = Some x0" "m_find m ''SYSTEM'' x0 = (True, x1)" "m_into m x1 = (True, x2)"
    "m_find m ''Node'' x2 = (True, x3)" "m_into m x3 = (True, x4)" "m_find m ''ServerList'' x4 = (True, x5)"
    "m_into m x5 = (True, x6)" "siblings m ''Server'' x6 ys x7" "m_out m x7 = (True, x8)"
    "m_find m ''CmdList'' x8 = (True, x9)" "m_into m x9 = (True, x10)" "siblings m ''Cmd'' x10 zs x11"
    "fst (m_out m x11)"
    using assms unfolding server_document_def by blast
  obtain s2 where s2: "server_list_loop m x6 (forget_servers s) = Some (0, x7, s2)" "table_of m ([] @ ys) s2"
    "randCount s2 = randCount (forget_servers s)"
    using server_list_rows [OF d(8) table_of_Nil] by blast
  let ?s3 = "s2\<lparr>cmdlist := map (attrib_int m ''value'') zs\<rparr>"
  have "ResetHelperUnit m s = Some (0, ?s3)"
    using d s2(1) cmd_list_rows [OF d(12), of "s2\<lparr>cmdlist := []\<rparr>"] by (simp add: ResetHelperUnit_def)
  moreover have "table_of m ys ?s3" using s2(2) by (simp add: table_of_def)
  ultimately show ?thesis using s2(3) by (auto simp: forget_servers_def)
qed

text \<open>
  C19: After a reload of \<open>server.xml\<close> the tables are exactly those of the file: the numbers of the servers and the commands in
  its order; exactly the levels that occur, each once, with the numbers of its servers in order; and a fresh helper for
  exactly the numbers that occur, with the address of the last element that has it. \<open>GetRandomHelper\<close> then gives, for a level
  of the file, a number of that level that has a helper, and none for any other level; it changes none of the tables.
\<close>

theorem reloaded_level_has_helper:
  assumes "server_document m ys zs"
  shows "\<exists>s'. ResetHelperUnit m s = Some (0, s') \<and> svidlist s' = map (row_svid m) ys \<and>
    cmdlist s' = map (attrib_int m ''value'') zs \<and>
    sorted_levels (levelmap s') \<and> map_of (levelmap s') = configured_levels m ys \<and> helpermap s' = configured_helpers m ys \<and>
    (\<forall>random now (l :: 16 word). sint l \<in> row_level m ` set ys \<longrightarrow>
       (\<exists>i n h. GetRandomHelper random now l s' = Some (Some i, s'\<lparr>randCount := n\<rparr>) \<and> i \<in> set (level_list m ys (sint l)) \<and>
          helpermap s' i = Some (Some h))) \<and>
    (\<forall>random now (l :: 16 word). sint l \<notin> row_level m ` set ys \<longrightarrow> GetRandomHelper random now l s' = Some (None, s'))"
proof -
  obtain s' where s': "ResetHelperUnit m s = Some (0, s')" "table_of m ys s'" "cmdlist s' = map (attrib_int m ''value'') zs"
    using reset_table [OF assms] by blast
  then have t: "svidlist s' = map (row_svid m) ys" "sorted_levels (levelmap s')" "map_of (levelmap s') = configured_levels m ys"
    "helpermap s' = configured_helpers m ys" by (simp_all add: table_of_def)
  have "\<exists>i n h. GetRandomHelper random now l s' = Some (Some i, s'\<lparr>randCount := n\<rparr>) \<and> i \<in> set (level_list m ys (sint l)) \<and>
      helpermap s' i = Some (Some h)" if "sint l \<in> row_level m ` set ys" for random now and l :: "16 word"
  proof -
    have v: "level_servers (sint l) s' = Some (level_list m ys (sint l))" and ne: "level_list m ys (sint l) \<noteq> []"
      using that by (auto simp: level_servers_def t(3) configured_levels_def level_list_def filter_empty_conv)
    obtain i n where r: "RandomSvid random now (level_list m ys (sint l)) (randCount s') = Some (i, n)"
      using RandomSvid_defined [OF ne] by blast
    have i: "i \<in> set (level_list m ys (sint l))" by (rule RandomSvid_mem [OF r])
    then have "i \<in> row_svid m ` set ys" by (auto simp: level_list_def)
    then obtain h where h: "helpermap s' i = Some (Some h)"
      using configured_helpers_None [of m ys i] configured_helper [of m ys i] unfolding t(4) by (cases "configured_helpers m ys i") auto
    have "GetRandomHelper random now l s' = Some (Some i, s'\<lparr>randCount := n\<rparr>)"
      using v r h ne by (simp add: GetRandomHelper_def)
    then show ?thesis using i h by blast
  qed
  moreover have "GetRandomHelper random now l s' = Some (None, s')" if "sint l \<notin> row_level m ` set ys" for random now and l :: "16 word"
    using that by (simp add: GetRandomHelper_def level_servers_def t(3) configured_levels_def)
  ultimately show ?thesis using s'(1,3) t by blast
qed

section \<open>An example document\<close>

datatype xml = Elem (x_name: string) (x_attrs: "(string \<times> byte list) list") (x_children: "xml list")

text \<open>The cursor: the element it stands on, the siblings after it, and the elements it is inside of.\<close>

type_synonym xml_cursor = "(xml option \<times> xml list) \<times> (xml \<times> xml list) list"

fun xml_find :: "string \<Rightarrow> xml_cursor \<Rightarrow> bool \<times> xml_cursor" where
  "xml_find name ((c, r), st) = (case dropWhile (\<lambda>e. x_name e \<noteq> name) r of
     [] \<Rightarrow> (False, ((c, r), st)) | e # r1 \<Rightarrow> (True, ((Some e, r1), st)))"

fun xml_into :: "xml_cursor \<Rightarrow> bool \<times> xml_cursor" where
  "xml_into ((Some e, r), st) = (True, ((None, x_children e), (e, r) # st))"
| "xml_into ((None, r), st) = (False, ((None, r), st))"

fun xml_out :: "xml_cursor \<Rightarrow> bool \<times> xml_cursor" where
  "xml_out (p, (e, r) # st) = (True, ((Some e, r), st))"
| "xml_out (p, []) = (False, (p, []))"

fun xml_attrib :: "string \<Rightarrow> xml_cursor \<Rightarrow> byte list" where
  "xml_attrib name ((c, r), st) = (case c of None \<Rightarrow> [] | Some e \<Rightarrow>
     (case map_of (x_attrs e) name of None \<Rightarrow> [] | Some v \<Rightarrow> v))"

definition xml_markup :: "xml \<Rightarrow> xml_cursor markup" where
  "xml_markup root = \<lparr>m_load = \<lambda>_. Some ((None, [root]), []), m_find = xml_find, m_into = xml_into, m_out = xml_out,
     m_attrib = xml_attrib\<rparr>"

definition ex_redis_elem :: "string \<Rightarrow> xml" where
  "ex_redis_elem k = Elem ''Redis'' [(''svid'', bytes_of k), (''ip'', bytes_of ''10.0.0.1''), (''port'', bytes_of ''4501'')] []"

definition ex_server :: "string \<Rightarrow> string \<Rightarrow> xml" where
  "ex_server k l = Elem ''Server'' [(''svid'', bytes_of k), (''level'', bytes_of l), (''ip'', bytes_of ''10.0.0.2'')] []"

definition ex_list :: xml where
  "ex_list = Elem ''RedisList'' [] [ex_redis_elem ''2'', ex_redis_elem ''1'']"

definition ex_servers :: xml where
  "ex_servers = Elem ''ServerList'' [] [ex_server ''3'' ''1'', ex_server ''4'' ''2'']"

definition ex_cmds :: xml where
  "ex_cmds = Elem ''CmdList'' [] [Elem ''Cmd'' [(''value'', bytes_of ''257'')] []]"

definition ex_node :: xml where
  "ex_node = Elem ''Node'' [] [ex_servers, ex_cmds, ex_list]"

definition ex_doc :: xml where
  "ex_doc = Elem ''SYSTEM'' [] [ex_node]"

lemmas ex_xml = ex_redis_elem_def ex_list_def ex_servers_def ex_server_def ex_cmds_def ex_node_def ex_doc_def xml_markup_def

definition ex_redis_rows :: "xml_cursor list" where
  "ex_redis_rows = [((Some (ex_redis_elem ''2''), [ex_redis_elem ''1'']), [(ex_list, []), (ex_node, []), (ex_doc, [])]),
     ((Some (ex_redis_elem ''1''), []), [(ex_list, []), (ex_node, []), (ex_doc, [])])]"

definition ex_server_rows :: "xml_cursor list" where
  "ex_server_rows = [((Some (ex_server ''3'' ''1''), [ex_server ''4'' ''2'']), [(ex_servers, [ex_cmds, ex_list]), (ex_node, []), (ex_doc, [])]),
     ((Some (ex_server ''4'' ''2''), []), [(ex_servers, [ex_cmds, ex_list]), (ex_node, []), (ex_doc, [])])]"

definition ex_cmd_rows :: "xml_cursor list" where
  "ex_cmd_rows = [((Some (Elem ''Cmd'' [(''value'', bytes_of ''257'')] []), []), [(ex_cmds, [ex_list]), (ex_node, []), (ex_doc, [])])]"

lemma ex_redis_document: "redis_document (xml_markup ex_doc) ex_redis_rows"
  by (simp add: redis_document_def ex_redis_rows_def ex_xml)

lemma ex_server_document: "server_document (xml_markup ex_doc) ex_server_rows ex_cmd_rows"
  by (simp add: server_document_def ex_server_rows_def ex_cmd_rows_def ex_xml)

lemma ex_redis_svids: "map (row_svid (xml_markup ex_doc)) ex_redis_rows = [2, 1]"
  by code_simp

lemma ex_server_levels: "map (row_level (xml_markup ex_doc)) ex_server_rows = [1, 2]"
  by code_simp

definition ex_hiredis :: "(unit, unit) hiredis" where
  "ex_hiredis = \<lparr>h_connect = \<lambda>_ _ _ _. Some (), h_command = \<lambda>d _ _. (None, d)\<rparr>"

definition ex_pool :: "unit helper_pool" where
  "ex_pool = \<lparr>m_cmdlist = [], m_objmap = Map.empty, m_redis_map = []\<rparr>"

theorem every_order_finds_server_witness:
  "\<exists>hp'. InitHelperUnit (xml_markup ex_doc) ex_hiredis () ex_pool = Some (0, hp') \<and>
    (\<exists>y \<in> set ex_redis_rows. redis_id 7 (length (m_redis_map hp')) = Some (row_svid (xml_markup ex_doc) y) \<and>
       map_of (m_redis_map hp') (row_svid (xml_markup ex_doc) y) = Some (row_redis (xml_markup ex_doc) ex_hiredis () y))"
proof (rule every_order_finds_server [OF ex_redis_document])
  have "row_svid (xml_markup ex_doc) ` set ex_redis_rows = set [2, 1]"
    by (simp only: set_map [symmetric] ex_redis_svids)
  moreover have "length ex_redis_rows = 2" by (simp add: ex_redis_rows_def)
  ultimately show "row_svid (xml_markup ex_doc) ` set ex_redis_rows = {1 .. int (length ex_redis_rows)}" by auto
  show "distinct (map (row_svid (xml_markup ex_doc)) ex_redis_rows)" by (simp only: ex_redis_svids) simp
qed (simp_all add: row_connects_def ex_hiredis_def ex_pool_def ex_redis_rows_def)

theorem reloaded_level_has_helper_witness:
  "\<exists>s'. ResetHelperUnit (xml_markup ex_doc) ex_hall = Some (0, s') \<and>
    svidlist s' = map (row_svid (xml_markup ex_doc)) ex_server_rows \<and>
    cmdlist s' = map (attrib_int (xml_markup ex_doc) ''value'') ex_cmd_rows \<and>
    helpermap s' = configured_helpers (xml_markup ex_doc) ex_server_rows \<and>
    (\<exists>i n. GetRandomHelper (\<lambda>x. unat x) 5 2 s' = Some (Some i, s'\<lparr>randCount := n\<rparr>) \<and>
       i \<in> set (level_list (xml_markup ex_doc) ex_server_rows 2)) \<and>
    GetRandomHelper (\<lambda>x. unat x) 5 7 s' = Some (None, s')"
proof -
  have "row_level (xml_markup ex_doc) ` set ex_server_rows = set [1, 2]" by (simp only: set_map [symmetric] ex_server_levels)
  then have l: "sint (2 :: 16 word) \<in> row_level (xml_markup ex_doc) ` set ex_server_rows"
    "sint (7 :: 16 word) \<notin> row_level (xml_markup ex_doc) ` set ex_server_rows" by auto
  obtain s' where s': "ResetHelperUnit (xml_markup ex_doc) ex_hall = Some (0, s')"
    "svidlist s' = map (row_svid (xml_markup ex_doc)) ex_server_rows"
    "cmdlist s' = map (attrib_int (xml_markup ex_doc) ''value'') ex_cmd_rows"
    "helpermap s' = configured_helpers (xml_markup ex_doc) ex_server_rows"
    "\<forall>random now (l :: 16 word). sint l \<in> row_level (xml_markup ex_doc) ` set ex_server_rows \<longrightarrow>
       (\<exists>i n h. GetRandomHelper random now l s' = Some (Some i, s'\<lparr>randCount := n\<rparr>) \<and>
          i \<in> set (level_list (xml_markup ex_doc) ex_server_rows (sint l)) \<and> helpermap s' i = Some (Some h))"
    "\<forall>random now (l :: 16 word). sint l \<notin> row_level (xml_markup ex_doc) ` set ex_server_rows \<longrightarrow>
       GetRandomHelper random now l s' = Some (None, s')"
    using reloaded_level_has_helper [OF ex_server_document, of ex_hall] by blast
  show ?thesis
    using s'(1-4) s'(5) [rule_format, OF l(1), of "\<lambda>x. unat x" 5] s'(6) [rule_format, OF l(2), of "\<lambda>x. unat x" 5]
    by (intro exI [of _ s']) auto
qed

end
