(* ===== verification/Listener.thy ===== *)
theory Listener
  imports GameUnit
begin

text \<open>
  Accepting connections: \<open>CListener\<close> (\<open>proxy/listener.h\<close>, \<open>listener.cpp\<close>) and \<open>CDecoderUnit::listener_input\<close>
  (\<open>decode_unit.cpp\<close>). The answers of \<open>::accept\<close>, one after the other, and the success of each allocation and of
  \<open>AttachPoller\<close> are arguments, numbered by the calls made so far. The timers handed to a connection are not
  modelled, \<open>TimerList\<close> is.
\<close>

section \<open>State\<close>

datatype accept_answer = Accepted int u32 | AcceptEINTR | AcceptEAGAIN | AcceptError

text \<open>\<open>a_unit\<close>: the \<open>CDecoderUnit\<close> can be created; \<open>a_web\<close>, \<open>a_game\<close>: its two members; \<open>a_attach\<close>: the poller
  accepts the connection.\<close>

record accept_env =
  a_accept :: "nat \<Rightarrow> accept_answer"
  a_unit :: "nat \<Rightarrow> bool"
  a_web :: "nat \<Rightarrow> bool"
  a_game :: "nat \<Rightarrow> bool"
  a_attach :: "nat \<Rightarrow> bool"

record decoder =
  d_fd :: int
  d_ip :: u32
  d_web :: "client_unit option"
  d_game :: "game_unit option"
  d_type :: conn_type

record listener =
  accept_cnt :: nat
  newfd_cnt :: nat
  fd_array :: "int list"
  peers :: "u32 list"
  calls :: nat
  made :: nat
  units :: "decoder list"
  closed :: "int list"

definition new_listener :: "nat \<Rightarrow> listener" where
  "new_listener acceptcnt = \<lparr>accept_cnt = acceptcnt, newfd_cnt = 0, fd_array = replicate acceptcnt (- 1),
     peers = replicate acceptcnt 0, calls = 0, made = 0, units = [], closed = []\<rparr>"

section \<open>Operations\<close>

definition create_decoderunit :: "bool \<Rightarrow> int \<Rightarrow> decoder option" where
  "create_decoderunit ok fd =
     (if \<not> ok then None
      else Some \<lparr>d_fd = fd, d_ip = 0, d_web = None, d_game = None, d_type = CONN_OTHER\<rparr>)"

definition listener_input :: "accept_env \<Rightarrow> nat \<Rightarrow> decoder \<Rightarrow> int \<times> decoder" where
  "listener_input env k d =
     (if \<not> a_web env k then (- 1, d\<lparr>d_web := None\<rparr>)
      else let web = new_client_unit (d_fd d)
           in if \<not> a_game env k then (- 1, d\<lparr>d_web := Some web, d_game := None\<rparr>)
              else let (r, web1) = Attach (a_attach env k) (web\<lparr>netfd := d_fd d\<rparr>);
                       d1 = d\<lparr>d_web := Some web1, d_game := Some new_game_unit\<rparr>
                   in if r = - 1 then (- 1, d1) else (0, d1))"

definition close_slot :: "nat \<Rightarrow> listener \<Rightarrow> listener" where
  "close_slot i s = s\<lparr>closed := closed s @ [fd_array s ! i], fd_array := (fd_array s)[i := - 1]\<rparr>"

text \<open>
  One turn of the loop of \<open>proc_request\<close>. When \<open>listener_input\<close> fails, the decoder is deleted, its pointer set to
  \<open>NULL\<close>, and then dereferenced.
\<close>

definition request_turn :: "accept_env \<Rightarrow> nat \<Rightarrow> listener \<Rightarrow> listener option" where
  "request_turn env i s =
     (if i \<ge> length (fd_array s) then None
      else let fd = fd_array s ! i
           in if fd = - 1 then Some s
              else (case create_decoderunit (a_unit env (made s)) fd of
                      None \<Rightarrow> Some (close_slot i (s\<lparr>made := made s + 1\<rparr>))
                    | Some d \<Rightarrow>
                        (let (r, d1) = listener_input env (made s) (d\<lparr>d_ip := peers s ! i\<rparr>)
                         in if r < 0 then None
                            else (case d_web d1 of
                                    None \<Rightarrow> None
                                  | Some web \<Rightarrow>
                                      Some (s\<lparr>made := made s + 1,
                                              units := units s @ [d1\<lparr>d_web := Some (web\<lparr>netfd := fd\<rparr>)\<rparr>]\<rparr>)))))"

primrec request_loop :: "accept_env \<Rightarrow> nat \<Rightarrow> nat \<Rightarrow> listener \<Rightarrow> listener option" where
  "request_loop env 0 i s = Some s"
| "request_loop env (Suc k) i s = do { s1 \<leftarrow> request_turn env i s; request_loop env k (i + 1) s1 }"

definition proc_request :: "accept_env \<Rightarrow> listener \<Rightarrow> listener option" where
  "proc_request env s = request_loop env (newfd_cnt s) 0 s"

definition took :: "nat \<Rightarrow> int \<Rightarrow> listener \<Rightarrow> listener" where
  "took i fd s = s\<lparr>fd_array := (fd_array s)[i := fd], newfd_cnt := newfd_cnt s + 1\<rparr>"

primrec accept_loop :: "accept_env \<Rightarrow> nat \<Rightarrow> nat \<Rightarrow> listener \<Rightarrow> int \<times> listener" where
  "accept_loop env 0 i s = (0, s)"
| "accept_loop env (Suc k) i s =
     (let s1 = s\<lparr>calls := calls s + 1\<rparr>
      in case a_accept env (calls s) of
           Accepted fd ip \<Rightarrow> accept_loop env k (i + 1) (took i fd (s1\<lparr>peers := (peers s)[i := ip]\<rparr>))
         | AcceptEINTR \<Rightarrow> accept_loop env k (i + 1) s1
         | AcceptEAGAIN \<Rightarrow> (- 1, s1)
         | AcceptError \<Rightarrow> accept_loop env k (i + 1) (took i (- 1) s1))"

definition proc_accept :: "accept_env \<Rightarrow> listener \<Rightarrow> int \<times> listener" where
  "proc_accept env s =
     accept_loop env (accept_cnt s) 0 (s\<lparr>fd_array := replicate (accept_cnt s) (- 1), newfd_cnt := 0\<rparr>)"

partial_function (option) listener_InputNotify :: "accept_env \<Rightarrow> listener \<Rightarrow> (poller_state \<times> listener) option" where
  "listener_InputNotify env s =
     (let (ret, s1) = proc_accept env s
      in if newfd_cnt s1 \<le> 0 then Some (POLLER_SUCC, s1)
         else Option.bind (proc_request env s1)
                (\<lambda>s2. if ret < 0 then Some (POLLER_SUCC, s2) else listener_InputNotify env s2))"

section \<open>Every connection gets its units\<close>

text \<open>The calls of \<open>::accept\<close> from call \<open>c\<close> on give these connections.\<close>

primrec accepts :: "accept_env \<Rightarrow> nat \<Rightarrow> (int \<times> u32) list \<Rightarrow> bool" where
  "accepts env c [] = True"
| "accepts env c (x # xs) = (a_accept env c = Accepted (fst x) (snd x) \<and> accepts env (c + 1) xs)"

definition allocs :: "accept_env \<Rightarrow> bool" where
  "allocs env \<longleftrightarrow> (\<forall>k. a_unit env k \<and> a_web env k \<and> a_game env k \<and> a_attach env k)"

definition fresh_unit :: "int \<times> u32 \<Rightarrow> decoder" where
  "fresh_unit x = \<lparr>d_fd = fst x, d_ip = snd x,
     d_web = Some ((new_client_unit (fst x))\<lparr>new_in := True, old_in := True\<rparr>),
     d_game = Some new_game_unit, d_type = CONN_OTHER\<rparr>"

lemma accepts_append: "accepts env c (xs @ ys) \<longleftrightarrow> accepts env c xs \<and> accepts env (c + length xs) ys"
  by (induction xs arbitrary: c) simp_all

lemma accept_loop_full:
  assumes "accepts env (calls s) xs" and "length (fd_array s) = i + length xs" and "length (peers s) = i + length xs"
  shows "accept_loop env (length xs) i s =
           (0, s\<lparr>calls := calls s + length xs, newfd_cnt := newfd_cnt s + length xs,
                 fd_array := take i (fd_array s) @ map fst xs, peers := take i (peers s) @ map snd xs\<rparr>)"
  using assms
proof (induction xs arbitrary: i s)
  case (Cons x xs)
  let ?s = "took i (fst x) (s\<lparr>calls := calls s + 1, peers := (peers s)[i := snd x]\<rparr>)"
  have "take (i + 1) ((fd_array s)[i := fst x]) = take i (fd_array s) @ [fst x]"
    "take (i + 1) ((peers s)[i := snd x]) = take i (peers s) @ [snd x]"
    using Cons.prems(2,3) by (simp_all add: take_Suc_conv_app_nth)
  moreover have "accept_loop env (length (x # xs)) i s = accept_loop env (length xs) (i + 1) ?s"
    using Cons.prems(1) by simp
  ultimately show ?case using Cons.IH [of ?s "i + 1"] Cons.prems by (simp add: took_def)
qed simp

lemma accept_loop_again:
  assumes "accepts env (calls s) xs" and "a_accept env (calls s + length xs) = AcceptEAGAIN"
    and "length (fd_array s) = i + k" and "length (peers s) = i + k" and "length xs < k"
  shows "accept_loop env k i s =
           (- 1, s\<lparr>calls := calls s + length xs + 1, newfd_cnt := newfd_cnt s + length xs,
                 fd_array := take i (fd_array s) @ map fst xs @ drop (i + length xs) (fd_array s),
                 peers := take i (peers s) @ map snd xs @ drop (i + length xs) (peers s)\<rparr>)"
  using assms
proof (induction xs arbitrary: i k s)
  case Nil
  then obtain k' where "k = Suc k'" by (cases k) auto
  then show ?case using Nil by simp
next
  case (Cons x xs)
  then obtain k' where k: "k = Suc k'" by (cases k) auto
  let ?s = "took i (fst x) (s\<lparr>calls := calls s + 1, peers := (peers s)[i := snd x]\<rparr>)"
  have "take (i + 1) ((fd_array s)[i := fst x]) = take i (fd_array s) @ [fst x]"
    "take (i + 1) ((peers s)[i := snd x]) = take i (peers s) @ [snd x]"
    using Cons.prems(3,4) k by (simp_all add: take_Suc_conv_app_nth)
  moreover have "accept_loop env k i s = accept_loop env k' (i + 1) ?s" using Cons.prems(1) by (simp add: k)
  ultimately show ?case using Cons.IH [of ?s "i + 1" k'] Cons.prems by (simp add: took_def k)
qed

lemma request_turn_ok:
  assumes "allocs env" and "i < length (fd_array s)" and "fd_array s ! i = fst x" and "peers s ! i = snd x" and "fst x \<ge> 0"
  shows "request_turn env i s = Some (s\<lparr>made := made s + 1, units := units s @ [fresh_unit x]\<rparr>)"
  using assms
  by (simp add: request_turn_def create_decoderunit_def listener_input_def allocs_def Attach_def EnableInput_def
      ApplyEvents_def new_client_unit_def fresh_unit_def Let_def)

lemma request_loop_ok:
  assumes "allocs env" and "fd_array s = pf @ map fst xs @ tf" and "peers s = pp @ map snd xs @ tp"
    and "length pf = i" and "length pp = i" and "\<forall>x \<in> set xs. fst x \<ge> 0"
  shows "request_loop env (length xs) i s =
    Some (s\<lparr>made := made s + length xs, units := units s @ map fresh_unit xs\<rparr>)"
  using assms
proof (induction xs arbitrary: i s pf pp)
  case (Cons x xs)
  let ?s = "s\<lparr>made := made s + 1, units := units s @ [fresh_unit x]\<rparr>"
  have "request_turn env i s = Some ?s"
    by (rule request_turn_ok) (use Cons.prems in \<open>auto simp: nth_append\<close>)
  then show ?case
    using Cons.IH [of ?s "pf @ [fst x]" "pp @ [snd x]" "i + 1"] Cons.prems by simp
qed simp
definition after_accepts :: "(int \<times> u32) list \<Rightarrow> listener \<Rightarrow> listener" where
  "after_accepts xs s = s\<lparr>calls := calls s + length xs, made := made s + length xs, units := units s @ map fresh_unit xs\<rparr>"

text \<open>The state apart from the two arrays, which the next call overwrites.\<close>

definition no_arrays :: "listener \<Rightarrow> listener" where
  "no_arrays s = s\<lparr>fd_array := [], peers := [], newfd_cnt := 0\<rparr>"

lemma full_batch:
  assumes "allocs env" and "accepts env (calls s) xs" and "length xs = accept_cnt s" and "length (peers s) = accept_cnt s"
    and "\<forall>x \<in> set xs. fst x \<ge> 0" and "xs \<noteq> []"
  obtains s2 where "listener_InputNotify env s = listener_InputNotify env s2"
    "no_arrays s2 = no_arrays (after_accepts xs s)" "length (peers s2) = accept_cnt s"
proof -
  let ?s0 = "s\<lparr>fd_array := replicate (accept_cnt s) (- 1), newfd_cnt := 0\<rparr>"
  let ?s1 = "?s0\<lparr>calls := calls s + length xs, newfd_cnt := length xs, fd_array := map fst xs, peers := map snd xs\<rparr>"
  let ?s2 = "?s1\<lparr>made := made s + length xs, units := units s @ map fresh_unit xs\<rparr>"
  have "proc_accept env s = (0, ?s1)"
    using accept_loop_full [of env ?s0 xs 0] assms(2,3,4) by (simp add: proc_accept_def)
  moreover have "proc_request env ?s1 = Some ?s2"
    using request_loop_ok [OF assms(1), of ?s1 "[]" xs "[]" "[]" "[]" 0] assms(5) by (simp add: proc_request_def)
  ultimately have "listener_InputNotify env s = listener_InputNotify env ?s2"
    using assms(6) by (subst listener_InputNotify.simps) simp
  then show thesis
    by (rule that) (use assms(3) in \<open>simp_all add: no_arrays_def after_accepts_def\<close>)
qed

lemma last_batch:
  assumes "allocs env" and "accepts env (calls s) xs" and "a_accept env (calls s + length xs) = AcceptEAGAIN"
    and "length xs < accept_cnt s" and "length (peers s) = accept_cnt s" and "\<forall>x \<in> set xs. fst x \<ge> 0"
  obtains s2 where "listener_InputNotify env s = Some (POLLER_SUCC, s2)"
    "no_arrays s2 = (no_arrays (after_accepts xs s))\<lparr>calls := calls s + length xs + 1\<rparr>"
proof -
  let ?s0 = "s\<lparr>fd_array := replicate (accept_cnt s) (- 1), newfd_cnt := 0\<rparr>"
  let ?s1 = "?s0\<lparr>calls := calls s + length xs + 1, newfd_cnt := length xs,
     fd_array := map fst xs @ drop (length xs) (replicate (accept_cnt s) (- 1)),
     peers := map snd xs @ drop (length xs) (peers s)\<rparr>"
  let ?s2 = "?s1\<lparr>made := made s + length xs, units := units s @ map fresh_unit xs\<rparr>"
  have "proc_accept env s = (- 1, ?s1)"
    using accept_loop_again [of env ?s0 xs 0 "accept_cnt s"] assms(2-5) by (simp add: proc_accept_def)
  moreover have "proc_request env ?s1 = Some ?s2"
    using request_loop_ok [OF assms(1), of ?s1 "[]" xs _ "[]"] assms(6) by (simp add: proc_request_def)
  ultimately have "\<exists>s2. listener_InputNotify env s = Some (POLLER_SUCC, s2) \<and>
      no_arrays s2 = (no_arrays (after_accepts xs s))\<lparr>calls := calls s + length xs + 1\<rparr>"
    by (cases xs; subst listener_InputNotify.simps) (simp_all add: no_arrays_def after_accepts_def)
  with that show thesis by blast
qed

lemma all_accepted:
  assumes "allocs env" and "accepts env (calls s) xs" and "a_accept env (calls s + length xs) = AcceptEAGAIN"
    and "accept_cnt s > 0" and "length (peers s) = accept_cnt s" and "\<forall>x \<in> set xs. fst x \<ge> 0"
  shows "\<exists>s2. listener_InputNotify env s = Some (POLLER_SUCC, s2) \<and>
    no_arrays s2 = (no_arrays (after_accepts xs s))\<lparr>calls := calls s + length xs + 1\<rparr>"
  using assms(2-6)
proof (induction "length xs" arbitrary: xs s rule: less_induct)
  case less
  show ?case
  proof (cases "length xs < accept_cnt s")
    case True
    then show ?thesis using last_batch [OF assms(1) less.prems(1,2) True less.prems(4,5)] by blast
  next
    case False
    define ys zs where "ys = take (accept_cnt s) xs" and "zs = drop (accept_cnt s) xs"
    have xs: "xs = ys @ zs" "length ys = accept_cnt s" using False by (auto simp: ys_def zs_def)
    have acc: "accepts env (calls s) ys" "accepts env (calls s + length ys) zs"
      using less.prems(1) by (simp_all add: xs(1) accepts_append)
    have nn: "\<forall>x \<in> set ys. fst x \<ge> 0" "\<forall>x \<in> set zs. fst x \<ge> 0" using less.prems(5) by (auto simp: xs(1))
    have "ys \<noteq> []" using xs(2) less.prems(3) by auto
    then obtain s1 where s1: "listener_InputNotify env s = listener_InputNotify env s1"
      "no_arrays s1 = no_arrays (after_accepts ys s)" "length (peers s1) = accept_cnt s"
      using full_batch [OF assms(1) acc(1) xs(2) less.prems(4) nn(1)] by blast
    have f: "calls s1 = calls s + length ys" "accept_cnt s1 = accept_cnt s" "units s1 = units s @ map fresh_unit ys"
      "made s1 = made s + length ys" "closed s1 = closed s"
      using arg_cong [OF s1(2), of calls] arg_cong [OF s1(2), of accept_cnt] arg_cong [OF s1(2), of units]
        arg_cong [OF s1(2), of made] arg_cong [OF s1(2), of closed]
      by (simp_all add: no_arrays_def after_accepts_def)
    have "length zs < length xs" using xs less.prems(3) by simp
    moreover have "accepts env (calls s1) zs" using acc(2) by (simp add: f(1))
    moreover have "a_accept env (calls s1 + length zs) = AcceptEAGAIN"
      using less.prems(2) by (simp add: f(1) xs(1) add.assoc)
    moreover have "accept_cnt s1 > 0" "length (peers s1) = accept_cnt s1" using less.prems(3) s1(3) by (simp_all add: f(2))
    ultimately obtain s2 where "listener_InputNotify env s1 = Some (POLLER_SUCC, s2)"
      "no_arrays s2 = (no_arrays (after_accepts zs s1))\<lparr>calls := calls s1 + length zs + 1\<rparr>"
      using less.hyps nn(2) by blast
    moreover have "(no_arrays (after_accepts zs s1))\<lparr>calls := calls s1 + length zs + 1\<rparr> =
      (no_arrays (after_accepts xs s))\<lparr>calls := calls s + length xs + 1\<rparr>"
      by (simp add: no_arrays_def after_accepts_def f xs(1) add.assoc)
    ultimately show ?thesis using s1(1) by auto
  qed
qed

text \<open>
  C7: However many connections are waiting, one call of the listener's \<open>InputNotify\<close> takes them all, in as many
  batches as it needs: it returns, and every connection got its unit, in order, with its socket and address, and
  attached to the poller; none was closed.
\<close>

theorem waiting_connections_accepted:
  assumes "allocs env" and "accepts env (calls s) xs" and "a_accept env (calls s + length xs) = AcceptEAGAIN"
    and "accept_cnt s > 0" and "length (peers s) = accept_cnt s" and "\<forall>x \<in> set xs. fst x \<ge> 0"
  shows "\<exists>s2. listener_InputNotify env s = Some (POLLER_SUCC, s2) \<and> units s2 = units s @ map fresh_unit xs \<and>
    calls s2 = calls s + length xs + 1 \<and> closed s2 = closed s"
proof -
  obtain s2 where s2: "listener_InputNotify env s = Some (POLLER_SUCC, s2)"
    "no_arrays s2 = (no_arrays (after_accepts xs s))\<lparr>calls := calls s + length xs + 1\<rparr>"
    using all_accepted [OF assms] by blast
  have "units s2 = units s @ map fresh_unit xs" "calls s2 = calls s + length xs + 1" "closed s2 = closed s"
    using arg_cong [OF s2(2), of units] arg_cong [OF s2(2), of calls] arg_cong [OF s2(2), of closed]
    by (simp_all add: no_arrays_def after_accepts_def)
  with s2(1) show ?thesis by blast
qed

definition ex_accept :: "accept_answer list \<Rightarrow> accept_env" where
  "ex_accept as = \<lparr>a_accept = \<lambda>i. if i < length as then as ! i else AcceptEAGAIN, a_unit = \<lambda>_. True,
     a_web = \<lambda>_. True, a_game = \<lambda>_. True, a_attach = \<lambda>_. True\<rparr>"

theorem waiting_connections_accepted_witness:
  "\<exists>s2. listener_InputNotify (ex_accept [Accepted 5 1, Accepted 6 2, Accepted 7 3]) (new_listener 2) = Some (POLLER_SUCC, s2) \<and>
     units s2 = units (new_listener 2) @ map fresh_unit [(5, 1), (6, 2), (7, 3)] \<and>
     calls s2 = calls (new_listener 2) + length [(5 :: int, 1 :: u32), (6, 2), (7, 3)] + 1 \<and> closed s2 = closed (new_listener 2)"
  by (rule waiting_connections_accepted)
    (simp_all add: ex_accept_def allocs_def new_listener_def numeral_2_eq_2 numeral_3_eq_3)
section \<open>Errors of accept\<close>

lemma accept_loop_errors:
  assumes "\<forall>j \<ge> calls s. a_accept env j = AcceptError" and "fd_array s = replicate (i + k) (- 1)"
  shows "accept_loop env k i s = (0, s\<lparr>calls := calls s + k, newfd_cnt := newfd_cnt s + k\<rparr>)"
  using assms
proof (induction k arbitrary: i s)
  case (Suc k)
  have "(replicate (i + Suc k) (- 1 :: int))[i := - 1] = replicate (i + Suc k) (- 1)"
    using list_update_id [of "replicate (i + Suc k) (- 1)" i] by (simp add: nth_replicate del: replicate_Suc)
  then have t: "took i (- 1) (s\<lparr>calls := calls s + 1\<rparr>) = s\<lparr>calls := calls s + 1, newfd_cnt := newfd_cnt s + 1\<rparr>"
    using Suc.prems(2) by (simp add: took_def)
  show ?case
    using Suc.prems(1) Suc.IH [of "s\<lparr>calls := calls s + 1, newfd_cnt := newfd_cnt s + 1\<rparr>" "i + 1"] Suc.prems
    by (simp add: t [simplified])
qed simp

lemma request_loop_nothing:
  "\<forall>j < i + k. j < length (fd_array s) \<and> fd_array s ! j = - 1 \<Longrightarrow> request_loop env k i s = Some s"
proof (induction k arbitrary: i)
  case (Suc k)
  from Suc.prems have "i < length (fd_array s)" "fd_array s ! i = - 1" by simp_all
  then have "request_turn env i s = Some s" by (simp add: request_turn_def)
  then show ?case using Suc.IH [of "i + 1"] Suc.prems by simp
qed simp

lemma error_round:
  assumes "\<forall>j \<ge> calls s. a_accept env j = AcceptError" and "accept_cnt s > 0"
  obtains s1 where "proc_accept env s = (0, s1)" "newfd_cnt s1 > 0" "proc_request env s1 = Some s1"
    "calls s \<le> calls s1" "accept_cnt s1 = accept_cnt s"
proof -
  let ?s0 = "s\<lparr>fd_array := replicate (accept_cnt s) (- 1), newfd_cnt := 0\<rparr>"
  let ?s1 = "?s0\<lparr>calls := calls s + accept_cnt s, newfd_cnt := accept_cnt s\<rparr>"
  have "proc_accept env s = (0, ?s1)"
    using accept_loop_errors [of ?s0 env 0 "accept_cnt s"] assms(1) by (simp add: proc_accept_def)
  moreover have "proc_request env ?s1 = Some ?s1" by (simp add: proc_request_def request_loop_nothing)
  ultimately show thesis using assms(2) by (intro that [of ?s1]) simp_all
qed

lemma errors_spin:
  "listener_InputNotify env s = Some x \<Longrightarrow> (\<forall>j \<ge> calls s. a_accept env j = AcceptError) \<Longrightarrow> accept_cnt s > 0 \<Longrightarrow> False"
proof (induction rule: listener_InputNotify.raw_induct [rotated, consumes 1])
  case (1 notify env s x)
  obtain s1 where s1: "proc_accept env s = (0, s1)" "newfd_cnt s1 > 0" "proc_request env s1 = Some s1"
    "calls s \<le> calls s1" "accept_cnt s1 = accept_cnt s"
    by (rule error_round [OF 1(3,4)])
  then have "notify env s1 = Some x" using 1(2) by simp
  from 1(1) [OF this] show ?case using 1(3,4) s1(4,5) by simp
qed

text \<open>
  C36: An error of \<open>::accept\<close> that lasts, for example because the process is out of file descriptors, is counted
  as a new connection: every batch is full, and the call of \<open>InputNotify\<close>, with it the whole server, never ends.
\<close>

theorem lasting_accept_error_spins:
  assumes "\<forall>j \<ge> calls s. a_accept env j = AcceptError" and "accept_cnt s > 0"
  shows "listener_InputNotify env s = None"
  using errors_spin [OF _ assms] by (cases "listener_InputNotify env s") auto

theorem lasting_accept_error_spins_witness:
  "listener_InputNotify ((ex_accept [])\<lparr>a_accept := \<lambda>_. AcceptError\<rparr>) (new_listener 256) = None"
  by (rule lasting_accept_error_spins) (simp_all add: new_listener_def)

text \<open>
  A call of \<open>::accept\<close> that is interrupted by a signal leaves a hole in the array of sockets, but the sockets
  are counted, not their places: the last connection of the batch gets no unit and its socket is not closed.
\<close>

theorem interrupted_accept_leaks:
  assumes "allocs env" and "a_accept env (calls s) = AcceptEINTR" and "accepts env (calls s + 1) (xs @ [x])"
    and "a_accept env (calls s + 2 + length xs) = AcceptEAGAIN"
    and "length xs + 2 < accept_cnt s" and "length (peers s) = accept_cnt s" and "\<forall>x \<in> set xs. fst x \<ge> 0"
  shows "\<exists>s2. listener_InputNotify env s = Some (POLLER_SUCC, s2) \<and> units s2 = units s @ map fresh_unit xs \<and>
    closed s2 = closed s"
proof -
  let ?n = "accept_cnt s" and ?ys = "xs @ [x]"
  let ?s0 = "s\<lparr>fd_array := replicate ?n (- 1), newfd_cnt := 0, calls := calls s + 1\<rparr>"
  obtain k where n: "?n = Suc k" using assms(5) by (cases ?n) auto
  define s1 where "s1 = ?s0\<lparr>calls := calls s + length xs + 3, newfd_cnt := length xs + 1,
     fd_array := [- 1] @ map fst ?ys @ drop (1 + length ?ys) (replicate ?n (- 1)),
     peers := take 1 (peers s) @ map snd ?ys @ drop (1 + length ?ys) (peers s)\<rparr>"
  have "accept_loop env k 1 ?s0 = (- 1, s1)"
    using accept_loop_again [of env ?s0 ?ys 1 k] assms(3-6) n by (simp add: s1_def numeral_eq_Suc)
  then have a: "proc_accept env s = (- 1, s1)" using assms(2) n by (simp add: proc_accept_def)
  let ?s2 = "s1\<lparr>made := made s1 + length xs, units := units s1 @ map fresh_unit xs\<rparr>"
  have rest: "request_loop env (length xs) 1 s1 = Some ?s2"
    by (rule request_loop_ok [OF assms(1), of _ "[- 1]" _ "[fst x] @ drop (1 + length ?ys) (replicate ?n (- 1))"
          "take 1 (peers s)" "[snd x] @ drop (1 + length ?ys) (peers s)"])
      (use assms(5,6,7) in \<open>simp_all add: s1_def\<close>)
  have "newfd_cnt s1 = Suc (length xs)" "request_turn env 0 s1 = Some s1" by (simp_all add: s1_def request_turn_def Let_def)
  with rest have "proc_request env s1 = Some ?s2" by (simp add: proc_request_def)
  with a have "listener_InputNotify env s = Some (POLLER_SUCC, ?s2)"
    by (subst listener_InputNotify.simps) (simp add: s1_def)
  then show ?thesis by (simp add: s1_def)
qed

theorem interrupted_accept_leaks_witness:
  "\<exists>s2. listener_InputNotify (ex_accept [AcceptEINTR, Accepted 5 1, Accepted 6 2]) (new_listener 4) = Some (POLLER_SUCC, s2) \<and>
     units s2 = units (new_listener 4) @ map fresh_unit [(5, 1)] \<and> closed s2 = closed (new_listener 4)"
  by (rule interrupted_accept_leaks [where x = "(6, 2)"])
    (simp_all add: ex_accept_def allocs_def new_listener_def)

text \<open>
  A connection whose units cannot be set up ends the server: the deleted \<open>CDecoderUnit\<close> is used through a null pointer.
\<close>

theorem failed_setup_ends_server:
  assumes "a_unit env (made s)" and "\<not> a_web env (made s) \<or> \<not> a_game env (made s) \<or> \<not> a_attach env (made s)"
    and "newfd_cnt s > 0" and "fd_array s = fd # fds" and "fd \<noteq> - 1"
  shows "proc_request env s = None"
proof -
  obtain k where "newfd_cnt s = Suc k" using assms(3) by (cases "newfd_cnt s") auto
  moreover have "request_turn env 0 s = None"
    using assms by (auto simp: request_turn_def create_decoderunit_def listener_input_def Attach_def Let_def)
  ultimately show ?thesis by (simp add: proc_request_def)
qed

theorem failed_setup_ends_server_witness:
  "proc_request ((ex_accept [])\<lparr>a_attach := \<lambda>_. False\<rparr>) ((new_listener 2)\<lparr>newfd_cnt := 1, fd_array := [5, - 1]\<rparr>) = None"
  by (rule failed_setup_ends_server [where fd = 5 and fds = "[- 1]"])
    (simp_all add: ex_accept_def new_listener_def)

end
