(* ===== verification/ServerLoop.thy ===== *)
theory ServerLoop
  imports ServerConfig Listener Poller TimerList
begin

text \<open>
  The server as a whole: \<open>CIncoming::open\<close> and \<open>run\<close> (\<open>proxy/incoming.cpp\<close>) put the poller, the timers, the
  listener and the configuration together. The links and expiry times of the timers are part of the state the
  poller's callbacks work on: \<open>timers_of\<close> is that state as the timer functions see it, \<open>of_timers\<close> puts it back.
  The clock is a function of the number of times it was read. The notifications of the connections'
  timers have the contract of \<open>timer_callback\<close>, from which it follows what an expired timer does.
\<close>

section \<open>State\<close>

record 'k sys =
  s_kernel :: 'k
  s_links :: links
  s_objexp :: "nat \<Rightarrow> int"

type_synonym 'k loop_state = "'k sys poll_state"

definition timers_of :: "'k loop_state \<Rightarrow> 'k loop_state timers" where
  "timers_of st = \<lparr>lk = s_links (kernel st), objexp = s_objexp (kernel st), world = st\<rparr>"

definition of_timers :: "'k loop_state timers \<Rightarrow> 'k loop_state" where
  "of_timers w = (world w)\<lparr>kernel := (kernel (world w))\<lparr>s_links := lk w, s_objexp := objexp w\<rparr>\<rparr>"

text \<open>The constructors of \<open>CTimerUnit\<close>, whose address for the pending timers is \<open>a\<close>, and of a timer object.\<close>

definition new_timer_unit :: "nat \<Rightarrow> 'w timers \<Rightarrow> timer_unit \<times> 'w timers" where
  "new_timer_unit a w = (\<lparr>tu_pending = a, tu_next = []\<rparr>, w\<lparr>lk := INIT_LIST_HEAD a (lk w)\<rparr>)"

definition new_timer :: "nat \<Rightarrow> 'w timers \<Rightarrow> 'w timers" where
  "new_timer t w = w\<lparr>lk := INIT_LIST_HEAD t (lk w)\<rparr>"

section \<open>Start\<close>

text \<open>Whether the allocations succeed, the result of \<open>CNet::tcp_bind\<close>, the time, the addresses of the pending
  list, of the three timer lists and of \<open>_RealTimer\<close>, and the number of the listener object.\<close>

record open_env =
  oe_poller :: bool
  oe_listener :: bool
  oe_timers :: bool
  oe_table :: bool
  oe_events :: bool
  oe_bind :: int
  oe_clock :: int
  oe_pending :: nat
  oe_list1 :: nat
  oe_list2 :: nat
  oe_list3 :: nat
  oe_real :: nat
  oe_object :: nat

text \<open>The first part: the timer unit and its lists.\<close>

definition open_timers :: "open_env \<Rightarrow> daemon_config \<Rightarrow> 'k loop_state \<Rightarrow> timer_unit \<times> 'k loop_state" where
  "open_timers oe cfg s =
     (let (tu, w) = new_timer_unit (oe_pending oe) (timers_of s);
          (realtimerlist, tu1, w1) = GetTimerList (oe_list1 oe) 60 tu w;
          w2 = AttachTimer (oe_clock oe) realtimerlist (oe_real oe) w1;
          (webtimerlist, tu2, w3) = GetTimerList (oe_list2 oe) (c_webtimeout cfg) tu1 w2;
          (helpertimerlist, tu3, w4) = GetTimerList (oe_list3 oe) (c_helpertimeout cfg) tu2 w3
      in (tu3, of_timers w4))"

text \<open>\<open>CListener::Attach\<close>: binding, \<open>EnableInput\<close>, \<open>AttachPoller\<close>.\<close>

definition attach_listener :: "'w epoll \<Rightarrow> int \<Rightarrow> nat \<Rightarrow> 'w poll_state \<Rightarrow> (int \<times> 'w poll_state) option" where
  "attach_listener api bound p s =
     (if bound = - 1 then Some (- 1, s)
      else AttachPoller api True p (set_object p (po_EnableInput True (new_poller_object False bound)) s))"

definition incoming_open ::
    "'k sys epoll \<Rightarrow> open_env \<Rightarrow> daemon_config \<Rightarrow> 'x markup \<Rightarrow> ('c, 'd) hiredis \<Rightarrow> 'd \<Rightarrow>
     'k loop_state \<Rightarrow> 'c helper_pool \<Rightarrow> (int \<times> timer_unit option \<times> 'k loop_state \<times> 'c helper_pool) option" where
  "incoming_open api oe cfg m redis d s hp =
     (if \<not> oe_poller oe then Some (- 1, None, s, hp)
      else if \<not> oe_listener oe then Some (- 1, None, s, hp)
      else if \<not> oe_timers oe then Some (- 1, None, s, hp)
      else do {
        let (tu, s1) = open_timers oe cfg s;
        (r, u, k) \<leftarrow> InitializePollerUnit api (oe_table oe) (oe_events oe) (new_poller_unit (c_maxpoller cfg)) (kernel s1);
        let s2 = s1\<lparr>pu := u, kernel := k\<rparr>;
        if r < 0 then Some (- 1, Some tu, s2, hp)
        else do {
          (r, s3) \<leftarrow> attach_listener api (oe_bind oe) (oe_object oe) s2;
          if r < 0 then Some (- 1, Some tu, s3, hp)
          else do {
            (r, hp1) \<leftarrow> InitHelperUnit m redis d hp;
            if r < 0 then Some (- 1, Some tu, s3, hp1) else Some (0, Some tu, s3, hp1) } } })"

section \<open>The loop\<close>

text \<open>What a timer of the server belongs to, and what its \<open>TimerNotify\<close> does: \<open>CRealTimer\<close> attaches itself again, a
  client's connection is completed, which deletes its object, a connection to a logic or game server is reset
  (\<open>reset_helper\<close>, here with its effect on the poller).\<close>

definition reset_object :: "'w epoll \<Rightarrow> nat \<Rightarrow> 'w poll_state \<Rightarrow> 'w poll_state option" where
  "reset_object api p st = do {
     x \<leftarrow> po st p;
     (_, st1) \<leftarrow> po_ApplyEvents api p (set_object p (po_EnableOutput False (po_EnableInput False x)) st);
     (_, st2) \<leftarrow> DetachPoller api p st1;
     y \<leftarrow> po st2 p;
     let st3 = (if netfd y > 0 then st2\<lparr>kernel := ep_close api (kernel st2) (netfd y)\<rparr> else st2);
     Some (set_object p (y\<lparr>netfd := - 1\<rparr>) st3) }"

datatype timer_owner = RealTimer timer_list | ClientTimer nat | ServerTimer nat

definition server_TimerNotify ::
    "'k sys epoll \<Rightarrow> (nat \<Rightarrow> timer_owner) \<Rightarrow> int \<Rightarrow> 'k loop_state timer_notify" where
  "server_TimerNotify api owner clock t w =
     (case owner t of
        RealTimer lst \<Rightarrow> real_TimerNotify clock lst t w
      | ClientTimer p \<Rightarrow> map_option (\<lambda>s. DisableTimer t (w\<lparr>world := s\<rparr>)) (destroy_object api p (world w))
      | ServerTimer p \<Rightarrow> map_option (\<lambda>s. w\<lparr>world := s\<rparr>) (reset_object api p (world w)))"

record 'k loop_env =
  le_api :: "'k sys epoll"
  le_handler :: "'k sys handler"
  le_owner :: "nat \<Rightarrow> timer_owner"
  le_clock :: "nat \<Rightarrow> int"
  le_stop :: "nat \<Rightarrow> bool"

definition epwaittimeout :: int where "epwaittimeout = 1000"

text \<open>One round; \<open>k\<close> is its number, and the clock is read four times in it.\<close>

definition run_round :: "'k loop_env \<Rightarrow> timer_unit \<Rightarrow> nat \<Rightarrow> 'k loop_state \<Rightarrow> 'k loop_state option" where
  "run_round env tu k s = do {
     let timeout = ExpireMicroSeconds (le_clock env (4 * k)) epwaittimeout tu (timers_of s);
     let (evs, s1) = WaitPollerEvents (le_api env) timeout s;
     let now = le_clock env (4 * k + 1);
     s2 \<leftarrow> ProcessPollerEvents (le_api env) (le_handler env) evs s1;
     (_, w) \<leftarrow> CheckExpired (server_TimerNotify (le_api env) (le_owner env) now) (le_clock env (4 * k + 2)) tu now (timers_of s2);
     (_, w1) \<leftarrow> CheckPending (server_TimerNotify (le_api env) (le_owner env) (le_clock env (4 * k + 3))) tu w;
     Some (of_timers w1) }"

partial_function (option) incoming_run :: "'k loop_env \<Rightarrow> timer_unit \<Rightarrow> nat \<Rightarrow> 'k loop_state \<Rightarrow> (int \<times> 'k loop_state) option" where
  "incoming_run env tu k s =
     (if le_stop env k then Some (0, s)
      else Option.bind (run_round env tu k s) (incoming_run env tu (k + 1)))"
section \<open>What the timers leave unchanged\<close>

text \<open>A property of the rest of the state that every notification keeps.\<close>

locale world_invariant =
  fixes notify :: "'w timer_notify" and I :: "'w \<Rightarrow> bool"
  assumes keeps: "notify t w = Some w' \<Longrightarrow> I (world w) \<Longrightarrow> I (world w')"
begin

lemma expire_loop_keeps:
  "expire_loop nf head now n w = Some x \<Longrightarrow> nf = notify \<Longrightarrow> I (world w) \<Longrightarrow> I (world (snd x))"
proof (induction rule: expire_loop.raw_induct [rotated, consumes 1])
  case (1 loop nf head now n w x)
  show ?case
  proof (cases "list_empty head (lk w) \<or> objexp w (nxt (lk w) head) > now")
    case True
    then show ?thesis using 1(2,4) by (auto split: if_splits)
  next
    case False
    then obtain w1 where w1: "nf (nxt (lk w) head) (w\<lparr>lk := list_del_init (nxt (lk w) head) (lk w)\<rparr>) = Some w1"
      "loop nf head now (n + 1) w1 = Some x"
      using 1(2) by (auto split: if_splits Option.bind_splits)
    have "I (world w1)" using keeps [OF w1(1) [unfolded 1(3)]] 1(4) by simp
    then show ?thesis using 1(1) [OF w1(2) 1(3)] by simp
  qed
qed

lemma pending_loop_keeps:
  "pending_loop nf head n w = Some x \<Longrightarrow> nf = notify \<Longrightarrow> I (world w) \<Longrightarrow> I (world (snd x))"
proof (induction rule: pending_loop.raw_induct [rotated, consumes 1])
  case (1 loop nf head n w x)
  show ?case
  proof (cases "list_empty head (lk w)")
    case True
    then show ?thesis using 1(2,4) by auto
  next
    case False
    then obtain w1 where w1: "nf (nxt (lk w) head) (w\<lparr>lk := list_del_init (nxt (lk w) head) (lk w)\<rparr>) = Some w1"
      "loop nf head (n + 1) w1 = Some x"
      using 1(2) by (auto split: Option.bind_splits)
    have "I (world w1)" using keeps [OF w1(1) [unfolded 1(3)]] 1(4) by simp
    then show ?thesis using 1(1) [OF w1(2) 1(3)] by simp
  qed
qed

lemma expire_lists_keeps:
  "expire_lists notify clock now lsts n w = Some x \<Longrightarrow> I (world w) \<Longrightarrow> I (world (snd x))"
proof (induction lsts arbitrary: n w)
  case (Cons lst lsts)
  then obtain k w1 where w1: "tl_CheckExpired notify clock lst now w = Some (k, w1)"
    "expire_lists notify clock now lsts (n + k) w1 = Some x"
    by (auto split: Option.bind_splits)
  then have "I (world w1)" using expire_loop_keeps Cons.prems(2) by (fastforce simp: tl_CheckExpired_def)
  then show ?case using Cons.IH w1(2) by blast
qed auto

lemma CheckPending_keeps: "CheckPending notify u w = Some x \<Longrightarrow> I (world w) \<Longrightarrow> I (world (snd x))"
  unfolding CheckPending_def by (erule pending_loop_keeps) auto

lemma CheckExpired_keeps:
  assumes "CheckExpired notify clock u now w = Some x" and "I (world w)"
  shows "I (world (snd x))"
proof -
  obtain n w1 where w1: "CheckPending notify u w = Some (n, w1)"
    "expire_lists notify clock (if now = 0 then clock else now) (tu_next u) n w1 = Some x"
    using assms(1) by (auto simp: CheckExpired_def Let_def split: Option.bind_splits)
  then show ?thesis using CheckPending_keeps [OF w1(1) assms(2)] expire_lists_keeps by fastforce
qed

end

section \<open>The invariant of the loop\<close>

lemma poll_ok_kernel [simp]: "poll_ok (st\<lparr>kernel := k\<rparr>) = poll_ok st"
  by (simp add: poll_ok_def table_ok_def attachment_def)

lemma poll_ok_views [simp]: "poll_ok (world (timers_of st)) = poll_ok st" "poll_ok (of_timers w) = poll_ok (world w)"
  by (simp_all add: timers_of_def of_timers_def)

lemma reset_object_keeps:
  assumes ok: "poll_ok st" and r: "reset_object api p st = Some st'"
  shows "poll_ok st'"
proof -
  obtain x where x: "po st p = Some x" using r by (auto simp: reset_object_def split: Option.bind_splits)
  let ?x = "po_EnableOutput False (po_EnableInput False x)"
  have x1: "po (set_object p ?x st) p = Some ?x" by (simp add: set_object_def)
  have ok1: "poll_ok (set_object p ?x st)"
    by (rule poll_ok_object [OF ok x]) (simp_all add: po_EnableOutput_def po_EnableInput_def)
  obtain r1 st1 where a: "po_ApplyEvents api p (set_object p ?x st) = Some (r1, st1)" "poll_ok st1"
    by (rule apply_ok [OF ok1 x1])
  obtain r2 st2 y where d: "DetachPoller api p st1 = Some (r2, st2)" "po st2 p = Some y"
    "st' = set_object p (y\<lparr>netfd := - 1\<rparr>)
       (if netfd y > 0 then st2\<lparr>kernel := ep_close api (kernel st2) (netfd y)\<rparr> else st2)"
    using r x a(1) by (auto simp: reset_object_def Let_def split: Option.bind_splits)
  obtain x' where x': "po st1 p = Some x'" using d(1) by (auto simp: DetachPoller_def split: Option.bind_splits)
  obtain st2' where "DetachPoller api p st1 = Some (0, st2')" "poll_ok st2'" by (rule detach_ok [OF a(2) x'])
  then have "poll_ok st2" using d(1) by simp
  then show ?thesis unfolding d(3) by (intro poll_ok_object [of _ p y]) (use d(2) in simp_all)
qed

lemma server_TimerNotify_keeps:
  "server_TimerNotify api owner clock t w = Some w' \<Longrightarrow> poll_ok (world w) \<Longrightarrow> poll_ok (world w')"
proof (cases "owner t")
  case (ClientTimer p)
  assume n: "server_TimerNotify api owner clock t w = Some w'" and ok: "poll_ok (world w)"
  then obtain s where s: "destroy_object api p (world w) = Some s" "w' = DisableTimer t (w\<lparr>world := s\<rparr>)"
    using ClientTimer by (auto simp: server_TimerNotify_def)
  then obtain x where "po (world w) p = Some x" by (auto simp: destroy_object_def split: Option.bind_splits)
  from destroy_ok [OF ok this, of api] s show ?thesis by (auto simp: DisableTimer_def)
qed (auto simp: server_TimerNotify_def real_TimerNotify_def AttachTimer_def Let_def intro: reset_object_keeps)

interpretation server_timers: world_invariant "server_TimerNotify api owner clock" poll_ok for api owner clock
  by unfold_locales (rule server_TimerNotify_keeps)

section \<open>Expiring the timers of connections\<close>

text \<open>The object of the poller a timer belongs to, and what the notification does to it.\<close>

fun owner_object :: "timer_owner \<Rightarrow> nat option" where
  "owner_object (RealTimer lst) = None"
| "owner_object (ClientTimer p) = Some p"
| "owner_object (ServerTimer p) = Some p"

fun close_owner :: "'w epoll \<Rightarrow> timer_owner \<Rightarrow> 'w poll_state \<Rightarrow> 'w poll_state option" where
  "close_owner api (RealTimer lst) st = Some st"
| "close_owner api (ClientTimer p) st = destroy_object api p st"
| "close_owner api (ServerTimer p) st = reset_object api p st"

primrec close_all :: "'w epoll \<Rightarrow> timer_owner list \<Rightarrow> 'w poll_state \<Rightarrow> 'w poll_state option" where
  "close_all api [] st = Some st"
| "close_all api (x # xs) st = Option.bind (close_owner api x st) (close_all api xs)"

text \<open>The timers \<open>S\<close> belong to different connections, whose objects exist.\<close>

definition owners_live :: "(nat \<Rightarrow> timer_owner) \<Rightarrow> nat set \<Rightarrow> 'w poll_state \<Rightarrow> bool" where
  "owners_live owner S st \<longleftrightarrow> poll_ok st \<and> inj_on (owner_object \<circ> owner) S \<and>
     (\<forall>t \<in> S. \<exists>p. owner_object (owner t) = Some p \<and> po st p \<noteq> None)"

lemma destroy_frame:
  assumes "destroy_object api p st = Some st'"
  shows "po st' = (po st)(p := None)"
  using assms by (auto simp: destroy_object_def Let_def split: Option.bind_splits if_splits)

lemma apply_frame: "po_ApplyEvents api p st = Some (r, st') \<Longrightarrow> q \<noteq> p \<Longrightarrow> po st' q = po st q"
  by (auto simp: po_ApplyEvents_def register_events_def Epctl_def set_object_def set_slot_def Let_def
      split: Option.bind_splits option.splits if_splits prod.splits)

lemma detach_frame:
  assumes "DetachPoller api p st = Some (r, st')"
  shows "q \<noteq> p \<Longrightarrow> po st' q = po st q" and "\<exists>y. po st' p = Some y \<and> epslot y = None"
  using assms by (auto simp: DetachPoller_def Epctl_def set_object_def Let_def
      split: Option.bind_splits option.splits if_splits prod.splits)

lemma reset_ok:
  assumes ok: "poll_ok st" and x: "po st p = Some x"
  obtains st' y where "reset_object api p st = Some st'" "poll_ok st'" "po st' p = Some y" "netfd y = - 1" "epslot y = None"
    "\<forall>q. q \<noteq> p \<longrightarrow> po st' q = po st q"
proof -
  let ?x = "po_EnableOutput False (po_EnableInput False x)"
  have x1: "po (set_object p ?x st) p = Some ?x" by (simp add: set_object_def)
  have ok1: "poll_ok (set_object p ?x st)"
    by (rule poll_ok_object [OF ok x]) (simp_all add: po_EnableOutput_def po_EnableInput_def)
  obtain r1 st1 where a: "po_ApplyEvents api p (set_object p ?x st) = Some (r1, st1)" "poll_ok st1"
    by (rule apply_ok [OF ok1 x1])
  obtain z where z: "po st1 p = Some z"
    using a(1) x1 by (auto simp: po_ApplyEvents_def register_events_def Epctl_def set_object_def set_slot_def Let_def
      split: Option.bind_splits option.splits if_splits prod.splits)
  obtain st2 where d: "DetachPoller api p st1 = Some (0, st2)" "poll_ok st2" by (rule detach_ok [OF a(2) z])
  obtain y where y: "po st2 p = Some y" "epslot y = None" using detach_frame(2) [OF d(1)] by blast
  let ?st3 = "if netfd y > 0 then st2\<lparr>kernel := ep_close api (kernel st2) (netfd y)\<rparr> else st2"
  let ?st = "set_object p (y\<lparr>netfd := - 1\<rparr>) ?st3"
  have r: "reset_object api p st = Some ?st" using x a(1) d(1) y(1) by (simp add: reset_object_def)
  moreover have "poll_ok ?st" by (rule reset_object_keeps [OF ok r])
  moreover have "po ?st q = po st q" if "q \<noteq> p" for q
    using that apply_frame [OF a(1) that] detach_frame(1) [OF d(1) that] by (simp add: set_object_def)
  ultimately show thesis using y(2) by (intro that [of ?st "y\<lparr>netfd := - 1\<rparr>"]) (simp_all add: set_object_def)
qed

fun closed :: "timer_owner \<Rightarrow> 'w poll_state \<Rightarrow> bool" where
  "closed (RealTimer lst) st \<longleftrightarrow> True"
| "closed (ClientTimer p) st \<longleftrightarrow> po st p = None"
| "closed (ServerTimer p) st \<longleftrightarrow> (\<exists>y. po st p = Some y \<and> netfd y = - 1 \<and> epslot y = None)"

lemma close_owner_ok:
  assumes "poll_ok st" and "owner_object x = Some p" and "po st p \<noteq> None"
  obtains st' where "close_owner api x st = Some st'" "poll_ok st'" "\<forall>q. q \<noteq> p \<longrightarrow> po st' q = po st q"
    "closed x st'"
proof (cases x)
  case (ClientTimer p')
  then have p: "p' = p" using assms(2) by simp
  obtain y where y: "po st p = Some y" using assms(3) by blast
  obtain st' where d: "destroy_object api p st = Some st'" "poll_ok st'" by (rule destroy_ok [OF assms(1) y, of api])
  show thesis by (rule that [of st']) (simp_all add: ClientTimer p d destroy_frame [OF d(1)])
next
  case (ServerTimer p')
  then have p: "p' = p" using assms(2) by simp
  obtain y where y: "po st p = Some y" using assms(3) by blast
  obtain st' z where r: "reset_object api p st = Some st'" "poll_ok st'" "po st' p = Some z" "netfd z = - 1" "epslot z = None"
    "\<forall>q. q \<noteq> p \<longrightarrow> po st' q = po st q" by (rule reset_ok [OF assms(1) y, of api])
  show thesis by (rule that [of st']) (simp_all add: ServerTimer p r)
qed (use assms(2) in simp)

lemma TimerNotify_closes:
  assumes "owner_object (owner t) \<noteq> None" and "ring (lk w) t []"
  shows "server_TimerNotify api owner clock t w = map_option (\<lambda>s. w\<lparr>world := s\<rparr>) (close_owner api (owner t) (world w))"
  using assms by (cases "owner t")
    (auto simp: server_TimerNotify_def DisableTimer_def list_del_init_idle split: option.splits)

text \<open>The notifications of the server for connections have the contract of the timer lists: they leave the list that is being
  checked alone.\<close>

interpretation closing_timers: timer_callback "server_TimerNotify api owner clock" head now False "owners_live owner"
  for api owner clock head now
proof
  fix w :: "'a sys poll_state timers" and ys t
  assume r: "ring (lk w) head ys" "ring (lk w) t []" "t \<notin> set (head # ys)" and live: "owners_live owner (insert t (set ys)) (world w)"
  obtain p where p: "owner_object (owner t) = Some p" "po (world w) p \<noteq> None" using live by (auto simp: owners_live_def)
  obtain st where st: "close_owner api (owner t) (world w) = Some st" "poll_ok st" "\<forall>q. q \<noteq> p \<longrightarrow> po st q = po (world w) q"
    by (rule close_owner_ok [OF _ p, of api]) (use live in \<open>simp add: owners_live_def\<close>)
  have n: "server_TimerNotify api owner clock t w = Some (w\<lparr>world := st\<rparr>)"
    using TimerNotify_closes [of owner t w] p(1) r(2) st(1) by simp
  have "owner_object (owner y) \<noteq> Some p" if "y \<in> set ys" for y
    using live that r(3) p(1) by (force simp: owners_live_def inj_on_def)
  then have "owners_live owner (set ys) st"
    using live st(2,3) unfolding owners_live_def by (auto intro: inj_on_subset) (metis)
  then show "\<exists>w'. server_TimerNotify api owner clock t w = Some w' \<and> ring (lk w') head (ys @ (if False then [t] else [])) \<and>
      (False \<longrightarrow> now < objexp w' t) \<and> (\<forall>y \<in> set ys. objexp w' y = objexp w y) \<and>
      owners_live owner (set (ys @ (if False then [t] else []))) (world w')"
    using n r(1) by simp
qed

lemma notified_closes:
  "notified (server_TimerNotify api owner clock) ts w w' \<Longrightarrow> \<forall>t \<in> set ts. owner_object (owner t) \<noteq> None \<Longrightarrow>
   close_all api (map owner ts) (world w) = Some (world w') \<and> objexp w' = objexp w"
proof (induction ts arbitrary: w)
  case (Cons t ts)
  obtain w1 where w1: "server_TimerNotify api owner clock t (w\<lparr>lk := list_del_init t (lk w)\<rparr>) = Some w1"
    "notified (server_TimerNotify api owner clock) ts w1 w'"
    using Cons.prems(1) by (auto split: option.splits)
  have "close_owner api (owner t) (world w) = Some (world w1) \<and> objexp w1 = objexp w"
    using w1(1) Cons.prems(2) by (cases "owner t") (auto simp: server_TimerNotify_def DisableTimer_def)
  then show ?case using Cons.IH [OF w1(2)] Cons.prems(2) by simp
qed simp

lemma close_all_effect:
  "owners_live owner (set ts) st \<Longrightarrow> distinct ts \<Longrightarrow> close_all api (map owner ts) st = Some st' \<Longrightarrow>
   poll_ok st' \<and> (\<forall>t \<in> set ts. closed (owner t) st') \<and>
   (\<forall>q. Some q \<notin> owner_object ` owner ` set ts \<longrightarrow> po st' q = po st q)"
proof (induction ts arbitrary: st)
  case (Cons t ts)
  obtain p where p: "owner_object (owner t) = Some p" "po st p \<noteq> None" using Cons.prems(1) by (auto simp: owners_live_def)
  have ok: "poll_ok st" using Cons.prems(1) by (simp add: owners_live_def)
  obtain st1 where st1: "close_owner api (owner t) st = Some st1" "poll_ok st1" "\<forall>q. q \<noteq> p \<longrightarrow> po st1 q = po st q"
    "closed (owner t) st1" by (rule close_owner_ok [OF ok p, of api])
  have other: "owner_object (owner y) \<noteq> Some p" if "y \<in> set ts" for y
    using Cons.prems(1,2) that p(1) by (force simp: owners_live_def inj_on_def)
  have "owners_live owner (set ts) st1"
    using Cons.prems(1) st1(2,3) other unfolding owners_live_def by (auto intro: inj_on_subset) (metis)
  then have rest: "poll_ok st'" "\<forall>t \<in> set ts. closed (owner t) st'"
    "\<forall>q. Some q \<notin> owner_object ` owner ` set ts \<longrightarrow> po st' q = po st1 q"
    using Cons.IH [of st1] Cons.prems(2,3) st1(1) by auto
  have "Some p \<notin> owner_object ` owner ` set ts" using other by (auto simp: eq_commute [of "Some p"])
  then have "po st' p = po st1 p" using rest(3) by blast
  then have "closed (owner t) st'" using st1(4) p(1) by (cases "owner t") auto
  then show ?case using rest st1(3) p(1) by auto
qed (simp add: owners_live_def)

text \<open>
  C8: Exactly the expired timers are notified: on a list in order whose timers belong to connections, \<open>CheckExpired\<close>
  returns the number of timers whose time has come, and has notified each of them once, oldest first: the connections to
  clients among their owners are deleted, those to servers are closed and taken out of the poller, one after the other and
  nothing else. The other timers stay in the list in order, their connections are as they were, and the poller's table is in
  order.
\<close>

theorem expired_timers_notified:
  assumes ok: "timers_ok clock0 lst xs w" and now: "now \<noteq> 0" and live: "owners_live owner (set xs) (world w)"
    and due: "due = filter (\<lambda>t. objexp w t \<le> now) xs"
  shows "\<exists>w'. tl_CheckExpired (server_TimerNotify api owner clock) clk lst now w = Some (length due, w') \<and>
    close_all api (map owner due) (world w) = Some (world w') \<and> (\<forall>t \<in> set due. closed (owner t) (world w')) \<and>
    (\<forall>p. Some p \<notin> owner_object ` owner ` set due \<longrightarrow> po (world w') p = po (world w) p) \<and>
    timers_ok clock0 lst (filter (\<lambda>t. now < objexp w t) xs) w' \<and> objexp w' = objexp w \<and> poll_ok (world w')"
proof -
  have r: "ring (lk w) (tl_head lst) (xs @ [])" "sorted (map (objexp w) xs)" using ok by (simp_all add: timers_ok_def)
  obtain w' where w': "expire_loop (server_TimerNotify api owner clock) (tl_head lst) now 0 w = Some (length due, w')"
    "notified (server_TimerNotify api owner clock) due w w'" "ring (lk w') (tl_head lst) (filter (\<lambda>t. now < objexp w t) xs)"
    using closing_timers.expire_loop_fires [OF r(1), where now = now and owner = owner and n = 0 and api = api and clock = clock] live takeWhile_sorted [OF r(2), of now]
    by (auto simp: due)
  have "set due \<subseteq> set xs" by (auto simp: due)
  then have live1: "owners_live owner (set due) (world w)" using live by (auto simp: owners_live_def intro: inj_on_subset)
  then have c: "close_all api (map owner due) (world w) = Some (world w')" "objexp w' = objexp w"
    using notified_closes [OF w'(2)] by (auto simp: owners_live_def)
  have "distinct due" using r(1) by (simp add: due ring_def)
  from close_all_effect [OF live1 this c(1)] have "poll_ok (world w')" "\<forall>t \<in> set due. closed (owner t) (world w')"
    "\<forall>p. Some p \<notin> owner_object ` owner ` set due \<longrightarrow> po (world w') p = po (world w) p" by blast+
  moreover have "timers_ok clock0 lst (filter (\<lambda>t. now < objexp w t) xs) w'"
    using ok w'(3) c(2) by (simp add: timers_ok_def sorted_filter)
  ultimately show ?thesis using w'(1) c now by (simp add: tl_CheckExpired_def)
qed

lemma run_round_keeps:
  assumes h: "le_handler env = closing_handler (le_api env)" and ok: "poll_ok s" and r: "run_round env tu k s = Some s'"
  shows "poll_ok s'"
proof -
  obtain evs s1 where w: "WaitPollerEvents (le_api env) (ExpireMicroSeconds (le_clock env (4 * k)) epwaittimeout tu
      (timers_of s)) s = (evs, s1)" by fastforce
  have ok1: "poll_ok s1" using w ok by (auto simp: WaitPollerEvents_def split: prod.splits)
  let ?n = "server_TimerNotify (le_api env) (le_owner env)"
  let ?now = "le_clock env (4 * k + 1)"
  obtain s2 n w1 m w2 where s: "ProcessPollerEvents (le_api env) (closing_handler (le_api env)) evs s1 = Some s2"
    "CheckExpired (?n ?now) (le_clock env (4 * k + 2)) tu ?now (timers_of s2) = Some (n, w1)"
    "CheckPending (?n (le_clock env (4 * k + 3))) tu w1 = Some (m, w2)" "s' = of_timers w2"
    using r w by (auto simp: run_round_def h Let_def split: Option.bind_splits)
  have "poll_ok (world (timers_of s2))" using closing.loop_keeps [OF ok1 s(1)] by simp
  from server_timers.CheckExpired_keeps [OF s(2) this] have "poll_ok (world w1)" by simp
  from server_timers.CheckPending_keeps [OF s(3) this] show ?thesis by (simp add: s(4))
qed
text \<open>The loop returns after the round in which it is told to stop, if the rounds do.\<close>

primrec loop_rounds :: "'k loop_env \<Rightarrow> timer_unit \<Rightarrow> nat \<Rightarrow> nat \<Rightarrow> 'k loop_state \<Rightarrow> 'k loop_state option" where
  "loop_rounds env tu k 0 s = Some s"
| "loop_rounds env tu k (Suc n) s = Option.bind (run_round env tu k s) (loop_rounds env tu (k + 1) n)"

lemma run_rounds:
  assumes "\<forall>j < n. \<not> le_stop env (k + j)" and "le_stop env (k + n)"
  shows "incoming_run env tu k s = map_option (Pair 0) (loop_rounds env tu k n s)"
  using assms
proof (induction n arbitrary: k s)
  case 0
  then show ?case by (subst incoming_run.simps) simp
next
  case (Suc n)
  have "\<not> le_stop env k" using Suc.prems(1) by (auto dest: spec [of _ 0])
  moreover have "\<forall>j < n. \<not> le_stop env (k + 1 + j)" using Suc.prems(1) by auto
  moreover have "le_stop env (k + 1 + n)" using Suc.prems(2) by simp
  ultimately show ?case using Suc.IH [of "k + 1"]
    by (subst incoming_run.simps) (cases "run_round env tu k s"; simp)
qed

lemma rounds_keep:
  assumes "le_handler env = closing_handler (le_api env)" and "poll_ok s" and "loop_rounds env tu k n s = Some s'"
  shows "poll_ok s'"
  using assms(2,3)
proof (induction n arbitrary: k s)
  case (Suc n)
  then obtain s1 where s1: "run_round env tu k s = Some s1" "loop_rounds env tu (k + 1) n s1 = Some s'"
    by (auto split: Option.bind_splits)
  show ?case by (rule Suc.IH [OF run_round_keeps [OF assms(1) Suc.prems(1) s1(1)] s1(2)])
qed simp

section \<open>From start to stop\<close>

definition epoll_works :: "'w epoll \<Rightarrow> bool" where
  "epoll_works api \<longleftrightarrow> (\<forall>w n. fst (ep_create api w n) \<ge> 0) \<and> (\<forall>w e op fd ev d. fst (ep_ctl api w e op fd ev d) = 0)"

lemma listener_attached:
  assumes api: "epoll_works api" and init: "InitializePollerUnit api True True (new_poller_unit mp) k = Some (r, u, k')"
    and mp: "0 < mp" "mp < 2 ^ 31" and fd: "fd \<ge> 0" and s: "po s = Map.empty" "pu s = u" "kernel s = k'"
  obtains s' x where "r = 0" "attach_listener api fd p s = Some (0, s')" "poll_ok s'" "po s' = [p \<mapsto> x]"
    "oldEvents x = EPOLLIN" "epslot x = Some 0" "poller_object.netfd x = fd"
proof -
  let ?x = "po_EnableInput True (new_poller_object False fd)"
  have "s = \<lparr>pu = u, po = Map.empty, kernel = k'\<rparr>" using s by simp
  moreover have "poll_ok \<lparr>pu = u, po = Map.empty, kernel = k'\<rparr>"
    by (rule initialized_ok [OF init]) (use mp in \<open>simp_all add: new_poller_unit_def\<close>)
  ultimately have ok: "poll_ok s" by simp
  have ok1: "poll_ok (set_object p ?x s)"
  proof -
    have "poll_ok (set_object p (new_poller_object False fd) s)" by (rule create_ok [OF ok]) (simp add: s)
    from poll_ok_object [OF this, of p "new_poller_object False fd" ?x] show ?thesis
      by (simp add: set_object_def po_EnableInput_def)
  qed
  have free: "freeSlotList u = Some 0" "0 < length (pollerTable u)" "r = 0"
  proof -
    obtain e w1 where e: "ep_create api k mp = (e, w1)" by fastforce
    have "e \<ge> 0" using api e unfolding epoll_works_def by (metis fst_conv)
    then show "freeSlotList u = Some 0" "0 < length (pollerTable u)" "r = 0"
      using init mp(1) by (auto simp: InitializePollerUnit_def new_poller_unit_def e Let_def)
  qed
  have ctl: "fst (ep_ctl api w e op f ev d) = 0" for w e op f ev d using api by (simp add: epoll_works_def)
  define x where "x = \<lparr>poller_object.netfd = fd, ownerUnit = True, newEvents = EPOLLIN, oldEvents = EPOLLIN, epslot = Some 0\<rparr>"
  have "\<exists>s'. attach_listener api fd p s = Some (0, s') \<and> po s' = [p \<mapsto> x]"
    using fd free ctl
    by (simp add: x_def attach_listener_def AttachPoller_def AllocEpollSlot_def register_events_def Epctl_def set_object_def
        set_slot_def po_EnableInput_def new_poller_object_def s Let_def prod.case_eq_if)
  then obtain s' where s': "attach_listener api fd p s = Some (0, s')" "po s' = [p \<mapsto> x]" by blast
  have x: "oldEvents x = EPOLLIN" "epslot x = Some 0" "poller_object.netfd x = fd" by (simp_all add: x_def)
  obtain r' s'' where "AttachPoller api True p (set_object p ?x s) = Some (r', s'')" "poll_ok s''"
    by (rule attach_ok [OF ok1, of p ?x True]) (simp_all add: set_object_def)
  then have "poll_ok s'" using s'(1) fd by (simp add: attach_listener_def)
  with free(3) s' x that show thesis by blast
qed
definition started :: "open_env \<Rightarrow> bool" where
  "started oe \<longleftrightarrow> oe_poller oe \<and> oe_listener oe \<and> oe_timers oe \<and> oe_table oe \<and> oe_events oe \<and> oe_bind oe \<ge> 0"

lemma open_timers_po: "po (snd (open_timers oe cfg s)) = po s"
  by (simp add: open_timers_def of_timers_def timers_of_def new_timer_unit_def GetTimerList_def AttachTimer_def Let_def
      split: option.split prod.split)

lemma server_opens:
  assumes cfg: "DaemonInit m pid file = Inr cfg" and oe: "started oe" and api: "epoll_works api"
    and po: "po s = Map.empty"
    and redis: "redis_document m ys" "\<forall>y \<in> set ys. row_connects m api2 d y" "m_redis_map hp = []"
      "distinct (map (row_svid m) ys)" "row_svid m ` set ys = {1 .. int (length ys)}" "ys \<noteq> []"
  obtains tu s' hp' x where "incoming_open api oe cfg m api2 d s hp = Some (0, Some tu, s', hp')" "poll_ok s'"
    "po s' = [oe_object oe \<mapsto> x]" "oldEvents x = EPOLLIN" "epslot x \<noteq> None" "poller_object.netfd x = oe_bind oe"
    "InitHelperUnit m api2 d hp = Some (0, hp')"
proof -
  obtain tu s1 where t: "open_timers oe cfg s = (tu, s1)" by fastforce
  have po1: "po s1 = Map.empty" using open_timers_po [of oe cfg s] t po by simp
  have mp: "0 < c_maxpoller cfg" "c_maxpoller cfg < 2 ^ 31" using DaemonInit_bounds [OF cfg] by simp_all
  obtain r u k where i: "InitializePollerUnit api True True (new_poller_unit (c_maxpoller cfg)) (kernel s1) = Some (r, u, k)"
    using mp by (cases "ep_create api (kernel s1) (c_maxpoller cfg)")
      (simp add: InitializePollerUnit_def new_poller_unit_def Let_def)
  let ?s2 = "s1\<lparr>pu := u, kernel := k\<rparr>"
  have fd: "oe_bind oe \<ge> 0" using oe by (simp add: started_def)
  obtain s3 x where a: "r = 0" "attach_listener api (oe_bind oe) (oe_object oe) ?s2 = Some (0, s3)" "poll_ok s3"
    "po s3 = [oe_object oe \<mapsto> x]" "oldEvents x = EPOLLIN" "epslot x = Some 0" "poller_object.netfd x = oe_bind oe"
    by (rule listener_attached [OF api i mp fd, of ?s2]) (simp_all add: po1)
  obtain hp1 where h: "InitHelperUnit m api2 d hp = Some (0, hp1)"
    using orders_find_server [OF redis] by blast
  have "incoming_open api oe cfg m api2 d s hp = Some (0, Some tu, s3, hp1)"
    using oe i a(1,2) h by (simp add: incoming_open_def started_def t)
  then show thesis by (rule that [of tu s3 hp1 x]) (use a h in simp_all)
qed

text \<open>
  With a usable configuration the server starts: \<open>CIncoming::open\<close> succeeds, the poller's table is in order,
  the listening socket is registered for reading, and every order number belongs to a connected Redis server.
\<close>

theorem server_starts:
  assumes "DaemonInit m pid file = Inr cfg" and "started oe" and "epoll_works api" and "po s = Map.empty"
    and "redis_document m ys" and "\<forall>y \<in> set ys. row_connects m api2 d y" and "m_redis_map hp = []"
    and "distinct (map (row_svid m) ys)" and "row_svid m ` set ys = {1 .. int (length ys)}" and "ys \<noteq> []"
  shows "\<exists>tu s' hp' x. incoming_open api oe cfg m api2 d s hp = Some (0, Some tu, s', hp') \<and> poll_ok s' \<and>
    po s' = [oe_object oe \<mapsto> x] \<and> oldEvents x = EPOLLIN \<and> epslot x \<noteq> None \<and> poller_object.netfd x = oe_bind oe \<and>
    (\<exists>y \<in> set ys. redis_id oid (length (m_redis_map hp')) = Some (row_svid m y) \<and>
       map_of (m_redis_map hp') (row_svid m y) = Some (row_redis m api2 d y))"
proof -
  obtain tu s' hp' x where o: "incoming_open api oe cfg m api2 d s hp = Some (0, Some tu, s', hp')" "poll_ok s'"
    "po s' = [oe_object oe \<mapsto> x]" "oldEvents x = EPOLLIN" "epslot x \<noteq> None" "poller_object.netfd x = oe_bind oe"
    "InitHelperUnit m api2 d hp = Some (0, hp')"
    by (rule server_opens [OF assms])
  then show ?thesis using orders_find_server [OF assms(5-10), of oid] by auto
qed

text \<open>
  From a successful start on, round after round, whatever the kernel reports, whichever timers expire and
  whoever they belong to, the poller's table stays in order: the free slots are those without an object, and each
  other slot and its object point at each other; when the loop is told to stop it returns 0 in that state.
\<close>

theorem server_keeps_table:
  assumes "le_handler env = closing_handler (le_api env)" and "poll_ok s" and "loop_rounds env tu 0 n s = Some s'"
    and "\<forall>j < n. \<not> le_stop env j" and "le_stop env n"
  shows "poll_ok s' \<and> incoming_run env tu 0 s = Some (0, s')"
  using rounds_keep [OF assms(1-3)] run_rounds [of n env 0 tu s] assms(3-5) by simp

section \<open>Examples\<close>

definition ex_sys_epoll :: "unit sys epoll" where
  "ex_sys_epoll = \<lparr>ep_create = (\<lambda>w n. (3, w)), ep_ctl = (\<lambda>w efd op fd ev d. (0, w)), ep_wait = (\<lambda>w efd n t. ([], w)),
     ep_nonblock = (\<lambda>w fd. w), ep_close = (\<lambda>w fd. w)\<rparr>"

definition ex_open :: open_env where
  "ex_open = \<lparr>oe_poller = True, oe_listener = True, oe_timers = True, oe_table = True, oe_events = True, oe_bind = 5,
     oe_clock = 100, oe_pending = 1, oe_list1 = 2, oe_list2 = 3, oe_list3 = 4, oe_real = 5, oe_object = 0\<rparr>"

definition ex_start :: "unit loop_state" where
  "ex_start = \<lparr>pu = new_poller_unit 0, po = Map.empty,
     kernel = \<lparr>s_kernel = (), s_links = \<lparr>nxt = id, prv = id\<rparr>, s_objexp = \<lambda>_. 0\<rparr>\<rparr>"

text \<open>The document of the other examples with the attributes of \<open>config.xml\<close>.\<close>

definition ex_config_doc :: xml where
  "ex_config_doc = Elem ''SYSTEM'' [(''BindAddr'', bytes_of ''0.0.0.0'')] [ex_node]"

definition ex_both :: "xml_cursor markup" where
  "ex_both = (xml_markup ex_doc)\<lparr>m_load := \<lambda>f. if f = server_xml then Some ((None, [ex_doc]), []) else Some ((None, [ex_config_doc]), [])\<rparr>"

lemma ex_both_rows: "redis_document ex_both ex_redis_rows" "row_svid ex_both = row_svid (xml_markup ex_doc)"
  "row_connects ex_both = row_connects (xml_markup ex_doc)"
proof -
  have find: "m_find ex_both = m_find (xml_markup ex_doc)" "m_into ex_both = m_into (xml_markup ex_doc)"
    "m_out ex_both = m_out (xml_markup ex_doc)" "m_attrib ex_both = m_attrib (xml_markup ex_doc)"
    by (simp_all add: ex_both_def)
  have "siblings ex_both name x ys e = siblings (xml_markup ex_doc) name x ys e" for name x ys e
    by (induction ys arbitrary: x) (simp_all add: find)
  moreover have "m_load ex_both server_xml = m_load (xml_markup ex_doc) server_xml"
    by (simp add: ex_both_def xml_markup_def)
  ultimately show "redis_document ex_both ex_redis_rows"
    using ex_redis_document unfolding redis_document_def find by simp
  show "row_svid ex_both = row_svid (xml_markup ex_doc)" by (simp add: row_svid_def attrib_int_def find fun_eq_iff)
  show "row_connects ex_both = row_connects (xml_markup ex_doc)"
    by (simp add: row_connects_def attrib_int_def find fun_eq_iff)
qed
lemma ex_config: "\<exists>cfg. DaemonInit ex_both 7 (Some (bytes_of ''../conf/config.xml'')) = Inr cfg"
proof -
  have "c_str (bytes_of ''../conf/config.xml'') \<noteq> []" "c_str (bytes_of ''../conf/config.xml'') \<noteq> server_xml"
    "bytes_of ''0.0.0.0'' \<noteq> []" by code_simp+
  then show ?thesis by (simp add: DaemonInit_def ex_both_def ex_config_doc_def xml_markup_def)
qed

theorem server_starts_witness:
  "\<exists>cfg tu s' hp' x. DaemonInit ex_both 7 (Some (bytes_of ''../conf/config.xml'')) = Inr cfg \<and>
    incoming_open ex_sys_epoll ex_open cfg ex_both ex_hiredis () ex_start ex_pool = Some (0, Some tu, s', hp') \<and>
    poll_ok s' \<and> po s' = [oe_object ex_open \<mapsto> x] \<and> oldEvents x = EPOLLIN \<and> epslot x \<noteq> None \<and>
    poller_object.netfd x = oe_bind ex_open \<and>
    (\<exists>y \<in> set ex_redis_rows. redis_id 7 (length (m_redis_map hp')) = Some (row_svid ex_both y) \<and>
       map_of (m_redis_map hp') (row_svid ex_both y) = Some (row_redis ex_both ex_hiredis () y))"
proof -
  obtain cfg where cfg: "DaemonInit ex_both 7 (Some (bytes_of ''../conf/config.xml'')) = Inr cfg"
    using ex_config by blast
  have env: "started ex_open" "epoll_works ex_sys_epoll" "po ex_start = Map.empty"
    by (simp_all add: started_def ex_open_def epoll_works_def ex_sys_epoll_def ex_start_def)
  have rows: "\<forall>y \<in> set ex_redis_rows. row_connects ex_both ex_hiredis () y" "m_redis_map ex_pool = []"
    "distinct (map (row_svid ex_both) ex_redis_rows)" "ex_redis_rows \<noteq> []"
    by (simp_all add: ex_both_rows(2,3) ex_redis_svids row_connects_def ex_hiredis_def ex_pool_def del: list.map)
      (simp add: ex_redis_rows_def)
  have "row_svid ex_both ` set ex_redis_rows = set [2, 1]"
    by (simp only: set_map [symmetric] ex_redis_svids ex_both_rows(2))
  moreover have "length ex_redis_rows = 2" by (simp add: ex_redis_rows_def)
  ultimately have svids: "row_svid ex_both ` set ex_redis_rows = {1 .. int (length ex_redis_rows)}" by auto
  show ?thesis using server_starts [OF cfg env ex_both_rows(1) rows(1-3) svids rows(4), of 7] cfg by blast
qed

definition ex_loop_env :: "unit loop_env" where
  "ex_loop_env = \<lparr>le_api = ex_sys_epoll, le_handler = closing_handler ex_sys_epoll, le_owner = \<lambda>_. ClientTimer 0,
     le_clock = \<lambda>k. int k + 1, le_stop = \<lambda>k. k \<ge> 1\<rparr>"

text \<open>Two timers in a list, the first of them, of a client, due.\<close>

definition ex_idle_state :: "unit loop_state" where
  "ex_idle_state = set_object 8 (new_poller_object False 6) (set_object 7 (new_poller_object False 5)
     (ex_start\<lparr>pu := fst (snd (the (InitializePollerUnit ex_sys_epoll True True (new_poller_unit 1024) (kernel ex_start))))\<rparr>))"

lemma ex_idle_ok: "poll_ok ex_idle_state"
proof -
  let ?u = "fst (snd (the (InitializePollerUnit ex_sys_epoll True True (new_poller_unit 1024) (kernel ex_start))))"
  have i: "InitializePollerUnit ex_sys_epoll True True (new_poller_unit 1024) (kernel ex_start) = Some (0, ?u, kernel ex_start)"
    by (simp add: InitializePollerUnit_def new_poller_unit_def ex_sys_epoll_def)
  have eq: "ex_start\<lparr>pu := ?u\<rparr> = \<lparr>pu = ?u, po = Map.empty, kernel = kernel ex_start\<rparr>" by (simp add: ex_start_def)
  have "poll_ok \<lparr>pu = ?u, po = Map.empty, kernel = kernel ex_start\<rparr>"
    by (rule initialized_ok [OF i]) (simp_all add: new_poller_unit_def)
  then show ?thesis unfolding ex_idle_state_def eq by (intro create_ok) (simp_all add: set_object_def)
qed

definition ex_due :: "unit loop_state timers" where
  "ex_due = \<lparr>lk = ex_links, objexp = (\<lambda>t. if t = 1 then 5 else 15), world = ex_idle_state\<rparr>"

definition ex_owner :: "nat \<Rightarrow> timer_owner" where
  "ex_owner t = (if t = 1 then ClientTimer 7 else ServerTimer 8)"

theorem expired_timers_notified_witness:
  "\<exists>w'. tl_CheckExpired (server_TimerNotify ex_sys_epoll ex_owner 10) 10 ex_timer_list 10 ex_due = Some (1, w') \<and>
    po (world w') 7 = None \<and> po (world w') 8 = Some (new_poller_object False 6) \<and>
    timers_ok 10 ex_timer_list [2] w' \<and> poll_ok (world w')"
proof -
  have ok: "timers_ok 10 ex_timer_list [1, 2] ex_due"
    using ex_ring by (simp add: timers_ok_def ex_due_def ex_timer_list_def TIMESTAMP_PRECISION_def)
  have live: "owners_live ex_owner (set [1, 2]) (world ex_due)"
    by (simp add: owners_live_def ex_due_def ex_idle_ok ex_owner_def) (simp add: ex_idle_state_def set_object_def)
  have due: "[1] = filter (\<lambda>t. objexp ex_due t \<le> 10) [1, 2]" by (simp add: ex_due_def)
  have late: "filter (\<lambda>t. 10 < objexp ex_due t) [1, 2] = [2]" by (simp add: ex_due_def)
  have "po (world ex_due) 8 = Some (new_poller_object False 6)" by (simp add: ex_due_def ex_idle_state_def set_object_def)
  then show ?thesis
    using expired_timers_notified [OF ok _ live due, of ex_sys_epoll 10 10] unfolding late by (auto simp: ex_owner_def)
qed

definition ex_unit_timers :: timer_unit where
  "ex_unit_timers = \<lparr>tu_pending = 1, tu_next = []\<rparr>"

theorem server_keeps_table_witness:
  "\<exists>s'. poll_ok s' \<and> incoming_run ex_loop_env ex_unit_timers 0 (set_object 0 (new_poller_object False 5)
     (ex_start\<lparr>pu := fst (snd (the (InitializePollerUnit ex_sys_epoll True True (new_poller_unit 1024) (kernel ex_start))))\<rparr>)) = Some (0, s')"
proof -
  let ?u = "fst (snd (the (InitializePollerUnit ex_sys_epoll True True (new_poller_unit 1024) (kernel ex_start))))"
  let ?t = "ex_start\<lparr>pu := ?u\<rparr>"
  let ?s = "set_object 0 (new_poller_object False 5) ?t"
  have i: "InitializePollerUnit ex_sys_epoll True True (new_poller_unit 1024) (kernel ex_start) = Some (0, ?u, kernel ex_start)"
    by (simp add: InitializePollerUnit_def new_poller_unit_def ex_sys_epoll_def)
  have eq: "?t = \<lparr>pu = ?u, po = Map.empty, kernel = kernel ex_start\<rparr>" by (simp add: ex_start_def)
  have "poll_ok \<lparr>pu = ?u, po = Map.empty, kernel = kernel ex_start\<rparr>"
    by (rule initialized_ok [OF i]) (simp_all add: new_poller_unit_def)
  then have ok0: "poll_ok ?t" by (simp only: eq)
  have ok: "poll_ok ?s" by (rule create_ok [OF ok0]) (simp add: ex_start_def)
  have p: "CheckPending n ex_unit_timers (timers_of ?s) = Some (0, timers_of ?s)" for n
    by (simp add: CheckPending_def ex_unit_timers_def pending_loop.simps list_empty_def timers_of_def set_object_def ex_start_def)
  have k: "?s\<lparr>kernel := kernel ?s\<rparr> = ?s" "of_timers (timers_of ?s) = ?s"
    by (simp_all add: of_timers_def timers_of_def)
  then have "\<exists>s'. run_round ex_loop_env ex_unit_timers 0 ?s = Some s'"
    using p by (simp add: run_round_def WaitPollerEvents_def ex_loop_env_def ex_sys_epoll_def CheckExpired_def
        ex_unit_timers_def Let_def)
  then obtain s' where r: "loop_rounds ex_loop_env ex_unit_timers 0 1 ?s = Some s'" by auto
  have "poll_ok s' \<and> incoming_run ex_loop_env ex_unit_timers 0 ?s = Some (0, s')"
    by (rule server_keeps_table [OF _ ok r]) (simp_all add: ex_loop_env_def)
  then show ?thesis by blast
qed

end
