(* ===== verification/ServerMain.thy ===== *)
theory ServerMain
  imports ServerLoop Logging
begin

text \<open>
  The server as a program: \<open>CRedisServer\<close> (\<open>proxy/RedisServer.cpp\<close>), with which it announces itself, the UDP monitoring
  \<open>Watchdog\<close> (\<open>proxy/watchdog.cpp\<close>), and \<open>CProxyModule\<close> and \<open>main\<close> (\<open>proxy/proxy_module.cpp\<close>), which put them together with
  \<open>DaemonInit\<close>, \<open>CIncoming::open\<close> and \<open>CIncoming::run\<close>. \<open>None\<close> is undefined behaviour or an uncaught exception. The daemon's fork and
  signal masks (\<open>DaemonStart\<close>) have no effect on this state.
\<close>

section \<open>CRedisServer\<close>

text \<open>\<open>redisConnect\<close> gives a context, with its error flag \<open>ca_err\<close>, or \<open>NULL\<close>; \<open>redisCommand\<close> is \<open>h_command\<close>, with the words of the
  command after formatting. \<open>ca_write\<close> is \<open>Json::FastWriter::write\<close> of an object with these members.\<close>

record ('c, 'd) conn_api =
  ca_hiredis :: "('c, 'd) hiredis"
  ca_connect :: "'d \<Rightarrow> byte list \<Rightarrow> int \<Rightarrow> 'c option"
  ca_err :: "'c \<Rightarrow> bool"
  ca_set_timeout :: "'c \<Rightarrow> int \<times> int \<Rightarrow> int"
  ca_write :: "(string \<times> (byte list + int)) list \<Rightarrow> byte list"

record 'c redis_server =
  m_strIp :: "byte list"
  m_nPort :: int
  m_pRedisConn :: "'c option"

definition REDIS_ERR :: int where "REDIS_ERR = - 1"

definition new_redis_server :: "'c redis_server" where
  "new_redis_server = \<lparr>m_strIp = [], m_nPort = 0, m_pRedisConn = None\<rparr>"

definition rs_Connect ::
    "('c, 'd) conn_api \<Rightarrow> 'd \<Rightarrow> byte list \<Rightarrow> int \<Rightarrow> 'c redis_server \<Rightarrow> (int \<times> 'c redis_server) option" where
  "rs_Connect api d ip port r = do {
     let r1 = r\<lparr>m_strIp := ip, m_nPort := port, m_pRedisConn := ca_connect api d (c_str ip) port\<rparr>;
     c \<leftarrow> m_pRedisConn r1;
     Some (if ca_err api c then - 1 else 0, r1) }"

definition rs_Reconnect :: "('c, 'd) conn_api \<Rightarrow> 'd \<Rightarrow> 'c redis_server \<Rightarrow> (int \<times> 'c redis_server) option" where
  "rs_Reconnect api d r = do {
     let r1 = r\<lparr>m_pRedisConn := ca_connect api d (c_str (m_strIp r)) (m_nPort r)\<rparr>;
     c \<leftarrow> m_pRedisConn r1;
     Some (if ca_err api c then - 1 else 0, r1) }"

definition rs_send :: "('c, 'd) conn_api \<Rightarrow> byte list list \<Rightarrow> 'c redis_server \<Rightarrow> 'd \<Rightarrow> (redis_reply option \<times> 'd) option" where
  "rs_send api ws r d = do { c \<leftarrow> m_pRedisConn r; Some (h_command (ca_hiredis api) d c ws) }"

definition rs_SetExpire :: "('c, 'd) conn_api \<Rightarrow> byte list \<Rightarrow> int \<Rightarrow> 'c redis_server \<Rightarrow> 'd \<Rightarrow> (int \<times> 'd) option" where
  "rs_SetExpire api k expire r d = do {
     (_, d1) \<leftarrow> rs_send api [bytes_of ''EXPIRE'', k, padded False 0 expire] r d;
     Some (0, d1) }"

definition rs_SetTimeout :: "('c, 'd) conn_api \<Rightarrow> int \<times> int \<Rightarrow> 'c redis_server \<Rightarrow> int" where
  "rs_SetTimeout api tv r = (case m_pRedisConn r of Some c \<Rightarrow> ca_set_timeout api c tv | None \<Rightarrow> REDIS_ERR)"

text \<open>The text of \<open>RedisCommand\<close> is the format itself: its words are what is between the blanks, and a conversion would take an
  argument that is not there.\<close>

definition command_words :: "byte list \<Rightarrow> byte list list option" where
  "command_words command = (if 0x25 \<in> set command then None else Some (filter (\<lambda>w. w \<noteq> []) (pieces [0x20] command)))"

definition rs_RedisCommand ::
    "('c, 'd) conn_api \<Rightarrow> byte list \<Rightarrow> 'c redis_server \<Rightarrow> 'd \<Rightarrow> (redis_reply option \<times> 'c redis_server \<times> 'd) option" where
  "rs_RedisCommand api command r d = do {
     ws \<leftarrow> command_words command;
     (reply, d1) \<leftarrow> rs_send api ws r d;
     if reply = None then do {
       (ret, r1) \<leftarrow> rs_Reconnect api d1 r;
       if ret \<noteq> 0 then Some (None, r1, d1)
       else do { (reply2, d2) \<leftarrow> rs_send api ws r1 d1; Some (reply2, r1, d2) } }
     else Some (reply, r, d1) }"

definition hall_words :: "('c, 'd) conn_api \<Rightarrow> byte list \<Rightarrow> int \<Rightarrow> int \<Rightarrow> byte list list" where
  "hall_words api ip port sid =
     [bytes_of ''HSET'', bytes_of ''HALLSERVER'', take 31 (bytes_of ''HALLSERVER'' @ padded False 0 sid),
      c_str (ca_write api [(''IP'', Inl (c_str ip)), (''PORT'', Inr port), (''SVID'', Inr sid)])]"

definition rs_SetInfo ::
    "('c, 'd) conn_api \<Rightarrow> byte list \<Rightarrow> int \<Rightarrow> int \<Rightarrow> 'c redis_server \<Rightarrow> 'd \<Rightarrow> (int \<times> 'd) option" where
  "rs_SetInfo api ip port sid r d = do {
     (_, d1) \<leftarrow> rs_send api (hall_words api ip port sid) r d;
     Some (0, d1) }"

section \<open>Watchdog\<close>

text \<open>The answers of \<open>socket\<close>, \<open>inet_addr\<close>, \<open>gethostbyname\<close> and \<open>sendto\<close>; an address is what \<open>sin_addr\<close> and \<open>sin_port\<close> hold.\<close>

record udp_sys =
  us_socket :: int
  us_inet_addr :: "byte list \<Rightarrow> u32"
  us_host :: "byte list \<Rightarrow> u32 option"
  us_sendto :: "int \<Rightarrow> (u32 \<times> u16) option \<Rightarrow> byte list \<Rightarrow> int"

record watchdog =
  wd_host :: "byte list"
  wd_port :: int
  wd_fd :: int
  wd_addr :: "(u32 \<times> u16) option"

definition INADDR_NONE :: u32 where "INADDR_NONE = 0xFFFFFFFF"
definition UDP_SERVER_CLIENT_CLOSE_LOG :: int where "UDP_SERVER_CLIENT_CLOSE_LOG = 0x0902"
definition UDP_SERVER_USER_COUNT :: int where "UDP_SERVER_USER_COUNT = 0x0903"

definition default_watchdog :: watchdog where
  "default_watchdog = \<lparr>wd_host = bytes_of ''127.0.0.1'', wd_port = 7900, wd_fd = - 1, wd_addr = None\<rparr>"

definition new_watchdog :: "byte list \<Rightarrow> int \<Rightarrow> watchdog" where
  "new_watchdog host port = \<lparr>wd_host = host, wd_port = port, wd_fd = - 1, wd_addr = None\<rparr>"

text \<open>When the name is not found the socket is closed, but its number stays in \<open>_fd\<close>. The result comes with the closed descriptors.\<close>

definition watchdog_init :: "udp_sys \<Rightarrow> watchdog \<Rightarrow> int \<times> watchdog \<times> int list" where
  "watchdog_init sys w =
     (let w1 = w\<lparr>wd_fd := us_socket sys\<rparr>
      in if wd_fd w1 = - 1 then (- 1, w1, [])
         else (let port = htons (word_of_int (wd_port w)); inaddr = us_inet_addr sys (c_str (wd_host w))
               in if inaddr = INADDR_NONE
                  then (case us_host sys (c_str (wd_host w)) of
                          None \<Rightarrow> (- 1, w1\<lparr>wd_addr := Some (0, port)\<rparr>, [wd_fd w1])
                        | Some a \<Rightarrow> (0, w1\<lparr>wd_addr := Some (a, port)\<rparr>, []))
                  else (0, w1\<lparr>wd_addr := Some (inaddr, port)\<rparr>, [])))"

definition watchdog_destroy :: "watchdog \<Rightarrow> watchdog \<times> int list" where
  "watchdog_destroy w = (if wd_fd w > - 1 then (w\<lparr>wd_fd := - 1\<rparr>, [wd_fd w]) else (w, []))"

definition watchdog_write :: "udp_sys \<Rightarrow> byte list \<Rightarrow> watchdog \<Rightarrow> int" where
  "watchdog_write sys buf w = (if us_sendto sys (wd_fd w) (wd_addr w) buf < 0 then - 1 else 0)"

text \<open>The texts are what is handed to \<open>write\<close>; \<open>msec\<close> is the time in milliseconds, and \<open>logtimer\<close> an \<open>int\<close>. The functions that
  send them return 0 whatever \<open>write\<close> does, so the model gives its result, too.\<close>

definition logtimer :: "int \<Rightarrow> int" where
  "logtimer msec = sint (word_of_int (msec div 1000) :: u32)"

definition leave_text :: "int \<Rightarrow> int \<Rightarrow> byte list \<Rightarrow> int \<Rightarrow> byte list" where
  "leave_text msec user ip sid =
     take 999 (padded False 0 UDP_SERVER_CLIENT_CLOSE_LOG @ [0x23] @ padded False 0 (logtimer msec) @ [0x23] @ padded False 0 user @
       [0x23] @ c_str ip @ [0x3A] @ padded False 0 sid @ [0x0D, 0x0A])"

definition count_text :: "int \<Rightarrow> int \<Rightarrow> byte list \<Rightarrow> int \<Rightarrow> byte list" where
  "count_text msec count ip port =
     take 999 (padded False 0 UDP_SERVER_USER_COUNT @ [0x23] @ padded False 0 (logtimer msec) @ [0x23] @ c_str ip @ [0x3A] @
       padded False 0 port @ [0x23] @ padded False 0 count @ [0x0D, 0x0A])"

definition writeUserLeaveHall :: "udp_sys \<Rightarrow> int \<Rightarrow> int \<Rightarrow> byte list \<Rightarrow> int \<Rightarrow> watchdog \<Rightarrow> int \<times> int" where
  "writeUserLeaveHall sys msec user ip sid w = (0, watchdog_write sys (leave_text msec user ip sid) w)"

definition writeHallUserCount :: "udp_sys \<Rightarrow> int \<Rightarrow> int \<Rightarrow> byte list \<Rightarrow> int \<Rightarrow> watchdog \<Rightarrow> int \<times> int" where
  "writeHallUserCount sys msec count ip port w = (0, watchdog_write sys (count_text msec count ip port) w)"

definition writeCommonLog :: "udp_sys \<Rightarrow> byte list \<Rightarrow> watchdog \<Rightarrow> int \<times> int" where
  "writeCommonLog sys info w = (0, watchdog_write sys info w)"

section \<open>CProxyModule\<close>

text \<open>The default constructor of \<open>clib_log\<close>, and \<open>set_file\<close> with an absolute path.\<close>

definition new_clib_log :: clib_log where
  "new_clib_log = \<lparr>ms_file = [], ms_tformat = bytes_of ''[%Y-%m-%d %H:%M:%S] '', ms_eol = [0x0A], mi_level = 0, mi_maxfile = 5,
     mi_maxsize = 1024 * 1024 * 10\<rparr>"

definition set_file :: "byte list option \<Rightarrow> clib_log \<Rightarrow> int \<times> clib_log" where
  "set_file f l = (case f of None \<Rightarrow> (- 1, l) | Some t \<Rightarrow> (0, l\<lparr>ms_file := take 1023 (c_str t)\<rparr>))"

text \<open>The two logs; \<open>name\<close> is the start of the name, the number of the process follows.\<close>

definition open_log :: "byte list \<Rightarrow> nat \<Rightarrow> clib_log" where
  "open_log name pid =
     (let l1 = snd (set_file (Some (take 99 (name @ decimal pid))) new_clib_log);
          l2 = snd (set_level 5 l1);
          l3 = snd (set_maxfile 5 l2);
          l4 = snd (set_maxsize 10240000 l3)
      in snd (set_timeformat (Some (bytes_of ''[%Y-%m-%d %H:%M:%S] '')) l4))"

record 'c proxy =
  px_config :: daemon_config
  px_port :: int
  px_svid :: int
  px_ip :: "byte list"
  px_watchdog :: "watchdog option"
  px_redis :: "'c redis_server"
  px_debug :: clib_log
  px_error :: clib_log

record ('c, 'd, 'k) process =
  pr_proxy :: "'c proxy option"
  pr_redis :: 'd
  pr_loop :: "'k loop_state"
  pr_timers :: "timer_unit option"
  pr_pool :: "'c helper_pool"

record ('c, 'd, 'k, 'x) main_env =
  me_epoll :: "'k sys epoll"
  me_open :: open_env
  me_markup :: "'x markup"
  me_conn :: "('c, 'd) conn_api"
  me_udp :: udp_sys
  me_pid :: nat

definition arg :: "byte list list \<Rightarrow> nat \<Rightarrow> byte list option" where
  "arg argv i = (if i < length argv then Some (argv ! i) else None)"

text \<open>\<open>argv[1] != "-p" || argv[3] != "-s" || argv[5] != "-h"\<close>: a \<open>string\<close> made of \<open>NULL\<close> throws. The message of the failure prints
  the three arguments; past the end of \<open>argv\<close>, which is at \<open>argc\<close>, this is undefined.\<close>

definition params_ok :: "byte list list \<Rightarrow> bool option" where
  "params_ok argv = do {
     a \<leftarrow> arg argv 1;
     if a \<noteq> bytes_of ''-p'' then Some False
     else do {
       b \<leftarrow> arg argv 3;
       if b \<noteq> bytes_of ''-s'' then Some False
       else do { c \<leftarrow> arg argv 5; Some (c = bytes_of ''-h'') } } }"

text \<open>The part of \<open>open\<close> before the check of the values: the connection to Redis, the entry in \<open>HALLSERVER\<close>, and the logs. The
  results of \<open>Connect\<close> and \<open>SetInfo\<close>, and of \<open>init\<close> of the watchdog, are not looked at.\<close>

definition announce ::
    "('c, 'd, 'k, 'x) main_env \<Rightarrow> daemon_config \<Rightarrow> int \<Rightarrow> int \<Rightarrow> byte list \<Rightarrow> 'd \<Rightarrow> ('c proxy \<times> 'd) option" where
  "announce me cfg port svid ip d = do {
     let wd = (if c_udpSwitch cfg \<noteq> 0
               then Some (fst (snd (watchdog_init (me_udp me) (new_watchdog (c_udpIp cfg) (c_udpPort cfg))))) else None);
     (_, r) \<leftarrow> rs_Connect (me_conn me) d (c_redisIp cfg) (c_redisPort cfg) new_redis_server;
     (_, d1) \<leftarrow> rs_SetInfo (me_conn me) ip port svid r d;
     Some (\<lparr>px_config = cfg, px_port = port, px_svid = svid, px_ip = ip, px_watchdog = wd, px_redis = r,
            px_debug = open_log (bytes_of ''../log/debug.'') (me_pid me), px_error = open_log (bytes_of ''../log/error.'') (me_pid me)\<rparr>, d1) }"

definition proxy_open ::
    "('c, 'd, 'k, 'x) main_env \<Rightarrow> byte list list \<Rightarrow> ('c, 'd, 'k) process \<Rightarrow> (int \<times> ('c, 'd, 'k) process) option" where
  "proxy_open me argv p = (case DaemonInit (me_markup me) (me_pid me) (Some (bytes_of ''../conf/config.xml'')) of
     Inl _ \<Rightarrow> Some (- 1, p)
   | Inr cfg \<Rightarrow> do {
       ok \<leftarrow> params_ok argv;
       if \<not> ok then (if 5 \<le> length argv then Some (- 1, p) else None)
       else do {
         a2 \<leftarrow> arg argv 2;
         a4 \<leftarrow> arg argv 4;
         ip \<leftarrow> arg argv 6;
         let port = atoi a2;
         let svid = atoi a4;
         (px, d1) \<leftarrow> announce me cfg port svid ip (pr_redis p);
         let p1 = p\<lparr>pr_proxy := Some px, pr_redis := d1\<rparr>;
         if port \<le> 0 \<or> svid \<le> 0 then Some (- 1, p1)
         else do {
           (r, tu, s, hp) \<leftarrow> incoming_open (me_epoll me) (me_open me) cfg (me_markup me) (ca_hiredis (me_conn me)) d1 (pr_loop p1) (pr_pool p1);
           let p2 = p1\<lparr>pr_loop := s, pr_timers := tu, pr_pool := hp\<rparr>;
           Some (if r < 0 then - 1 else 0, p2) } } })"

definition proxy_run :: "'k loop_env \<Rightarrow> ('c, 'd, 'k) process \<Rightarrow> (int \<times> ('c, 'd, 'k) process) option" where
  "proxy_run le p = do {
     tu \<leftarrow> pr_timers p;
     (_, s) \<leftarrow> incoming_run le tu 0 (pr_loop p);
     Some (0, p\<lparr>pr_loop := s\<rparr>) }"

definition proxy_main ::
    "('c, 'd, 'k, 'x) main_env \<Rightarrow> 'k loop_env \<Rightarrow> byte list list \<Rightarrow> ('c, 'd, 'k) process \<Rightarrow> (int \<times> ('c, 'd, 'k) process) option" where
  "proxy_main me le argv p = do {
     (iRet, p1) \<leftarrow> proxy_open me argv p;
     if iRet \<noteq> 0 then Some (0, p1) else do { (_, p2) \<leftarrow> proxy_run le p1; Some (0, p2) } }"

section \<open>The server as a program\<close>

definition config_xml :: "byte list" where
  "config_xml = bytes_of ''../conf/config.xml''"







text \<open>Missing arguments. Called with fewer than seven arguments, and none that is wrong, the server does not report the
  format of its parameters: it makes a string of a null pointer, or reads past the arguments.\<close>

theorem missing_arguments_end:
  assumes "DaemonInit (me_markup me) (me_pid me) (Some config_xml) = Inr cfg"
    and "argv = take n [prog, bytes_of ''-p'', a, bytes_of ''-s'', b, bytes_of ''-h'']"
  shows "proxy_main me le argv p = None"
proof -
  have "n = 0 \<or> n = 1 \<or> n = 2 \<or> n = 3 \<or> n = 4 \<or> n = 5 \<or> 6 \<le> n" by arith
  then show ?thesis using assms
    by (elim disjE) (auto simp: proxy_main_def proxy_open_def config_xml_def params_ok_def arg_def numeral_2_eq_2 numeral_3_eq_3 numeral_eq_Suc)
qed

section \<open>Examples\<close>

definition ex_main_conn :: "(unit, unit) conn_api" where
  "ex_main_conn = \<lparr>ca_hiredis = ex_hiredis, ca_connect = \<lambda>d ip port. Some (), ca_err = \<lambda>c. False, ca_set_timeout = \<lambda>c tv. 0,
     ca_write = \<lambda>m. bytes_of ''{}''\<rparr>"

definition ex_main :: "(unit, unit, unit, xml_cursor) main_env" where
  "ex_main = \<lparr>me_epoll = ex_sys_epoll, me_open = ex_open, me_markup = ex_both, me_conn = ex_main_conn,
     me_udp = \<lparr>us_socket = 9, us_inet_addr = \<lambda>h. 0x0100007F, us_host = \<lambda>h. None, us_sendto = \<lambda>fd a b. int (length b)\<rparr>, me_pid = 7\<rparr>"

definition ex_process :: "(unit, unit, unit) process" where
  "ex_process = \<lparr>pr_proxy = None, pr_redis = (), pr_loop = ex_start, pr_timers = None, pr_pool = ex_pool\<rparr>"


lemma ex_main_config: "\<exists>cfg. DaemonInit (me_markup ex_main) (me_pid ex_main) (Some config_xml) = Inr cfg"
  using ex_config by (simp add: ex_main_def config_xml_def)




theorem missing_arguments_end_witness:
  "proxy_main ex_main ex_loop_env [bytes_of ''proxy'', bytes_of ''-p'', bytes_of ''7000''] ex_process = None"
proof -
  obtain cfg where cfg: "DaemonInit (me_markup ex_main) (me_pid ex_main) (Some config_xml) = Inr cfg" using ex_main_config by blast
  show ?thesis by (rule missing_arguments_end [OF cfg, of _ 3]) (simp add: numeral_3_eq_3)
qed

end
