(* ===== verification/Net.thy ===== *)
theory Net
  imports HelperUnit
begin

text \<open>
  Sockets: the functions of \<open>CNet\<close> (\<open>core/net.cpp\<close>). The kernel's answers are an
  argument; the model keeps what the callers depend on: the result, the socket, which sockets were closed, and
  whether \<open>errno\<close> is \<open>EINPROGRESS\<close> at the end. Socket options do not influence any of these.
\<close>

definition SOCKET_INVALID :: int where "SOCKET_INVALID = - 1"
definition SOCKET_CREATE_FAILED :: int where "SOCKET_CREATE_FAILED = - 2"

section \<open>Connecting\<close>

datatype connect_answer = ConnectOk | ConnectInProgress | ConnectError

text \<open>\<open>k_poll\<close> is the result of \<open>poll\<close> within the timeout, \<open>k_getsockopt\<close> that of \<open>getsockopt\<close> and \<open>k_error\<close> the
  value it stores. A failing \<open>poll\<close> or \<open>getsockopt\<close> sets \<open>errno\<close> to a value of its own.\<close>

record kernel =
  k_socket :: int
  k_connect :: connect_answer
  k_poll :: int
  k_getsockopt :: int
  k_error :: int

definition tcp_connect :: "kernel \<Rightarrow> int \<times> int" where
  "tcp_connect k =
     (if k_socket k = - 1 then (SOCKET_CREATE_FAILED, - 1)
      else (case k_connect k of
              ConnectOk \<Rightarrow> (0, k_socket k)
            | ConnectError \<Rightarrow> (- 1, k_socket k)
            | ConnectInProgress \<Rightarrow>
                if k_poll k \<le> 0 then (- 1, k_socket k)
                else if k_getsockopt k < 0 then (- 1, k_socket k)
                else if k_error k \<noteq> 0 then (- 1, k_socket k)
                else (0, k_socket k)))"

definition errno_in_progress :: "kernel \<Rightarrow> bool" where
  "errno_in_progress k \<longleftrightarrow> k_socket k \<noteq> - 1 \<and> k_connect k = ConnectInProgress \<and> k_poll k \<ge> 0 \<and>
     (k_poll k = 0 \<or> k_getsockopt k \<ge> 0)"

text \<open>How \<open>reConnect\<close> tells the outcomes apart.\<close>

definition outcome :: "kernel \<Rightarrow> connect_result" where
  "outcome k =
     (let (ret, fd) = tcp_connect k
      in if ret < 0 then (if ret = SOCKET_CREATE_FAILED then ConnectFailed fd
                          else if \<not> errno_in_progress k then ConnectFailed fd
                          else InProgress fd)
         else Connected fd)"

definition unix_connect :: "kernel \<Rightarrow> int \<times> int" where
  "unix_connect k =
     (if k_socket k = - 1 then (SOCKET_CREATE_FAILED, - 1)
      else (if k_connect k = ConnectOk then 0 else - 1, k_socket k))"

section \<open>Binding\<close>

record bind_kernel =
  b_inet_pton :: "byte list \<Rightarrow> bool"
  b_socket :: int
  b_bind :: int
  b_listen :: int

text \<open>The address up to a colon.\<close>

definition bind_addr :: "byte list \<Rightarrow> byte list" where
  "bind_addr addr = takeWhile (\<lambda>c. c \<noteq> 0x3A) addr"

text \<open>The result and the sockets that were closed.\<close>

definition tcp_bind :: "bind_kernel \<Rightarrow> byte list \<Rightarrow> int \<times> int list" where
  "tcp_bind k addr =
     (let a = bind_addr addr
      in if a \<noteq> bytes_of ''*'' \<and> \<not> b_inet_pton k a then (- 1, [])
         else if b_socket k = - 1 then (- 1, [])
         else if b_bind k = - 1 then (- 1, [b_socket k])
         else if b_listen k = - 1 then (- 1, [b_socket k])
         else (b_socket k, []))"

definition udp_bind :: "bind_kernel \<Rightarrow> byte list \<Rightarrow> int \<times> int list" where
  "udp_bind k addr =
     (let a = bind_addr addr
      in if a \<noteq> bytes_of ''*'' \<and> \<not> b_inet_pton k a then (- 1, [])
         else if b_socket k = - 1 then (- 1, [])
         else if b_bind k = - 1 then (- 1, [b_socket k])
         else (b_socket k, []))"

section \<open>UNIX sockets\<close>

text \<open>\<open>sun_path\<close> and the length of the address, for a path without a zero byte.\<close>

definition init_unix_addr :: "byte list \<Rightarrow> byte list \<times> nat" where
  "init_unix_addr path = (let p = take 107 path in (p @ replicate (108 - length p) 0, 110))"

definition unix_bind :: "bind_kernel \<Rightarrow> int \<times> int list" where
  "unix_bind k =
     (if b_socket k = - 1 then (- 1, [])
      else if b_bind k = - 1 then (- 1, [b_socket k])
      else if b_listen k = - 1 then (- 1, [b_socket k])
      else (b_socket k, []))"

text \<open>
  The result, the sockets that were closed, and the address that is bound: the first byte of the path is cleared after the length has been taken.
\<close>

definition init_udp_unix :: "bind_kernel \<Rightarrow> byte list \<Rightarrow> int \<times> int list \<times> byte list" where
  "init_udp_unix k path =
     (let p = take 107 path; a = (if p = [] then [] else 0 # drop 1 p)
      in if b_socket k = - 1 then (- 1, [], a)
         else if b_bind k = - 1 then (- 1, [], a)
         else (b_socket k, [], a))"

text \<open>How \<open>select\<close> ends; when it fails, the set still holds the socket. Without a positive time it waits for ever.\<close>

datatype select_answer = SelectReady | SelectTimeout | SelectFails

definition wait_udp_unix :: "int \<Rightarrow> select_answer \<Rightarrow> int option" where
  "wait_udp_unix nTimeout a =
     (case a of
        SelectReady \<Rightarrow> Some 0
      | SelectTimeout \<Rightarrow> if nTimeout > 0 then Some (- 1) else None
      | SelectFails \<Rightarrow> Some 0)"

section \<open>Properties\<close>

text \<open>A socket that cannot be bound is closed by \<open>unix_bind\<close>, \<open>tcp_bind\<close> and \<open>udp_bind\<close>, but not by \<open>init_udp_unix\<close>.\<close>

lemma bind_failure_closes:
  assumes "b_socket k \<ge> 0" "b_bind k = - 1"
  shows "unix_bind k = (- 1, [b_socket k])" "snd (tcp_bind k (bytes_of ''*'')) = [b_socket k]"
    "snd (udp_bind k (bytes_of ''*'')) = [b_socket k]" "fst (snd (init_udp_unix k path)) = []"
proof -
  have "bind_addr (bytes_of ''*'') = bytes_of ''*''" by code_simp
  then show "unix_bind k = (- 1, [b_socket k])" "snd (tcp_bind k (bytes_of ''*'')) = [b_socket k]"
    "snd (udp_bind k (bytes_of ''*'')) = [b_socket k]" "fst (snd (init_udp_unix k path)) = []"
    using assms by (simp_all add: unix_bind_def tcp_bind_def udp_bind_def init_udp_unix_def Let_def)
qed

definition established :: "kernel \<Rightarrow> bool" where
  "established k \<longleftrightarrow> k_socket k \<noteq> - 1 \<and>
     (k_connect k = ConnectOk \<or>
      k_connect k = ConnectInProgress \<and> k_poll k > 0 \<and> k_getsockopt k \<ge> 0 \<and> k_error k = 0)"

lemma tcp_connect_established: "fst (tcp_connect k) \<ge> 0 \<longleftrightarrow> established k"
  by (auto simp: tcp_connect_def established_def SOCKET_CREATE_FAILED_def split: connect_answer.splits)

lemma tcp_connect_result: "fst (tcp_connect k) \<in> {0, - 1, SOCKET_CREATE_FAILED}" "snd (tcp_connect k) = k_socket k"
  by (auto simp: tcp_connect_def split: connect_answer.splits)

lemma outcome_cases:
  "established k \<Longrightarrow> outcome k = Connected (k_socket k)"
  "\<not> established k \<Longrightarrow> outcome k \<in> {ConnectFailed (k_socket k), InProgress (k_socket k)}"
  using tcp_connect_established [of k] tcp_connect_result(2) [of k]
  by (auto simp: outcome_def Let_def split: prod.splits)

text \<open>
  C30: A helper that is not connected queues its packet and tries to connect within the timeout: the packet
  reaches the socket exactly when the connection is established in that time and there is a slot in the poller.
  Otherwise the packet and everything queued before it is lost, and the helper is back in its initial state.
\<close>

theorem send_connects_or_forgets:
  assumes "hu_stage h = CONN_IDLE" and "\<not> hu_attached h" and "bs \<noteq> []"
    and "k_socket k \<ge> - 1" and "n \<le> length (hu_w h @ bs)"
  shows "send_to_logic (outcome k) slot (Sent n) (append_pkg bs h) =
           (if established k \<and> slot
            then (int n, h\<lparr>hu_w := drop n (hu_w h @ bs), hu_fd := k_socket k, hu_attached := True, hu_errors := 0,
                   hu_new_in := True, hu_old_in := True,
                   hu_new_out := (if n = length (hu_w h @ bs) then False else True),
                   hu_old_out := (if n = length (hu_w h @ bs) then False else True),
                   hu_stage := (if n = length (hu_w h @ bs) then CONN_SEND_DONE else CONN_DATA_SENDING)\<rparr>)
            else (- 1, h\<lparr>hu_w := [], hu_r := [], hu_fd := - 1, hu_new_in := False, hu_new_out := False\<rparr>))"
proof (cases "established k")
  case True
  then have "k_socket k \<ge> 0" using assms(4) by (auto simp: established_def)
  with True assms show ?thesis
    by (simp add: outcome_cases(1) send_to_logic_def hu_connect_def hu_attach_def append_pkg_def
        send_to_cgi_def hu_ApplyEvents_def reset_helper_def hu_events_def Let_def)
next
  case False
  then have "outcome k \<in> {ConnectFailed (k_socket k), InProgress (k_socket k)}" by (rule outcome_cases(2))
  with False assms show ?thesis
    by (auto simp: send_to_logic_def hu_connect_def append_pkg_def reset_helper_def hu_ApplyEvents_def hu_events_def)
qed

theorem send_connects_or_forgets_witness:
  "send_to_logic (outcome \<lparr>k_socket = 7, k_connect = ConnectInProgress, k_poll = 0, k_getsockopt = 0, k_error = 0\<rparr>)
     True (Sent 2) (append_pkg [1, 2, 3] new_helper_unit) = (- 1, new_helper_unit\<lparr>hu_fd := - 1\<rparr>)"
  by (subst send_connects_or_forgets) (simp_all add: new_helper_unit_def established_def)

end
