(* ===== verification/Spec2Isabelle.thy ===== *)
theory Spec2Isabelle
  imports ShmMap CoreConfigProps MemCheck TmTask ExtendHttp Locks Atomic HexDump ClibColour ClientPacket ClientProps RawCache Pipeline Startup Poller TimerList HelperUnit ServerMain Net
begin

text \<open>
  OrderSync moves payment orders between two sites. A shop puts the JSON text of each order into a Redis
  list on its side. The synchronisation client (\<open>OrderSyncClient\<close>) takes the orders off that list one by one,
  completes them from the shop's MySQL database, and sends each in a packet over TCP to the
  synchronisation server (\<open>OrderSyncServer\<close>). The server decodes the packet, appends the order to the list
  \<open>ORDER_Q\<close> of one of its Redis servers, chosen by the order number, and acknowledges it. The database
  writer (\<open>OrderDbSync\<close>) takes the orders off that list, rewrites the table name and the primary key in
  the SQL text, and executes it on the other site's database.

  \<^bold>\<open>The parts and their theories\<close>

  \<^item> \<open>Prelude\<close>: bytes, words, byte order, partial access to byte arrays, and the collections of facts shared
    by the components. \<open>Codec\<close>: the two substitution tables of \<open>packet.cc\<close> and \<open>EncryptDecrypt.cpp\<close>, inverse
    to each other. \<open>Wire\<close>: the format of a frame, as a specification; it models no code.
  \<^item> \<open>ClientPacket\<close>: \<open>packet_t\<close> of the client (\<open>OrderSyncClient/src/packet.cc\<close>). \<open>ServerPacket\<close>: \<open>PacketBase\<close>,
    \<open>InputPacket\<close>, \<open>OutputPacket\<close> (\<open>proxy/ICHAT_PacketBase.h\<close>) and \<open>CEncryptDecrypt\<close>. Both build and accept
    exactly the frames of \<open>Wire\<close>; this is what lets the two programs talk.
  \<^item> \<open>MemPool\<close> (\<open>proxy/mempool.cpp\<close>) and \<open>RawCache\<close> (\<open>proxy/cache.cpp\<close>): the pool of blocks and the buffers of
    the connections; a buffer refines a byte list, which is how the connections below model it.
  \<^item> \<open>Services\<close>: the interfaces of Redis (hiredis) and of the JSON library, and the Redis helper of the server.
    \<open>RedisCopies\<close>: the copies of the helper in the other two programs. \<open>CText\<close>: \<open>snprintf\<close>, \<open>std::string::find\<close>
    and \<open>replace\<close>. \<open>Mysql\<close>: the MySQL helpers.
  \<^item> \<open>ClientConn\<close> and \<open>ClientProps\<close>: a client's connection in the server (\<open>proxy/client_unit.cpp\<close>) and the
    unit that owns it (\<open>proxy/decode_unit.cpp\<close>). \<open>HelperUnit\<close>: the connection to a logic server; \<open>GameUnit\<close>: the
    one to a game server; \<open>Hall\<close>: the pool of logic servers (\<open>proxy/CHelper_pool.h\<close>) and the packets the server
    sends them of its own accord (\<open>decode_unit.cpp\<close>, \<open>incoming.cpp\<close>, \<open>RealTimer.cpp\<close>, \<open>client_unit.cpp\<close>).
  \<^item> \<open>ServerUtil\<close>: the helpers of \<open>proxy/global.cpp\<close>, round robin and splitting. \<open>Net\<close>: connecting and binding
    (\<open>core/net.cpp\<close>). \<open>Listener\<close>: accepting (\<open>proxy/listener.cpp\<close>). \<open>ServerConfig\<close>: the XML configuration
    (\<open>global.cpp\<close>, \<open>incoming.cpp\<close>, \<open>ResetHelperUnit\<close> and \<open>ResetIpMap\<close> of \<open>client_unit.cpp\<close>). \<open>ServerLoop\<close>: \<open>CIncoming::open\<close>
    and \<open>CIncoming::run\<close>, which put poller, timers, listener and configuration together. \<open>ServerMain\<close>: \<open>main\<close> and
    \<open>CProxyModule\<close> (\<open>proxy_module.cpp\<close>), the announcement in Redis (\<open>RedisServer.cpp\<close>) and the monitoring (\<open>watchdog.cpp\<close>).
  \<^item> \<open>Logging\<close>: the log files of the three programs (\<open>Log.cc\<close>, \<open>log.cc\<close>, \<open>log.cpp\<close>) and \<open>proxy/clib_log.cpp\<close>.
    \<open>ClibColour\<close>: the colouring by user numbers of the latter.
  \<^item> \<open>ListHead\<close> (\<open>include/list.h\<close>), \<open>TimerList\<close> (\<open>core/timerlist.cpp\<close>), \<open>Poller\<close> (\<open>core/poller.cpp\<close>): what the
    server's event loop rests on.
  \<^item> \<open>SyncClient\<close>: the client's main loop, its connection, its fetcher and its poller. \<open>DbSync\<close>: \<open>sync_order\<close> of the
    database writer. \<open>IniFile\<close>: the configuration files. \<open>Startup\<close>: the start of both programs.
  \<^item> \<open>ShmHash\<close>, \<open>ShmHashProps\<close>, \<open>ShmMap\<close>: the hash map for shared memory (\<open>include/HashMap.hpp\<close>, \<open>HashMapImp.hpp\<close>,
    \<open>ShmHashMap.hpp\<close>), which comes with the server but is not used by it: its operations, its invariant, and what it implements.
  \<^item> \<open>CoreConfig\<close>, \<open>CoreConfigProps\<close>: the configuration files of the server's core library (\<open>core/config.cpp\<close>).
  \<^item> \<open>MemCheck\<close>: the table of allocated blocks of a build with \<open>MEMCHECK\<close> (\<open>core/memcheck.cpp\<close>).
    \<open>TmTask\<close>: the process that writes the time into shared memory, and its readers (\<open>core/tm_task.cpp\<close>), side by side.
    \<open>SocketClass\<close>: \<open>CSocketAddr\<close> and \<open>CSocket\<close> (\<open>proxy/socket.cpp\<close>).
    \<open>ExtendHttp\<close>: \<open>CExtendHttpHead\<close> (\<open>include/extend_http.h\<close>). \<open>Atomic\<close>: \<open>include/atomic_gcc.h\<close> and \<open>atomic_gcc8.h\<close>.
    \<open>HexDump\<close>: the dump of a packet (\<open>proxy/decode_unit.cpp\<close>).
    \<open>Locks\<close>: the semaphores between processes (\<open>include/shm_lock.hpp\<close>, \<open>ShmHashMap.hpp\<close>, \<open>clib_log.cpp\<close>) and \<open>CShmHashMap::Init\<close>.
  \<^item> \<open>Pipeline\<close> and this theory: the three programs composed.

  \<^bold>\<open>State and operations\<close>

  A class is a record with a field for each member that matters, a method is a function from the record
  (and what else it can reach) to the result and the record afterwards. Machine integers have their width;
  where C++ leaves signed overflow undefined the operation is partial. \<open>None\<close> is undefined behaviour or an
  uncaught exception: the process is gone, or it never returns (\<open>process_pkg\<close>, \<open>send_loop\<close>, \<open>exchange\<close>,
  \<open>fetch_order\<close>, \<open>expire_loop\<close>, \<open>FreeList\<close>, \<open>listener_InputNotify\<close>, \<open>incoming_run\<close>, \<open>log_rotate\<close> and the loops over the
  XML document are \<open>partial_function\<close>s, so a loop that does not end is
  \<open>None\<close> too). Addresses are natural numbers: blocks of the pool, list nodes, poller objects, slots.
  What is outside of the programs is an argument: system calls (\<open>sys\<close>, \<open>epoll\<close>, \<open>send_result\<close>), hiredis, MySQL,
  the JSON and the XML library, \<open>malloc\<close>, the clock. What the code relies on of them is a named predicate
  (\<open>keeps_lists\<close>, \<open>mysql_logs\<close>, \<open>socket_ok\<close>), and each is shown to be satisfiable by the witness of the
  theorem that uses it.

  \<^bold>\<open>What the lemmas show\<close>

  \<^item> Packets: frames are built and accepted on both sides, a damaged byte is noticed, reads and writes of the
    server's packets stay inside the buffer; the bounds that the client's packets lack.
  \<^item> Memory: the pool hands out blocks no one else holds and keeps those in use; buffers are queues.
  \<^item> The server's connection: an invariant of a live connection, independence of how TCP cuts the stream, no
    reply byte lost or repeated, and the effect of a data request on Redis and on the wire.
  \<^item> The event loop: the slot table is well formed after any operations, late events are not delivered to the
    next owner of a slot and current ones are delivered to the right object; timer lists stay in the order of expiry, the
    timers of connections fire exactly when due and in order and close just their connections, and the loop waits exactly
    as long as it may.
  \<^item> The server as a whole: with usable arguments and a usable configuration \<open>main\<close> announces and opens it; it takes all
    waiting connections; after a reload its tables are those of the file, and it finds a server for every configured level;
    the errors of \<open>accept\<close> that it does not survive. That the loop keeps the poller's table (\<open>server_keeps_table\<close>) is shown for
    rounds that return, and for callbacks of which only the hang-up does something (\<open>closing_handler\<close>): the loop is
    not composed with the input and output of the connections, which are treated one by one.
  \<^item> Parts that the program does not reach: nothing connects a game unit (\<open>packets_relayed\<close> of \<open>GameUnit\<close> is about the class), and
    \<open>ProcessUserClose\<close> (\<open>user_close_reported\<close> of \<open>Hall\<close>) is never called, because no connection gets the type \<open>CONN_CLINET\<close>.
  \<^item> Logs: the files stay bounded and nothing but them is touched; rotation keeps the recent ones.
  \<^item> Client and database writer: sending ends with all or nothing, an order's packet is a frame, the oldest order
    is executed once; which orders get lost.
  \<^item> The shared-memory map: chains, free list and list of use stay consistent, and every sequence of operations behaves like
    the list of the entries, last used first, as long as \<open>Insert\<close> gets new keys; inserting a key that is there adds a second one.
  \<^item> The core library: the counted memory is that of the live blocks, and the report names those left over; a semaphore lets in
    one process at a time as long as the kernel gives it answers it can deal with; the two halves of the shared time
    belong together for a reader that starts between two updates, and can be torn for others; addresses, the header of
    requests, the dump of a packet and the colours of users are what they are meant to be, with the exceptions listed.
  \<^item> Configuration: a value written is read back; settings dumped to a file are read back as they were; which keys answer a request.
  \<^item> The whole way: the orders of the client's queue reach the database, once each and in order.

  The interfaces between components are locales: what a packet needs of its substitution tables
  (\<open>body_codec\<close> in \<open>Codec\<close>, interpreted on the four pairings of client and server), what a connection
  needs of its buffer (\<open>byte_queue\<close> in \<open>RawCache\<close>), what the event loop needs of a callback
  (\<open>event_handler\<close> in \<open>Poller\<close>), what checking timers needs of a notification (\<open>timer_callback\<close> in
  \<open>TimerList\<close>), and what a timer must leave alone (\<open>world_invariant\<close> in \<open>ServerLoop\<close>); each is interpreted on the definitions that model the code.

  \<^bold>\<open>Bounds\<close>

  The buffers have the sizes of the code: 8192 bytes for a server packet, 16384 for a client packet, 1024 for the
  client's receive buffer, 16384 for a configuration file. A request fits up to 7975 bytes of order text.
  Sequence numbers of slots have 32 bits, so a late event is recognised for \<open>2 ^ 32 - 1\<close> operations. No fuel is
  used anywhere.

  \<^bold>\<open>Not modelled\<close>

  jsoncpp and CMarkup (third-party; parameters of the model); the fork of the daemon and the signals; mutexes within a process, shared
  memory segments, the atomics in assembler, and the chunk allocator of the shared-memory map, of
  which only the declaration is there (a parameter); floating-point fields of packets (text conversion of the C++ library).
\<close>

section \<open>The whole way of an order\<close>

text \<open>
  C1: The orders in the client's queue reach the database, all of them, each once and in order: after one
  round of the client per order and one \<open>sync_order\<close> per order, both queues are empty and the
  database has executed exactly the statements of the orders, oldest first. This is for orders that need no
  completion from the shop's database (none of type 1) and have at most 7975 bytes, for a server with one Redis
  server, and for a network that delivers every exchange.
\<close>

theorem orders_reach_database:
  assumes link: "linked cenv env redis queues" and rdy: "ready cenv s w"
    and orders: "mine w (ce_redis_key cenv) = jsons" "list_all (plain_order cenv env) jsons"
      "list_all (storable denv) jsons"
    and server: "m_redis_map (pool (srv w)) = [(1, redis)]" "queues (db (srv w)) (bytes_of ''ORDER_Q'') = []"
    and dredis: "keeps_lists (de_redis denv) dctx queues" "r_context r = Some dctx"
    and mysql: "mysql_keeps (de_mysql denv) queues" "mysql_logs (de_mysql denv) executed"
      "redis_keeps (de_redis denv) executed"
  shows "\<exists>s' w' d'. rounds (length jsons) cenv s w = Some (s', w') \<and>
    mine w' (ce_redis_key cenv) = [] \<and> oc_event_id s' = oc_event_id s + of_nat (length jsons) \<and>
    drain (length jsons) denv r (db (srv w')) = Some (r, d') \<and>
    queues d' (bytes_of ''ORDER_Q'') = [] \<and>
    executed d' = executed (db (srv w')) @ map (statement denv) jsons"
proof -
  obtain s' w' where c: "rounds (length jsons) cenv s w = Some (s', w')" "ready cenv s' w'"
    "mine w' (ce_redis_key cenv) = []"
    "queues (db (srv w')) = (queues (db (srv w)))
        (bytes_of ''ORDER_Q'' := queues (db (srv w)) (bytes_of ''ORDER_Q'') @ jsons)"
    "oc_event_id s' = oc_event_id s + of_nat (length jsons)"
    using orders_delivered [OF link rdy orders(2,1) server(1)] by blast
  have q: "queues (db (srv w')) (bytes_of ''ORDER_Q'') = jsons @ []" using c(4) server(2) by simp
  obtain d' where "drain (length jsons) denv r (db (srv w')) = Some (r, d')"
    "queues d' (bytes_of ''ORDER_Q'') = []"
    "executed d' = executed (db (srv w')) @ map (statement denv) jsons"
    using drain_ok [where queues = queues and executed = executed, OF dredis mysql q orders(3)] by blast
  with c show ?thesis by blast
qed

text \<open>An instance: two orders.\<close>

definition ex_link_json :: "byte list json_rw" where
  "ex_link_json = \<lparr>j_parse = Some, j_uint64 = (\<lambda>v f. Some 7), j_int64 = (\<lambda>v f. Some 1),
     j_int = (\<lambda>v f. Some 0), j_string = (\<lambda>v f. Some v), j_put_int = (\<lambda>v f i. v), j_write = (\<lambda>v. v)\<rparr>"

definition ex_link_env :: "(unit, stores, byte list) env" where
  "ex_link_env = \<lparr>e_send = (\<lambda>n. Sent 17), e_redis = ex_pair_redis, e_json = json.truncate ex_link_json,
     e_in = \<lparr>m_strBuf = replicate 8192 0, m_nPacketSize = 0, m_nBufPos = 0\<rparr>,
     e_out = \<lparr>m_strBuf = replicate 8192 0, m_nPacketSize = 0, m_nBufPos = 0, m_isCheckCode = False\<rparr>,
     e_user_close = (\<lambda>s. s)\<rparr>"

definition ex_link_cenv :: "(unit, (unit, stores) net, byte list) cl_env" where
  "ex_link_cenv = \<lparr>ce_sys = net_sys ex_link_env, ce_redis = net_redis, ce_json = ex_link_json,
     ce_mysql = ex_mysql 0, ce_helper = \<lparr>m_host = [], m_port = 0, m_user = [], m_passwd = []\<rparr>,
     ce_malloc = (\<lambda>n. Some (replicate n 0)), ce_efd = 3, ce_redis_key = [0x51], ce_mysql_db = [],
     ce_client_id = 1001\<rparr>"

definition ex_link_denv :: "(unit, stores, byte list) db_env" where
  "ex_link_denv = \<lparr>de_redis = ex_pair_redis, de_json = json.truncate ex_link_json, de_mysql = ex_pair_mysql,
     de_helper = \<lparr>m_host = [], m_port = 0, m_user = [], m_passwd = []\<rparr>, de_db = [],
     de_conf = \<lparr>old_name = [0x7A, 0x7A], new_name = [0x6E]\<rparr>,
     de_localtime = (\<lambda>t. (114, 7)), de_now = 5, de_partition = True\<rparr>"

definition ex_link_client :: "unit order_client" where
  "ex_link_client = \<lparr>oc_f = ex_redis,
     oc_c = \<lparr>sock_fd = 4, sock_host = [], sock_port = 6666, IsConnected = True, event = 5\<rparr>,
     oc_out = new_packet, oc_in = new_packet, oc_event_id = 1\<rparr>"

definition ex_link_net :: "(unit, stores) net" where
  "ex_link_net = \<lparr>srv = \<lparr>cu = new_client_unit 5, du = \<lparr>du_id = 1, du_flag = 0, du_conn_type = CONN_OTHER\<rparr>,
       pool = \<lparr>m_cmdlist = [], m_objmap = (\<lambda>k. None), m_redis_map = [(1, ex_redis)]\<rparr>,
       db = (\<lambda>k. [], []), wire = [], sends = 0\<rparr>,
     seen = 0, mine = (\<lambda>k. [])([0x51] := [[0x31], [0x32]])\<rparr>"

lemmas ex_link_defs = ex_link_json_def ex_link_env_def ex_link_cenv_def ex_link_denv_def
  ex_link_client_def ex_link_net_def ex_redis_def json.defs

lemma ex_storable: "storable ex_link_denv [0x31]" "storable ex_link_denv [0x32]"
  by (simp_all add: storable_def order_sql_def ex_link_defs sync_get_table_name_def c_snprintf_def str_find_def)

theorem orders_reach_database_witness:
  "\<exists>s' w' d'. rounds (length [[0x31], [0x32 :: byte]]) ex_link_cenv ex_link_client ex_link_net = Some (s', w') \<and>
    mine w' (ce_redis_key ex_link_cenv) = [] \<and>
    oc_event_id s' = oc_event_id ex_link_client + of_nat (length [[0x31], [0x32 :: byte]]) \<and>
    drain (length [[0x31], [0x32 :: byte]]) ex_link_denv ex_redis (db (srv w')) = Some (ex_redis, d') \<and>
    fst d' (bytes_of ''ORDER_Q'') = [] \<and>
    snd d' = snd (db (srv w')) @ map (statement ex_link_denv) [[0x31], [0x32]]"
proof (rule orders_reach_database [where env = ex_link_env and redis = ex_redis and dctx = "()"])
  show "linked ex_link_cenv ex_link_env ex_redis fst"
    using ex_pair_ok(1) by (simp add: linked_def ex_link_cenv_def env_ok_def) (simp add: ex_link_defs)
  show "ready ex_link_cenv ex_link_client ex_link_net"
    by (simp add: ready_def ex_link_defs fresh_packet_def receptive_def new_packet_def new_client_unit_def)
  show "list_all (storable ex_link_denv) [[0x31], [0x32]]" using ex_storable by simp
  show "list_all (plain_order ex_link_cenv ex_link_env) [[0x31], [0x32]]"
    by (simp add: plain_order_def ex_link_defs)
qed (simp_all add: ex_link_defs ex_pair_ok)

end
